(* ===== verification/Substrat_Prelude.thy ===== *)
theory Substrat_Prelude
  imports Main "HOL-Library.Char_ord" "HOL-Library.List_Lexorder" "HOL-Library.Multiset"
begin

text \<open>
  The vocabulary every component theory shares.

  \<^item> Thrown errors as values: \<open>err\<close> and \<open>'a result\<close>, with \<open>bind_r\<close> for "the next
    statement", \<open>traverse\<close> for a loop that collects and \<open>first_hit\<close> for a loop that
    returns early.
  \<^item> JavaScript string operations on \<open>string\<close> (a \<open>char list\<close>): \<open>startsWith\<close>,
    \<open>indexOf\<close>, \<open>slice0\<close>, \<open>join\<close>; \<open>show_nat\<close> renders a number.  String comparison is the lexicographic order of
    \<open>HOL-Library.List_Lexorder\<close>; the source compares ISO-8601 UTC instants and ULIDs
    this way, which are ASCII.
  \<^item> SQL tables as lists of rows: \<open>row_where\<close> (a \<open>SELECT\<close> by primary key) and
    \<open>update_where\<close> (an \<open>UPDATE ... WHERE\<close>); sorting rows by a unique key.
\<close>

section \<open>Collections of facts\<close>

named_theorems monad_simps \<open>unfolding the result monad\<close>
named_theorems step_inv \<open>one operation keeps an invariant\<close>

section \<open>Errors as values\<close>

text \<open>The closed taxonomy of \<open>packages/contracts/src/errors.ts\<close>.\<close>

datatype error_code =
    Unauthenticated | Permission_Denied | Forbidden | Not_Found | Conflict
  | Validation_Failed | Precondition_Failed | Rate_Limited | Unavailable | Internal

text \<open>
  A thrown value: the platform's own error with its code, the narrowing \<open>reason\<close> slug
  where the code carries one, and its message; a bare \<open>Error\<close>; or the \<open>ZodError\<close> a
  schema's \<open>parse\<close> raises (only which schema refused is kept of it).
\<close>

datatype err =
    SubstratError error_code "string option" string
  | PlainError string
  | ZodError string

type_synonym 'a result = "err + 'a"

fun bind_r :: "'a result \<Rightarrow> ('a \<Rightarrow> 'b result) \<Rightarrow> 'b result" where
  "bind_r (Inl e) f = Inl e"
| "bind_r (Inr x) f = f x"

definition guard_r :: "bool \<Rightarrow> err \<Rightarrow> unit result" where
  "guard_r ok e = (if ok then Inr () else Inl e)"

fun is_ok :: "'a result \<Rightarrow> bool" where
  "is_ok (Inl e) = False"
| "is_ok (Inr x) = True"

text \<open>A loop that maps every element, stopping at the first throw.\<close>

fun traverse :: "('a \<Rightarrow> 'b result) \<Rightarrow> 'a list \<Rightarrow> 'b list result" where
  "traverse f [] = Inr []"
| "traverse f (x # xs) = bind_r (f x) (\<lambda>y. bind_r (traverse f xs) (\<lambda>ys. Inr (y # ys)))"

text \<open>A loop whose body may return early with a value.\<close>

fun first_hit :: "('a \<Rightarrow> 'b option result) \<Rightarrow> 'a list \<Rightarrow> 'b option result" where
  "first_hit f [] = Inr None"
| "first_hit f (x # xs) =
     bind_r (f x) (\<lambda>r. case r of Some y \<Rightarrow> Inr (Some y) | None \<Rightarrow> first_hit f xs)"

lemma bind_r_Inr_iff [monad_simps]: "bind_r m f = Inr y \<longleftrightarrow> (\<exists>x. m = Inr x \<and> f x = Inr y)"
  by (cases m) auto

lemma bind_r_Inl_iff [monad_simps]:
  "bind_r m f = Inl e \<longleftrightarrow> m = Inl e \<or> (\<exists>x. m = Inr x \<and> f x = Inl e)"
  by (cases m) auto

lemma bind_r_assoc: "bind_r (bind_r m f) g = bind_r m (\<lambda>x. bind_r (f x) g)"
  by (cases m) auto

lemma guard_r_simps [simp]:
  "guard_r True e = Inr ()" "guard_r False e = Inl e"
  by (simp_all add: guard_r_def)

lemma guard_r_Inr_iff [monad_simps]: "guard_r b e = Inr u \<longleftrightarrow> b"
  by (simp add: guard_r_def)

lemma guard_r_Inl_iff [monad_simps]: "guard_r b e = Inl e' \<longleftrightarrow> \<not> b \<and> e' = e"
  by (auto simp: guard_r_def)

lemma traverse_total:
  "(\<And>x. x \<in> set xs \<Longrightarrow> f x = Inr (g x)) \<Longrightarrow> traverse f xs = Inr (map g xs)"
  by (induction xs) auto

lemma traverse_cong [fundef_cong]:
  "xs = ys \<Longrightarrow> (\<And>x. x \<in> set ys \<Longrightarrow> f x = g x) \<Longrightarrow> traverse f xs = traverse g ys"
  by (induction xs arbitrary: ys) auto

lemma traverse_Inr_length: "traverse f xs = Inr ys \<Longrightarrow> length ys = length xs"
  by (induction xs arbitrary: ys) (auto simp: bind_r_Inr_iff)

lemma traverse_Inr_nth:
  "traverse f xs = Inr ys \<Longrightarrow> y \<in> set ys \<Longrightarrow> \<exists>x \<in> set xs. f x = Inr y"
  by (induction xs arbitrary: ys) (auto simp: bind_r_Inr_iff)

lemma traverse_Inr_arg: "traverse f xs = Inr ys \<Longrightarrow> x \<in> set xs \<Longrightarrow> \<exists>y. f x = Inr y"
  by (induction xs arbitrary: ys) (auto simp: bind_r_Inr_iff)

lemma first_hit_Some:
  "first_hit f xs = Inr (Some y) \<Longrightarrow> \<exists>x \<in> set xs. f x = Inr (Some y)"
  by (induction xs) (auto simp: bind_r_Inr_iff split: option.splits)

lemma first_hit_None:
  "first_hit f xs = Inr None \<longleftrightarrow> (\<forall>x \<in> set xs. f x = Inr None)"
  by (induction xs) (auto simp: bind_r_Inr_iff split: option.splits)

lemma first_hit_total:
  assumes "\<And>x. x \<in> set xs \<Longrightarrow> is_ok (f x)"
  shows "is_ok (first_hit f xs)"
  using assms
proof (induction xs)
  case Nil
  then show ?case by simp
next
  case (Cons x xs)
  then have "is_ok (f x)" by simp
  with Cons show ?case by (cases "f x") (auto split: option.splits)
qed

lemma is_ok_iff: "is_ok m \<longleftrightarrow> (\<exists>x. m = Inr x)"
  by (cases m) auto

lemma is_okE: "is_ok m \<Longrightarrow> \<exists>x. m = Inr x"
  by (cases m) auto

lemma is_ok_pairE: "is_ok m \<Longrightarrow> \<exists>x y. m = Inr (x, y)"
  by (cases m) auto

lemma is_ok_tripleE: "is_ok m \<Longrightarrow> \<exists>x y z. m = Inr ((x, y), z)"
  by (cases m) auto

lemma is_ok_bind: "is_ok (bind_r m f) \<longleftrightarrow> (\<exists>x. m = Inr x \<and> is_ok (f x))"
  by (cases m) auto

text \<open>
  \<open>decides Q m P\<close>: the search \<open>m\<close> does not throw, finds something exactly when \<open>P\<close>
  holds, and what it finds satisfies \<open>Q\<close>.  The two rules compose it along the two loop shapes.
\<close>

definition decides :: "('b \<Rightarrow> bool) \<Rightarrow> 'b option result \<Rightarrow> bool \<Rightarrow> bool" where
  "decides Q m P \<longleftrightarrow> (\<exists>r. m = Inr r \<and> (r \<noteq> None \<longleftrightarrow> P) \<and> (\<forall>d. r = Some d \<longrightarrow> Q d))"

lemma decides_None [intro]: "\<not> P \<Longrightarrow> decides Q (Inr None) P"
  by (simp add: decides_def)

lemma decides_Some [intro]: "P \<Longrightarrow> Q d \<Longrightarrow> decides Q (Inr (Some d)) P"
  by (simp add: decides_def)

lemma decides_first_hit:
  assumes "\<And>x. x \<in> set xs \<Longrightarrow> decides Q (f x) (P x)"
  shows "decides Q (first_hit f xs) (\<exists>x \<in> set xs. P x)"
  using assms
proof (induction xs)
  case Nil
  then show ?case by (simp add: decides_def)
next
  case (Cons x xs)
  then have x: "decides Q (f x) (P x)" and xs: "decides Q (first_hit f xs) (\<exists>x \<in> set xs. P x)"
    by simp_all
  then obtain r where "f x = Inr r" by (auto simp: decides_def)
  with x xs show ?case by (cases r) (auto simp: decides_def)
qed

lemma decides_or_else:
  assumes "decides Q m P" and "decides Q m' P'"
  shows "decides Q (bind_r m (\<lambda>r. case r of Some d \<Rightarrow> Inr (Some d) | None \<Rightarrow> m')) (P \<or> P')"
proof -
  from assms obtain r where "m = Inr r" by (auto simp: decides_def)
  with assms show ?thesis by (cases r) (auto simp: decides_def)
qed

lemma decides_iff: "P = P' \<Longrightarrow> decides Q m P \<Longrightarrow> decides Q m P'"
  by simp

section \<open>JavaScript strings\<close>

definition startsWith :: "string \<Rightarrow> string \<Rightarrow> bool" where
  "startsWith s p \<longleftrightarrow> take (length p) s = p"

text \<open>\<open>s.indexOf(c)\<close>: the first index of \<open>c\<close>, or \<open>-1\<close>.\<close>

definition indexOf :: "string \<Rightarrow> char \<Rightarrow> int" where
  "indexOf s c = (if c \<in> set s then int (length (takeWhile (\<lambda>x. x \<noteq> c) s)) else - 1)"

text \<open>\<open>s.slice(0, e)\<close>: a negative end counts from the end of the string.\<close>

definition slice0 :: "string \<Rightarrow> int \<Rightarrow> string" where
  "slice0 s e = (if e < 0 then take (nat (int (length s) + e)) s else take (nat e) s)"

text \<open>\<open>xs.join(sep)\<close>, and \<open>[...new Set(xs)]\<close>: first occurrences, in order.\<close>

fun join :: "string \<Rightarrow> string list \<Rightarrow> string" where
  "join sep [] = []"
| "join sep [x] = x"
| "join sep (x # xs) = x @ sep @ join sep xs"

definition unique_in_order :: "'a list \<Rightarrow> 'a list" where
  "unique_in_order xs = rev (remdups (rev xs))"

text \<open>A number in a template string: its decimal digits.\<close>

definition digit_char :: "nat \<Rightarrow> char" where
  "digit_char d = char_of (48 + d)"

fun show_nat :: "nat \<Rightarrow> string" where
  "show_nat n = (if n < 10 then [digit_char n] else show_nat (n div 10) @ [digit_char (n mod 10)])"

declare show_nat.simps [simp del]

lemma set_unique_in_order [simp]: "set (unique_in_order xs) = set xs"
  by (simp add: unique_in_order_def)

lemma distinct_unique_in_order [simp]: "distinct (unique_in_order xs)"
  by (simp add: unique_in_order_def)

lemma startsWith_append [simp]: "startsWith (p @ s) p"
  by (simp add: startsWith_def)

lemma startsWith_refl [simp]: "startsWith s s"
  by (simp add: startsWith_def)

lemma startsWith_iff: "startsWith s p \<longleftrightarrow> (\<exists>t. s = p @ t)"
  unfolding startsWith_def by (metis append_eq_conv_conj append_take_drop_id)

lemma startsWith_Nil [simp]: "startsWith s []"
  by (simp add: startsWith_def)

lemma startsWith_drop: "startsWith s p \<Longrightarrow> p @ drop (length p) s = s"
  by (metis append_take_drop_id startsWith_def)

lemma takeWhile_append_stop:
  "c \<notin> set xs \<Longrightarrow> takeWhile (\<lambda>x. x \<noteq> c) (xs @ c # ys) = xs"
  by (induction xs) auto

lemma slice0_indexOf: "c \<notin> set xs \<Longrightarrow> slice0 (xs @ c # ys) (indexOf (xs @ c # ys) c) = xs"
  by (simp add: slice0_def indexOf_def takeWhile_append_stop)

section \<open>Tables\<close>

text \<open>
  A table is the list of its rows.  \<open>row_where p\<close> is \<open>SELECT ... WHERE p\<close> followed by
  \<open>[0]\<close>; \<open>update_where\<close> is \<open>UPDATE ... SET f WHERE p\<close>.
\<close>

definition row_where :: "('r \<Rightarrow> bool) \<Rightarrow> 'r list \<Rightarrow> 'r option" where
  "row_where p rows = List.find p rows"

definition update_where :: "('r \<Rightarrow> bool) \<Rightarrow> ('r \<Rightarrow> 'r) \<Rightarrow> 'r list \<Rightarrow> 'r list" where
  "update_where p f rows = map (\<lambda>r. if p r then f r else r) rows"

lemma row_where_Nil [simp]: "row_where p [] = None"
  by (simp add: row_where_def)

lemma row_where_Cons [simp]: "row_where p (r # rs) = (if p r then Some r else row_where p rs)"
  by (simp add: row_where_def)

lemma row_where_SomeD: "row_where p rows = Some r \<Longrightarrow> p r \<and> r \<in> set rows"
  by (induction rows) (auto split: if_splits)

lemma row_where_None: "row_where p rows = None \<longleftrightarrow> (\<forall>r \<in> set rows. \<not> p r)"
  by (induction rows) auto

lemma row_where_append:
  "row_where p (xs @ ys) = (case row_where p xs of None \<Rightarrow> row_where p ys | Some r \<Rightarrow> Some r)"
  by (induction xs) auto

lemma row_where_update_where:
  assumes "\<And>r. p r \<Longrightarrow> q (f r) = q r"
  shows "row_where q (update_where p f rows) =
    map_option (\<lambda>r. if p r then f r else r) (row_where q rows)"
  using assms by (induction rows) (auto simp: update_where_def)

lemma length_update_where [simp]: "length (update_where p f rows) = length rows"
  by (simp add: update_where_def)

lemma map_update_where:
  "(\<And>r. p r \<Longrightarrow> g (f r) = g r) \<Longrightarrow> map g (update_where p f rows) = map g rows"
  by (induction rows) (auto simp: update_where_def)

lemma set_update_where: "set (update_where p f rows) = (\<lambda>r. if p r then f r else r) ` set rows"
  by (simp add: update_where_def)

lemma in_update_whereE:
  assumes "r \<in> set (update_where p f rows)"
  obtains r0 where "r0 \<in> set rows" "p r0" "r = f r0" | "r \<in> set rows" "\<not> p r"
  using assms by (auto simp: set_update_where split: if_splits)

section \<open>Rows in the order of a key\<close>

text \<open>Sorting by a unique key forgets the order the rows came in.\<close>

lemma sort_unique_key:
  fixes key :: "'b \<Rightarrow> 'k :: linorder"
  assumes "distinct (map key xs)" and "mset ys = mset xs"
  shows "sort_key key ys = sort_key key xs"
proof (rule map_sorted_distinct_set_unique [of key])
  have eq: "mset (map key ys) = mset (map key xs)" using assms(2) by simp
  have set: "set ys = set xs" using assms(2) by (rule mset_eq_setD)
  show "inj_on key (set (sort_key key ys) \<union> set (sort_key key xs))" using assms(1) set by (simp add: distinct_map)
  have "distinct (map key (sort_key key zs))" if "mset zs = mset xs" for zs
  proof -
    have "mset (map key (sort_key key zs)) = mset (map key xs)" using that by simp
    with assms(1) show ?thesis using mset_eq_imp_distinct_iff by blast
  qed
  with assms(2) show "distinct (map key (sort_key key ys))" "distinct (map key (sort_key key xs))" by simp_all
  show "set (sort_key key ys) = set (sort_key key xs)" using set by simp
qed simp_all

lemma insort_map_key: "insort_key f (g x) (map g xs) = map g (insort_key (\<lambda>x. f (g x)) x xs)"
  by (induction xs) simp_all

lemma sort_map_key: "sort_key f (map g xs) = map g (sort_key (\<lambda>x. f (g x)) xs)"
  by (induction xs) (simp_all add: insort_map_key)

lemma sorted_unique_key:
  fixes key :: "'b \<Rightarrow> 'k :: linorder"
  assumes "distinct (map key xs)"
  shows "sorted_wrt (<) (map key (sort_key key xs))"
proof -
  have "mset (map key (sort_key key xs)) = mset (map key xs)" by simp
  with assms have "distinct (map key (sort_key key xs))" using mset_eq_imp_distinct_iff by blast
  then show ?thesis by (simp add: strict_sorted_iff)
qed

end
