(* ===== verification/Permission_Model.thy ===== *)
theory Permission_Model
  imports Substrat_Prelude
begin

text \<open>
  The data of the permission model: the tuple-ref grammar of
  \<open>packages/contracts/src/object-ref.ts\<close>, the id grammars of \<open>ids.ts\<close>, the subjects,
  nodes, tuples, decisions and coverage answers of \<open>permission.ts\<close>, and the two mappings
  \<open>subjectRef\<close> and \<open>actorOf\<close>.
\<close>

section \<open>Grammars\<close>

definition in_range :: "char \<Rightarrow> char \<Rightarrow> char \<Rightarrow> bool" where
  "in_range lo hi c \<longleftrightarrow> lo \<le> c \<and> c \<le> hi"

definition is_lower :: "char \<Rightarrow> bool" where "is_lower = in_range CHR ''a'' CHR ''z''"
definition is_upper :: "char \<Rightarrow> bool" where "is_upper = in_range CHR ''A'' CHR ''Z''"
definition is_digit :: "char \<Rightarrow> bool" where "is_digit = in_range CHR ''0'' CHR ''9''"

text \<open>JavaScript's \<open>\s\<close> on ASCII.\<close>

definition is_space :: "char \<Rightarrow> bool" where
  "is_space c \<longleftrightarrow> c \<in> set [CHR 0x09, CHR 0x0A, CHR 0x0B, CHR 0x0C, CHR 0x0D, CHR '' '']"

definition toLower :: "char \<Rightarrow> char" where
  "toLower c = (if is_upper c then char_of ((of_char c :: nat) + 32) else c)"

definition namespace_char :: "char \<Rightarrow> bool" where
  "namespace_char c \<longleftrightarrow> is_upper c \<or> is_lower c \<or> is_digit c \<or> c = CHR ''_'' \<or> c = CHR ''-''"

definition object_namespace :: "string \<Rightarrow> bool" where
  "object_namespace s \<longleftrightarrow> s \<noteq> [] \<and> list_all namespace_char s"

definition object_id :: "string \<Rightarrow> bool" where
  "object_id s \<longleftrightarrow> s \<noteq> [] \<and> list_all (\<lambda>c. \<not> is_space c) s"

text \<open>
  \<open>^NAMESPACE:ID$\<close>.  The namespace class holds no colon, so the separator is the first one.
\<close>

definition objectRefString :: "string \<Rightarrow> bool" where
  "objectRefString s =
     (case dropWhile (\<lambda>c. c \<noteq> CHR '':'') s of
        [] \<Rightarrow> False
      | _ # i \<Rightarrow> object_namespace (takeWhile (\<lambda>c. c \<noteq> CHR '':'') s) \<and> object_id i)"

definition reserved_namespaces :: "string list" where
  "reserved_namespaces =
     [''principal'', ''org'', ''tenant'', ''scope'', ''role'', ''connection'', ''capability'',
      ''system'', ''vertical'']"

definition isKernelNamespace :: "string \<Rightarrow> bool" where
  "isKernelNamespace name \<longleftrightarrow> map toLower name \<in> set reserved_namespaces"

definition key_char :: "char \<Rightarrow> bool" where
  "key_char c \<longleftrightarrow> is_lower c \<or> is_digit c \<or> c = CHR ''-''"

definition permission_key_max_length :: nat where
  "permission_key_max_length = 41"

text \<open>\<open>^[a-z0-9-]+:[a-z0-9-]+$\<close>, at most 41 characters.\<close>

definition permissionKey :: "string \<Rightarrow> bool" where
  "permissionKey s \<longleftrightarrow>
     (case dropWhile (\<lambda>c. c \<noteq> CHR '':'') s of
        [] \<Rightarrow> False
      | _ # r \<Rightarrow> takeWhile (\<lambda>c. c \<noteq> CHR '':'') s \<noteq> [] \<and>
                list_all key_char (takeWhile (\<lambda>c. c \<noteq> CHR '':'') s) \<and>
                r \<noteq> [] \<and> list_all key_char r)
     \<and> length s \<le> permission_key_max_length"

text \<open>\<open>^[0-9A-HJKMNP-TV-Z]{26}$\<close>.\<close>

definition ulid_char :: "char \<Rightarrow> bool" where
  "ulid_char c \<longleftrightarrow> is_digit c \<or>
     is_upper c \<and> c \<notin> set [CHR ''I'', CHR ''L'', CHR ''O'', CHR ''U'']"

definition ulid_pattern :: "string \<Rightarrow> bool" where
  "ulid_pattern s \<longleftrightarrow> length s = 26 \<and> list_all ulid_char s"

section \<open>Subjects, nodes, tuples, answers\<close>

datatype check_subject =
    Principal string
  | Connection string
  | System string
  | Capability string
  | Vertical string string \<comment> \<open>the slug and the calling instance's scope\<close>

fun subject_kind :: "check_subject \<Rightarrow> string" where
  "subject_kind (Principal i) = ''principal''"
| "subject_kind (Connection i) = ''connection''"
| "subject_kind (System i) = ''system''"
| "subject_kind (Capability i) = ''capability''"
| "subject_kind (Vertical i s) = ''vertical''"

fun subject_id :: "check_subject \<Rightarrow> string" where
  "subject_id (Principal i) = i"
| "subject_id (Connection i) = i"
| "subject_id (System i) = i"
| "subject_id (Capability i) = i"
| "subject_id (Vertical i s) = i"

definition subjectRef :: "check_subject \<Rightarrow> string" where
  "subjectRef s = subject_kind s @ '':'' @ subject_id s"

datatype actor =
    ActorPrincipal string
  | ActorSystem string
  | ActorConnection string
  | ActorCapability string
  | ActorVertical string string

fun actorOf :: "check_subject \<Rightarrow> actor" where
  "actorOf (Principal i) = ActorPrincipal i"
| "actorOf (System i) = ActorSystem i"
| "actorOf (Connection i) = ActorConnection i"
| "actorOf (Capability i) = ActorCapability i"
| "actorOf (Vertical i s) = ActorVertical i s"

record check_node =
  tenantId :: string
  scopeId :: "string option"

text \<open>\<open>node.scopeId\<close> where the source tests it as a truth value.\<close>

definition scope_of :: "check_node \<Rightarrow> string option" where
  "scope_of n = (case scopeId n of None \<Rightarrow> None | Some s \<Rightarrow> if s = [] then None else Some s)"

record entity_ref =
  entityType :: string
  entityId :: string

definition ref_of :: "entity_ref \<Rightarrow> string" where
  "ref_of e = entityType e @ '':'' @ entityId e"

record relation_tuple =
  rt_subject :: string
  rt_relation :: string
  rt_object :: string

record role_definition =
  role_key :: string
  role_permissions :: "string list"

datatype decision =
    Allowed "relation_tuple list"
  | Denied string check_node

fun allowed :: "decision \<Rightarrow> bool" where
  "allowed (Allowed p) = True"
| "allowed (Denied c n) = False"

datatype coverage = Covered | NotCovered "string list"

text \<open>\<open>assertAllowed\<close>: throw unless the decision is an allow.\<close>

fun assertAllowed :: "decision \<Rightarrow> unit result" where
  "assertAllowed (Allowed p) = Inr ()"
| "assertAllowed (Denied c n) =
     Inl (SubstratError Permission_Denied None (''permission denied: '' @ c))"

text \<open>The secure default, and the dev-only opposite.\<close>

definition denyAll_check :: "string \<Rightarrow> check_node \<Rightarrow> decision" where
  "denyAll_check permission n = Denied permission n"

definition denyAll_covers :: "string list \<Rightarrow> coverage" where
  "denyAll_covers required = (if required = [] then Covered else NotCovered required)"

lemma objectRefString_append:
  "object_namespace ns \<Longrightarrow> object_id i \<Longrightarrow> objectRefString (ns @ CHR '':'' # i)"
proof -
  assume ns: "object_namespace ns" and i: "object_id i"
  have "CHR '':'' \<notin> set ns"
  proof
    assume "CHR '':'' \<in> set ns"
    with ns have "namespace_char (CHR '':'')"
      by (simp add: object_namespace_def list_all_iff)
    then show False by code_simp
  qed
  then have "dropWhile (\<lambda>c. c \<noteq> CHR '':'') (ns @ CHR '':'' # i) = CHR '':'' # i"
    and "takeWhile (\<lambda>c. c \<noteq> CHR '':'') (ns @ CHR '':'' # i) = ns"
    by (induction ns) auto
  with ns i show ?thesis by (simp add: objectRefString_def)
qed

lemma subjectRef_inj:
  assumes "subjectRef s = subjectRef s'"
  shows "subject_kind s = subject_kind s' \<and> subject_id s = subject_id s'"
  using assms by (cases s; cases s') (auto simp: subjectRef_def)

end
