(* ===== verification/Permission_Eval.thy ===== *)
theory Permission_Eval
  imports Permission_Model
begin

text \<open>
  The constrained relationship-tuple evaluator of \<open>packages/kernel/src/permission-eval.ts\<close>:
  role expansion, tenancy inheritance, membership and the bounded walk along declared parent
  edges, the capability check, the coverage bound and its synchronous twin.  The adapters'
  reads are a \<open>reader\<close> record, the source's \<open>PermissionTupleReader\<close>: one decision sees one
  reader, whose answers do not change while the decision runs, so the promises are values.
  \<open>t\<close> parses the refs it is given, so every function that builds a proof may throw.
\<close>

section \<open>Rows and readers\<close>

record tuple_row =
  subject :: string
  relation :: string
  object :: string
  expires_at :: "string option"
  revoked_at :: "string option"

text \<open>
  JSON columns are held decoded: \<open>None\<close> is text that \<open>JSON.parse\<close> refuses.
\<close>

datatype json =
    JNull | JBool bool | JNum int | JStr string | JArr "json list" | JObj "(string \<times> json) list"

record capability_row =
  cap_mode :: string
  cap_entity_type :: "string option"
  cap_entity_id :: "string option"
  cap_permissions :: "json option option"
  cap_minted_by :: "json option"
  cap_expires_at :: "string option"
  cap_max_uses :: "int option"
  cap_uses :: int
  cap_revoked_at :: "string option"

record scope_reader =
  sc_tuples :: "string \<Rightarrow> string \<Rightarrow> tuple_row list"
  sc_grant :: "string \<Rightarrow> string \<Rightarrow> string \<Rightarrow> tuple_row option"
  sc_parents :: "string \<Rightarrow> tuple_row list"
  sc_shapeProtectedTypes :: "string \<Rightarrow> string list"
  sc_capability :: "(string \<Rightarrow> capability_row option) option"
  sc_switchedOff :: "string \<Rightarrow> bool"

record reader =
  rd_now :: string
  rd_tenantTuples :: "string \<Rightarrow> string \<Rightarrow> string \<Rightarrow> tuple_row list"
  rd_getRole :: "string \<Rightarrow> string \<Rightarrow> role_definition option"
  rd_scopeFor :: "check_node \<Rightarrow> scope_reader option"

definition entity_walk_depth :: nat where
  "entity_walk_depth = 4"

text \<open>\<open>t\<close>: a proof tuple, its two ends parsed by \<open>objectRef\<close>.\<close>

definition t :: "string \<Rightarrow> string \<Rightarrow> string \<Rightarrow> relation_tuple result" where
  "t s r ob =
     (if objectRefString s \<and> objectRefString ob
      then Inr \<lparr>rt_subject = s, rt_relation = r, rt_object = ob\<rparr>
      else Inl (ZodError ''objectRef''))"

text \<open>The one definition of "live": unexpired and unrevoked.\<close>

definition expires_after :: "string option \<Rightarrow> string \<Rightarrow> bool" where
  "expires_after e now = (case e of None \<Rightarrow> True | Some x \<Rightarrow> now < x)"

definition live :: "tuple_row \<Rightarrow> string \<Rightarrow> bool" where
  "live row now \<longleftrightarrow> expires_after (expires_at row) now \<and> revoked_at row = None"

definition nodeObjectsOf :: "check_node \<Rightarrow> (string \<times> bool) list" where
  "nodeObjectsOf n =
     (case scope_of n of
        Some s \<Rightarrow> [(''scope:'' @ s, True), (''tenant:'' @ tenantId n, False)]
      | None \<Rightarrow> [(''tenant:'' @ tenantId n, False)])"

definition isSwitchableSubjectKind :: "string \<Rightarrow> bool" where
  "isSwitchableSubjectKind k \<longleftrightarrow> k \<in> set [''system'', ''vertical'']"

definition switchedOff :: "check_subject \<Rightarrow> check_node \<Rightarrow> scope_reader option \<Rightarrow> bool" where
  "switchedOff s n scope =
     (if \<not> isSwitchableSubjectKind (subject_kind s) \<or> scope_of n = None then False
      else case scope of Some sc \<Rightarrow> sc_switchedOff sc (subjectRef s) | None \<Rightarrow> True)"

section \<open>The parent walk\<close>

type_synonym frontier = "(string \<times> relation_tuple list) list"

fun expand_edges ::
  "string \<Rightarrow> relation_tuple list \<Rightarrow> tuple_row list \<Rightarrow> frontier \<times> string list
     \<Rightarrow> (frontier \<times> string list) result" where
  "expand_edges now chain [] acc = Inr acc"
| "expand_edges now chain (p # ps) (nxt, visited) =
     (if \<not> live p now \<or> object p \<in> set visited then expand_edges now chain ps (nxt, visited)
      else bind_r (t (subject p) ''parent'' (object p)) (\<lambda>e.
        expand_edges now chain ps (nxt @ [(object p, chain @ [e])], object p # visited)))"

fun expand_level ::
  "(string \<Rightarrow> tuple_row list) \<Rightarrow> string \<Rightarrow> (string \<Rightarrow> bool) \<Rightarrow> frontier \<Rightarrow> frontier \<times> string list
     \<Rightarrow> (frontier \<times> string list) result" where
  "expand_level parents now stopsAt [] acc = Inr acc"
| "expand_level parents now stopsAt ((ref, chain) # cs) acc =
     (if parents ref = [] \<or> stopsAt ref then expand_level parents now stopsAt cs acc
      else bind_r (expand_edges now chain (parents ref) acc)
             (expand_level parents now stopsAt cs))"

text \<open>
  One iteration per depth; the first argument is the number of levels still to expand
  (\<open>ENTITY_WALK_DEPTH - depth\<close>), so the recursion is structural.
\<close>

fun walk_levels ::
  "nat \<Rightarrow> (string \<Rightarrow> tuple_row list) \<Rightarrow> string
     \<Rightarrow> (string \<Rightarrow> relation_tuple list \<Rightarrow> 'r option result) \<Rightarrow> (string \<Rightarrow> bool)
     \<Rightarrow> frontier \<Rightarrow> string list \<Rightarrow> 'r option result" where
  "walk_levels n parents now probe stopsAt frontier visited =
     (if frontier = [] then Inr None
      else bind_r (first_hit (\<lambda>(ref, chain). probe ref chain) frontier) (\<lambda>hit.
        case hit of
          Some h \<Rightarrow> Inr (Some h)
        | None \<Rightarrow>
            (case n of
               0 \<Rightarrow> Inr None
             | Suc m \<Rightarrow>
                 bind_r (expand_level parents now stopsAt frontier ([], visited))
                   (\<lambda>(nxt, visited'). walk_levels m parents now probe stopsAt nxt visited'))))"

declare walk_levels.simps [simp del]

definition walkParents ::
  "(string \<Rightarrow> tuple_row list) \<Rightarrow> string \<Rightarrow> string
     \<Rightarrow> (string \<Rightarrow> relation_tuple list \<Rightarrow> 'r option result) \<Rightarrow> (string \<Rightarrow> bool)
     \<Rightarrow> 'r option result" where
  "walkParents parents start now probe stopsAt =
     walk_levels entity_walk_depth parents now probe stopsAt [(start, [])] [start]"

text \<open>Where a walk for a key stops climbing: a record whose type's shape protects the key.\<close>

definition protectedStop :: "scope_reader \<Rightarrow> string \<Rightarrow> string \<Rightarrow> bool" where
  "protectedStop sc permission ref \<longleftrightarrow>
     slice0 ref (indexOf ref CHR '':'') \<in> set (sc_shapeProtectedTypes sc (''granted:'' @ permission))"

text \<open>
  The plain and keyed \<open>within\<close> walks of a live read.  The reader is the pair of its
  \<open>parents\<close> and its optional \<open>shapeProtectedTypes\<close>.
\<close>

definition keyedStop ::
  "(string \<Rightarrow> string list) option \<Rightarrow> string option \<Rightarrow> (string \<Rightarrow> bool) result" where
  "keyedStop types key =
     (case key of
        None \<Rightarrow> Inr (\<lambda>ref. False)
      | Some k \<Rightarrow>
          (case types of
             None \<Rightarrow> Inl (PlainError ''a keyed within walk needs shapeProtectedTypes on its reader'')
           | Some f \<Rightarrow> Inr (\<lambda>ref. slice0 ref (indexOf ref CHR '':'') \<in> set (f (''granted:'' @ k)))))"

definition reachesWithin ::
  "(string \<Rightarrow> tuple_row list) \<Rightarrow> (string \<Rightarrow> string list) option \<Rightarrow> entity_ref \<Rightarrow> entity_ref
     \<Rightarrow> string \<Rightarrow> string option \<Rightarrow> bool result" where
  "reachesWithin parents types entity root now key =
     bind_r (keyedStop types key) (\<lambda>stops.
     bind_r (walkParents parents (ref_of entity) now
               (\<lambda>ref chain. Inr (if ref = ref_of root then Some True else None)) stops) (\<lambda>hit.
       Inr (hit = Some True)))"

section \<open>Subjects\<close>

type_synonym subject_entry = "string \<times> relation_tuple option"

text \<open>The caller, plus every org it is a live member of (principals only).\<close>

definition subjectsOf ::
  "reader \<Rightarrow> check_subject \<Rightarrow> check_node \<Rightarrow> string \<Rightarrow> subject_entry list result" where
  "subjectsOf rd s n now =
     (case s of
        Principal i \<Rightarrow>
          bind_r (traverse (\<lambda>m. bind_r (t (subject m) (relation m) (object m))
                                  (\<lambda>via. Inr (object m, Some via)))
                   (filter (\<lambda>m. relation m = ''member'' \<and> live m now)
                     (rd_tenantTuples rd (tenantId n) (subjectRef s) ''member'')))
            (\<lambda>orgs. Inr ((subjectRef s, None) # orgs))
      | _ \<Rightarrow> Inr [(subjectRef s, None)])"

section \<open>The check\<close>

definition tuplesFor ::
  "reader \<Rightarrow> scope_reader option \<Rightarrow> check_node \<Rightarrow> string \<Rightarrow> string \<Rightarrow> bool \<Rightarrow> tuple_row list" where
  "tuplesFor rd scope n sref prefix scoped =
     filter (\<lambda>row. startsWith (relation row) prefix)
       (if scoped then (case scope of Some sc \<Rightarrow> sc_tuples sc sref prefix | None \<Rightarrow> [])
        else rd_tenantTuples rd (tenantId n) sref prefix)"

definition via_list :: "relation_tuple option \<Rightarrow> relation_tuple list" where
  "via_list v = (case v of None \<Rightarrow> [] | Some x \<Rightarrow> [x])"

text \<open>Rule 1: a role assignment at the node object whose role carries the permission.\<close>

definition role_step ::
  "reader \<Rightarrow> check_node \<Rightarrow> string \<Rightarrow> string \<Rightarrow> string \<Rightarrow> relation_tuple option \<Rightarrow> tuple_row
     \<Rightarrow> decision option result" where
  "role_step rd n now permission obj via row =
     (if object row \<noteq> obj \<or> \<not> live row now then Inr None
      else
        (let roleKey = drop (length ''role:'') (relation row) in
         case rd_getRole rd (tenantId n) roleKey of
           None \<Rightarrow> Inr None
         | Some role \<Rightarrow>
             if permission \<in> set (role_permissions role)
             then bind_r (t (subject row) (relation row) (object row)) (\<lambda>a.
                  bind_r (t (''role:'' @ roleKey) (''granted:'' @ permission) obj) (\<lambda>b.
                    Inr (Some (Allowed (via_list via @ [a, b])))))
             else Inr None))"

definition grant_step ::
  "string \<Rightarrow> string \<Rightarrow> string \<Rightarrow> relation_tuple option \<Rightarrow> tuple_row \<Rightarrow> decision option result" where
  "grant_step now permission obj via row =
     (if object row = obj \<and> relation row = ''granted:'' @ permission \<and> live row now
      then bind_r (t (subject row) (relation row) (object row)) (\<lambda>a.
             Inr (Some (Allowed (via_list via @ [a]))))
      else Inr None)"

definition node_step ::
  "reader \<Rightarrow> scope_reader option \<Rightarrow> check_node \<Rightarrow> string \<Rightarrow> string \<Rightarrow> string \<times> bool
     \<Rightarrow> subject_entry \<Rightarrow> decision option result" where
  "node_step rd scope n now permission nodeObj s =
     bind_r (first_hit (role_step rd n now permission (fst nodeObj) (snd s))
               (tuplesFor rd scope n (fst s) ''role:'' (snd nodeObj))) (\<lambda>r.
       case r of
         Some d \<Rightarrow> Inr (Some d)
       | None \<Rightarrow>
           first_hit (grant_step now permission (fst nodeObj) (snd s))
             (tuplesFor rd scope n (fst s) (''granted:'' @ permission) (snd nodeObj)))"

text \<open>Rule 3's probe: a live entity-narrowed grant for one of the subjects.\<close>

definition entity_probe ::
  "scope_reader \<Rightarrow> string \<Rightarrow> string \<Rightarrow> subject_entry list \<Rightarrow> string \<Rightarrow> relation_tuple list
     \<Rightarrow> decision option result" where
  "entity_probe sc now permission subjects ref chain =
     first_hit (\<lambda>s.
       case sc_grant sc (fst s) (''granted:'' @ permission) ref of
         None \<Rightarrow> Inr None
       | Some g \<Rightarrow>
           if live g now
           then bind_r (t (subject g) (relation g) (object g)) (\<lambda>a.
                  Inr (Some (Allowed (via_list (snd s) @ chain @ [a]))))
           else Inr None) subjects"

definition check_direct ::
  "reader \<Rightarrow> check_subject \<Rightarrow> string \<Rightarrow> check_node \<Rightarrow> entity_ref option \<Rightarrow> decision result" where
  "check_direct rd s permission n entity =
     (let now = rd_now rd; deny = Denied permission n; scope = rd_scopeFor rd n in
      if switchedOff s n scope then Inr deny
      else bind_r (subjectsOf rd s n now) (\<lambda>subjects.
        bind_r (first_hit (\<lambda>nodeObj. first_hit (node_step rd scope n now permission nodeObj) subjects)
                  (nodeObjectsOf n)) (\<lambda>r.
          case r of
            Some d \<Rightarrow> Inr d
          | None \<Rightarrow>
              (case (entity, scope) of
                 (Some e, Some sc) \<Rightarrow>
                   bind_r (walkParents (sc_parents sc) (ref_of e) now
                             (entity_probe sc now permission subjects) (protectedStop sc permission))
                     (\<lambda>found. Inr (case found of Some d \<Rightarrow> d | None \<Rightarrow> deny))
               | _ \<Rightarrow> Inr deny))))"

subsection \<open>Capabilities\<close>

definition capabilityLive :: "'a capability_row_scheme \<Rightarrow> string \<Rightarrow> bool" where
  "capabilityLive row now \<longleftrightarrow>
     cap_revoked_at row = None \<and> expires_after (cap_expires_at row) now"

definition capabilityExchangeable :: "'a capability_row_scheme \<Rightarrow> string \<Rightarrow> bool" where
  "capabilityExchangeable row now \<longleftrightarrow>
     capabilityLive row now \<and>
     (case cap_max_uses row of None \<Rightarrow> True | Some m \<Rightarrow> cap_uses row < m)"

record capability_grant_view =
  cg_entity :: entity_ref
  cg_permissions :: "string list"
  cg_mintedBy :: "string option"

text \<open>\<open>capabilityAuthor\<close>: a principal id, or an object naming a platform actor.\<close>

fun parse_author :: "json \<Rightarrow> string option option" where
  "parse_author (JStr s) = (if ulid_pattern s then Some (Some s) else None)"
| "parse_author (JObj fs) =
     (case map_of fs ''platform'' of
        Some (JStr p) \<Rightarrow> if ulid_pattern p then Some None else None
      | _ \<Rightarrow> None)"
| "parse_author _ = None"

fun parse_key :: "json \<Rightarrow> string option" where
  "parse_key (JStr s) = (if permissionKey s then Some s else None)"
| "parse_key _ = None"

fun parse_keys :: "json list \<Rightarrow> string list option" where
  "parse_keys [] = Some []"
| "parse_keys (j # js) =
     (case parse_key j of None \<Rightarrow> None
      | Some k \<Rightarrow> (case parse_keys js of None \<Rightarrow> None | Some ks \<Rightarrow> Some (k # ks)))"

definition capabilityGrantOf :: "'a capability_row_scheme \<Rightarrow> capability_grant_view option" where
  "capabilityGrantOf row =
     (case (cap_entity_type row, cap_entity_id row) of
        (Some et, Some ei) \<Rightarrow>
          if cap_mode row \<noteq> ''act'' then None
          else
            (case cap_permissions row of
               Some (Some (JArr js)) \<Rightarrow>
                 (case (parse_keys js, cap_minted_by row) of
                    (Some ks, Some a) \<Rightarrow>
                      (case parse_author a of
                         None \<Rightarrow> None
                       | Some who \<Rightarrow>
                           Some \<lparr>cg_entity = \<lparr>entityType = et, entityId = ei\<rparr>,
                                 cg_permissions = ks, cg_mintedBy = who\<rparr>)
                  | _ \<Rightarrow> None)
             | _ \<Rightarrow> None)
      | _ \<Rightarrow> None)"

text \<open>Step 3: the walk from the entity to the capability's own root.\<close>

definition capability_chain ::
  "scope_reader \<Rightarrow> string \<Rightarrow> string \<Rightarrow> string \<Rightarrow> entity_ref \<Rightarrow> entity_ref
     \<Rightarrow> relation_tuple list option result" where
  "capability_chain sc now i permission root e =
     walkParents (sc_parents sc) (ref_of e) now
       (\<lambda>ref walked.
          if ref = ref_of root
          then bind_r (t (''capability:'' @ i) (''granted:'' @ permission) (ref_of root))
                 (\<lambda>a. Inr (Some (walked @ [a])))
          else Inr None)
       (protectedStop sc permission)"

text \<open>The usable capability: the row exists, is live, decodes, names a minter and the key.\<close>

definition capability_usable ::
  "scope_reader \<Rightarrow> string \<Rightarrow> string \<Rightarrow> string \<Rightarrow> (entity_ref \<times> string) option" where
  "capability_usable sc now i permission =
     (case sc_capability sc of
        None \<Rightarrow> None
      | Some get \<Rightarrow>
          (case get i of
             None \<Rightarrow> None
           | Some row \<Rightarrow>
               if \<not> capabilityLive row now then None
               else
                 (case capabilityGrantOf row of
                    None \<Rightarrow> None
                  | Some g \<Rightarrow>
                      (case cg_mintedBy g of
                         None \<Rightarrow> None
                       | Some minter \<Rightarrow>
                           if minter = [] \<or> permission \<notin> set (cg_permissions g) then None
                           else Some (cg_entity g, minter)))))"

definition checkCapability ::
  "reader \<Rightarrow> string \<Rightarrow> string \<Rightarrow> check_node \<Rightarrow> entity_ref option \<Rightarrow> decision result" where
  "checkCapability rd i permission n entity =
     (let deny = Denied permission n; now = rd_now rd in
      case (entity, scope_of n, rd_scopeFor rd n) of
        (Some e, Some _, Some sc) \<Rightarrow>
          (case capability_usable sc now i permission of
             None \<Rightarrow> Inr deny
           | Some (root, minter) \<Rightarrow>
               bind_r (capability_chain sc now i permission root e) (\<lambda>found.
                 case found of
                   None \<Rightarrow> Inr deny
                 | Some chain \<Rightarrow>
                     bind_r (check_direct rd (Principal minter) permission n (Some e)) (\<lambda>d.
                       case d of
                         Denied _ _ \<Rightarrow> Inr deny
                       | Allowed pf \<Rightarrow>
                           bind_r (t (''capability:'' @ i) ''minted-by'' (''principal:'' @ minter))
                             (\<lambda>m. Inr (Allowed (pf @ [m] @ chain))))))
      | _ \<Rightarrow> Inr deny)"

text \<open>The evaluator's \<open>check\<close>.\<close>

definition check ::
  "reader \<Rightarrow> check_subject \<Rightarrow> string \<Rightarrow> check_node \<Rightarrow> entity_ref option \<Rightarrow> decision result" where
  "check rd s permission n entity =
     (case s of Capability i \<Rightarrow> checkCapability rd i permission n entity
      | _ \<Rightarrow> check_direct rd s permission n entity)"

section \<open>Coverage\<close>

datatype held = HeldRole string | HeldPermission string

definition heldBy :: "tuple_row \<Rightarrow> string \<Rightarrow> string \<Rightarrow> held option" where
  "heldBy row nodeObj now =
     (if object row \<noteq> nodeObj \<or> \<not> live row now then None
      else if startsWith (relation row) ''role:''
      then Some (HeldRole (drop (length ''role:'') (relation row)))
      else if startsWith (relation row) ''granted:''
      then Some (HeldPermission (drop (length ''granted:'') (relation row)))
      else None)"

text \<open>The entity-narrowed grant a scope-level row is, if it is one.\<close>

definition narrowedBy ::
  "tuple_row \<Rightarrow> (string \<times> bool) list \<Rightarrow> string \<Rightarrow> (string \<times> entity_ref) option" where
  "narrowedBy row nodeObjs now =
     (let sep = indexOf (object row) CHR '':'' in
      if \<not> startsWith (relation row) ''granted:'' \<or> \<not> live row now then None
      else if list_ex (\<lambda>n. fst n = object row) nodeObjs then None
      else if sep \<le> 0 \<or> sep = int (length (object row)) - 1 then None
      else Some (drop (length ''granted:'') (relation row),
                 \<lparr>entityType = take (nat sep) (object row),
                  entityId = drop (Suc (nat sep)) (object row)\<rparr>))"

text \<open>A JavaScript \<open>Set\<close> (and the keys of a \<open>Map\<close>) keeps insertion order.\<close>

definition set_add :: "'a \<Rightarrow> 'a list \<Rightarrow> 'a list" where
  "set_add x xs = (if x \<in> set xs then xs else xs @ [x])"

definition coverageOf :: "string list \<Rightarrow> string list \<Rightarrow> coverage" where
  "coverageOf required held =
     (let missing = fold (\<lambda>p acc. if p \<notin> set held \<and> p \<notin> set acc then acc @ [p] else acc)
                      required [] in
      if missing = [] then Covered else NotCovered missing)"

record holdings_acc =
  ha_held :: "string list"
  ha_roles :: "string list"
  ha_granted :: "string list"
  ha_narrowed :: "(string \<times> (string \<times> entity_ref)) list"

text \<open>\<open>Map.set\<close>: an existing key keeps its place and takes the new value.\<close>

fun map_set :: "'k \<Rightarrow> 'v \<Rightarrow> ('k \<times> 'v) list \<Rightarrow> ('k \<times> 'v) list" where
  "map_set k v [] = [(k, v)]"
| "map_set k v ((k', v') # m) = (if k = k' then (k, v) # m else (k', v') # map_set k v m)"

definition permissions_of_role :: "reader \<Rightarrow> string \<Rightarrow> string \<Rightarrow> string list" where
  "permissions_of_role rd tid k =
     (case rd_getRole rd tid k of None \<Rightarrow> [] | Some role \<Rightarrow> role_permissions role)"

definition holdings_row ::
  "reader \<Rightarrow> check_node \<Rightarrow> string \<Rightarrow> bool \<Rightarrow> string \<times> bool \<Rightarrow> tuple_row \<Rightarrow> holdings_acc \<Rightarrow> holdings_acc"
  where
  "holdings_row rd n now withNarrowed nodeObj row acc =
     (case heldBy row (fst nodeObj) now of
        Some (HeldRole k) \<Rightarrow>
          acc\<lparr>ha_roles := set_add k (ha_roles acc),
              ha_held := fold set_add (permissions_of_role rd (tenantId n) k) (ha_held acc)\<rparr>
      | Some (HeldPermission p) \<Rightarrow>
          acc\<lparr>ha_granted := set_add p (ha_granted acc), ha_held := set_add p (ha_held acc)\<rparr>
      | None \<Rightarrow>
          if withNarrowed \<and> snd nodeObj
          then (case narrowedBy row (nodeObjectsOf n) now of
                  None \<Rightarrow> acc
                | Some (p, e) \<Rightarrow>
                    acc\<lparr>ha_narrowed := map_set (p @ [CHR 0x0A] @ object row) (p, e) (ha_narrowed acc)\<rparr>)
          else acc)"

definition holdings_rows ::
  "reader \<Rightarrow> scope_reader option \<Rightarrow> check_node \<Rightarrow> string \<Rightarrow> bool \<Rightarrow> tuple_row list" where
  "holdings_rows rd scope n sref scoped =
     (if scoped then (case scope of Some sc \<Rightarrow> sc_tuples sc sref [] | None \<Rightarrow> [])
      else rd_tenantTuples rd (tenantId n) sref [])"

definition holdingsOf ::
  "reader \<Rightarrow> check_subject \<Rightarrow> check_node \<Rightarrow> string \<Rightarrow> scope_reader option \<Rightarrow> bool \<Rightarrow> holdings_acc result"
  where
  "holdingsOf rd s n now scope withNarrowed =
     bind_r (subjectsOf rd s n now) (\<lambda>subjects.
       Inr (fold (\<lambda>nodeObj. fold (\<lambda>sub.
              fold (holdings_row rd n now withNarrowed nodeObj)
                (holdings_rows rd scope n (fst sub) (snd nodeObj))) subjects)
            (nodeObjectsOf n) \<lparr>ha_held = [], ha_roles = [], ha_granted = [], ha_narrowed = []\<rparr>))"

definition covers ::
  "reader \<Rightarrow> check_subject \<Rightarrow> string list \<Rightarrow> check_node \<Rightarrow> coverage result" where
  "covers rd s required n =
     (if required = [] then Inr Covered
      else case s of
        Capability i \<Rightarrow> Inr (NotCovered (fold set_add required []))
      | _ \<Rightarrow>
        (let now = rd_now rd; scope = rd_scopeFor rd n in
         if switchedOff s n scope then Inr (NotCovered (fold set_add required []))
         else bind_r (holdingsOf rd s n now scope False) (\<lambda>h. Inr (coverageOf required (ha_held h)))))"

record holdings =
  h_permissions :: "string list"
  h_roles :: "string list"
  h_granted :: "string list"
  h_narrowed :: "(string \<times> entity_ref) list"

definition holdings_at :: "reader \<Rightarrow> check_subject \<Rightarrow> check_node \<Rightarrow> holdings result" where
  "holdings_at rd s n =
     (let none = \<lparr>h_permissions = [], h_roles = [], h_granted = [], h_narrowed = []\<rparr>;
          now = rd_now rd; scope = rd_scopeFor rd n in
      case s of
        Capability i \<Rightarrow> Inr none
      | _ \<Rightarrow>
        if switchedOff s n scope then Inr none
        else bind_r (holdingsOf rd s n now scope True) (\<lambda>h.
               Inr \<lparr>h_permissions = ha_held h, h_roles = ha_roles h, h_granted = ha_granted h,
                    h_narrowed = map snd (ha_narrowed h)\<rparr>))"

section \<open>The directory's synchronous half\<close>

text \<open>
  A \<open>TenantDirectoryReader\<close> is the tenant-level half of a reader; these functions read
  only \<open>rd_now\<close>, \<open>rd_tenantTuples\<close> and \<open>rd_getRole\<close>.
\<close>

definition tc_fold :: "reader \<Rightarrow> string \<Rightarrow> string \<Rightarrow> tuple_row list \<Rightarrow> string list \<Rightarrow> string list" where
  "tc_fold rd tid now rows held =
     fold (\<lambda>row held.
       case heldBy row (''tenant:'' @ tid) now of
         Some (HeldRole k) \<Rightarrow> fold set_add (permissions_of_role rd tid k) held
       | Some (HeldPermission p) \<Rightarrow> set_add p held
       | None \<Rightarrow> held) rows held"

definition tenantCoverage :: "reader \<Rightarrow> string \<Rightarrow> string \<Rightarrow> string list \<Rightarrow> coverage" where
  "tenantCoverage rd tid who required =
     (if required = [] then Covered
      else
        (let now = rd_now rd;
             own = rd_tenantTuples rd tid (''principal:'' @ who) [];
             held = tc_fold rd tid now own [];
             held' = fold (\<lambda>m held.
                       if relation m = ''member'' \<and> live m now
                       then tc_fold rd tid now (rd_tenantTuples rd tid (object m) []) held
                       else held) own held
         in coverageOf required held'))"

definition liveOrgMembership :: "reader \<Rightarrow> string \<Rightarrow> string \<Rightarrow> string \<Rightarrow> tuple_row option" where
  "liveOrgMembership rd tid who orgId =
     List.find (\<lambda>row. relation row = ''member'' \<and> object row = ''org:'' @ orgId \<and> live row (rd_now rd))
       (rd_tenantTuples rd tid (''principal:'' @ who) ''member'')"

definition joinedMembershipExpiry :: "tuple_row \<Rightarrow> tuple_row option \<Rightarrow> string option" where
  "joinedMembershipExpiry bound existing =
     (case existing of
        None \<Rightarrow> expires_at bound
      | Some ex \<Rightarrow>
          (case (expires_at ex, expires_at bound) of
             (Some a, Some b) \<Rightarrow> Some (if b < a then a else b)
           | _ \<Rightarrow> None))"

datatype org_op = OrgAdd | OrgRemove

text \<open>\<open>None\<close> is \<open>{ bounded: false }\<close>; \<open>Some x\<close> is \<open>{ bounded: true, expiresAt: x }\<close>.\<close>

definition orgChangeBound ::
  "reader \<Rightarrow> string \<Rightarrow> org_op \<Rightarrow> string \<Rightarrow> string \<Rightarrow> string \<Rightarrow> string option option" where
  "orgChangeBound rd tid op who boundedBy orgId =
     (case liveOrgMembership rd tid boundedBy orgId of
        None \<Rightarrow> None
      | Some bound \<Rightarrow>
          (case op of
             OrgRemove \<Rightarrow> Some None
           | OrgAdd \<Rightarrow>
               Some (joinedMembershipExpiry bound (liveOrgMembership rd tid who orgId))))"

end
