(* ===== verification/Permission_Facts.thy ===== *)
theory Permission_Facts
  imports Permission_Eval
begin

text \<open>
  What the evaluator decides.  The walk is the bounded reachability relation of the live,
  unprotected parent edges; a check allows exactly the subjects that hold authority at the
  node or on an ancestor within the depth bound; every allow carries a proof backed by live
  rows; coverage is the conjunction of node-level checks.
\<close>

section \<open>The reference relation of the walk\<close>

definition parent_edge ::
  "(string \<Rightarrow> tuple_row list) \<Rightarrow> string \<Rightarrow> (string \<Rightarrow> bool) \<Rightarrow> (string \<times> string) set" where
  "parent_edge parents now stopsAt =
     {(a, b). \<not> stopsAt a \<and> (\<exists>p \<in> set (parents a). live p now \<and> object p = b)}"

definition edges_ok :: "(string \<Rightarrow> tuple_row list) \<Rightarrow> bool" where
  "edges_ok parents \<longleftrightarrow>
     (\<forall>a. \<forall>p \<in> set (parents a). objectRefString (subject p) \<and> objectRefString (object p))"

fun levels :: "('a \<times> 'a) set \<Rightarrow> 'a set \<Rightarrow> nat \<Rightarrow> 'a set" where
  "levels E V 0 = V"
| "levels E V (Suc n) = levels E V n \<union> E `` levels E V n"

lemma levels_mono: "V \<subseteq> levels E V n"
  by (induction n) auto

lemma levels_shift: "levels E (V \<union> E `` V) n = levels E V (Suc n)"
  by (induction n) auto

lemma levels_closed: "E `` V \<subseteq> V \<Longrightarrow> levels E V n = V"
  by (induction n) auto

lemma level_split: "V' \<subseteq> L \<Longrightarrow> V' = V \<union> I \<Longrightarrow> N = I - V \<Longrightarrow> N \<union> (L - V') = L - V"
  by blast

lemma levels_relpow: "levels E {a} n = {b. \<exists>k \<le> n. (a, b) \<in> E ^^ k}"
proof (induction n)
  case 0
  show ?case by auto
next
  case (Suc n)
  have "levels E {a} (Suc n) = {b. \<exists>k \<le> n. (a, b) \<in> E ^^ k} \<union> {b. \<exists>k \<le> n. (a, b) \<in> E ^^ (Suc k)}"
    unfolding levels.simps Suc.IH by auto
  also have "\<dots> = {b. \<exists>k \<le> Suc n. (a, b) \<in> E ^^ k}"
  proof (intro equalityI subsetI)
    fix b assume "b \<in> {b. \<exists>k \<le> Suc n. (a, b) \<in> E ^^ k}"
    then obtain k where k: "k \<le> Suc n" "(a, b) \<in> E ^^ k" by blast
    show "b \<in> {b. \<exists>k \<le> n. (a, b) \<in> E ^^ k} \<union> {b. \<exists>k \<le> n. (a, b) \<in> E ^^ (Suc k)}"
    proof (cases "k \<le> n")
      case True
      with k show ?thesis by blast
    next
      case False
      with k have "k = Suc n" by simp
      with k show ?thesis by blast
    qed
  next
    fix b
    assume "b \<in> {b. \<exists>k \<le> n. (a, b) \<in> E ^^ k} \<union> {b. \<exists>k \<le> n. (a, b) \<in> E ^^ (Suc k)}"
    then show "b \<in> {b. \<exists>k \<le> Suc n. (a, b) \<in> E ^^ k}"
      using Suc_le_mono le_Suc_eq by blast
  qed
  finally show ?case .
qed

section \<open>Expansion of one level\<close>

lemma t_ok: "objectRefString s \<Longrightarrow> objectRefString ob \<Longrightarrow>
    t s r ob = Inr \<lparr>rt_subject = s, rt_relation = r, rt_object = ob\<rparr>"
  by (simp add: t_def)

lemma t_InrD: "t s r ob = Inr x \<Longrightarrow> x = \<lparr>rt_subject = s, rt_relation = r, rt_object = ob\<rparr>"
  by (simp add: t_def split: if_splits)

lemma expand_edges_spec:
  assumes "\<forall>p \<in> set ps. objectRefString (subject p) \<and> objectRefString (object p)"
  shows "\<exists>nxt' vis'. expand_edges now chain ps (nxt, vis) = Inr (nxt', vis') \<and>
    set vis' = set vis \<union> {object p | p. p \<in> set ps \<and> live p now} \<and>
    fst ` set nxt' = fst ` set nxt \<union> ({object p | p. p \<in> set ps \<and> live p now} - set vis)"
  using assms
proof (induction ps arbitrary: nxt vis)
  case Nil
  then show ?case by simp
next
  case (Cons p ps)
  show ?case
  proof (cases "\<not> live p now \<or> object p \<in> set vis")
    case True
    with Cons.IH [of nxt vis] Cons.prems show ?thesis by auto
  next
    case False
    let ?e = "\<lparr>rt_subject = subject p, rt_relation = ''parent'', rt_object = object p\<rparr>"
    have "t (subject p) ''parent'' (object p) = Inr ?e"
      using Cons.prems by (simp add: t_ok)
    with False Cons.IH [of "nxt @ [(object p, chain @ [?e])]" "object p # vis"] Cons.prems
    show ?thesis by auto
  qed
qed

lemma expand_level_spec:
  assumes "edges_ok parents"
  shows "\<exists>nxt' vis'. expand_level parents now stops frontier (nxt, vis) = Inr (nxt', vis') \<and>
    set vis' = set vis \<union> parent_edge parents now stops `` (fst ` set frontier) \<and>
    fst ` set nxt' = fst ` set nxt \<union> (parent_edge parents now stops `` (fst ` set frontier) - set vis)"
proof (induction frontier arbitrary: nxt vis)
  case Nil
  then show ?case by simp
next
  case (Cons c frontier)
  obtain ref chain where c: "c = (ref, chain)" by fastforce
  let ?E = "parent_edge parents now stops"
  show ?case
  proof (cases "parents ref = [] \<or> stops ref")
    case True
    then have "?E `` (fst ` set (c # frontier)) = ?E `` (fst ` set frontier)"
      by (auto simp: c parent_edge_def)
    with Cons.IH [of nxt vis] True show ?thesis by (simp add: c)
  next
    case False
    have im: "?E `` {ref} = {object p | p. p \<in> set (parents ref) \<and> live p now}"
      using False by (auto simp: parent_edge_def)
    have "\<forall>p \<in> set (parents ref). objectRefString (subject p) \<and> objectRefString (object p)"
      using assms by (simp add: edges_ok_def)
    from expand_edges_spec [OF this, of now chain nxt vis, folded im] obtain nxt1 vis1 where
      one: "expand_edges now chain (parents ref) (nxt, vis) = Inr (nxt1, vis1)"
      and vis1: "set vis1 = set vis \<union> ?E `` {ref}"
      and nxt1: "fst ` set nxt1 = fst ` set nxt \<union> (?E `` {ref} - set vis)"
      by (elim exE conjE)
    from Cons.IH [of nxt1 vis1] obtain nxt2 vis2 where
      two: "expand_level parents now stops frontier (nxt1, vis1) = Inr (nxt2, vis2)"
      and vis2: "set vis2 = set vis1 \<union> ?E `` (fst ` set frontier)"
      and nxt2: "fst ` set nxt2 = fst ` set nxt1 \<union> (?E `` (fst ` set frontier) - set vis1)"
      by (elim exE conjE)
    have split: "?E `` (fst ` set (c # frontier)) = ?E `` {ref} \<union> ?E `` (fst ` set frontier)"
      by (auto simp: c)
    have "set vis2 = set vis \<union> ?E `` (fst ` set (c # frontier))"
      and "fst ` set nxt2 = fst ` set nxt \<union> (?E `` (fst ` set (c # frontier)) - set vis)"
      unfolding split vis2 nxt2 vis1 nxt1 by blast+
    with one two False show ?thesis by (auto simp: c)
  qed
qed

section \<open>The walk is bounded reachability\<close>

text \<open>
  A probe that never throws and whose hits depend on the ref alone: what both probes of the
  evaluator are over well-formed refs.
\<close>

definition probe_decides ::
  "(string \<Rightarrow> relation_tuple list \<Rightarrow> 'r option result) \<Rightarrow> (string \<Rightarrow> bool) \<Rightarrow> bool" where
  "probe_decides probe hit \<longleftrightarrow>
     (\<forall>ref chain. \<exists>r. probe ref chain = Inr r \<and> (r \<noteq> None \<longleftrightarrow> hit ref))"

lemma probe_frontier:
  assumes "probe_decides probe hit"
  shows "\<exists>r. first_hit (\<lambda>(ref, chain). probe ref chain) frontier = Inr r \<and>
    (r \<noteq> None \<longleftrightarrow> (\<exists>ref \<in> fst ` set frontier. hit ref))"
proof (induction frontier)
  case Nil
  then show ?case by simp
next
  case (Cons c frontier)
  obtain ref chain where c: "c = (ref, chain)" by fastforce
  from assms obtain r where "probe ref chain = Inr r" "r \<noteq> None \<longleftrightarrow> hit ref"
    unfolding probe_decides_def by blast
  with Cons show ?case by (cases r) (auto simp: c)
qed

lemma walk_levels_spec:
  assumes "probe_decides probe hit" and "edges_ok parents"
    and "fst ` set frontier \<subseteq> set vis"
    and "parent_edge parents now stops `` (set vis - fst ` set frontier) \<subseteq> set vis"
  shows "\<exists>r. walk_levels n parents now probe stops frontier vis = Inr r \<and>
    (r \<noteq> None \<longleftrightarrow>
      (\<exists>ref \<in> fst ` set frontier \<union> (levels (parent_edge parents now stops) (set vis) n - set vis).
         hit ref))"
  using assms(3,4)
proof (induction n arbitrary: frontier vis)
  case 0
  show ?case
  proof (cases "frontier = []")
    case True
    then show ?thesis by (simp add: walk_levels.simps)
  next
    case False
    with probe_frontier [OF assms(1), of frontier] show ?thesis
      by (auto simp: walk_levels.simps split: option.splits)
  qed
next
  case (Suc n)
  let ?E = "parent_edge parents now stops"
  let ?F = "fst ` set frontier"
  show ?case
  proof (cases "frontier = []")
    case True
    with Suc.prems(2) have "levels ?E (set vis) (Suc n) = set vis"
      by (intro levels_closed) simp
    with True show ?thesis by (simp add: walk_levels.simps)
  next
    case False
    from probe_frontier [OF assms(1), of frontier] obtain r where
      hit: "first_hit (\<lambda>(ref, chain). probe ref chain) frontier = Inr r"
      and r: "r \<noteq> None \<longleftrightarrow> (\<exists>ref \<in> ?F. hit ref)" by blast
    show ?thesis
    proof (cases r)
      case (Some h)
      with hit r False show ?thesis
        by (auto simp: walk_levels.simps [of "Suc n" parents now probe stops frontier vis])
    next
      case None
      from expand_level_spec [OF assms(2), of now stops frontier "[]" vis] obtain nxt vis' where
        ex: "expand_level parents now stops frontier ([], vis) = Inr (nxt, vis')"
        and vis': "set vis' = set vis \<union> ?E `` ?F"
        and nxt: "fst ` set nxt = ?E `` ?F - set vis" by auto
      have all: "set vis' = set vis \<union> ?E `` set vis"
        using Suc.prems vis' by blast
      have "?E `` (set vis' - fst ` set nxt) \<subseteq> set vis'"
        using Suc.prems vis' nxt by blast
      with nxt vis' Suc.IH [of nxt vis'] obtain r' where
        rec: "walk_levels n parents now probe stops nxt vis' = Inr r'"
        and r': "r' \<noteq> None \<longleftrightarrow>
          (\<exists>ref \<in> fst ` set nxt \<union> (levels ?E (set vis') n - set vis'). hit ref)" by blast
      have lv: "levels ?E (set vis') n = levels ?E (set vis) (Suc n)"
        unfolding all by (rule levels_shift)
      have "set vis' \<subseteq> levels ?E (set vis) (Suc n)"
        using levels_mono [of "set vis'" ?E n] lv by simp
      then have eq: "fst ` set nxt \<union> (levels ?E (set vis') n - set vis') =
          levels ?E (set vis) (Suc n) - set vis"
        unfolding lv using vis' nxt by (rule level_split)
      have "walk_levels (Suc n) parents now probe stops frontier vis = Inr r'"
        using rec ex hit None False
        by (simp add: walk_levels.simps [of "Suc n" parents now probe stops frontier vis])
      moreover have "r' \<noteq> None \<longleftrightarrow>
          (\<exists>ref \<in> ?F \<union> (levels ?E (set vis) (Suc n) - set vis). hit ref)"
        using r' r None unfolding eq by blast
      ultimately show ?thesis by blast
    qed
  qed
qed

text \<open>The library's statement about the walk.\<close>

lemma walkParents_reaches:
  assumes "probe_decides probe hit" and "edges_ok parents"
  shows "\<exists>r. walkParents parents start now probe stops = Inr r \<and>
    (r \<noteq> None \<longleftrightarrow>
      (\<exists>ref. (\<exists>k \<le> entity_walk_depth. (start, ref) \<in> parent_edge parents now stops ^^ k) \<and> hit ref))"
proof -
  let ?E = "parent_edge parents now stops"
  from walk_levels_spec [OF assms, of "[(start, [])]" "[start]" now stops entity_walk_depth]
  obtain r where walk: "walkParents parents start now probe stops = Inr r"
    and r: "r \<noteq> None \<longleftrightarrow>
      (\<exists>ref \<in> {start} \<union> (levels ?E {start} entity_walk_depth - {start}). hit ref)"
    by (auto simp: walkParents_def)
  have eq: "{start} \<union> (levels ?E {start} entity_walk_depth - {start}) =
      {ref. \<exists>k \<le> entity_walk_depth. (start, ref) \<in> ?E ^^ k}"
    using levels_mono [of "{start}" ?E entity_walk_depth] by (auto simp: levels_relpow)
  show ?thesis
    using walk r unfolding eq by (intro exI [of _ r]) simp
qed

section \<open>Authority, as the model means it\<close>

definition row_ok :: "tuple_row \<Rightarrow> bool" where
  "row_ok r \<longleftrightarrow> objectRefString (subject r) \<and> objectRefString (object r)"

definition scope_ok :: "scope_reader \<Rightarrow> bool" where
  "scope_ok sc \<longleftrightarrow>
     (\<forall>s p. \<forall>r \<in> set (sc_tuples sc s p). row_ok r) \<and>
     (\<forall>s r ob g. sc_grant sc s r ob = Some g \<longrightarrow> row_ok g) \<and>
     edges_ok (sc_parents sc)"

text \<open>
  What a reader promises about refs: every tuple it returns has two parsable ends, and every
  role it knows has a key that names an object.
\<close>

definition reader_ok :: "reader \<Rightarrow> bool" where
  "reader_ok rd \<longleftrightarrow>
     (\<forall>tid s p. \<forall>r \<in> set (rd_tenantTuples rd tid s p). row_ok r) \<and>
     (\<forall>tid k role. rd_getRole rd tid k = Some role \<longrightarrow> objectRefString (''role:'' @ k)) \<and>
     (\<forall>n sc. rd_scopeFor rd n = Some sc \<longrightarrow> scope_ok sc)"

text \<open>The caller and the orgs it is a live member of.\<close>

definition subject_refs :: "reader \<Rightarrow> check_subject \<Rightarrow> check_node \<Rightarrow> string set" where
  "subject_refs rd s n =
     insert (subjectRef s)
       (case s of
          Principal i \<Rightarrow>
            {object m | m. m \<in> set (rd_tenantTuples rd (tenantId n) (subjectRef s) ''member'') \<and>
                           relation m = ''member'' \<and> live m (rd_now rd)}
        | _ \<Rightarrow> {})"

definition role_gives :: "reader \<Rightarrow> check_node \<Rightarrow> string \<Rightarrow> string \<Rightarrow> bool" where
  "role_gives rd n permission rel \<longleftrightarrow>
     (\<exists>role. rd_getRole rd (tenantId n) (drop (length ''role:'') rel) = Some role \<and> permission \<in> set (role_permissions role))"

text \<open>Rules 1, 2 and 4: a live role or direct grant at the scope or its tenant.\<close>

definition node_authority :: "reader \<Rightarrow> check_subject \<Rightarrow> string \<Rightarrow> check_node \<Rightarrow> bool" where
  "node_authority rd s permission n \<longleftrightarrow>
     (\<exists>nodeObj \<in> set (nodeObjectsOf n). \<exists>sref \<in> subject_refs rd s n.
        (\<exists>row \<in> set (tuplesFor rd (rd_scopeFor rd n) n sref ''role:'' (snd nodeObj)).
           object row = fst nodeObj \<and> live row (rd_now rd) \<and> role_gives rd n permission (relation row)) \<or>
        (\<exists>row \<in> set (tuplesFor rd (rd_scopeFor rd n) n sref (''granted:'' @ permission) (snd nodeObj)).
           object row = fst nodeObj \<and> relation row = ''granted:'' @ permission \<and> live row (rd_now rd)))"

text \<open>Rule 3: a live narrowed grant on an ancestor within the depth bound.\<close>

definition entity_authority ::
  "reader \<Rightarrow> check_subject \<Rightarrow> string \<Rightarrow> check_node \<Rightarrow> entity_ref \<Rightarrow> bool" where
  "entity_authority rd s permission n e \<longleftrightarrow>
     (\<exists>sc. rd_scopeFor rd n = Some sc \<and>
       (\<exists>ref. (\<exists>k \<le> (4::nat).
                 (ref_of e, ref) \<in> parent_edge (sc_parents sc) (rd_now rd) (protectedStop sc permission) ^^ k) \<and>
          (\<exists>sref \<in> subject_refs rd s n. \<exists>g.
             sc_grant sc sref (''granted:'' @ permission) ref = Some g \<and> live g (rd_now rd))))"

section \<open>The check decides authority\<close>

lemma reader_ok_tenant: "reader_ok rd \<Longrightarrow> r \<in> set (rd_tenantTuples rd tid s p) \<Longrightarrow> row_ok r"
  and reader_ok_role: "reader_ok rd \<Longrightarrow> rd_getRole rd tid k = Some role \<Longrightarrow> objectRefString (''role:'' @ k)"
  and reader_ok_scope: "reader_ok rd \<Longrightarrow> rd_scopeFor rd n = Some sc \<Longrightarrow> scope_ok sc"
  unfolding reader_ok_def by blast+

lemma subjectsOf_refs:
  assumes "reader_ok rd"
  shows "\<exists>subs. subjectsOf rd s n (rd_now rd) = Inr subs \<and> fst ` set subs = subject_refs rd s n"
proof (cases s)
  case (Principal i)
  let ?ms = "filter (\<lambda>m. relation m = ''member'' \<and> live m (rd_now rd))
    (rd_tenantTuples rd (tenantId n) (subjectRef s) ''member'')"
  let ?f = "\<lambda>m. (object m, Some \<lparr>rt_subject = subject m, rt_relation = relation m, rt_object = object m\<rparr>)"
  have "traverse (\<lambda>m. bind_r (t (subject m) (relation m) (object m)) (\<lambda>via. Inr (object m, Some via))) ?ms
      = Inr (map ?f ?ms)"
  proof (rule traverse_total)
    fix m assume "m \<in> set ?ms"
    with assms have "row_ok m" by (auto intro: reader_ok_tenant)
    then show "bind_r (t (subject m) (relation m) (object m)) (\<lambda>via. Inr (object m, Some via)) = Inr (?f m)"
      by (simp add: row_ok_def t_ok)
  qed
  moreover have "fst ` set ((subjectRef s, None) # map ?f ?ms) = subject_refs rd s n"
    by (force simp: subject_refs_def Principal)
  ultimately show ?thesis
    unfolding subjectsOf_def using Principal by (intro exI [of _ "(subjectRef s, None) # map ?f ?ms"]) simp
qed (auto simp: subjectsOf_def subject_refs_def)

lemma tuplesFor_ok:
  assumes "reader_ok rd" and "row \<in> set (tuplesFor rd (rd_scopeFor rd n) n sref p scoped)"
  shows "row_ok row"
proof (cases scoped)
  case True
  with assms(2) obtain sc where "rd_scopeFor rd n = Some sc" "row \<in> set (sc_tuples sc sref p)"
    by (cases "rd_scopeFor rd n") (auto simp: tuplesFor_def)
  with reader_ok_scope [OF assms(1)] show ?thesis unfolding scope_ok_def by blast
next
  case False
  with assms show ?thesis by (auto simp: tuplesFor_def intro: reader_ok_tenant)
qed

lemma role_step_decides:
  assumes "reader_ok rd" and "row_ok row"
  shows "decides allowed (role_step rd n now permission obj via row)
    (object row = obj \<and> live row now \<and> role_gives rd n permission (relation row))"
proof (cases "rd_getRole rd (tenantId n) (drop (length ''role:'') (relation row))")
  case None
  then show ?thesis by (simp add: role_step_def role_gives_def Let_def decides_def)
next
  case (Some role)
  from reader_ok_role [OF assms(1) Some]
  have "objectRefString (''role:'' @ drop (length ''role:'') (relation row))" .
  with assms(2) Some show ?thesis
    by (auto simp: role_step_def role_gives_def row_ok_def t_ok decides_def Let_def)
qed

lemma grant_step_decides:
  assumes "row_ok row"
  shows "decides allowed (grant_step now permission obj via row)
    (object row = obj \<and> relation row = ''granted:'' @ permission \<and> live row now)"
  using assms by (auto simp: grant_step_def row_ok_def t_ok decides_def)

lemma node_step_decides:
  assumes "reader_ok rd"
  shows "decides allowed (node_step rd (rd_scopeFor rd n) n now permission nodeObj s)
    ((\<exists>row \<in> set (tuplesFor rd (rd_scopeFor rd n) n (fst s) ''role:'' (snd nodeObj)).
        object row = fst nodeObj \<and> live row now \<and> role_gives rd n permission (relation row)) \<or>
     (\<exists>row \<in> set (tuplesFor rd (rd_scopeFor rd n) n (fst s) (''granted:'' @ permission) (snd nodeObj)).
        object row = fst nodeObj \<and> relation row = ''granted:'' @ permission \<and> live row now))"
  unfolding node_step_def using assms tuplesFor_ok
  by (intro decides_or_else decides_first_hit role_step_decides grant_step_decides) blast+

lemma node_level_decides:
  assumes "reader_ok rd" and subs: "fst ` set subs = subject_refs rd s n"
  shows "decides allowed
    (first_hit (\<lambda>nodeObj. first_hit (node_step rd (rd_scopeFor rd n) n (rd_now rd) permission nodeObj) subs)
       (nodeObjectsOf n)) (node_authority rd s permission n)"
proof -
  have "(\<exists>x \<in> set subs. P (fst x)) \<longleftrightarrow> (\<exists>sref \<in> subject_refs rd s n. P sref)" for P
    unfolding subs [symmetric] by auto
  note flat = this
  show ?thesis
    unfolding node_authority_def flat [symmetric]
    by (intro decides_first_hit node_step_decides assms(1))
qed

lemma entity_probe_decides:
  assumes "scope_ok sc"
  shows "decides allowed (entity_probe sc now permission subs ref chain)
    (\<exists>s \<in> set subs. \<exists>g. sc_grant sc (fst s) (''granted:'' @ permission) ref = Some g \<and> live g now)"
  unfolding entity_probe_def
proof (rule decides_first_hit)
  fix s assume "s \<in> set subs"
  show "decides allowed
      (case sc_grant sc (fst s) (''granted:'' @ permission) ref of None \<Rightarrow> Inr None
       | Some g \<Rightarrow> if live g now
           then bind_r (t (subject g) (relation g) (object g)) (\<lambda>a.
                  Inr (Some (Allowed (via_list (snd s) @ chain @ [a])))) else Inr None)
      (\<exists>g. sc_grant sc (fst s) (''granted:'' @ permission) ref = Some g \<and> live g now)"
  proof (cases "sc_grant sc (fst s) (''granted:'' @ permission) ref")
    case None
    then show ?thesis by (simp add: decides_def)
  next
    case (Some g)
    with assms have "row_ok g" unfolding scope_ok_def by blast
    with Some show ?thesis by (auto simp: row_ok_def t_ok decides_def)
  qed
qed

lemma decides_probe:
  assumes "\<And>ref chain. decides Q (probe ref chain) (hit ref)"
  shows "probe_decides probe hit"
  using assms unfolding probe_decides_def decides_def by blast

text \<open>What a walk returns is what one of its probes returned, on a chain of live edges.\<close>

definition edge_tuple :: "(string \<Rightarrow> tuple_row list) \<Rightarrow> string \<Rightarrow> relation_tuple \<Rightarrow> bool" where
  "edge_tuple parents now e \<longleftrightarrow>
     (\<exists>a. \<exists>p \<in> set (parents a). live p now \<and>
        e = \<lparr>rt_subject = subject p, rt_relation = ''parent'', rt_object = object p\<rparr>)"

definition chains_ok :: "(string \<Rightarrow> tuple_row list) \<Rightarrow> string \<Rightarrow> frontier \<Rightarrow> bool" where
  "chains_ok parents now frontier \<longleftrightarrow> (\<forall>(ref, chain) \<in> set frontier. \<forall>e \<in> set chain. edge_tuple parents now e)"

lemma expand_edges_chains:
  assumes "expand_edges now chain ps (nxt, vis) = Inr (nxt', vis')"
    and "chains_ok parents now nxt" and "\<forall>e \<in> set chain. edge_tuple parents now e"
    and "\<exists>a. set ps \<subseteq> set (parents a)"
  shows "chains_ok parents now nxt'"
  using assms
proof (induction ps arbitrary: nxt vis)
  case Nil
  then show ?case by simp
next
  case (Cons p ps)
  from Cons.prems(4) obtain a where a: "set (p # ps) \<subseteq> set (parents a)" by blast
  show ?case
  proof (cases "\<not> live p now \<or> object p \<in> set vis")
    case True
    with Cons show ?thesis by force
  next
    case False
    with Cons.prems(1) obtain e where e: "t (subject p) ''parent'' (object p) = Inr e"
      and rec: "expand_edges now chain ps (nxt @ [(object p, chain @ [e])], object p # vis) = Inr (nxt', vis')"
      by (auto simp: bind_r_Inr_iff)
    from t_InrD [OF e] a False have "edge_tuple parents now e"
      unfolding edge_tuple_def by force
    with Cons.prems(2,3) have "chains_ok parents now (nxt @ [(object p, chain @ [e])])"
      by (auto simp: chains_ok_def)
    with Cons.IH [OF rec] Cons.prems(3) a show ?thesis by force
  qed
qed

lemma expand_level_chains:
  assumes "expand_level parents now stops frontier (nxt, vis) = Inr (nxt', vis')"
    and "chains_ok parents now frontier" and "chains_ok parents now nxt"
  shows "chains_ok parents now nxt'"
  using assms
proof (induction frontier arbitrary: nxt vis)
  case Nil
  then show ?case by simp
next
  case (Cons c frontier)
  obtain ref chain where c: "c = (ref, chain)" by fastforce
  from Cons.prems(2) have rest: "chains_ok parents now frontier"
    and chain: "\<forall>e \<in> set chain. edge_tuple parents now e" by (auto simp: chains_ok_def c)
  show ?case
  proof (cases "parents ref = [] \<or> stops ref")
    case True
    with Cons rest show ?thesis by (simp add: c)
  next
    case False
    with Cons.prems(1) obtain nxt1 vis1 where
      one: "expand_edges now chain (parents ref) (nxt, vis) = Inr (nxt1, vis1)"
      and two: "expand_level parents now stops frontier (nxt1, vis1) = Inr (nxt', vis')"
      by (auto simp: c bind_r_Inr_iff)
    have "chains_ok parents now nxt1"
      using expand_edges_chains [OF one Cons.prems(3) chain] by blast
    with Cons.IH [OF two rest] show ?thesis by blast
  qed
qed

lemma walk_levels_Some:
  assumes "walk_levels n parents now probe stops frontier vis = Inr (Some y)"
    and "chains_ok parents now frontier"
  shows "\<exists>ref chain. probe ref chain = Inr (Some y) \<and> (\<forall>e \<in> set chain. edge_tuple parents now e)"
  using assms
proof (induction n arbitrary: frontier vis)
  case 0
  then have "first_hit (\<lambda>(ref, chain). probe ref chain) frontier = Inr (Some y)"
    by (subst (asm) walk_levels.simps) (auto simp: bind_r_Inr_iff split: if_splits option.splits)
  from first_hit_Some [OF this] 0(2) show ?case by (force simp: chains_ok_def)
next
  case (Suc n)
  from Suc.prems(1) obtain r where
    r: "first_hit (\<lambda>(ref, chain). probe ref chain) frontier = Inr r"
    by (subst (asm) walk_levels.simps) (auto simp: bind_r_Inr_iff split: if_splits)
  show ?case
  proof (cases r)
    case (Some h)
    with Suc.prems(1) r have "first_hit (\<lambda>(ref, chain). probe ref chain) frontier = Inr (Some y)"
      by (subst (asm) walk_levels.simps) (auto split: if_splits)
    from first_hit_Some [OF this] Suc.prems(2) show ?thesis by (force simp: chains_ok_def)
  next
    case None
    with Suc.prems(1) r obtain nxt vis' where
      ex: "expand_level parents now stops frontier ([], vis) = Inr (nxt, vis')"
      and rec: "walk_levels n parents now probe stops nxt vis' = Inr (Some y)"
      by (subst (asm) walk_levels.simps) (auto simp: bind_r_Inr_iff split: if_splits)
    have "chains_ok parents now nxt"
      by (rule expand_level_chains [OF ex Suc.prems(2)]) (simp add: chains_ok_def)
    with Suc.IH [OF rec] show ?thesis .
  qed
qed

lemma walkParents_Some:
  assumes "walkParents parents start now probe stops = Inr (Some y)"
  shows "\<exists>ref chain. probe ref chain = Inr (Some y) \<and> (\<forall>e \<in> set chain. edge_tuple parents now e)"
  using walk_levels_Some [OF assms [unfolded walkParents_def]] by (simp add: chains_ok_def)

lemma entity_level_decides:
  assumes "scope_ok sc" and subs: "fst ` set subs = subject_refs rd s n"
    and sc: "rd_scopeFor rd n = Some sc"
  shows "decides allowed
    (walkParents (sc_parents sc) (ref_of e) (rd_now rd)
       (entity_probe sc (rd_now rd) permission subs) (protectedStop sc permission))
    (entity_authority rd s permission n e)"
proof -
  let ?hit = "\<lambda>ref. \<exists>s \<in> set subs. \<exists>g. sc_grant sc (fst s) (''granted:'' @ permission) ref = Some g \<and> live g (rd_now rd)"
  let ?walk = "walkParents (sc_parents sc) (ref_of e) (rd_now rd)
       (entity_probe sc (rd_now rd) permission subs) (protectedStop sc permission)"
  have "probe_decides (entity_probe sc (rd_now rd) permission subs) ?hit"
    by (rule decides_probe [where Q = allowed]) (rule entity_probe_decides [OF assms(1)])
  moreover have "edges_ok (sc_parents sc)" using assms(1) by (simp add: scope_ok_def)
  ultimately obtain r where r: "?walk = Inr r"
    and hit: "r \<noteq> None \<longleftrightarrow> (\<exists>ref. (\<exists>k \<le> entity_walk_depth.
        (ref_of e, ref) \<in> parent_edge (sc_parents sc) (rd_now rd) (protectedStop sc permission) ^^ k) \<and> ?hit ref)"
    by (blast dest: walkParents_reaches)
  have "?hit ref \<longleftrightarrow> (\<exists>sref \<in> subject_refs rd s n. \<exists>g.
      sc_grant sc sref (''granted:'' @ permission) ref = Some g \<and> live g (rd_now rd))" for ref
    unfolding subs [symmetric] by auto
  with hit have "r \<noteq> None \<longleftrightarrow> entity_authority rd s permission n e"
    by (simp add: entity_authority_def sc entity_walk_depth_def)
  moreover have "allowed d" if "r = Some d" for d
    using walkParents_Some [of "sc_parents sc"] r that
      entity_probe_decides [OF assms(1), of "rd_now rd" permission subs]
    unfolding decides_def by (metis sum.inject(2))
  ultimately show ?thesis unfolding decides_def using r by blast
qed

lemma check_direct_decides:
  assumes "reader_ok rd"
  shows "\<exists>d. check_direct rd s permission n entity = Inr d \<and>
    (allowed d \<longleftrightarrow> \<not> switchedOff s n (rd_scopeFor rd n) \<and>
       (node_authority rd s permission n \<or>
        (\<exists>e. entity = Some e \<and> entity_authority rd s permission n e)))"
proof (cases "switchedOff s n (rd_scopeFor rd n)")
  case True
  then show ?thesis by (simp add: check_direct_def Let_def)
next
  case on: False
  from subjectsOf_refs [OF assms, of s n] obtain subs where
    subs: "subjectsOf rd s n (rd_now rd) = Inr subs" "fst ` set subs = subject_refs rd s n" by blast
  from node_level_decides [OF assms subs(2), of permission] obtain r where
    r: "first_hit (\<lambda>nodeObj. first_hit (node_step rd (rd_scopeFor rd n) n (rd_now rd) permission nodeObj) subs)
          (nodeObjectsOf n) = Inr r"
    and node: "r \<noteq> None \<longleftrightarrow> node_authority rd s permission n" "\<forall>d. r = Some d \<longrightarrow> allowed d"
    unfolding decides_def by blast
  show ?thesis
  proof (cases r)
    case (Some d)
    with on subs r node show ?thesis by (auto simp: check_direct_def Let_def)
  next
    case None
    show ?thesis
    proof (cases "\<exists>e sc. entity = Some e \<and> rd_scopeFor rd n = Some sc")
      case True
      then obtain e sc where e: "entity = Some e" and sc: "rd_scopeFor rd n = Some sc" by blast
      from entity_level_decides [OF reader_ok_scope [OF assms sc] subs(2) sc, of e permission]
      obtain r' where "walkParents (sc_parents sc) (ref_of e) (rd_now rd)
           (entity_probe sc (rd_now rd) permission subs) (protectedStop sc permission) = Inr r'"
        and "r' \<noteq> None \<longleftrightarrow> entity_authority rd s permission n e" "\<forall>d. r' = Some d \<longrightarrow> allowed d"
        unfolding decides_def by blast
      with on subs r node None e sc show ?thesis
        by (cases r') (auto simp: check_direct_def Let_def)
    next
      case False
      then have "\<not> (\<exists>e. entity = Some e \<and> entity_authority rd s permission n e)"
        by (auto simp: entity_authority_def)
      with on subs r node None False show ?thesis
        by (auto simp: check_direct_def Let_def split: option.splits)
    qed
  qed
qed

end
