(* ===== verification/Permission_Bounds.thy ===== *)
theory Permission_Bounds
  imports Permission_Facts
begin

text \<open>
  The contract between the evaluator and an adapter's reads, as the locale
  \<open>tuple_reader\<close>: a prefix read may return more than was asked for (SQL \<open>LIKE\<close> ignores
  case) but never less, and the keyed grant read is exact.  Under it, proofs are backed by
  live rows, coverage is the conjunction of node-level checks, and the synchronous tenant
  bound is the asynchronous one.
\<close>

section \<open>The reader's contract\<close>

definition prefix_rows :: "string \<Rightarrow> tuple_row list \<Rightarrow> tuple_row set" where
  "prefix_rows p rows = {r \<in> set rows. startsWith (relation r) p}"

locale tuple_reader =
  fixes rd :: reader
  assumes tenant_prefix:
    "prefix_rows p (rd_tenantTuples rd tid s p) = prefix_rows p (rd_tenantTuples rd tid s [])"
    and scope_prefix: "rd_scopeFor rd n = Some sc \<Longrightarrow>
      prefix_rows p (sc_tuples sc s p) = prefix_rows p (sc_tuples sc s [])"
    and grant_exact: "rd_scopeFor rd n = Some sc \<Longrightarrow> sc_grant sc s r ob = Some g \<Longrightarrow>
      subject g = s \<and> relation g = r \<and> object g = ob"

section \<open>Proof tuples\<close>

definition tuple_of :: "tuple_row \<Rightarrow> relation_tuple" where
  "tuple_of r = \<lparr>rt_subject = subject r, rt_relation = relation r, rt_object = object r\<rparr>"

text \<open>
  What may stand in a proof: a live stored row of the tenant or the scope, a live parent
  edge, or the grant a role's definition carries.
\<close>

definition tuple_backed :: "reader \<Rightarrow> string \<Rightarrow> check_node \<Rightarrow> relation_tuple \<Rightarrow> bool" where
  "tuple_backed rd permission n e \<longleftrightarrow>
     (\<exists>s p. \<exists>r \<in> set (rd_tenantTuples rd (tenantId n) s p). live r (rd_now rd) \<and> e = tuple_of r) \<or>
     (\<exists>sc s p. rd_scopeFor rd n = Some sc \<and>
        (\<exists>r \<in> set (sc_tuples sc s p). live r (rd_now rd) \<and> e = tuple_of r)) \<or>
     (\<exists>sc s q ob g. rd_scopeFor rd n = Some sc \<and> sc_grant sc s q ob = Some g \<and>
        live g (rd_now rd) \<and> e = tuple_of g) \<or>
     (\<exists>sc. rd_scopeFor rd n = Some sc \<and> edge_tuple (sc_parents sc) (rd_now rd) e) \<or>
     (\<exists>k role. rd_getRole rd (tenantId n) k = Some role \<and> permission \<in> set (role_permissions role) \<and>
        rt_subject e = ''role:'' @ k \<and> rt_relation e = ''granted:'' @ permission)"

definition proof_ok :: "reader \<Rightarrow> string \<Rightarrow> check_node \<Rightarrow> relation_tuple list \<Rightarrow> bool" where
  "proof_ok rd permission n pf \<longleftrightarrow>
     pf \<noteq> [] \<and> (\<forall>e \<in> set pf. tuple_backed rd permission n e) \<and>
     rt_relation (last pf) = ''granted:'' @ permission"

lemma t_tuple_of: "t (subject r) (relation r) (object r) = Inr e \<Longrightarrow> e = tuple_of r"
  by (auto dest!: t_InrD simp: tuple_of_def)

lemma tuplesFor_backed:
  assumes "row \<in> set (tuplesFor rd (rd_scopeFor rd n) n sref p scoped)" and "live row (rd_now rd)"
  shows "tuple_backed rd permission n (tuple_of row)"
proof (cases scoped)
  case True
  with assms obtain sc where "rd_scopeFor rd n = Some sc" "row \<in> set (sc_tuples sc sref p)"
    by (cases "rd_scopeFor rd n") (auto simp: tuplesFor_def)
  with assms(2) show ?thesis unfolding tuple_backed_def by blast
next
  case False
  with assms(1) have "row \<in> set (rd_tenantTuples rd (tenantId n) sref p)"
    by (simp add: tuplesFor_def)
  with assms(2) show ?thesis unfolding tuple_backed_def by blast
qed

lemma subjectsOf_backed:
  assumes "subjectsOf rd s n (rd_now rd) = Inr subs" and "sub \<in> set subs"
    and "e \<in> set (via_list (snd sub))"
  shows "tuple_backed rd permission n e"
proof (cases s)
  case (Principal i)
  with assms(1) obtain orgs where
    tr: "traverse (\<lambda>m. bind_r (t (subject m) (relation m) (object m)) (\<lambda>via. Inr (object m, Some via)))
        (filter (\<lambda>m. relation m = ''member'' \<and> live m (rd_now rd))
          (rd_tenantTuples rd (tenantId n) (subjectRef s) ''member'')) = Inr orgs"
    and subs: "subs = (subjectRef s, None) # orgs"
    by (auto simp: subjectsOf_def bind_r_Inr_iff)
  from assms(2,3) subs have "sub \<in> set orgs" by (auto simp: via_list_def)
  from traverse_Inr_nth [OF tr this] obtain m where
    m: "m \<in> set (rd_tenantTuples rd (tenantId n) (subjectRef s) ''member'')" "live m (rd_now rd)"
    and "bind_r (t (subject m) (relation m) (object m)) (\<lambda>via. Inr (object m, Some via)) = Inr sub"
    by auto
  with assms(3) have "e = tuple_of m"
    by (auto simp: bind_r_Inr_iff via_list_def dest: t_tuple_of)
  with m show ?thesis unfolding tuple_backed_def by blast
qed (use assms in \<open>auto simp: subjectsOf_def via_list_def\<close>)

lemma role_step_proof:
  assumes "role_step rd n (rd_now rd) permission obj via row = Inr (Some d)"
    and "row \<in> set (tuplesFor rd (rd_scopeFor rd n) n sref p scoped)"
    and via: "\<forall>e \<in> set (via_list via). tuple_backed rd permission n e"
  shows "\<exists>pf. d = Allowed pf \<and> proof_ok rd permission n pf"
proof -
  let ?k = "drop (length ''role:'') (relation row)"
  from assms(1) obtain role a b where "live row (rd_now rd)"
    and role: "rd_getRole rd (tenantId n) ?k = Some role" "permission \<in> set (role_permissions role)"
    and a: "t (subject row) (relation row) (object row) = Inr a"
    and b: "t (''role:'' @ ?k) (''granted:'' @ permission) obj = Inr b"
    and d: "d = Allowed (via_list via @ [a, b])"
    by (auto simp: role_step_def Let_def bind_r_Inr_iff split: if_splits option.splits)
  have "tuple_backed rd permission n a"
    using tuplesFor_backed [OF assms(2) \<open>live row (rd_now rd)\<close>] t_tuple_of [OF a] by simp
  moreover from t_InrD [OF b] role have "tuple_backed rd permission n b"
    unfolding tuple_backed_def by fastforce
  moreover have "rt_relation b = ''granted:'' @ permission" using t_InrD [OF b] by simp
  ultimately show ?thesis using via d by (auto simp: proof_ok_def)
qed

lemma grant_step_proof:
  assumes "grant_step (rd_now rd) permission obj via row = Inr (Some d)"
    and "row \<in> set (tuplesFor rd (rd_scopeFor rd n) n sref p scoped)"
    and via: "\<forall>e \<in> set (via_list via). tuple_backed rd permission n e"
  shows "\<exists>pf. d = Allowed pf \<and> proof_ok rd permission n pf"
proof -
  from assms(1) obtain a where "live row (rd_now rd)" "relation row = ''granted:'' @ permission"
    and a: "t (subject row) (relation row) (object row) = Inr a"
    and d: "d = Allowed (via_list via @ [a])"
    by (auto simp: grant_step_def bind_r_Inr_iff split: if_splits)
  moreover from this have "tuple_backed rd permission n a"
    using tuplesFor_backed [OF assms(2)] t_tuple_of [OF a] by simp
  ultimately show ?thesis using via t_tuple_of [OF a] by (auto simp: proof_ok_def tuple_of_def)
qed

lemma node_step_proof:
  assumes "node_step rd (rd_scopeFor rd n) n (rd_now rd) permission nodeObj sub = Inr (Some d)"
    and "\<forall>e \<in> set (via_list (snd sub)). tuple_backed rd permission n e"
  shows "\<exists>pf. d = Allowed pf \<and> proof_ok rd permission n pf"
proof -
  let ?roles = "first_hit (role_step rd n (rd_now rd) permission (fst nodeObj) (snd sub))
      (tuplesFor rd (rd_scopeFor rd n) n (fst sub) ''role:'' (snd nodeObj))"
  let ?grants = "first_hit (grant_step (rd_now rd) permission (fst nodeObj) (snd sub))
      (tuplesFor rd (rd_scopeFor rd n) n (fst sub) (''granted:'' @ permission) (snd nodeObj))"
  from assms(1) have "?roles = Inr (Some d) \<or> ?grants = Inr (Some d)"
    unfolding node_step_def by (auto simp: bind_r_Inr_iff split: option.splits)
  then show ?thesis
  proof
    assume "?roles = Inr (Some d)"
    from first_hit_Some [OF this] show ?thesis using role_step_proof [OF _ _ assms(2)] by blast
  next
    assume "?grants = Inr (Some d)"
    from first_hit_Some [OF this] show ?thesis using grant_step_proof [OF _ _ assms(2)] by blast
  qed
qed

context tuple_reader
begin

lemma entity_probe_proof:
  assumes sc: "rd_scopeFor rd n = Some sc"
    and "entity_probe sc (rd_now rd) permission subs ref chain = Inr (Some d)"
    and via: "\<forall>sub \<in> set subs. \<forall>e \<in> set (via_list (snd sub)). tuple_backed rd permission n e"
    and chain: "\<forall>e \<in> set chain. edge_tuple (sc_parents sc) (rd_now rd) e"
  shows "\<exists>pf. d = Allowed pf \<and> proof_ok rd permission n pf"
proof -
  from first_hit_Some [OF assms(2) [unfolded entity_probe_def]] obtain sub g a where
    sub: "sub \<in> set subs" and g: "sc_grant sc (fst sub) (''granted:'' @ permission) ref = Some g"
    and l: "live g (rd_now rd)" and a: "t (subject g) (relation g) (object g) = Inr a"
    and d: "d = Allowed (via_list (snd sub) @ chain @ [a])"
    by (auto simp: bind_r_Inr_iff split: option.splits if_splits)
  from t_tuple_of [OF a] grant_exact [OF sc g] have "rt_relation a = ''granted:'' @ permission"
    by (simp add: tuple_of_def)
  moreover from t_tuple_of [OF a] g sc l have "tuple_backed rd permission n a"
    unfolding tuple_backed_def by blast
  moreover have "\<forall>e \<in> set chain. tuple_backed rd permission n e"
    using chain sc unfolding tuple_backed_def by blast
  ultimately show ?thesis using via sub d by (auto simp: proof_ok_def)
qed

lemma check_direct_proof:
  assumes "check_direct rd s permission n entity = Inr (Allowed pf)"
  shows "proof_ok rd permission n pf"
proof -
  let ?scope = "rd_scopeFor rd n"
  from assms obtain subs r where on: "\<not> switchedOff s n ?scope"
    and subs: "subjectsOf rd s n (rd_now rd) = Inr subs"
    and r: "first_hit (\<lambda>nodeObj. first_hit (node_step rd ?scope n (rd_now rd) permission nodeObj) subs)
          (nodeObjectsOf n) = Inr r"
    by (auto simp: check_direct_def Let_def bind_r_Inr_iff split: if_splits)
  from subjectsOf_backed [OF subs]
  have via: "\<forall>sub \<in> set subs. \<forall>e \<in> set (via_list (snd sub)). tuple_backed rd permission n e" by blast
  show ?thesis
  proof (cases r)
    case (Some d)
    with assms on subs r have d: "d = Allowed pf" by (simp add: check_direct_def Let_def)
    from first_hit_Some [OF r [unfolded Some]] obtain nodeObj where
      "first_hit (node_step rd ?scope n (rd_now rd) permission nodeObj) subs = Inr (Some d)" by blast
    from first_hit_Some [OF this] via d show ?thesis by (auto dest: node_step_proof)
  next
    case None
    with assms on subs r obtain e sc where sc: "?scope = Some sc"
      and w: "walkParents (sc_parents sc) (ref_of e) (rd_now rd)
           (entity_probe sc (rd_now rd) permission subs) (protectedStop sc permission) = Inr (Some (Allowed pf))"
      by (auto simp: check_direct_def Let_def bind_r_Inr_iff split: option.splits)
    from walkParents_Some [OF w] obtain ref chain where
      "entity_probe sc (rd_now rd) permission subs ref chain = Inr (Some (Allowed pf))"
      "\<forall>e \<in> set chain. edge_tuple (sc_parents sc) (rd_now rd) e" by blast
    from entity_probe_proof [OF sc this(1) via this(2)] show ?thesis by blast
  qed
qed

end

section \<open>What a subject holds at a node\<close>

fun is_capability :: "check_subject \<Rightarrow> bool" where
  "is_capability (Capability i) = True"
| "is_capability _ = False"

definition row_gives :: "reader \<Rightarrow> string \<Rightarrow> string \<Rightarrow> string \<Rightarrow> tuple_row \<Rightarrow> string set" where
  "row_gives rd tid now obj row =
     (case heldBy row obj now of
        Some (HeldRole k) \<Rightarrow> set (permissions_of_role rd tid k)
      | Some (HeldPermission p) \<Rightarrow> {p}
      | None \<Rightarrow> {})"

lemma set_set_add [simp]: "set (set_add x xs) = insert x (set xs)"
  by (auto simp: set_add_def)

lemma distinct_set_add [simp]: "distinct xs \<Longrightarrow> distinct (set_add x xs)"
  by (simp add: set_add_def)

lemma set_fold_set_add [simp]: "set (fold set_add xs acc) = set xs \<union> set acc"
  by (induction xs arbitrary: acc) auto

lemma holdings_row_held:
  "set (ha_held (holdings_row rd n now w nodeObj row acc)) =
     set (ha_held acc) \<union> row_gives rd (tenantId n) now (fst nodeObj) row"
  by (auto simp: holdings_row_def row_gives_def split: option.splits held.splits prod.splits)

lemma fold_held:
  assumes "\<And>x acc. set (ha_held (f x acc)) = set (ha_held acc) \<union> g x"
  shows "set (ha_held (fold f xs acc)) = set (ha_held acc) \<union> (\<Union>x \<in> set xs. g x)"
  by (induction xs arbitrary: acc) (auto simp: assms)

lemma holdingsOf_held:
  assumes "subjectsOf rd s n now = Inr subs" and "holdingsOf rd s n now scope w = Inr h"
  shows "set (ha_held h) = (\<Union>nodeObj \<in> set (nodeObjectsOf n). \<Union>sref \<in> fst ` set subs.
      \<Union>row \<in> set (holdings_rows rd scope n sref (snd nodeObj)).
        row_gives rd (tenantId n) now (fst nodeObj) row)"
proof -
  let ?row = "\<lambda>nodeObj. holdings_row rd n now w nodeObj"
  let ?rows = "\<lambda>nodeObj sub. holdings_rows rd scope n (fst sub) (snd nodeObj)"
  have one: "set (ha_held (fold (?row nodeObj) (?rows nodeObj sub) acc)) = set (ha_held acc) \<union>
      (\<Union>row \<in> set (?rows nodeObj sub). row_gives rd (tenantId n) now (fst nodeObj) row)" for nodeObj sub acc
    by (rule fold_held) (rule holdings_row_held)
  have two: "set (ha_held (fold (\<lambda>sub. fold (?row nodeObj) (?rows nodeObj sub)) subs acc)) =
      set (ha_held acc) \<union> (\<Union>sub \<in> set subs.
        \<Union>row \<in> set (?rows nodeObj sub). row_gives rd (tenantId n) now (fst nodeObj) row)" for nodeObj acc
    by (rule fold_held) (rule one)
  from assms have "h = fold (\<lambda>nodeObj. fold (\<lambda>sub. fold (?row nodeObj) (?rows nodeObj sub)) subs)
      (nodeObjectsOf n) \<lparr>ha_held = [], ha_roles = [], ha_granted = [], ha_narrowed = []\<rparr>"
    by (simp add: holdingsOf_def)
  then show ?thesis by (simp add: fold_held [OF two])
qed

lemma set_tc_fold:
  "set (tc_fold rd tid now rows held) =
     set held \<union> (\<Union>row \<in> set rows. row_gives rd tid now (''tenant:'' @ tid) row)"
  unfolding tc_fold_def
  by (induction rows arbitrary: held) (auto simp: row_gives_def split: option.splits held.splits)

lemma coverage_missing:
  "set (fold (\<lambda>p acc. if p \<notin> set held \<and> p \<notin> set acc then acc @ [p] else acc) required acc) =
     set acc \<union> (set required - set held)"
  by (induction required arbitrary: acc) auto

lemma coverageOf_Covered: "coverageOf required held = Covered \<longleftrightarrow> set required \<subseteq> set held"
  using coverage_missing [of held required "[]"]
  by (auto simp: coverageOf_def Let_def simp flip: set_empty)

lemma coverageOf_cong: "set held = set held' \<Longrightarrow> coverageOf required held = coverageOf required held'"
  by (simp add: coverageOf_def)

lemma coverageOf_NotCovered:
  "coverageOf required held = NotCovered missing \<Longrightarrow> set missing = set required - set held"
  using coverage_missing [of held required "[]"]
  by (auto simp: coverageOf_def Let_def split: if_splits)

lemma startsWith_role: "startsWith r ''role:'' \<Longrightarrow> \<not> startsWith r (''granted:'' @ p)"
  by (auto simp: startsWith_iff)

lemma startsWith_role_granted: "startsWith r ''role:'' \<Longrightarrow> \<not> startsWith r ''granted:''"
  using startsWith_role [of r "[]"] by simp

lemma row_gives_iff:
  "p \<in> row_gives rd tid now obj row \<longleftrightarrow>
     object row = obj \<and> live row now \<and>
     (startsWith (relation row) ''role:'' \<and>
        p \<in> set (permissions_of_role rd tid (drop (length ''role:'') (relation row))) \<or>
      relation row = ''granted:'' @ p)"
proof -
  have "startsWith (relation row) ''granted:'' \<and> p = drop (length ''granted:'') (relation row) \<longleftrightarrow>
      relation row = ''granted:'' @ p"
    by (auto simp: startsWith_iff)
  then show ?thesis
    using startsWith_role_granted [of "relation row"]
    by (auto simp: row_gives_def heldBy_def startsWith_iff)
qed

context tuple_reader
begin

lemma rows_prefix:
  "set (tuplesFor rd (rd_scopeFor rd n) n sref p scoped) =
     prefix_rows p (holdings_rows rd (rd_scopeFor rd n) n sref scoped)"
  using tenant_prefix [of p "tenantId n" sref] scope_prefix [of n _ p sref]
  by (cases "rd_scopeFor rd n") (auto simp: tuplesFor_def holdings_rows_def prefix_rows_def)

lemma node_authority_gives:
  "node_authority rd s p n \<longleftrightarrow>
     (\<exists>nodeObj \<in> set (nodeObjectsOf n). \<exists>sref \<in> subject_refs rd s n.
       \<exists>row \<in> set (holdings_rows rd (rd_scopeFor rd n) n sref (snd nodeObj)).
         p \<in> row_gives rd (tenantId n) (rd_now rd) (fst nodeObj) row)"
proof -
  have "role_gives rd n p rel \<longleftrightarrow> p \<in> set (permissions_of_role rd (tenantId n) (drop (length ''role:'') rel))" for rel
    by (cases "rd_getRole rd (tenantId n) (drop (length ''role:'') rel)")
       (auto simp: role_gives_def permissions_of_role_def)
  then show ?thesis
    unfolding node_authority_def rows_prefix row_gives_iff prefix_rows_def
    by (intro bex_cong refl) auto
qed

lemma holdings_authority:
  assumes "reader_ok rd"
  shows "\<exists>h. holdingsOf rd s n (rd_now rd) (rd_scopeFor rd n) w = Inr h \<and>
    (\<forall>p. p \<in> set (ha_held h) \<longleftrightarrow> node_authority rd s p n)"
proof -
  from subjectsOf_refs [OF assms, of s n] obtain subs where
    subs: "subjectsOf rd s n (rd_now rd) = Inr subs" "fst ` set subs = subject_refs rd s n" by blast
  then obtain h where h: "holdingsOf rd s n (rd_now rd) (rd_scopeFor rd n) w = Inr h"
    by (simp add: holdingsOf_def)
  from holdingsOf_held [OF subs(1) h] subs(2) node_authority_gives [of s _ n] h show ?thesis by auto
qed

lemma covers_authority:
  assumes "reader_ok rd" and "required \<noteq> []" and "\<not> is_capability s"
  shows "\<exists>h. covers rd s required n =
      Inr (if switchedOff s n (rd_scopeFor rd n) then NotCovered (fold set_add required [])
           else coverageOf required h) \<and> (\<forall>p. p \<in> set h \<longleftrightarrow> node_authority rd s p n)"
proof -
  from holdings_authority [OF assms(1), of s n False] obtain h where
    "holdingsOf rd s n (rd_now rd) (rd_scopeFor rd n) False = Inr h"
    "\<forall>p. p \<in> set (ha_held h) \<longleftrightarrow> node_authority rd s p n" by blast
  with assms(2,3) show ?thesis
    by (intro exI [of _ "ha_held h"]) (cases s; simp add: covers_def Let_def)
qed

lemma check_node_only:
  assumes "reader_ok rd" and "\<not> is_capability s"
  shows "(\<exists>pf. check rd s p n None = Inr (Allowed pf)) \<longleftrightarrow>
    \<not> switchedOff s n (rd_scopeFor rd n) \<and> node_authority rd s p n"
proof -
  from check_direct_decides [OF assms(1), of s p n None] obtain d where
    "check_direct rd s p n None = Inr d"
    "allowed d \<longleftrightarrow> \<not> switchedOff s n (rd_scopeFor rd n) \<and> node_authority rd s p n" by auto
  moreover have "check rd s p n None = check_direct rd s p n None"
    using assms(2) by (cases s) (simp_all add: check_def)
  ultimately show ?thesis by (cases d) auto
qed

lemma fold_set_add_ne: "required \<noteq> [] \<Longrightarrow> fold set_add required [] \<noteq> []"
  by (metis set_fold_set_add set_empty Un_empty)

lemma covers_iff_checks:
  assumes "reader_ok rd"
  shows "covers rd s required n = Inr Covered \<longleftrightarrow>
    (\<forall>p \<in> set required. \<exists>pf. check rd s p n None = Inr (Allowed pf))"
proof (cases "required = []")
  case True
  then show ?thesis by (simp add: covers_def)
next
  case False
  show ?thesis
  proof (cases "is_capability s")
    case True
    with False show ?thesis
      by (cases s; cases required) (auto simp: covers_def check_def checkCapability_def Let_def)
  next
    case not_cap: False
    from covers_authority [OF assms False not_cap, of n] obtain h where
      h: "covers rd s required n =
        Inr (if switchedOff s n (rd_scopeFor rd n) then NotCovered (fold set_add required [])
           else coverageOf required h)" "\<forall>p. p \<in> set h \<longleftrightarrow> node_authority rd s p n" by blast
    show ?thesis
      unfolding h(1) check_node_only [OF assms not_cap] using h(2) False
      by (auto simp: coverageOf_Covered)
  qed
qed

lemma covers_total:
  assumes "reader_ok rd"
  shows "\<exists>c. covers rd s required n = Inr c"
proof (cases "required = [] \<or> is_capability s")
  case True
  then show ?thesis by (cases s) (auto simp: covers_def)
next
  case False
  then have "required \<noteq> []" "\<not> is_capability s" by auto
  from covers_authority [OF assms this, of n] show ?thesis by auto
qed

lemma members_prefix:
  "{object m | m. m \<in> set (rd_tenantTuples rd tid sref ''member'') \<and> relation m = ''member'' \<and> P m} =
   {object m | m. m \<in> set (rd_tenantTuples rd tid sref []) \<and> relation m = ''member'' \<and> P m}"
proof -
  have "m \<in> set (rd_tenantTuples rd tid sref ''member'') \<longleftrightarrow> m \<in> set (rd_tenantTuples rd tid sref [])"
    if "relation m = ''member''" for m
  proof -
    have "m \<in> prefix_rows ''member'' (rd_tenantTuples rd tid sref ''member'') \<longleftrightarrow>
        m \<in> prefix_rows ''member'' (rd_tenantTuples rd tid sref [])"
      by (subst tenant_prefix) (rule refl)
    with that show ?thesis by (simp add: prefix_rows_def)
  qed
  then show ?thesis by (intro Collect_cong ex_cong1) auto
qed

lemma tenantCoverage_covers:
  assumes "reader_ok rd"
  shows "covers rd (Principal who) required \<lparr>tenantId = tid, scopeId = None\<rparr> =
    Inr (tenantCoverage rd tid who required)"
proof (cases "required = []")
  case True
  then show ?thesis by (simp add: covers_def tenantCoverage_def)
next
  case False
  let ?n = "\<lparr>tenantId = tid, scopeId = None\<rparr>" and ?now = "rd_now rd"
  let ?own = "rd_tenantTuples rd tid (''principal:'' @ who) []"
  let ?rows = "\<lambda>sref. rd_tenantTuples rd tid sref []"
  let ?gives = "\<lambda>sref. \<Union>row \<in> set (?rows sref). row_gives rd tid ?now (''tenant:'' @ tid) row"
  have "\<not> switchedOff (Principal who) ?n (rd_scopeFor rd ?n)"
    by (simp add: switchedOff_def isSwitchableSubjectKind_def)
  with covers_authority [OF assms False, of "Principal who" ?n] obtain h where
    cov: "covers rd (Principal who) required ?n = Inr (coverageOf required h)"
    and h: "\<forall>p. p \<in> set h \<longleftrightarrow> node_authority rd (Principal who) p ?n" by auto
  have refs: "subject_refs rd (Principal who) ?n = insert (''principal:'' @ who)
      {object m | m. m \<in> set ?own \<and> relation m = ''member'' \<and> live m ?now}"
    using members_prefix [of tid "''principal:'' @ who" "\<lambda>m. live m ?now"]
    by (simp add: subject_refs_def subjectRef_def)
  have "set h = (\<Union>sref \<in> subject_refs rd (Principal who) ?n. ?gives sref)"
    using h node_authority_gives [of "Principal who" _ ?n]
    by (auto simp: nodeObjectsOf_def scope_of_def holdings_rows_def)
  also have "\<dots> = ?gives (''principal:'' @ who) \<union>
      (\<Union>m \<in> {m \<in> set ?own. relation m = ''member'' \<and> live m ?now}. ?gives (object m))"
    unfolding refs by blast
  finally have set_h: "set h = \<dots>" .
  have fold: "set (fold (\<lambda>m held. if relation m = ''member'' \<and> live m ?now
          then tc_fold rd tid ?now (?rows (object m)) held else held) ms acc) =
      set acc \<union> (\<Union>m \<in> {m \<in> set ms. relation m = ''member'' \<and> live m ?now}. ?gives (object m))" for ms acc
    by (induction ms arbitrary: acc) (auto simp: set_tc_fold)
  have "coverageOf required h = tenantCoverage rd tid who required"
    unfolding tenantCoverage_def Let_def using False
    by (simp, intro coverageOf_cong) (simp only: set_h fold set_tc_fold, simp)
  with cov show ?thesis by simp
qed

end

end
