(* ===== verification/Sqlite_Checker.thy ===== *)
theory Sqlite_Checker
  imports Permission_Bounds
begin

text \<open>
  The pure adapter's half of the evaluator, \<open>packages/adapter-sqlite/src/checker.ts\<close>: the
  directory and the open scope databases as tables, the prepared statements as filters over
  them (SQL \<open>LIKE\<close> included), and \<open>createTupleChecker\<close> as the evaluator over that reader.
  A statement without \<open>ORDER BY\<close> is read in table order.  The theory interprets the
  reader's contract on these reads and states what the checker decides.
\<close>

section \<open>SQL LIKE\<close>

text \<open>SQLite's default \<open>LIKE\<close>: \<open>%\<close> any run, \<open>_\<close> any one character, ASCII case ignored.\<close>

function sql_like :: "string \<Rightarrow> string \<Rightarrow> bool" where
  "sql_like [] str = (str = [])"
| "sql_like (p # ps) [] = (p = CHR ''%'' \<and> sql_like ps [])"
| "sql_like (p # ps) (c # cs) =
     (if p = CHR ''%'' then sql_like ps (c # cs) \<or> sql_like (p # ps) cs
      else (p = CHR ''_'' \<or> toLower p = toLower c) \<and> sql_like ps cs)"
  by pat_completeness auto
termination
  by (relation "measure (\<lambda>(p, s). length p + length s)") auto

section \<open>Databases\<close>

record scope_db =
  db_tuples :: "tuple_row list"
  db_capabilities :: "(string \<times> capability_row) list"

record checker_deps =
  db_directory :: "(string \<times> tuple_row) list" \<comment> \<open>\<open>_substrat_tenant_tuples\<close>, with its tenant\<close>
  db_scopes :: "(string \<times> scope_db) list" \<comment> \<open>the open scope databases\<close>
  db_roles :: "((string \<times> string) \<times> role_definition) list"
  db_clock :: string

definition system_switch_off_relation :: string where
  "system_switch_off_relation = ''switch:off''"

definition shape_protected_key_relation :: string where
  "shape_protected_key_relation = ''shape-grantee-key''"

definition shapeProtectedTypes :: "tuple_row list \<Rightarrow> string \<Rightarrow> string list" where
  "shapeProtectedTypes rows rel =
     map (\<lambda>r. drop (length ''shape:'') (subject r))
       (filter (\<lambda>r. ''shape:'' \<le> subject r \<and> subject r < ''shape;'' \<and>
                    relation r = shape_protected_key_relation \<and> object r = rel) rows)"

definition subjectSwitchedOff :: "tuple_row list \<Rightarrow> string \<Rightarrow> bool" where
  "subjectSwitchedOff rows s =
     list_ex (\<lambda>r. subject r = s \<and> relation r = system_switch_off_relation \<and> revoked_at r = None) rows"

definition scopeReader :: "scope_db \<Rightarrow> scope_reader" where
  "scopeReader db =
     \<lparr>sc_tuples = (\<lambda>s p. filter (\<lambda>r. subject r = s \<and> sql_like (p @ ''%'') (relation r)) (db_tuples db)),
      sc_grant = (\<lambda>s rel ob.
        row_where (\<lambda>r. subject r = s \<and> relation r = rel \<and> object r = ob) (db_tuples db)),
      sc_parents = (\<lambda>ob. filter (\<lambda>r. subject r = ob \<and> relation r = ''parent'') (db_tuples db)),
      sc_shapeProtectedTypes = shapeProtectedTypes (db_tuples db),
      sc_capability = Some (map_of (db_capabilities db)),
      sc_switchedOff = subjectSwitchedOff (db_tuples db)\<rparr>"

definition directoryTenantTuples :: "checker_deps \<Rightarrow> string \<Rightarrow> string \<Rightarrow> string \<Rightarrow> tuple_row list" where
  "directoryTenantTuples deps tid s p =
     map snd (filter (\<lambda>(tid', r). tid' = tid \<and> subject r = s \<and> sql_like (p @ ''%'') (relation r))
                (db_directory deps))"

definition createTupleChecker :: "checker_deps \<Rightarrow> reader" where
  "createTupleChecker deps =
     \<lparr>rd_now = db_clock deps,
      rd_tenantTuples = directoryTenantTuples deps,
      rd_getRole = (\<lambda>tid k. map_of (db_roles deps) (tid, k)),
      rd_scopeFor = (\<lambda>n. case scope_of n of
          None \<Rightarrow> None
        | Some sid \<Rightarrow> map_option scopeReader (map_of (db_scopes deps) sid))\<rparr>"

lemmas checker_sel [simp] =
  scope_reader.simps reader.simps

section \<open>The interpretation of the contract\<close>

lemma sql_like_any: "sql_like ''%'' str"
  by (induction str) auto

lemma sql_like_percent: "sql_like ps str \<Longrightarrow> sql_like (CHR ''%'' # ps) str"
  by (cases str) auto

lemma sql_like_prefix: "startsWith str p \<Longrightarrow> sql_like (p @ ''%'') str"
proof (induction p arbitrary: str)
  case Nil
  then show ?case using sql_like_any by simp
next
  case (Cons c p)
  then obtain str' where "str = c # str'" "startsWith str' p"
    by (auto simp: startsWith_iff)
  with Cons.IH [of str'] show ?case by (auto intro: sql_like_percent)
qed

lemma scopeReader_prefix:
  "prefix_rows p (sc_tuples (scopeReader db) s p) = prefix_rows p (sc_tuples (scopeReader db) s [])"
  by (auto simp: prefix_rows_def scopeReader_def sql_like_any sql_like_prefix)

lemma directory_prefix:
  "prefix_rows p (directoryTenantTuples deps tid s p) = prefix_rows p (directoryTenantTuples deps tid s [])"
  by (force simp: prefix_rows_def directoryTenantTuples_def sql_like_any sql_like_prefix)

interpretation sq: tuple_reader "createTupleChecker deps" for deps
proof (unfold_locales, goal_cases)
  case (1 p tid s)
  show ?case by (simp add: createTupleChecker_def directory_prefix)
next
  case (2 n sc p s)
  then show ?case by (auto simp: createTupleChecker_def scopeReader_prefix split: option.splits)
next
  case (3 n sc s r ob g)
  then show ?case
    by (auto simp: createTupleChecker_def scopeReader_def dest!: row_where_SomeD split: option.splits)
qed

text \<open>The grammar every write to the two tables is held to.\<close>

definition cap_ok :: "string \<times> capability_row \<Rightarrow> bool" where
  "cap_ok c \<longleftrightarrow> objectRefString (''capability:'' @ fst c) \<and>
     (case (cap_entity_type (snd c), cap_entity_id (snd c)) of
        (Some et, Some ei) \<Rightarrow> objectRefString (et @ '':'' @ ei)
      | _ \<Rightarrow> True)"

definition store_ok :: "checker_deps \<Rightarrow> bool" where
  "store_ok deps \<longleftrightarrow>
     list_all (\<lambda>(tid, r). row_ok r) (db_directory deps) \<and>
     list_all (\<lambda>(sid, db). list_all row_ok (db_tuples db) \<and> list_all cap_ok (db_capabilities db))
       (db_scopes deps) \<and>
     list_all (\<lambda>((tid, k), role). objectRefString (''role:'' @ k)) (db_roles deps)"

lemma scopeReader_ok:
  assumes "list_all row_ok (db_tuples db)"
  shows "scope_ok (scopeReader db)"
  using assms
  by (auto simp: scope_ok_def scopeReader_def edges_ok_def row_ok_def list_all_iff dest!: row_where_SomeD)

lemma checker_scope:
  assumes "store_ok deps" and "rd_scopeFor (createTupleChecker deps) n = Some sc"
  obtains db where "sc = scopeReader db" "list_all row_ok (db_tuples db)" "list_all cap_ok (db_capabilities db)"
  using assms
  by (auto simp: createTupleChecker_def store_ok_def list_all_iff dest!: map_of_SomeD split: option.splits)

lemma store_reader_ok:
  assumes "store_ok deps"
  shows "reader_ok (createTupleChecker deps)"
proof -
  have "row_ok r" if "r \<in> set (directoryTenantTuples deps tid s p)" for tid s p r
    using assms that by (auto simp: store_ok_def directoryTenantTuples_def list_all_iff)
  moreover have "objectRefString (''role:'' @ k)" if "map_of (db_roles deps) (tid, k) = Some role" for tid k role
    using assms map_of_SomeD [OF that] by (auto simp: store_ok_def list_all_iff)
  moreover have "scope_ok sc" if "rd_scopeFor (createTupleChecker deps) n = Some sc" for n sc
    using checker_scope [OF assms that] scopeReader_ok by metis
  ultimately show ?thesis unfolding reader_ok_def by (auto simp: createTupleChecker_def)
qed

text \<open>Expiry instants in order, \<open>None\<close> being "never".\<close>

definition expiry_le :: "string option \<Rightarrow> string option \<Rightarrow> bool" where
  "expiry_le a b = (case b of None \<Rightarrow> True | Some y \<Rightarrow> (case a of None \<Rightarrow> False | Some x \<Rightarrow> x \<le> y))"

section \<open>A small deployment\<close>

text \<open>
  One tenant, one open scope.  \<open>P1\<close> is a member of the org \<open>O1\<close>, which holds the role
  \<open>staff\<close> at the tenant; \<open>P2\<close> holds one facility and through it the work order below it; a
  capability \<open>P2\<close> minted on the facility; a module switched off on the scope although it holds
  a tenant grant.
\<close>

abbreviation demo_p2 :: string where
  "demo_p2 \<equiv> ''01HZZZZZZZZZZZZZZZZZZZZZP2''"

definition demo_row :: "string \<Rightarrow> string \<Rightarrow> string \<Rightarrow> tuple_row" where
  "demo_row s r ob = \<lparr>subject = s, relation = r, object = ob, expires_at = None, revoked_at = None\<rparr>"

definition demo_deps :: checker_deps where
  "demo_deps =
     \<lparr>db_directory =
        [(''T1'', demo_row ''principal:P1'' ''member'' ''org:O1''),
         (''T1'', demo_row ''org:O1'' ''role:staff'' ''tenant:T1''),
         (''T1'', demo_row ''system:mod'' ''granted:workorder:read'' ''tenant:T1'')],
      db_scopes =
        [(''S1'',
          \<lparr>db_tuples =
             [demo_row (''principal:'' @ demo_p2) ''granted:workorder:read'' ''facility:F1'',
              demo_row ''workorder:W1'' ''parent'' ''facility:F1'',
              demo_row ''system:mod'' ''switch:off'' ''scope:S1''],
           db_capabilities =
             [(''C1'', \<lparr>cap_mode = ''act'', cap_entity_type = Some ''facility'', cap_entity_id = Some ''F1'',
                cap_permissions = Some (Some (JArr [JStr ''workorder:read''])),
                cap_minted_by = Some (JStr demo_p2), cap_expires_at = None, cap_max_uses = None,
                cap_uses = 0, cap_revoked_at = None\<rparr>)]\<rparr>)],
      db_roles = [((''T1'', ''staff''), \<lparr>role_key = ''staff'', role_permissions = [''workorder:read'']\<rparr>)],
      db_clock = ''2026-01-01T00:00:00.000Z''\<rparr>"

definition demo_node :: check_node where
  "demo_node = \<lparr>tenantId = ''T1'', scopeId = Some ''S1''\<rparr>"

definition demo_order :: entity_ref where
  "demo_order = \<lparr>entityType = ''workorder'', entityId = ''W1''\<rparr>"

lemma demo_store_ok: "store_ok demo_deps"
  by code_simp

lemma demo_p2_allowed:
  "check (createTupleChecker demo_deps) (Principal demo_p2) ''workorder:read'' demo_node (Some demo_order) =
     Inr (Allowed
       [\<lparr>rt_subject = ''workorder:W1'', rt_relation = ''parent'', rt_object = ''facility:F1''\<rparr>,
        \<lparr>rt_subject = ''principal:'' @ demo_p2, rt_relation = ''granted:workorder:read'',
         rt_object = ''facility:F1''\<rparr>])"
  by code_simp

section \<open>Capabilities\<close>

lemma ulid_object_id: "ulid_pattern s \<Longrightarrow> object_id s"
proof -
  assume "ulid_pattern s"
  then have len: "length s = 26" and all: "\<forall>c \<in> set s. ulid_char c"
    by (auto simp: ulid_pattern_def list_all_iff)
  have "\<not> is_space c" if "ulid_char c" for c
  proof
    assume "is_space c"
    then have "c \<in> set [CHR 0x09, CHR 0x0A, CHR 0x0B, CHR 0x0C, CHR 0x0D, CHR '' '']"
      by (simp only: is_space_def)
    moreover have "\<not> list_ex ulid_char [CHR 0x09, CHR 0x0A, CHR 0x0B, CHR 0x0C, CHR 0x0D, CHR '' '']"
      by code_simp
    ultimately show False using that by (auto simp: list_ex_iff)
  qed
  with all len show ?thesis by (auto simp: object_id_def list_all_iff)
qed

lemma parse_author_ulid: "parse_author a = Some (Some s) \<Longrightarrow> ulid_pattern s"
  by (induction a rule: parse_author.induct) (auto split: if_splits option.splits json.splits)

lemma usable_refs:
  assumes "capability_usable (scopeReader db) now i p = Some (root, minter)"
    and "list_all cap_ok (db_capabilities db)"
  shows "objectRefString (''capability:'' @ i)" and "objectRefString (ref_of root)"
    and "objectRefString (''principal:'' @ minter)"
proof -
  from assms(1) obtain row g where row: "map_of (db_capabilities db) i = Some row"
    and g: "capabilityGrantOf row = Some g" "cg_mintedBy g = Some minter" "cg_entity g = root"
    by (auto simp: capability_usable_def scopeReader_def split: option.splits if_splits)
  from map_of_SomeD [OF row] assms(2) have ok: "cap_ok (i, row)" by (auto simp: list_all_iff)
  then show "objectRefString (''capability:'' @ i)" by (simp add: cap_ok_def)
  from g obtain et ei a where et: "cap_entity_type row = Some et" "cap_entity_id row = Some ei"
    and root: "root = \<lparr>entityType = et, entityId = ei\<rparr>" and a: "parse_author a = Some (Some minter)"
    by (auto simp: capabilityGrantOf_def split: option.splits if_splits json.splits)
  from ok et root show "objectRefString (ref_of root)" by (simp add: cap_ok_def ref_of_def)
  have "object_namespace ''principal''" by code_simp
  from objectRefString_append [OF this ulid_object_id [OF parse_author_ulid [OF a]]]
  show "objectRefString (''principal:'' @ minter)" by simp
qed

lemma capability_chain_decides:
  assumes "scope_ok sc" and "objectRefString (''capability:'' @ i)" and "objectRefString (ref_of root)"
  shows "\<exists>r. capability_chain sc now i p root e = Inr r \<and>
    (r \<noteq> None \<longleftrightarrow> (\<exists>k \<le> entity_walk_depth.
       (ref_of e, ref_of root) \<in> parent_edge (sc_parents sc) now (protectedStop sc p) ^^ k))"
proof -
  let ?probe = "\<lambda>ref walked. if ref = ref_of root
      then bind_r (t (''capability:'' @ i) (''granted:'' @ p) (ref_of root)) (\<lambda>a. Inr (Some (walked @ [a])))
      else Inr None"
  have probe: "probe_decides ?probe (\<lambda>ref. ref = ref_of root)"
    using assms(2,3) by (simp add: probe_decides_def t_ok)
  have edges: "edges_ok (sc_parents sc)" using assms(1) by (simp add: scope_ok_def)
  from walkParents_reaches [OF probe edges, of "ref_of e" now "protectedStop sc p"]
  show ?thesis unfolding capability_chain_def by simp
qed

section \<open>What the checker decides\<close>

text \<open>
  C1. The checker over well-formed tables never throws, and it allows a subject that is not a
  capability exactly when the subject is not switched off on the scope and it, or an org it is
  a live member of, holds the permission through a live role or grant at the scope or the
  tenant, or through a live entity grant on the entity or one of its ancestors at most four
  live parent edges up that no protected record cuts off.
\<close>

theorem check_decides_authority:
  assumes "store_ok deps" and "\<not> is_capability s"
  shows "\<exists>d. check (createTupleChecker deps) s permission n entity = Inr d \<and>
    (allowed d \<longleftrightarrow> \<not> switchedOff s n (rd_scopeFor (createTupleChecker deps) n) \<and>
       (node_authority (createTupleChecker deps) s permission n \<or>
        (\<exists>e. entity = Some e \<and> entity_authority (createTupleChecker deps) s permission n e)))"
proof -
  have "check (createTupleChecker deps) s permission n entity =
      check_direct (createTupleChecker deps) s permission n entity"
    using assms(2) by (cases s) (simp_all add: check_def)
  with check_direct_decides [OF store_reader_ok [OF assms(1)]] show ?thesis by simp
qed

theorem check_decides_authority_witness:
  "store_ok demo_deps \<and> \<not> is_capability (Principal demo_p2) \<and>
   (node_authority (createTupleChecker demo_deps) (Principal demo_p2) ''workorder:read'' demo_node \<or>
    entity_authority (createTupleChecker demo_deps) (Principal demo_p2) ''workorder:read'' demo_node demo_order)"
  using check_decides_authority [OF demo_store_ok, of "Principal demo_p2" "''workorder:read''" demo_node
      "Some demo_order"] demo_store_ok
  by (simp add: demo_p2_allowed)

text \<open>
  C2. Every allow of a subject that is not a capability carries a proof: it is not empty, each
  of its tuples is a live stored row, a live parent edge or the grant of an existing role
  definition, and it ends in the grant of the permission that was asked for.
\<close>

theorem check_proof_backed:
  assumes "check (createTupleChecker deps) s permission n entity = Inr (Allowed pf)"
    and "\<not> is_capability s"
  shows "proof_ok (createTupleChecker deps) permission n pf"
proof -
  have "check_direct (createTupleChecker deps) s permission n entity = Inr (Allowed pf)"
    using assms by (cases s) (simp_all add: check_def)
  then show ?thesis by (rule sq.check_direct_proof)
qed

theorem check_proof_backed_witness:
  "proof_ok (createTupleChecker demo_deps) ''workorder:read'' demo_node
     [\<lparr>rt_subject = ''workorder:W1'', rt_relation = ''parent'', rt_object = ''facility:F1''\<rparr>,
      \<lparr>rt_subject = ''principal:'' @ demo_p2, rt_relation = ''granted:workorder:read'',
       rt_object = ''facility:F1''\<rparr>]"
  by (rule check_proof_backed [OF demo_p2_allowed]) simp

definition stored_capability :: "scope_reader \<Rightarrow> string \<Rightarrow> capability_row option" where
  "stored_capability sc i = Option.bind (sc_capability sc) (\<lambda>get. get i)"

lemma capability_usable_iff:
  "capability_usable sc now i permission = Some (root, minter) \<longleftrightarrow>
     (\<exists>row g. stored_capability sc i = Some row \<and> cap_revoked_at row = None \<and> expires_after (cap_expires_at row) now \<and>
        capabilityGrantOf row = Some g \<and> permission \<in> set (cg_permissions g) \<and> cg_entity g = root \<and>
        cg_mintedBy g = Some minter \<and> minter \<noteq> [])"
  by (auto simp: capability_usable_def capabilityLive_def stored_capability_def split: option.splits if_splits)

text \<open>
  C3. A capability acts exactly within its four conditions: it allows a permission on an entity
  iff the capability is live and carries the key, the entity lies at or below the capability's
  root within the walk's reach, and the principal who minted it holds the permission on that
  entity now.
\<close>

theorem capability_bounded_by_minter:
  assumes "store_ok deps" and "scope_of n \<noteq> None"
    and "rd_scopeFor (createTupleChecker deps) n = Some sc"
  shows "(\<exists>pf. check (createTupleChecker deps) (Capability i) permission n (Some e) = Inr (Allowed pf)) \<longleftrightarrow>
    (\<exists>row g minter pf. stored_capability sc i = Some row \<and>
       cap_revoked_at row = None \<and> expires_after (cap_expires_at row) (db_clock deps) \<and>
       capabilityGrantOf row = Some g \<and> permission \<in> set (cg_permissions g) \<and>
       (\<exists>k \<le> 4. (ref_of e, ref_of (cg_entity g)) \<in>
          parent_edge (sc_parents sc) (db_clock deps) (protectedStop sc permission) ^^ k) \<and>
       cg_mintedBy g = Some minter \<and> minter \<noteq> [] \<and>
       check (createTupleChecker deps) (Principal minter) permission n (Some e) = Inr (Allowed pf))"
proof -
  let ?rd = "createTupleChecker deps"
  have now: "rd_now ?rd = db_clock deps" by (simp add: createTupleChecker_def)
  obtain db where db: "sc = scopeReader db" "list_all row_ok (db_tuples db)"
    "list_all cap_ok (db_capabilities db)"
    using checker_scope [OF assms(1,3)] .
  have eq: "check ?rd (Capability i) permission n (Some e) =
      (case capability_usable sc (db_clock deps) i permission of
         None \<Rightarrow> Inr (Denied permission n)
       | Some (root, minter) \<Rightarrow>
           bind_r (capability_chain sc (db_clock deps) i permission root e) (\<lambda>found.
             case found of None \<Rightarrow> Inr (Denied permission n)
             | Some chain \<Rightarrow>
                 bind_r (check ?rd (Principal minter) permission n (Some e)) (\<lambda>d.
                   case d of Denied _ _ \<Rightarrow> Inr (Denied permission n)
                   | Allowed pf \<Rightarrow>
                       bind_r (t (''capability:'' @ i) ''minted-by'' (''principal:'' @ minter))
                         (\<lambda>m. Inr (Allowed (pf @ [m] @ chain))))))"
    using assms(2,3) now by (auto simp: check_def checkCapability_def Let_def split: option.splits)
  have spec: "(\<exists>pf. check ?rd (Capability i) permission n (Some e) = Inr (Allowed pf)) \<longleftrightarrow>
    (\<exists>root minter pf. capability_usable sc (db_clock deps) i permission = Some (root, minter) \<and>
       (\<exists>k \<le> entity_walk_depth. (ref_of e, ref_of root) \<in>
          parent_edge (sc_parents sc) (db_clock deps) (protectedStop sc permission) ^^ k) \<and>
       check ?rd (Principal minter) permission n (Some e) = Inr (Allowed pf))"
  proof (cases "capability_usable sc (db_clock deps) i permission")
    case None
    then show ?thesis by (simp add: eq)
  next
    case (Some rm)
    obtain root minter where rm: "rm = (root, minter)" by fastforce
    note refs = usable_refs [OF Some [unfolded rm db(1)] db(3)]
    from capability_chain_decides [OF scopeReader_ok [OF db(2)] refs(1,2),
        of "db_clock deps" permission e, folded db(1)]
    obtain r where "capability_chain sc (db_clock deps) i permission root e = Inr r"
      and "r \<noteq> None \<longleftrightarrow> (\<exists>k \<le> entity_walk_depth. (ref_of e, ref_of root) \<in>
          parent_edge (sc_parents sc) (db_clock deps) (protectedStop sc permission) ^^ k)" by blast
    moreover from check_direct_decides [OF store_reader_ok [OF assms(1)]] obtain d where
      "check ?rd (Principal minter) permission n (Some e) = Inr d"
      by (fastforce simp: check_def)
    ultimately show ?thesis
      using Some rm refs(1,3) by (cases r; cases d) (auto simp: eq t_ok)
  qed
  show ?thesis unfolding spec capability_usable_iff entity_walk_depth_def by blast
qed

theorem capability_bounded_by_minter_witness:
  "\<exists>row g minter pf. stored_capability (the (rd_scopeFor (createTupleChecker demo_deps) demo_node)) ''C1'' = Some row \<and>
    capabilityGrantOf row = Some g \<and> cg_mintedBy g = Some minter \<and>
    check (createTupleChecker demo_deps) (Principal minter) ''workorder:read'' demo_node (Some demo_order) =
      Inr (Allowed pf)"
proof -
  have n: "scope_of demo_node \<noteq> None" by code_simp
  have sc: "rd_scopeFor (createTupleChecker demo_deps) demo_node =
      Some (the (rd_scopeFor (createTupleChecker demo_deps) demo_node))"
    by (simp add: createTupleChecker_def demo_deps_def demo_node_def scope_of_def)
  have "\<exists>pf. check (createTupleChecker demo_deps) (Capability ''C1'') ''workorder:read'' demo_node (Some demo_order)
      = Inr (Allowed pf)"
  proof -
    have "(case check (createTupleChecker demo_deps) (Capability ''C1'') ''workorder:read'' demo_node
        (Some demo_order) of Inr d \<Rightarrow> allowed d | Inl e \<Rightarrow> False)" by code_simp
    then show ?thesis by (auto elim: allowed.elims split: sum.splits)
  qed
  with capability_bounded_by_minter [OF demo_store_ok n sc] show ?thesis by blast
qed

text \<open>
  C4. The assignment bound: a subject covers a set of permissions exactly when each of them,
  checked at the node with no entity, is allowed.  An entity-narrowed grant never covers.
\<close>

theorem covers_iff_every_check:
  assumes "store_ok deps"
  shows "covers (createTupleChecker deps) s required n = Inr Covered \<longleftrightarrow>
    (\<forall>p \<in> set required. \<exists>pf. check (createTupleChecker deps) s p n None = Inr (Allowed pf))"
  by (rule sq.covers_iff_checks [OF store_reader_ok [OF assms]])

theorem covers_iff_every_check_witness:
  "store_ok demo_deps \<and>
   (\<exists>pf. check (createTupleChecker demo_deps) (Principal ''P1'') ''workorder:read'' demo_node None = Inr (Allowed pf))"
proof -
  have "covers (createTupleChecker demo_deps) (Principal ''P1'') [''workorder:read''] demo_node = Inr Covered"
    by code_simp
  with covers_iff_every_check [OF demo_store_ok] demo_store_ok show ?thesis by (metis list.set_intros(1))
qed

text \<open>
  The synchronous bound a directory transaction asks gives the answer of the evaluator's
  own coverage at the tenant node, missing keys and their order included.
\<close>

theorem tenantCoverage_is_covers:
  assumes "store_ok deps"
  shows "covers (createTupleChecker deps) (Principal who) required \<lparr>tenantId = tid, scopeId = None\<rparr> =
    Inr (tenantCoverage (createTupleChecker deps) tid who required)"
  by (rule sq.tenantCoverage_covers [OF store_reader_ok [OF assms]])

theorem tenantCoverage_is_covers_witness:
  "covers (createTupleChecker demo_deps) (Principal ''P1'') [''workorder:read'', ''workorder:close'']
     \<lparr>tenantId = ''T1'', scopeId = None\<rparr> = Inr (NotCovered [''workorder:close''])"
proof -
  have "tenantCoverage (createTupleChecker demo_deps) ''T1'' ''P1'' [''workorder:read'', ''workorder:close''] =
      NotCovered [''workorder:close'']" by code_simp
  with tenantCoverage_is_covers [OF demo_store_ok] show ?thesis by simp
qed

text \<open>
  A module or peer vertical whose OFF marker is live on a scope is denied every permission
  on that scope, with or without an entity, whatever grants it holds there or at the tenant,
  and it covers nothing but the empty set.
\<close>

theorem switched_off_denied:
  assumes "s = System m \<or> s = Vertical m inst"
    and "scope_of n = Some sid" and "map_of (db_scopes deps) sid = Some db"
    and "subjectSwitchedOff (db_tuples db) (subjectRef s)"
  shows "check (createTupleChecker deps) s permission n entity = Inr (Denied permission n) \<and>
    (required \<noteq> [] \<longrightarrow>
      covers (createTupleChecker deps) s required n = Inr (NotCovered (fold set_add required [])))"
proof -
  have "switchedOff s n (rd_scopeFor (createTupleChecker deps) n)"
    using assms
    by (auto simp: switchedOff_def isSwitchableSubjectKind_def createTupleChecker_def scopeReader_def)
  with assms(1) show ?thesis
    by (auto simp: check_def check_direct_def covers_def Let_def)
qed

theorem switched_off_denied_witness:
  "check (createTupleChecker demo_deps) (System ''mod'') ''workorder:read'' demo_node None =
     Inr (Denied ''workorder:read'' demo_node)"
proof -
  have "scope_of demo_node = Some ''S1''" by code_simp
  moreover have "map_of (db_scopes demo_deps) ''S1'' = Some (snd (hd (db_scopes demo_deps)))"
    by (simp add: demo_deps_def)
  moreover have "subjectSwitchedOff (db_tuples (snd (hd (db_scopes demo_deps)))) (subjectRef (System ''mod''))"
    by code_simp
  ultimately show ?thesis
    using switched_off_denied [of "System ''mod''" "''mod''" "[]" demo_node "''S1''" demo_deps] by blast
qed

text \<open>
  A join confers a membership that never outlives both its bounds: it is granted only
  while the bounding principal is a live member of the org, it does not expire before a live
  membership the joiner already holds, and when it expires later than the bounding membership
  it is exactly the membership the joiner already held.
\<close>

theorem org_join_expiry:
  assumes "orgChangeBound rd tid OrgAdd who boundedBy orgId = Some expiry"
  shows "\<exists>bound. liveOrgMembership rd tid boundedBy orgId = Some bound \<and>
    (expiry_le expiry (expires_at bound) \<or>
      (\<exists>ex. liveOrgMembership rd tid who orgId = Some ex \<and> expiry = expires_at ex)) \<and>
    (\<forall>ex. liveOrgMembership rd tid who orgId = Some ex \<longrightarrow> expiry_le (expires_at ex) expiry)"
  using assms
  by (auto simp: orgChangeBound_def joinedMembershipExpiry_def expiry_le_def
      split: option.splits if_splits)

theorem org_join_expiry_witness:
  "\<exists>bound. liveOrgMembership (createTupleChecker demo_deps) ''T1'' ''P1'' ''O1'' = Some bound \<and>
     expires_at bound = None"
proof -
  have "orgChangeBound (createTupleChecker demo_deps) ''T1'' OrgAdd ''P3'' ''P1'' ''O1'' = Some None"
    by code_simp
  from org_join_expiry [OF this] obtain bound where
    b: "liveOrgMembership (createTupleChecker demo_deps) ''T1'' ''P1'' ''O1'' = Some bound" by blast
  have "map_option expires_at (liveOrgMembership (createTupleChecker demo_deps) ''T1'' ''P1'' ''O1'') = Some None"
    by code_simp
  with b show ?thesis by simp
qed

end
