(* ===== verification/Scope_Host.thy ===== *)
theory Scope_Host
  imports Sqlite_Checker
begin

text \<open>
  What an operation sees of its scope: the operation context the pure adapter builds
  (\<open>packages/adapter-sqlite/src/index.ts\<close>, \<open>operationContext\<close>), the outbox writer behind
  \<open>ctx.emit\<close>, the check that records what passed, delegation (\<open>ctx.grant\<close>, \<open>ctx.revoke\<close>
  over \<open>packages/kernel/src/entity-grant.ts\<close>) and the event contract
  (\<open>packages/contracts/src/events.ts\<close>, \<open>kernel-events.ts\<close>).

  An operation runs in one transaction, so a verb is a function of the store that either
  throws (and the store is the one before) or returns the store after it; module tables are
  record extensions of \<open>scope_store\<close>.  \<open>cx_checker\<close> is the checker over the tuples as they
  stand, since it reads inside the same transaction.  \<open>cx_ids\<close> is the sequence of ids
  \<open>ulid()\<close> and \<open>mintEventId\<close> hand out.  Tracing, request ids and the secret tripwire of
  \<open>ctx.emit\<close> are left out: they change neither the outcome nor the tables of an operation
  that mints no capability.
\<close>

section \<open>The event contract\<close>

datatype pii_class = PiiNone | Pseudonymous | DirectPii

record domain_event_input =
  ev_type :: string
  ev_schemaVersion :: int
  ev_entity :: entity_ref
  ev_piiClass :: pii_class
  ev_subjectId :: "string option"
  ev_payload :: json

definition entityRef_ok :: "entity_ref \<Rightarrow> bool" where
  "entityRef_ok e \<longleftrightarrow> entityType e \<noteq> [] \<and> entityId e \<noteq> []"

definition event_char :: "char \<Rightarrow> bool" where
  "event_char c \<longleftrightarrow> is_lower c \<or> is_digit c \<or> c = CHR ''-''"

definition eventType :: "string \<Rightarrow> bool" where
  "eventType s \<longleftrightarrow>
     (let a = takeWhile (\<lambda>c. c \<noteq> CHR ''.'') s; b = drop (length a + 1) s in
      CHR ''.'' \<in> set s \<and> a \<noteq> [] \<and> list_all event_char a \<and> b \<noteq> [] \<and> list_all event_char b)"

definition piiInvariant :: "domain_event_input \<Rightarrow> bool" where
  "piiInvariant e \<longleftrightarrow> ev_piiClass e = PiiNone \<or> ev_subjectId e \<noteq> None"

definition domainEventInput :: "domain_event_input \<Rightarrow> bool" where
  "domainEventInput e \<longleftrightarrow>
     eventType (ev_type e) \<and> 0 < ev_schemaVersion e \<and> entityRef_ok (ev_entity e) \<and>
     (case ev_subjectId e of None \<Rightarrow> True | Some s \<Rightarrow> ulid_pattern s) \<and> piiInvariant e"

definition KERNEL_AUTHORED :: "string list" where
  "KERNEL_AUTHORED =
     [''attachment.added'', ''attachment.removed'', ''attachment.upload-link-minted'',
      ''attachment.upload-link-redeemed'', ''attachment.upload-link-revoked'',
      ''capability.become-minted'', ''capability.bind-minted'', ''capability.exercised'',
      ''capability.minted'', ''capability.revoked'', ''email.dead-lettered'', ''email.refused'',
      ''email.sent'', ''entity.archived'', ''entity.grants-retired'', ''entity.grants-topped-up'',
      ''entity.holder-bound'', ''entity.holder-unbound'', ''entity.linked'', ''entity.relinked'',
      ''entity.restored'', ''entity.trashed'', ''entity.unarchived'']"

definition assertModuleEmittableType :: "string \<Rightarrow> unit result" where
  "assertModuleEmittableType ty = guard_r (ty \<notin> set KERNEL_AUTHORED)
     (SubstratError Validation_Failed None
        (''ctx.emit cannot emit '' @ ty @ '': the kernel authors that event type itself.''))"

definition assertKernelAuthoredType :: "string \<Rightarrow> unit result" where
  "assertKernelAuthoredType ty = guard_r (ty \<in> set KERNEL_AUTHORED)
     (SubstratError Internal None (''the kernel wrote '' @ ty @ '', which is not a kernel-authored type''))"

section \<open>The scope and the operation context\<close>

record event_authorization =
  au_permission :: string
  au_grant :: "string option"

record outbox_row =
  ob_id :: string
  ob_type :: string
  ob_schema_version :: int
  ob_occurred_at :: string
  ob_actor :: actor
  ob_entity :: entity_ref
  ob_pii_class :: pii_class
  ob_subject_id :: "string option"
  ob_authorization :: "event_authorization list"
  ob_operation :: "string option"
  ob_payload :: json

record scope_store =
  tuples :: "tuple_row list"
  outbox :: "outbox_row list"
  passed :: "event_authorization list" \<comment> \<open>the checks this operation has passed\<close>
  drawn :: nat \<comment> \<open>how many ids have been handed out\<close>

record op_ctx =
  cx_subject :: check_subject
  cx_override :: "string option" \<comment> \<open>the system actor of a consumer dispatch\<close>
  cx_node :: check_node
  cx_at :: string
  cx_operation :: "string option"
  cx_session :: "(string \<times> bool) option" \<comment> \<open>impersonation: session id, may it write\<close>
  cx_ids :: "nat \<Rightarrow> string"
  cx_checker :: "tuple_row list \<Rightarrow> check_subject \<Rightarrow> string \<Rightarrow> check_node \<Rightarrow> entity_ref option \<Rightarrow> decision result"
  cx_relations :: "(string \<times> string list) list"
  cx_unreachable :: "entity_ref \<Rightarrow> bool"
  cx_reserved :: "string list"
  cx_withheld :: "string list"

definition cx_principal :: "op_ctx \<Rightarrow> string" where
  "cx_principal cx = subject_id (cx_subject cx)"

text \<open>\<open>ulid()\<close>: the next id.\<close>

definition ulid :: "op_ctx \<Rightarrow> 'a scope_store_scheme \<Rightarrow> string \<times> 'a scope_store_scheme" where
  "ulid cx st = (cx_ids cx (drawn st), st\<lparr>drawn := Suc (drawn st)\<rparr>)"

definition assertImpersonationWrites :: "op_ctx \<Rightarrow> string \<Rightarrow> unit result" where
  "assertImpersonationWrites cx verb =
     (case cx_session cx of
        None \<Rightarrow> Inr ()
      | Some (sid, writes) \<Rightarrow> guard_r writes
          (SubstratError Forbidden None
             (verb @ '' is refused under a read-only impersonation session ('' @ sid @ '')'')))"

definition event_actor :: "op_ctx \<Rightarrow> actor" where
  "event_actor cx = (case cx_override cx of Some m \<Rightarrow> ActorSystem m | None \<Rightarrow> actorOf (cx_subject cx))"

datatype author = ModuleAuthor | KernelAuthor

definition writeEvent ::
  "op_ctx \<Rightarrow> author \<Rightarrow> domain_event_input \<Rightarrow> 'a scope_store_scheme \<Rightarrow> 'a scope_store_scheme result" where
  "writeEvent cx author ev st =
     bind_r (assertImpersonationWrites cx ''ctx.emit'') (\<lambda>_.
     bind_r (guard_r (domainEventInput ev) (ZodError ''domainEventInput'')) (\<lambda>_.
     bind_r (case author of ModuleAuthor \<Rightarrow> assertModuleEmittableType (ev_type ev)
                          | KernelAuthor \<Rightarrow> assertKernelAuthoredType (ev_type ev)) (\<lambda>_.
     (case ulid cx st of (i, st1) \<Rightarrow>
        bind_r (guard_r (ulid_pattern i) (ZodError ''eventId'')) (\<lambda>_.
        bind_r (guard_r (i \<notin> ob_id ` set (outbox st1)) (PlainError ''UNIQUE constraint failed'')) (\<lambda>_.
          Inr (st1\<lparr>outbox := outbox st1 @
            [\<lparr>ob_id = i, ob_type = ev_type ev, ob_schema_version = ev_schemaVersion ev,
              ob_occurred_at = cx_at cx, ob_actor = event_actor cx, ob_entity = ev_entity ev,
              ob_pii_class = ev_piiClass ev, ob_subject_id = ev_subjectId ev,
              ob_authorization = passed st1, ob_operation = cx_operation cx,
              ob_payload = ev_payload ev\<rparr>]\<rparr>)))))))"

definition emit :: "op_ctx \<Rightarrow> domain_event_input \<Rightarrow> 'a scope_store_scheme \<Rightarrow> 'a scope_store_scheme result" where
  "emit cx ev st = writeEvent cx ModuleAuthor ev st"

section \<open>Checks\<close>

text \<open>The granting tuple of a proof: the last one with the permission's relation, unless a role gave it.\<close>

definition grantRefFromProof :: "string \<Rightarrow> relation_tuple list \<Rightarrow> string option" where
  "grantRefFromProof permission proof =
     (case row_where (\<lambda>x. rt_relation x = ''granted:'' @ permission) (rev proof) of
        Some x \<Rightarrow> if startsWith (rt_subject x) ''role:'' then None else Some (rt_object x)
      | None \<Rightarrow> None)"

definition assertPermissionKey :: "string \<Rightarrow> string result" where
  "assertPermissionKey p =
     (if permissionKey p then Inr p
      else Inl (SubstratError Internal None (''ctx.check was handed '' @ p @ '', which is not a permission key'')))"

definition system_ref_char :: "char \<Rightarrow> char" where
  "system_ref_char c =
     (if is_lower c \<or> is_upper c \<or> is_digit c \<or> c \<in> set ''_.-'' then c else CHR ''-'')"

text \<open>An allow joins the checks passed so far, once.\<close>

definition record_pass :: "string \<Rightarrow> decision \<Rightarrow> 'a scope_store_scheme \<Rightarrow> 'a scope_store_scheme" where
  "record_pass permission d st =
     (case d of
        Allowed proof \<Rightarrow>
          (let entry = \<lparr>au_permission = permission, au_grant = grantRefFromProof permission proof\<rparr> in
           if entry \<in> set (passed st) then st else st\<lparr>passed := passed st @ [entry]\<rparr>)
      | Denied _ _ \<Rightarrow> st)"

definition decideCheck ::
  "op_ctx \<Rightarrow> string \<Rightarrow> entity_ref option \<Rightarrow> 'a scope_store_scheme \<Rightarrow> (decision \<times> 'a scope_store_scheme) result" where
  "decideCheck cx unparsed entity st =
     bind_r (assertPermissionKey unparsed) (\<lambda>permission.
       if permission \<in> set (cx_withheld cx) then Inr (Denied permission (cx_node cx), st)
       else case cx_override cx of
         Some m \<Rightarrow>
           bind_r (t (''system:'' @ map system_ref_char m) (''granted:'' @ permission)
                     (''scope:'' @ (case scopeId (cx_node cx) of Some s \<Rightarrow> s | None \<Rightarrow> '''')))
             (\<lambda>x. Inr (Allowed [x], st))
       | None \<Rightarrow>
           bind_r (cx_checker cx (tuples st) (cx_subject cx) permission (cx_node cx) entity) (\<lambda>d.
             Inr (d, record_pass permission d st)))"

text \<open>\<open>assertAllowed(await ctx.check(...))\<close>, the first line of an operation.\<close>

definition require ::
  "op_ctx \<Rightarrow> string \<Rightarrow> entity_ref option \<Rightarrow> 'a scope_store_scheme \<Rightarrow> 'a scope_store_scheme result" where
  "require cx permission entity st =
     bind_r (decideCheck cx permission entity st) (\<lambda>(d, st1). bind_r (assertAllowed d) (\<lambda>_. Inr st1))"

section \<open>Delegation\<close>

definition entityObjectRef :: "entity_ref \<Rightarrow> string \<Rightarrow> string result" where
  "entityObjectRef e verb =
     (if object_namespace (entityType e) \<and> \<not> isKernelNamespace (entityType e) \<and> object_id (entityId e)
      then Inr (ref_of e)
      else Inl (SubstratError Validation_Failed None (verb @ '': malformed entity ref'')))"

definition reservedGrantRefusal :: "string list \<Rightarrow> string list \<Rightarrow> string option" where
  "reservedGrantRefusal permissions reserved =
     (let held = filter (\<lambda>p. p \<in> set reserved) permissions in
      if held = [] then None
      else Some (join '', '' held @ '' cannot be granted to a principal, an org or a connection''))"

definition assertDelegableTuple :: "tuple_row list \<Rightarrow> string \<Rightarrow> string \<Rightarrow> unit result" where
  "assertDelegableTuple rows rel ob =
     (if \<not> startsWith rel ''granted:'' \<or> CHR '':'' \<notin> set ob then Inr ()
      else guard_r (takeWhile (\<lambda>c. c \<noteq> CHR '':'') ob \<notin> set (shapeProtectedTypes rows rel))
        (SubstratError Permission_Denied None
           (''cannot grant '' @ drop (length ''granted:'') rel @ '' on '' @ ob)))"

text \<open>The primary key of \<open>_substrat_tuples\<close>.\<close>

definition tuple_key :: "string \<Rightarrow> string \<Rightarrow> string \<Rightarrow> tuple_row \<Rightarrow> bool" where
  "tuple_key s rel ob r \<longleftrightarrow> subject r = s \<and> relation r = rel \<and> object r = ob"

definition new_tuple :: "string \<Rightarrow> string \<Rightarrow> string \<Rightarrow> string option \<Rightarrow> tuple_row" where
  "new_tuple s rel ob ex = \<lparr>subject = s, relation = rel, object = ob, expires_at = ex, revoked_at = None\<rparr>"

text \<open>\<open>INSERT ... ON CONFLICT DO UPDATE SET revoked_at = NULL, expires_at = NULL WHERE revoked_at IS NOT NULL\<close>.\<close>

definition explicitTuple :: "string \<Rightarrow> string \<Rightarrow> string \<Rightarrow> tuple_row list \<Rightarrow> tuple_row list" where
  "explicitTuple s rel ob rows =
     (if list_ex (tuple_key s rel ob) rows
      then update_where (\<lambda>r. tuple_key s rel ob r \<and> revoked_at r \<noteq> None)
             (\<lambda>r. r\<lparr>revoked_at := None, expires_at := None\<rparr>) rows
      else rows @ [new_tuple s rel ob None])"

datatype write_mode = Replace "string option" | Delegated

definition writeExplicitTupleIn ::
  "string \<Rightarrow> string \<Rightarrow> string \<Rightarrow> write_mode \<Rightarrow> tuple_row list \<Rightarrow> tuple_row list result" where
  "writeExplicitTupleIn s rel ob mode rows =
     bind_r (assertDelegableTuple rows rel ob) (\<lambda>_.
       Inr (case mode of
              Replace ex \<Rightarrow> filter (\<lambda>r. \<not> tuple_key s rel ob r) rows @ [new_tuple s rel ob ex]
            | Delegated \<Rightarrow> explicitTuple s rel ob rows))"

definition delegatedRevoke :: "string \<Rightarrow> string \<Rightarrow> string \<Rightarrow> string \<Rightarrow> tuple_row list \<Rightarrow> tuple_row list" where
  "delegatedRevoke who permission ob at rows =
     update_where (\<lambda>r. tuple_key (''principal:'' @ who) (''granted:'' @ permission) ob r \<and> revoked_at r = None)
       (\<lambda>r. r\<lparr>revoked_at := Some at\<rparr>) rows"

definition grant ::
  "op_ctx \<Rightarrow> string \<Rightarrow> string \<Rightarrow> entity_ref \<Rightarrow> 'a scope_store_scheme \<Rightarrow> 'a scope_store_scheme result" where
  "grant cx who permission entity st =
     bind_r (assertImpersonationWrites cx ''ctx.grant'') (\<lambda>_.
     bind_r (entityObjectRef entity ''ctx.grant'') (\<lambda>_.
     bind_r (case reservedGrantRefusal [permission] (cx_reserved cx) of
               Some msg \<Rightarrow> Inl (SubstratError Forbidden None msg) | None \<Rightarrow> Inr ()) (\<lambda>_.
     bind_r (decideCheck cx permission (Some entity) st) (\<lambda>(held, st1).
     bind_r (guard_r (allowed held)
        (SubstratError Permission_Denied None (''cannot grant '' @ permission @ '' on '' @ ref_of entity))) (\<lambda>_.
     bind_r (writeExplicitTupleIn (''principal:'' @ who) (''granted:'' @ permission) (ref_of entity)
               Delegated (tuples st1)) (\<lambda>rows.
       Inr (st1\<lparr>tuples := rows\<rparr>)))))))"

definition revoke ::
  "op_ctx \<Rightarrow> string \<Rightarrow> string \<Rightarrow> entity_ref \<Rightarrow> 'a scope_store_scheme \<Rightarrow> 'a scope_store_scheme result" where
  "revoke cx who permission entity st =
     bind_r (assertImpersonationWrites cx ''ctx.revoke'') (\<lambda>_.
     bind_r (decideCheck cx permission (Some entity) st) (\<lambda>(held, st1).
     bind_r (guard_r (allowed held)
        (SubstratError Permission_Denied None (''cannot revoke '' @ permission @ '' on '' @ ref_of entity))) (\<lambda>_.
       Inr (st1\<lparr>tuples := delegatedRevoke who permission (ref_of entity) (cx_at cx) (tuples st1)\<rparr>))))"

section \<open>What the verbs change\<close>

lemma writeEvent_Inr:
  assumes "writeEvent cx au ev st = Inr st'"
  shows "domainEventInput ev" and "ulid_pattern (cx_ids cx (drawn st))"
    and "cx_ids cx (drawn st) \<notin> ob_id ` set (outbox st)"
    and "st' = st\<lparr>drawn := Suc (drawn st), outbox := outbox st @
        [\<lparr>ob_id = cx_ids cx (drawn st), ob_type = ev_type ev, ob_schema_version = ev_schemaVersion ev,
          ob_occurred_at = cx_at cx, ob_actor = event_actor cx, ob_entity = ev_entity ev,
          ob_pii_class = ev_piiClass ev, ob_subject_id = ev_subjectId ev,
          ob_authorization = passed st, ob_operation = cx_operation cx, ob_payload = ev_payload ev\<rparr>]\<rparr>"
  using assms
  by (auto simp: writeEvent_def ulid_def bind_r_Inr_iff guard_r_Inr_iff)

lemma emit_Inr:
  assumes "emit cx ev st = Inr st'"
  shows "tuples st' = tuples st" and "\<exists>row. outbox st' = outbox st @ [row] \<and> ob_type row = ev_type ev \<and>
      ob_payload row = ev_payload ev \<and> ob_entity row = ev_entity ev \<and> ob_occurred_at row = cx_at cx"
    and "scope_store.more st' = scope_store.more st" and "ev_type ev \<notin> set KERNEL_AUTHORED"
    and "distinct (map ob_id (outbox st)) \<Longrightarrow> distinct (map ob_id (outbox st'))"
proof -
  from assms have w: "writeEvent cx ModuleAuthor ev st = Inr st'" by (simp add: emit_def)
  note eq = writeEvent_Inr(4) [OF w]
  show "tuples st' = tuples st" and "scope_store.more st' = scope_store.more st"
    and "\<exists>row. outbox st' = outbox st @ [row] \<and> ob_type row = ev_type ev \<and>
      ob_payload row = ev_payload ev \<and> ob_entity row = ev_entity ev \<and> ob_occurred_at row = cx_at cx"
    by (simp_all add: eq)
  show "ev_type ev \<notin> set KERNEL_AUTHORED"
    using w by (auto simp: writeEvent_def assertModuleEmittableType_def monad_simps)
  show "distinct (map ob_id (outbox st)) \<Longrightarrow> distinct (map ob_id (outbox st'))"
    using writeEvent_Inr(3) [OF w] by (simp add: eq)
qed

text \<open>
  Stores in which the next id is the same and the same ids are taken: an event that can be written to one
  can be written to the other, at whatever instant.
\<close>

definition alike :: "'a scope_store_scheme \<Rightarrow> 'a scope_store_scheme \<Rightarrow> bool" where
  "alike st s \<longleftrightarrow> drawn s = drawn st \<and> map ob_id (outbox s) = map ob_id (outbox st)"

lemma alike_refl [simp]: "alike st st"
  by (simp add: alike_def)

lemma emit_alike:
  fixes st s :: "'a scope_store_scheme"
  assumes "emit cx ev st = Inr st'" and "alike st s" and "ev_type ev' = ev_type ev" and "domainEventInput ev'"
  shows "\<exists>s'. emit (cx\<lparr>cx_at := now\<rparr>) ev' s = Inr s' \<and> alike st' s' \<and> scope_store.more s' = scope_store.more s"
proof -
  from assms(1) have w: "writeEvent cx ModuleAuthor ev st = Inr st'" by (simp add: emit_def)
  have ids: "ob_id ` set (outbox s) = ob_id ` set (outbox st)"
    using assms(2) by (metis alike_def list.set_map)
  show ?thesis
    using w writeEvent_Inr [OF w] assms(2-4)
    by (auto simp: emit_def writeEvent_def ulid_def monad_simps assertImpersonationWrites_def alike_def ids split: option.splits)
qed

lemma emit_any_time:
  fixes st s :: "'a scope_store_scheme"
  assumes "emit cx ev st = Inr st'" and "alike st s"
  shows "\<exists>s'. emit (cx\<lparr>cx_at := now\<rparr>) ev s = Inr s' \<and> alike st' s' \<and> scope_store.more s' = scope_store.more s"
  using emit_alike [OF assms refl] assms(1) writeEvent_Inr(1) unfolding emit_def by blast

lemma at_fields [simp]: "cx_ids (cx\<lparr>cx_at := now\<rparr>) = cx_ids cx" "cx_principal (cx\<lparr>cx_at := now\<rparr>) = cx_principal cx"
    "ulid (cx\<lparr>cx_at := now\<rparr>) st = ulid cx st"
  by (simp_all add: ulid_def cx_principal_def)

lemma record_pass_fields [simp]:
  "tuples (record_pass p d st) = tuples st" "outbox (record_pass p d st) = outbox st"
  "drawn (record_pass p d st) = drawn st" "scope_store.more (record_pass p d st) = scope_store.more st"
  by (cases d; simp add: record_pass_def Let_def)+

lemma decideCheck_cases:
  assumes "decideCheck cx p e st = Inr (d, st')"
  obtains "st' = st" "\<not> allowed d" | "st' = st" "cx_override cx \<noteq> None"
    | "st' = record_pass p d st" "cx_checker cx (tuples st) (cx_subject cx) p (cx_node cx) e = Inr d"
proof (cases "p \<in> set (cx_withheld cx)")
  case True
  with assms have "st' = st" "\<not> allowed d"
    by (auto simp: decideCheck_def assertPermissionKey_def split: if_splits)
  then show ?thesis using that(1) by blast
next
  case False
  show ?thesis
  proof (cases "cx_override cx")
    case None
    with False assms have "st' = record_pass p d st"
      "cx_checker cx (tuples st) (cx_subject cx) p (cx_node cx) e = Inr d"
      by (auto simp: decideCheck_def assertPermissionKey_def bind_r_Inr_iff split: if_splits)
    then show ?thesis using that(3) by blast
  next
    case (Some m)
    with False assms have "st' = st"
      by (auto simp: decideCheck_def assertPermissionKey_def bind_r_Inr_iff split: if_splits)
    with Some show ?thesis using that(2) by blast
  qed
qed

lemma decideCheck_Inr:
  assumes "decideCheck cx p e st = Inr (d, st')"
  shows "tuples st' = tuples st" and "outbox st' = outbox st" and "drawn st' = drawn st"
    and "scope_store.more st' = scope_store.more st"
    and "allowed d \<Longrightarrow> cx_override cx = None \<Longrightarrow>
      cx_checker cx (tuples st) (cx_subject cx) p (cx_node cx) e = Inr d"
  using decideCheck_cases [OF assms] by (metis record_pass_fields)+

lemma require_Inr:
  assumes "require cx p e st = Inr st'"
  shows "tuples st' = tuples st" and "outbox st' = outbox st" and "drawn st' = drawn st"
    and "scope_store.more st' = scope_store.more st"
    and "cx_override cx = None \<Longrightarrow>
      \<exists>pf. cx_checker cx (tuples st) (cx_subject cx) p (cx_node cx) e = Inr (Allowed pf)"
proof -
  from assms obtain d where d: "decideCheck cx p e st = Inr (d, st')" and a: "assertAllowed d = Inr ()"
    by (auto simp: require_def monad_simps)
  then obtain pf where "d = Allowed pf" by (cases d) auto
  with d show "tuples st' = tuples st" and "outbox st' = outbox st" and "drawn st' = drawn st"
    and "scope_store.more st' = scope_store.more st"
    and "cx_override cx = None \<Longrightarrow>
      \<exists>pf. cx_checker cx (tuples st) (cx_subject cx) p (cx_node cx) e = Inr (Allowed pf)"
    using decideCheck_Inr [OF d] by auto
qed

lemma explicitTuple_others: "filter (\<lambda>r. \<not> tuple_key s rel ob r) (explicitTuple s rel ob rows) =
    filter (\<lambda>r. \<not> tuple_key s rel ob r) rows"
proof -
  have "filter (\<lambda>r. \<not> tuple_key s rel ob r)
      (update_where (\<lambda>r. tuple_key s rel ob r \<and> revoked_at r \<noteq> None)
        (\<lambda>r. r\<lparr>revoked_at := None, expires_at := None\<rparr>) rows) = filter (\<lambda>r. \<not> tuple_key s rel ob r) rows"
    by (induction rows) (auto simp: update_where_def tuple_key_def)
  then show ?thesis by (simp add: explicitTuple_def new_tuple_def tuple_key_def)
qed

lemma explicitTuple_live:
  assumes "\<forall>r \<in> set rows. tuple_key s rel ob r \<and> revoked_at r = None \<longrightarrow> expires_after (expires_at r) now"
  shows "\<exists>r. row_where (tuple_key s rel ob) (explicitTuple s rel ob rows) = Some r \<and> live r now"
proof (cases "list_ex (tuple_key s rel ob) rows")
  case True
  then obtain r where r: "row_where (tuple_key s rel ob) rows = Some r"
    by (metis list_ex_iff not_None_eq row_where_None)
  then have rm: "r \<in> set rows" "tuple_key s rel ob r" by (auto dest: row_where_SomeD)
  have "row_where (tuple_key s rel ob) (explicitTuple s rel ob rows) =
      map_option (\<lambda>r. if tuple_key s rel ob r \<and> revoked_at r \<noteq> None
        then r\<lparr>revoked_at := None, expires_at := None\<rparr> else r) (row_where (tuple_key s rel ob) rows)"
    using True unfolding explicitTuple_def
    by (simp only: if_True) (rule row_where_update_where, simp add: tuple_key_def)
  with r rm assms show ?thesis by (auto simp: live_def expires_after_def)
next
  case False
  then have "row_where (tuple_key s rel ob) rows = None" by (auto simp: row_where_None list_ex_iff)
  with False show ?thesis
    by (simp add: explicitTuple_def row_where_append new_tuple_def tuple_key_def live_def expires_after_def)
qed

lemma explicitTuple_stale:
  assumes "\<forall>r \<in> set rows. tuple_key s rel ob r \<longrightarrow> revoked_at r = None" and "\<exists>r \<in> set rows. tuple_key s rel ob r"
  shows "explicitTuple s rel ob rows = rows"
proof -
  have "update_where (\<lambda>r. tuple_key s rel ob r \<and> revoked_at r \<noteq> None) f rows = rows" for f
    using assms(1) by (induction rows) (auto simp: update_where_def)
  then show ?thesis using assms(2) by (auto simp: explicitTuple_def list_ex_iff)
qed

definition tombstone :: "string \<Rightarrow> string \<Rightarrow> string \<Rightarrow> string \<Rightarrow> tuple_row list \<Rightarrow> tuple_row list" where
  "tombstone s rel ob at rows =
     update_where (\<lambda>r. tuple_key s rel ob r \<and> revoked_at r = None) (\<lambda>r. r\<lparr>revoked_at := Some at\<rparr>) rows"

lemma delegatedRevoke_tombstone:
  "delegatedRevoke who p ob at rows = tombstone (''principal:'' @ who) (''granted:'' @ p) ob at rows"
  by (simp only: delegatedRevoke_def tombstone_def)

lemma tuple_key_revoked [simp]: "tuple_key s rel ob (r\<lparr>revoked_at := v\<rparr>) = tuple_key s rel ob r"
  by (simp add: tuple_key_def)

lemma tombstone_dead: "r \<in> set (tombstone s rel ob at rows) \<Longrightarrow> tuple_key s rel ob r \<Longrightarrow> \<not> live r now"
  unfolding tombstone_def by (erule in_update_whereE) (auto simp: live_def)

lemma tombstone_columns:
  "map (\<lambda>r. (subject r, relation r, object r, expires_at r)) (tombstone s rel ob at rows) =
     map (\<lambda>r. (subject r, relation r, object r, expires_at r)) rows"
  unfolding tombstone_def by (rule map_update_where) simp

lemma tombstone_others:
  "filter (\<lambda>r. \<not> tuple_key s rel ob r) (tombstone s rel ob at rows) = filter (\<lambda>r. \<not> tuple_key s rel ob r) rows"
  unfolding tombstone_def update_where_def by (induction rows) simp_all

lemma grant_Inr:
  assumes "grant cx who p e st = Inr st'"
  obtains d st1 rows where "decideCheck cx p (Some e) st = Inr (d, st1)" "allowed d" "p \<notin> set (cx_reserved cx)"
    "object_namespace (entityType e)" "object_id (entityId e)" "\<not> isKernelNamespace (entityType e)"
    "assertDelegableTuple (tuples st1) (''granted:'' @ p) (ref_of e) = Inr ()"
    "rows = explicitTuple (''principal:'' @ who) (''granted:'' @ p) (ref_of e) (tuples st1)"
    "st' = st1\<lparr>tuples := rows\<rparr>"
  using assms
  by (auto simp: grant_def monad_simps reservedGrantRefusal_def entityObjectRef_def writeExplicitTupleIn_def
      Let_def split: if_splits)

section \<open>The host's checker\<close>

text \<open>The checker of a deployment whose scope \<open>sid\<close> holds the given tuples.\<close>

definition with_tuples :: "checker_deps \<Rightarrow> string \<Rightarrow> tuple_row list \<Rightarrow> checker_deps" where
  "with_tuples deps sid rows =
     deps\<lparr>db_scopes := map (\<lambda>(i, db). (i, if i = sid then db\<lparr>db_tuples := rows\<rparr> else db)) (db_scopes deps)\<rparr>"

lemma with_tuples_scope:
  assumes "scope_of n = Some sid" and "sid \<in> fst ` set (db_scopes deps)"
  shows "\<exists>db. rd_scopeFor (createTupleChecker (with_tuples deps sid rows)) n = Some (scopeReader db) \<and>
    db_tuples db = rows"
proof -
  have "map_of (map (\<lambda>(i, db). (i, if i = sid then db\<lparr>db_tuples := rows\<rparr> else db)) xs) sid =
      map_option (\<lambda>db. db\<lparr>db_tuples := rows\<rparr>) (map_of xs sid)"
    for xs :: "(string \<times> scope_db) list"
    by (induction xs) auto
  moreover obtain db where "map_of (db_scopes deps) sid = Some db"
    using assms(2) by (metis map_of_eq_None_iff not_None_eq)
  ultimately show ?thesis using assms(1)
    by (intro exI [of _ "db\<lparr>db_tuples := rows\<rparr>"]) (simp add: createTupleChecker_def with_tuples_def)
qed

lemma direct_grant_allows:
  assumes "store_ok deps" and "rd_scopeFor (createTupleChecker deps) n = Some (scopeReader db)"
    and "row_where (tuple_key (''principal:'' @ who) (''granted:'' @ p) (ref_of e)) (db_tuples db) = Some r"
    and "live r (db_clock deps)"
  shows "\<exists>pf. check (createTupleChecker deps) (Principal who) p n (Some e) = Inr (Allowed pf)"
proof -
  let ?rd = "createTupleChecker deps"
  have now: "rd_now ?rd = db_clock deps" by (simp add: createTupleChecker_def)
  have "sc_grant (scopeReader db) (subjectRef (Principal who)) (''granted:'' @ p) (ref_of e) = Some r"
    using assms(3) by (simp add: scopeReader_def subjectRef_def tuple_key_def [abs_def])
  moreover have "subjectRef (Principal who) \<in> subject_refs ?rd (Principal who) n"
    by (simp add: subject_refs_def)
  moreover have "(ref_of e, ref_of e) \<in> E ^^ 0" for E :: "(string \<times> string) set" by simp
  ultimately have "entity_authority ?rd (Principal who) p n e"
    unfolding entity_authority_def now using assms(2,4) by blast
  then obtain d where "check_direct ?rd (Principal who) p n (Some e) = Inr d" "allowed d"
    using check_direct_decides [OF store_reader_ok [OF assms(1)], of "Principal who" p n "Some e"]
    by (auto simp: switchedOff_def isSwitchableSubjectKind_def)
  then show ?thesis by (cases d) (auto simp: check_def)
qed

section \<open>Properties of delegation\<close>

text \<open>
  The concrete instance: the small deployment's holder of facility \<open>F1\<close> delegates to another
  principal, once over a fresh store and once over one where that principal's grant has expired.
\<close>

abbreviation demo_p3 :: string where
  "demo_p3 \<equiv> ''01HZZZZZZZZZZZZZZZZZZZZZP3''"

definition demo_facility :: entity_ref where
  "demo_facility = \<lparr>entityType = ''facility'', entityId = ''F1''\<rparr>"

definition demo_tuples :: "tuple_row list" where
  "demo_tuples = [demo_row (''principal:'' @ demo_p2) ''granted:workorder:read'' ''facility:F1'']"

definition demo_expired :: tuple_row where
  "demo_expired = \<lparr>subject = ''principal:'' @ demo_p3, relation = ''granted:workorder:read'',
     object = ''facility:F1'', expires_at = Some ''2025-01-01T00:00:00.000Z'', revoked_at = None\<rparr>"

definition demo_store :: "tuple_row list \<Rightarrow> scope_store" where
  "demo_store rows = \<lparr>tuples = rows, outbox = [], passed = [], drawn = 0\<rparr>"

definition demo_ctx :: op_ctx where
  "demo_ctx = \<lparr>cx_subject = Principal demo_p2, cx_override = None, cx_node = demo_node,
     cx_at = ''2026-01-01T00:00:00.000Z'', cx_operation = Some ''share'', cx_session = None,
     cx_ids = (\<lambda>n. ''01HZZZZZZZZZZZZZZZZZZZZZE'' @ show_nat (n mod 10)),
     cx_checker = (\<lambda>rows. check (createTupleChecker (with_tuples demo_deps ''S1'' rows))),
     cx_relations = [(''workorder'', [''facility''])], cx_unreachable = (\<lambda>_. False),
     cx_reserved = [], cx_withheld = []\<rparr>"

lemma demo_grant_fresh: "grant demo_ctx demo_p3 ''workorder:read'' demo_facility (demo_store demo_tuples) =
    Inr ((demo_store (demo_tuples @ [demo_row (''principal:'' @ demo_p3) ''granted:workorder:read'' ''facility:F1'']))
      \<lparr>passed := [\<lparr>au_permission = ''workorder:read'', au_grant = Some ''facility:F1''\<rparr>]\<rparr>)"
  by code_simp

lemma demo_grant_expired: "grant demo_ctx demo_p3 ''workorder:read'' demo_facility
      (demo_store (demo_tuples @ [demo_expired])) =
    Inr ((demo_store (demo_tuples @ [demo_expired]))
      \<lparr>passed := [\<lparr>au_permission = ''workorder:read'', au_grant = Some ''facility:F1''\<rparr>]\<rparr>)"
  by code_simp

lemma demo_revoke: "revoke demo_ctx demo_p2 ''workorder:read'' demo_facility (demo_store demo_tuples) =
    Inr ((demo_store [(demo_row (''principal:'' @ demo_p2) ''granted:workorder:read'' ''facility:F1'')
            \<lparr>revoked_at := Some ''2026-01-01T00:00:00.000Z''\<rparr>])
      \<lparr>passed := [\<lparr>au_permission = ''workorder:read'', au_grant = Some ''facility:F1''\<rparr>]\<rparr>)"
  by code_simp

text \<open>
  C26. A grant delegates and never elevates: when \<open>ctx.grant\<close> returns, the caller's own check for
  that permission on that very entity allowed it over the tuples as they stood, unless the caller is a
  system actor, who has no permissions to compare with; and for every caller the key is neither withheld nor
  reserved nor one a declared shape protects there, and no other tuple and no event was written.
\<close>

theorem grant_delegates_never_elevates:
  assumes "grant cx who p e st = Inr st'"
  shows "(cx_override cx = None \<longrightarrow>
      (\<exists>pf. cx_checker cx (tuples st) (cx_subject cx) p (cx_node cx) (Some e) = Inr (Allowed pf))) \<and>
    p \<notin> set (cx_withheld cx) \<and> p \<notin> set (cx_reserved cx) \<and>
    assertDelegableTuple (tuples st) (''granted:'' @ p) (ref_of e) = Inr () \<and>
    filter (\<lambda>r. \<not> tuple_key (''principal:'' @ who) (''granted:'' @ p) (ref_of e) r) (tuples st') =
      filter (\<lambda>r. \<not> tuple_key (''principal:'' @ who) (''granted:'' @ p) (ref_of e) r) (tuples st) \<and>
    outbox st' = outbox st"
  using grant_Inr [OF assms]
proof cases
  case (1 d st1 rows)
  note dc = decideCheck_Inr [OF 1(1)]
  obtain pf where "d = Allowed pf" using 1(2) by (cases d) auto
  with dc(5) have "cx_override cx = None \<longrightarrow>
      (\<exists>pf. cx_checker cx (tuples st) (cx_subject cx) p (cx_node cx) (Some e) = Inr (Allowed pf))" by simp
  moreover have "p \<notin> set (cx_withheld cx)"
    using 1(1,2) by (auto simp: decideCheck_def assertPermissionKey_def split: if_splits)
  moreover have "tuples st' = explicitTuple (''principal:'' @ who) (''granted:'' @ p) (ref_of e) (tuples st)"
    and "outbox st' = outbox st"
    using 1 dc by simp_all
  ultimately show ?thesis using 1 dc(1) by (simp add: explicitTuple_others)
qed

theorem grant_delegates_never_elevates_witness:
  "\<exists>pf st'. grant demo_ctx demo_p3 ''workorder:read'' demo_facility (demo_store demo_tuples) = Inr st' \<and>
    cx_checker demo_ctx (tuples (demo_store demo_tuples)) (cx_subject demo_ctx) ''workorder:read''
      (cx_node demo_ctx) (Some demo_facility) = Inr (Allowed pf)"
proof -
  have "cx_override demo_ctx = None" by (simp add: demo_ctx_def)
  with grant_delegates_never_elevates [OF demo_grant_fresh] demo_grant_fresh show ?thesis by blast
qed

text \<open>
  A grant takes effect: unless the grantee's tuple for that key and entity is one that has
  expired, the grantee's own check on the entity is an allow as soon as the grant returns, in the
  same transaction.
\<close>

theorem grant_takes_effect:
  assumes "grant cx who p e st = Inr st'" and "scope_of n = Some sid" and "sid \<in> fst ` set (db_scopes deps)"
    and "store_ok (with_tuples deps sid (tuples st'))"
    and "\<forall>r \<in> set (tuples st). tuple_key (''principal:'' @ who) (''granted:'' @ p) (ref_of e) r \<and>
      revoked_at r = None \<longrightarrow> expires_after (expires_at r) (db_clock deps)"
  shows "\<exists>pf. check (createTupleChecker (with_tuples deps sid (tuples st'))) (Principal who) p n (Some e) =
    Inr (Allowed pf)"
  using grant_Inr [OF assms(1)]
proof cases
  case (1 d st1 rows)
  have rows: "tuples st' = explicitTuple (''principal:'' @ who) (''granted:'' @ p) (ref_of e) (tuples st)"
    using 1 decideCheck_Inr(1) [OF 1(1)] by simp
  from with_tuples_scope [OF assms(2,3), of "tuples st'"] obtain db
    where db: "rd_scopeFor (createTupleChecker (with_tuples deps sid (tuples st'))) n = Some (scopeReader db)"
      "db_tuples db = tuples st'" by blast
  obtain r where "row_where (tuple_key (''principal:'' @ who) (''granted:'' @ p) (ref_of e)) (db_tuples db) = Some r"
    and "live r (db_clock deps)"
    using explicitTuple_live [OF assms(5)] unfolding db(2) rows by blast
  moreover have "db_clock (with_tuples deps sid (tuples st')) = db_clock deps" by (simp add: with_tuples_def)
  ultimately show ?thesis using direct_grant_allows [OF assms(4) db(1)] by simp
qed

theorem grant_takes_effect_witness:
  "\<exists>pf. check (createTupleChecker (with_tuples demo_deps ''S1''
      (demo_tuples @ [demo_row (''principal:'' @ demo_p3) ''granted:workorder:read'' ''facility:F1''])))
    (Principal demo_p3) ''workorder:read'' demo_node (Some demo_facility) = Inr (Allowed pf)"
proof -
  have a: "scope_of demo_node = Some ''S1''" "''S1'' \<in> fst ` set (db_scopes demo_deps)"
    by (simp_all add: demo_node_def scope_of_def demo_deps_def)
  have b: "store_ok (with_tuples demo_deps ''S1''
      (demo_tuples @ [demo_row (''principal:'' @ demo_p3) ''granted:workorder:read'' ''facility:F1'']))"
    by code_simp
  have c: "\<forall>r \<in> set (tuples (demo_store demo_tuples)).
      tuple_key (''principal:'' @ demo_p3) (''granted:'' @ ''workorder:read'') (ref_of demo_facility) r \<and>
      revoked_at r = None \<longrightarrow> expires_after (expires_at r) (db_clock demo_deps)"
    by (simp add: demo_store_def demo_tuples_def demo_row_def expires_after_def)
  from grant_takes_effect [OF demo_grant_fresh a _ c] b show ?thesis by (simp add: demo_store_def)
qed

text \<open>
  A revoke tombstones and nothing else: afterwards no tuple for that key is live at any
  instant, every row is still there with its three key columns and its expiry, and other rows are
  untouched.
\<close>

theorem revoke_ends_grant:
  assumes "revoke cx who p e st = Inr st'"
  shows "(\<forall>r \<in> set (tuples st'). tuple_key (''principal:'' @ who) (''granted:'' @ p) (ref_of e) r \<longrightarrow>
      \<not> live r now) \<and>
    map (\<lambda>r. (subject r, relation r, object r, expires_at r)) (tuples st') =
      map (\<lambda>r. (subject r, relation r, object r, expires_at r)) (tuples st) \<and>
    filter (\<lambda>r. \<not> tuple_key (''principal:'' @ who) (''granted:'' @ p) (ref_of e) r) (tuples st') =
      filter (\<lambda>r. \<not> tuple_key (''principal:'' @ who) (''granted:'' @ p) (ref_of e) r) (tuples st)"
proof -
  from assms obtain d st1 where dc: "decideCheck cx p (Some e) st = Inr (d, st1)"
    and st': "st' = st1\<lparr>tuples := delegatedRevoke who p (ref_of e) (cx_at cx) (tuples st1)\<rparr>"
    by (auto simp: revoke_def bind_r_Inr_iff)
  then have rows: "tuples st' = delegatedRevoke who p (ref_of e) (cx_at cx) (tuples st)"
    using decideCheck_Inr(1) [OF dc] by simp
  show ?thesis unfolding rows delegatedRevoke_tombstone
    by (intro conjI ballI impI tombstone_dead tombstone_columns tombstone_others)
qed

theorem revoke_ends_grant_witness:
  "\<exists>st'. revoke demo_ctx demo_p2 ''workorder:read'' demo_facility (demo_store demo_tuples) = Inr st' \<and>
    \<not> live (hd (tuples st')) ''2026-01-01T00:00:00.000Z''"
proof -
  let ?r = "(demo_row (''principal:'' @ demo_p2) ''granted:workorder:read'' ''facility:F1'')
    \<lparr>revoked_at := Some ''2026-01-01T00:00:00.000Z''\<rparr>"
  have "tuple_key (''principal:'' @ demo_p2) (''granted:'' @ ''workorder:read'') (ref_of demo_facility) ?r"
    by code_simp
  then have "\<not> live ?r ''2026-01-01T00:00:00.000Z''"
    using revoke_ends_grant [OF demo_revoke] by (simp add: demo_store_def)
  then show ?thesis unfolding demo_revoke by (simp add: demo_store_def)
qed

text \<open>
  C27. A re-grant over an expired grant is silently lost: when the grantee's tuple for that key and
  entity has expired without being revoked, \<open>ctx.grant\<close> returns normally, changes no tuple, and the
  grantee still holds no live grant there.  (The upsert revives tombstones only.)
\<close>

theorem expired_grant_not_revived:
  assumes "grant cx who p e st = Inr st'"
    and "\<exists>r \<in> set (tuples st). tuple_key (''principal:'' @ who) (''granted:'' @ p) (ref_of e) r"
    and "\<forall>r \<in> set (tuples st). tuple_key (''principal:'' @ who) (''granted:'' @ p) (ref_of e) r \<longrightarrow>
      revoked_at r = None \<and> \<not> expires_after (expires_at r) (cx_at cx)"
  shows "tuples st' = tuples st \<and>
    (\<forall>r \<in> set (tuples st'). tuple_key (''principal:'' @ who) (''granted:'' @ p) (ref_of e) r \<longrightarrow>
      \<not> live r (cx_at cx))"
  using grant_Inr [OF assms(1)]
proof cases
  case (1 d st1 rows)
  have "tuples st' = explicitTuple (''principal:'' @ who) (''granted:'' @ p) (ref_of e) (tuples st)"
    using 1 decideCheck_Inr(1) [OF 1(1)] by simp
  also have "\<dots> = tuples st" using assms(2,3) by (intro explicitTuple_stale) blast+
  finally show ?thesis using assms(3) by (auto simp: live_def)
qed

theorem expired_grant_not_revived_witness:
  "\<exists>st'. grant demo_ctx demo_p3 ''workorder:read'' demo_facility (demo_store (demo_tuples @ [demo_expired])) = Inr st' \<and>
    tuples st' = demo_tuples @ [demo_expired]"
proof -
  let ?st = "demo_store (demo_tuples @ [demo_expired])"
  let ?k = "tuple_key (''principal:'' @ demo_p3) (''granted:'' @ ''workorder:read'') (ref_of demo_facility)"
  have "list_ex ?k (tuples ?st)" by code_simp
  then have a: "\<exists>r \<in> set (tuples ?st). ?k r" by (simp only: list_ex_iff)
  have "list_all (\<lambda>r. ?k r \<longrightarrow> revoked_at r = None \<and> \<not> expires_after (expires_at r) (cx_at demo_ctx)) (tuples ?st)"
    by code_simp
  then have b: "\<forall>r \<in> set (tuples ?st). ?k r \<longrightarrow> revoked_at r = None \<and> \<not> expires_after (expires_at r) (cx_at demo_ctx)"
    by (simp only: list_all_iff)
  from expired_grant_not_revived [OF demo_grant_expired a b] demo_grant_expired show ?thesis
    by (simp add: demo_store_def)
qed

end
