(* ===== verification/Entity_Edges.thy ===== *)
theory Entity_Edges
  imports Scope_Host
begin

text \<open>
  \<open>ctx.link\<close> and \<open>ctx.relink\<close>, \<open>packages/kernel/src/entity-edges.ts\<close>: the verbs that shape
  the parent graph the permission walk follows.  The recursive query of \<open>assertNoCycle\<close> is
  \<open>up_walk\<close>, a worklist that never revisits a ref, so it ends on any graph; its termination
  measure is the set of edge objects not yet seen.

  The theory shows the walk computes reachability, what each verb writes, and that the live
  parent graph stays acyclic through every sequence of host verbs, as time passes.
\<close>

section \<open>The walk up\<close>

text \<open>\<open>SELECT e.object ... WHERE e.subject = ? AND e.relation = 'parent' AND live\<close>.\<close>

definition live_parents :: "tuple_row list \<Rightarrow> string \<Rightarrow> string \<Rightarrow> string list" where
  "live_parents rows now a =
     map object (filter (\<lambda>r. subject r = a \<and> relation r = ''parent'' \<and> live r now) rows)"

definition fresh_parents :: "tuple_row list \<Rightarrow> string \<Rightarrow> string list \<Rightarrow> string \<Rightarrow> string list" where
  "fresh_parents rows now seen a =
     filter (\<lambda>b. b \<notin> set seen) (unique_in_order (live_parents rows now a))"

definition unseen :: "tuple_row list \<Rightarrow> string list \<Rightarrow> string set" where
  "unseen rows seen = set (map object rows) - set seen"

lemma fresh_parents_unseen: "set (fresh_parents rows now seen a) \<subseteq> unseen rows seen"
  by (auto simp: fresh_parents_def live_parents_def unseen_def)

lemma unseen_append: "unseen rows (seen @ new) = unseen rows seen - set new"
  by (auto simp: unseen_def)

function up_walk :: "tuple_row list \<Rightarrow> string \<Rightarrow> string list \<Rightarrow> string list \<Rightarrow> string list" where
  "up_walk rows now [] seen = seen"
| "up_walk rows now (a # q) seen =
     up_walk rows now (q @ fresh_parents rows now seen a) (seen @ fresh_parents rows now seen a)"
  by pat_completeness auto
termination
proof (relation "inv_image ({(x, y). x < y} <*lex*> {(x, y). x < y})
    (\<lambda>(rows, now, q, seen). (card (unseen rows seen), length q))")
  show "wf (inv_image ({(x, y). x < y} <*lex*> {(x, y). x < y})
      (\<lambda>(rows, now, q, seen). (card (unseen rows seen), length (q :: string list))))"
    by (intro wf_inv_image wf_lex_prod) (simp_all add: wf)
next
  fix rows now a q seen
  let ?new = "fresh_parents rows now seen a"
  have fin: "finite (unseen rows seen)" by (simp add: unseen_def)
  have "card (unseen rows (seen @ ?new)) < card (unseen rows seen) \<or> ?new = []"
  proof (cases "?new = []")
    case False
    then have "unseen rows (seen @ ?new) \<subset> unseen rows seen"
      using fresh_parents_unseen [of rows now seen a] by (auto simp: unseen_append neq_Nil_conv)
    with fin show ?thesis by (simp add: psubset_card_mono)
  qed simp
  then show "((rows, now, q @ ?new, seen @ ?new), rows, now, a # q, seen) \<in>
      inv_image ({(x, y). x < y} <*lex*> {(x, y). x < y})
        (\<lambda>(rows, now, q, seen). (card (unseen rows seen), length q))"
    by auto
qed

definition up :: "tuple_row list \<Rightarrow> string \<Rightarrow> string \<Rightarrow> string list" where
  "up rows now a = up_walk rows now [a] [a]"

section \<open>The verbs\<close>

definition assertDeclared :: "op_ctx \<Rightarrow> string \<Rightarrow> entity_ref \<Rightarrow> entity_ref \<Rightarrow> unit result" where
  "assertDeclared cx verb child parent =
     guard_r (case map_of (cx_relations cx) (entityType child) of
                None \<Rightarrow> False | Some ps \<Rightarrow> entityType parent \<in> set ps)
       (SubstratError Validation_Failed None
          (verb @ '': undeclared entity relation: '' @ entityType child @ '' -> '' @ entityType parent))"

definition assertParentReachable :: "op_ctx \<Rightarrow> string \<Rightarrow> entity_ref \<Rightarrow> unit result" where
  "assertParentReachable cx verb parent =
     guard_r (\<not> cx_unreachable cx parent)
       (SubstratError Not_Found None (verb @ '': '' @ ref_of parent @ '' not found''))"

definition assertNoCycle :: "tuple_row list \<Rightarrow> string \<Rightarrow> string \<Rightarrow> string \<Rightarrow> string \<Rightarrow> unit result" where
  "assertNoCycle rows now verb child ancestor =
     guard_r (child \<notin> set (up rows now ancestor))
       (SubstratError Validation_Failed None
          (verb @ '': '' @ ancestor @ '' is '' @ child @ '' or lies beneath it''))"

text \<open>The three statements of \<open>writeEdge\<close>; the flag says whether a row was revived.\<close>

definition writeEdge :: "string \<Rightarrow> string \<Rightarrow> string \<Rightarrow> tuple_row list \<Rightarrow> tuple_row list \<times> bool" where
  "writeEdge now child parent rows =
     (let dead = (\<lambda>r. tuple_key child ''parent'' parent r \<and> \<not> live r now) in
      if list_ex dead rows
      then (update_where dead (\<lambda>r. r\<lparr>revoked_at := None, expires_at := None\<rparr>) rows, True)
      else
        (let rows1 = update_where (\<lambda>r. tuple_key child ''parent'' parent r \<and> expires_at r \<noteq> None)
                       (\<lambda>r. r\<lparr>expires_at := None\<rparr>) rows in
         (if list_ex (tuple_key child ''parent'' parent) rows1 then rows1
          else rows1 @ [new_tuple child ''parent'' parent None], False)))"

definition json_ref :: "entity_ref \<Rightarrow> json" where
  "json_ref e = JObj [(''entityType'', JStr (entityType e)), (''entityId'', JStr (entityId e))]"

definition ENTITY_LINKED :: string where "ENTITY_LINKED = ''entity.linked''"

definition ENTITY_RELINKED :: string where "ENTITY_RELINKED = ''entity.relinked''"

definition edge_event :: "string \<Rightarrow> entity_ref \<Rightarrow> json \<Rightarrow> domain_event_input" where
  "edge_event ty child payload =
     \<lparr>ev_type = ty, ev_schemaVersion = 1, ev_entity = child, ev_piiClass = PiiNone,
      ev_subjectId = None, ev_payload = payload\<rparr>"

definition link ::
  "op_ctx \<Rightarrow> entity_ref \<Rightarrow> entity_ref \<Rightarrow> 'a scope_store_scheme \<Rightarrow> 'a scope_store_scheme result" where
  "link cx child parent st =
     bind_r (assertImpersonationWrites cx ''ctx.link'') (\<lambda>_.
     bind_r (entityObjectRef child ''ctx.link'') (\<lambda>c.
     bind_r (entityObjectRef parent ''ctx.link'') (\<lambda>p.
     bind_r (assertDeclared cx ''ctx.link'' child parent) (\<lambda>_.
     bind_r (assertParentReachable cx ''ctx.link'' parent) (\<lambda>_.
     bind_r (assertNoCycle (tuples st) (cx_at cx) ''ctx.link'' c p) (\<lambda>_.
       case writeEdge (cx_at cx) c p (tuples st) of (rows, revived) \<Rightarrow>
         if \<not> revived then Inr (st\<lparr>tuples := rows\<rparr>)
         else writeEvent cx KernelAuthor
                (edge_event ENTITY_LINKED child (JObj [(''child'', json_ref child), (''parent'', json_ref parent)]))
                (st\<lparr>tuples := rows\<rparr>)))))))"

definition relink ::
  "op_ctx \<Rightarrow> entity_ref \<Rightarrow> entity_ref \<Rightarrow> entity_ref \<Rightarrow> 'a scope_store_scheme \<Rightarrow> 'a scope_store_scheme result" where
  "relink cx child from to st =
     bind_r (assertImpersonationWrites cx ''ctx.relink'') (\<lambda>_.
     bind_r (entityObjectRef child ''ctx.relink'') (\<lambda>c.
     bind_r (entityObjectRef from ''ctx.relink'') (\<lambda>f.
     bind_r (entityObjectRef to ''ctx.relink'') (\<lambda>d.
     bind_r (assertDeclared cx ''ctx.relink'' child to) (\<lambda>_.
     bind_r (assertParentReachable cx ''ctx.relink'' to) (\<lambda>_.
     bind_r (guard_r (list_ex (\<lambda>r. tuple_key c ''parent'' f r \<and> live r (cx_at cx)) (tuples st))
        (SubstratError Conflict None
           (''ctx.relink: '' @ f @ '' is not a live parent of '' @ c @ '' -- there is no edge to move''))) (\<lambda>_.
       if f = d then Inr st
       else
         bind_r (assertNoCycle (tuples st) (cx_at cx) ''ctx.relink'' c d) (\<lambda>_.
           let rows1 = update_where (\<lambda>r. tuple_key c ''parent'' f r \<and> revoked_at r = None)
                         (\<lambda>r. r\<lparr>revoked_at := Some (cx_at cx)\<rparr>) (tuples st);
               rows2 = fst (writeEdge (cx_at cx) c d rows1) in
           writeEvent cx KernelAuthor
             (edge_event ENTITY_RELINKED child
                (JObj [(''child'', json_ref child), (''from'', json_ref from), (''to'', json_ref to)]))
             (st\<lparr>tuples := rows2\<rparr>)))))))))"

section \<open>The parent graph\<close>

definition parent_graph :: "tuple_row list \<Rightarrow> string \<Rightarrow> (string \<times> string) set" where
  "parent_graph rows now =
     {(subject r, object r) | r. r \<in> set rows \<and> relation r = ''parent'' \<and> live r now}"

lemma live_parents_graph: "set (live_parents rows now a) = parent_graph rows now `` {a}"
  by (auto simp: live_parents_def parent_graph_def)

lemma fresh_parents_set: "set (fresh_parents rows now seen a) = parent_graph rows now `` {a} - set seen"
  by (auto simp: fresh_parents_def live_parents_graph)

lemma up_walk_sound:
  assumes "set seen \<subseteq> (parent_graph rows now)\<^sup>* `` {a}" and "set q \<subseteq> set seen"
  shows "set (up_walk rows now q seen) \<subseteq> (parent_graph rows now)\<^sup>* `` {a}"
  using assms
proof (induction rows now q seen rule: up_walk.induct)
  case (1 rows now seen)
  then show ?case by simp
next
  case (2 rows now x q seen)
  have "set (fresh_parents rows now seen x) \<subseteq> (parent_graph rows now)\<^sup>* `` {a}"
    using 2(2,3) by (auto simp: fresh_parents_set intro: rtrancl_into_rtrancl)
  with 2 show ?case by (simp add: le_supI1)
qed

lemma up_walk_closed:
  assumes "\<And>x. x \<in> set seen \<Longrightarrow> x \<notin> set q \<Longrightarrow> parent_graph rows now `` {x} \<subseteq> set seen"
  shows "set seen \<subseteq> set (up_walk rows now q seen) \<and>
    (\<forall>x \<in> set (up_walk rows now q seen). parent_graph rows now `` {x} \<subseteq> set (up_walk rows now q seen))"
  using assms
proof (induction rows now q seen rule: up_walk.induct)
  case (1 rows now seen)
  then show ?case by auto
next
  case (2 rows now y q seen)
  let ?new = "fresh_parents rows now seen y"
  have "set (seen @ ?new) \<subseteq> set (up_walk rows now (q @ ?new) (seen @ ?new)) \<and>
    (\<forall>x \<in> set (up_walk rows now (q @ ?new) (seen @ ?new)).
       parent_graph rows now `` {x} \<subseteq> set (up_walk rows now (q @ ?new) (seen @ ?new)))"
  proof (rule "2.IH")
    fix x assume x: "x \<in> set (seen @ ?new)" "x \<notin> set (q @ ?new)"
    show "parent_graph rows now `` {x} \<subseteq> set (seen @ ?new)"
    proof (cases "x = y")
      case True
      then show ?thesis by (auto simp: fresh_parents_set)
    next
      case False
      with x "2.prems" [of x] show ?thesis by auto
    qed
  qed
  then show ?case by simp
qed

text \<open>The recursive query computes exactly the ancestors, itself included.\<close>

lemma up_reaches: "set (up rows now a) = (parent_graph rows now)\<^sup>* `` {a}"
proof
  show "set (up rows now a) \<subseteq> (parent_graph rows now)\<^sup>* `` {a}"
    unfolding up_def by (rule up_walk_sound) auto
  have cl: "a \<in> set (up rows now a)"
    "\<And>x y. x \<in> set (up rows now a) \<Longrightarrow> (x, y) \<in> parent_graph rows now \<Longrightarrow> y \<in> set (up rows now a)"
    using up_walk_closed [of "[a]" "[a]" rows now] unfolding up_def by auto
  have "b \<in> set (up rows now a)" if "(a, b) \<in> (parent_graph rows now)\<^sup>*" for b
    using that by (induction rule: rtrancl_induct) (use cl in blast)+
  then show "(parent_graph rows now)\<^sup>* `` {a} \<subseteq> set (up rows now a)" by blast
qed

section \<open>What the verbs do to the graph\<close>

lemma graphI: "r \<in> set rows \<Longrightarrow> relation r = ''parent'' \<Longrightarrow> live r now \<Longrightarrow>
    (subject r, object r) \<in> parent_graph rows now"
  by (auto simp: parent_graph_def)

lemma graphE:
  assumes "e \<in> parent_graph rows now"
  obtains r where "r \<in> set rows" "relation r = ''parent''" "live r now" "e = (subject r, object r)"
  using assms by (auto simp: parent_graph_def)

lemma live_later: "live r now' \<Longrightarrow> now \<le> now' \<Longrightarrow> live r now"
  by (auto simp: live_def expires_after_def split: option.splits)

lemma graph_later: "now \<le> now' \<Longrightarrow> parent_graph rows now' \<subseteq> parent_graph rows now"
  by (auto simp: parent_graph_def dest: live_later)

lemma dead_iff: "list_ex (\<lambda>r. tuple_key c ''parent'' p r \<and> \<not> live r now) rows \<longleftrightarrow>
    (\<exists>r \<in> set rows. tuple_key c ''parent'' p r \<and> \<not> live r now)"
  by (simp add: list_ex_iff)

lemma cleared_live: "live (r\<lparr>revoked_at := None, expires_at := None\<rparr>) now"
  by (simp add: live_def expires_after_def)

lemma unexpiring_live: "live r now \<Longrightarrow> live (r\<lparr>expires_at := None\<rparr>) now"
  by (simp add: live_def expires_after_def)

text \<open>An update that keeps the three key columns, and on rows of the edge only ever revives.\<close>

lemma graph_update_edge:
  assumes "\<And>r. p r \<Longrightarrow> tuple_key c ''parent'' d r"
    and "\<And>r. subject (f r) = subject r \<and> relation (f r) = relation r \<and> object (f r) = object r"
    and "\<And>r. live r now \<Longrightarrow> live (f r) now"
  shows "parent_graph rows now \<subseteq> parent_graph (update_where p f rows) now"
    and "parent_graph (update_where p f rows) now \<subseteq> insert (c, d) (parent_graph rows now)"
proof -
  show "parent_graph rows now \<subseteq> parent_graph (update_where p f rows) now"
  proof
    fix e assume "e \<in> parent_graph rows now"
    then obtain r where r: "r \<in> set rows" "relation r = ''parent''" "live r now" "e = (subject r, object r)"
      by (rule graphE)
    let ?r = "if p r then f r else r"
    have "?r \<in> set (update_where p f rows)" using r(1) by (auto simp: set_update_where)
    moreover have "relation ?r = ''parent''" "live ?r now" "e = (subject ?r, object ?r)"
      using r assms(2,3) by simp_all
    ultimately show "e \<in> parent_graph (update_where p f rows) now" using graphI by blast
  qed
  show "parent_graph (update_where p f rows) now \<subseteq> insert (c, d) (parent_graph rows now)"
  proof
    fix e assume "e \<in> parent_graph (update_where p f rows) now"
    then obtain r where r: "r \<in> set (update_where p f rows)" "relation r = ''parent''" "live r now"
      "e = (subject r, object r)" by (rule graphE)
    from r(1) show "e \<in> insert (c, d) (parent_graph rows now)"
    proof (rule in_update_whereE)
      fix r0 assume "p r0" "r = f r0"
      with assms(1,2) [of r0] r(4) show ?thesis by (simp add: tuple_key_def)
    next
      assume "r \<in> set rows"
      with r show ?thesis using graphI by blast
    qed
  qed
qed

lemma graph_append: "parent_graph (xs @ ys) now = parent_graph xs now \<union> parent_graph ys now"
  by (auto simp: parent_graph_def)

lemma graph_new: "parent_graph [new_tuple c ''parent'' d None] now = {(c, d)}"
  by (simp add: parent_graph_def new_tuple_def live_def expires_after_def)

lemma writeEdge_graph:
  "parent_graph (fst (writeEdge now c d rows)) now = insert (c, d) (parent_graph rows now)"
proof (cases "list_ex (\<lambda>r. tuple_key c ''parent'' d r \<and> \<not> live r now) rows")
  case True
  let ?dead = "\<lambda>r. tuple_key c ''parent'' d r \<and> \<not> live r now"
  let ?f = "\<lambda>r. r\<lparr>revoked_at := None, expires_at := None\<rparr> :: tuple_row"
  have eq: "fst (writeEdge now c d rows) = update_where ?dead ?f rows"
    using True by (simp add: writeEdge_def)
  note g = graph_update_edge [of ?dead c d ?f now rows]
  from True obtain r where r: "r \<in> set rows" "tuple_key c ''parent'' d r" "\<not> live r now"
    by (auto simp: list_ex_iff)
  then have "?f r \<in> set (update_where ?dead ?f rows)" by (force simp: set_update_where)
  then have "(subject (?f r), object (?f r)) \<in> parent_graph (update_where ?dead ?f rows) now"
    using r(2) by (intro graphI) (simp_all add: tuple_key_def cleared_live)
  then have "(c, d) \<in> parent_graph (update_where ?dead ?f rows) now"
    using r(2) by (simp add: tuple_key_def)
  then show ?thesis unfolding eq using g by (auto simp: cleared_live)
next
  case False
  let ?exp = "\<lambda>r. tuple_key c ''parent'' d r \<and> expires_at r \<noteq> None"
  let ?f = "\<lambda>r. r\<lparr>expires_at := None\<rparr> :: tuple_row"
  define rows1 where "rows1 = update_where ?exp ?f rows"
  have eq: "fst (writeEdge now c d rows) =
      (if list_ex (tuple_key c ''parent'' d) rows1 then rows1 else rows1 @ [new_tuple c ''parent'' d None])"
    using False by (simp add: writeEdge_def rows1_def)
  note g = graph_update_edge [of ?exp c d ?f now rows, folded rows1_def]
  have alive: "live r now" if "r \<in> set rows1" "tuple_key c ''parent'' d r" for r
    using that(1) unfolding rows1_def
  proof (rule in_update_whereE)
    fix r0 assume "r0 \<in> set rows" "?exp r0" "r = ?f r0"
    moreover from this False have "live r0 now" by (auto simp: list_ex_iff)
    ultimately show ?thesis using unexpiring_live by simp
  next
    assume "r \<in> set rows"
    with False that(2) show ?thesis by (auto simp: list_ex_iff)
  qed
  have mem: "(c, d) \<in> parent_graph rows1 now" if "list_ex (tuple_key c ''parent'' d) rows1"
    using that alive by (auto simp: list_ex_iff tuple_key_def parent_graph_def)
  have new: "parent_graph (rows1 @ [new_tuple c ''parent'' d None]) now = insert (c, d) (parent_graph rows1 now)"
    by (simp add: graph_append graph_new)
  show ?thesis unfolding eq using mem new g by (auto simp: unexpiring_live)
qed

lemma tombstone_graph:
  "parent_graph (tombstone c ''parent'' f at rows) now = parent_graph rows now - {(c, f)}"
proof -
  have "e \<in> parent_graph rows now - {(c, f)}" if e: "e \<in> parent_graph (tombstone c ''parent'' f at rows) now" for e
  proof -
    from e obtain r where r: "r \<in> set (tombstone c ''parent'' f at rows)" "relation r = ''parent''" "live r now"
      "e = (subject r, object r)" by (rule graphE)
    with tombstone_dead have "\<not> tuple_key c ''parent'' f r" by blast
    moreover from r(1) have "r \<in> set rows"
      unfolding tombstone_def by (rule in_update_whereE) (use r(3) in \<open>auto simp: live_def\<close>)
    ultimately show ?thesis using r by (auto simp: tuple_key_def intro: graphI)
  qed
  moreover have "e \<in> parent_graph (tombstone c ''parent'' f at rows) now"
    if e: "e \<in> parent_graph rows now" "e \<noteq> (c, f)" for e
  proof -
    from e obtain r where r: "r \<in> set rows" "relation r = ''parent''" "live r now" "e = (subject r, object r)"
      by (auto elim: graphE)
    with e(2) have "\<not> tuple_key c ''parent'' f r" by (auto simp: tuple_key_def)
    with r(1) have "r \<in> set (tombstone c ''parent'' f at rows)"
      unfolding tombstone_def by (auto simp: set_update_where)
    with r show ?thesis using graphI by blast
  qed
  ultimately show ?thesis by blast
qed

lemma entityObjectRef_Inr: "entityObjectRef e verb = Inr c \<Longrightarrow> c = ref_of e"
  by (auto simp: entityObjectRef_def split: if_splits)

lemma assertNoCycle_Inr:
  "assertNoCycle rows now verb c a = Inr u \<longleftrightarrow> (a, c) \<notin> (parent_graph rows now)\<^sup>*"
  by (simp add: assertNoCycle_def guard_r_Inr_iff up_reaches)

text \<open>What a successful \<open>link\<close> did: an acyclic insertion, and an event exactly when it revived.\<close>

lemma link_Inr:
  assumes "link cx child parent st = Inr st'"
  shows "(ref_of parent, ref_of child) \<notin> (parent_graph (tuples st) (cx_at cx))\<^sup>*"
    and "tuples st' = fst (writeEdge (cx_at cx) (ref_of child) (ref_of parent) (tuples st))"
    and "snd (writeEdge (cx_at cx) (ref_of child) (ref_of parent) (tuples st)) \<Longrightarrow>
      \<exists>row. outbox st' = outbox st @ [row] \<and> ob_type row = ENTITY_LINKED \<and> ob_entity row = child"
    and "\<not> snd (writeEdge (cx_at cx) (ref_of child) (ref_of parent) (tuples st)) \<Longrightarrow> outbox st' = outbox st"
    and "scope_store.more st' = scope_store.more st"
proof -
  obtain rows revived where w: "writeEdge (cx_at cx) (ref_of child) (ref_of parent) (tuples st) = (rows, revived)"
    by force
  from assms obtain u where nc: "assertNoCycle (tuples st) (cx_at cx) ''ctx.link'' (ref_of child) (ref_of parent) = Inr u"
    and rest: "(if \<not> revived then Inr (st\<lparr>tuples := rows\<rparr>) else writeEvent cx KernelAuthor
       (edge_event ENTITY_LINKED child (JObj [(''child'', json_ref child), (''parent'', json_ref parent)]))
       (st\<lparr>tuples := rows\<rparr>)) = Inr st'"
    by (auto simp: link_def bind_r_Inr_iff w dest!: entityObjectRef_Inr)
  from nc show "(ref_of parent, ref_of child) \<notin> (parent_graph (tuples st) (cx_at cx))\<^sup>*"
    by (simp add: assertNoCycle_Inr)
  show "tuples st' = fst (writeEdge (cx_at cx) (ref_of child) (ref_of parent) (tuples st))"
    and "snd (writeEdge (cx_at cx) (ref_of child) (ref_of parent) (tuples st)) \<Longrightarrow>
      \<exists>row. outbox st' = outbox st @ [row] \<and> ob_type row = ENTITY_LINKED \<and> ob_entity row = child"
    and "\<not> snd (writeEdge (cx_at cx) (ref_of child) (ref_of parent) (tuples st)) \<Longrightarrow> outbox st' = outbox st"
    and "scope_store.more st' = scope_store.more st"
    using rest unfolding w by (auto split: if_splits dest!: writeEvent_Inr(4) simp: edge_event_def)
qed

lemma relink_Inr:
  assumes "relink cx child from to st = Inr st'"
  shows "(ref_of child, ref_of from) \<in> parent_graph (tuples st) (cx_at cx)"
    and "ref_of from = ref_of to \<Longrightarrow> st' = st"
    and "ref_of from \<noteq> ref_of to \<Longrightarrow> (ref_of to, ref_of child) \<notin> (parent_graph (tuples st) (cx_at cx))\<^sup>*"
    and "ref_of from \<noteq> ref_of to \<Longrightarrow> tuples st' = fst (writeEdge (cx_at cx) (ref_of child) (ref_of to)
      (tombstone (ref_of child) ''parent'' (ref_of from) (cx_at cx) (tuples st)))"
    and "ref_of from \<noteq> ref_of to \<Longrightarrow>
      \<exists>row. outbox st' = outbox st @ [row] \<and> ob_type row = ENTITY_RELINKED \<and> ob_entity row = child"
    and "scope_store.more st' = scope_store.more st"
proof -
  let ?rows = "fst (writeEdge (cx_at cx) (ref_of child) (ref_of to)
      (tombstone (ref_of child) ''parent'' (ref_of from) (cx_at cx) (tuples st)))"
  from assms have lv: "list_ex (\<lambda>r. tuple_key (ref_of child) ''parent'' (ref_of from) r \<and> live r (cx_at cx)) (tuples st)"
    and rest: "(if ref_of from = ref_of to then Inr st else
      bind_r (assertNoCycle (tuples st) (cx_at cx) ''ctx.relink'' (ref_of child) (ref_of to)) (\<lambda>_.
        writeEvent cx KernelAuthor (edge_event ENTITY_RELINKED child
          (JObj [(''child'', json_ref child), (''from'', json_ref from), (''to'', json_ref to)]))
          (st\<lparr>tuples := ?rows\<rparr>))) = Inr st'"
    by (auto simp: relink_def tombstone_def bind_r_Inr_iff guard_r_Inr_iff Let_def dest!: entityObjectRef_Inr)
  from lv show "(ref_of child, ref_of from) \<in> parent_graph (tuples st) (cx_at cx)"
    by (auto simp: list_ex_iff tuple_key_def) (metis graphI)
  from rest show "ref_of from = ref_of to \<Longrightarrow> st' = st" by simp
  show "ref_of from \<noteq> ref_of to \<Longrightarrow> (ref_of to, ref_of child) \<notin> (parent_graph (tuples st) (cx_at cx))\<^sup>*"
    and "ref_of from \<noteq> ref_of to \<Longrightarrow> tuples st' = ?rows"
    and "ref_of from \<noteq> ref_of to \<Longrightarrow>
      \<exists>row. outbox st' = outbox st @ [row] \<and> ob_type row = ENTITY_RELINKED \<and> ob_entity row = child"
    and "scope_store.more st' = scope_store.more st"
    using rest by (auto simp: bind_r_Inr_iff assertNoCycle_Inr edge_event_def split: if_splits
        dest!: writeEvent_Inr(4))
qed

lemma link_graph:
  assumes "link cx child parent st = Inr st'"
  shows "parent_graph (tuples st') (cx_at cx) =
    insert (ref_of child, ref_of parent) (parent_graph (tuples st) (cx_at cx))"
  unfolding link_Inr(2) [OF assms] by (rule writeEdge_graph)

lemma relink_graph:
  assumes "relink cx child from to st = Inr st'" and "ref_of from \<noteq> ref_of to"
  shows "parent_graph (tuples st') (cx_at cx) =
    insert (ref_of child, ref_of to) (parent_graph (tuples st) (cx_at cx) - {(ref_of child, ref_of from)})"
  unfolding relink_Inr(4) [OF assms] writeEdge_graph tombstone_graph ..

lemma link_acyclic:
  assumes "link cx child parent st = Inr st'" and "acyclic (parent_graph (tuples st) (cx_at cx))"
  shows "acyclic (parent_graph (tuples st') (cx_at cx))"
  unfolding link_graph [OF assms(1)] using assms(2) link_Inr(1) [OF assms(1)] by simp

lemma relink_acyclic:
  assumes "relink cx child from to st = Inr st'" and "acyclic (parent_graph (tuples st) (cx_at cx))"
  shows "acyclic (parent_graph (tuples st') (cx_at cx))"
proof (cases "ref_of from = ref_of to")
  case True
  with assms show ?thesis using relink_Inr(2) by metis
next
  case False
  let ?G = "parent_graph (tuples st) (cx_at cx)"
  have "(?G - {(ref_of child, ref_of from)})\<^sup>* \<subseteq> ?G\<^sup>*" by (rule rtrancl_mono) blast
  then have "(ref_of to, ref_of child) \<notin> (?G - {(ref_of child, ref_of from)})\<^sup>*"
    using relink_Inr(3) [OF assms(1) False] by blast
  moreover have "acyclic (?G - {(ref_of child, ref_of from)})"
    using assms(2) by (rule acyclic_subset) blast
  ultimately show ?thesis unfolding relink_graph [OF assms(1) False] by simp
qed

section \<open>Runs of the host verbs\<close>

text \<open>
  A scope's life as its tuples see it: one verb of one operation after another, each at an
  instant no earlier than the last.
\<close>

inductive host_step :: "string \<times> 'a scope_store_scheme \<Rightarrow> string \<times> 'a scope_store_scheme \<Rightarrow> bool" where
  step_link: "now \<le> cx_at cx \<Longrightarrow> link cx child parent st = Inr st' \<Longrightarrow> host_step (now, st) (cx_at cx, st')"
| step_relink: "now \<le> cx_at cx \<Longrightarrow> relink cx child from to st = Inr st' \<Longrightarrow> host_step (now, st) (cx_at cx, st')"
| step_grant: "now \<le> cx_at cx \<Longrightarrow> grant cx who p e st = Inr st' \<Longrightarrow> host_step (now, st) (cx_at cx, st')"
| step_revoke: "now \<le> cx_at cx \<Longrightarrow> revoke cx who p e st = Inr st' \<Longrightarrow> host_step (now, st) (cx_at cx, st')"
| step_emit: "now \<le> cx_at cx \<Longrightarrow> emit cx ev st = Inr st' \<Longrightarrow> host_step (now, st) (cx_at cx, st')"
| step_check: "now \<le> cx_at cx \<Longrightarrow> require cx p e st = Inr st' \<Longrightarrow> host_step (now, st) (cx_at cx, st')"

definition forest :: "string \<times> 'a scope_store_scheme \<Rightarrow> bool" where
  "forest s \<longleftrightarrow> acyclic (parent_graph (tuples (snd s)) (fst s))"

lemma graph_other_relation:
  assumes "rel \<noteq> ''parent''"
    and "filter (\<lambda>r. \<not> tuple_key s rel ob r) rows' = filter (\<lambda>r. \<not> tuple_key s rel ob r) rows"
  shows "parent_graph rows' now = parent_graph rows now"
proof -
  have "parent_graph xs now = parent_graph (filter (\<lambda>r. \<not> tuple_key s rel ob r) xs) now" for xs
    using assms(1) by (auto simp: parent_graph_def tuple_key_def)
  with assms(2) show ?thesis by metis
qed

lemma grant_graph: "grant cx who p e st = Inr st' \<Longrightarrow> parent_graph (tuples st') now = parent_graph (tuples st) now"
proof (erule grant_Inr)
  fix d st1 rows
  assume "decideCheck cx p (Some e) st = Inr (d, st1)"
    and rows: "rows = explicitTuple (''principal:'' @ who) (''granted:'' @ p) (ref_of e) (tuples st1)"
      "st' = st1\<lparr>tuples := rows\<rparr>"
  then have "tuples st1 = tuples st" by (simp add: decideCheck_Inr(1))
  with rows show ?thesis
    using graph_other_relation [OF _ explicitTuple_others, of "''granted:'' @ p" "''principal:'' @ who" "ref_of e"]
    by simp
qed

lemma revoke_graph:
  assumes "revoke cx who p e st = Inr st'"
  shows "parent_graph (tuples st') now = parent_graph (tuples st) now"
proof -
  from assms obtain d st1 where dc: "decideCheck cx p (Some e) st = Inr (d, st1)"
    and st': "st' = st1\<lparr>tuples := delegatedRevoke who p (ref_of e) (cx_at cx) (tuples st1)\<rparr>"
    by (auto simp: revoke_def bind_r_Inr_iff)
  then show ?thesis
    using graph_other_relation [OF _ tombstone_others, of "''granted:'' @ p" "''principal:'' @ who" "ref_of e"]
    by (simp add: delegatedRevoke_tombstone decideCheck_Inr(1) [OF dc])
qed

lemma forest_later: "forest (now, st) \<Longrightarrow> now \<le> now' \<Longrightarrow> forest (now', st)"
  unfolding forest_def using graph_later [of now now' "tuples st"] by (auto intro: acyclic_subset)

lemma host_step_forest: "host_step s s' \<Longrightarrow> forest s \<Longrightarrow> forest s'"
proof (induction rule: host_step.induct)
  case (step_link now cx child parent st st')
  then have "forest (cx_at cx, st)" using forest_later by blast
  with step_link link_acyclic show ?case by (auto simp: forest_def)
next
  case (step_relink now cx child src dst st st')
  then have "forest (cx_at cx, st)" using forest_later by blast
  with step_relink relink_acyclic show ?case by (auto simp: forest_def)
next
  case (step_grant now cx who p e st st')
  then have "forest (cx_at cx, st)" using forest_later by blast
  with step_grant show ?case by (simp add: forest_def grant_graph)
next
  case (step_revoke now cx who p e st st')
  then have "forest (cx_at cx, st)" using forest_later by blast
  with step_revoke show ?case by (simp add: forest_def revoke_graph)
next
  case (step_emit now cx ev st st')
  then have "forest (cx_at cx, st)" using forest_later by blast
  with step_emit show ?case by (simp add: forest_def emit_Inr(1))
next
  case (step_check now cx p e st st')
  then have "forest (cx_at cx, st)" using forest_later by blast
  with step_check show ?case by (simp add: forest_def require_Inr(1))
qed

section \<open>Properties\<close>

definition demo_folder :: "string \<Rightarrow> entity_ref" where
  "demo_folder i = \<lparr>entityType = ''folder'', entityId = i\<rparr>"

definition demo_edges_ctx :: op_ctx where
  "demo_edges_ctx = demo_ctx\<lparr>cx_relations := [(''folder'', [''folder''])]\<rparr>"

definition demo_edges :: scope_store where
  "demo_edges = demo_store [demo_row ''folder:a'' ''parent'' ''folder:b'']"

text \<open>
  C30. Whatever sequence of links, moves, grants, revocations, events and checks runs on a scope,
  at instants that never go back, its live parent graph stays acyclic from an acyclic start, and
  stays so as edges expire.
\<close>

theorem parent_graph_stays_acyclic:
  assumes "host_step\<^sup>*\<^sup>* (t0, st0) (t1, st1)" and "acyclic (parent_graph (tuples st0) t0)" and "t1 \<le> now"
  shows "acyclic (parent_graph (tuples st1) now)"
proof -
  have "forest s'" if "host_step\<^sup>*\<^sup>* s s'" and "forest s" for s s' :: "string \<times> 'a scope_store_scheme"
    using that by (induction rule: rtranclp_induct) (blast intro: host_step_forest)+
  with assms(1,2) have "forest (t1, st1)" by (fastforce simp: forest_def)
  with assms(3) have "forest (now, st1)" by (rule forest_later [rotated])
  then show ?thesis by (simp add: forest_def)
qed

lemma demo_link: "link demo_edges_ctx (demo_folder ''b'') (demo_folder ''c'') demo_edges =
    Inr (demo_store [demo_row ''folder:a'' ''parent'' ''folder:b'', demo_row ''folder:b'' ''parent'' ''folder:c''])"
  by code_simp

lemma demo_relink: "\<exists>st'. relink demo_edges_ctx (demo_folder ''a'') (demo_folder ''b'') (demo_folder ''c'') demo_edges = Inr st'"
proof -
  have "is_ok (relink demo_edges_ctx (demo_folder ''a'') (demo_folder ''b'') (demo_folder ''c'') demo_edges)"
    by code_simp
  then show ?thesis by (simp add: is_ok_iff)
qed

theorem parent_graph_stays_acyclic_witness:
  "acyclic (parent_graph [demo_row ''folder:a'' ''parent'' ''folder:b'', demo_row ''folder:b'' ''parent'' ''folder:c'']
     ''2027-01-01T00:00:00.000Z'')"
proof -
  let ?t = "''2026-01-01T00:00:00.000Z''"
  have at: "cx_at demo_edges_ctx = ?t" by code_simp
  have "host_step (?t, demo_edges) (?t, demo_store
      [demo_row ''folder:a'' ''parent'' ''folder:b'', demo_row ''folder:b'' ''parent'' ''folder:c''])"
    using host_step.step_link [OF _ demo_link, of ?t] by (simp add: at)
  then have run: "host_step\<^sup>*\<^sup>* (?t, demo_edges) (?t, demo_store
      [demo_row ''folder:a'' ''parent'' ''folder:b'', demo_row ''folder:b'' ''parent'' ''folder:c''])" by blast
  have "parent_graph (tuples demo_edges) ?t = {(''folder:a'', ''folder:b'')}"
    by (simp add: parent_graph_def demo_edges_def demo_store_def demo_row_def live_def expires_after_def)
  moreover have "acyclic ({} :: (string \<times> string) set)" by (simp add: acyclic_def)
  then have "acyclic {(''folder:a'', ''folder:b'')}" by simp
  ultimately have start: "acyclic (parent_graph (tuples demo_edges) ?t)" by simp
  have le: "?t \<le> ''2027-01-01T00:00:00.000Z''" by code_simp
  from parent_graph_stays_acyclic [OF run start le] show ?thesis by (simp add: demo_store_def)
qed

text \<open>
  A move is exactly one edge: when \<open>ctx.relink\<close> returns, the old parent edge was live, the
  graph is the old one without it and with the new edge, and one \<open>entity.relinked\<close> event about the
  child was written, or, when old and new parent are the same, nothing was written at all.
\<close>

theorem relink_moves_one_edge:
  assumes "relink cx child from to st = Inr st'"
  shows "(ref_of child, ref_of from) \<in> parent_graph (tuples st) (cx_at cx) \<and>
    (if ref_of from = ref_of to then st' = st
     else parent_graph (tuples st') (cx_at cx) =
            insert (ref_of child, ref_of to) (parent_graph (tuples st) (cx_at cx) - {(ref_of child, ref_of from)}) \<and>
          (\<exists>row. outbox st' = outbox st @ [row] \<and> ob_type row = ENTITY_RELINKED \<and> ob_entity row = child))"
  using relink_Inr [OF assms] relink_graph [OF assms] by simp

theorem relink_moves_one_edge_witness:
  "\<exists>st'. relink demo_edges_ctx (demo_folder ''a'') (demo_folder ''b'') (demo_folder ''c'') demo_edges = Inr st' \<and>
    parent_graph (tuples st') (cx_at demo_edges_ctx) =
      insert (''folder:a'', ''folder:c'') (parent_graph (tuples demo_edges) (cx_at demo_edges_ctx) - {(''folder:a'', ''folder:b'')})"
proof -
  obtain st' where r: "relink demo_edges_ctx (demo_folder ''a'') (demo_folder ''b'') (demo_folder ''c'') demo_edges = Inr st'"
    using demo_relink by blast
  have refs: "ref_of (demo_folder ''a'') = ''folder:a''" "ref_of (demo_folder ''b'') = ''folder:b''"
    "ref_of (demo_folder ''c'') = ''folder:c''" by code_simp+
  from relink_moves_one_edge [OF r] r show ?thesis unfolding refs by auto
qed

end
