(* ===== verification/Lifecycle.thy ===== *)
theory Lifecycle
  imports Permission_Model "HOL-Library.Multiset"
begin

text \<open>
  Declared state machines, \<open>packages/contracts/src/lifecycle.ts\<close>: the declaration
  (\<open>lifecycle_def\<close>), its load-time check \<open>assertCoherent\<close>, the evaluator \<open>transitionFor\<close>,
  the guard every engine calls (\<open>assertTransition\<close>) and the emitted form
  (\<open>emitLifecycles\<close>).

  A JavaScript object is an association list in \<open>Object.keys\<close> order; lookups are of own
  properties, which is what the source gets for state names and operation ids (an operation id
  carries a slash and so is never a member of \<open>Object.prototype\<close>).  An em dash in a message is
  written \<open>--\<close>.

  The locale \<open>lifecycle_machine\<close> is what a coherent declaration promises, and
  \<open>governed_store\<close> is what a store promises whose operations move a status column along it.
\<close>

section \<open>Declarations\<close>

record state_def =
  on :: "(string \<times> string) list"
  allow :: "string list"
  extensible :: bool
  terminal :: bool

record lifecycle_def =
  field :: string
  initial :: string
  states :: "(string \<times> state_def) list"

definition state_names :: "lifecycle_def \<Rightarrow> string list" where
  "state_names lc = map fst (states lc)"

text \<open>A loop whose body may throw.\<close>

fun each :: "('a \<Rightarrow> unit result) \<Rightarrow> 'a list \<Rightarrow> unit result" where
  "each f [] = Inr ()"
| "each f (x # xs) = bind_r (f x) (\<lambda>_. each f xs)"

definition quote :: "string \<Rightarrow> string" where
  "quote s = CHR 0x27 # s @ [CHR 0x27]"

definition coherent_values :: "string \<Rightarrow> lifecycle_def \<Rightarrow> string list \<Rightarrow> unit result" where
  "coherent_values entity lc allowedv =
     bind_r (each (\<lambda>name. guard_r (name \<in> set allowedv)
        (PlainError (''lifecycle: '' @ entity @ ''.states declares '' @ quote name @ '', which '' @
           quote (field lc) @ '' cannot hold -- it is '' @ join '' | '' (map quote allowedv))))
        (state_names lc)) (\<lambda>_.
     each (\<lambda>value. guard_r (value \<in> set (state_names lc))
        (PlainError (''lifecycle: '' @ quote (field lc) @ '' can hold '' @ quote value @ '' but '' @ entity @
           ''.states does not declare it -- a state the column can reach and the machine has never heard of is where an entity goes to get stuck'')))
        allowedv)"

definition coherent_state :: "string \<Rightarrow> string list \<Rightarrow> string \<times> state_def \<Rightarrow> unit result" where
  "coherent_state entity names ns =
     (case ns of (name, state) \<Rightarrow>
      bind_r (guard_r (\<not> (terminal state \<and> length (on state) > 0))
        (PlainError (''lifecycle: '' @ entity @ ''.'' @ name @ '' is terminal but declares '' @
           show_nat (length (on state)) @ '' transition(s) -- a terminal state has no edges out. Drop `terminal` or drop the edges''))) (\<lambda>_.
      bind_r (each (\<lambda>(op, target). guard_r (target \<in> set names)
        (PlainError (''lifecycle: '' @ entity @ ''.'' @ name @ ''.on['' @ quote op @ ''] targets '' @ quote target @
           '', which is not a declared state''))) (on state)) (\<lambda>_.
      each (\<lambda>op. guard_r (op \<notin> set (map fst (on state)))
        (PlainError (''lifecycle: '' @ entity @ ''.'' @ name @ '' declares '' @ quote op @
           '' in both `on` and `allow` -- it either moves the entity or it does not''))) (allow state))))"

definition assertCoherent :: "string \<Rightarrow> lifecycle_def \<Rightarrow> string list option \<Rightarrow> unit result" where
  "assertCoherent entity lc allowedv =
     bind_r (case allowedv of None \<Rightarrow> Inr () | Some vs \<Rightarrow> coherent_values entity lc vs) (\<lambda>_.
     bind_r (guard_r (initial lc \<in> set (state_names lc))
       (PlainError (''lifecycle: '' @ entity @ ''.initial is '' @ quote (initial lc) @
          '', which is not a declared state''))) (\<lambda>_.
     each (coherent_state entity (state_names lc)) (states lc)))"

text \<open>
  \<open>defineLifecycles\<close>: every entry is checked at module load, against the values its entity's
  field schema enumerates (\<open>None\<close> where the schema enumerates none).
\<close>

definition defineLifecycles ::
  "(string \<Rightarrow> string \<Rightarrow> string list option) \<Rightarrow> (string \<times> lifecycle_def) list \<Rightarrow>
   (string \<times> lifecycle_def) list result" where
  "defineLifecycles declaredValues lcs =
     bind_r (each (\<lambda>(entity, lc). assertCoherent entity lc (declaredValues entity (field lc))) lcs)
       (\<lambda>_. Inr lcs)"

section \<open>The evaluator\<close>

datatype outcome = Transition string | AllowedHere

definition transitionFor :: "lifecycle_def \<Rightarrow> string \<Rightarrow> string \<Rightarrow> outcome option" where
  "transitionFor lc from operation =
     (case map_of (states lc) from of
        None \<Rightarrow> None
      | Some state \<Rightarrow>
          (case map_of (on state) operation of
             Some to \<Rightarrow> Some (Transition to)
           | None \<Rightarrow> if operation \<in> set (allow state) then Some AllowedHere else None))"

definition INVALID_TRANSITION :: string where
  "INVALID_TRANSITION = ''invalid_transition''"

definition UNDECLARED_STATE :: string where
  "UNDECLARED_STATE = ''undeclared''"

record noted_transition =
  nt_ref :: entity_ref
  nt_from :: string
  nt_to :: string

record refused_transition =
  rt_ref :: "entity_ref option"
  rt_from :: string
  rt_operation :: string
  rt_attempted :: "string option"

text \<open>The states an operation leads to, as a \<open>Set\<close>.\<close>

definition targets_of :: "lifecycle_def \<Rightarrow> string \<Rightarrow> string list" where
  "targets_of lc operation =
     unique_in_order (List.map_filter (\<lambda>(_, s). map_of (on s) operation) (states lc))"

definition refusal_error :: "lifecycle_def \<Rightarrow> string \<Rightarrow> string \<Rightarrow> string \<Rightarrow> err" where
  "refusal_error lc entity from operation =
     (let legal = sort (filter (\<lambda>s. transitionFor lc s operation \<noteq> None) (state_names lc)) in
      SubstratError Conflict (Some INVALID_TRANSITION)
        (if legal \<noteq> [] then ''invalid transition: '' @ entity @ '' is '' @ quote from @ '', but '' @
           quote operation @ '' requires '' @ join '' | '' legal
         else ''invalid transition: '' @ quote operation @ '' is not legal in any state of '' @ entity))"

definition refused_of ::
  "lifecycle_def \<Rightarrow> string \<Rightarrow> string \<Rightarrow> entity_ref option \<Rightarrow> refused_transition" where
  "refused_of lc from operation ref =
     \<lparr>rt_ref = ref,
      rt_from = (if from \<in> set (state_names lc) then from else UNDECLARED_STATE),
      rt_operation = operation,
      rt_attempted = (case targets_of lc operation of [x] \<Rightarrow> Some x | _ \<Rightarrow> None)\<rparr>"

text \<open>
  A legal outcome comes with the move noted on the invocation, where it is a move and the record
  is named; a refusal is the thrown conflict and the refused transition it carries.
\<close>

definition assertTransition ::
  "lifecycle_def \<Rightarrow> string \<Rightarrow> string \<Rightarrow> string \<Rightarrow> entity_ref option \<Rightarrow>
   (err \<times> refused_transition) + (outcome \<times> noted_transition option)" where
  "assertTransition lc entity from operation ref =
     (case transitionFor lc from operation of
        Some (Transition to) \<Rightarrow>
          Inr (Transition to, map_option (\<lambda>r. \<lparr>nt_ref = r, nt_from = from, nt_to = to\<rparr>) ref)
      | Some AllowedHere \<Rightarrow> Inr (AllowedHere, None)
      | None \<Rightarrow> Inl (refusal_error lc entity from operation, refused_of lc from operation ref))"

definition operationsOf :: "lifecycle_def \<Rightarrow> string list" where
  "operationsOf lc =
     sort (remdups (concat (map (\<lambda>(_, s). map fst (on s) @ allow s) (states lc))))"

section \<open>The emitted form\<close>

record emitted_state =
  e_on :: "(string \<times> string) list option"
  e_allow :: "string list option"
  e_extensible :: bool
  e_terminal :: bool

record emitted_lifecycle =
  e_field :: string
  e_initial :: string
  e_states :: "(string \<times> emitted_state) list"

text \<open>\<open>Object.keys(o).sort()\<close> followed by a lookup of each key.\<close>

definition sorted_entries :: "(string \<times> 'b) list \<Rightarrow> (string \<times> 'b) list" where
  "sorted_entries kvs = map (\<lambda>k. (k, the (map_of kvs k))) (sort (map fst kvs))"

definition emit_state :: "state_def \<Rightarrow> emitted_state" where
  "emit_state s =
     \<lparr>e_on = (if on s \<noteq> [] then Some (sorted_entries (on s)) else None),
      e_allow = (if allow s \<noteq> [] then Some (sort (allow s)) else None),
      e_extensible = extensible s,
      e_terminal = terminal s\<rparr>"

definition emit_lifecycle :: "lifecycle_def \<Rightarrow> emitted_lifecycle" where
  "emit_lifecycle lc =
     \<lparr>e_field = field lc, e_initial = initial lc,
      e_states = map (\<lambda>(n, s). (n, emit_state s)) (sorted_entries (states lc))\<rparr>"

definition emitLifecycles ::
  "(string \<times> lifecycle_def) list \<Rightarrow> (string \<times> emitted_lifecycle) list result" where
  "emitLifecycles lcs =
     traverse (\<lambda>(entity, lc). bind_r (assertCoherent entity lc None) (\<lambda>_. Inr (entity, emit_lifecycle lc)))
       (sorted_entries lcs)"

section \<open>What a coherent declaration is\<close>

text \<open>The specification \<open>assertCoherent\<close> decides.\<close>

definition state_coherent :: "string set \<Rightarrow> state_def \<Rightarrow> bool" where
  "state_coherent names s \<longleftrightarrow>
     (terminal s \<longrightarrow> on s = []) \<and> snd ` set (on s) \<subseteq> names \<and> set (allow s) \<inter> fst ` set (on s) = {}"

definition coherent :: "lifecycle_def \<Rightarrow> bool" where
  "coherent lc \<longleftrightarrow>
     initial lc \<in> set (state_names lc) \<and>
     (\<forall>s \<in> snd ` set (states lc). state_coherent (set (state_names lc)) s)"

text \<open>The states an entity can get into: it starts in \<open>initial\<close> and follows edges.\<close>

inductive lc_reach :: "lifecycle_def \<Rightarrow> string \<Rightarrow> bool" for lc where
  start: "lc_reach lc (initial lc)"
| move: "lc_reach lc a \<Longrightarrow> transitionFor lc a op = Some (Transition b) \<Longrightarrow> lc_reach lc b"

definition is_terminal :: "lifecycle_def \<Rightarrow> string \<Rightarrow> bool" where
  "is_terminal lc a \<longleftrightarrow> (case map_of (states lc) a of Some s \<Rightarrow> terminal s | None \<Rightarrow> False)"

lemma each_Inr_iff [monad_simps]: "each f xs = Inr u \<longleftrightarrow> (\<forall>x \<in> set xs. f x = Inr ())"
  by (induction xs) (auto simp: bind_r_Inr_iff)

lemma coherent_state_Inr:
  "coherent_state entity names (name, s) = Inr () \<longleftrightarrow> state_coherent (set names) s"
  by (auto simp: coherent_state_def state_coherent_def monad_simps disjoint_iff)

lemma coherent_values_Inr:
  "coherent_values entity lc vs = Inr () \<longleftrightarrow> set (state_names lc) = set vs"
  by (auto simp: coherent_values_def monad_simps)

lemma assertCoherent_Inr:
  "assertCoherent entity lc allowedv = Inr () \<longleftrightarrow>
     coherent lc \<and> (\<forall>vs. allowedv = Some vs \<longrightarrow> set (state_names lc) = set vs)"
  by (cases allowedv)
    (auto simp: assertCoherent_def coherent_def monad_simps coherent_state_Inr coherent_values_Inr)

lemma transitionFor_SomeD:
  assumes "transitionFor lc from op = Some r"
  shows "\<exists>s. map_of (states lc) from = Some s \<and> s \<in> snd ` set (states lc) \<and> from \<in> set (state_names lc)"
  using assms unfolding transitionFor_def state_names_def
  by (cases "map_of (states lc) from") (auto dest: map_of_SomeD intro: rev_image_eqI)

lemma transitionFor_Transition:
  "transitionFor lc from op = Some (Transition to) \<longleftrightarrow>
     (\<exists>s. map_of (states lc) from = Some s \<and> map_of (on s) op = Some to)"
  unfolding transitionFor_def by (auto split: option.splits)

section \<open>The contract of a coherent declaration\<close>

locale lifecycle_machine =
  fixes lc :: lifecycle_def
  assumes is_coherent: "coherent lc"
begin

lemma initial_declared: "initial lc \<in> set (state_names lc)"
  using is_coherent by (simp add: coherent_def)

lemma transition_declared:
  assumes "transitionFor lc a op = Some (Transition b)"
  shows "a \<in> set (state_names lc)" and "b \<in> set (state_names lc)" and "\<not> is_terminal lc a"
proof -
  from transitionFor_SomeD [OF assms] obtain s where s: "map_of (states lc) a = Some s"
    and mem: "s \<in> snd ` set (states lc)" and "a \<in> set (state_names lc)" by blast
  then show "a \<in> set (state_names lc)" by simp
  from assms s have edge: "map_of (on s) op = Some b" by (simp add: transitionFor_Transition)
  from mem is_coherent have "state_coherent (set (state_names lc)) s" unfolding coherent_def by blast
  with edge have "b \<in> set (state_names lc)" and "\<not> terminal s"
    by (force simp: state_coherent_def dest!: map_of_SomeD)+
  with s show "b \<in> set (state_names lc)" and "\<not> is_terminal lc a" by (simp_all add: is_terminal_def)
qed

lemma reach_declared: "lc_reach lc a \<Longrightarrow> a \<in> set (state_names lc)"
  by (induction rule: lc_reach.induct) (use initial_declared transition_declared(2) in blast)+

lemma terminal_stuck: "is_terminal lc a \<Longrightarrow> transitionFor lc a op \<noteq> Some (Transition b)"
  using transition_declared(3) by blast

end

section \<open>Stores governed by a declaration\<close>

text \<open>
  \<open>status_of s i\<close> is the state column of row \<open>i\<close> in store \<open>s\<close>, \<open>step\<close> one committed
  operation.  A row is born in the initial state and every later operation leaves its column or
  moves it along a declared edge; rows are not deleted.
\<close>

locale governed_store = lifecycle_machine +
  fixes status_of :: "'s \<Rightarrow> 'i \<Rightarrow> string option" and step :: "'s \<Rightarrow> 's \<Rightarrow> bool"
  assumes born: "step s s' \<Longrightarrow> status_of s i = None \<Longrightarrow> status_of s' i = Some a \<Longrightarrow> a = initial lc"
    and moves: "step s s' \<Longrightarrow> status_of s i = Some a \<Longrightarrow>
      \<exists>b. status_of s' i = Some b \<and> (b = a \<or> (\<exists>op. transitionFor lc a op = Some (Transition b)))"
begin

lemma status_reachable:
  assumes "step\<^sup>*\<^sup>* s s'" and "\<And>i a. status_of s i = Some a \<Longrightarrow> lc_reach lc a"
  shows "status_of s' i = Some a \<Longrightarrow> lc_reach lc a"
  using assms
proof (induction arbitrary: i a rule: rtranclp_induct)
  case base
  then show ?case by blast
next
  case (step y z)
  show ?case
  proof (cases "status_of y i")
    case None
    with step.hyps step.prems born show ?thesis by (metis lc_reach.start)
  next
    case (Some b)
    with step.IH step.prems have "lc_reach lc b" by blast
    with moves [OF step.hyps(2) Some] step.prems(1) show ?thesis
      by (metis lc_reach.move option.inject)
  qed
qed

lemma status_declared:
  assumes "step\<^sup>*\<^sup>* s s'" and "\<And>i. status_of s i = None" and "status_of s' i = Some a"
  shows "a \<in> set (state_names lc)"
  using status_reachable [OF assms(1) _ assms(3)] assms(2) reach_declared by auto

lemma row_kept: "step\<^sup>*\<^sup>* s s' \<Longrightarrow> status_of s i = Some a \<Longrightarrow> \<exists>b. status_of s' i = Some b"
  by (induction rule: rtranclp_induct) (use moves in blast)+

lemma terminal_frozen:
  assumes "step\<^sup>*\<^sup>* s s'" and "status_of s i = Some a" and "is_terminal lc a"
  shows "status_of s' i = Some a"
  using assms by (induction rule: rtranclp_induct) (use moves terminal_stuck in blast)+

end

section \<open>Emission\<close>

text \<open>The machine an emitted declaration describes, for comparing the two.\<close>

definition read_state :: "emitted_state \<Rightarrow> state_def" where
  "read_state e =
     \<lparr>on = (case e_on e of Some es \<Rightarrow> es | None \<Rightarrow> []),
      allow = (case e_allow e of Some as \<Rightarrow> as | None \<Rightarrow> []),
      extensible = e_extensible e, terminal = e_terminal e\<rparr>"

definition read_lifecycle :: "emitted_lifecycle \<Rightarrow> lifecycle_def" where
  "read_lifecycle e =
     \<lparr>field = e_field e, initial = e_initial e, states = map (\<lambda>(n, s). (n, read_state s)) (e_states e)\<rparr>"

text \<open>Two spellings of one declaration: the same entries in another order.\<close>

definition reordered_state :: "state_def \<Rightarrow> state_def \<Rightarrow> bool" where
  "reordered_state s s' \<longleftrightarrow>
     distinct (map fst (on s)) \<and> distinct (map fst (on s')) \<and> set (on s) = set (on s') \<and>
     mset (allow s) = mset (allow s') \<and> extensible s = extensible s' \<and> terminal s = terminal s'"

definition reordered :: "lifecycle_def \<Rightarrow> lifecycle_def \<Rightarrow> bool" where
  "reordered lc lc' \<longleftrightarrow>
     distinct (state_names lc) \<and> distinct (state_names lc') \<and>
     field lc = field lc' \<and> initial lc = initial lc' \<and> set (state_names lc) = set (state_names lc') \<and>
     (\<forall>n \<in> set (state_names lc).
        reordered_state (the (map_of (states lc) n)) (the (map_of (states lc') n)))"

lemma map_of_sorted_entries: "map_of (sorted_entries kvs) = map_of kvs"
proof
  fix k
  have "map_of (map (\<lambda>k. (k, the (map_of kvs k))) ks) k = (if k \<in> set ks then Some (the (map_of kvs k)) else None)"
    for ks by (induction ks) auto
  then have "map_of (sorted_entries kvs) k = (if k \<in> set (map fst kvs) then Some (the (map_of kvs k)) else None)"
    by (simp add: sorted_entries_def)
  then show "map_of (sorted_entries kvs) k = map_of kvs k"
    by (metis list.set_map map_of_eq_None_iff option.collapse)
qed

lemma sort_mset_cong: "mset xs = mset ys \<Longrightarrow> sort xs = sort ys"
  by (rule properties_for_sort) simp_all

lemma sorted_entries_eqI:
  assumes "distinct (map fst xs)" "distinct (map fst ys)" "fst ` set xs = fst ` set ys"
    and "\<And>k. k \<in> fst ` set xs \<Longrightarrow> g (the (map_of xs k)) = g (the (map_of ys k))"
  shows "map (\<lambda>(k, v). (k, g v)) (sorted_entries xs) = map (\<lambda>(k, v). (k, g v)) (sorted_entries ys)"
proof -
  have "mset (map fst xs) = mset (map fst ys)"
    using assms(1,2,3) by (metis list.set_map set_eq_iff_mset_eq_distinct)
  then have "sort (map fst xs) = sort (map fst ys)" by (rule sort_mset_cong)
  then show ?thesis using assms(3,4) by (auto simp: sorted_entries_def)
qed

lemma map_of_map_values: "map_of (map (\<lambda>(n, s). (n, f s)) kvs) k = map_option f (map_of kvs k)"
  by (induction kvs) auto

lemma transitionFor_read_emit:
  "transitionFor (read_lifecycle (emit_lifecycle lc)) from op = transitionFor lc from op"
proof -
  have st: "map_of (states (read_lifecycle (emit_lifecycle lc))) from =
      map_option (read_state \<circ> emit_state) (map_of (states lc) from)"
    by (simp del: map_map add: read_lifecycle_def emit_lifecycle_def map_of_map_values
        map_of_sorted_entries option.map_comp)
  have "map_of (on (read_state (emit_state s))) op = map_of (on s) op"
    and "set (allow (read_state (emit_state s))) = set (allow s)" for s
    by (simp_all add: read_state_def emit_state_def map_of_sorted_entries)
  then show ?thesis by (cases "map_of (states lc) from") (simp_all add: transitionFor_def st)
qed

lemma emit_state_reordered:
  assumes "reordered_state s s'"
  shows "emit_state s = emit_state s'"
proof -
  have d: "distinct (map fst (on s))" "distinct (map fst (on s'))" and o: "set (on s) = set (on s')"
    and al: "mset (allow s) = mset (allow s')"
    and fl: "extensible s = extensible s'" "terminal s = terminal s'"
    using assms unfolding reordered_state_def by blast+
  have "map_of (on s) = map_of (on s')" using d o by (metis map_of_inject_set)
  then have "sorted_entries (on s) = sorted_entries (on s')"
    using sorted_entries_eqI [where g = id, OF d] o by simp
  moreover have "sort (allow s) = sort (allow s')" using al by (rule sort_mset_cong)
  moreover have "(on s = []) = (on s' = [])" using o by (metis set_empty)
  moreover have "(allow s = []) = (allow s' = [])" using al by (metis mset_zero_iff)
  ultimately show ?thesis using fl unfolding emit_state_def by presburger
qed

lemma emit_lifecycle_reordered: "reordered lc lc' \<Longrightarrow> emit_lifecycle lc = emit_lifecycle lc'"
  unfolding emit_lifecycle_def
  by (auto simp: reordered_def state_names_def intro!: sorted_entries_eqI emit_state_reordered)

lemma targets_of_set:
  "set (targets_of lc op) = {t. \<exists>s \<in> snd ` set (states lc). map_of (on s) op = Some t}"
  by (force simp: targets_of_def List.map_filter_def)

lemma attempted_iff: "rt_attempted (refused_of lc from op ref) = Some t \<longleftrightarrow> set (targets_of lc op) = {t}"
proof -
  have "distinct (targets_of lc op)" by (simp add: targets_of_def)
  then have "set (targets_of lc op) = {t} \<longleftrightarrow> targets_of lc op = [t]"
    by (cases "targets_of lc op") (auto simp: subset_singleton_iff)
  then show ?thesis by (auto simp: refused_of_def split: list.splits)
qed

lemma emitLifecycles_total:
  assumes "\<forall>(e, lc) \<in> set (sorted_entries lcs). coherent lc"
  shows "emitLifecycles lcs = Inr (map (\<lambda>(e, lc). (e, emit_lifecycle lc)) (sorted_entries lcs))"
proof -
  have "traverse (\<lambda>(entity, lc). bind_r (assertCoherent entity lc None) (\<lambda>_. Inr (entity, emit_lifecycle lc)))
      (sorted_entries lcs) = Inr (map (\<lambda>(e, lc). (e, emit_lifecycle lc)) (sorted_entries lcs))"
  proof (rule traverse_total)
    fix x assume "x \<in> set (sorted_entries lcs)"
    with assms have "assertCoherent (fst x) (snd x) None = Inr ()" by (auto simp: assertCoherent_Inr)
    then show "(case x of (entity, lc) \<Rightarrow> bind_r (assertCoherent entity lc None) (\<lambda>_. Inr (entity, emit_lifecycle lc))) =
        Inr (case x of (e, lc) \<Rightarrow> (e, emit_lifecycle lc))"
      by (cases x) simp
  qed
  then show ?thesis by (simp add: emitLifecycles_def)
qed

lemma sorted_entries_mem: "(k, v) \<in> set (sorted_entries kvs) \<Longrightarrow> (k, v) \<in> set kvs"
  unfolding sorted_entries_def by clarsimp (metis map_of_SomeD option.sel weak_map_of_SomeI)

section \<open>Properties\<close>

text \<open>A small machine for the concrete instances: open, then done.\<close>

definition demo_lc :: lifecycle_def where
  "demo_lc = \<lparr>field = ''status'', initial = ''open'',
     states = [(''open'', \<lparr>on = [(''t/finish'', ''done'')], allow = [''t/note''], extensible = False, terminal = False\<rparr>),
               (''done'', \<lparr>on = [], allow = [], extensible = False, terminal = True\<rparr>)]\<rparr>"

lemma demo_coherent: "coherent demo_lc"
  by (simp add: coherent_def state_coherent_def demo_lc_def state_names_def)

text \<open>
  The load-time check accepts exactly the coherent declarations: the initial state is declared,
  every edge lands in a declared state, a terminal state has none, no operation is both an edge and
  inert, and where the column's enum is known the declared states are exactly its values.
\<close>

theorem assertCoherent_decides:
  "is_ok (assertCoherent entity lc allowedv) \<longleftrightarrow>
     coherent lc \<and> (case allowedv of None \<Rightarrow> True | Some vs \<Rightarrow> set (state_names lc) = set vs)"
  using assertCoherent_Inr [of entity lc allowedv]
  by (cases allowedv) (auto simp: is_ok_iff)

text \<open>
  An entity governed by an accepted declaration never leaves its vocabulary: every state
  reachable along edges is declared, and no operation moves it out of a terminal one.
\<close>

theorem accepted_machine_closed:
  assumes "assertCoherent entity lc allowedv = Inr ()" and "lc_reach lc a"
  shows "a \<in> set (state_names lc) \<and>
    (is_terminal lc a \<longrightarrow> (\<forall>op b. transitionFor lc a op \<noteq> Some (Transition b)))"
proof -
  from assms(1) have "lifecycle_machine lc" by (simp add: assertCoherent_Inr lifecycle_machine_def)
  with assms(2) show ?thesis
    using lifecycle_machine.reach_declared lifecycle_machine.terminal_stuck by blast
qed

theorem accepted_machine_closed_witness:
  "''done'' \<in> set (state_names demo_lc) \<and> (\<forall>op b. transitionFor demo_lc ''done'' op \<noteq> Some (Transition b))"
proof -
  have ok: "assertCoherent ''task'' demo_lc (Some [''done'', ''open'']) = Inr ()" by code_simp
  have "lc_reach demo_lc ''open''" using lc_reach.start [of demo_lc] by (simp add: demo_lc_def)
  moreover have "transitionFor demo_lc ''open'' ''t/finish'' = Some (Transition ''done'')" by code_simp
  ultimately have "lc_reach demo_lc ''done''" by (rule lc_reach.move)
  moreover have "is_terminal demo_lc ''done''" by code_simp
  ultimately show ?thesis using accepted_machine_closed [OF ok] by blast
qed

text \<open>
  A refusal is thrown exactly where the declaration gives no outcome, always as a conflict
  with reason \<open>invalid_transition\<close>; its record never copies the caller's column value (the state
  is a declared one or \<open>undeclared\<close>) and names an attempted state only when it is the one target
  the operation has anywhere, which is then a state some declared edge leads to.
\<close>

theorem refusal_record:
  assumes "assertTransition lc entity from op ref = Inl (e, rt)"
  shows "transitionFor lc from op = None \<and>
    (\<exists>msg. e = SubstratError Conflict (Some INVALID_TRANSITION) msg) \<and>
    rt_from rt \<in> insert UNDECLARED_STATE (set (state_names lc)) \<and>
    (rt_attempted rt = Some t \<longleftrightarrow>
       {b. \<exists>s \<in> snd ` set (states lc). map_of (on s) op = Some b} = {t})"
proof -
  from assms have n: "transitionFor lc from op = None"
    unfolding assertTransition_def
    by (cases "transitionFor lc from op"; cases "the (transitionFor lc from op)") auto
  with assms have "e = refusal_error lc entity from op" and rt: "rt = refused_of lc from op ref"
    by (simp_all add: assertTransition_def)
  with n show ?thesis
    unfolding rt attempted_iff targets_of_set by (auto simp: refusal_error_def refused_of_def Let_def)
qed

theorem refusal_record_witness:
  "let rt = \<lparr>rt_ref = None, rt_from = ''undeclared'', rt_operation = ''t/finish'', rt_attempted = Some ''done''\<rparr> in
   transitionFor demo_lc ''typed by hand'' ''t/finish'' = None \<and>
   rt_from rt \<in> insert UNDECLARED_STATE (set (state_names demo_lc)) \<and>
   {b. \<exists>s \<in> snd ` set (states demo_lc). map_of (on s) ''t/finish'' = Some b} = {''done''}"
proof -
  let ?rt = "\<lparr>rt_ref = None, rt_from = ''undeclared'', rt_operation = ''t/finish'', rt_attempted = Some ''done''\<rparr>"
  have "assertTransition demo_lc ''task 1'' ''typed by hand'' ''t/finish'' None =
      Inl (refusal_error demo_lc ''task 1'' ''typed by hand'' ''t/finish'', ?rt)"
    by (simp add: assertTransition_def transitionFor_def demo_lc_def refused_of_def state_names_def
        UNDECLARED_STATE_def targets_of_def List.map_filter_def unique_in_order_def)
  from refusal_record [OF this, of "''done''"] show ?thesis unfolding Let_def by simp
qed

text \<open>
  C29. Emission is total on coherent declarations, sorted by entity, and describes the same
  machine: evaluating the emitted states gives \<open>transitionFor\<close> of the declaration, for every
  state and operation.
\<close>

theorem emission_faithful:
  assumes "\<forall>(e, lc) \<in> set lcs. coherent lc"
  shows "\<exists>out. emitLifecycles lcs = Inr out \<and> sorted (map fst out) \<and>
    (\<forall>e lc. map_of lcs e = Some lc \<longrightarrow>
       (\<exists>el. map_of out e = Some el \<and> e_initial el = initial lc \<and>
          (\<forall>from op. transitionFor (read_lifecycle el) from op = transitionFor lc from op)))"
proof -
  let ?out = "map (\<lambda>(e, lc). (e, emit_lifecycle lc)) (sorted_entries lcs)"
  have "emitLifecycles lcs = Inr ?out"
    using assms by (intro emitLifecycles_total) (blast dest: sorted_entries_mem)
  moreover have "sorted (map fst ?out)"
    by (simp add: sorted_entries_def comp_def case_prod_unfold)
  moreover have "map_of ?out e = map_option emit_lifecycle (map_of lcs e)" for e
    by (simp add: map_of_map_values map_of_sorted_entries)
  moreover have "e_initial (emit_lifecycle lc) = initial lc" for lc by (simp add: emit_lifecycle_def)
  ultimately show ?thesis by (simp add: transitionFor_read_emit)
qed

theorem emission_faithful_witness:
  "\<exists>out. emitLifecycles [(''task'', demo_lc)] = Inr out \<and> sorted (map fst out)"
proof -
  have "coherent demo_lc" by (rule demo_coherent)
  then show ?thesis using emission_faithful [of "[(''task'', demo_lc)]"] by auto
qed

text \<open>
  A reordered declaration is not a spurious diff: the same states, edges and inert operations
  written in another order emit the same artifact.
\<close>

theorem emission_order_insensitive:
  assumes "reordered lc lc'" and "coherent lc" and "coherent lc'"
  shows "emitLifecycles [(entity, lc)] = emitLifecycles [(entity, lc')]"
proof -
  have "sorted_entries [(entity, x)] = [(entity, x)]" for x :: lifecycle_def
    by (simp add: sorted_entries_def)
  with assms show ?thesis
    by (simp add: emitLifecycles_total emit_lifecycle_reordered)
qed

theorem emission_order_insensitive_witness:
  "emitLifecycles [(''task'', demo_lc)] =
   emitLifecycles [(''task'', demo_lc\<lparr>states := rev (states demo_lc)\<rparr>)]"
proof (rule emission_order_insensitive)
  show "reordered demo_lc (demo_lc\<lparr>states := rev (states demo_lc)\<rparr>)"
    by (simp add: reordered_def reordered_state_def demo_lc_def state_names_def insert_commute)
  show "coherent demo_lc" by (rule demo_coherent)
  show "coherent (demo_lc\<lparr>states := rev (states demo_lc)\<rparr>)"
    by (simp add: coherent_def state_coherent_def demo_lc_def state_names_def)
qed

end
