(* ===== verification/Money.thy ===== *)
theory Money
  imports Permission_Model
begin

text \<open>
  The one money representation, \<open>packages/contracts/src/money.ts\<close>: decimal strings with at
  most six places, computed on as integers of micro-units (\<open>bigint\<close>, so \<open>int\<close>).
  \<open>bigInt\<close> is \<open>BigInt\<close> on decimal digits (the empty string is zero) and throws on
  anything else; the schemas hold every amount and quantity to digits, so the other spellings
  \<open>BigInt\<close> reads (a hexadecimal prefix, surrounding whitespace) do not reach it, except that the
  absence engine compares the days of a request before their pattern has refused them: there such a
  spelling is read, and refused by the pattern instead of thrown.
\<close>

section \<open>Digits\<close>

definition digit_value :: "char \<Rightarrow> int" where
  "digit_value c = int (of_char c) - 48"

definition digits_value :: "string \<Rightarrow> int" where
  "digits_value s = foldl (\<lambda>n c. 10 * n + digit_value c) 0 s"

definition bigInt :: "string \<Rightarrow> int result" where
  "bigInt s = (if list_all is_digit s then Inr (digits_value s) else Inl (PlainError ''SyntaxError''))"

definition padEnd0 :: "nat \<Rightarrow> string \<Rightarrow> string" where
  "padEnd0 k s = s @ replicate (k - length s) CHR ''0''"

definition padStart0 :: "nat \<Rightarrow> string \<Rightarrow> string" where
  "padStart0 k s = replicate (k - length s) CHR ''0'' @ s"

text \<open>\<open>s.replace(/0+$/, '')\<close>.\<close>

definition stripZeros :: "string \<Rightarrow> string" where
  "stripZeros s = rev (dropWhile (\<lambda>c. c = CHR ''0'') (rev s))"

section \<open>Grammars\<close>

definition currencyCode :: "string \<Rightarrow> bool" where
  "currencyCode s \<longleftrightarrow> length s = 3 \<and> list_all is_upper s"

text \<open>\<open>\d+(\.\d{1,6})?\<close>, the schema \<open>decimal\<close> of the engines, and \<open>moneyAmount\<close> with a sign.\<close>

definition decimalString :: "string \<Rightarrow> bool" where
  "decimalString s \<longleftrightarrow>
     (let i = takeWhile (\<lambda>c. c \<noteq> CHR ''.'') s; r = dropWhile (\<lambda>c. c \<noteq> CHR ''.'') s in
      i \<noteq> [] \<and> list_all is_digit i \<and>
      (case r of [] \<Rightarrow> True
       | _ # f \<Rightarrow> f \<noteq> [] \<and> length f \<le> 6 \<and> list_all is_digit f))"

definition moneyAmount :: "string \<Rightarrow> bool" where
  "moneyAmount s \<longleftrightarrow>
     decimalString (if startsWith s ''-'' then drop 1 s else s)"

record money =
  amount :: string
  currency :: string

definition money_ok :: "money \<Rightarrow> bool" where
  "money_ok m \<longleftrightarrow> moneyAmount (amount m) \<and> currencyCode (currency m)"

section \<open>Arithmetic\<close>

definition SCALE :: int where
  "SCALE = 1000000"

definition split_int :: "string \<Rightarrow> string" where
  "split_int s = takeWhile (\<lambda>c. c \<noteq> CHR ''.'') s"

text \<open>\<open>s.split('.')[1] ?? ''\<close>.\<close>

definition split_frac :: "string \<Rightarrow> string" where
  "split_frac s = takeWhile (\<lambda>c. c \<noteq> CHR ''.'') (drop 1 (dropWhile (\<lambda>c. c \<noteq> CHR ''.'') s))"

definition toMicro :: "string \<Rightarrow> int result" where
  "toMicro decimal =
     (let negative = startsWith decimal ''-'';
          body = (if negative then drop 1 decimal else decimal) in
      bind_r (bigInt (split_int body)) (\<lambda>i.
      bind_r (bigInt (take 6 (padEnd0 6 (split_frac body)))) (\<lambda>f.
        let micro = i * SCALE + f in Inr (if negative then - micro else micro))))"

definition fromMicro :: "int \<Rightarrow> string" where
  "fromMicro micro =
     (let negative = micro < 0;
          absv = (if negative then - micro else micro);
          intPart = absv div SCALE;
          frac = stripZeros (padStart0 6 (show_nat (nat (absv mod SCALE)))) in
      (if negative then ''-'' else '''') @ show_nat (nat intPart) @
      (if frac \<noteq> [] then ''.'' @ frac else ''''))"

definition mulDecimal :: "string \<Rightarrow> string \<Rightarrow> string result" where
  "mulDecimal qty am =
     bind_r (toMicro qty) (\<lambda>q.
     bind_r (toMicro am) (\<lambda>a.
       let product = q * a;
           sign = (if product < 0 then -1 else 1);
           absv = (if product < 0 then - product else product) in
       Inr (fromMicro (sign * ((absv + SCALE div 2) div SCALE)))))"

definition addDecimal :: "string \<Rightarrow> string \<Rightarrow> string result" where
  "addDecimal a b = bind_r (toMicro a) (\<lambda>x. bind_r (toMicro b) (\<lambda>y. Inr (fromMicro (x + y))))"

definition compareDecimal :: "string \<Rightarrow> string \<Rightarrow> int result" where
  "compareDecimal a b =
     bind_r (toMicro a) (\<lambda>x. bind_r (toMicro b) (\<lambda>y.
       Inr (if x < y then -1 else if y < x then 1 else 0)))"

definition moneyOf :: "string \<Rightarrow> string \<Rightarrow> money result" where
  "moneyOf am cur =
     (if moneyAmount am \<and> currencyCode cur then Inr \<lparr>amount = am, currency = cur\<rparr>
      else Inl (ZodError ''money''))"

definition addMoney :: "money \<Rightarrow> money \<Rightarrow> money result" where
  "addMoney a b =
     (if currency a \<noteq> currency b
      then Inl (PlainError (''currency mismatch: '' @ currency a @ '' vs '' @ currency b))
      else bind_r (addDecimal (amount a) (amount b)) (\<lambda>s. moneyOf s (currency a)))"

definition mulMoney :: "string \<Rightarrow> money \<Rightarrow> money result" where
  "mulMoney qty unitPrice =
     bind_r (mulDecimal qty (amount unitPrice)) (\<lambda>s. moneyOf s (currency unitPrice))"

section \<open>Digits and values\<close>

lemma digit_char_props:
  assumes "d < 10"
  shows "is_digit (digit_char d)" and "digit_value (digit_char d) = int d" and "digit_char d \<noteq> CHR ''.''"
    and "digit_char d \<noteq> CHR ''-''"
proof -
  have all: "\<forall>d \<in> set [0..<10]. is_digit (digit_char d) \<and> digit_value (digit_char d) = int d \<and>
      digit_char d \<noteq> CHR ''.'' \<and> digit_char d \<noteq> CHR ''-''"
    by code_simp
  with assms show "is_digit (digit_char d)" and "digit_value (digit_char d) = int d"
    and "digit_char d \<noteq> CHR ''.''" and "digit_char d \<noteq> CHR ''-''" by auto
qed

lemma foldl_digits:
  "foldl (\<lambda>n c. 10 * n + digit_value c) a s = a * 10 ^ length s + digits_value s"
proof (induction s arbitrary: a)
  case Nil
  then show ?case by (simp add: digits_value_def)
next
  case (Cons c s)
  have "digits_value (c # s) = foldl (\<lambda>n c. 10 * n + digit_value c) (digit_value c) s"
    by (simp add: digits_value_def)
  with Cons.IH [of "digit_value c"] Cons.IH [of "10 * a + digit_value c"] show ?case
    by (simp add: algebra_simps)
qed

lemma digits_value_append: "digits_value (s @ r) = digits_value s * 10 ^ length r + digits_value r"
  using foldl_digits [of "digits_value s" r] by (simp add: digits_value_def)

lemma digits_value_zeros: "digits_value (replicate k CHR ''0'') = 0"
  by (induction k) (simp_all add: digits_value_def digit_value_def)

lemma digits_value_snoc: "digits_value (s @ [c]) = 10 * digits_value s + digit_value c"
  by (simp add: digits_value_def)

lemma show_nat_digits: "list_all is_digit (show_nat n)"
proof (induction n rule: show_nat.induct)
  case (1 n)
  then show ?case by (subst show_nat.simps) (auto simp: digit_char_props)
qed

lemma show_nat_value: "digits_value (show_nat n) = int n"
proof (induction n rule: show_nat.induct)
  case (1 n)
  show ?case
  proof (cases "n < 10")
    case True
    then show ?thesis
      by (subst show_nat.simps) (simp add: digits_value_def digit_char_props)
  next
    case False
    with 1 show ?thesis
      by (subst show_nat.simps) (simp add: digits_value_snoc digit_char_props zmod_int zdiv_int flip: of_nat_mult)
  qed
qed

lemma show_nat_ne: "show_nat n \<noteq> []"
  by (subst show_nat.simps) simp

lemma show_nat_length: "n < 10 ^ Suc k \<Longrightarrow> length (show_nat n) \<le> Suc k"
proof (induction k arbitrary: n)
  case 0
  then show ?case by (subst show_nat.simps) simp
next
  case (Suc k)
  then show ?case by (subst show_nat.simps) (auto simp: less_mult_imp_div_less)
qed

lemma digits_no_sign:
  assumes "list_all is_digit s"
  shows "CHR ''.'' \<notin> set s" and "CHR ''-'' \<notin> set s"
proof -
  have "\<not> is_digit (CHR ''.'')" "\<not> is_digit (CHR ''-'')" by code_simp+
  with assms show "CHR ''.'' \<notin> set s" and "CHR ''-'' \<notin> set s" by (auto simp: list_all_iff)
qed

lemma is_digit_0: "is_digit (CHR ''0'')"
  by code_simp

lemma stripZeros_split: "\<exists>k. s = stripZeros s @ replicate k CHR ''0''"
proof -
  have "rev s = takeWhile (\<lambda>c. c = CHR ''0'') (rev s) @ dropWhile (\<lambda>c. c = CHR ''0'') (rev s)" by simp
  then have "s = stripZeros s @ rev (takeWhile (\<lambda>c. c = CHR ''0'') (rev s))"
    unfolding stripZeros_def by (metis rev_append rev_rev_ident)
  moreover have "takeWhile (\<lambda>c. c = CHR ''0'') (rev s) =
      replicate (length (takeWhile (\<lambda>c. c = CHR ''0'') (rev s))) CHR ''0''"
    by (rule replicate_eqI) (auto dest: set_takeWhileD)
  ultimately show ?thesis by (metis rev_replicate)
qed

lemma padEnd_strip:
  assumes "length s = 6"
  shows "take 6 (padEnd0 6 (stripZeros s)) = s"
proof -
  from stripZeros_split [of s] obtain k where k: "s = stripZeros s @ replicate k CHR ''0''" by blast
  then have "length s = length (stripZeros s) + k" by (metis length_append length_replicate)
  with assms have "k = 6 - length (stripZeros s)" by simp
  with k have "padEnd0 6 (stripZeros s) = s" by (simp add: padEnd0_def)
  with assms show ?thesis by simp
qed

lemma stripZeros_digits: "list_all is_digit s \<Longrightarrow> list_all is_digit (stripZeros s)"
  using stripZeros_split [of s] by (metis list_all_append)

lemma stripZeros_length: "length (stripZeros s) \<le> length s"
  using stripZeros_split [of s] by (metis length_append le_add1)

section \<open>Reading back what was printed\<close>

definition frac_digits :: "int \<Rightarrow> string" where
  "frac_digits f = padStart0 6 (show_nat (nat f))"

definition unsigned_decimal :: "nat \<Rightarrow> string \<Rightarrow> string" where
  "unsigned_decimal i frac = show_nat i @ (if frac \<noteq> [] then ''.'' @ frac else '''')"

lemma frac_digits_props:
  assumes "0 \<le> f" "f < SCALE"
  shows "length (frac_digits f) = 6" and "list_all is_digit (frac_digits f)" and "digits_value (frac_digits f) = f"
proof -
  have "length (show_nat (nat f)) \<le> Suc 5"
    by (rule show_nat_length) (use assms in \<open>simp add: SCALE_def\<close>)
  then show "length (frac_digits f) = 6" by (simp add: frac_digits_def padStart0_def)
  show "list_all is_digit (frac_digits f)"
    using show_nat_digits [of "nat f"]
    by (auto simp: frac_digits_def padStart0_def list_all_iff is_digit_0)
  show "digits_value (frac_digits f) = f"
    using assms(1) by (simp add: frac_digits_def padStart0_def digits_value_append digits_value_zeros show_nat_value)
qed

lemma unsigned_decimal_split:
  assumes "list_all is_digit frac"
  shows "split_int (unsigned_decimal i frac) = show_nat i"
    and "split_frac (unsigned_decimal i frac) = frac"
    and "\<not> startsWith (unsigned_decimal i frac) ''-''"
    and "length frac \<le> 6 \<Longrightarrow> decimalString (unsigned_decimal i frac)"
proof -
  let ?s = "unsigned_decimal i frac"
  have n: "\<forall>c \<in> set (show_nat i). c \<noteq> CHR ''.''" and m: "\<forall>c \<in> set frac. c \<noteq> CHR ''.''"
    using digits_no_sign(1) [OF show_nat_digits [of i]] digits_no_sign(1) [OF assms] by auto
  have tw: "takeWhile (\<lambda>c. c \<noteq> CHR ''.'') ?s = show_nat i"
    using n by (auto simp: unsigned_decimal_def takeWhile_append2 takeWhile_eq_all_conv)
  have dw: "dropWhile (\<lambda>c. c \<noteq> CHR ''.'') ?s = (if frac = [] then [] else CHR ''.'' # frac)"
    using n by (auto simp: unsigned_decimal_def dropWhile_append2 dropWhile_eq_Nil_conv)
  show "split_int ?s = show_nat i" by (simp add: split_int_def tw)
  show "split_frac ?s = frac"
    using m unfolding split_frac_def dw by (auto simp: takeWhile_eq_all_conv)
  show "\<not> startsWith ?s ''-''"
    using digits_no_sign(2) [OF show_nat_digits [of i]] show_nat_ne [of i]
    by (cases "show_nat i") (auto simp: startsWith_def unsigned_decimal_def)
  show "length frac \<le> 6 \<Longrightarrow> decimalString ?s"
    using assms by (simp add: decimalString_def tw dw show_nat_ne show_nat_digits)
qed

lemma fromMicro_unsigned:
  "fromMicro m = (if m < 0 then ''-'' else '''') @
     unsigned_decimal (nat (\<bar>m\<bar> div SCALE)) (stripZeros (frac_digits (\<bar>m\<bar> mod SCALE)))"
  by (simp add: fromMicro_def unsigned_decimal_def frac_digits_def abs_if Let_def)

lemma toMicro_unsigned:
  assumes "0 \<le> f" "f < SCALE"
  shows "toMicro (CHR ''-'' # unsigned_decimal i (stripZeros (frac_digits f))) = Inr (- (int i * SCALE + f))"
    and "toMicro (unsigned_decimal i (stripZeros (frac_digits f))) = Inr (int i * SCALE + f)"
proof -
  note fd = frac_digits_props [OF assms]
  note sp = unsigned_decimal_split [OF stripZeros_digits [OF fd(2)]]
  show "toMicro (unsigned_decimal i (stripZeros (frac_digits f))) = Inr (int i * SCALE + f)"
    using fd by (simp add: toMicro_def sp bigInt_def show_nat_digits show_nat_value padEnd_strip)
  show "toMicro (CHR ''-'' # unsigned_decimal i (stripZeros (frac_digits f))) = Inr (- (int i * SCALE + f))"
    using fd by (simp add: toMicro_def sp bigInt_def show_nat_digits show_nat_value padEnd_strip startsWith_def)
qed

lemma toMicro_fromMicro [simp]: "toMicro (fromMicro m) = Inr m"
proof -
  have f: "0 \<le> \<bar>m\<bar> mod SCALE" "\<bar>m\<bar> mod SCALE < SCALE" by (simp_all add: SCALE_def)
  have "0 \<le> \<bar>m\<bar> div SCALE" by (simp add: SCALE_def pos_imp_zdiv_nonneg_iff)
  then have "int (nat (\<bar>m\<bar> div SCALE)) * SCALE + \<bar>m\<bar> mod SCALE = \<bar>m\<bar>" by simp
  then show ?thesis
    using toMicro_unsigned [OF f, of "nat (\<bar>m\<bar> div SCALE)"]
    by (cases "m < 0") (simp_all only: fromMicro_unsigned if_True if_False append.simps, simp_all)
qed

lemma moneyAmount_fromMicro [simp]: "moneyAmount (fromMicro m)"
proof -
  have fd: "length (frac_digits (\<bar>m\<bar> mod SCALE)) = 6" "list_all is_digit (frac_digits (\<bar>m\<bar> mod SCALE))"
    by (rule frac_digits_props; simp add: SCALE_def)+
  have "length (stripZeros (frac_digits (\<bar>m\<bar> mod SCALE))) \<le> 6"
    using stripZeros_length [of "frac_digits (\<bar>m\<bar> mod SCALE)"] fd(1) by simp
  with unsigned_decimal_split(3,4) [OF stripZeros_digits [OF fd(2)]] show ?thesis
    by (auto simp add: moneyAmount_def fromMicro_unsigned startsWith_def)
qed

lemma toMicro_moneyAmount:
  assumes "moneyAmount s"
  shows "\<exists>m. toMicro s = Inr m"
proof -
  define b where "b = (if startsWith s ''-'' then drop 1 s else s)"
  have d: "decimalString b" using assms by (simp only: moneyAmount_def b_def)
  then have i: "list_all is_digit (split_int b)" unfolding decimalString_def split_int_def Let_def by blast
  have "list_all is_digit (drop 1 (dropWhile (\<lambda>c. c \<noteq> CHR ''.'') b))"
  proof (cases "dropWhile (\<lambda>c. c \<noteq> CHR ''.'') b")
    case Nil
    then show ?thesis by (simp only: drop_Nil list.pred_inject(1))
  next
    case (Cons c f)
    with d show ?thesis by (simp add: decimalString_def Let_def)
  qed
  then have "list_all is_digit (split_frac b)"
    unfolding split_frac_def list_all_iff by (blast dest: set_takeWhileD)
  then have "list_all is_digit (take 6 (padEnd0 6 (split_frac b)))"
    by (auto simp: list_all_iff padEnd0_def is_digit_0 dest: in_set_takeD)
  with i show ?thesis by (auto simp: toMicro_def bigInt_def Let_def simp flip: b_def)
qed

text \<open>
  Evaluation: digits of an \<open>int\<close>, so that \<open>fromMicro\<close> computes on binary numerals.
\<close>

function show_pos :: "int \<Rightarrow> string" where
  "show_pos n = (if n < 10 then [digit_char (nat n)] else show_pos (n div 10) @ [digit_char (nat (n mod 10))])"
  by pat_completeness auto
termination
  by (relation "measure nat") auto

declare show_pos.simps [simp del]

lemma show_pos_nat: "0 \<le> n \<Longrightarrow> show_nat (nat n) = show_pos n"
proof (induction n rule: show_pos.induct)
  case (1 n)
  show ?case
  proof (cases "n < 10")
    case True
    moreover from True have "nat n < 10" by linarith
    ultimately show ?thesis by (subst show_nat.simps, subst show_pos.simps) simp
  next
    case False
    with 1 have "show_nat (nat (n div 10)) = show_pos (n div 10)" by simp
    moreover from False have "\<not> nat n < 10" by linarith
    ultimately show ?thesis using False
      by (subst show_nat.simps, subst show_pos.simps) (simp add: nat_div_distrib nat_mod_distrib)
  qed
qed

lemma fromMicro_code [code]:
  "fromMicro micro =
     (let negative = micro < 0;
          absv = (if negative then - micro else micro);
          frac = stripZeros (padStart0 6 (show_pos (absv mod SCALE))) in
      (if negative then ''-'' else '''') @ show_pos (absv div SCALE) @
      (if frac \<noteq> [] then ''.'' @ frac else ''''))"
proof -
  have "0 \<le> \<bar>micro\<bar> mod SCALE" "0 \<le> \<bar>micro\<bar> div SCALE"
    by (simp_all add: SCALE_def pos_imp_zdiv_nonneg_iff)
  then show ?thesis unfolding fromMicro_def Let_def abs_if by (simp only: show_pos_nat)
qed

text \<open>The micro-units of a well-formed sum of money.\<close>

definition micros :: "money \<Rightarrow> int" where
  "micros m = (case toMicro (amount m) of Inr x \<Rightarrow> x | Inl _ \<Rightarrow> 0)"

lemma toMicro_micros: "money_ok m \<Longrightarrow> toMicro (amount m) = Inr (micros m)"
  using toMicro_moneyAmount by (fastforce simp: money_ok_def micros_def)

lemma addMoney_same:
  assumes "money_ok x" "money_ok y" "currency x = currency y"
  shows "\<exists>z. addMoney x y = Inr z \<and> money_ok z \<and> currency z = currency x \<and> micros z = micros x + micros y"
proof -
  have cur: "currencyCode (currency x)" using assms(1) by (simp add: money_ok_def)
  let ?z = "\<lparr>amount = fromMicro (micros x + micros y), currency = currency x\<rparr>"
  have "addMoney x y = Inr ?z"
    using assms(3) cur by (simp add: addMoney_def addDecimal_def moneyOf_def toMicro_micros assms(1,2))
  moreover have "micros ?z = micros x + micros y" by (simp add: micros_def [of ?z])
  ultimately show ?thesis using cur by (simp add: money_ok_def)
qed

lemma addMoney_mixed: "currency x \<noteq> currency y \<Longrightarrow> \<not> is_ok (addMoney x y)"
  by (simp add: addMoney_def)

lemma zero_money: "currencyCode c \<Longrightarrow> moneyOf ''0'' c = Inr \<lparr>amount = ''0'', currency = c\<rparr>"
  and zero_micros: "micros \<lparr>amount = ''0'', currency = c\<rparr> = 0"
proof -
  have "moneyAmount ''0''" and "toMicro ''0'' = Inr 0" by code_simp+
  then show "currencyCode c \<Longrightarrow> moneyOf ''0'' c = Inr \<lparr>amount = ''0'', currency = c\<rparr>"
    and "micros \<lparr>amount = ''0'', currency = c\<rparr> = 0" by (simp_all add: moneyOf_def micros_def)
qed

lemma zero_money_ok: "currencyCode c \<Longrightarrow> money_ok \<lparr>amount = ''0'', currency = c\<rparr>"
  using zero_money by (fastforce simp: moneyOf_def money_ok_def split: if_splits)

text \<open>\<open>ms.reduce((sum, m) => addMoney(sum, m), acc)\<close>: one currency sums exactly, two throw.\<close>

fun sum_money :: "money \<Rightarrow> money list \<Rightarrow> money result" where
  "sum_money acc [] = Inr acc"
| "sum_money acc (m # ms) = bind_r (addMoney acc m) (\<lambda>acc'. sum_money acc' ms)"

lemma sum_money_same:
  assumes "money_ok acc" and "list_all money_ok ms" and "list_all (\<lambda>m. currency m = currency acc) ms"
  shows "\<exists>m. sum_money acc ms = Inr m \<and> money_ok m \<and> currency m = currency acc \<and>
    micros m = micros acc + sum_list (map micros ms)"
  using assms
proof (induction ms arbitrary: acc)
  case Nil
  then show ?case by simp
next
  case (Cons x ms)
  then have "money_ok x" "currency acc = currency x" by simp_all
  from addMoney_same [OF Cons.prems(1) this] obtain z where z: "addMoney acc x = Inr z"
    "money_ok z" "currency z = currency acc" "micros z = micros acc + micros x" by blast
  from Cons.prems z(3) have "list_all money_ok ms" "list_all (\<lambda>m. currency m = currency z) ms" by simp_all
  from Cons.IH [OF z(2) this] z show ?case by auto
qed

lemma sum_money_mixed:
  assumes "money_ok acc" and "list_all money_ok ms" and "\<not> list_all (\<lambda>m. currency m = currency acc) ms"
  shows "\<not> is_ok (sum_money acc ms)"
  using assms
proof (induction ms arbitrary: acc)
  case Nil
  then show ?case by simp
next
  case (Cons x ms)
  show ?case
  proof (cases "currency acc = currency x")
    case True
    with Cons.prems addMoney_same [of acc x] obtain z where z: "addMoney acc x = Inr z"
      "money_ok z" "currency z = currency acc" by auto
    with Cons True show ?thesis by auto
  next
    case False
    then show ?thesis using addMoney_mixed [of acc x] by (simp add: is_ok_iff bind_r_Inr_iff)
  qed
qed

lemma half_up_bounds:
  assumes "(x :: int) \<le> y + 500000" and "y + 500000 < x + 1000000"
  shows "2 * \<bar>x - y\<bar> \<le> 1000000" and "2 * \<bar>x - y\<bar> = 1000000 \<Longrightarrow> y < x"
  using assms by (auto simp: abs_if split: if_splits)

section \<open>Properties\<close>

text \<open>
  C28. The canonical rendering is a legal \<open>moneyAmount\<close> and reads back to the same micro-units,
  for every integer: \<open>toMicro\<close> after \<open>fromMicro\<close> loses nothing, sign included.
\<close>

theorem micro_roundtrip: "toMicro (fromMicro m) = Inr m \<and> moneyAmount (fromMicro m)"
  by simp

text \<open>
  Quantity times unit price is exact to half a micro-unit: on readable operands \<open>mulDecimal\<close>
  returns a legal amount whose value differs from the true product by at most half of the sixth
  decimal, and a tie moves the magnitude up (half away from zero).
\<close>

theorem mulDecimal_rounds:
  assumes "toMicro qty = Inr q" and "toMicro am = Inr a"
  shows "\<exists>s m. mulDecimal qty am = Inr s \<and> moneyAmount s \<and> toMicro s = Inr m \<and>
    2 * \<bar>m * SCALE - q * a\<bar> \<le> SCALE \<and>
    (2 * \<bar>m * SCALE - q * a\<bar> = SCALE \<longrightarrow> \<bar>q * a\<bar> < \<bar>m * SCALE\<bar>)"
proof -
  define p where "p = q * a"
  define r where "r = (\<bar>p\<bar> + 500000) div 1000000"
  define m where "m = (if p < 0 then - 1 else 1) * r"
  have mul: "mulDecimal qty am = Inr (fromMicro m)"
    using assms by (simp add: mulDecimal_def m_def r_def p_def SCALE_def abs_if Let_def)
  have r: "r * 1000000 \<le> \<bar>p\<bar> + 500000" "\<bar>p\<bar> + 500000 < r * 1000000 + 1000000" "0 \<le> r"
    unfolding r_def using pos_mod_bound [of 1000000 "\<bar>p\<bar> + 500000"] pos_mod_sign [of 1000000 "\<bar>p\<bar> + 500000"]
      div_mult_mod_eq [of "\<bar>p\<bar> + 500000" 1000000] pos_imp_zdiv_nonneg_iff [of 1000000 "\<bar>p\<bar> + 500000"]
    by linarith+
  have diff: "\<bar>m * SCALE - p\<bar> = \<bar>r * 1000000 - \<bar>p\<bar>\<bar>" and mag: "\<bar>m * SCALE\<bar> = r * 1000000"
    using r(3) by (simp_all add: m_def SCALE_def abs_if)
  have "2 * \<bar>m * SCALE - p\<bar> \<le> SCALE" and "2 * \<bar>m * SCALE - p\<bar> = SCALE \<longrightarrow> \<bar>p\<bar> < \<bar>m * SCALE\<bar>"
    unfolding diff mag using half_up_bounds [OF r(1,2)] by (simp_all add: SCALE_def)
  with mul show ?thesis unfolding p_def by simp
qed

theorem mulDecimal_rounds_witness:
  "\<exists>s m. mulDecimal ''0.5'' ''-0.000001'' = Inr s \<and> moneyAmount s \<and> toMicro s = Inr m \<and>
    2 * \<bar>m * SCALE - 500000 * (- 1)\<bar> \<le> SCALE"
proof -
  have "toMicro ''0.5'' = Inr 500000" and "toMicro ''-0.000001'' = Inr (- 1)" by code_simp+
  from mulDecimal_rounds [OF this] show ?thesis by blast
qed

text \<open>
  Adding money is exact, total and typed on well-formed operands: one currency gives a
  well-formed sum whose micro-units are the sum of the operands', two currencies always throw and
  never yield a figure.
\<close>

theorem addMoney_exact:
  assumes "money_ok x" and "money_ok y"
  shows "(currency x = currency y \<longrightarrow>
      (\<exists>z p q. addMoney x y = Inr z \<and> money_ok z \<and> currency z = currency x \<and>
        toMicro (amount x) = Inr p \<and> toMicro (amount y) = Inr q \<and> toMicro (amount z) = Inr (p + q))) \<and>
    (currency x \<noteq> currency y \<longrightarrow>
      addMoney x y = Inl (PlainError (''currency mismatch: '' @ currency x @ '' vs '' @ currency y)))"
proof -
  note m = toMicro_micros [OF assms(1)] toMicro_micros [OF assms(2)]
  show ?thesis
    using m assms addMoney_same [OF assms] toMicro_micros by (fastforce simp: addMoney_def)
qed

theorem addMoney_exact_witness:
  "let x = \<lparr>amount = ''10.5'', currency = ''SEK''\<rparr>; y = \<lparr>amount = ''-0.500001'', currency = ''SEK''\<rparr> in
   \<exists>z. addMoney x y = Inr z \<and> money_ok z \<and> toMicro (amount z) = Inr 9999999"
proof -
  define x where "x = \<lparr>amount = ''10.5'', currency = ''SEK''\<rparr>"
  define y where "y = \<lparr>amount = ''-0.500001'', currency = ''SEK''\<rparr>"
  have "money_ok x" "money_ok y" unfolding x_def y_def by code_simp+
  from addMoney_exact [OF this] have "\<exists>z p q. addMoney x y = Inr z \<and> money_ok z \<and>
      toMicro (amount x) = Inr p \<and> toMicro (amount y) = Inr q \<and> toMicro (amount z) = Inr (p + q)"
    by (auto simp: x_def y_def)
  moreover have "toMicro (amount x) = Inr 10500000" "toMicro (amount y) = Inr (- 500001)"
    unfolding x_def y_def by code_simp+
  ultimately have "\<exists>z. addMoney x y = Inr z \<and> money_ok z \<and> toMicro (amount z) = Inr 9999999" by auto
  then show ?thesis by (simp add: x_def y_def)
qed

end
