(* ===== verification/Engine_Base.thy ===== *)
theory Engine_Base
  imports Entity_Edges Lifecycle Money
begin

text \<open>
  What every engine module leans on: the seam parse of \<open>packages/contracts/src/seam.ts\<close>
  (\<open>returns\<close>), the transition guard as engines call it, \<open>INSERT\<close> under a primary key and
  unique columns, the running document number, and JSON renderings of the shared shapes.  A
  thrown SQLite constraint is a \<open>PlainError\<close>; of a seam failure the zod issue list is dropped
  from the message.
\<close>

definition returns :: "string \<Rightarrow> string \<Rightarrow> bool \<Rightarrow> 'v \<Rightarrow> 'v result" where
  "returns engine surface ok v =
     (if ok then Inr v
      else Inl (SubstratError Internal None
        (engine @ '': '' @ surface @ '' does not match the shape this engine publishes'')))"

definition insert_row :: "('r \<Rightarrow> 'r \<Rightarrow> bool) \<Rightarrow> 'r \<Rightarrow> 'r list \<Rightarrow> 'r list result" where
  "insert_row clash r rows =
     (if list_ex (clash r) rows then Inl (PlainError ''UNIQUE constraint failed'') else Inr (rows @ [r]))"

text \<open>\<open>SELECT COALESCE(MAX(number), 0) + 1\<close>.\<close>

definition next_number :: "int list \<Rightarrow> int" where
  "next_number ns = (if ns = [] then 0 else Max (set ns)) + 1"

definition check_transition ::
  "lifecycle_def \<Rightarrow> string \<Rightarrow> string \<Rightarrow> string \<Rightarrow> entity_ref \<Rightarrow> unit result" where
  "check_transition lc entity from operation ref =
     (case assertTransition lc entity from operation (Some ref) of
        Inl (e, _) \<Rightarrow> Inl e
      | Inr _ \<Rightarrow> Inr ())"

text \<open>A template string's rendering of a number.\<close>

definition show_int :: "int \<Rightarrow> string" where
  "show_int n = (if n < 0 then ''-'' @ show_nat (nat (- n)) else show_nat (nat n))"

definition json_money :: "money \<Rightarrow> json" where
  "json_money m = JObj [(''amount'', JStr (amount m)), (''currency'', JStr (currency m))]"

lemma returns_Inr [monad_simps]: "returns engine surface ok v = Inr w \<longleftrightarrow> ok \<and> w = v"
  by (auto simp: returns_def)

lemma insert_row_Inr [monad_simps]:
  "insert_row clash r rows = Inr rows' \<longleftrightarrow> \<not> list_ex (clash r) rows \<and> rows' = rows @ [r]"
  by (auto simp: insert_row_def)

lemma next_number_gt: "n \<in> set ns \<Longrightarrow> n < next_number ns"
proof -
  assume n: "n \<in> set ns"
  then have "n \<le> Max (set ns)" by simp
  with n show ?thesis by (auto simp: next_number_def)
qed

lemma check_transition_Inr: "check_transition lc entity from op ref = Inr u \<longleftrightarrow> transitionFor lc from op \<noteq> None"
proof (cases "transitionFor lc from op")
  case None
  then show ?thesis by (simp add: check_transition_def assertTransition_def)
next
  case (Some r)
  then show ?thesis by (cases r) (simp_all add: check_transition_def assertTransition_def)
qed

lemma check_transition_Inl:
  "check_transition lc entity from op ref = Inl e \<longleftrightarrow>
     transitionFor lc from op = None \<and> e = refusal_error lc entity from op"
proof (cases "transitionFor lc from op")
  case None
  then show ?thesis by (auto simp: check_transition_def assertTransition_def)
next
  case (Some r)
  then show ?thesis by (cases r) (simp_all add: check_transition_def assertTransition_def)
qed

section \<open>A consumer's own view of a payload\<close>

text \<open>
  The zod schemas a module reads an event payload with: a view answers the parsed value or
  nothing, and \<open>parse_as\<close> is \<open>schema.parse\<close>.  An object view ignores keys it does not name;
  \<open>z.number().int()\<close> admits safe integers.
\<close>

fun jprop :: "string \<Rightarrow> json \<Rightarrow> json option" where
  "jprop k (JObj kvs) = map_of kvs k"
| "jprop k _ = None"

definition z_prop :: "string \<Rightarrow> (json \<Rightarrow> 'v option) \<Rightarrow> json \<Rightarrow> 'v option" where
  "z_prop k view j = Option.bind (jprop k j) view"

fun z_string1 :: "json \<Rightarrow> string option" where
  "z_string1 (JStr s) = (if s \<noteq> [] then Some s else None)"
| "z_string1 _ = None"

definition MAX_SAFE_INTEGER :: int where
  "MAX_SAFE_INTEGER = 9007199254740991"

fun z_int :: "json \<Rightarrow> int option" where
  "z_int (JNum n) = (if \<bar>n\<bar> \<le> MAX_SAFE_INTEGER then Some n else None)"
| "z_int _ = None"

fun z_enum :: "string list \<Rightarrow> json \<Rightarrow> string option" where
  "z_enum vs (JStr s) = (if s \<in> set vs then Some s else None)"
| "z_enum vs _ = None"

fun z_array :: "(json \<Rightarrow> 'v option) \<Rightarrow> json \<Rightarrow> 'v list option" where
  "z_array view (JArr js) = those (map view js)"
| "z_array view _ = None"

definition z_entityRef :: "json \<Rightarrow> entity_ref option" where
  "z_entityRef j =
     Option.bind (z_prop ''entityType'' z_string1 j) (\<lambda>ty.
     Option.bind (z_prop ''entityId'' z_string1 j) (\<lambda>i. Some \<lparr>entityType = ty, entityId = i\<rparr>))"

definition z_money :: "json \<Rightarrow> money option" where
  "z_money j =
     Option.bind (z_prop ''amount'' z_string1 j) (\<lambda>am.
     Option.bind (z_prop ''currency'' z_string1 j) (\<lambda>c.
     if moneyAmount am \<and> currencyCode c then Some \<lparr>amount = am, currency = c\<rparr> else None))"

definition parse_as :: "string \<Rightarrow> (json \<Rightarrow> 'v option) \<Rightarrow> json \<Rightarrow> 'v result" where
  "parse_as schema view j = (case view j of Some v \<Rightarrow> Inr v | None \<Rightarrow> Inl (ZodError schema))"

lemma parse_as_Inr [monad_simps]: "parse_as schema view j = Inr v \<longleftrightarrow> view j = Some v"
  by (simp add: parse_as_def split: option.splits)

lemma z_prop_JObj [simp]: "z_prop k view (JObj kvs) = Option.bind (map_of kvs k) view"
  by (simp add: z_prop_def)

lemma money_amount_ne: "money_ok m \<Longrightarrow> amount m \<noteq> [] \<and> currency m \<noteq> []"
  by (auto simp: money_ok_def moneyAmount_def decimalString_def currencyCode_def Let_def startsWith_def)

text \<open>What a producer renders, a consumer's view reads back.\<close>

lemma z_money_json [simp]: "money_ok m \<Longrightarrow> z_money (json_money m) = Some m"
  using money_amount_ne [of m] by (simp add: z_money_def json_money_def money_ok_def)

lemma z_entityRef_json [simp]: "entityRef_ok e \<Longrightarrow> z_entityRef (json_ref e) = Some e"
  by (simp add: z_entityRef_def json_ref_def entityRef_ok_def)

lemma z_money_Some: "z_money j = Some m \<Longrightarrow> money_ok m"
  by (auto simp: z_money_def money_ok_def bind_eq_Some_conv split: if_splits)

lemma those_map:
  assumes "\<And>x. x \<in> set xs \<Longrightarrow> f (g x) = Some (h x)"
  shows "those (map f (map g xs)) = Some (map h xs)"
  using assms by (induction xs) auto

lemma those_Some: "those xs = Some ys \<Longrightarrow> y \<in> set ys \<Longrightarrow> Some y \<in> set xs"
  by (induction xs arbitrary: ys) (auto split: option.splits)

end
