(* ===== verification/Workorder.thy ===== *)
theory Workorder
  imports Engine_Base
begin

text \<open>
  The work-order engine, \<open>engines/workorder/src\<close>: its tables as a record extension of the
  scope, the in-scope functions a vertical composes by call (\<open>createWorkOrder\<close> to
  \<open>closeWorkOrder\<close>), the operation bindings that check a permission first, the declared
  lifecycle and the event payloads as JSON.  \<open>workorder/list\<close> is the kernel's page walk and is
  not modelled.

  The theory shows the status column follows the declared lifecycle (the interpretation
  \<open>wo\<close> of \<open>governed_store\<close>), reports are append-only and stop at completion, ids and
  numbers stay unique, completion totals are exact, and every binding checks first.
\<close>

section \<open>Rows, shapes, lifecycle\<close>

record order_row =
  o_id :: string
  o_number :: int
  o_facility_type :: string
  o_facility_id :: string
  o_customer_type :: string
  o_customer_id :: string
  o_kind :: string
  o_title :: string
  o_description :: "string option"
  o_status :: string
  o_assigned_to :: "string option"
  o_created_by :: string
  o_created_at :: string
  o_completed_at :: "string option"

record time_entry =
  t_id :: string
  t_order_id :: string
  t_technician :: string
  t_hours :: string
  t_note :: "string option"
  t_reported_at :: string

record material_line =
  m_id :: string
  m_order_id :: string
  m_article :: string
  m_qty :: string
  m_note :: "string option"
  m_reported_by :: string
  m_reported_at :: string

record wo_store = scope_store +
  wo_orders :: "order_row list"
  wo_time :: "time_entry list"
  wo_material :: "material_line list"

record billable_line =
  bl_article :: string
  bl_description :: string
  bl_qty :: string
  bl_unit :: string
  bl_unitPrice :: money
  bl_lineTotal :: money
  bl_sourceType :: string
  bl_sourceId :: string

definition billableLine :: "billable_line \<Rightarrow> bool" where
  "billableLine l \<longleftrightarrow>
     bl_article l \<noteq> [] \<and> bl_description l \<noteq> [] \<and> decimalString (bl_qty l) \<and> bl_unit l \<noteq> [] \<and>
     money_ok (bl_unitPrice l) \<and> money_ok (bl_lineTotal l) \<and>
     bl_sourceType l \<in> set [''time'', ''material''] \<and> bl_sourceId l \<noteq> []"

record work_order =
  w_id :: string
  w_number :: int
  w_facility :: entity_ref
  w_customer :: entity_ref
  w_kind :: string
  w_title :: string
  w_description :: "string option"
  w_status :: string
  w_assignedTo :: "string option"
  w_createdBy :: string
  w_createdAt :: string
  w_completedAt :: "string option"

definition workorder_statuses :: "string list" where
  "workorder_statuses = [''planned'', ''in_progress'', ''completed'', ''closed'']"

definition workorderLifecycle :: lifecycle_def where
  "workorderLifecycle =
     \<lparr>field = ''status'', initial = ''planned'',
      states =
        [(''planned'', \<lparr>on = [(''workorder/start'', ''in_progress'')],
            allow = [''workorder/assign'', ''workorder/report-time'', ''workorder/report-material''],
            extensible = False, terminal = False\<rparr>),
         (''in_progress'', \<lparr>on = [(''workorder/complete'', ''completed'')],
            allow = [''workorder/report-time'', ''workorder/report-material''],
            extensible = True, terminal = False\<rparr>),
         (''completed'', \<lparr>on = [(''workorder/close'', ''closed'')], allow = [],
            extensible = False, terminal = False\<rparr>),
         (''closed'', \<lparr>on = [], allow = [], extensible = False, terminal = True\<rparr>)]\<rparr>"

section \<open>Reads\<close>

definition toWorkOrder :: "order_row \<Rightarrow> work_order result" where
  "toWorkOrder r =
     (let w = \<lparr>w_id = o_id r, w_number = o_number r,
               w_facility = \<lparr>entityType = o_facility_type r, entityId = o_facility_id r\<rparr>,
               w_customer = \<lparr>entityType = o_customer_type r, entityId = o_customer_id r\<rparr>,
               w_kind = o_kind r, w_title = o_title r, w_description = o_description r,
               w_status = o_status r, w_assignedTo = o_assigned_to r, w_createdBy = o_created_by r,
               w_createdAt = o_created_at r, w_completedAt = o_completed_at r\<rparr> in
      returns ''engine-workorder'' (''work order '' @ o_id r)
        (entityRef_ok (w_facility w) \<and> entityRef_ok (w_customer w) \<and> w_status w \<in> set workorder_statuses) w)"

definition orderRef :: "string \<Rightarrow> entity_ref" where
  "orderRef i = \<lparr>entityType = ''workorder'', entityId = i\<rparr>"

definition getRow :: "string \<Rightarrow> 'a wo_store_scheme \<Rightarrow> order_row result" where
  "getRow i st =
     (case row_where (\<lambda>r. o_id r = i) (wo_orders st) of
        Some r \<Rightarrow> Inr r
      | None \<Rightarrow> Inl (SubstratError Not_Found None (''work order not found: '' @ i)))"

definition getWorkOrder :: "string \<Rightarrow> 'a wo_store_scheme \<Rightarrow> work_order result" where
  "getWorkOrder i st = bind_r (getRow i st) toWorkOrder"

definition getReportedLines :: "string \<Rightarrow> 'a wo_store_scheme \<Rightarrow> time_entry list \<times> material_line list" where
  "getReportedLines i st =
     (sort_key t_id (filter (\<lambda>e. t_order_id e = i) (wo_time st)),
      sort_key m_id (filter (\<lambda>l. m_order_id l = i) (wo_material st)))"

definition requireTransition :: "order_row \<Rightarrow> string \<Rightarrow> unit result" where
  "requireTransition r operation =
     check_transition workorderLifecycle (''work order '' @ show_int (o_number r)) (o_status r) operation
       (orderRef (o_id r))"

section \<open>Events\<close>

definition wo_event :: "string \<Rightarrow> string \<Rightarrow> (string option) \<Rightarrow> json \<Rightarrow> domain_event_input" where
  "wo_event ty i who payload =
     \<lparr>ev_type = ty, ev_schemaVersion = 1, ev_entity = orderRef i,
      ev_piiClass = (case who of None \<Rightarrow> PiiNone | Some _ \<Rightarrow> Pseudonymous), ev_subjectId = who,
      ev_payload = payload\<rparr>"

definition json_line :: "billable_line \<Rightarrow> json" where
  "json_line l = JObj
     [(''article'', JStr (bl_article l)), (''description'', JStr (bl_description l)),
      (''qty'', JStr (bl_qty l)), (''unit'', JStr (bl_unit l)),
      (''unitPrice'', json_money (bl_unitPrice l)), (''lineTotal'', json_money (bl_lineTotal l)),
      (''sourceType'', JStr (bl_sourceType l)), (''sourceId'', JStr (bl_sourceId l))]"

definition completed_payload :: "order_row \<Rightarrow> billable_line list \<Rightarrow> money \<Rightarrow> json" where
  "completed_payload r lines tot = JObj
     [(''orderId'', JStr (o_id r)), (''number'', JNum (o_number r)),
      (''facility'', json_ref \<lparr>entityType = o_facility_type r, entityId = o_facility_id r\<rparr>),
      (''customer'', json_ref \<lparr>entityType = o_customer_type r, entityId = o_customer_id r\<rparr>),
      (''billable'', JArr (map json_line lines)), (''total'', json_money tot)]"

section \<open>In-scope functions\<close>

record create_input =
  ci_facility :: entity_ref
  ci_customer :: entity_ref
  ci_kind :: string
  ci_title :: string
  ci_description :: "string option"

definition createWorkOrderInput :: "create_input \<Rightarrow> bool" where
  "createWorkOrderInput i \<longleftrightarrow>
     entityRef_ok (ci_facility i) \<and> entityRef_ok (ci_customer i) \<and> ci_kind i \<noteq> [] \<and> ci_title i \<noteq> []"

definition order_clash :: "order_row \<Rightarrow> order_row \<Rightarrow> bool" where
  "order_clash a b \<longleftrightarrow> o_id a = o_id b \<or> o_number a = o_number b"

definition published :: "string \<Rightarrow> 'a wo_store_scheme \<Rightarrow> (work_order \<times> 'a wo_store_scheme) result" where
  "published i st = bind_r (getRow i st) (\<lambda>r. bind_r (toWorkOrder r) (\<lambda>w. Inr (w, st)))"

definition new_order :: "op_ctx \<Rightarrow> string \<Rightarrow> int \<Rightarrow> create_input \<Rightarrow> order_row" where
  "new_order cx i number input =
     \<lparr>o_id = i, o_number = number,
      o_facility_type = entityType (ci_facility input), o_facility_id = entityId (ci_facility input),
      o_customer_type = entityType (ci_customer input), o_customer_id = entityId (ci_customer input),
      o_kind = ci_kind input, o_title = ci_title input, o_description = ci_description input,
      o_status = initial workorderLifecycle, o_assigned_to = None, o_created_by = cx_principal cx,
      o_created_at = cx_at cx, o_completed_at = None\<rparr>"

definition createWorkOrder ::
  "op_ctx \<Rightarrow> create_input \<Rightarrow> 'a wo_store_scheme \<Rightarrow> (work_order \<times> 'a wo_store_scheme) result" where
  "createWorkOrder cx input st =
     bind_r (guard_r (createWorkOrderInput input) (ZodError ''createWorkOrderInput'')) (\<lambda>_.
     let number = next_number (map o_number (wo_orders st)) in
     case ulid cx st of (i, st1) \<Rightarrow>
     bind_r (insert_row order_clash (new_order cx i number input) (wo_orders st1)) (\<lambda>rows.
     bind_r (link cx (orderRef i) (ci_facility input) (st1\<lparr>wo_orders := rows\<rparr>)) (\<lambda>st2.
     bind_r (emit cx (wo_event ''workorder.created'' i None
        (JObj [(''orderId'', JStr i), (''number'', JNum number), (''facility'', json_ref (ci_facility input)),
               (''customer'', json_ref (ci_customer input)), (''kind'', JStr (ci_kind input)),
               (''title'', JStr (ci_title input))])) st2) (\<lambda>st3.
       published i st3))))"

definition set_order :: "string \<Rightarrow> (order_row \<Rightarrow> order_row) \<Rightarrow> 'a wo_store_scheme \<Rightarrow> 'a wo_store_scheme" where
  "set_order i f st = st\<lparr>wo_orders := update_where (\<lambda>r. o_id r = i) f (wo_orders st)\<rparr>"

definition assignWorkOrder ::
  "op_ctx \<Rightarrow> string \<Rightarrow> string \<Rightarrow> 'a wo_store_scheme \<Rightarrow> (work_order \<times> 'a wo_store_scheme) result" where
  "assignWorkOrder cx orderId technician st =
     bind_r (guard_r (orderId \<noteq> [] \<and> technician \<noteq> []) (ZodError ''assignWorkOrderInput'')) (\<lambda>_.
     bind_r (getRow orderId st) (\<lambda>row.
     bind_r (requireTransition row ''workorder/assign'') (\<lambda>_.
     let st1 = set_order (o_id row) (\<lambda>r. r\<lparr>o_assigned_to := Some technician\<rparr>) st in
     bind_r (guard_r (ulid_pattern technician) (ZodError ''dataSubjectId'')) (\<lambda>_.
     bind_r (emit cx (wo_event ''workorder.assigned'' (o_id row) (Some technician)
        (JObj [(''orderId'', JStr (o_id row)), (''technician'', JStr technician)])) st1) (\<lambda>st2.
       published (o_id row) st2)))))"

definition startWorkOrder ::
  "op_ctx \<Rightarrow> string \<Rightarrow> 'a wo_store_scheme \<Rightarrow> (work_order \<times> 'a wo_store_scheme) result" where
  "startWorkOrder cx orderId st =
     bind_r (guard_r (orderId \<noteq> []) (ZodError ''startWorkOrderInput'')) (\<lambda>_.
     bind_r (getRow orderId st) (\<lambda>row.
     bind_r (requireTransition row ''workorder/start'') (\<lambda>_.
     let st1 = set_order (o_id row) (\<lambda>r. r\<lparr>o_status := ''in_progress''\<rparr>) st in
     bind_r (emit cx (wo_event ''workorder.started'' (o_id row) None
        (JObj [(''orderId'', JStr (o_id row))])) st1) (\<lambda>st2.
       published (o_id row) st2))))"

definition reportTime ::
  "op_ctx \<Rightarrow> string \<Rightarrow> string \<Rightarrow> string option \<Rightarrow> 'a wo_store_scheme \<Rightarrow> (time_entry \<times> 'a wo_store_scheme) result" where
  "reportTime cx orderId hours note st =
     bind_r (guard_r (orderId \<noteq> []) (ZodError ''reportTimeInput'')) (\<lambda>_.
     bind_r (guard_r (decimalString hours) (ZodError ''decimal'')) (\<lambda>_.
     bind_r (getRow orderId st) (\<lambda>row.
     bind_r (requireTransition row ''workorder/report-time'') (\<lambda>_.
     case ulid cx st of (i, st1) \<Rightarrow>
     let entry = \<lparr>t_id = i, t_order_id = o_id row, t_technician = cx_principal cx, t_hours = hours,
                  t_note = note, t_reported_at = cx_at cx\<rparr> in
     bind_r (insert_row (\<lambda>a b. t_id a = t_id b) entry (wo_time st1)) (\<lambda>rows.
     bind_r (guard_r (ulid_pattern (cx_principal cx)) (ZodError ''dataSubjectId'')) (\<lambda>_.
     bind_r (emit cx (wo_event ''workorder.time-reported'' (o_id row) (Some (cx_principal cx))
        (JObj [(''orderId'', JStr (o_id row)), (''entryId'', JStr i), (''hours'', JStr hours)]))
        (st1\<lparr>wo_time := rows\<rparr>)) (\<lambda>st2.
       Inr (entry, st2))))))))"

definition reportMaterial ::
  "op_ctx \<Rightarrow> string \<Rightarrow> string \<Rightarrow> string \<Rightarrow> string option \<Rightarrow> 'a wo_store_scheme \<Rightarrow>
   (material_line \<times> 'a wo_store_scheme) result" where
  "reportMaterial cx orderId article qty note st =
     bind_r (guard_r (orderId \<noteq> []) (ZodError ''reportMaterialInput'')) (\<lambda>_.
     bind_r (guard_r (decimalString qty) (ZodError ''decimal'')) (\<lambda>_.
     bind_r (getRow orderId st) (\<lambda>row.
     bind_r (requireTransition row ''workorder/report-material'') (\<lambda>_.
     case ulid cx st of (i, st1) \<Rightarrow>
     let line = \<lparr>m_id = i, m_order_id = o_id row, m_article = article, m_qty = qty, m_note = note,
                 m_reported_by = cx_principal cx, m_reported_at = cx_at cx\<rparr> in
     bind_r (insert_row (\<lambda>a b. m_id a = m_id b) line (wo_material st1)) (\<lambda>rows.
     bind_r (emit cx (wo_event ''workorder.material-reported'' (o_id row) None
        (JObj [(''orderId'', JStr (o_id row)), (''lineId'', JStr i), (''article'', JStr article),
               (''qty'', JStr qty)])) (st1\<lparr>wo_material := rows\<rparr>)) (\<lambda>st2.
       Inr (line, st2)))))))"

text \<open>\<open>billable.reduce((sum, line) => addMoney(sum, line.lineTotal), zero)\<close>.\<close>

fun sum_lines :: "money \<Rightarrow> billable_line list \<Rightarrow> money result" where
  "sum_lines acc [] = Inr acc"
| "sum_lines acc (l # ls) = bind_r (addMoney acc (bl_lineTotal l)) (\<lambda>acc'. sum_lines acc' ls)"

definition completion_total :: "billable_line list \<Rightarrow> string option \<Rightarrow> money result" where
  "completion_total billable declared =
     (let lineCurrency = (case billable of [] \<Rightarrow> None | l # _ \<Rightarrow> Some (currency (bl_lineTotal l))) in
      case (declared, lineCurrency) of
        (Some d, Some c) \<Rightarrow>
          if d \<noteq> c
          then Inl (SubstratError Validation_Failed None
                 (''currency mismatch: declared '' @ d @ '', billable lines are in '' @ c))
          else bind_r (moneyOf ''0'' c) (\<lambda>z. sum_lines z billable)
      | (_, Some c) \<Rightarrow> bind_r (moneyOf ''0'' c) (\<lambda>z. sum_lines z billable)
      | (Some d, None) \<Rightarrow> bind_r (moneyOf ''0'' d) (\<lambda>z. sum_lines z billable)
      | (None, None) \<Rightarrow> bind_r (moneyOf ''0'' ''SEK'') (\<lambda>z. sum_lines z billable))"

definition completeWorkOrder ::
  "op_ctx \<Rightarrow> string \<Rightarrow> billable_line list \<Rightarrow> string option \<Rightarrow> 'a wo_store_scheme \<Rightarrow>
   ((work_order \<times> money) \<times> 'a wo_store_scheme) result" where
  "completeWorkOrder cx orderId billable cur st =
     bind_r (getRow orderId st) (\<lambda>row.
     bind_r (requireTransition row ''workorder/complete'') (\<lambda>_.
     bind_r (guard_r (list_all billableLine billable) (ZodError ''billableLine'')) (\<lambda>_.
     bind_r (guard_r (case cur of None \<Rightarrow> True | Some c \<Rightarrow> currencyCode c) (ZodError ''currencyCode'')) (\<lambda>_.
     bind_r (completion_total billable cur) (\<lambda>total.
     let st1 = set_order (o_id row)
                 (\<lambda>r. r\<lparr>o_status := ''completed'', o_completed_at := Some (cx_at cx)\<rparr>) st in
     bind_r (emit cx (wo_event ''workorder.completed'' (o_id row) None
        (completed_payload row billable total)) st1) (\<lambda>st2.
     bind_r (published (o_id row) st2) (\<lambda>(w, st3).
     bind_r (returns ''engine-workorder'' ''completion total'' (money_ok total) total) (\<lambda>m.
       Inr ((w, m), st3)))))))))"

definition closeWorkOrder ::
  "op_ctx \<Rightarrow> string \<Rightarrow> 'a wo_store_scheme \<Rightarrow> (work_order \<times> 'a wo_store_scheme) result" where
  "closeWorkOrder cx orderId st =
     bind_r (getRow orderId st) (\<lambda>row.
     bind_r (requireTransition row ''workorder/close'') (\<lambda>_.
     let st1 = set_order (o_id row) (\<lambda>r. r\<lparr>o_status := ''closed''\<rparr>) st in
     bind_r (emit cx (wo_event ''workorder.closed'' (o_id row) None
        (JObj [(''orderId'', JStr (o_id row))])) st1) (\<lambda>st2.
       published (o_id row) st2)))"

section \<open>Operation bindings\<close>

definition getOp ::
  "op_ctx \<Rightarrow> string \<Rightarrow> 'a wo_store_scheme \<Rightarrow>
   ((work_order \<times> time_entry list \<times> material_line list) \<times> 'a wo_store_scheme) result" where
  "getOp cx orderId st =
     bind_r (require cx ''workorder:read'' (Some (orderRef orderId)) st) (\<lambda>st1.
     bind_r (getWorkOrder orderId st1) (\<lambda>w. Inr ((w, getReportedLines orderId st1), st1)))"

definition assignOp where
  "assignOp cx orderId technician st =
     bind_r (require cx ''workorder:assign'' None st) (assignWorkOrder cx orderId technician)"

definition startOp where
  "startOp cx orderId st = bind_r (require cx ''workorder:report'' None st) (startWorkOrder cx orderId)"

definition reportTimeOp where
  "reportTimeOp cx orderId hours note st =
     bind_r (require cx ''workorder:report'' None st) (reportTime cx orderId hours note)"

definition reportMaterialOp where
  "reportMaterialOp cx orderId article qty note st =
     bind_r (require cx ''workorder:report'' None st) (reportMaterial cx orderId article qty note)"

definition completeOp where
  "completeOp cx orderId billable cur st =
     bind_r (require cx ''workorder:complete'' None st) (completeWorkOrder cx orderId billable cur)"

definition closeOp where
  "closeOp cx orderId st = bind_r (require cx ''workorder:close'' None st) (closeWorkOrder cx orderId)"

section \<open>What each function changes\<close>

lemma more_tables:
  fixes st st' :: "'a wo_store_scheme"
  assumes "scope_store.more st' = scope_store.more st"
  shows "wo_orders st' = wo_orders st" and "wo_time st' = wo_time st" and "wo_material st' = wo_material st"
  using assms by (cases st, cases st', simp)+

lemma emit_tables:
  fixes st st' :: "'a wo_store_scheme"
  assumes "emit cx ev st = Inr st'"
  shows "wo_orders st' = wo_orders st" and "wo_time st' = wo_time st" and "wo_material st' = wo_material st"
  using more_tables [OF emit_Inr(3) [OF assms]] by simp_all

lemma link_tables:
  fixes st st' :: "'a wo_store_scheme"
  assumes "link cx c p st = Inr st'"
  shows "wo_orders st' = wo_orders st" and "wo_time st' = wo_time st" and "wo_material st' = wo_material st"
  using more_tables [OF link_Inr(5) [OF assms]] by simp_all

lemma require_tables:
  fixes st st' :: "'a wo_store_scheme"
  assumes "require cx p e st = Inr st'"
  shows "wo_orders st' = wo_orders st" and "wo_time st' = wo_time st" and "wo_material st' = wo_material st"
  using more_tables [OF require_Inr(4) [OF assms]] by simp_all

lemma published_Inr: "published i st = Inr (w, st') \<longleftrightarrow> st' = st \<and> getWorkOrder i st = Inr w"
  by (auto simp: published_def getWorkOrder_def bind_r_Inr_iff)

lemma getRow_Inr: "getRow i st = Inr r \<Longrightarrow> row_where (\<lambda>x. o_id x = o_id r) (wo_orders st) = Some r"
  by (auto simp: getRow_def dest: row_where_SomeD split: option.splits)

lemma requireTransition_Inr:
  "requireTransition r op = Inr u \<longleftrightarrow> transitionFor workorderLifecycle (o_status r) op \<noteq> None"
  by (simp add: requireTransition_def check_transition_Inr)

text \<open>
  One committed call, as the tables see it: a birth, an update of one governed order's row, a
  report against one order in a reporting state, or nothing.
\<close>

inductive table_step :: "'a wo_store_scheme \<Rightarrow> 'a wo_store_scheme \<Rightarrow> bool" where
  born: "\<lbrakk>wo_orders st' = wo_orders st @ [r]; o_status r = ''planned''; o_completed_at r = None;
      \<not> list_ex (order_clash r) (wo_orders st);
      wo_time st' = wo_time st; wo_material st' = wo_material st\<rbrakk> \<Longrightarrow> table_step st st'"
| moved: "\<lbrakk>row_where (\<lambda>r. o_id r = o_id r0) (wo_orders st) = Some r0;
      wo_orders st' = update_where (\<lambda>r. o_id r = o_id r0) f (wo_orders st);
      \<And>r. o_id (f r) = o_id r \<and> o_number (f r) = o_number r;
      transitionFor workorderLifecycle (o_status r0) op \<noteq> None;
      \<And>b. transitionFor workorderLifecycle (o_status r0) op = Some (Transition b) \<Longrightarrow> o_status (f r0) = b;
      transitionFor workorderLifecycle (o_status r0) op = Some AllowedHere \<Longrightarrow> o_status (f r0) = o_status r0;
      o_status (f r0) = ''completed'' \<Longrightarrow> o_completed_at (f r0) \<noteq> None;
      o_status (f r0) \<noteq> ''completed'' \<Longrightarrow> o_completed_at (f r0) = o_completed_at r0;
      wo_time st' = wo_time st; wo_material st' = wo_material st\<rbrakk> \<Longrightarrow> table_step st st'"
| timed: "\<lbrakk>row_where (\<lambda>r. o_id r = o_id r0) (wo_orders st) = Some r0; transitionFor workorderLifecycle (o_status r0) ''workorder/report-time'' \<noteq> None;
      t_order_id e = o_id r0; \<not> list_ex (\<lambda>b. t_id e = t_id b) (wo_time st);
      wo_orders st' = wo_orders st; wo_time st' = wo_time st @ [e]; wo_material st' = wo_material st\<rbrakk>
      \<Longrightarrow> table_step st st'"
| supplied: "\<lbrakk>row_where (\<lambda>r. o_id r = o_id r0) (wo_orders st) = Some r0; transitionFor workorderLifecycle (o_status r0) ''workorder/report-material'' \<noteq> None;
      m_order_id l = o_id r0; \<not> list_ex (\<lambda>b. m_id l = m_id b) (wo_material st);
      wo_orders st' = wo_orders st; wo_time st' = wo_time st; wo_material st' = wo_material st @ [l]\<rbrakk>
      \<Longrightarrow> table_step st st'"
| untouched: "\<lbrakk>wo_orders st' = wo_orders st; wo_time st' = wo_time st; wo_material st' = wo_material st\<rbrakk>
      \<Longrightarrow> table_step st st'"

lemma createWorkOrder_Inr:
  assumes "createWorkOrder cx input st = Inr (w, st')"
  obtains i st1 rows st2 ev r where "ulid cx st = (i, st1)"
    "r = new_order cx i (next_number (map o_number (wo_orders st))) input"
    "\<not> list_ex (order_clash r) (wo_orders st)" "rows = wo_orders st @ [r]"
    "link cx (orderRef i) (ci_facility input) (st1\<lparr>wo_orders := rows\<rparr>) = Inr st2"
    "emit cx ev st2 = Inr st'" "getWorkOrder i st' = Inr w" "createWorkOrderInput input"
proof -
  obtain i st1 where u: "ulid cx st = (i, st1)" by force
  then have "wo_orders st1 = wo_orders st" by (auto simp: ulid_def)
  with assms that [OF u] show thesis
    unfolding createWorkOrder_def u Let_def prod.case bind_r_Inr_iff published_Inr insert_row_Inr guard_r_Inr_iff
    by (elim exE conjE) simp
qed

lemma createWorkOrder_step:
  assumes "createWorkOrder cx input st = Inr (w, st')"
  shows "table_step st st'"
  using createWorkOrder_Inr [OF assms]
proof cases
  case (1 i st1 rows st2 ev r)
  have "o_status r = ''planned''" "o_completed_at r = None"
    by (simp_all add: 1(2) new_order_def workorderLifecycle_def)
  moreover have "wo_time st1 = wo_time st" "wo_material st1 = wo_material st"
    using 1(1) by (auto simp: ulid_def)
  ultimately show ?thesis
    using 1 link_tables [OF 1(5)] emit_tables [OF 1(6)] by (intro table_step.born [of _ _ r]) simp_all
qed

lemma set_order_tables [simp]:
  "wo_orders (set_order i f st) = update_where (\<lambda>r. o_id r = i) f (wo_orders st)"
  "wo_time (set_order i f st) = wo_time st" "wo_material (set_order i f st) = wo_material st"
  by (simp_all add: set_order_def)

lemma moved_by:
  assumes "getRow i st = Inr row" and "requireTransition row op = Inr u"
    and "emit cx ev (set_order (o_id row) f st) = Inr st'"
    and "\<And>r. o_id (f r) = o_id r \<and> o_number (f r) = o_number r"
    and "\<And>b. transitionFor workorderLifecycle (o_status row) op = Some (Transition b) \<Longrightarrow> o_status (f row) = b"
    and "transitionFor workorderLifecycle (o_status row) op = Some AllowedHere \<Longrightarrow> o_status (f row) = o_status row"
    and "o_status (f row) = ''completed'' \<Longrightarrow> o_completed_at (f row) \<noteq> None"
    and "o_status (f row) \<noteq> ''completed'' \<Longrightarrow> o_completed_at (f row) = o_completed_at row"
  shows "table_step st st'"
  using getRow_Inr [OF assms(1)] assms(2) emit_tables [OF assms(3)] assms(4-)
  by (intro table_step.moved [of row st st' f op]) (simp_all add: requireTransition_Inr)

text \<open>What each operation does from each state, read off the declaration.\<close>

lemma wo_edges:
  "transitionFor workorderLifecycle s ''workorder/assign'' = (if s = ''planned'' then Some AllowedHere else None)"
  "transitionFor workorderLifecycle s ''workorder/start'' =
     (if s = ''planned'' then Some (Transition ''in_progress'') else None)"
  "transitionFor workorderLifecycle s ''workorder/complete'' =
     (if s = ''in_progress'' then Some (Transition ''completed'') else None)"
  "transitionFor workorderLifecycle s ''workorder/close'' =
     (if s = ''completed'' then Some (Transition ''closed'') else None)"
  "transitionFor workorderLifecycle s ''workorder/report-time'' =
     (if s = ''planned'' \<or> s = ''in_progress'' then Some AllowedHere else None)"
  "transitionFor workorderLifecycle s ''workorder/report-material'' =
     (if s = ''planned'' \<or> s = ''in_progress'' then Some AllowedHere else None)"
  by (simp_all add: transitionFor_def workorderLifecycle_def)

lemma assignWorkOrder_step:
  assumes "assignWorkOrder cx i who st = Inr (w, st')"
  shows "table_step st st'"
proof -
  let ?f = "\<lambda>r. r\<lparr>o_assigned_to := Some who\<rparr> :: order_row"
  from assms obtain row u ev where get: "getRow i st = Inr row"
    and tr: "requireTransition row ''workorder/assign'' = Inr u"
    and em: "emit cx ev (set_order (o_id row) ?f st) = Inr st'"
    unfolding assignWorkOrder_def Let_def bind_r_Inr_iff published_Inr by blast
  show ?thesis
    by (rule moved_by [OF get tr em]) (use tr in \<open>auto simp: wo_edges requireTransition_Inr split: if_splits\<close>)
qed

lemma startWorkOrder_step:
  assumes "startWorkOrder cx i st = Inr (w, st')"
  shows "table_step st st'"
proof -
  let ?f = "\<lambda>r. r\<lparr>o_status := ''in_progress''\<rparr> :: order_row"
  from assms obtain row u ev where get: "getRow i st = Inr row"
    and tr: "requireTransition row ''workorder/start'' = Inr u"
    and em: "emit cx ev (set_order (o_id row) ?f st) = Inr st'"
    unfolding startWorkOrder_def Let_def bind_r_Inr_iff published_Inr by blast
  show ?thesis by (rule moved_by [OF get tr em]) (auto simp: wo_edges split: if_splits)
qed

lemma closeWorkOrder_step:
  assumes "closeWorkOrder cx i st = Inr (w, st')"
  shows "table_step st st'"
proof -
  let ?f = "\<lambda>r. r\<lparr>o_status := ''closed''\<rparr> :: order_row"
  from assms obtain row u ev where get: "getRow i st = Inr row"
    and tr: "requireTransition row ''workorder/close'' = Inr u"
    and em: "emit cx ev (set_order (o_id row) ?f st) = Inr st'"
    unfolding closeWorkOrder_def Let_def bind_r_Inr_iff published_Inr by blast
  show ?thesis by (rule moved_by [OF get tr em]) (auto simp: wo_edges split: if_splits)
qed

lemma completeWorkOrder_Inr:
  assumes "completeWorkOrder cx i billable cur st = Inr ((w, m), st')"
  obtains row where "getRow i st = Inr row" "requireTransition row ''workorder/complete'' = Inr ()"
    "list_all billableLine billable" "completion_total billable cur = Inr m" "money_ok m"
    "emit cx (wo_event ''workorder.completed'' (o_id row) None (completed_payload row billable m))
       (set_order (o_id row) (\<lambda>r. r\<lparr>o_status := ''completed'', o_completed_at := Some (cx_at cx)\<rparr>) st) = Inr st'"
    "getWorkOrder (o_id row) st' = Inr w"
  using assms
  unfolding completeWorkOrder_def Let_def bind_r_Inr_iff guard_r_Inr_iff
  by (elim exE conjE) (auto simp: published_Inr returns_Inr bind_r_Inr_iff)

lemma completeWorkOrder_step:
  assumes "completeWorkOrder cx i billable cur st = Inr (r, st')"
  shows "table_step st st'"
proof -
  obtain w m where "r = (w, m)" by force
  with assms have "completeWorkOrder cx i billable cur st = Inr ((w, m), st')" by simp
  then show ?thesis
  proof (rule completeWorkOrder_Inr)
    fix row
    assume get: "getRow i st = Inr row" and tr: "requireTransition row ''workorder/complete'' = Inr ()"
      and em: "emit cx (wo_event ''workorder.completed'' (o_id row) None (completed_payload row billable m))
       (set_order (o_id row) (\<lambda>r. r\<lparr>o_status := ''completed'', o_completed_at := Some (cx_at cx)\<rparr>) st) = Inr st'"
    show ?thesis by (rule moved_by [OF get tr em]) (auto simp: wo_edges split: if_splits)
  qed
qed

lemma reportTime_step:
  assumes "reportTime cx i hours note st = Inr (e, st')"
  shows "table_step st st'"
proof -
  obtain k st1 where u: "ulid cx st = (k, st1)" by force
  then have t1: "wo_orders st1 = wo_orders st" "wo_time st1 = wo_time st" "wo_material st1 = wo_material st"
    by (auto simp: ulid_def)
  from assms obtain row x ev where get: "getRow i st = Inr row"
    and tr: "requireTransition row ''workorder/report-time'' = Inr x" and e: "t_order_id e = o_id row"
    and ins: "\<not> list_ex (\<lambda>b. t_id e = t_id b) (wo_time st1)"
    and em: "emit cx ev (st1\<lparr>wo_time := wo_time st1 @ [e]\<rparr>) = Inr st'"
    unfolding reportTime_def Let_def u prod.case bind_r_Inr_iff insert_row_Inr by force
  show ?thesis
    using getRow_Inr [OF get] tr e ins t1 emit_tables [OF em]
    by (intro table_step.timed [of row st e]) (simp_all add: requireTransition_Inr)
qed

lemma reportMaterial_step:
  assumes "reportMaterial cx i article qty note st = Inr (l, st')"
  shows "table_step st st'"
proof -
  obtain k st1 where u: "ulid cx st = (k, st1)" by force
  then have t1: "wo_orders st1 = wo_orders st" "wo_time st1 = wo_time st" "wo_material st1 = wo_material st"
    by (auto simp: ulid_def)
  from assms obtain row x ev where get: "getRow i st = Inr row"
    and tr: "requireTransition row ''workorder/report-material'' = Inr x" and l: "m_order_id l = o_id row"
    and ins: "\<not> list_ex (\<lambda>b. m_id l = m_id b) (wo_material st1)"
    and em: "emit cx ev (st1\<lparr>wo_material := wo_material st1 @ [l]\<rparr>) = Inr st'"
    unfolding reportMaterial_def Let_def u prod.case bind_r_Inr_iff insert_row_Inr by force
  show ?thesis
    using getRow_Inr [OF get] tr l ins t1 emit_tables [OF em]
    by (intro table_step.supplied [of row st l]) (simp_all add: requireTransition_Inr)
qed

lemma require_step: "require cx p e st = Inr st' \<Longrightarrow> table_step st st'"
  using require_tables by (intro table_step.untouched)

section \<open>The engine as a store governed by its lifecycle\<close>

text \<open>One committed call of the engine: an in-scope function, or the check a binding makes first.\<close>

inductive wo_step :: "'a wo_store_scheme \<Rightarrow> 'a wo_store_scheme \<Rightarrow> bool" where
  s_create: "createWorkOrder cx input st = Inr (w, st') \<Longrightarrow> wo_step st st'"
| s_assign: "assignWorkOrder cx i who st = Inr (w, st') \<Longrightarrow> wo_step st st'"
| s_start: "startWorkOrder cx i st = Inr (w, st') \<Longrightarrow> wo_step st st'"
| s_time: "reportTime cx i hours note st = Inr (e, st') \<Longrightarrow> wo_step st st'"
| s_material: "reportMaterial cx i article qty note st = Inr (l, st') \<Longrightarrow> wo_step st st'"
| s_complete: "completeWorkOrder cx i billable cur st = Inr (x, st') \<Longrightarrow> wo_step st st'"
| s_close: "closeWorkOrder cx i st = Inr (w, st') \<Longrightarrow> wo_step st st'"
| s_check: "require cx p e st = Inr st' \<Longrightarrow> wo_step st st'"

lemma wo_step_table: "wo_step st st' \<Longrightarrow> table_step st st'"
  by (induction rule: wo_step.induct)
    (blast intro: createWorkOrder_step assignWorkOrder_step startWorkOrder_step reportTime_step
      reportMaterial_step completeWorkOrder_step closeWorkOrder_step require_step)+

definition order_status :: "'a wo_store_scheme \<Rightarrow> string \<Rightarrow> string option" where
  "order_status st i = map_option o_status (row_where (\<lambda>r. o_id r = i) (wo_orders st))"

lemma table_step_born:
  assumes "table_step st st'" and "order_status st i = None" and "order_status st' i = Some a"
  shows "a = initial workorderLifecycle"
  using assms
proof (induction rule: table_step.induct)
  case (born st' st r)
  then show ?case
    by (auto simp: order_status_def row_where_append workorderLifecycle_def split: option.splits if_splits)
next
  case (moved r0 st st' f op)
  have "row_where (\<lambda>r. o_id r = i) (wo_orders st') =
      map_option (\<lambda>r. if o_id r = o_id r0 then f r else r) (row_where (\<lambda>r. o_id r = i) (wo_orders st))"
    unfolding moved(2) using moved(3) by (intro row_where_update_where) auto
  with moved show ?case by (simp add: order_status_def)
qed (simp_all add: order_status_def)

lemma table_step_moves:
  assumes "table_step st st'" and "order_status st i = Some a"
  shows "\<exists>b. order_status st' i = Some b \<and>
    (b = a \<or> (\<exists>op. transitionFor workorderLifecycle a op = Some (Transition b)))"
  using assms
proof (induction rule: table_step.induct)
  case (born st' st r)
  then show ?case by (auto simp: order_status_def row_where_append)
next
  case (moved r0 st st' f op)
  have upd: "row_where (\<lambda>r. o_id r = i) (wo_orders st') =
      map_option (\<lambda>r. if o_id r = o_id r0 then f r else r) (row_where (\<lambda>r. o_id r = i) (wo_orders st))"
    unfolding moved(2) using moved(3) by (intro row_where_update_where) auto
  from moved(11) obtain r where r: "row_where (\<lambda>r. o_id r = i) (wo_orders st) = Some r" "o_status r = a"
    by (auto simp: order_status_def)
  show ?case
  proof (cases "i = o_id r0")
    case False
    with r upd show ?thesis by (auto simp: order_status_def dest: row_where_SomeD)
  next
    case True
    with r moved(1) have "r = r0" by simp
    then have new: "order_status st' i = Some (o_status (f r0))"
      using r upd True by (simp add: order_status_def)
    from moved(4) obtain oc where "transitionFor workorderLifecycle (o_status r0) op = Some oc" by blast
    with moved(5,6) r(2) \<open>r = r0\<close> new show ?thesis by (cases oc) auto
  qed
qed (auto simp: order_status_def)

lemma workorder_coherent: "coherent workorderLifecycle"
  by (simp add: coherent_def state_coherent_def workorderLifecycle_def state_names_def)

interpretation wo: governed_store workorderLifecycle order_status wo_step
proof
  show "coherent workorderLifecycle" by (rule workorder_coherent)
  show "a = initial workorderLifecycle"
    if "wo_step s s'" "order_status s i = None" "order_status s' i = Some a" for s s' :: "'a wo_store_scheme" and i a
    using wo_step_table [OF that(1)] that(2,3) by (rule table_step_born)
  show "\<exists>b. order_status s' i = Some b \<and> (b = a \<or> (\<exists>op. transitionFor workorderLifecycle a op = Some (Transition b)))"
    if "wo_step s s'" "order_status s i = Some a" for s s' :: "'a wo_store_scheme" and i a
    using wo_step_table [OF that(1)] that(2) by (rule table_step_moves)
qed

section \<open>Invariants of the tables\<close>

text \<open>
  Ids and numbers are unique, every status is declared, a row says when it was completed exactly
  from completion on, and every report names an order.
\<close>

definition wo_inv :: "'a wo_store_scheme \<Rightarrow> bool" where
  "wo_inv st \<longleftrightarrow>
     distinct (map o_id (wo_orders st)) \<and> distinct (map o_number (wo_orders st)) \<and>
     (\<forall>r \<in> set (wo_orders st). o_status r \<in> set workorder_statuses \<and>
        (o_completed_at r \<noteq> None \<longleftrightarrow> o_status r \<in> set [''completed'', ''closed''])) \<and>
     distinct (map t_id (wo_time st)) \<and> distinct (map m_id (wo_material st)) \<and>
     set (map t_order_id (wo_time st)) \<union> set (map m_order_id (wo_material st)) \<subseteq> set (map o_id (wo_orders st))"

lemma edge_cases:
  assumes "transitionFor workorderLifecycle a op = Some (Transition b)"
  shows "(a, b) \<in> {(''planned'', ''in_progress''), (''in_progress'', ''completed''), (''completed'', ''closed'')}"
  using assms by (auto simp: transitionFor_def workorderLifecycle_def split: if_splits)

lemma moved_row_ok:
  assumes "transitionFor workorderLifecycle (o_status r0) op \<noteq> None"
    and "\<And>b. transitionFor workorderLifecycle (o_status r0) op = Some (Transition b) \<Longrightarrow> o_status (f r0) = b"
    and "transitionFor workorderLifecycle (o_status r0) op = Some AllowedHere \<Longrightarrow> o_status (f r0) = o_status r0"
    and "o_status (f r0) = ''completed'' \<Longrightarrow> o_completed_at (f r0) \<noteq> None"
    and "o_status (f r0) \<noteq> ''completed'' \<Longrightarrow> o_completed_at (f r0) = o_completed_at r0"
    and "o_status r0 \<in> set workorder_statuses"
    and "o_completed_at r0 \<noteq> None \<longleftrightarrow> o_status r0 \<in> set [''completed'', ''closed'']"
  shows "o_status (f r0) \<in> set workorder_statuses \<and>
    (o_completed_at (f r0) \<noteq> None \<longleftrightarrow> o_status (f r0) \<in> set [''completed'', ''closed''])"
proof -
  from assms(1) obtain oc where oc: "transitionFor workorderLifecycle (o_status r0) op = Some oc" by blast
  show ?thesis
  proof (cases oc)
    case (Transition b)
    with oc edge_cases have "(o_status r0, b) \<in>
      {(''planned'', ''in_progress''), (''in_progress'', ''completed''), (''completed'', ''closed'')}" by blast
    moreover from oc Transition assms(2) have "o_status (f r0) = b" by blast
    ultimately show ?thesis using assms(4,5,7) by (auto simp: workorder_statuses_def)
  next
    case AllowedHere
    with oc assms(3) have "o_status (f r0) = o_status r0" by blast
    with assms(4-7) show ?thesis by (cases "o_status r0 = ''completed''") simp_all
  qed
qed

lemma wo_inv_fields:
  assumes "wo_inv st"
  shows "distinct (map o_id (wo_orders st))" and "distinct (map o_number (wo_orders st))"
    and "\<And>r. r \<in> set (wo_orders st) \<Longrightarrow> o_status r \<in> set workorder_statuses"
    and "\<And>r. r \<in> set (wo_orders st) \<Longrightarrow> o_completed_at r \<noteq> None \<longleftrightarrow> o_status r \<in> set [''completed'', ''closed'']"
    and "distinct (map t_id (wo_time st))" and "distinct (map m_id (wo_material st))"
    and "set (map t_order_id (wo_time st)) \<union> set (map m_order_id (wo_material st)) \<subseteq> set (map o_id (wo_orders st))"
  using assms unfolding wo_inv_def by blast+

lemma unique_id_row:
  assumes "distinct (map o_id rows)" and "r \<in> set rows" and "r' \<in> set rows" and "o_id r = o_id r'"
  shows "r = r'"
  using assms by (meson distinct_map inj_onD)

lemma table_step_inv: "table_step st st' \<Longrightarrow> wo_inv st \<Longrightarrow> wo_inv st'"
proof (induction rule: table_step.induct)
  case (born st' st r)
  note inv = wo_inv_fields [OF born(7)]
  from born(4) have "o_id r \<notin> set (map o_id (wo_orders st))" "o_number r \<notin> set (map o_number (wo_orders st))"
    by (auto simp: order_clash_def list_ex_iff)
  then show ?case unfolding wo_inv_def using born inv by (auto simp: workorder_statuses_def)
next
  case (moved r0 st st' f op)
  note inv = wo_inv_fields [OF moved(11)]
  have r0: "r0 \<in> set (wo_orders st)" using moved(1) by (auto dest: row_where_SomeD)
  have ok: "o_status (f r0) \<in> set workorder_statuses \<and>
      (o_completed_at (f r0) \<noteq> None \<longleftrightarrow> o_status (f r0) \<in> set [''completed'', ''closed''])"
    using moved(4-8) inv(3,4) [OF r0] by (rule moved_row_ok)
  have keys: "map o_id (wo_orders st') = map o_id (wo_orders st)"
    "map o_number (wo_orders st') = map o_number (wo_orders st)"
    unfolding moved(2) using moved(3) by (auto intro: map_update_where)
  have "o_status r \<in> set workorder_statuses \<and> (o_completed_at r \<noteq> None \<longleftrightarrow> o_status r \<in> set [''completed'', ''closed''])"
    if "r \<in> set (wo_orders st')" for r
    using that unfolding moved(2)
  proof (rule in_update_whereE)
    fix r1 assume "r1 \<in> set (wo_orders st)" "o_id r1 = o_id r0" "r = f r1"
    with unique_id_row [OF inv(1) _ r0] ok show ?thesis by blast
  next
    assume "r \<in> set (wo_orders st)"
    with inv(3,4) show ?thesis by blast
  qed
  then show ?case unfolding wo_inv_def keys moved(9,10) using inv by blast
next
  case (timed r0 st e st')
  note inv = wo_inv_fields [OF timed(8)]
  have "r0 \<in> set (wo_orders st)" using timed(1) by (auto dest: row_where_SomeD)
  moreover have "t_id e \<notin> set (map t_id (wo_time st))" using timed(4) by (auto simp: list_ex_iff)
  ultimately show ?case unfolding wo_inv_def timed(5-7) using inv timed(3) by auto
next
  case (supplied r0 st l st')
  note inv = wo_inv_fields [OF supplied(8)]
  have "r0 \<in> set (wo_orders st)" using supplied(1) by (auto dest: row_where_SomeD)
  moreover have "m_id l \<notin> set (map m_id (wo_material st))" using supplied(4) by (auto simp: list_ex_iff)
  ultimately show ?case unfolding wo_inv_def supplied(5-7) using inv supplied(3) by auto
next
  case (untouched st' st)
  then show ?case by (simp add: wo_inv_def)
qed

section \<open>Totals\<close>

definition one_currency :: "string \<Rightarrow> billable_line list \<Rightarrow> bool" where
  "one_currency c lines \<longleftrightarrow> (\<forall>l \<in> set lines. currency (bl_lineTotal l) = c)"

lemma sum_lines_money: "sum_lines acc lines = sum_money acc (map bl_lineTotal lines)"
  by (induction lines arbitrary: acc) simp_all

lemma billable_money: "list_all billableLine lines \<Longrightarrow> list_all money_ok (map bl_lineTotal lines)"
  by (induction lines) (simp_all add: billableLine_def)

lemma sum_lines_same:
  assumes "money_ok acc" and "list_all billableLine lines" and "one_currency (currency acc) lines"
  shows "\<exists>m. sum_lines acc lines = Inr m \<and> money_ok m \<and> currency m = currency acc \<and>
    micros m = micros acc + sum_list (map (micros \<circ> bl_lineTotal) lines)"
  using sum_money_same [OF assms(1) billable_money [OF assms(2)]] assms(3)
  by (simp add: sum_lines_money one_currency_def list_all_iff comp_def)

lemma sum_lines_mixed:
  assumes "money_ok acc" and "list_all billableLine lines" and "\<not> one_currency (currency acc) lines"
  shows "\<not> is_ok (sum_lines acc lines)"
  using sum_money_mixed [OF assms(1) billable_money [OF assms(2)]] assms(3)
  by (simp add: sum_lines_money one_currency_def list_all_iff)

text \<open>The currency a completion is labelled with: its lines', else the declared one, else \<open>SEK\<close>.\<close>

definition total_currency :: "billable_line list \<Rightarrow> string option \<Rightarrow> string" where
  "total_currency lines cur =
     (case lines of l # _ \<Rightarrow> currency (bl_lineTotal l) | [] \<Rightarrow> (case cur of Some c \<Rightarrow> c | None \<Rightarrow> ''SEK''))"

lemma total_currency_code:
  assumes "list_all billableLine lines" and "case cur of None \<Rightarrow> True | Some c \<Rightarrow> currencyCode c"
  shows "currencyCode (total_currency lines cur)"
proof -
  have "currencyCode ''SEK''" by code_simp
  with assms show ?thesis
    by (auto simp: total_currency_def billableLine_def money_ok_def split: list.splits option.splits)
qed

lemma completion_total_unfold:
  "completion_total lines cur =
     (if lines \<noteq> [] \<and> (\<exists>d. cur = Some d \<and> d \<noteq> total_currency lines cur)
      then Inl (SubstratError Validation_Failed None
             (''currency mismatch: declared '' @ the cur @ '', billable lines are in '' @ total_currency lines cur))
      else bind_r (moneyOf ''0'' (total_currency lines cur)) (\<lambda>z. sum_lines z lines))"
  by (cases lines; cases cur) (simp_all add: completion_total_def total_currency_def)

lemma completion_total_ok:
  assumes "list_all billableLine lines" and "case cur of None \<Rightarrow> True | Some c \<Rightarrow> currencyCode c"
    and "lines \<noteq> [] \<longrightarrow> cur \<in> {None, Some (total_currency lines cur)}"
    and "one_currency (total_currency lines cur) lines"
  shows "\<exists>m. completion_total lines cur = Inr m \<and> money_ok m \<and> currency m = total_currency lines cur \<and>
    micros m = sum_list (map (micros \<circ> bl_lineTotal) lines)"
proof -
  let ?c = "total_currency lines cur"
  have c: "currencyCode ?c" using assms(1,2) by (rule total_currency_code)
  have "completion_total lines cur = sum_lines \<lparr>amount = ''0'', currency = ?c\<rparr> lines"
    using assms(3) c by (auto simp: completion_total_unfold zero_money)
  with sum_lines_same [OF zero_money_ok [OF c] assms(1)] assms(4) zero_micros show ?thesis by simp
qed

lemma completion_total_iff:
  assumes "list_all billableLine lines" and "case cur of None \<Rightarrow> True | Some c \<Rightarrow> currencyCode c"
  shows "is_ok (completion_total lines cur) \<longleftrightarrow>
    (lines \<noteq> [] \<longrightarrow> cur \<in> {None, Some (total_currency lines cur)}) \<and>
    one_currency (total_currency lines cur) lines"
proof -
  let ?c = "total_currency lines cur"
  have c: "currencyCode ?c" using assms by (rule total_currency_code)
  have "\<not> is_ok (completion_total lines cur)" if "\<not> one_currency ?c lines"
    using sum_lines_mixed [OF zero_money_ok [OF c] assms(1)] that
    by (simp add: completion_total_unfold zero_money [OF c])
  moreover have "\<not> is_ok (completion_total lines cur)" if "lines \<noteq> []" "cur \<notin> {None, Some ?c}"
    using that by (cases cur) (auto simp: completion_total_unfold)
  ultimately show ?thesis using completion_total_ok [OF assms] is_ok_iff by blast
qed

lemma completion_money:
  assumes "completeWorkOrder cx i billable cur st = Inr ((w, m), st')"
  shows "money_ok m" and "one_currency (currency m) billable"
    and "micros m = sum_list (map (micros \<circ> bl_lineTotal) billable)"
proof -
  from assms obtain row where "list_all billableLine billable" "completion_total billable cur = Inr m"
    by (rule completeWorkOrder_Inr)
  note 1 = this
  have cur: "case cur of None \<Rightarrow> True | Some c \<Rightarrow> currencyCode c"
    using assms by (auto simp: completeWorkOrder_def bind_r_Inr_iff guard_r_Inr_iff)
  have "is_ok (completion_total billable cur)" using 1(2) by simp
  with completion_total_iff [OF 1(1) cur]
  have "billable \<noteq> [] \<longrightarrow> cur \<in> {None, Some (total_currency billable cur)}"
    "one_currency (total_currency billable cur) billable" by blast+
  from completion_total_ok [OF 1(1) cur this] 1(2) this(2)
  show "money_ok m" "one_currency (currency m) billable"
    "micros m = sum_list (map (micros \<circ> bl_lineTotal) billable)" by auto
qed

section \<open>Properties\<close>

lemma wo_run_inv: "wo_step\<^sup>*\<^sup>* st st' \<Longrightarrow> wo_inv st \<Longrightarrow> wo_inv st'"
  by (induction rule: rtranclp_induct) (blast intro: table_step_inv wo_step_table)+

text \<open>Reports only grow, and an order past reporting gains none.\<close>

definition reports_kept :: "string \<Rightarrow> 'a wo_store_scheme \<Rightarrow> 'a wo_store_scheme \<Rightarrow> bool" where
  "reports_kept i st st' \<longleftrightarrow>
     (\<exists>ts ms. wo_time st' = wo_time st @ ts \<and> wo_material st' = wo_material st @ ms \<and>
        (order_status st i \<in> {Some ''completed'', Some ''closed''} \<longrightarrow>
           i \<notin> t_order_id ` set ts \<and> i \<notin> m_order_id ` set ms \<and>
           order_status st' i \<in> {Some ''completed'', Some ''closed''}))"

lemma table_step_reports: "table_step st st' \<Longrightarrow> reports_kept i st st'"
proof -
  assume s: "table_step st st'"
  have kept: "order_status st' i \<in> {Some ''completed'', Some ''closed''}"
    if a: "order_status st i \<in> {Some ''completed'', Some ''closed''}"
  proof -
    from a obtain a where a: "order_status st i = Some a" "a = ''completed'' \<or> a = ''closed''" by auto
    from table_step_moves [OF s a(1)] a(2) show ?thesis by (auto dest: edge_cases)
  qed
  from s show ?thesis
  proof cases
    case (timed r0 e)
    have "order_status st (o_id r0) = Some (o_status r0)" using timed(1) by (simp add: order_status_def)
    with timed kept show ?thesis
      unfolding reports_kept_def by (intro exI [of _ "[e]"] exI [of _ "[]"]) (auto simp: wo_edges split: if_splits)
  next
    case (supplied r0 l)
    have "order_status st (o_id r0) = Some (o_status r0)" using supplied(1) by (simp add: order_status_def)
    with supplied kept show ?thesis
      unfolding reports_kept_def by (intro exI [of _ "[]"] exI [of _ "[l]"]) (auto simp: wo_edges split: if_splits)
  qed (use kept in \<open>auto simp: reports_kept_def\<close>)
qed

lemma reports_kept_trans: "reports_kept i a b \<Longrightarrow> reports_kept i b c \<Longrightarrow> reports_kept i a c"
  unfolding reports_kept_def
proof (elim exE conjE)
  fix ts ms ts' ms'
  assume "wo_time b = wo_time a @ ts" "wo_material b = wo_material a @ ms"
    "wo_time c = wo_time b @ ts'" "wo_material c = wo_material b @ ms'"
    and "order_status a i \<in> {Some ''completed'', Some ''closed''} \<longrightarrow> i \<notin> t_order_id ` set ts \<and>
      i \<notin> m_order_id ` set ms \<and> order_status b i \<in> {Some ''completed'', Some ''closed''}"
    and "order_status b i \<in> {Some ''completed'', Some ''closed''} \<longrightarrow> i \<notin> t_order_id ` set ts' \<and>
      i \<notin> m_order_id ` set ms' \<and> order_status c i \<in> {Some ''completed'', Some ''closed''}"
  then show "\<exists>ts ms. wo_time c = wo_time a @ ts \<and> wo_material c = wo_material a @ ms \<and>
      (order_status a i \<in> {Some ''completed'', Some ''closed''} \<longrightarrow> i \<notin> t_order_id ` set ts \<and>
       i \<notin> m_order_id ` set ms \<and> order_status c i \<in> {Some ''completed'', Some ''closed''})"
    by (intro exI [of _ "ts @ ts'"] exI [of _ "ms @ ms'"]) auto
qed

lemma wo_run_reports: "wo_step\<^sup>*\<^sup>* st st' \<Longrightarrow> reports_kept i st st'"
proof (induction rule: rtranclp_induct)
  case base
  then show ?case by (simp add: reports_kept_def)
next
  case (step y z)
  then show ?case using reports_kept_trans table_step_reports wo_step_table by blast
qed

text \<open>A small scope, and one order taken from creation to close.\<close>

definition wo_empty :: wo_store where
  "wo_empty = \<lparr>tuples = [], outbox = [], passed = [], drawn = 0, wo_orders = [], wo_time = [], wo_material = []\<rparr>"

definition wo_ctx :: op_ctx where
  "wo_ctx = demo_ctx\<lparr>cx_checker := (\<lambda>_ _ p _ _. Inr (Allowed [\<lparr>rt_subject = ''principal:P'', rt_relation = ''granted:'' @ p,
     rt_object = ''scope:S1''\<rparr>]))\<rparr>"

definition wo_input :: create_input where
  "wo_input = \<lparr>ci_facility = demo_facility, ci_customer = \<lparr>entityType = ''customer'', entityId = ''K1''\<rparr>,
     ci_kind = ''repair'', ci_title = ''Brakes'', ci_description = None\<rparr>"

definition wo_line :: "string \<Rightarrow> string \<Rightarrow> billable_line" where
  "wo_line am cur = \<lparr>bl_article = ''A1'', bl_description = ''Work'', bl_qty = ''1'', bl_unit = ''h'',
     bl_unitPrice = \<lparr>amount = am, currency = cur\<rparr>, bl_lineTotal = \<lparr>amount = am, currency = cur\<rparr>,
     bl_sourceType = ''time'', bl_sourceId = ''T1''\<rparr>"

definition wo_row :: "string \<Rightarrow> string option \<Rightarrow> order_row" where
  "wo_row status done = \<lparr>o_id = ''W0'', o_number = 1, o_facility_type = ''facility'', o_facility_id = ''F1'',
     o_customer_type = ''customer'', o_customer_id = ''K1'', o_kind = ''repair'', o_title = ''Chain'',
     o_description = None, o_status = status, o_assigned_to = None, o_created_by = ''P'',
     o_created_at = ''2025-12-01T00:00:00.000Z'', o_completed_at = done\<rparr>"

definition wo_one :: "string \<Rightarrow> string option \<Rightarrow> wo_store" where
  "wo_one status done = wo_empty\<lparr>wo_orders := [wo_row status done]\<rparr>"

lemma demo_create_empty: "\<exists>w s. createWorkOrder wo_ctx wo_input wo_empty = Inr (w, s)"
proof -
  have "is_ok (createWorkOrder wo_ctx wo_input wo_empty)" by code_simp
  then show ?thesis by (rule is_ok_pairE)
qed

lemma demo_create_beside_closed:
  "\<exists>w s. createWorkOrder wo_ctx wo_input (wo_one ''closed'' (Some ''2025-12-02T00:00:00.000Z'')) = Inr (w, s)"
proof -
  have "is_ok (createWorkOrder wo_ctx wo_input (wo_one ''closed'' (Some ''2025-12-02T00:00:00.000Z'')))" by code_simp
  then show ?thesis by (rule is_ok_pairE)
qed

lemma demo_complete:
  "\<exists>w m s. completeWorkOrder wo_ctx ''W0'' [wo_line ''10.5'' ''SEK'', wo_line ''0.25'' ''SEK''] None
    (wo_one ''in_progress'' None) = Inr ((w, m), s)"
proof -
  have "is_ok (completeWorkOrder wo_ctx ''W0'' [wo_line ''10.5'' ''SEK'', wo_line ''0.25'' ''SEK''] None
    (wo_one ''in_progress'' None))" by code_simp
  then show ?thesis by (rule is_ok_tripleE)
qed

text \<open>
  Work orders live by their declaration: in every store the engine reaches from empty tables,
  each order is in a state its lifecycle reaches from \<open>planned\<close>, ids and numbers are unique,
  \<open>completed_at\<close> is set exactly from completion on, and every report names an existing order.
\<close>

theorem orders_follow_lifecycle:
  assumes "wo_step\<^sup>*\<^sup>* st st'" and "wo_orders st = []" and "wo_time st = []" and "wo_material st = []"
  shows "wo_inv st' \<and> (\<forall>i a. order_status st' i = Some a \<longrightarrow> lc_reach workorderLifecycle a)"
proof -
  have "wo_inv st" using assms(2-4) by (simp add: wo_inv_def)
  moreover have "order_status st i = None" for i using assms(2) by (simp add: order_status_def)
  ultimately show ?thesis using wo_run_inv [OF assms(1)] wo.status_reachable [OF assms(1)] by auto
qed

theorem orders_follow_lifecycle_witness:
  "\<exists>w s. createWorkOrder wo_ctx wo_input wo_empty = Inr (w, s) \<and> wo_inv s"
proof -
  from demo_create_empty obtain w s where c: "createWorkOrder wo_ctx wo_input wo_empty = Inr (w, s)" by blast
  then have run: "wo_step\<^sup>*\<^sup>* wo_empty s" by (blast intro: wo_step.s_create)
  have "wo_orders wo_empty = []" "wo_time wo_empty = []" "wo_material wo_empty = []" by (simp_all add: wo_empty_def)
  from orders_follow_lifecycle [OF run this] c show ?thesis by blast
qed

text \<open>
  Closing is final: whatever the engine runs afterwards, a closed order stays closed and its
  row stays in the table.
\<close>

theorem closed_is_final:
  assumes "wo_step\<^sup>*\<^sup>* st st'" and "order_status st i = Some ''closed''"
  shows "order_status st' i = Some ''closed''"
  using assms by (rule wo.terminal_frozen) (simp add: is_terminal_def workorderLifecycle_def)

theorem closed_is_final_witness:
  "\<exists>w s. createWorkOrder wo_ctx wo_input (wo_one ''closed'' (Some ''2025-12-02T00:00:00.000Z'')) = Inr (w, s) \<and>
    order_status s ''W0'' = Some ''closed''"
proof -
  from demo_create_beside_closed obtain w s
    where c: "createWorkOrder wo_ctx wo_input (wo_one ''closed'' (Some ''2025-12-02T00:00:00.000Z'')) = Inr (w, s)" by blast
  then have run: "wo_step\<^sup>*\<^sup>* (wo_one ''closed'' (Some ''2025-12-02T00:00:00.000Z'')) s" by (blast intro: wo_step.s_create)
  have "order_status (wo_one ''closed'' (Some ''2025-12-02T00:00:00.000Z'')) ''W0'' = Some ''closed''"
    by (simp add: order_status_def wo_one_def wo_row_def)
  from closed_is_final [OF run this] c show ?thesis by blast
qed

text \<open>
  Reported time and material are append-only, and an order that is completed or closed never
  gains another entry: what it was billed for is fixed.
\<close>

theorem reports_append_only:
  assumes "wo_step\<^sup>*\<^sup>* st st'"
  shows "\<exists>ts ms. wo_time st' = wo_time st @ ts \<and> wo_material st' = wo_material st @ ms \<and>
    (order_status st i \<in> {Some ''completed'', Some ''closed''} \<longrightarrow>
       getReportedLines i st' = getReportedLines i st)"
proof -
  from wo_run_reports [OF assms, of i] obtain ts ms where app: "wo_time st' = wo_time st @ ts"
    "wo_material st' = wo_material st @ ms"
    and none: "order_status st i \<in> {Some ''completed'', Some ''closed''} \<longrightarrow>
      i \<notin> t_order_id ` set ts \<and> i \<notin> m_order_id ` set ms"
    unfolding reports_kept_def by blast
  have "getReportedLines i st' = getReportedLines i st" if "i \<notin> t_order_id ` set ts" "i \<notin> m_order_id ` set ms"
    using that by (auto simp: getReportedLines_def app filter_empty_conv intro!: arg_cong [where f = "sort_key _"])
  with app none show ?thesis by blast
qed

theorem reports_append_only_witness:
  "\<exists>w s. createWorkOrder wo_ctx wo_input (wo_one ''closed'' (Some ''2025-12-02T00:00:00.000Z'')) = Inr (w, s) \<and>
    getReportedLines ''W0'' s = getReportedLines ''W0'' (wo_one ''closed'' (Some ''2025-12-02T00:00:00.000Z''))"
proof -
  from demo_create_beside_closed obtain w s
    where c: "createWorkOrder wo_ctx wo_input (wo_one ''closed'' (Some ''2025-12-02T00:00:00.000Z'')) = Inr (w, s)" by blast
  then have run: "wo_step\<^sup>*\<^sup>* (wo_one ''closed'' (Some ''2025-12-02T00:00:00.000Z'')) s" by (blast intro: wo_step.s_create)
  have "order_status (wo_one ''closed'' (Some ''2025-12-02T00:00:00.000Z'')) ''W0'' = Some ''closed''"
    by (simp add: order_status_def wo_one_def wo_row_def)
  with reports_append_only [OF run, of "''W0''"] c show ?thesis by auto
qed

text \<open>
  Completion states an exact total: the returned money is in the currency of every billable
  line, its micro-units are the sum of theirs, the order is \<open>completed\<close>, and the one event
  written carries the validated lines and that total.
\<close>

theorem completion_exact:
  assumes "completeWorkOrder cx i billable cur st = Inr ((w, m), st')"
  shows "money_ok m \<and> one_currency (currency m) billable \<and>
    micros m = sum_list (map (micros \<circ> bl_lineTotal) billable) \<and>
    w_status w = ''completed'' \<and> w_id w = i \<and>
    (\<exists>row ev. getRow i st = Inr row \<and> o_status row = ''in_progress'' \<and>
       outbox st' = outbox st @ [ev] \<and> ob_type ev = ''workorder.completed'' \<and>
       ob_payload ev = completed_payload row billable m)"
  using completeWorkOrder_Inr [OF assms]
proof cases
  case (1 row)
  note total = completion_money [OF assms]
  have st: "o_status row = ''in_progress''" using 1(2) by (auto simp: requireTransition_Inr wo_edges split: if_splits)
  have id: "o_id row = i" using 1(1) by (auto simp: getRow_def dest: row_where_SomeD split: option.splits)
  have "row_where (\<lambda>r. o_id r = i) (wo_orders st') = Some (row\<lparr>o_status := ''completed'', o_completed_at := Some (cx_at cx)\<rparr>)"
    using getRow_Inr [OF 1(1)] emit_tables(1) [OF 1(6)] by (simp add: row_where_update_where id)
  then have w: "w_status w = ''completed''" "w_id w = i"
    using 1(7) by (auto simp: getWorkOrder_def getRow_def toWorkOrder_def id returns_Inr)
  from emit_Inr(2) [OF 1(6)] obtain ev where "outbox st' = outbox st @ [ev]" "ob_type ev = ''workorder.completed''"
    "ob_payload ev = completed_payload row billable m" by (auto simp: wo_event_def set_order_def)
  with total st w 1(1) show ?thesis by blast
qed

theorem completion_exact_witness:
  "\<exists>w m s. completeWorkOrder wo_ctx ''W0'' [wo_line ''10.5'' ''SEK'', wo_line ''0.25'' ''SEK''] None
      (wo_one ''in_progress'' None) = Inr ((w, m), s) \<and> micros m = 10750000"
proof -
  from demo_complete obtain w m s where c: "completeWorkOrder wo_ctx ''W0''
    [wo_line ''10.5'' ''SEK'', wo_line ''0.25'' ''SEK''] None (wo_one ''in_progress'' None) = Inr ((w, m), s)" by blast
  have "sum_list (map (micros \<circ> bl_lineTotal) [wo_line ''10.5'' ''SEK'', wo_line ''0.25'' ''SEK'']) = 10750000"
    by code_simp
  with completion_exact [OF c] c show ?thesis by auto
qed

text \<open>
  Which completions are refused for money: with well-formed lines and declared currency, a
  total exists exactly when all lines share one currency and the declared one, if any, is theirs.
\<close>

theorem completion_total_decides:
  assumes "list_all billableLine billable" and "case cur of None \<Rightarrow> True | Some c \<Rightarrow> currencyCode c"
  shows "is_ok (completion_total billable cur) \<longleftrightarrow>
    (\<exists>c. one_currency c billable \<and> (billable = [] \<or> cur = None \<or> cur = Some c))"
proof (cases billable)
  case Nil
  then show ?thesis using completion_total_iff [OF assms] by (auto simp: one_currency_def)
next
  case (Cons l ls)
  then show ?thesis
    using completion_total_iff [OF assms] by (auto simp: one_currency_def total_currency_def)
qed

theorem completion_total_decides_witness:
  "\<not> is_ok (completion_total [wo_line ''1'' ''SEK'', wo_line ''1'' ''EUR''] None)"
proof -
  have a: "list_all billableLine [wo_line ''1'' ''SEK'', wo_line ''1'' ''EUR'']" by code_simp
  from completion_total_decides [OF a, of None] show ?thesis by (auto simp: one_currency_def wo_line_def)
qed

text \<open>
  Every binding checks before it acts: outside a consumer's system context, an operation that
  commits was allowed its own key over the tuples as they stood when it began, and \<open>workorder/get\<close>
  was allowed on the order it reads.
\<close>

theorem bindings_check_first:
  assumes "cx_override cx = None"
    and "allowed_for = (\<lambda>p e st. \<exists>pf. cx_checker cx (tuples st) (cx_subject cx) p (cx_node cx) e = Inr (Allowed pf))"
  shows "(assignOp cx i who st = Inr a \<longrightarrow> allowed_for ''workorder:assign'' None st) \<and>
    (startOp cx i st = Inr a \<longrightarrow> allowed_for ''workorder:report'' None st) \<and>
    (reportTimeOp cx i hours note st = Inr b \<longrightarrow> allowed_for ''workorder:report'' None st) \<and>
    (reportMaterialOp cx i article qty note st = Inr c \<longrightarrow> allowed_for ''workorder:report'' None st) \<and>
    (completeOp cx i billable cur st = Inr d \<longrightarrow> allowed_for ''workorder:complete'' None st) \<and>
    (closeOp cx i st = Inr a \<longrightarrow> allowed_for ''workorder:close'' None st) \<and>
    (getOp cx i st = Inr g \<longrightarrow> allowed_for ''workorder:read'' (Some (orderRef i)) st)"
  unfolding assms(2) assignOp_def startOp_def reportTimeOp_def reportMaterialOp_def completeOp_def closeOp_def
    getOp_def bind_r_Inr_iff
  using require_Inr(5) [OF _ assms(1)] by blast

theorem bindings_check_first_witness:
  "\<exists>a. startOp wo_ctx ''W0'' (wo_one ''planned'' None) = Inr a \<and>
    (\<exists>pf. cx_checker wo_ctx (tuples (wo_one ''planned'' None)) (cx_subject wo_ctx) ''workorder:report''
       (cx_node wo_ctx) None = Inr (Allowed pf))"
proof -
  have "is_ok (startOp wo_ctx ''W0'' (wo_one ''planned'' None))" by code_simp
  then obtain a where a: "startOp wo_ctx ''W0'' (wo_one ''planned'' None) = Inr a" using is_okE by blast
  have "cx_override wo_ctx = None" by (simp add: wo_ctx_def demo_ctx_def)
  from bindings_check_first [OF this refl, where i = "''W0''" and st = "wo_one ''planned'' None"] a
  show ?thesis by blast
qed

end
