(* ===== verification/Invoicing.thy ===== *)
theory Invoicing
  imports Workorder
begin

text \<open>
  The invoicing engine (\<open>engines/invoicing/src/index.ts\<close>): three event consumers that append
  billable lines to the open basis (\<open>underlag\<close>) of a customer, the detail read and the export
  that freezes it.  The engine reads a payload through its own schema and imports nothing from a
  producer; its two tables extend the record of the scope's tables, because all modules of a scope
  share one database.  The list operation pages through the kernel and changes nothing.

  A consumer runs in a transaction of its own, so a throw leaves the store as it was.
\<close>

section \<open>Rows and payloads\<close>

record underlag_row =
  u_id :: string
  u_number :: int
  u_customer_type :: string
  u_customer_id :: string
  u_status :: string
  u_created_at :: string
  u_exported_at :: "string option"

record underlag_line =
  l_id :: string
  l_underlag_id :: string
  l_document_type :: string
  l_document_id :: string
  l_source_type :: "string option"
  l_source_id :: "string option"
  l_article :: string
  l_description :: string
  l_qty :: string
  l_unit :: string
  l_unit_price_amount :: string
  l_currency :: string
  l_line_total_amount :: string
  l_created_at :: string

record inv_store = wo_store +
  inv_underlag :: "underlag_row list"
  inv_lines :: "underlag_line list"

definition underlag_statuses :: "string list" where
  "underlag_statuses = [''open'', ''exported'']"

definition invoicingLifecycle :: lifecycle_def where
  "invoicingLifecycle =
     \<lparr>field = ''status'', initial = ''open'',
      states =
        [(''open'', \<lparr>on = [(''invoicing/export'', ''exported'')], allow = [], extensible = False, terminal = False\<rparr>),
         (''exported'', \<lparr>on = [], allow = [], extensible = False, terminal = True\<rparr>)]\<rparr>"

text \<open>A billable line as the engine's views read it; only a work order says what a line itself is.\<close>

record billed_line =
  b_article :: string
  b_description :: string
  b_qty :: string
  b_unit :: string
  b_unitPrice :: money
  b_lineTotal :: money
  b_source :: "(string \<times> string) option"

definition z_line :: "json \<Rightarrow> billed_line option" where
  "z_line j =
     Option.bind (z_prop ''article'' z_string1 j) (\<lambda>article.
     Option.bind (z_prop ''description'' z_string1 j) (\<lambda>description.
     Option.bind (z_prop ''qty'' z_string1 j) (\<lambda>qty.
     Option.bind (z_prop ''unit'' z_string1 j) (\<lambda>unit.
     Option.bind (z_prop ''unitPrice'' z_money j) (\<lambda>unitPrice.
     Option.bind (z_prop ''lineTotal'' z_money j) (\<lambda>lineTotal.
       Some \<lparr>b_article = article, b_description = description, b_qty = qty, b_unit = unit,
             b_unitPrice = unitPrice, b_lineTotal = lineTotal, b_source = None\<rparr>))))))"

definition z_sourced_line :: "json \<Rightarrow> billed_line option" where
  "z_sourced_line j =
     Option.bind (z_line j) (\<lambda>l.
     Option.bind (z_prop ''sourceType'' (z_enum [''time'', ''material'']) j) (\<lambda>ty.
     Option.bind (z_prop ''sourceId'' z_string1 j) (\<lambda>i. Some (l\<lparr>b_source := Some (ty, i)\<rparr>))))"

record completed =
  cp_orderId :: string
  cp_number :: int
  cp_customer :: entity_ref
  cp_billable :: "billed_line list"
  cp_total :: money

definition completedPayload :: "json \<Rightarrow> completed option" where
  "completedPayload j =
     Option.bind (z_prop ''orderId'' z_string1 j) (\<lambda>i.
     Option.bind (z_prop ''number'' z_int j) (\<lambda>n.
     Option.bind (z_prop ''customer'' z_entityRef j) (\<lambda>c.
     Option.bind (z_prop ''billable'' (z_array z_sourced_line) j) (\<lambda>ls.
     Option.bind (z_prop ''total'' z_money j) (\<lambda>m.
       Some \<lparr>cp_orderId = i, cp_number = n, cp_customer = c, cp_billable = ls, cp_total = m\<rparr>)))))"

record order_placed =
  op_orderId :: string
  op_number :: int
  op_customer :: entity_ref
  op_paymentMethod :: string
  op_billable :: "billed_line list"
  op_total :: money

definition commercePlacedPayload :: "json \<Rightarrow> order_placed option" where
  "commercePlacedPayload j =
     Option.bind (z_prop ''orderId'' z_string1 j) (\<lambda>i.
     Option.bind (z_prop ''number'' z_int j) (\<lambda>n.
     Option.bind (z_prop ''customer'' z_entityRef j) (\<lambda>c.
     Option.bind (z_prop ''paymentMethod'' z_string1 j) (\<lambda>pm.
     Option.bind (z_prop ''billable'' (z_array z_line) j) (\<lambda>ls.
     Option.bind (z_prop ''total'' z_money j) (\<lambda>m.
       Some \<lparr>op_orderId = i, op_number = n, op_customer = c, op_paymentMethod = pm, op_billable = ls,
             op_total = m\<rparr>))))))"

record period_closed =
  pc_closeId :: string
  pc_customer :: entity_ref
  pc_period :: string
  pc_billable :: "billed_line list"
  pc_total :: money

definition timesheetClosedPayload :: "json \<Rightarrow> period_closed option" where
  "timesheetClosedPayload j =
     Option.bind (z_prop ''closeId'' z_string1 j) (\<lambda>i.
     Option.bind (z_prop ''customer'' z_entityRef j) (\<lambda>c.
     Option.bind (z_prop ''period'' z_string1 j) (\<lambda>p.
     Option.bind (z_prop ''billable'' (z_array z_line) j) (\<lambda>ls.
     Option.bind (z_prop ''total'' z_money j) (\<lambda>m.
       Some \<lparr>pc_closeId = i, pc_customer = c, pc_period = p, pc_billable = ls, pc_total = m\<rparr>)))))"

section \<open>Reads\<close>

definition inv_conflict :: "string \<Rightarrow> string \<Rightarrow> err" where
  "inv_conflict reason msg = SubstratError Conflict (Some reason) msg"

text \<open>\<open>/^-?\d+(\.\d+)?$/\<close>, unlike \<open>moneyAmount\<close> with any number of decimals.\<close>

definition decimalAmount :: "string \<Rightarrow> bool" where
  "decimalAmount s \<longleftrightarrow>
     (let b = (if startsWith s ''-'' then drop 1 s else s);
          i = takeWhile (\<lambda>c. c \<noteq> CHR ''.'') b; r = dropWhile (\<lambda>c. c \<noteq> CHR ''.'') b in
      i \<noteq> [] \<and> list_all is_digit i \<and>
      (case r of [] \<Rightarrow> True | _ # f \<Rightarrow> f \<noteq> [] \<and> list_all is_digit f))"

definition storedUnderlag :: "underlag_row \<Rightarrow> underlag_row result" where
  "storedUnderlag u = returns ''engine-invoicing'' (''underlag row '' @ u_id u) (u_status u \<in> set underlag_statuses) u"

definition storedLine :: "underlag_line \<Rightarrow> underlag_line result" where
  "storedLine l = returns ''engine-invoicing'' (''underlag line '' @ l_id l)
     (decimalAmount (l_qty l) \<and> decimalAmount (l_unit_price_amount l) \<and>
      decimalAmount (l_line_total_amount l) \<and> currencyCode (l_currency l)) l"

definition lines_of :: "string \<Rightarrow> 'a inv_store_scheme \<Rightarrow> underlag_line list" where
  "lines_of i st = filter (\<lambda>l. l_underlag_id l = i) (inv_lines st)"

text \<open>The pair of columns the total folds, parsed and made into money.\<close>

definition lineAmount :: "string \<Rightarrow> underlag_line \<Rightarrow> (string \<times> string) result" where
  "lineAmount i l = returns ''engine-invoicing'' (''line amount on underlag '' @ i)
     (decimalAmount (l_line_total_amount l) \<and> currencyCode (l_currency l)) (l_line_total_amount l, l_currency l)"

definition underlagTotalMoney :: "string \<Rightarrow> string option \<Rightarrow> 'a inv_store_scheme \<Rightarrow> money result" where
  "underlagTotalMoney i declared st =
     bind_r (traverse (lineAmount i) (lines_of i st)) (\<lambda>rows.
     let lineCurrency = (case rows of [] \<Rightarrow> None | (_, c) # _ \<Rightarrow> Some c) in
     bind_r (case (declared, lineCurrency) of
               (Some d, Some c) \<Rightarrow> guard_r (d = c) (inv_conflict ''currency_mismatch''
                 (''currency mismatch on underlag '' @ i @ '': declared '' @ d @ '', its lines are in '' @ c))
             | _ \<Rightarrow> Inr ()) (\<lambda>_.
     if rows = [] then moneyOf ''0'' (case declared of Some d \<Rightarrow> d | None \<Rightarrow> ''SEK'')
     else bind_r (traverse (\<lambda>(am, c). moneyOf am c) rows) (\<lambda>ms. sum_money (hd ms) (tl ms))))"

definition underlagTotal :: "string \<Rightarrow> 'a inv_store_scheme \<Rightarrow> string result" where
  "underlagTotal i st = bind_r (underlagTotalMoney i None st) (\<lambda>m. Inr (amount m))"

section \<open>Consumers\<close>

definition assertSingleCurrency :: "string \<Rightarrow> billed_line list \<Rightarrow> 'a inv_store_scheme \<Rightarrow> unit result" where
  "assertSingleCurrency i incoming st =
     (let currencies = unique_in_order
            (unique_in_order (map l_currency (lines_of i st)) @
             map (currency \<circ> b_lineTotal) incoming @ map (currency \<circ> b_unitPrice) incoming) in
      guard_r (length currencies \<le> 1) (inv_conflict ''currency_mismatch''
        (''currency mismatch on underlag '' @ i @ '': '' @ join '', '' (sort currencies))))"

definition underlag_clash :: "underlag_row \<Rightarrow> underlag_row \<Rightarrow> bool" where
  "underlag_clash a b \<longleftrightarrow> u_id a = u_id b \<or> u_number a = u_number b"

definition underlag_at :: "string \<Rightarrow> 'a inv_store_scheme \<Rightarrow> underlag_row option" where
  "underlag_at i st = row_where (\<lambda>u. u_id u = i) (inv_underlag st)"

definition is_open_for :: "entity_ref \<Rightarrow> underlag_row \<Rightarrow> bool" where
  "is_open_for customer u \<longleftrightarrow>
     u_customer_type u = entityType customer \<and> u_customer_id u = entityId customer \<and> u_status u = ''open''"

text \<open>Find or create the open basis of a customer.\<close>

definition openUnderlag ::
  "op_ctx \<Rightarrow> entity_ref \<Rightarrow> 'a inv_store_scheme \<Rightarrow> (underlag_row \<times> 'a inv_store_scheme) result" where
  "openUnderlag cx customer st =
     (case row_where (is_open_for customer) (inv_underlag st) of
        Some u \<Rightarrow> bind_r (storedUnderlag u) (\<lambda>u. Inr (u, st))
      | None \<Rightarrow>
          (case ulid cx st of (i, st1) \<Rightarrow>
           bind_r (insert_row underlag_clash
             \<lparr>u_id = i, u_number = next_number (map u_number (inv_underlag st1)),
              u_customer_type = entityType customer, u_customer_id = entityId customer,
              u_status = ''open'', u_created_at = cx_at cx, u_exported_at = None\<rparr> (inv_underlag st1)) (\<lambda>rows.
           let st2 = st1\<lparr>inv_underlag := rows\<rparr> in
           case underlag_at i st2 of
             Some u \<Rightarrow> bind_r (storedUnderlag u) (\<lambda>u. Inr (u, st2))
           | None \<Rightarrow> Inl (PlainError ''TypeError''))))"

definition stored_of :: "op_ctx \<Rightarrow> string \<Rightarrow> string \<Rightarrow> string \<Rightarrow> string \<Rightarrow> billed_line \<Rightarrow> underlag_line" where
  "stored_of cx u ty d i b =
     \<lparr>l_id = i, l_underlag_id = u, l_document_type = ty, l_document_id = d,
      l_source_type = map_option fst (b_source b), l_source_id = map_option snd (b_source b),
      l_article = b_article b, l_description = b_description b, l_qty = b_qty b, l_unit = b_unit b,
      l_unit_price_amount = amount (b_unitPrice b), l_currency = currency (b_unitPrice b),
      l_line_total_amount = amount (b_lineTotal b), l_created_at = cx_at cx\<rparr>"

fun insertLines ::
  "op_ctx \<Rightarrow> string \<Rightarrow> string \<Rightarrow> string \<Rightarrow> billed_line list \<Rightarrow> 'a inv_store_scheme \<Rightarrow> 'a inv_store_scheme result" where
  "insertLines cx u ty d [] st = Inr st"
| "insertLines cx u ty d (b # bs) st =
     (case ulid cx st of (i, st1) \<Rightarrow>
      bind_r (insert_row (\<lambda>x y. l_id x = l_id y) (stored_of cx u ty d i b) (inv_lines st1)) (\<lambda>rows.
      insertLines cx u ty d bs (st1\<lparr>inv_lines := rows\<rparr>)))"

definition inv_event :: "string \<Rightarrow> int \<Rightarrow> string \<Rightarrow> json \<Rightarrow> domain_event_input" where
  "inv_event ty version i payload =
     \<lparr>ev_type = ty, ev_schemaVersion = version, ev_entity = \<lparr>entityType = ''underlag'', entityId = i\<rparr>,
      ev_piiClass = PiiNone, ev_subjectId = None, ev_payload = payload\<rparr>"

definition of_document :: "string \<Rightarrow> string \<Rightarrow> underlag_line \<Rightarrow> bool" where
  "of_document ty d l \<longleftrightarrow> l_document_type l = ty \<and> l_document_id l = d"

text \<open>
  The body the three consumers share, from the replay guard on: \<open>ty\<close> and \<open>d\<close> name the document
  that produced the lines.
\<close>

definition bill ::
  "op_ctx \<Rightarrow> string \<Rightarrow> string \<Rightarrow> entity_ref \<Rightarrow> billed_line list \<Rightarrow> 'a inv_store_scheme \<Rightarrow> 'a inv_store_scheme result" where
  "bill cx ty d customer billable st =
     (if billable = [] then Inr st
      else if list_ex (of_document ty d) (inv_lines st) then Inr st
      else
        bind_r (openUnderlag cx customer st) (\<lambda>(u, st1).
        bind_r (assertSingleCurrency (u_id u) billable st1) (\<lambda>_.
        bind_r (insertLines cx (u_id u) ty d billable st1) (\<lambda>st2.
        emit cx (inv_event ''invoicing.underlag-updated'' 1 (u_id u)
          (JObj [(''underlagId'', JStr (u_id u)), (''addedLines'', JNum (int (length billable))),
                 (''source'', json_ref \<lparr>entityType = ty, entityId = d\<rparr>)])) st2))))"

definition onWorkOrderCompleted :: "op_ctx \<Rightarrow> json \<Rightarrow> 'a inv_store_scheme \<Rightarrow> 'a inv_store_scheme result" where
  "onWorkOrderCompleted cx payload st =
     bind_r (parse_as ''completedPayload'' completedPayload payload) (\<lambda>p.
       bill cx ''workorder'' (cp_orderId p) (cp_customer p) (cp_billable p) st)"

definition onCommerceOrderPlaced :: "op_ctx \<Rightarrow> json \<Rightarrow> 'a inv_store_scheme \<Rightarrow> 'a inv_store_scheme result" where
  "onCommerceOrderPlaced cx payload st =
     bind_r (parse_as ''commercePlacedPayload'' commercePlacedPayload payload) (\<lambda>p.
       if op_paymentMethod p \<noteq> ''invoice'' then Inr st
       else bill cx ''order'' (op_orderId p) (op_customer p) (op_billable p) st)"

definition onTimesheetPeriodClosed :: "op_ctx \<Rightarrow> json \<Rightarrow> 'a inv_store_scheme \<Rightarrow> 'a inv_store_scheme result" where
  "onTimesheetPeriodClosed cx payload st =
     bind_r (parse_as ''timesheetClosedPayload'' timesheetClosedPayload payload) (\<lambda>p.
       bill cx ''timesheet'' (pc_closeId p) (pc_customer p) (pc_billable p) st)"

section \<open>Operations\<close>

definition underlag_or_not_found :: "string \<Rightarrow> 'a inv_store_scheme \<Rightarrow> underlag_row result" where
  "underlag_or_not_found i st =
     (case underlag_at i st of
        Some u \<Rightarrow> Inr u
      | None \<Rightarrow> Inl (SubstratError Not_Found None (''underlag not found: '' @ i)))"

definition getOp ::
  "op_ctx \<Rightarrow> string \<Rightarrow> 'a inv_store_scheme \<Rightarrow>
   ((underlag_row \<times> underlag_line list \<times> string) \<times> 'a inv_store_scheme) result" where
  "getOp cx i st =
     bind_r (require cx ''invoicing:read'' None st) (\<lambda>st1.
     bind_r (underlag_or_not_found i st1) (\<lambda>u.
     bind_r (storedUnderlag u) (\<lambda>u.
     bind_r (traverse storedLine (sort_key l_id (lines_of i st1))) (\<lambda>ls.
     bind_r (underlagTotal i st1) (\<lambda>tot. Inr ((u, ls, tot), st1))))))"

definition exportOp ::
  "op_ctx \<Rightarrow> string \<Rightarrow> string option \<Rightarrow> 'a inv_store_scheme \<Rightarrow> (underlag_row \<times> 'a inv_store_scheme) result" where
  "exportOp cx i cur st =
     bind_r (require cx ''invoicing:export'' None st) (\<lambda>st1.
     bind_r (underlag_or_not_found i st1) (\<lambda>u.
     bind_r (storedUnderlag u) (\<lambda>u.
     bind_r (guard_r (transitionFor invoicingLifecycle (u_status u) ''invoicing/export'' \<noteq> None)
       (inv_conflict ''immutable_after_export''
         (''underlag '' @ show_int (u_number u) @ '' is '' @ u_status u @ '': exported underlag are immutable''))) (\<lambda>_.
     bind_r (underlagTotalMoney (u_id u) cur st1) (\<lambda>tot.
     let st2 = st1\<lparr>inv_underlag := update_where (\<lambda>r. u_id r = u_id u)
                 (\<lambda>r. r\<lparr>u_status := ''exported'', u_exported_at := Some (cx_at cx)\<rparr>) (inv_underlag st1)\<rparr> in
     bind_r (emit cx (inv_event ''invoicing.underlag-exported'' 2 (u_id u)
       (JObj [(''underlagId'', JStr (u_id u)), (''number'', JNum (u_number u)), (''total'', json_money tot)])) st2) (\<lambda>st3.
     case underlag_at (u_id u) st3 of
       Some r \<Rightarrow> bind_r (storedUnderlag r) (\<lambda>r. Inr (r, st3))
     | None \<Rightarrow> Inl (PlainError ''TypeError'')))))))"

section \<open>What each operation changes\<close>

lemma inv_more_tables:
  fixes st st' :: "'a inv_store_scheme"
  assumes "scope_store.more st' = scope_store.more st"
  shows "inv_underlag st' = inv_underlag st" and "inv_lines st' = inv_lines st" and "wo_store.more st' = wo_store.more st"
  using assms by (cases st, cases st', simp)+

lemma inv_emit_tables:
  fixes st st' :: "'a inv_store_scheme"
  assumes "emit cx ev st = Inr st'"
  shows "inv_underlag st' = inv_underlag st" and "inv_lines st' = inv_lines st"
  using inv_more_tables [OF emit_Inr(3) [OF assms]] by simp_all

lemma inv_require_tables:
  fixes st st' :: "'a inv_store_scheme"
  assumes "require cx p e st = Inr st'"
  shows "inv_underlag st' = inv_underlag st" and "inv_lines st' = inv_lines st"
  using inv_more_tables [OF require_Inr(4) [OF assms]] by simp_all

lemma lines_of_cong: "inv_lines st' = inv_lines st \<Longrightarrow> lines_of i st' = lines_of i st"
  by (simp add: lines_of_def)

lemma storedUnderlag_Inr [monad_simps]: "storedUnderlag u = Inr v \<longleftrightarrow> u_status u \<in> set underlag_statuses \<and> v = u"
  by (simp add: storedUnderlag_def returns_Inr)

lemma insertLines_Inr:
  assumes "insertLines cx u ty d bs st = Inr st'"
  shows "\<exists>ids. length ids = length bs \<and> inv_lines st' = inv_lines st @ map2 (stored_of cx u ty d) ids bs \<and>
    distinct ids \<and> set ids \<inter> l_id ` set (inv_lines st) = {} \<and> inv_underlag st' = inv_underlag st \<and>
    outbox st' = outbox st"
  using assms
proof (induction bs arbitrary: st)
  case Nil
  then show ?case by (intro exI [of _ "[]"]) simp
next
  case (Cons b bs)
  obtain i st1 where u: "ulid cx st = (i, st1)" by force
  then have st1: "st1 = st\<lparr>drawn := Suc (drawn st)\<rparr>" by (simp add: ulid_def)
  let ?st2 = "st1\<lparr>inv_lines := inv_lines st @ [stored_of cx u ty d i b]\<rparr>"
  from Cons.prems have fresh: "i \<notin> l_id ` set (inv_lines st)" and rest: "insertLines cx u ty d bs ?st2 = Inr st'"
    by (auto simp: u st1 bind_r_Inr_iff insert_row_Inr stored_of_def list_ex_iff)
  from Cons.IH [OF rest] obtain ids where ids: "length ids = length bs"
    "inv_lines st' = inv_lines ?st2 @ map2 (stored_of cx u ty d) ids bs" "distinct ids"
    "set ids \<inter> l_id ` set (inv_lines ?st2) = {}" "inv_underlag st' = inv_underlag ?st2" "outbox st' = outbox ?st2"
    by blast
  then show ?case using fresh st1 by (intro exI [of _ "i # ids"]) (auto simp: stored_of_def)
qed

text \<open>The basis a bill goes to: the customer's open one, or a fresh one when there is none.\<close>

definition billing_target :: "entity_ref \<Rightarrow> underlag_row list \<Rightarrow> underlag_row list \<Rightarrow> underlag_row \<Rightarrow> bool" where
  "billing_target customer rows new u \<longleftrightarrow>
     is_open_for customer u \<and>
     (new = [] \<and> row_where (is_open_for customer) rows = Some u \<or>
      new = [u] \<and> row_where (is_open_for customer) rows = None \<and> \<not> list_ex (underlag_clash u) rows \<and>
      u_exported_at u = None)"

lemma openUnderlag_Inr:
  assumes "openUnderlag cx customer st = Inr (u, st')"
  obtains new where "inv_underlag st' = inv_underlag st @ new" "billing_target customer (inv_underlag st) new u"
    "inv_lines st' = inv_lines st" "outbox st' = outbox st"
proof (cases "row_where (is_open_for customer) (inv_underlag st)")
  case (Some v)
  then have "is_open_for customer v" by (simp add: row_where_SomeD)
  with Some assms that [of "[]"] show thesis
    by (auto simp: openUnderlag_def bind_r_Inr_iff storedUnderlag_Inr billing_target_def)
next
  case None
  obtain i st1 where i: "ulid cx st = (i, st1)" by force
  then have st1: "st1 = st\<lparr>drawn := Suc (drawn st)\<rparr>" by (simp add: ulid_def)
  define v where "v = \<lparr>u_id = i, u_number = next_number (map u_number (inv_underlag st)),
    u_customer_type = entityType customer, u_customer_id = entityId customer, u_status = ''open'',
    u_created_at = cx_at cx, u_exported_at = None\<rparr>"
  from assms None have fresh: "\<not> list_ex (underlag_clash v) (inv_underlag st)"
    and rest: "(case underlag_at i (st1\<lparr>inv_underlag := inv_underlag st @ [v]\<rparr>) of
       Some u \<Rightarrow> bind_r (storedUnderlag u) (\<lambda>u. Inr (u, st1\<lparr>inv_underlag := inv_underlag st @ [v]\<rparr>))
     | None \<Rightarrow> Inl (PlainError ''TypeError'')) = Inr (u, st')"
    unfolding st1 v_def by (auto simp: openUnderlag_def i [unfolded st1] bind_r_Inr_iff insert_row_Inr Let_def)
  from fresh have "underlag_at i (st1\<lparr>inv_underlag := inv_underlag st @ [v]\<rparr>) = Some v"
    by (auto simp: underlag_at_def row_where_append row_where_None list_ex_iff underlag_clash_def v_def
        split: option.splits dest: row_where_SomeD)
  with rest have "u = v" "st' = st1\<lparr>inv_underlag := inv_underlag st @ [v]\<rparr>"
    by (auto simp: bind_r_Inr_iff storedUnderlag_Inr)
  with None fresh that [of "[v]"] show thesis
    by (simp add: st1 billing_target_def is_open_for_def v_def)
qed

lemma length_remdups_le_1: "length (unique_in_order xs) \<le> 1 \<Longrightarrow> x \<in> set xs \<Longrightarrow> y \<in> set xs \<Longrightarrow> x = y"
proof -
  assume a: "length (unique_in_order xs) \<le> 1" and "x \<in> set xs" "y \<in> set xs"
  then have "x \<in> set (unique_in_order xs)" "y \<in> set (unique_in_order xs)" by simp_all
  with a show "x = y" by (cases "unique_in_order xs") auto
qed

lemma assertSingleCurrency_Inr:
  "assertSingleCurrency i bs st = Inr x \<longleftrightarrow>
     (\<exists>c. (\<forall>l \<in> set (lines_of i st). l_currency l = c) \<and>
        (\<forall>b \<in> set bs. currency (b_lineTotal b) = c \<and> currency (b_unitPrice b) = c))"
proof -
  let ?cs = "unique_in_order (map l_currency (lines_of i st)) @
    map (currency \<circ> b_lineTotal) bs @ map (currency \<circ> b_unitPrice) bs"
  have "length (unique_in_order ?cs) \<le> 1 \<longleftrightarrow> (\<exists>c. set ?cs \<subseteq> {c})"
  proof
    assume "length (unique_in_order ?cs) \<le> 1"
    then show "\<exists>c. set ?cs \<subseteq> {c}" using length_remdups_le_1 by (metis singletonI subsetI)
  next
    assume "\<exists>c. set ?cs \<subseteq> {c}"
    then obtain c where "set (unique_in_order ?cs) \<subseteq> {c}" by auto
    then have "card (set (unique_in_order ?cs)) \<le> 1" by (metis card.empty card_mono finite.emptyI finite_insert is_singletonI is_singleton_altdef)
    then show "length (unique_in_order ?cs) \<le> 1" by (metis distinct_card distinct_unique_in_order)
  qed
  then show ?thesis by (auto simp: assertSingleCurrency_def guard_r_Inr_iff image_subset_iff)
qed

definition billed_ok :: "billed_line \<Rightarrow> bool" where
  "billed_ok b \<longleftrightarrow> money_ok (b_unitPrice b) \<and> money_ok (b_lineTotal b)"

text \<open>A bill does nothing (no lines, or a replay), or appends one line per billable line.\<close>

lemma bill_Inr:
  assumes "bill cx ty d customer bs st = Inr st'"
  obtains (quiet) "st' = st" "bs = [] \<or> list_ex (of_document ty d) (inv_lines st)"
  | (billed) u new ids c where "bs \<noteq> []" "\<not> list_ex (of_document ty d) (inv_lines st)"
    "inv_underlag st' = inv_underlag st @ new" "billing_target customer (inv_underlag st) new u"
    "length ids = length bs" "inv_lines st' = inv_lines st @ map2 (stored_of cx (u_id u) ty d) ids bs"
    "distinct ids" "set ids \<inter> l_id ` set (inv_lines st) = {}"
    "\<forall>l \<in> set (lines_of (u_id u) st). l_currency l = c"
    "\<forall>b \<in> set bs. currency (b_lineTotal b) = c \<and> currency (b_unitPrice b) = c"
proof (cases "bs = [] \<or> list_ex (of_document ty d) (inv_lines st)")
  case True
  with assms have "st' = st" by (auto simp: bill_def split: if_splits)
  with True quiet show thesis by blast
next
  case False
  with assms obtain u st1 st2 x where o: "openUnderlag cx customer st = Inr (u, st1)"
    and c: "assertSingleCurrency (u_id u) bs st1 = Inr x" and ins: "insertLines cx (u_id u) ty d bs st1 = Inr st2"
    and em: "emit cx (inv_event ''invoicing.underlag-updated'' 1 (u_id u)
          (JObj [(''underlagId'', JStr (u_id u)), (''addedLines'', JNum (int (length bs))),
                 (''source'', json_ref \<lparr>entityType = ty, entityId = d\<rparr>)])) st2 = Inr st'"
    by (auto simp: bill_def bind_r_Inr_iff split: if_splits)
  from o obtain new where new: "inv_underlag st1 = inv_underlag st @ new"
    "billing_target customer (inv_underlag st) new u" and l1: "inv_lines st1 = inv_lines st"
    by (rule openUnderlag_Inr)
  from c obtain cur where cur: "\<forall>l \<in> set (lines_of (u_id u) st). l_currency l = cur"
    "\<forall>b \<in> set bs. currency (b_lineTotal b) = cur \<and> currency (b_unitPrice b) = cur"
    by (auto simp: assertSingleCurrency_Inr lines_of_cong [OF l1])
  from insertLines_Inr [OF ins] obtain ids where ids: "length ids = length bs"
    "inv_lines st2 = inv_lines st @ map2 (stored_of cx (u_id u) ty d) ids bs" "distinct ids"
    "set ids \<inter> l_id ` set (inv_lines st) = {}" "inv_underlag st2 = inv_underlag st1" by (auto simp: l1)
  show thesis
  proof (rule billed)
    show "inv_underlag st' = inv_underlag st @ new" "inv_lines st' = inv_lines st @ map2 (stored_of cx (u_id u) ty d) ids bs"
      using ids(2,5) new(1) inv_emit_tables [OF em] by simp_all
  qed (use False new(2) ids cur in auto)
qed

lemma z_line_ok: "z_line j = Some b \<Longrightarrow> billed_ok b"
  by (auto simp: z_line_def z_prop_def bind_eq_Some_conv billed_ok_def dest: z_money_Some)

lemma z_sourced_line_ok: "z_sourced_line j = Some b \<Longrightarrow> billed_ok b"
  by (auto simp: z_sourced_line_def bind_eq_Some_conv billed_ok_def dest: z_line_ok [unfolded billed_ok_def])

lemma z_array_ok: "z_array view j = Some bs \<Longrightarrow> (\<And>x b. view x = Some b \<Longrightarrow> P b) \<Longrightarrow> b \<in> set bs \<Longrightarrow> P b"
proof (cases j)
  case (JArr js)
  assume "z_array view j = Some bs" and P: "\<And>x b. view x = Some b \<Longrightarrow> P b" and "b \<in> set bs"
  with JArr have "Some b \<in> set (map view js)" by (auto dest: those_Some)
  then obtain x where "view x = Some b" by auto
  then show "P b" by (rule P)
qed simp_all

lemma completedPayload_ok: "completedPayload j = Some p \<Longrightarrow> b \<in> set (cp_billable p) \<Longrightarrow> billed_ok b"
  by (auto simp: completedPayload_def z_prop_def bind_eq_Some_conv intro: z_array_ok [OF _ z_sourced_line_ok])

lemma commercePlacedPayload_ok: "commercePlacedPayload j = Some p \<Longrightarrow> b \<in> set (op_billable p) \<Longrightarrow> billed_ok b"
  by (auto simp: commercePlacedPayload_def z_prop_def bind_eq_Some_conv intro: z_array_ok [OF _ z_line_ok])

lemma timesheetClosedPayload_ok: "timesheetClosedPayload j = Some p \<Longrightarrow> b \<in> set (pc_billable p) \<Longrightarrow> billed_ok b"
  by (auto simp: timesheetClosedPayload_def z_prop_def bind_eq_Some_conv intro: z_array_ok [OF _ z_line_ok])

text \<open>The tables across one committed call: a bill, an export, or nothing.\<close>

inductive ledger_step :: "'a inv_store_scheme \<Rightarrow> 'a inv_store_scheme \<Rightarrow> bool" where
  billed: "\<lbrakk>bill cx ty d customer bs st = Inr st'; \<forall>b \<in> set bs. billed_ok b\<rbrakk> \<Longrightarrow> ledger_step st st'"
| exported: "\<lbrakk>underlag_at (u_id u) st = Some u; u_status u = ''open'';
      inv_underlag st' = update_where (\<lambda>r. u_id r = u_id u)
        (\<lambda>r. r\<lparr>u_status := ''exported'', u_exported_at := Some at\<rparr>) (inv_underlag st);
      inv_lines st' = inv_lines st\<rbrakk> \<Longrightarrow> ledger_step st st'"
| untouched: "\<lbrakk>inv_underlag st' = inv_underlag st; inv_lines st' = inv_lines st\<rbrakk> \<Longrightarrow> ledger_step st st'"

lemma export_edge:
  "transitionFor invoicingLifecycle s ''invoicing/export'' = (if s = ''open'' then Some (Transition ''exported'') else None)"
  by (simp add: transitionFor_def invoicingLifecycle_def)

lemma export_only_edge:
  "transitionFor invoicingLifecycle a op = Some (Transition b) \<longleftrightarrow> a = ''open'' \<and> op = ''invoicing/export'' \<and> b = ''exported''"
  by (auto simp: transitionFor_def invoicingLifecycle_def split: if_splits)

lemma exportOp_Inr:
  assumes "exportOp cx i cur st = Inr (r, st')"
  obtains u st1 tot where "require cx ''invoicing:export'' None st = Inr st1" "underlag_at i st = Some u" "u_id u = i"
    "u_status u = ''open''" "underlagTotalMoney i cur st1 = Inr tot"
    "inv_underlag st' = update_where (\<lambda>r. u_id r = i)
       (\<lambda>r. r\<lparr>u_status := ''exported'', u_exported_at := Some (cx_at cx)\<rparr>) (inv_underlag st)"
    "inv_lines st' = inv_lines st" "underlag_at i st' = Some r"
    "\<exists>ev. outbox st' = outbox st1 @ [ev] \<and> ob_type ev = ''invoicing.underlag-exported'' \<and>
      ob_payload ev = JObj [(''underlagId'', JStr i), (''number'', JNum (u_number u)), (''total'', json_money tot)]"
proof -
  from assms obtain st1 u x tot st2 where rq: "require cx ''invoicing:export'' None st = Inr st1"
    and u: "underlag_or_not_found i st1 = Inr u" and g: "transitionFor invoicingLifecycle (u_status u) ''invoicing/export'' \<noteq> None"
    and tot: "underlagTotalMoney (u_id u) cur st1 = Inr tot"
    and st2: "st2 = st1\<lparr>inv_underlag := update_where (\<lambda>r. u_id r = u_id u)
       (\<lambda>r. r\<lparr>u_status := ''exported'', u_exported_at := Some (cx_at cx)\<rparr>) (inv_underlag st1)\<rparr>"
    and em: "emit cx (inv_event ''invoicing.underlag-exported'' 2 (u_id u)
       (JObj [(''underlagId'', JStr (u_id u)), (''number'', JNum (u_number u)), (''total'', json_money tot)])) st2 = Inr st'"
    and r: "underlag_at (u_id u) st' = Some r"
    unfolding exportOp_def Let_def bind_r_Inr_iff guard_r_Inr_iff storedUnderlag_Inr
    by (auto simp: bind_r_Inr_iff storedUnderlag_Inr split: option.splits)
  note t1 = inv_require_tables [OF rq]
  from u have at: "underlag_at i st = Some u" by (auto simp: underlag_or_not_found_def underlag_at_def t1 split: option.splits)
  then have id: "u_id u = i" by (auto simp: underlag_at_def dest: row_where_SomeD)
  have "u_status u = ''open''" using g by (auto simp: export_edge split: if_splits)
  from that [OF rq at id this] tot r emit_Inr(2) [OF em] inv_emit_tables [OF em] t1
  show thesis by (auto simp: id st2 inv_event_def)
qed

section \<open>The invariant of the ledger\<close>

definition line_money :: "underlag_line \<Rightarrow> money" where
  "line_money l = \<lparr>amount = l_line_total_amount l, currency = l_currency l\<rparr>"

definition same_customer :: "underlag_row \<Rightarrow> underlag_row \<Rightarrow> bool" where
  "same_customer u v \<longleftrightarrow> u_customer_type u = u_customer_type v \<and> u_customer_id u = u_customer_id v"

text \<open>Bases: unique ids and numbers, dated exactly when exported, one open basis per customer.\<close>

definition basis_inv :: "underlag_row list \<Rightarrow> bool" where
  "basis_inv us \<longleftrightarrow>
     distinct (map u_id us) \<and> distinct (map u_number us) \<and>
     (\<forall>u \<in> set us. u_status u \<in> set underlag_statuses \<and> (u_exported_at u \<noteq> None \<longleftrightarrow> u_status u = ''exported'')) \<and>
     (\<forall>u \<in> set us. \<forall>v \<in> set us. u_status u = ''open'' \<and> u_status v = ''open'' \<and> same_customer u v \<longrightarrow> u = v)"

text \<open>Lines: unique ids, on a basis, in money, one currency to a basis and one basis to a document.\<close>

definition lines_inv :: "string set \<Rightarrow> underlag_line list \<Rightarrow> bool" where
  "lines_inv ids ls \<longleftrightarrow>
     distinct (map l_id ls) \<and> l_underlag_id ` set ls \<subseteq> ids \<and>
     (\<forall>l \<in> set ls. money_ok (line_money l) \<and> moneyAmount (l_unit_price_amount l)) \<and>
     (\<forall>l \<in> set ls. \<forall>m \<in> set ls. l_underlag_id l = l_underlag_id m \<longrightarrow> l_currency l = l_currency m) \<and>
     (\<forall>l \<in> set ls. \<forall>m \<in> set ls. of_document (l_document_type m) (l_document_id m) l \<longrightarrow>
        l_underlag_id l = l_underlag_id m)"

definition ledger_inv :: "'a inv_store_scheme \<Rightarrow> bool" where
  "ledger_inv st \<longleftrightarrow> basis_inv (inv_underlag st) \<and> lines_inv (u_id ` set (inv_underlag st)) (inv_lines st)"

lemma lines_inv_currency:
  "lines_inv ids ls \<Longrightarrow> l \<in> set ls \<Longrightarrow> m \<in> set ls \<Longrightarrow> l_underlag_id l = l_underlag_id m \<Longrightarrow> l_currency l = l_currency m"
  unfolding lines_inv_def by blast

lemma unique_underlag:
  "distinct (map u_id us) \<Longrightarrow> u \<in> set us \<Longrightarrow> v \<in> set us \<Longrightarrow> u_id u = u_id v \<Longrightarrow> u = v"
  by (meson distinct_map inj_onD)

lemma billing_target_mem: "billing_target c us new u \<Longrightarrow> u \<in> set (us @ new)"
  by (auto simp: billing_target_def dest: row_where_SomeD)

lemma billing_target_basis:
  assumes "basis_inv us" and "billing_target c us new u"
  shows "basis_inv (us @ new)"
proof (cases "new = []")
  case True
  then show ?thesis using assms(1) by simp
next
  case False
  with assms(2) have new: "new = [u]" and none: "\<forall>v \<in> set us. \<not> is_open_for c v" and "is_open_for c u"
    and fresh: "\<forall>v \<in> set us. u_id v \<noteq> u_id u \<and> u_number v \<noteq> u_number u" and "u_exported_at u = None"
    by (auto simp: billing_target_def row_where_None list_ex_iff underlag_clash_def)
  have "\<forall>v \<in> set us. u_status v = ''open'' \<longrightarrow> \<not> same_customer v u \<and> \<not> same_customer u v"
    using none \<open>is_open_for c u\<close> by (auto simp: is_open_for_def same_customer_def)
  then show ?thesis
    using assms(1) fresh \<open>is_open_for c u\<close> \<open>u_exported_at u = None\<close>
    by (auto simp: new basis_inv_def is_open_for_def underlag_statuses_def)
qed

lemma exported_basis:
  assumes "basis_inv us" and "f = (\<lambda>r. r\<lparr>u_status := ''exported'', u_exported_at := Some at\<rparr>)"
  shows "basis_inv (update_where (\<lambda>r. u_id r = i) f us)"
proof -
  have keys: "map u_id (update_where (\<lambda>r. u_id r = i) f us) = map u_id us"
    "map u_number (update_where (\<lambda>r. u_id r = i) f us) = map u_number us"
    by (auto intro: map_update_where simp: assms(2))
  show ?thesis
    using assms(1) unfolding basis_inv_def keys by (auto simp: set_update_where assms(2) underlag_statuses_def)
qed

lemma billed_lines:
  assumes "lines_inv ids ls" and "\<not> list_ex (of_document ty d) ls" and "i \<in> ids'" and "ids \<subseteq> ids'"
    and "length ns = length bs" and "distinct ns" and "set ns \<inter> l_id ` set ls = {}" and "\<forall>b \<in> set bs. billed_ok b"
    and "\<forall>l \<in> set ls. l_underlag_id l = i \<longrightarrow> l_currency l = c"
    and "\<forall>b \<in> set bs. currency (b_lineTotal b) = c \<and> currency (b_unitPrice b) = c"
  shows "lines_inv ids' (ls @ map2 (stored_of cx i ty d) ns bs)"
proof -
  let ?new = "map2 (stored_of cx i ty d) ns bs"
  have new: "l_underlag_id l = i \<and> l_document_type l = ty \<and> l_document_id l = d \<and> l_currency l = c \<and>
      money_ok (line_money l) \<and> moneyAmount (l_unit_price_amount l)" if "l \<in> set ?new" for l
  proof -
    from that obtain n b where l: "l = stored_of cx i ty d n b" and "b \<in> set bs" by (auto dest: set_zip_rightD)
    with assms(8,10) have "billed_ok b" "currency (b_lineTotal b) = c" "currency (b_unitPrice b) = c" by auto
    then show ?thesis by (auto simp: l stored_of_def line_money_def billed_ok_def money_ok_def)
  qed
  have ids: "map l_id ?new = ns" using assms(5) by (auto simp: stored_of_def comp_def intro: nth_equalityI)
  then have keys: "distinct (map l_id (ls @ ?new))"
    using assms(1,6,7) unfolding map_append ids by (auto simp: lines_inv_def)
  have old: "l_underlag_id ` set ls \<subseteq> ids'" "\<forall>l \<in> set ls. \<not> of_document ty d l"
    using assms(1,2,4) by (auto simp: lines_inv_def list_ex_iff)
  show ?thesis
    unfolding lines_inv_def
  proof (intro conjI)
    show "\<forall>l \<in> set (ls @ ?new). money_ok (line_money l) \<and> moneyAmount (l_unit_price_amount l)"
      using new assms(1) unfolding set_append lines_inv_def by blast
    show "\<forall>l \<in> set (ls @ ?new). \<forall>m \<in> set (ls @ ?new). l_underlag_id l = l_underlag_id m \<longrightarrow> l_currency l = l_currency m"
      using new assms(1,9) unfolding set_append lines_inv_def by (metis Un_iff)
    show "\<forall>l \<in> set (ls @ ?new). \<forall>m \<in> set (ls @ ?new). of_document (l_document_type m) (l_document_id m) l \<longrightarrow>
        l_underlag_id l = l_underlag_id m"
      using new assms(1) old(2) unfolding set_append lines_inv_def of_document_def by (metis Un_iff)
    show "l_underlag_id ` set (ls @ ?new) \<subseteq> ids'" using new old(1) assms(3) unfolding set_append by blast
  qed (rule keys)
qed

lemma ledger_step_inv: "ledger_step st st' \<Longrightarrow> ledger_inv st \<Longrightarrow> ledger_inv st'"
proof (induction rule: ledger_step.induct)
  case (billed cx ty d customer bs st st')
  from billed.hyps(1) show ?case
  proof (cases rule: bill_Inr)
    case quiet
    then show ?thesis using billed.prems by simp
  next
    case (billed u new ids c)
    note b = this
    have inv: "basis_inv (inv_underlag st)" "lines_inv (u_id ` set (inv_underlag st)) (inv_lines st)"
      using \<open>ledger_inv st\<close> by (simp_all add: ledger_inv_def)
    have u: "u_id u \<in> u_id ` set (inv_underlag st')" unfolding b(3) using billing_target_mem [OF b(4)] by blast
    have "lines_inv (u_id ` set (inv_underlag st')) (inv_lines st')"
      unfolding b(6)
      by (rule billed_lines [OF inv(2) b(2) u _ b(5) b(7,8) _ _ b(10)])
        (use b(3,9) \<open>\<forall>b \<in> set bs. billed_ok b\<close> in \<open>auto simp: lines_of_def\<close>)
    then show ?thesis using billing_target_basis [OF inv(1) b(4)] by (simp add: ledger_inv_def b(3))
  qed
next
  case (exported u st st' at)
  have "map u_id (inv_underlag st') = map u_id (inv_underlag st)"
    unfolding exported(3) by (intro map_update_where) simp
  then have "u_id ` set (inv_underlag st') = u_id ` set (inv_underlag st)" by (metis set_map)
  with exported show ?case using exported_basis [OF _ refl] by (simp add: ledger_inv_def)
next
  case (untouched st' st)
  then show ?case by (simp add: ledger_inv_def)
qed

section \<open>Runs\<close>

text \<open>The engine's consumers, by the event type they are registered for.\<close>

definition invoicingConsumers ::
  "(string \<times> (op_ctx \<Rightarrow> json \<Rightarrow> 'a inv_store_scheme \<Rightarrow> 'a inv_store_scheme result)) list" where
  "invoicingConsumers =
     [(''workorder.completed'', onWorkOrderCompleted), (''commerce.order-placed'', onCommerceOrderPlaced),
      (''timesheet.period-closed'', onTimesheetPeriodClosed)]"

text \<open>
  One committed call in a scope with this engine installed: a delivery, an operation, or another
  module's call, which cannot write this engine's tables.
\<close>

inductive inv_step :: "'a inv_store_scheme \<Rightarrow> 'a inv_store_scheme \<Rightarrow> bool" where
  consumed: "(ty, h) \<in> set invoicingConsumers \<Longrightarrow> h cx payload st = Inr st' \<Longrightarrow> inv_step st st'"
| exports: "exportOp cx i cur st = Inr (r, st') \<Longrightarrow> inv_step st st'"
| reads: "getOp cx i st = Inr (x, st') \<Longrightarrow> inv_step st st'"
| elsewhere: "inv_underlag st' = inv_underlag st \<Longrightarrow> inv_lines st' = inv_lines st \<Longrightarrow> inv_step st st'"

text \<open>What a consumer does with a payload it accepts: bill one document, or pass.\<close>

lemma consumer_bills:
  assumes "(ty, h) \<in> set invoicingConsumers" and "h cx j st = Inr st'"
  obtains (passed) "\<And>cx' s. h cx' j s = Inr s" "st' = st"
  | (bills) dt d c bs where "\<And>cx' s. h cx' j s = bill cx' dt d c bs s" "\<forall>b \<in> set bs. billed_ok b"
proof -
  from assms(1) consider "h = onWorkOrderCompleted" | "h = onCommerceOrderPlaced" | "h = onTimesheetPeriodClosed"
    by (auto simp: invoicingConsumers_def)
  then show thesis
  proof cases
    case 1
    with assms(2) obtain p where p: "completedPayload j = Some p"
      by (auto simp: onWorkOrderCompleted_def bind_r_Inr_iff parse_as_Inr)
    show thesis
      by (rule bills) (use 1 p completedPayload_ok [OF p] in \<open>auto simp: onWorkOrderCompleted_def parse_as_def\<close>)
  next
    case 2
    with assms(2) obtain p where p: "commercePlacedPayload j = Some p"
      by (auto simp: onCommerceOrderPlaced_def bind_r_Inr_iff parse_as_Inr)
    show thesis
    proof (cases "op_paymentMethod p = ''invoice''")
      case True
      show thesis
        by (rule bills) (use 2 p True commercePlacedPayload_ok [OF p] in \<open>auto simp: onCommerceOrderPlaced_def parse_as_def\<close>)
    next
      case False
      show thesis by (rule passed) (use 2 p False assms(2) in \<open>auto simp: onCommerceOrderPlaced_def parse_as_def\<close>)
    qed
  next
    case 3
    with assms(2) obtain p where p: "timesheetClosedPayload j = Some p"
      by (auto simp: onTimesheetPeriodClosed_def bind_r_Inr_iff parse_as_Inr)
    show thesis
      by (rule bills) (use 3 p timesheetClosedPayload_ok [OF p] in \<open>auto simp: onTimesheetPeriodClosed_def parse_as_def\<close>)
  qed
qed

lemma getOp_Inr:
  assumes "getOp cx i st = Inr (x, st')"
  shows "inv_underlag st' = inv_underlag st" "inv_lines st' = inv_lines st"
    and "l \<in> set (lines_of i st) \<Longrightarrow> decimalAmount (l_qty l)"
proof -
  from assms obtain st1 ls where rq: "require cx ''invoicing:read'' None st = Inr st1" and st1: "st' = st1"
    and tr: "traverse storedLine (sort_key l_id (lines_of i st1)) = Inr ls"
    by (auto simp: getOp_def bind_r_Inr_iff)
  note t1 = inv_require_tables [OF rq]
  show "inv_underlag st' = inv_underlag st" "inv_lines st' = inv_lines st" using t1 st1 by simp_all
  assume "l \<in> set (lines_of i st)"
  then have "l \<in> set (sort_key l_id (lines_of i st1))" by (simp add: lines_of_cong [OF t1(2)])
  then obtain l' where "storedLine l = Inr l'"
    using traverse_Inr_arg [OF tr] by blast
  then show "decimalAmount (l_qty l)" by (simp add: storedLine_def returns_Inr)
qed

lemma inv_step_ledger: "inv_step st st' \<Longrightarrow> ledger_step st st'"
proof (induction rule: inv_step.induct)
  case (consumed ty h cx payload st st')
  from consumed show ?case
  proof (cases rule: consumer_bills)
    case passed
    then show ?thesis by (simp add: ledger_step.untouched)
  next
    case (bills dt d c bs)
    then show ?thesis using consumed(2) by (auto intro: ledger_step.billed)
  qed
next
  case (exports cx i cur st r st')
  then show ?case by (rule exportOp_Inr) (auto intro: ledger_step.exported)
next
  case (reads cx i st x st')
  then show ?case by (intro ledger_step.untouched) (rule getOp_Inr; assumption)+
next
  case (elsewhere st' st)
  then show ?case by (rule ledger_step.untouched)
qed

lemma inv_run_ledger: "inv_step\<^sup>*\<^sup>* st st' \<Longrightarrow> ledger_inv st \<Longrightarrow> ledger_inv st'"
  by (induction rule: rtranclp_induct) (blast intro: ledger_step_inv inv_step_ledger)+

definition underlag_status :: "'a inv_store_scheme \<Rightarrow> string \<Rightarrow> string option" where
  "underlag_status st i = map_option u_status (underlag_at i st)"

lemma underlag_at_id: "underlag_at i st = Some u \<Longrightarrow> u_id u = i \<and> u \<in> set (inv_underlag st)"
  unfolding underlag_at_def by (auto dest: row_where_SomeD)

lemma underlag_at_append:
  "inv_underlag st' = inv_underlag st @ new \<Longrightarrow> underlag_at i st = Some u \<Longrightarrow> underlag_at i st' = Some u"
  by (simp add: underlag_at_def row_where_append)

lemma underlag_at_exported:
  assumes "inv_underlag st' = update_where (\<lambda>r. u_id r = k) f (inv_underlag st)" and "\<And>r. u_id (f r) = u_id r"
  shows "underlag_at i st' = map_option (\<lambda>r. if u_id r = k then f r else r) (underlag_at i st)"
  unfolding underlag_at_def assms(1) by (rule row_where_update_where) (simp add: assms(2))

lemma ledger_step_born:
  assumes "ledger_step st st'" and "underlag_status st i = None" and "underlag_status st' i = Some a"
  shows "a = ''open''"
  using assms
proof (induction rule: ledger_step.induct)
  case (billed cx ty d customer bs st st')
  from billed(1) show ?case
  proof (cases rule: bill_Inr)
    case (billed u new ids c)
    with \<open>underlag_status st i = None\<close> \<open>underlag_status st' i = Some a\<close> show ?thesis
      by (auto simp: underlag_status_def underlag_at_def row_where_append billing_target_def is_open_for_def
          split: if_splits)
  qed (use billed in simp)
next
  case (exported u st st' at)
  then show ?case using underlag_at_exported [OF exported(3), of i] by (simp add: underlag_status_def)
qed (simp add: underlag_status_def underlag_at_def)

lemma ledger_step_moves:
  assumes "ledger_step st st'" and "underlag_status st i = Some a"
  shows "\<exists>b. underlag_status st' i = Some b \<and>
    (b = a \<or> (\<exists>op. transitionFor invoicingLifecycle a op = Some (Transition b)))"
  using assms
proof (induction rule: ledger_step.induct)
  case (billed cx ty d customer bs st st')
  from billed(1) show ?case
  proof (cases rule: bill_Inr)
    case (billed u new ids c)
    with \<open>underlag_status st i = Some a\<close> underlag_at_append [OF billed(3)] show ?thesis
      by (auto simp: underlag_status_def)
  qed (use billed in simp)
next
  case (exported u st st' at)
  from exported(5) obtain z where z: "underlag_at i st = Some z" "a = u_status z" by (auto simp: underlag_status_def)
  have at': "underlag_at i st' = map_option (\<lambda>r. if u_id r = u_id u
      then r\<lparr>u_status := ''exported'', u_exported_at := Some at\<rparr> else r) (underlag_at i st)"
    using exported(3) by (rule underlag_at_exported) simp
  show ?case
  proof (cases "i = u_id u")
    case True
    with exported(1,2) z have "z = u" "a = ''open''" by simp_all
    with at' z True show ?thesis by (simp add: underlag_status_def export_only_edge)
  next
    case False
    with z underlag_at_id [OF z(1)] at' show ?thesis by (simp add: underlag_status_def)
  qed
qed (auto simp: underlag_status_def underlag_at_def)

lemma invoicing_coherent: "coherent invoicingLifecycle"
  by (simp add: coherent_def state_coherent_def invoicingLifecycle_def state_names_def)

interpretation inv: governed_store invoicingLifecycle underlag_status inv_step
proof
  show "coherent invoicingLifecycle" by (rule invoicing_coherent)
  show "a = initial invoicingLifecycle"
    if "inv_step s s'" "underlag_status s i = None" "underlag_status s' i = Some a" for s s' :: "'a inv_store_scheme" and i a
    using ledger_step_born [OF inv_step_ledger [OF that(1)] that(2,3)] by (simp add: invoicingLifecycle_def)
  show "\<exists>b. underlag_status s' i = Some b \<and> (b = a \<or> (\<exists>op. transitionFor invoicingLifecycle a op = Some (Transition b)))"
    if "inv_step s s'" "underlag_status s i = Some a" for s s' :: "'a inv_store_scheme" and i a
    using inv_step_ledger [OF that(1)] that(2) by (rule ledger_step_moves)
qed

section \<open>Totals\<close>

lemma moneyAmount_decimal: "moneyAmount s \<Longrightarrow> decimalAmount s"
proof -
  define b where "b = (if startsWith s ''-'' then drop 1 s else s)"
  assume "moneyAmount s"
  then have "decimalString b" by (simp add: moneyAmount_def b_def)
  then show "decimalAmount s"
    unfolding decimalAmount_def b_def [symmetric] decimalString_def Let_def
    by (auto simp only: split: list.splits)
qed

lemma total_unfold:
  assumes "lines_inv ids (inv_lines st)"
  shows "underlagTotalMoney i cur st =
    (case lines_of i st of
       [] \<Rightarrow> moneyOf ''0'' (case cur of Some d \<Rightarrow> d | None \<Rightarrow> ''SEK'')
     | l # ls \<Rightarrow>
         bind_r (case cur of Some d \<Rightarrow> guard_r (d = l_currency l) (inv_conflict ''currency_mismatch''
             (''currency mismatch on underlag '' @ i @ '': declared '' @ d @ '', its lines are in '' @ l_currency l))
           | None \<Rightarrow> Inr ()) (\<lambda>_. sum_money (line_money l) (map line_money ls)))"
proof -
  have ok: "money_ok (line_money l)" if "l \<in> set (lines_of i st)" for l
    using assms that by (auto simp: lines_inv_def lines_of_def)
  have "traverse (lineAmount i) (lines_of i st) = Inr (map (\<lambda>l. (l_line_total_amount l, l_currency l)) (lines_of i st))"
    by (rule traverse_total)
      (use ok moneyAmount_decimal in \<open>auto simp: lineAmount_def returns_def money_ok_def line_money_def\<close>)
  moreover have "traverse (\<lambda>(am, c). moneyOf am c) (map (\<lambda>l. (l_line_total_amount l, l_currency l)) xs) =
      Inr (map line_money xs)" if "\<forall>l \<in> set xs. money_ok (line_money l)" for xs
    using that by (induction xs) (auto simp: moneyOf_def money_ok_def line_money_def)
  then have "traverse (\<lambda>(am, c). moneyOf am c) (map (\<lambda>l. (l_line_total_amount l, l_currency l)) (lines_of i st)) =
      Inr (map line_money (lines_of i st))" using ok by blast
  ultimately show ?thesis
    by (cases "lines_of i st"; cases cur) (simp_all add: underlagTotalMoney_def)
qed

lemma total_exact:
  assumes "lines_inv ids (inv_lines st)" and "lines_of i st = l # ls" and "cur = None \<or> cur = Some (l_currency l)"
  shows "\<exists>m. underlagTotalMoney i cur st = Inr m \<and> money_ok m \<and> currency m = l_currency l \<and>
    micros m = sum_list (map (micros \<circ> line_money) (l # ls))"
proof -
  have mem: "x \<in> set (inv_lines st) \<and> l_underlag_id x = i" if "x \<in> set (l # ls)" for x
  proof -
    from that have "x \<in> set (lines_of i st)" by (simp add: assms(2))
    then show ?thesis by (simp add: lines_of_def)
  qed
  then have ok: "money_ok (line_money x)" if "x \<in> set (l # ls)" for x
    using assms(1) that unfolding lines_inv_def by blast
  have cur: "currency (line_money x) = currency (line_money l)" if "x \<in> set ls" for x
    using lines_inv_currency [OF assms(1), of x l] mem [of x] mem [of l] that by (simp add: line_money_def)
  from ok cur have "money_ok (line_money l)" "list_all money_ok (map line_money ls)"
    "list_all (\<lambda>m. currency m = currency (line_money l)) (map line_money ls)"
    by (auto simp: list_all_iff)
  from sum_money_same [OF this] obtain m where "sum_money (line_money l) (map line_money ls) = Inr m" "money_ok m"
    "currency m = currency (line_money l)" "micros m = micros (line_money l) + sum_list (map micros (map line_money ls))"
    by blast
  moreover from this(1) have "underlagTotalMoney i cur st = Inr m"
    using assms(2,3) by (auto simp: total_unfold [OF assms(1)])
  ultimately show ?thesis by (simp add: comp_def line_money_def)
qed

lemma total_cong:
  assumes "lines_of i st' = lines_of i st"
  shows "underlagTotalMoney i cur st' = underlagTotalMoney i cur st"
  unfolding underlagTotalMoney_def assms ..

section \<open>What stays\<close>

lemma ledger_step_document:
  assumes "ledger_step st st'" and "list_ex (of_document ty d) (inv_lines st)"
  shows "filter (of_document ty d) (inv_lines st') = filter (of_document ty d) (inv_lines st)"
  using assms
proof (induction rule: ledger_step.induct)
  case (billed cx ty' d' customer bs st st')
  from billed(1) show ?case
  proof (cases rule: bill_Inr)
    case (billed u new ids c)
    with \<open>list_ex (of_document ty d) (inv_lines st)\<close> have "ty' \<noteq> ty \<or> d' \<noteq> d" by blast
    then have "\<not> of_document ty d l" if "l \<in> set (map2 (stored_of cx (u_id u) ty' d') ids bs)" for l
      using that by (auto simp: of_document_def stored_of_def)
    then have "filter (of_document ty d) (map2 (stored_of cx (u_id u) ty' d') ids bs) = []"
      by (simp only: filter_empty_conv not_False_eq_True) blast
    then show ?thesis unfolding billed(6) filter_append by simp
  qed simp
qed simp_all

lemma inv_run_document:
  assumes "inv_step\<^sup>*\<^sup>* st st'" and "list_ex (of_document ty d) (inv_lines st)"
  shows "filter (of_document ty d) (inv_lines st') = filter (of_document ty d) (inv_lines st)"
  using assms
proof (induction rule: rtranclp_induct)
  case (step y z)
  then have eq: "filter (of_document ty d) (inv_lines y) = filter (of_document ty d) (inv_lines st)" by simp
  have "list_ex (of_document ty d) (inv_lines y)"
    using step.prems eq by (metis filter_empty_conv list_ex_iff)
  with ledger_step_document [OF inv_step_ledger [OF step.hyps(2)]] eq show ?case by simp
qed simp

lemma ledger_step_frozen:
  assumes "ledger_step st st'" and "ledger_inv st" and "underlag_at i st = Some u" and "u_status u = ''exported''"
  shows "underlag_at i st' = Some u \<and> lines_of i st' = lines_of i st"
  using assms
proof (induction rule: ledger_step.induct)
  case (billed cx ty d customer bs st st')
  from billed(1) show ?case
  proof (cases rule: bill_Inr)
    case quiet
    then show ?thesis using billed.prems by simp
  next
    case (billed v new ids c)
    have "basis_inv (inv_underlag st @ new)"
      using \<open>ledger_inv st\<close> billing_target_basis [OF _ billed(4)] by (simp add: ledger_inv_def)
    then have d: "distinct (map u_id (inv_underlag st @ new))" by (simp add: basis_inv_def)
    have "u_status v = ''open''" using billed(4) by (simp add: billing_target_def is_open_for_def)
    then have "u_id v \<noteq> i"
      using unique_underlag [OF d billing_target_mem [OF billed(4)], of u] underlag_at_id [OF \<open>underlag_at i st = Some u\<close>]
        \<open>u_status u = ''exported''\<close> by auto
    then have "filter (\<lambda>l. l_underlag_id l = i) (map2 (stored_of cx (u_id v) ty d) ids bs) = []"
      by (auto simp: filter_empty_conv stored_of_def)
    then show ?thesis
      using underlag_at_append [OF billed(3) \<open>underlag_at i st = Some u\<close>] unfolding lines_of_def billed(6) filter_append by simp
  qed
next
  case (exported v st st' at)
  from exported(1,2,6,7) have "u_id v \<noteq> i" by auto
  moreover have "underlag_at i st' = map_option (\<lambda>r. if u_id r = u_id v
      then r\<lparr>u_status := ''exported'', u_exported_at := Some at\<rparr> else r) (underlag_at i st)"
    using exported(3) by (rule underlag_at_exported) simp
  ultimately have "underlag_at i st' = Some u" using exported(6) underlag_at_id [OF exported(6)] by simp
  with exported(4) show ?case by (simp add: lines_of_def)
qed (simp add: lines_of_def underlag_at_def)

lemma inv_run_frozen:
  assumes "inv_step\<^sup>*\<^sup>* st st'" and "ledger_inv st" and "underlag_at i st = Some u" and "u_status u = ''exported''"
  shows "underlag_at i st' = Some u \<and> lines_of i st' = lines_of i st"
  using assms
proof (induction rule: rtranclp_induct)
  case (step y z)
  then have "underlag_at i y = Some u" "lines_of i y = lines_of i st" "ledger_inv y"
    using inv_run_ledger [OF step.hyps(1)] by simp_all
  with ledger_step_frozen [OF inv_step_ledger [OF step.hyps(2)]] step.prems(3) show ?case by simp
qed simp

section \<open>Properties\<close>

lemma bill_documents:
  assumes "bill cx ty d c bs st = Inr st'"
  shows "bs = [] \<or> list_ex (of_document ty d) (inv_lines st')"
  using assms
proof (cases rule: bill_Inr)
  case (billed u new ids cur)
  then obtain i ids' b bs' where "ids = i # ids'" "bs = b # bs'" by (cases ids; cases bs) auto
  with billed(6) show ?thesis by (simp add: of_document_def stored_of_def)
qed auto

lemma bill_replayed: "bs = [] \<or> list_ex (of_document ty d) (inv_lines st) \<Longrightarrow> bill cx ty d c bs st = Inr st"
  by (auto simp: bill_def)

lemma bill_quantities:
  assumes "bill cx ty d c bs st = Inr st'" and "\<not> list_ex (of_document ty d) (inv_lines st)" and "b \<in> set bs"
  shows "\<exists>l \<in> set (inv_lines st'). of_document ty d l \<and> l_qty l = b_qty b \<and> underlag_at (l_underlag_id l) st' \<noteq> None"
  using assms(1)
proof (cases rule: bill_Inr)
  case quiet
  then show ?thesis using assms by auto
next
  case (billed u new ids cur)
  from assms(3) billed(5) obtain i where "(i, b) \<in> set (zip ids bs)" by (metis in_set_impl_in_set_zip2)
  then have "stored_of cx (u_id u) ty d i b \<in> set (map2 (stored_of cx (u_id u) ty d) ids bs)" by force
  then have l: "stored_of cx (u_id u) ty d i b \<in> set (inv_lines st')" by (simp add: billed(6))
  have "underlag_at (u_id u) st' \<noteq> None"
    using billing_target_mem [OF billed(4)] by (auto simp: underlag_at_def billed(3) row_where_None)
  with l show ?thesis by (force simp: of_document_def stored_of_def)
qed

lemma ledger_grows: "ledger_step st st' \<Longrightarrow> l \<in> set (inv_lines st) \<Longrightarrow> l \<in> set (inv_lines st')"
  by (induction rule: ledger_step.induct) (auto elim: bill_Inr)

lemma inv_run_grows: "inv_step\<^sup>*\<^sup>* st st' \<Longrightarrow> l \<in> set (inv_lines st) \<Longrightarrow> l \<in> set (inv_lines st')"
  by (induction rule: rtranclp_induct) (blast intro: ledger_grows inv_step_ledger)+

definition inv_empty :: inv_store where
  "inv_empty = \<lparr>tuples = [], outbox = [], passed = [], drawn = 0, wo_orders = [], wo_time = [], wo_material = [],
     inv_underlag = [], inv_lines = []\<rparr>"

definition inv_payload :: "string \<Rightarrow> json" where
  "inv_payload qty = JObj
     [(''orderId'', JStr ''O1''), (''number'', JNum 7),
      (''customer'', json_ref \<lparr>entityType = ''customer'', entityId = ''K1''\<rparr>), (''paymentMethod'', JStr ''invoice''),
      (''billable'', JArr [JObj [(''article'', JStr ''A1''), (''description'', JStr ''Tyre''), (''qty'', JStr qty),
         (''unit'', JStr ''pcs''), (''unitPrice'', json_money \<lparr>amount = ''10.5'', currency = ''SEK''\<rparr>),
         (''lineTotal'', json_money \<lparr>amount = ''21'', currency = ''SEK''\<rparr>)]]),
      (''total'', json_money \<lparr>amount = ''21'', currency = ''SEK''\<rparr>)]"

lemma demo_placed: "\<exists>s. onCommerceOrderPlaced wo_ctx (inv_payload qty) inv_empty = Inr s" if "qty \<in> {''2'', ''two''}"
proof -
  have "is_ok (onCommerceOrderPlaced wo_ctx (inv_payload ''2'') inv_empty)"
    "is_ok (onCommerceOrderPlaced wo_ctx (inv_payload ''two'') inv_empty)" by code_simp+
  with that show ?thesis by (auto dest!: is_okE)
qed

definition inv_basis :: "string \<Rightarrow> string option \<Rightarrow> inv_store" where
  "inv_basis status at = inv_empty\<lparr>
     inv_underlag := [\<lparr>u_id = ''U1'', u_number = 1, u_customer_type = ''customer'', u_customer_id = ''K1'',
       u_status = status, u_created_at = ''2025-12-01T00:00:00.000Z'', u_exported_at = at\<rparr>],
     inv_lines := [\<lparr>l_id = ''L1'', l_underlag_id = ''U1'', l_document_type = ''timesheet'', l_document_id = ''T1'',
       l_source_type = None, l_source_id = None, l_article = ''A1'', l_description = ''Work'', l_qty = ''1.5'',
       l_unit = ''h'', l_unit_price_amount = ''100'', l_currency = ''SEK'', l_line_total_amount = ''150'',
       l_created_at = ''2025-12-01T00:00:00.000Z''\<rparr>]\<rparr>"

lemma inv_basis_ledger:
  "ledger_inv (inv_basis ''open'' None)" "ledger_inv (inv_basis ''exported'' (Some ''2025-12-02T00:00:00.000Z''))"
proof -
  have "money_ok \<lparr>amount = ''150'', currency = ''SEK''\<rparr>" "moneyAmount ''100''" by code_simp+
  then show "ledger_inv (inv_basis ''open'' None)" "ledger_inv (inv_basis ''exported'' (Some ''2025-12-02T00:00:00.000Z''))"
    by (simp_all add: ledger_inv_def inv_basis_def basis_inv_def lines_inv_def underlag_statuses_def line_money_def)
qed

lemma demo_export: "\<exists>r s. exportOp wo_ctx ''U1'' None (inv_basis ''open'' None) = Inr (r, s)"
proof -
  have "is_ok (exportOp wo_ctx ''U1'' None (inv_basis ''open'' None))" by code_simp
  then show ?thesis by (rule is_ok_pairE)
qed

lemma demo_bill_late:
  "\<exists>s. onCommerceOrderPlaced wo_ctx (inv_payload ''2'') (inv_basis ''exported'' (Some ''2025-12-02T00:00:00.000Z'')) = Inr s"
proof -
  have "is_ok (onCommerceOrderPlaced wo_ctx (inv_payload ''2'') (inv_basis ''exported'' (Some ''2025-12-02T00:00:00.000Z'')))"
    by code_simp
  then show ?thesis by (rule is_okE)
qed

text \<open>
  C31. The ledger keeps its shape: whatever is delivered, exported or done by other modules, from
  empty tables every basis has a unique id and number and is dated exactly when exported, a customer
  has at most one open basis, each basis is in one currency, every document is billed on a single
  basis, every line is money on an existing basis, and each basis is in a state its lifecycle reaches.
\<close>

theorem ledger_invariant:
  assumes "inv_step\<^sup>*\<^sup>* st st'" and "inv_underlag st = []" and "inv_lines st = []"
  shows "ledger_inv st' \<and> (\<forall>i a. underlag_status st' i = Some a \<longrightarrow> lc_reach invoicingLifecycle a)"
proof -
  have "ledger_inv st" using assms(2,3) by (simp add: ledger_inv_def basis_inv_def lines_inv_def)
  moreover have "underlag_status st i = None" for i using assms(2) by (simp add: underlag_status_def underlag_at_def)
  ultimately show ?thesis using inv_run_ledger [OF assms(1)] inv.status_reachable [OF assms(1)] by auto
qed

theorem ledger_invariant_witness:
  "\<exists>s. onCommerceOrderPlaced wo_ctx (inv_payload ''2'') inv_empty = Inr s \<and> ledger_inv s"
proof -
  from demo_placed obtain s where s: "onCommerceOrderPlaced wo_ctx (inv_payload ''2'') inv_empty = Inr s" by blast
  then have "inv_step\<^sup>*\<^sup>* inv_empty s"
    by (intro r_into_rtranclp inv_step.consumed [of "''commerce.order-placed''" onCommerceOrderPlaced])
      (auto simp: invoicingConsumers_def)
  moreover have "inv_underlag inv_empty = []" "inv_lines inv_empty = []" by (simp_all add: inv_empty_def)
  ultimately show ?thesis using ledger_invariant [of inv_empty s] s by blast
qed

text \<open>The document a payload is about.\<close>

definition document_of :: "string \<Rightarrow> json \<Rightarrow> (string \<times> string) option" where
  "document_of ty j =
     (if ty = ''workorder.completed'' then map_option (\<lambda>p. (''workorder'', cp_orderId p)) (completedPayload j)
      else if ty = ''commerce.order-placed'' then map_option (\<lambda>p. (''order'', op_orderId p)) (commercePlacedPayload j)
      else if ty = ''timesheet.period-closed'' then map_option (\<lambda>p. (''timesheet'', pc_closeId p)) (timesheetClosedPayload j) else None)"

lemma billed_document_noop:
  assumes "(ty, h) \<in> set invoicingConsumers" and "document_of ty j = Some (dt, d)" and "list_ex (of_document dt d) (inv_lines st)"
  shows "h cx j st = Inr st"
  using assms
  by (auto simp: invoicingConsumers_def document_of_def onWorkOrderCompleted_def onCommerceOrderPlaced_def onTimesheetPeriodClosed_def
    parse_as_def bill_replayed)

lemma inv_run_billed:
  assumes "inv_step\<^sup>*\<^sup>* st st'" and "list_ex (of_document dt d) (inv_lines st)"
  shows "list_ex (of_document dt d) (inv_lines st')"
  using inv_run_document [OF assms] assms(2) by (metis filter_empty_conv list_ex_iff)

text \<open>
  C34. Redelivery is harmless: once a consumer has accepted a payload, delivering the same payload
  again, at any later point of any run and in any context, returns the store unchanged and emits
  nothing.  And once a line of a document is on the ledger, so does any payload about that document,
  whatever lines, customer or total it states.  At-least-once delivery cannot bill a document twice.
\<close>

theorem redelivery_is_noop:
  assumes "(ty, h) \<in> set invoicingConsumers" and "h cx payload st = Inr st'" and "inv_step\<^sup>*\<^sup>* st' st''"
  shows "h cx' payload st'' = Inr st'' \<and>
    (\<forall>(ty', h') \<in> set invoicingConsumers. \<forall>payload' dt d.
       document_of ty' payload' = Some (dt, d) \<longrightarrow> list_ex (of_document dt d) (inv_lines st') \<longrightarrow> h' cx' payload' st'' = Inr st'')"
proof
  show "h cx' payload st'' = Inr st''"
    using assms(1,2)
  proof (cases rule: consumer_bills)
    case passed
    then show ?thesis by blast
  next
    case (bills dt d c bs)
    from bills(1) assms(2) have "bill cx dt d c bs st = Inr st'" by simp
    then have "bs = [] \<or> list_ex (of_document dt d) (inv_lines st')" by (rule bill_documents)
    then have "bs = [] \<or> list_ex (of_document dt d) (inv_lines st'')" using inv_run_billed [OF assms(3)] by blast
    then show ?thesis unfolding bills(1) by (rule bill_replayed)
  qed
  show "\<forall>(ty', h') \<in> set invoicingConsumers. \<forall>payload' dt d.
      document_of ty' payload' = Some (dt, d) \<longrightarrow> list_ex (of_document dt d) (inv_lines st') \<longrightarrow> h' cx' payload' st'' = Inr st''"
    using billed_document_noop inv_run_billed [OF assms(3)] by blast
qed

theorem redelivery_is_noop_witness:
  "\<exists>s. onCommerceOrderPlaced wo_ctx (inv_payload ''2'') inv_empty = Inr s \<and>
    onCommerceOrderPlaced wo_ctx (inv_payload ''2'') s = Inr s \<and> onCommerceOrderPlaced wo_ctx (inv_payload ''3'') s = Inr s"
proof -
  have "bind_r (onCommerceOrderPlaced wo_ctx (inv_payload ''2'') inv_empty) (\<lambda>s. guard_r (list_ex (of_document ''order'' ''O1'') (inv_lines s)) (PlainError [])) = Inr ()"
    by code_simp
  then obtain s where s: "onCommerceOrderPlaced wo_ctx (inv_payload ''2'') inv_empty = Inr s" "list_ex (of_document ''order'' ''O1'') (inv_lines s)"
    by (auto simp: monad_simps)
  have doc: "document_of ''commerce.order-placed'' (inv_payload ''3'') = Some (''order'', ''O1'')" by code_simp
  have mem: "(''commerce.order-placed'', onCommerceOrderPlaced) \<in> set invoicingConsumers" by (simp add: invoicingConsumers_def)
  from redelivery_is_noop [OF mem s(1) rtranclp.rtrancl_refl, of wo_ctx] mem doc s show ?thesis by fastforce
qed

text \<open>
  Exported means immutable: after export nothing that runs changes the basis's row, its lines or
  the total they fold to; a late delivery for the customer goes to another basis.
\<close>

theorem exported_basis_frozen:
  assumes "inv_step\<^sup>*\<^sup>* st st'" and "ledger_inv st" and "underlag_at i st = Some u" and "u_status u = ''exported''"
  shows "underlag_at i st' = Some u \<and> lines_of i st' = lines_of i st \<and>
    underlagTotalMoney i cur st' = underlagTotalMoney i cur st"
  using inv_run_frozen [OF assms] total_cong by blast

theorem exported_basis_frozen_witness:
  "\<exists>s. onCommerceOrderPlaced wo_ctx (inv_payload ''2'') (inv_basis ''exported'' (Some ''2025-12-02T00:00:00.000Z'')) = Inr s \<and>
    lines_of ''U1'' s = lines_of ''U1'' (inv_basis ''exported'' (Some ''2025-12-02T00:00:00.000Z''))"
proof -
  let ?st = "inv_basis ''exported'' (Some ''2025-12-02T00:00:00.000Z'')"
  from demo_bill_late obtain s where s: "onCommerceOrderPlaced wo_ctx (inv_payload ''2'') ?st = Inr s" by blast
  then have run: "inv_step\<^sup>*\<^sup>* ?st s"
    by (intro r_into_rtranclp inv_step.consumed [of "''commerce.order-placed''" onCommerceOrderPlaced])
      (auto simp: invoicingConsumers_def)
  have "underlag_at ''U1'' ?st = Some (hd (inv_underlag ?st))" "u_status (hd (inv_underlag ?st)) = ''exported''"
    by (simp_all add: underlag_at_def inv_basis_def)
  from exported_basis_frozen [OF run inv_basis_ledger(2) this] s show ?thesis by blast
qed

text \<open>
  An export states an exact total: the event it emits carries the basis's number and a sum of
  money whose micro-units are the sum of the line totals, in the currency of every line and, where
  the caller declared one, in that currency; the basis is then \<open>exported\<close>.
\<close>

theorem export_total_exact:
  assumes "ledger_inv st" and "exportOp cx i cur st = Inr (r, st')"
  shows "\<exists>tot ev. outbox st' = outbox st @ [ev] \<and> ob_type ev = ''invoicing.underlag-exported'' \<and>
    ob_payload ev = JObj [(''underlagId'', JStr i), (''number'', JNum (u_number r)), (''total'', json_money tot)] \<and>
    money_ok tot \<and> micros tot = sum_list (map (micros \<circ> line_money) (lines_of i st)) \<and>
    (\<forall>l \<in> set (lines_of i st). l_currency l = currency tot) \<and> (cur \<noteq> None \<longrightarrow> cur = Some (currency tot)) \<and>
    u_status r = ''exported''"
  using assms(2)
proof (cases rule: exportOp_Inr)
  case (1 u st1 tot)
  have inv: "lines_inv (u_id ` set (inv_underlag st)) (inv_lines st1)"
    using assms(1) inv_require_tables [OF 1(1)] by (simp add: ledger_inv_def)
  have same: "lines_of i st1 = lines_of i st" using inv_require_tables [OF 1(1)] by (intro lines_of_cong) simp
  have "money_ok tot \<and> micros tot = sum_list (map (micros \<circ> line_money) (lines_of i st)) \<and>
    (\<forall>l \<in> set (lines_of i st). l_currency l = currency tot) \<and> (cur \<noteq> None \<longrightarrow> cur = Some (currency tot))"
  proof (cases "lines_of i st")
    case Nil
    then have "moneyOf ''0'' (case cur of Some d \<Rightarrow> d | None \<Rightarrow> ''SEK'') = Inr tot"
      using 1(5) by (simp add: total_unfold [OF inv] same)
    then show ?thesis using Nil zero_micros
      by (cases cur) (auto simp: moneyOf_def money_ok_def split: if_splits)
  next
    case (Cons l ls)
    have cur: "cur = None \<or> cur = Some (l_currency l)"
      using 1(5) Cons by (cases cur) (auto simp: total_unfold [OF inv] same bind_r_Inr_iff guard_r_Inr_iff)
    have one: "l_currency x = l_currency l" if "x \<in> set (lines_of i st)" for x
    proof -
      have "x \<in> set (lines_of i st1)" "l \<in> set (lines_of i st1)" using that Cons same by simp_all
      then show ?thesis using lines_inv_currency [OF inv, of x l] by (simp add: lines_of_def)
    qed
    have "lines_of i st1 = l # ls" using Cons same by simp
    from total_exact [OF inv this cur] 1(5) have "money_ok tot" "currency tot = l_currency l"
      "micros tot = sum_list (map (micros \<circ> line_money) (lines_of i st))" unfolding Cons by auto
    then show ?thesis using one cur by (intro conjI ballI) auto
  qed
  moreover have "outbox st1 = outbox st" using require_Inr(2) [OF 1(1)] .
  moreover have "u_number r = u_number u" "u_status r = ''exported''"
    using 1(8) 1(2,3) underlag_at_exported [OF 1(6), of i] by auto
  ultimately show ?thesis using 1(9) by metis
qed

theorem export_total_exact_witness:
  "\<exists>r s tot. exportOp wo_ctx ''U1'' None (inv_basis ''open'' None) = Inr (r, s) \<and> money_ok tot \<and> micros tot = 150000000"
proof -
  from demo_export obtain r s where e: "exportOp wo_ctx ''U1'' None (inv_basis ''open'' None) = Inr (r, s)" by blast
  have "sum_list (map (micros \<circ> line_money) (lines_of ''U1'' (inv_basis ''open'' None))) = 150000000" by code_simp
  with export_total_exact [OF inv_basis_ledger(1) e] e show ?thesis by auto
qed

text \<open>Nothing on the way in looks at a quantity.\<close>

definition but_qty :: "billed_line \<Rightarrow> billed_line" where
  "but_qty b = b\<lparr>b_qty := []\<rparr>"

lemma but_qty_fields:
  "map but_qty bs = map but_qty bs' \<Longrightarrow> length bs = length bs' \<and>
    map (currency \<circ> b_lineTotal) bs = map (currency \<circ> b_lineTotal) bs' \<and> map (currency \<circ> b_unitPrice) bs = map (currency \<circ> b_unitPrice) bs'"
proof -
  assume eq: "map but_qty bs = map but_qty bs'"
  have m: "map g bs = map g bs'" if g: "\<And>b. g (but_qty b) = g b" for g :: "billed_line \<Rightarrow> string"
  proof -
    have "map g bs = map g (map but_qty bs)" by (simp add: g)
    also have "\<dots> = map g bs'" unfolding eq by (simp add: g)
    finally show ?thesis .
  qed
  have "map (currency \<circ> b_lineTotal) bs = map (currency \<circ> b_lineTotal) bs'" by (rule m) (simp add: but_qty_def)
  moreover have "map (currency \<circ> b_unitPrice) bs = map (currency \<circ> b_unitPrice) bs'" by (rule m) (simp add: but_qty_def)
  moreover have "length bs = length bs'" using arg_cong [OF eq, of length] by simp
  ultimately show ?thesis by blast
qed

definition same_ids :: "'a inv_store_scheme \<Rightarrow> 'a inv_store_scheme \<Rightarrow> bool" where
  "same_ids st s \<longleftrightarrow> alike st s \<and> map l_id (inv_lines s) = map l_id (inv_lines st)"

lemma insertLines_qty:
  assumes "insertLines cx u ty d bs st = Inr st'" and "map but_qty bs' = map but_qty bs" and "same_ids st s"
  shows "\<exists>s'. insertLines cx u ty d bs' s = Inr s' \<and> same_ids st' s'"
  using assms
proof (induction bs arbitrary: bs' st s)
  case Nil
  then show ?case by simp
next
  case (Cons b bs)
  then obtain c cs where cs: "bs' = c # cs" "map but_qty cs = map but_qty bs" by (cases bs') auto
  let ?i = "cx_ids cx (drawn st)"
  have same: "drawn s = drawn st" "l_id ` set (inv_lines s) = l_id ` set (inv_lines st)"
    using Cons.prems(3) unfolding same_ids_def alike_def by (simp, metis list.set_map)
  let ?n = "\<lambda>b st. st\<lparr>drawn := Suc (drawn st), inv_lines := inv_lines st @ [stored_of cx u ty d ?i b]\<rparr>"
  have go: "insertLines cx u ty d (x # xs) t =
      (if ?i \<in> l_id ` set (inv_lines t) then Inl (PlainError ''UNIQUE constraint failed'') else insertLines cx u ty d xs (?n x t))"
    if "drawn t = drawn st" for x xs and t :: "'a inv_store_scheme"
    using that by (auto simp: ulid_def insert_row_def list_ex_iff stored_of_def)
  from Cons.prems(1) have "?i \<notin> l_id ` set (inv_lines st)" "insertLines cx u ty d bs (?n b st) = Inr st'"
    unfolding go [OF refl] by (auto split: if_splits)
  moreover have "same_ids (?n b st) (?n c s)" using Cons.prems(3) same by (simp add: same_ids_def alike_def stored_of_def)
  ultimately show ?case using Cons.IH [OF _ cs(2)] same unfolding cs(1) go [OF same(1)] by fastforce
qed

lemma bill_qty:
  assumes "bill cx ty d c bs st = Inr st'" and "map but_qty bs' = map but_qty bs"
  shows "\<exists>s'. bill cx ty d c bs' st = Inr s'"
proof (cases "bs = [] \<or> list_ex (of_document ty d) (inv_lines st)")
  case True
  with assms(2) have "bs' = [] \<or> list_ex (of_document ty d) (inv_lines st)" by auto
  then show ?thesis using bill_replayed by blast
next
  case False
  note f = but_qty_fields [OF assms(2)]
  from False assms(1) obtain u st1 st2 ev where o: "openUnderlag cx c st = Inr (u, st1)"
    and cu: "assertSingleCurrency (u_id u) bs st1 = Inr ()" and ins: "insertLines cx (u_id u) ty d bs st1 = Inr st2"
    and em: "emit cx (inv_event ''invoicing.underlag-updated'' 1 (u_id u)
          (JObj [(''underlagId'', JStr (u_id u)), (''addedLines'', JNum (int (length bs))),
                 (''source'', json_ref \<lparr>entityType = ty, entityId = d\<rparr>)])) st2 = Inr st'"
    by (auto simp: bill_def monad_simps split: if_splits)
  have "same_ids st1 st1" by (simp add: same_ids_def)
  from insertLines_qty [OF ins assms(2) this] obtain s2 where s2: "insertLines cx (u_id u) ty d bs' st1 = Inr s2" "alike st2 s2"
    by (auto simp: same_ids_def)
  from emit_any_time [OF em s2(2), of "cx_at cx"] obtain s3 where "emit cx (inv_event ''invoicing.underlag-updated'' 1 (u_id u)
          (JObj [(''underlagId'', JStr (u_id u)), (''addedLines'', JNum (int (length bs))),
                 (''source'', json_ref \<lparr>entityType = ty, entityId = d\<rparr>)])) s2 = Inr s3" by auto
  moreover have "assertSingleCurrency (u_id u) bs' st1 = Inr ()" using cu f by (simp add: assertSingleCurrency_def)
  ultimately show ?thesis using False o s2(1) f assms(2) by (auto simp: bill_def)
qed

text \<open>
  C35. A quantity that is not a decimal is taken in and then locks the basis.  Take a delivery of a retail order
  paid by invoice and not yet billed that the consumer accepts, and change nothing but quantities, to any text the schema takes: it is
  accepted as well.  If one of them is no decimal, the line it left is on a basis that \<open>invoicing/get\<close>
  refuses from then on, whatever runs, to every reader it lets pass.
\<close>

theorem odd_quantity_locks_basis:
  assumes "commercePlacedPayload payload = Some p" and "is_ok (onCommerceOrderPlaced cx payload st)"
    and "commercePlacedPayload payload' = Some (p\<lparr>op_billable := bs\<rparr>)" and "map but_qty bs = map but_qty (op_billable p)"
    and "op_paymentMethod p = ''invoice''" and "\<not> list_ex (of_document ''order'' (op_orderId p)) (inv_lines st)"
    and "b \<in> set bs" and "\<not> decimalAmount (b_qty b)"
  shows "\<exists>st1 l. onCommerceOrderPlaced cx payload' st = Inr st1 \<and> l \<in> set (inv_lines st1) \<and>
    of_document ''order'' (op_orderId p) l \<and> l_qty l = b_qty b \<and> underlag_at (l_underlag_id l) st1 \<noteq> None \<and>
    (\<forall>st2 cx' s. inv_step\<^sup>*\<^sup>* st1 st2 \<longrightarrow> require cx' ''invoicing:read'' None st2 = Inr s \<longrightarrow> \<not> is_ok (getOp cx' (l_underlag_id l) st2))"
proof -
  from assms(1,2,5) obtain s where "bill cx ''order'' (op_orderId p) (op_customer p) (op_billable p) st = Inr s"
    by (auto simp: onCommerceOrderPlaced_def parse_as_def is_ok_iff)
  from bill_qty [OF this assms(4)] obtain st1 where st1: "bill cx ''order'' (op_orderId p) (op_customer p) bs st = Inr st1" by blast
  from bill_quantities [OF this assms(6,7)] obtain l where l: "l \<in> set (inv_lines st1)" "of_document ''order'' (op_orderId p) l"
    "l_qty l = b_qty b" "underlag_at (l_underlag_id l) st1 \<noteq> None" by blast
  have "\<not> is_ok (getOp cx' (l_underlag_id l) st2)" if "inv_step\<^sup>*\<^sup>* st1 st2" for st2 cx'
  proof -
    have "l \<in> set (lines_of (l_underlag_id l) st2)" using inv_run_grows [OF that l(1)] by (simp add: lines_of_def)
    then show ?thesis using getOp_Inr(3) assms(8) l(3) by (metis is_ok_pairE)
  qed
  moreover have "onCommerceOrderPlaced cx payload' st = Inr st1" using st1 assms(3,5) by (simp add: onCommerceOrderPlaced_def parse_as_def)
  ultimately show ?thesis using l by blast
qed

theorem odd_quantity_locks_basis_witness:
  "\<exists>s l. onCommerceOrderPlaced wo_ctx (inv_payload ''two'') inv_empty = Inr s \<and> l \<in> set (inv_lines s) \<and> l_qty l = ''two'' \<and>
    is_ok (require wo_ctx ''invoicing:read'' None s) \<and> \<not> is_ok (getOp wo_ctx (l_underlag_id l) s)"
proof -
  define b where "b q = \<lparr>b_article = ''A1'', b_description = ''Tyre'', b_qty = q, b_unit = ''pcs'',
    b_unitPrice = \<lparr>amount = ''10.5'', currency = ''SEK''\<rparr>, b_lineTotal = \<lparr>amount = ''21'', currency = ''SEK''\<rparr>,
    b_source = None\<rparr>" for q
  define p where "p = \<lparr>op_orderId = ''O1'', op_number = 7, op_customer = \<lparr>entityType = ''customer'', entityId = ''K1''\<rparr>,
    op_paymentMethod = ''invoice'', op_billable = [b ''2''], op_total = \<lparr>amount = ''21'', currency = ''SEK''\<rparr>\<rparr>"
  have p: "commercePlacedPayload (inv_payload ''2'') = Some p" unfolding p_def b_def by code_simp
  have p': "commercePlacedPayload (inv_payload ''two'') = Some (p\<lparr>op_billable := [b ''two'']\<rparr>)" unfolding p_def b_def by code_simp
  have ok: "is_ok (onCommerceOrderPlaced wo_ctx (inv_payload ''2'') inv_empty)" by code_simp
  have q: "map but_qty [b ''two''] = map but_qty (op_billable p)" "op_paymentMethod p = ''invoice''"
    "\<not> list_ex (of_document ''order'' (op_orderId p)) (inv_lines inv_empty)" "b ''two'' \<in> set [b ''two'']"
    by (simp_all add: but_qty_def b_def p_def inv_empty_def)
  have "\<not> decimalAmount ''two''" by code_simp
  then have odd: "\<not> decimalAmount (b_qty (b ''two''))" by (simp add: b_def)
  from odd_quantity_locks_basis [OF p ok p' q odd] obtain s l where l: "onCommerceOrderPlaced wo_ctx (inv_payload ''two'') inv_empty = Inr s"
    "l \<in> set (inv_lines s)" "l_qty l = b_qty (b ''two'')"
    and locked: "\<And>st2 cx' s'. inv_step\<^sup>*\<^sup>* s st2 \<Longrightarrow> require cx' ''invoicing:read'' None st2 = Inr s' \<Longrightarrow> \<not> is_ok (getOp cx' (l_underlag_id l) st2)" by blast
  have "is_ok (bind_r (onCommerceOrderPlaced wo_ctx (inv_payload ''two'') inv_empty) (require wo_ctx ''invoicing:read'' None))" by code_simp
  with l(1) have rq: "is_ok (require wo_ctx ''invoicing:read'' None s)" by simp
  then obtain s' where "require wo_ctx ''invoicing:read'' None s = Inr s'" unfolding is_ok_iff by blast
  from locked [OF rtranclp.rtrancl_refl this] rq l show ?thesis unfolding b_def by auto
qed

end
