(* ===== verification/Delivery.thy ===== *)
theory Delivery
  imports Engine_Base
begin

text \<open>
  How a committed event reaches its consumers: the drain of the pure adapter
  (\<open>packages/adapter-sqlite/src/index.ts\<close>, \<open>dispatch\<close> and \<open>dispatchRounds\<close>) over the outbox and
  the delivery journal \<open>_substrat_deliveries\<close>.

  A registered consumer is a function of an event and the store; the check of the updated stamps
  that follows the handler in its transaction counts as part of it.  The journal stands beside the
  store, since module code cannot write it.  Which outbox rows do not decode, the clock and the mark
  of copied events are fields of \<open>drain_host\<close>.  A journaled error keeps the thrown value, not its
  text; log lines and invocation ids are left out.

  The interface to the consumers is the locale \<open>event_consumers\<close>: what the operation context lets
  any handler do to the outbox.  \<open>ranked_consumers\<close> adds that a cascade ends.
\<close>

section \<open>The journal\<close>

record delivery =
  dl_event :: string
  dl_module :: string
  dl_at :: string
  dl_error :: "err option"
  dl_attempts :: nat
  dl_next :: "string option"

definition dl_key :: "delivery \<Rightarrow> string \<times> string" where
  "dl_key d = (dl_event d, dl_module d)"

definition dl_clash :: "delivery \<Rightarrow> delivery \<Rightarrow> bool" where
  "dl_clash a b \<longleftrightarrow> dl_key a = dl_key b"

record drain_host =
  hs_clock :: "nat \<Rightarrow> string"
  hs_undecodable :: "outbox_row \<Rightarrow> err option"
  hs_through :: string

definition emittedHere :: "drain_host \<Rightarrow> outbox_row \<Rightarrow> bool" where
  "emittedHere hs e \<longleftrightarrow> hs_through hs < ob_id e"

definition journaled :: "string \<Rightarrow> delivery list \<Rightarrow> outbox_row \<Rightarrow> bool" where
  "journaled m js e \<longleftrightarrow> (ob_id e, m) \<in> dl_key ` set js"

definition pending :: "drain_host \<Rightarrow> string \<Rightarrow> string \<Rightarrow> delivery list \<Rightarrow> 'a scope_store_scheme \<Rightarrow> outbox_row list" where
  "pending hs m ty js st =
     sort_key ob_id (filter (\<lambda>e. ob_type e = ty \<and> emittedHere hs e \<and> \<not> journaled m js e) (outbox st))"

definition journal_row :: "drain_host \<Rightarrow> delivery list \<Rightarrow> outbox_row \<Rightarrow> string \<Rightarrow> err option \<Rightarrow> delivery" where
  "journal_row hs js e m er =
     \<lparr>dl_event = ob_id e, dl_module = m, dl_at = hs_clock hs (length js), dl_error = er, dl_attempts = 0, dl_next = None\<rparr>"

section \<open>The drain\<close>

definition deliveryContext :: "op_ctx \<Rightarrow> string \<Rightarrow> op_ctx" where
  "deliveryContext cx m = cx\<lparr>cx_override := Some m, cx_operation := None, cx_session := None, cx_withheld := []\<rparr>"

definition deliver_one ::
  "drain_host \<Rightarrow> string \<Rightarrow> (outbox_row \<Rightarrow> 'a scope_store_scheme \<Rightarrow> 'a scope_store_scheme result) \<Rightarrow> outbox_row \<Rightarrow>
   delivery list \<times> 'a scope_store_scheme \<Rightarrow> (bool \<times> delivery list \<times> 'a scope_store_scheme) result" where
  "deliver_one hs m h e s =
     (case s of (js, st) \<Rightarrow>
      let dead = (\<lambda>er. bind_r (insert_row dl_clash (journal_row hs js e m (Some er)) js) (\<lambda>js'. Inr (False, js', st))) in
      case hs_undecodable hs e of
        Some er \<Rightarrow> dead er
      | None \<Rightarrow>
          (case bind_r (h e (st\<lparr>passed := []\<rparr>)) (\<lambda>st'.
                bind_r (insert_row dl_clash (journal_row hs js e m None) js) (\<lambda>js'. Inr (js', st'))) of
             Inr (js', st') \<Rightarrow> Inr (True, js', st')
           | Inl er \<Rightarrow> dead er))"

fun deliver_rows ::
  "drain_host \<Rightarrow> string \<Rightarrow> (outbox_row \<Rightarrow> 'a scope_store_scheme \<Rightarrow> 'a scope_store_scheme result) \<Rightarrow> outbox_row list \<Rightarrow>
   bool \<times> delivery list \<times> 'a scope_store_scheme \<Rightarrow> (bool \<times> delivery list \<times> 'a scope_store_scheme) result" where
  "deliver_rows hs m h [] s = Inr s"
| "deliver_rows hs m h (e # es) (deliveredAny, s) =
     bind_r (deliver_one hs m h e s) (\<lambda>(ok, s'). deliver_rows hs m h es (deliveredAny \<or> ok, s'))"

fun dispatch_round ::
  "drain_host \<Rightarrow> (string \<times> string \<times> (outbox_row \<Rightarrow> 'a scope_store_scheme \<Rightarrow> 'a scope_store_scheme result)) list \<Rightarrow>
   bool \<times> delivery list \<times> 'a scope_store_scheme \<Rightarrow> (bool \<times> delivery list \<times> 'a scope_store_scheme) result" where
  "dispatch_round hs [] s = Inr s"
| "dispatch_round hs ((m, ty, h) # regs) (deliveredAny, js, st) =
     bind_r (deliver_rows hs m h (pending hs m ty js st) (deliveredAny, js, st)) (dispatch_round hs regs)"

fun dispatchRounds ::
  "drain_host \<Rightarrow> (string \<times> string \<times> (outbox_row \<Rightarrow> 'a scope_store_scheme \<Rightarrow> 'a scope_store_scheme result)) list \<Rightarrow> nat \<Rightarrow>
   delivery list \<times> 'a scope_store_scheme \<Rightarrow> (delivery list \<times> 'a scope_store_scheme) result" where
  "dispatchRounds hs regs 0 s = Inr s"
| "dispatchRounds hs regs (Suc n) s =
     bind_r (dispatch_round hs regs (False, s)) (\<lambda>(deliveredAny, s').
       if deliveredAny then dispatchRounds hs regs n s' else Inr s')"

text \<open>The modules' consumers in registration order, each in its module's own context.\<close>

definition registrations ::
  "op_ctx \<Rightarrow> (string \<times> (string \<times> (op_ctx \<Rightarrow> json \<Rightarrow> 'a scope_store_scheme \<Rightarrow> 'a scope_store_scheme result)) list) list \<Rightarrow>
   (string \<times> string \<times> (outbox_row \<Rightarrow> 'a scope_store_scheme \<Rightarrow> 'a scope_store_scheme result)) list" where
  "registrations cx mods =
     concat (map (\<lambda>(m, cs). map (\<lambda>(ty, h). (m, ty, \<lambda>e. h (deliveryContext cx m) (ob_payload e))) cs) mods)"

definition dispatch where
  "dispatch hs regs s = dispatchRounds hs regs 50 s"

section \<open>What a drain may do\<close>

text \<open>
  The specification: one step takes an event and a subscribed module that has no journal row for
  it, and either commits the handler with a clean row or leaves the store with the error.
\<close>

inductive delivery_step ::
  "drain_host \<Rightarrow> (string \<times> string \<times> (outbox_row \<Rightarrow> 'a scope_store_scheme \<Rightarrow> 'a scope_store_scheme result)) list \<Rightarrow>
   delivery list \<times> 'a scope_store_scheme \<Rightarrow> delivery list \<times> 'a scope_store_scheme \<Rightarrow> bool"
  for hs regs where
  commits: "\<lbrakk>(m, ob_type e, h) \<in> set regs; e \<in> set (outbox st); \<not> journaled m js e;
      hs_undecodable hs e = None; h e (st\<lparr>passed := []\<rparr>) = Inr st';
      dl_key d = (ob_id e, m); dl_error d = None\<rbrakk> \<Longrightarrow> delivery_step hs regs (js, st) (js @ [d], st')"
| dead_letters: "\<lbrakk>(m, ob_type e, h) \<in> set regs; e \<in> set (outbox st); \<not> journaled m js e;
      hs_undecodable hs e = Some er \<or> hs_undecodable hs e = None \<and> h e (st\<lparr>passed := []\<rparr>) = Inl er;
      dl_key d = (ob_id e, m); dl_error d = Some er\<rbrakk> \<Longrightarrow> delivery_step hs regs (js, st) (js @ [d], st)"

inductive_cases delivery_stepE: "delivery_step hs regs s s'"

lemma set_pending: "set (pending hs m ty js st) = {e \<in> set (outbox st). ob_type e = ty \<and> emittedHere hs e \<and> \<not> journaled m js e}"
  by (auto simp: pending_def)

lemma distinct_sort_filter: "distinct (map f xs) \<Longrightarrow> distinct (map f (sort_key k (filter P xs)))"
proof -
  assume "distinct (map f xs)"
  then have "distinct (map f (filter P xs))" by (rule distinct_map_filter)
  then show ?thesis by (auto simp: distinct_map)
qed

lemma insert_fresh:
  assumes "\<not> journaled m js e"
  shows "insert_row dl_clash (journal_row hs js e m er) js = Inr (js @ [journal_row hs js e m er])"
proof -
  have "\<not> list_ex (dl_clash (journal_row hs js e m er)) js"
    using assms by (auto simp: list_ex_iff dl_clash_def journaled_def journal_row_def dl_key_def image_iff)
  then show ?thesis by (simp add: insert_row_def)
qed

lemma journaled_append: "journaled m (js @ ds) e \<longleftrightarrow> journaled m js e \<or> (ob_id e, m) \<in> dl_key ` set ds"
  by (auto simp: journaled_def)

lemma journal_row_key [simp]: "dl_key (journal_row hs js e m er) = (ob_id e, m)" "dl_error (journal_row hs js e m er) = er"
  by (simp_all add: journal_row_def dl_key_def)

lemma deliver_one_Inr:
  assumes "(m, ob_type e, h) \<in> set regs" and "e \<in> set (outbox st)" and "\<not> journaled m js e"
  obtains ok d st' where "deliver_one hs m h e (js, st) = Inr (ok, js @ [d], st')"
    "delivery_step hs regs (js, st) (js @ [d], st')" "dl_key d = (ob_id e, m)"
    "ok \<longrightarrow> h e (st\<lparr>passed := []\<rparr>) = Inr st'" "\<not> ok \<longrightarrow> st' = st"
proof (cases "hs_undecodable hs e = None \<and> is_ok (h e (st\<lparr>passed := []\<rparr>))")
  case True
  then obtain st' where h: "h e (st\<lparr>passed := []\<rparr>) = Inr st'" and "hs_undecodable hs e = None" using is_okE by blast
  then have "deliver_one hs m h e (js, st) = Inr (True, js @ [journal_row hs js e m None], st')"
    by (simp add: deliver_one_def insert_fresh [OF assms(3)])
  then show thesis
    by (rule that) (use h assms \<open>hs_undecodable hs e = None\<close> in \<open>auto intro: delivery_step.commits\<close>)
next
  case False
  then obtain er where er: "hs_undecodable hs e = Some er \<or> hs_undecodable hs e = None \<and> h e (st\<lparr>passed := []\<rparr>) = Inl er"
    by (cases "hs_undecodable hs e"; cases "h e (st\<lparr>passed := []\<rparr>)") auto
  then have "deliver_one hs m h e (js, st) = Inr (False, js @ [journal_row hs js e m (Some er)], st)"
    by (auto simp: deliver_one_def insert_fresh [OF assms(3)])
  then show thesis by (rule that) (use assms er in \<open>auto intro: delivery_step.dead_letters\<close>)
qed

lemma delivery_step_journal:
  assumes "delivery_step hs regs (js, st) (js', st')" and "distinct (map dl_key js)"
  shows "distinct (map dl_key js') \<and> (\<exists>ds. js' = js @ ds)"
  using assms(1)
  by (cases rule: delivery_step.cases) (use assms(2) in \<open>auto simp: journaled_def image_iff\<close>)

lemma delivery_run_journal:
  assumes "(delivery_step hs regs)\<^sup>*\<^sup>* (js, st) (js', st')" and "distinct (map dl_key js)"
  shows "distinct (map dl_key js') \<and> (\<exists>ds. js' = js @ ds)"
  using assms
proof (induction rule: rtranclp_induct2)
  case refl
  then show ?case by simp
next
  case (step js1 st1 js2 st2)
  then show ?case using delivery_step_journal [OF step.hyps(2)] by auto
qed

lemma delivery_step_mono: "set rs \<subseteq> set regs \<Longrightarrow> delivery_step hs rs s s' \<Longrightarrow> delivery_step hs regs s s'"
  by (erule delivery_step.cases) (auto intro: delivery_step.intros)

lemma delivery_run_mono: "set rs \<subseteq> set regs \<Longrightarrow> (delivery_step hs rs)\<^sup>*\<^sup>* s s' \<Longrightarrow> (delivery_step hs regs)\<^sup>*\<^sup>* s s'"
  using delivery_step_mono [of rs regs hs] by (metis mono_rtranclp)

lemma delivery_run_journaled:
  assumes "(delivery_step hs regs)\<^sup>*\<^sup>* (js, st) (js', st')" and "journaled m js e"
  shows "journaled m js' e"
  using assms
proof (induction rule: rtranclp_induct2)
  case (step js1 st1 js2 st2)
  from step.hyps(2) show ?case by (cases rule: delivery_step.cases) (use step in \<open>auto simp: journaled_append\<close>)
qed

section \<open>The contract of consumers\<close>

text \<open>
  A handler reaches the outbox only through \<open>ctx.emit\<close>: what it commits appends events, under ids
  the table does not hold yet.
\<close>

locale event_consumers =
  fixes regs :: "(string \<times> string \<times> (outbox_row \<Rightarrow> 'a scope_store_scheme \<Rightarrow> 'a scope_store_scheme result)) list"
    and hs :: drain_host
  assumes appends: "(m, ty, h) \<in> set regs \<Longrightarrow> h e st = Inr st' \<Longrightarrow> \<exists>new. outbox st' = outbox st @ new"
    and fresh: "(m, ty, h) \<in> set regs \<Longrightarrow> h e st = Inr st' \<Longrightarrow> distinct (map ob_id (outbox st)) \<Longrightarrow>
      distinct (map ob_id (outbox st'))"
begin

lemma step_outbox:
  assumes "delivery_step hs regs (js, st) (js', st')" and "distinct (map ob_id (outbox st))"
  shows "distinct (map ob_id (outbox st')) \<and> (\<exists>new. outbox st' = outbox st @ new)"
  using assms(1)
proof (cases rule: delivery_step.cases)
  case (commits m e h d)
  then show ?thesis using appends [OF commits(2,6)] fresh [OF commits(2,6)] assms(2) by simp
qed (use assms(2) in auto)

lemma run_outbox:
  assumes "(delivery_step hs regs)\<^sup>*\<^sup>* (js, st) (js', st')" and "distinct (map ob_id (outbox st))"
  shows "distinct (map ob_id (outbox st')) \<and> (\<exists>new. outbox st' = outbox st @ new)"
  using assms
proof (induction rule: rtranclp_induct2)
  case refl
  then show ?case by simp
next
  case (step js1 st1 js2 st2)
  then show ?case using step_outbox [OF step.hyps(2)] by auto
qed

lemma rows_drained:
  assumes "(m, ty, h) \<in> set regs" and "distinct (map ob_id es)" and "set es \<subseteq> set (outbox st)"
    and "\<forall>e \<in> set es. ob_type e = ty \<and> \<not> journaled m js e"
  shows "\<exists>ok js' st'. deliver_rows hs m h es (any, js, st) = Inr (any \<or> ok, js', st') \<and>
    (delivery_step hs [(m, ty, h)])\<^sup>*\<^sup>* (js, st) (js', st') \<and> (\<forall>e \<in> set es. journaled m js' e) \<and> (\<not> ok \<longrightarrow> st' = st)"
  using assms
proof (induction es arbitrary: any js st)
  case Nil
  then show ?case by auto
next
  case (Cons e es)
  then have e: "(m, ob_type e, h) \<in> set [(m, ty, h)]" "e \<in> set (outbox st)" "\<not> journaled m js e"
    and reg: "(m, ty, h) \<in> set regs" by auto
  from e obtain ok d st1 where one: "deliver_one hs m h e (js, st) = Inr (ok, js @ [d], st1)"
    "delivery_step hs [(m, ty, h)] (js, st) (js @ [d], st1)" "dl_key d = (ob_id e, m)"
    "ok \<longrightarrow> h e (st\<lparr>passed := []\<rparr>) = Inr st1" "\<not> ok \<longrightarrow> st1 = st"
    by (rule deliver_one_Inr)
  have "\<exists>new. outbox st1 = outbox st @ new"
  proof (cases ok)
    case True
    then show ?thesis using one(4) appends [OF reg] by fastforce
  next
    case False
    then show ?thesis using one(5) by simp
  qed
  then have sub: "set es \<subseteq> set (outbox st1)" using Cons.prems(3) by auto
  have "\<forall>x \<in> set es. ob_type x = ty \<and> \<not> journaled m (js @ [d]) x"
  proof
    fix x assume x: "x \<in> set es"
    then have "ob_id x \<in> ob_id ` set es" by (rule imageI)
    with Cons.prems(2) have "ob_id x \<noteq> ob_id e" by (metis distinct.simps(2) list.set_map list.simps(9))
    with x Cons.prems(4) one(3) show "ob_type x = ty \<and> \<not> journaled m (js @ [d]) x" by (simp add: journaled_append)
  qed
  moreover have "distinct (map ob_id es)" using Cons.prems(2) by simp
  ultimately obtain ok' js' st' where rest: "deliver_rows hs m h es (any \<or> ok, js @ [d], st1) = Inr ((any \<or> ok) \<or> ok', js', st')"
    "(delivery_step hs [(m, ty, h)])\<^sup>*\<^sup>* (js @ [d], st1) (js', st')" "\<forall>x \<in> set es. journaled m js' x" "\<not> ok' \<longrightarrow> st' = st1"
    using Cons.IH [OF Cons.prems(1) _ sub, of "js @ [d]" "any \<or> ok"] by blast
  have run: "(delivery_step hs [(m, ty, h)])\<^sup>*\<^sup>* (js, st) (js', st')" using one(2) rest(2) by (rule converse_rtranclp_into_rtranclp)
  have "journaled m (js @ [d]) e" using one(3) by (simp add: journaled_append)
  with rest(2) have "journaled m js' e" by (rule delivery_run_journaled)
  moreover have "deliver_rows hs m h (e # es) (any, js, st) = Inr (any \<or> (ok \<or> ok'), js', st')"
    using one(1) rest(1) by (simp add: disj_assoc)
  moreover have "\<not> (ok \<or> ok') \<longrightarrow> st' = st" using one(5) rest(4) by simp
  ultimately show ?case using rest(3) run by (intro exI [of _ "ok \<or> ok'"] exI [of _ js'] exI [of _ st']) simp
qed

text \<open>One consumer's turn.\<close>

lemma consumer_drained:
  assumes "(m, ty, h) \<in> set regs" and "distinct (map ob_id (outbox st))"
  obtains ok js' st' where
    "deliver_rows hs m h (pending hs m ty js st) (any, js, st) = Inr (any \<or> ok, js', st')"
    "(delivery_step hs [(m, ty, h)])\<^sup>*\<^sup>* (js, st) (js', st')" "\<forall>e \<in> set (pending hs m ty js st). journaled m js' e" "\<not> ok \<longrightarrow> st' = st"
proof -
  have "distinct (map ob_id (pending hs m ty js st))"
    unfolding pending_def using assms(2) by (rule distinct_sort_filter)
  moreover have "set (pending hs m ty js st) \<subseteq> set (outbox st)"
    "\<forall>e \<in> set (pending hs m ty js st). ob_type e = ty \<and> \<not> journaled m js e" by (auto simp: set_pending)
  ultimately show thesis using rows_drained [OF assms(1), of "pending hs m ty js st" st js any] that by blast
qed

lemma round_runs:
  assumes "set rs \<subseteq> set regs" and "distinct (map ob_id (outbox st))"
  shows "\<exists>ok js' st'. dispatch_round hs rs (any, js, st) = Inr (any \<or> ok, js', st') \<and>
    (delivery_step hs regs)\<^sup>*\<^sup>* (js, st) (js', st') \<and> (\<not> ok \<longrightarrow> st' = st)"
  using assms
proof (induction rs arbitrary: any js st)
  case Nil
  then show ?case by auto
next
  case (Cons r rs)
  obtain m ty h where r: "r = (m, ty, h)" by (cases r)
  with Cons.prems have reg: "(m, ty, h) \<in> set regs" by simp
  from reg Cons.prems(2) obtain ok js1 st1 where one:
    "deliver_rows hs m h (pending hs m ty js st) (any, js, st) = Inr (any \<or> ok, js1, st1)" and
    turn: "(delivery_step hs [(m, ty, h)])\<^sup>*\<^sup>* (js, st) (js1, st1)" and
    "\<forall>e \<in> set (pending hs m ty js st). journaled m js1 e" and same: "\<not> ok \<longrightarrow> st1 = st" by (rule consumer_drained)
  have run: "(delivery_step hs regs)\<^sup>*\<^sup>* (js, st) (js1, st1)"
    by (rule delivery_run_mono [OF _ turn]) (simp add: reg)
  from run_outbox [OF run Cons.prems(2)] have "distinct (map ob_id (outbox st1))" by blast
  moreover have "set rs \<subseteq> set regs" using Cons.prems(1) by simp
  ultimately obtain ok' js' st' where rest:
    "dispatch_round hs rs (any \<or> ok, js1, st1) = Inr ((any \<or> ok) \<or> ok', js', st')"
    "(delivery_step hs regs)\<^sup>*\<^sup>* (js1, st1) (js', st')" "\<not> ok' \<longrightarrow> st' = st1"
    using Cons.IH [of st1 "any \<or> ok" js1] by blast
  have "dispatch_round hs (r # rs) (any, js, st) = Inr (any \<or> (ok \<or> ok'), js', st')"
    using one rest(1) by (simp add: r disj_assoc)
  moreover have "(delivery_step hs regs)\<^sup>*\<^sup>* (js, st) (js', st')" using run rest(2) by (rule rtranclp_trans)
  moreover have "\<not> (ok \<or> ok') \<longrightarrow> st' = st" using same rest(3) by simp
  ultimately show ?case by blast
qed

lemma rounds_run:
  assumes "distinct (map ob_id (outbox st))"
  shows "\<exists>js' st'. dispatchRounds hs regs n (js, st) = Inr (js', st') \<and> (delivery_step hs regs)\<^sup>*\<^sup>* (js, st) (js', st')"
  using assms
proof (induction n arbitrary: js st)
  case 0
  then show ?case by auto
next
  case (Suc n)
  from round_runs [OF subset_refl Suc.prems, of False js] obtain ok js1 st1 where one:
    "dispatch_round hs regs (False, js, st) = Inr (ok, js1, st1)" "(delivery_step hs regs)\<^sup>*\<^sup>* (js, st) (js1, st1)" by auto
  from run_outbox [OF one(2) Suc.prems] have "distinct (map ob_id (outbox st1))" by blast
  from Suc.IH [OF this, of js1] one show ?case by (cases ok) (auto intro: rtranclp_trans)
qed

text \<open>A round that commits nothing leaves no consumer anything to do.\<close>

lemma quiet_round:
  assumes "set rs \<subseteq> set regs" and "distinct (map ob_id (outbox st))"
    and "dispatch_round hs rs (False, js, st) = Inr (False, js', st')"
  shows "st' = st \<and> (delivery_step hs regs)\<^sup>*\<^sup>* (js, st) (js', st) \<and> (\<forall>(m, ty, h) \<in> set rs. pending hs m ty js' st = [])"
  using assms
proof (induction rs arbitrary: js)
  case Nil
  then show ?case by simp
next
  case (Cons r rs)
  obtain m ty h where r: "r = (m, ty, h)" by (cases r)
  with Cons.prems have reg: "(m, ty, h) \<in> set regs" by simp
  from reg Cons.prems(2) obtain ok js1 st1 where
    one: "deliver_rows hs m h (pending hs m ty js st) (False, js, st) = Inr (False \<or> ok, js1, st1)" and
    turn: "(delivery_step hs [(m, ty, h)])\<^sup>*\<^sup>* (js, st) (js1, st1)" and
    all: "\<forall>e \<in> set (pending hs m ty js st). journaled m js1 e" and same: "\<not> ok \<longrightarrow> st1 = st" by (rule consumer_drained)
  have run: "(delivery_step hs regs)\<^sup>*\<^sup>* (js, st) (js1, st1)"
    by (rule delivery_run_mono [OF _ turn]) (simp add: reg)
  have sub: "set rs \<subseteq> set regs" using Cons.prems(1) by simp
  from run_outbox [OF run Cons.prems(2)] have "distinct (map ob_id (outbox st1))" by blast
  from round_runs [OF sub this, of ok js1] one Cons.prems(3) have "\<not> ok" by (auto simp: r)
  with same one Cons.prems(3) have rest: "dispatch_round hs rs (False, js1, st) = Inr (False, js', st')" by (simp add: r)
  from Cons.IH [OF sub Cons.prems(2) rest] have ih: "st' = st" "(delivery_step hs regs)\<^sup>*\<^sup>* (js1, st) (js', st)"
    "\<forall>(m, ty, h) \<in> set rs. pending hs m ty js' st = []" by blast+
  have "set (pending hs m ty js' st) = {}"
  proof -
    have "journaled m js' e" if "e \<in> set (pending hs m ty js st)" for e
      using all that delivery_run_journaled [OF ih(2)] by blast
    moreover have "journaled m js' e" if "journaled m js e" for e
      using that delivery_run_journaled [OF run] delivery_run_journaled [OF ih(2)] by blast
    ultimately show ?thesis unfolding set_pending by blast
  qed
  then show ?case using ih run same \<open>\<not> ok\<close> r by (auto intro: rtranclp_trans)
qed

end

text \<open>\<open>pending_below\<close>: every consumer with something pending ranks under \<open>B\<close>.\<close>

definition pending_below ::
  "drain_host \<Rightarrow> (string \<Rightarrow> nat) \<Rightarrow> nat \<Rightarrow>
   (string \<times> string \<times> (outbox_row \<Rightarrow> 'a scope_store_scheme \<Rightarrow> 'a scope_store_scheme result)) list \<Rightarrow>
   delivery list \<Rightarrow> 'a scope_store_scheme \<Rightarrow> bool" where
  "pending_below hs rank B rs js st \<longleftrightarrow> (\<forall>(m, ty, h) \<in> set rs. pending hs m ty js st \<noteq> [] \<longrightarrow> rank ty < B)"

lemma pending_belowI:
  "(\<And>m ty h x. (m, ty, h) \<in> set rs \<Longrightarrow> x \<in> set (pending hs m ty js st) \<Longrightarrow> rank ty < B) \<Longrightarrow> pending_below hs rank B rs js st"
  unfolding pending_below_def by (auto simp: neq_Nil_conv split: prod.splits) (metis list.set_intros(1))

lemma pending_belowD:
  "pending_below hs rank B rs js st \<Longrightarrow> (m, ty, h) \<in> set rs \<Longrightarrow> x \<in> set (pending hs m ty js st) \<Longrightarrow> rank ty < B"
  unfolding pending_below_def by (metis (mono_tags, lifting) case_prodD length_pos_if_in_set list.size(3) less_irrefl)

text \<open>
  A cascade that ends: the events a consumer emits, where anyone consumes them, rank below the one
  it handled.
\<close>

locale ranked_consumers = event_consumers +
  fixes rank :: "string \<Rightarrow> nat"
  assumes lowers: "(m, ob_type e, h) \<in> set regs \<Longrightarrow> h e st = Inr st' \<Longrightarrow> outbox st' = outbox st @ new \<Longrightarrow>
    x \<in> set new \<Longrightarrow> (m', ob_type x, h') \<in> set regs \<Longrightarrow> rank (ob_type x) < rank (ob_type e)"
begin

lemma turn_lowers:
  assumes "(delivery_step hs [(m, ty, h)])\<^sup>*\<^sup>* (js, st) (js', st')" and "(m, ty, h) \<in> set regs"
  shows "\<exists>new. outbox st' = outbox st @ new \<and> (\<forall>x \<in> set new. \<forall>m' h'. (m', ob_type x, h') \<in> set regs \<longrightarrow> rank (ob_type x) < rank ty)"
  using assms
proof (induction rule: rtranclp_induct2)
  case refl
  then show ?case by simp
next
  case (step js1 st1 js2 st2)
  then obtain new where new: "outbox st1 = outbox st @ new"
    "\<forall>x \<in> set new. \<forall>m' h'. (m', ob_type x, h') \<in> set regs \<longrightarrow> rank (ob_type x) < rank ty" by blast
  from step.hyps(2) show ?case
  proof (cases rule: delivery_step.cases)
    case (commits m0 e h0 d)
    then have e: "m0 = m" "ob_type e = ty" "h0 = h" by auto
    have h: "h e (st1\<lparr>passed := []\<rparr>) = Inr st2" using commits e by simp
    from appends [OF step.prems h] obtain more where more: "outbox st2 = outbox st1 @ more" by auto
    have "rank (ob_type x) < rank ty" if "x \<in> set more" "(m', ob_type x, h') \<in> set regs" for x m' h'
      using lowers [of m e h "st1\<lparr>passed := []\<rparr>" st2 more x m' h'] step.prems h more that e by simp
    then show ?thesis using new more by (intro exI [of _ "new @ more"]) auto
  next
    case (dead_letters m0 e h0 er d)
    then show ?thesis using new by auto
  qed
qed

lemma turn_below:
  assumes "(m, ty, h) \<in> set regs" and "distinct (map ob_id (outbox st))"
    and "pending_below hs rank (Suc B) regs js st" and "pending_below hs rank B ds js st"
    and "set ds \<subseteq> set regs"
    and "deliver_rows hs m h (pending hs m ty js st) (any, js, st) = Inr (any', js1, st1)"
  shows "pending_below hs rank (Suc B) regs js1 st1 \<and> pending_below hs rank B ((m, ty, h) # ds) js1 st1 \<and>
    distinct (map ob_id (outbox st1))"
proof (cases "pending hs m ty js st = []")
  case True
  with assms show ?thesis by (simp add: pending_below_def)
next
  case False
  with assms(1,3) have rank: "rank ty < Suc B" by (auto simp: pending_below_def)
  from assms(1,2) obtain ok js2 st2 where
    one: "deliver_rows hs m h (pending hs m ty js st) (any, js, st) = Inr (any \<or> ok, js2, st2)" and
    turn: "(delivery_step hs [(m, ty, h)])\<^sup>*\<^sup>* (js, st) (js2, st2)" and
    all: "\<forall>e \<in> set (pending hs m ty js st). journaled m js2 e" and "\<not> ok \<longrightarrow> st2 = st" by (rule consumer_drained)
  from one assms(6) have eq: "js2 = js1" "st2 = st1" by simp_all
  from turn_lowers [OF turn assms(1)] obtain new where new: "outbox st1 = outbox st @ new"
    and low: "\<And>x m' h'. x \<in> set new \<Longrightarrow> (m', ob_type x, h') \<in> set regs \<Longrightarrow> rank (ob_type x) < rank ty" unfolding eq by blast
  have old: "x \<in> set new \<or> x \<in> set (pending hs m' ty' js st)" if "x \<in> set (pending hs m' ty' js1 st1)" for x m' ty'
    using that delivery_run_journaled [OF turn] new unfolding set_pending eq by auto
  have "rank ty' < B" if "(m', ty', h') \<in> set ((m, ty, h) # ds)" and x: "x \<in> set (pending hs m' ty' js1 st1)" for m' ty' h' x
  proof (cases "x \<in> set new")
    case True
    moreover have "ob_type x = ty'" using x by (simp add: set_pending)
    moreover have "(m', ty', h') \<in> set regs" using that(1) assms(1,5) by auto
    ultimately show ?thesis using low [of x m' h'] rank by simp
  next
    case False
    with old [OF x] have p: "x \<in> set (pending hs m' ty' js st)" by blast
    have "\<not> (m' = m \<and> ty' = ty)" using all p x unfolding set_pending eq by blast
    with that(1) have "(m', ty', h') \<in> set ds" by auto
    then show ?thesis using p by (rule pending_belowD [OF assms(4)])
  qed
  then have "pending_below hs rank B ((m, ty, h) # ds) js1 st1" by (rule pending_belowI)
  moreover have "rank ty' < Suc B" if "(m', ty', h') \<in> set regs" and x: "x \<in> set (pending hs m' ty' js1 st1)" for m' ty' h' x
  proof (cases "x \<in> set new")
    case True
    moreover have "ob_type x = ty'" using x by (simp add: set_pending)
    ultimately show ?thesis using low [of x m' h'] that(1) rank by simp
  next
    case False
    with old [OF x] have "x \<in> set (pending hs m' ty' js st)" by blast
    then show ?thesis by (rule pending_belowD [OF assms(3) that(1)])
  qed
  then have "pending_below hs rank (Suc B) regs js1 st1" by (rule pending_belowI)
  moreover have "distinct (map ob_id (outbox st1))"
    using run_outbox [OF delivery_run_mono [OF _ turn] assms(2)] assms(1) unfolding eq by simp
  ultimately show ?thesis by blast
qed

lemma round_below:
  assumes "set rs \<subseteq> set regs" and "set ds \<subseteq> set regs" and "set regs \<subseteq> set ds \<union> set rs"
    and "distinct (map ob_id (outbox st))"
    and "pending_below hs rank (Suc B) regs js st" and "pending_below hs rank B ds js st"
    and "dispatch_round hs rs (any, js, st) = Inr (any', js', st')"
  shows "pending_below hs rank B regs js' st'"
  using assms
proof (induction rs arbitrary: ds any js st)
  case Nil
  then have "set regs = set ds" by auto
  with Nil show ?case by (simp add: pending_below_def)
next
  case (Cons r rs)
  obtain m ty h where r: "r = (m, ty, h)" by (cases r)
  with Cons.prems(1) have reg: "(m, ty, h) \<in> set regs" by simp
  from Cons.prems(7) obtain any1 js1 st1 where
    one: "deliver_rows hs m h (pending hs m ty js st) (any, js, st) = Inr (any1, js1, st1)"
    and rest: "dispatch_round hs rs (any1, js1, st1) = Inr (any', js', st')"
    by (auto simp: r bind_r_Inr_iff)
  note t = turn_below [OF reg Cons.prems(4,5,6,2) one]
  have "set rs \<subseteq> set regs" "set ((m, ty, h) # ds) \<subseteq> set regs" "set regs \<subseteq> set ((m, ty, h) # ds) \<union> set rs"
    using Cons.prems(1-3) r by auto
  from Cons.IH [OF this _ _ _ rest] t show ?case by blast
qed

lemma drains:
  assumes "distinct (map ob_id (outbox st))" and "pending_below hs rank B regs js st" and "B < n"
  shows "\<exists>js' st'. dispatchRounds hs regs n (js, st) = Inr (js', st') \<and> (delivery_step hs regs)\<^sup>*\<^sup>* (js, st) (js', st') \<and>
    (\<forall>(m, ty, h) \<in> set regs. pending hs m ty js' st' = [])"
  using assms
proof (induction n arbitrary: B js st)
  case 0
  then show ?case by simp
next
  case (Suc n)
  from round_runs [OF subset_refl Suc.prems(1), of False js] obtain ok js1 st1 where
    one: "dispatch_round hs regs (False, js, st) = Inr (ok, js1, st1)"
    and run: "(delivery_step hs regs)\<^sup>*\<^sup>* (js, st) (js1, st1)" and same: "\<not> ok \<longrightarrow> st1 = st" by auto
  show ?case
  proof (cases ok)
    case False
    with quiet_round [OF subset_refl Suc.prems(1), of js js1 st1] one run show ?thesis by auto
  next
    case True
    have dist: "distinct (map ob_id (outbox st1))" using run_outbox [OF run Suc.prems(1)] by blast
    show ?thesis
    proof (cases B)
      case 0
      with Suc.prems(2) have "\<forall>(m, ty, h) \<in> set regs. pending hs m ty js st = []" by (auto simp: pending_below_def)
      then have "dispatch_round hs rs (False, js, st) = Inr (False, js, st)" if "set rs \<subseteq> set regs" for rs
        using that by (induction rs) auto
      with one True show ?thesis by simp
    next
      case (Suc B')
      have "pending_below hs rank B' regs js1 st1"
        by (rule round_below [OF subset_refl _ _ Suc.prems(1) Suc.prems(2) [unfolded Suc] _ one, of "[]"])
          (simp_all add: pending_below_def)
      from Suc.IH [OF dist this] Suc Suc.prems(3) obtain js' st' where
        "dispatchRounds hs regs n (js1, st1) = Inr (js', st')" "(delivery_step hs regs)\<^sup>*\<^sup>* (js1, st1) (js', st')"
        "\<forall>(m, ty, h) \<in> set regs. pending hs m ty js' st' = []" by auto
      with one True run show ?thesis by (auto intro: rtranclp_trans)
    qed
  qed
qed

end

end
