(* ===== verification/Billing.thy ===== *)
theory Billing
  imports Invoicing Delivery
begin

text \<open>
  From a completed work order to an invoice line: the two engines meet only in the outbox.  This
  theory registers the invoicing engine's consumers with the drain, discharges the drain's contract
  for them, and follows one completion through the payload that carries it.
\<close>

section \<open>The invoicing engine behind the drain\<close>

definition invoicing_module :: string where
  "invoicing_module = ''@substrat-run/engine-invoicing''"

definition billing_regs ::
  "op_ctx \<Rightarrow> (string \<times> string \<times> (outbox_row \<Rightarrow> 'a inv_store_scheme \<Rightarrow> 'a inv_store_scheme result)) list" where
  "billing_regs cx = registrations cx [(invoicing_module, invoicingConsumers)]"

text \<open>The cascade: a consumed event is worth one round, what the consumers emit none.\<close>

definition billing_rank :: "string \<Rightarrow> nat" where
  "billing_rank ty = (if ty = ''invoicing.underlag-updated'' then 0 else 1)"

lemma billing_regs_mem:
  "(m, ty, h) \<in> set (billing_regs cx) \<longleftrightarrow>
     m = invoicing_module \<and> (\<exists>f. (ty, f) \<in> set invoicingConsumers \<and> h = (\<lambda>e. f (deliveryContext cx m) (ob_payload e)))"
  by (auto simp: billing_regs_def registrations_def)

lemma bill_outbox:
  assumes "bill cx ty d c bs st = Inr st'"
  shows "\<exists>new. outbox st' = outbox st @ new \<and> (\<forall>x \<in> set new. ob_type x = ''invoicing.underlag-updated'') \<and>
    (distinct (map ob_id (outbox st)) \<longrightarrow> distinct (map ob_id (outbox st')))"
proof (cases "bs = [] \<or> list_ex (of_document ty d) (inv_lines st)")
  case True
  with assms have "st' = st" by (auto simp: bill_def split: if_splits)
  then show ?thesis by simp
next
  case False
  with assms obtain u st1 st2 where o: "openUnderlag cx c st = Inr (u, st1)"
    and ins: "insertLines cx (u_id u) ty d bs st1 = Inr st2"
    and em: "emit cx (inv_event ''invoicing.underlag-updated'' 1 (u_id u)
          (JObj [(''underlagId'', JStr (u_id u)), (''addedLines'', JNum (int (length bs))),
                 (''source'', json_ref \<lparr>entityType = ty, entityId = d\<rparr>)])) st2 = Inr st'"
    by (auto simp: bill_def bind_r_Inr_iff split: if_splits)
  from o have "outbox st1 = outbox st" by (rule openUnderlag_Inr)
  moreover have "outbox st2 = outbox st1" using insertLines_Inr [OF ins] by blast
  ultimately show ?thesis using emit_Inr(2) [OF em] emit_Inr(5) [OF em] by (auto simp: inv_event_def)
qed

lemma consumer_outbox:
  assumes "(ty, f) \<in> set invoicingConsumers" and "f cx j st = Inr st'"
  shows "\<exists>new. outbox st' = outbox st @ new \<and> (\<forall>x \<in> set new. ob_type x = ''invoicing.underlag-updated'') \<and>
    (distinct (map ob_id (outbox st)) \<longrightarrow> distinct (map ob_id (outbox st')))"
  using assms
proof (cases rule: consumer_bills)
  case passed
  then show ?thesis by simp
next
  case (bills dt d c bs)
  with assms(2) have "bill cx dt d c bs st = Inr st'" by simp
  then show ?thesis by (rule bill_outbox)
qed

interpretation bl: ranked_consumers "billing_regs cx" hs billing_rank for cx hs
proof
  fix m ty h e and st st' :: "'a inv_store_scheme"
  assume "(m, ty, h) \<in> set (billing_regs cx)" "h e st = Inr st'"
  then obtain f where f: "(ty, f) \<in> set invoicingConsumers" "f (deliveryContext cx m) (ob_payload e) st = Inr st'"
    by (auto simp: billing_regs_mem)
  show "\<exists>new. outbox st' = outbox st @ new" using consumer_outbox [OF f] by blast
  show "distinct (map ob_id (outbox st')) " if "distinct (map ob_id (outbox st))" using consumer_outbox [OF f] that by blast
next
  fix m e h and st st' :: "'a inv_store_scheme" and new x m' h'
  assume "(m, ob_type e, h) \<in> set (billing_regs cx)" "h e st = Inr st'" "outbox st' = outbox st @ new" "x \<in> set new"
    and x: "(m', ob_type x, h') \<in> set (billing_regs cx)"
  then obtain f where f: "(ob_type e, f) \<in> set invoicingConsumers" "f (deliveryContext cx m) (ob_payload e) st = Inr st'"
    by (auto simp: billing_regs_mem)
  from consumer_outbox [OF f] \<open>outbox st' = outbox st @ new\<close> \<open>x \<in> set new\<close>
  have "ob_type x = ''invoicing.underlag-updated''" by auto
  then show "billing_rank (ob_type x) < billing_rank (ob_type e)"
    using x by (auto simp: billing_regs_mem invoicingConsumers_def)
qed

section \<open>A completion as the invoicing engine reads it\<close>

definition billed_of :: "billable_line \<Rightarrow> billed_line" where
  "billed_of l = \<lparr>b_article = bl_article l, b_description = bl_description l, b_qty = bl_qty l, b_unit = bl_unit l,
     b_unitPrice = bl_unitPrice l, b_lineTotal = bl_lineTotal l, b_source = Some (bl_sourceType l, bl_sourceId l)\<rparr>"

lemma decimalString_ne: "decimalString s \<Longrightarrow> s \<noteq> []"
  by (auto simp: decimalString_def Let_def)

lemma z_sourced_line_json: "billableLine l \<Longrightarrow> z_sourced_line (json_line l) = Some (billed_of l)"
  using decimalString_ne [of "bl_qty l"]
  by (auto simp: z_sourced_line_def z_line_def json_line_def billed_of_def billableLine_def)

lemma completedPayload_json:
  assumes "list_all billableLine billable" and "money_ok m" and "o_id row \<noteq> []" and "\<bar>o_number row\<bar> \<le> MAX_SAFE_INTEGER"
    and "entityRef_ok \<lparr>entityType = o_customer_type row, entityId = o_customer_id row\<rparr>"
  shows "completedPayload (completed_payload row billable m) =
    Some \<lparr>cp_orderId = o_id row, cp_number = o_number row,
      cp_customer = \<lparr>entityType = o_customer_type row, entityId = o_customer_id row\<rparr>,
      cp_billable = map billed_of billable, cp_total = m\<rparr>"
proof -
  have "those (map z_sourced_line (map json_line billable)) = Some (map billed_of billable)"
    using assms(1) by (intro those_map) (auto simp: list_all_iff z_sourced_line_json)
  then show ?thesis using assms(2-) by (simp add: completedPayload_def completed_payload_def)
qed

text \<open>What a completion leaves behind.\<close>

lemma completion_event:
  assumes "completeWorkOrder cx i billable cur st = Inr ((w, m), st')"
  obtains row where "getRow i st = Inr row" "o_id row = i" "i \<noteq> []" "list_all billableLine billable" "money_ok m"
    "ob_payload (last (outbox st')) = completed_payload row billable m"
    "o_number row = w_number w" "entityRef_ok \<lparr>entityType = o_customer_type row, entityId = o_customer_id row\<rparr>"
    "micros m = sum_list (map (micros \<circ> bl_lineTotal) billable)"
  using completeWorkOrder_Inr [OF assms]
proof cases
  case (1 row)
  have id: "o_id row = i" using 1(1) by (auto simp: getRow_def dest: row_where_SomeD split: option.splits)
  from 1(6) have "entityRef_ok (orderRef (o_id row))"
    using writeEvent_Inr(1) by (fastforce simp: emit_def domainEventInput_def wo_event_def)
  then have ne: "i \<noteq> []" by (simp add: id orderRef_def entityRef_ok_def)
  from emit_Inr(2) [OF 1(6)] have payload: "ob_payload (last (outbox st')) = completed_payload row billable m"
    by (auto simp: wo_event_def)
  have "row_where (\<lambda>r. o_id r = i) (wo_orders st') = Some (row\<lparr>o_status := ''completed'', o_completed_at := Some (cx_at cx)\<rparr>)"
    using getRow_Inr [OF 1(1)] emit_tables(1) [OF 1(6)] by (simp add: row_where_update_where id)
  then have "o_number row = w_number w" "entityRef_ok \<lparr>entityType = o_customer_type row, entityId = o_customer_id row\<rparr>"
    using 1(7) by (auto simp: getWorkOrder_def getRow_def toWorkOrder_def id returns_Inr Let_def)
  moreover have "micros m = sum_list (map (micros \<circ> bl_lineTotal) billable)"
    using completion_money(3) [OF assms] .
  ultimately show thesis using that 1(1,3,5) id ne payload by blast
qed


lemma filter_document_new: "filter (of_document ty d) (map2 (stored_of cx u ty d) ids bs) = map2 (stored_of cx u ty d) ids bs"
  by (auto simp: filter_id_conv of_document_def stored_of_def)

section \<open>Properties\<close>

definition billing_store :: inv_store where
  "billing_store = inv_empty\<lparr>wo_orders := [wo_row ''in_progress'' None]\<rparr>"

definition billing_host :: drain_host where
  "billing_host = \<lparr>hs_clock = (\<lambda>_. ''2026-01-01T00:00:00.000Z''), hs_undecodable = (\<lambda>_. None), hs_through = ''''\<rparr>"

definition mixed_line :: billable_line where
  "mixed_line = (wo_line ''10.5'' ''SEK'')\<lparr>bl_unitPrice := \<lparr>amount = ''1'', currency = ''EUR''\<rparr>\<rparr>"

definition completed_store :: "billable_line list \<Rightarrow> inv_store" where
  "completed_store ls = (case completeWorkOrder wo_ctx ''W0'' ls None billing_store of Inr (_, s) \<Rightarrow> s | Inl _ \<Rightarrow> billing_store)"

lemma demo_completed:
  "\<exists>w m. completeWorkOrder wo_ctx ''W0'' [wo_line ''10.5'' ''SEK'', wo_line ''0.25'' ''SEK''] None billing_store =
     Inr ((w, m), completed_store [wo_line ''10.5'' ''SEK'', wo_line ''0.25'' ''SEK'']) \<and> w_number w = 1"
  "\<exists>w m. completeWorkOrder wo_ctx ''W0'' [mixed_line] None billing_store = Inr ((w, m), completed_store [mixed_line])"
proof -
  have n: "(case completeWorkOrder wo_ctx ''W0'' [wo_line ''10.5'' ''SEK'', wo_line ''0.25'' ''SEK''] None billing_store of
      Inr ((w, _), _) \<Rightarrow> w_number w | Inl _ \<Rightarrow> 0) = 1" by code_simp
  have "is_ok (completeWorkOrder wo_ctx ''W0'' [wo_line ''10.5'' ''SEK'', wo_line ''0.25'' ''SEK''] None billing_store)" by code_simp
  then obtain w m s where "completeWorkOrder wo_ctx ''W0'' [wo_line ''10.5'' ''SEK'', wo_line ''0.25'' ''SEK''] None billing_store =
     Inr ((w, m), s)" using is_ok_tripleE by blast
  with n show "\<exists>w m. completeWorkOrder wo_ctx ''W0'' [wo_line ''10.5'' ''SEK'', wo_line ''0.25'' ''SEK''] None billing_store =
     Inr ((w, m), completed_store [wo_line ''10.5'' ''SEK'', wo_line ''0.25'' ''SEK'']) \<and> w_number w = 1"
    unfolding completed_store_def by simp
  have "is_ok (completeWorkOrder wo_ctx ''W0'' [mixed_line] None billing_store)" by code_simp
  then obtain w m s where "completeWorkOrder wo_ctx ''W0'' [mixed_line] None billing_store = Inr ((w, m), s)"
    using is_ok_tripleE by blast
  then show "\<exists>w m. completeWorkOrder wo_ctx ''W0'' [mixed_line] None billing_store = Inr ((w, m), completed_store [mixed_line])"
    unfolding completed_store_def by simp
qed


text \<open>
  C36. The drain delivers at most once and never fails: over an outbox and a journal with unique keys
  it returns, its effect is a sequence of steps that each take one event and one module without a
  journal row and either commit the handler with a clean row or leave the store with the error, and
  the journal only grows, one row to an event and a module.
\<close>

theorem dispatch_at_most_once:
  assumes "distinct (map ob_id (outbox st))" and "distinct (map dl_key js)"
  shows "\<exists>ds st'. dispatch hs (billing_regs cx) (js, st) = Inr (js @ ds, st') \<and>
    (delivery_step hs (billing_regs cx))\<^sup>*\<^sup>* (js, st) (js @ ds, st') \<and> distinct (map dl_key (js @ ds))"
proof -
  from bl.rounds_run [OF assms(1)] obtain js' st' where "dispatch hs (billing_regs cx) (js, st) = Inr (js', st')"
    and run: "(delivery_step hs (billing_regs cx))\<^sup>*\<^sup>* (js, st) (js', st')" unfolding dispatch_def by blast
  moreover from delivery_run_journal [OF run assms(2)] obtain ds where "js' = js @ ds" "distinct (map dl_key js')" by blast
  ultimately show ?thesis by blast
qed

theorem dispatch_at_most_once_witness:
  "\<exists>ds st'. dispatch billing_host (billing_regs wo_ctx) ([], completed_store [mixed_line]) = Inr (ds, st') \<and>
    distinct (map dl_key ds)"
proof -
  have "distinct (map ob_id (outbox (completed_store [mixed_line])))" by code_simp
  from dispatch_at_most_once [OF this, of "[]" billing_host wo_ctx] show ?thesis by auto
qed

text \<open>
  Nothing is left behind: when the drain returns, every event in the outbox that was emitted here
  and that the invoicing engine consumes has its journal row, those emitted during the drain included.
  The fifty rounds are enough, because what the consumers emit nobody consumes.
\<close>

theorem dispatch_leaves_nothing:
  fixes st :: "'a inv_store_scheme"
  assumes "distinct (map ob_id (outbox st))"
  shows "\<exists>js' st'. dispatch hs (billing_regs cx) (js, st) = Inr (js', st') \<and>
    (\<forall>e \<in> set (outbox st'). emittedHere hs e \<and>
       ob_type e \<in> {''workorder.completed'', ''commerce.order-placed'', ''timesheet.period-closed''} \<longrightarrow>
       journaled invoicing_module js' e)"
proof -
  define R where "R = (billing_regs cx :: (string \<times> string \<times> (outbox_row \<Rightarrow> 'a inv_store_scheme \<Rightarrow> 'a inv_store_scheme result)) list)"
  have "pending_below hs billing_rank 2 R js st" by (rule pending_belowI) (simp add: billing_rank_def)
  from bl.drains [OF assms this [unfolded R_def], of 50] obtain js' st' where d: "dispatch hs R (js, st) = Inr (js', st')"
    and none: "\<forall>(m, ty, h) \<in> set R. pending hs m ty js' st' = []" unfolding dispatch_def R_def by auto
  have "journaled invoicing_module js' e" if "e \<in> set (outbox st')" "emittedHere hs e"
    "ob_type e \<in> {''workorder.completed'', ''commerce.order-placed'', ''timesheet.period-closed''}" for e
  proof -
    from that(3) obtain h where "(invoicing_module, ob_type e, h) \<in> set R"
      by (auto simp: R_def billing_regs_def registrations_def invoicingConsumers_def)
    with none have "pending hs invoicing_module (ob_type e) js' st' = []" by blast
    then have "e \<notin> set (pending hs invoicing_module (ob_type e) js' st')" by simp
    with that(1,2) show ?thesis by (simp add: set_pending)
  qed
  with d show ?thesis unfolding R_def by blast
qed

theorem dispatch_leaves_nothing_witness:
  "\<exists>js' st'. dispatch billing_host (billing_regs wo_ctx) ([], completed_store [mixed_line]) = Inr (js', st')"
proof -
  have "distinct (map ob_id (outbox (completed_store [mixed_line])))" by code_simp
  from dispatch_leaves_nothing [OF this] show ?thesis by blast
qed





text \<open>
  C38. A completion the work order engine accepts may be one the invoicing engine can never take: when
  a line's unit price is in another currency than its total, every delivery of the event throws, in
  every store that has not billed the order, so the order is completed, dead-lettered and not invoiced.
\<close>

theorem foreign_unit_price_never_billed:
  assumes "completeWorkOrder cx i billable cur st = Inr ((w, m), st')"
    and "l \<in> set billable" and "currency (bl_unitPrice l) \<noteq> currency (bl_lineTotal l)"
    and "\<not> list_ex (of_document ''workorder'' i) (inv_lines st1)"
  shows "\<not> is_ok (onWorkOrderCompleted cx' (ob_payload (last (outbox st'))) st1)"
proof
  assume "is_ok (onWorkOrderCompleted cx' (ob_payload (last (outbox st'))) st1)"
  then obtain st2 p where p: "completedPayload (ob_payload (last (outbox st'))) = Some p"
    and b: "bill cx' ''workorder'' (cp_orderId p) (cp_customer p) (cp_billable p) st1 = Inr st2"
    by (auto dest!: is_okE simp: onWorkOrderCompleted_def bind_r_Inr_iff parse_as_Inr)
  from completion_event [OF assms(1)] show False
  proof cases
    case (1 row)
    have "\<bar>o_number row\<bar> \<le> MAX_SAFE_INTEGER"
      using p 1(6) by (auto simp: completedPayload_def completed_payload_def bind_eq_Some_conv split: if_splits)
    from completedPayload_json [OF 1(4,5) _ this 1(8)] 1(2,3,6) p
    have bs: "cp_billable p = map billed_of billable" "cp_orderId p = i" by auto
    from b show False
    proof (cases rule: bill_Inr)
      case quiet
      then show False using assms(2,4) bs by auto
    next
      case (billed u new ids c)
      from billed(10) assms(2) bs(1) have "currency (bl_lineTotal l) = c" "currency (bl_unitPrice l) = c"
        by (auto simp: billed_of_def)
      with assms(3) show False by simp
    qed
  qed
qed

theorem foreign_unit_price_never_billed_witness:
  "\<not> is_ok (onWorkOrderCompleted wo_ctx (ob_payload (last (outbox (completed_store [mixed_line])))) inv_empty)"
proof -
  from demo_completed(2) obtain w m where c: "completeWorkOrder wo_ctx ''W0'' [mixed_line] None billing_store =
      Inr ((w, m), completed_store [mixed_line])" by blast
  have "mixed_line \<in> set [mixed_line]" "currency (bl_unitPrice mixed_line) \<noteq> currency (bl_lineTotal mixed_line)"
    by (simp_all add: mixed_line_def wo_line_def)
  moreover have "\<not> list_ex (of_document ''workorder'' ''W0'') (inv_lines inv_empty)" by (simp add: inv_empty_def)
  ultimately show ?thesis using foreign_unit_price_never_billed [OF c] by blast
qed

end
