(* ===== verification/Executors.thy ===== *)
theory Executors
  imports Delivery Complex_Main
begin

text \<open>
  The other readers of the outbox: executors, host code that acts outside the scope with platform
  authority (\<open>packages/adapter-sqlite/src/index.ts\<close>, \<open>dispatchExecutors\<close>, \<open>dispatchExecutorsPass\<close>,
  \<open>recordExecutorDelivery\<close>), with their retry policy
  (\<open>packages/kernel/src/connector-transport.ts\<close>).

  A handler runs outside the scope's transaction, so what it does to the world stays done when it
  throws; the world \<open>'x\<close> is whatever executors act on, the directory included, from which the pass
  reads whether the scope's work is held and the scope's own row, which says whether it is a primary
  install.  The \<open>n\<close>-th attempt of
  a pass reads the random source at \<open>n\<close>, and the clock at \<open>2 n\<close> for the backoff and at \<open>2 n + 1\<close> for
  the journal; \<open>toISOString\<close> is the field \<open>xh_iso\<close>.
\<close>

section \<open>Retry policy\<close>

record retry_policy =
  maxAttempts :: nat
  baseDelayMs :: nat
  maxDelayMs :: nat

record retry_input =
  ri_maxAttempts :: "nat option"
  ri_baseDelayMs :: "nat option"
  ri_maxDelayMs :: "nat option"

definition or_default :: "'v option \<Rightarrow> 'v \<Rightarrow> 'v" where
  "or_default x d = (case x of Some v \<Rightarrow> v | None \<Rightarrow> d)"

definition resolveRetryPolicy :: "retry_input option \<Rightarrow> retry_policy" where
  "resolveRetryPolicy retry =
     \<lparr>maxAttempts = or_default (Option.bind retry ri_maxAttempts) 5,
      baseDelayMs = or_default (Option.bind retry ri_baseDelayMs) 1000,
      maxDelayMs = or_default (Option.bind retry ri_maxDelayMs) 300000\<rparr>"

definition TERMINAL_RETRY :: retry_policy where
  "TERMINAL_RETRY = \<lparr>maxAttempts = 1, baseDelayMs = 0, maxDelayMs = 0\<rparr>"

text \<open>The delay after attempt \<open>n\<close>, for a random number \<open>r\<close> between 0 and 1.\<close>

definition backoffDelay :: "nat \<Rightarrow> retry_policy \<Rightarrow> rat \<Rightarrow> rat" where
  "backoffDelay n retry r =
     (let raw = of_nat (min (baseDelayMs retry * 2 ^ (n - 1)) (maxDelayMs retry)) in
      if raw = 0 then 0 else raw * (4 / 5 + r * (2 / 5)))"

record exec_host =
  xh_drain :: drain_host
  xh_iso :: "int \<Rightarrow> string"
  xh_ms :: "nat \<Rightarrow> int"
  xh_random :: "nat \<Rightarrow> rat"

definition backoffAt :: "exec_host \<Rightarrow> nat \<Rightarrow> nat \<Rightarrow> retry_policy \<Rightarrow> string" where
  "backoffAt xh tick n retry = xh_iso xh (xh_ms xh (2 * tick) + \<lfloor>backoffDelay n retry (xh_random xh tick)\<rfloor>)"

section \<open>The journal of attempts\<close>

definition attempt_key :: "string \<Rightarrow> string \<Rightarrow> delivery \<Rightarrow> bool" where
  "attempt_key e k d \<longleftrightarrow> dl_key d = (e, k)"

definition recordExecutorDelivery ::
  "exec_host \<Rightarrow> nat \<Rightarrow> string \<Rightarrow> string \<Rightarrow> err option \<Rightarrow> retry_policy \<Rightarrow> delivery list \<Rightarrow> bool \<times> nat \<times> delivery list" where
  "recordExecutorDelivery xh tick e k er retry js =
     (let prior = (case row_where (attempt_key e k) js of Some d \<Rightarrow> dl_attempts d | None \<Rightarrow> 0);
          attempts = prior + 1;
          exhausted = maxAttempts retry \<le> attempts;
          nextAttemptAt = (if er = None \<or> exhausted then None else Some (backoffAt xh tick attempts retry));
          row = \<lparr>dl_event = e, dl_module = k, dl_at = xh_iso xh (xh_ms xh (2 * tick + 1)), dl_error = er,
                 dl_attempts = attempts, dl_next = nextAttemptAt\<rparr> in
      (er \<noteq> None \<and> exhausted, attempts,
       if list_ex (attempt_key e k) js then update_where (attempt_key e k) (\<lambda>_. row) js else js @ [row]))"

section \<open>A pass\<close>

datatype handler_outcome = Done | Refused string | Threw err

record 'x executor =
  ex_id :: string
  ex_eventType :: string
  ex_retry :: retry_policy
  ex_handler :: "outbox_row \<Rightarrow> 'x \<Rightarrow> 'x \<times> handler_outcome"

record drain_report =
  rp_attempted :: nat
  rp_delivered :: nat
  rp_retrying :: nat
  rp_deadLettered :: nat
  rp_inert :: nat
  rp_lifecycleHeld :: bool

definition empty_report :: drain_report where
  "empty_report = \<lparr>rp_attempted = 0, rp_delivered = 0, rp_retrying = 0, rp_deadLettered = 0, rp_inert = 0, rp_lifecycleHeld = False\<rparr>"

record scope_row =
  sc_kind :: "string option"
  sc_forked_from :: "string option"

definition isPrimaryScope :: "string \<Rightarrow> string option \<Rightarrow> bool" where
  "isPrimaryScope kind forkedFrom \<longleftrightarrow> (forkedFrom = None \<or> forkedFrom = Some '''') \<and> kind \<noteq> ''preview''"

definition isPrimaryScopeRow :: "scope_row option \<Rightarrow> bool" where
  "isPrimaryScopeRow row \<longleftrightarrow>
     (case row of None \<Rightarrow> False | Some r \<Rightarrow> isPrimaryScope (or_default (sc_kind r) '''') (sc_forked_from r))"

record 'x exec_world =
  xw_held :: "'x \<Rightarrow> bool" \<comment> \<open>\<open>scopeWorkRefusal\<close>\<close>
  xw_scope :: "'x \<Rightarrow> scope_row option" \<comment> \<open>the scope's row in the directory\<close>

record 'x exec_state =
  xs_journal :: "delivery list"
  xs_world :: 'x
  xs_inert :: "bool option" \<comment> \<open>asked once, on the first due event\<close>
  xs_report :: drain_report

definition deliveryId :: "'x executor \<Rightarrow> string" where
  "deliveryId ex = ''executor:'' @ ex_id ex"

text \<open>Due: never attempted, or retrying and past its next attempt.\<close>

definition due :: "exec_host \<Rightarrow> string \<Rightarrow> string \<Rightarrow> delivery list \<Rightarrow> outbox_row \<Rightarrow> bool" where
  "due xh now k js e \<longleftrightarrow>
     (case row_where (attempt_key (ob_id e) k) js of
        None \<Rightarrow> True
      | Some d \<Rightarrow> (case dl_next d of Some nxt \<Rightarrow> nxt \<le> now | None \<Rightarrow> False))"

definition due_rows :: "exec_host \<Rightarrow> string \<Rightarrow> 'x executor \<Rightarrow> delivery list \<Rightarrow> outbox_row list \<Rightarrow> outbox_row list" where
  "due_rows xh now ex js out =
     sort_key ob_id (filter (\<lambda>e. ob_type e = ex_eventType ex \<and> emittedHere (xh_drain xh) e \<and> due xh now (deliveryId ex) js e) out)"

definition INERT_SCOPE_REASON :: string where
  "INERT_SCOPE_REASON = ''not executed: this scope is a preview or a fork, and those cause no outbound effects''"

text \<open>
  One due event before its journal row: what becomes of the world, whether the scope was found
  inert, the error to journal and under which policy, and how the report counts it.
\<close>

datatype attempt_kind = Delivered | DeadLettered | Inert | Failed

definition attempt_effect ::
  "exec_host \<Rightarrow> 'x exec_world \<Rightarrow> 'x executor \<Rightarrow> outbox_row \<Rightarrow> 'x \<Rightarrow> bool option \<Rightarrow>
   'x \<times> bool option \<times> err option \<times> retry_policy \<times> attempt_kind" where
  "attempt_effect xh xw ex e x asked =
     (case hs_undecodable (xh_drain xh) e of
        Some er \<Rightarrow> (x, asked, Some er, TERMINAL_RETRY, DeadLettered)
      | None \<Rightarrow>
          (let inert = or_default asked (\<not> isPrimaryScopeRow (xw_scope xw x)) in
           if inert then (x, Some inert, Some (PlainError INERT_SCOPE_REASON), TERMINAL_RETRY, Inert)
           else
             (case ex_handler ex e x of
                (x', Done) \<Rightarrow> (x', Some inert, None, ex_retry ex, Delivered)
              | (x', Refused reason) \<Rightarrow> (x', Some inert, Some (PlainError (''refused: '' @ reason)), TERMINAL_RETRY, DeadLettered)
              | (x', Threw er) \<Rightarrow> (x', Some inert, Some er, ex_retry ex, Failed))))"

fun count_attempt :: "attempt_kind \<Rightarrow> bool \<Rightarrow> drain_report \<Rightarrow> drain_report" where
  "count_attempt Delivered dead r = r\<lparr>rp_delivered := rp_delivered r + 1\<rparr>"
| "count_attempt DeadLettered dead r = r\<lparr>rp_deadLettered := rp_deadLettered r + 1\<rparr>"
| "count_attempt Inert dead r = r\<lparr>rp_inert := rp_inert r + 1\<rparr>"
| "count_attempt Failed dead r =
     (if dead then r\<lparr>rp_deadLettered := rp_deadLettered r + 1\<rparr> else r\<lparr>rp_retrying := rp_retrying r + 1\<rparr>)"

definition attempt ::
  "exec_host \<Rightarrow> 'x exec_world \<Rightarrow> 'x executor \<Rightarrow> outbox_row \<Rightarrow> 'x exec_state \<Rightarrow> 'x exec_state" where
  "attempt xh xw ex e s =
     (let tick = rp_attempted (xs_report s); report = (xs_report s)\<lparr>rp_attempted := tick + 1\<rparr> in
      case attempt_effect xh xw ex e (xs_world s) (xs_inert s) of (x, inert, er, retry, kind) \<Rightarrow>
      case recordExecutorDelivery xh tick (ob_id e) (deliveryId ex) er retry (xs_journal s) of (dead, _, js) \<Rightarrow>
        \<lparr>xs_journal = js, xs_world = x, xs_inert = inert, xs_report = count_attempt kind dead report\<rparr>)"

text \<open>The rows of one executor; the flag says the pass returned because the scope's work is held.\<close>

fun attempt_rows ::
  "exec_host \<Rightarrow> 'x exec_world \<Rightarrow> 'x executor \<Rightarrow> outbox_row list \<Rightarrow> 'x exec_state \<Rightarrow> bool \<times> 'x exec_state" where
  "attempt_rows xh xw ex [] s = (False, s)"
| "attempt_rows xh xw ex (e # es) s =
     (if xw_held xw (xs_world s) then (True, s\<lparr>xs_report := (xs_report s)\<lparr>rp_lifecycleHeld := True\<rparr>\<rparr>)
      else attempt_rows xh xw ex es (attempt xh xw ex e s))"

fun exec_pass ::
  "exec_host \<Rightarrow> 'x exec_world \<Rightarrow> string \<Rightarrow> outbox_row list \<Rightarrow> 'x executor list \<Rightarrow> 'x exec_state \<Rightarrow> 'x exec_state" where
  "exec_pass xh xw now out [] s = s"
| "exec_pass xh xw now out (ex # exs) s =
     (case attempt_rows xh xw ex (due_rows xh now ex (xs_journal s) out) s of
        (True, s') \<Rightarrow> s'
      | (False, s') \<Rightarrow> exec_pass xh xw now out exs s')"

definition dispatchExecutors ::
  "exec_host \<Rightarrow> 'x exec_world \<Rightarrow> string \<Rightarrow> outbox_row list \<Rightarrow> 'x executor list \<Rightarrow> delivery list \<Rightarrow> 'x \<Rightarrow> 'x exec_state" where
  "dispatchExecutors xh xw now out exs js x =
     (let s = \<lparr>xs_journal = js, xs_world = x, xs_inert = None, xs_report = empty_report\<rparr> in
      if exs = [] then s
      else if xw_held xw x then s\<lparr>xs_report := empty_report\<lparr>rp_lifecycleHeld := True\<rparr>\<rparr>
      else exec_pass xh xw now out exs s)"

section \<open>A pass as a list of attempts\<close>

definition lookup :: "string \<times> string \<Rightarrow> delivery list \<Rightarrow> delivery option" where
  "lookup key js = row_where (attempt_key (fst key) (snd key)) js"

definition tries :: "string \<times> string \<Rightarrow> delivery list \<Rightarrow> nat" where
  "tries key js = (case lookup key js of Some d \<Rightarrow> dl_attempts d | None \<Rightarrow> 0)"

definition akey :: "'x executor \<times> outbox_row \<Rightarrow> string \<times> string" where
  "akey a = (ob_id (snd a), deliveryId (fst a))"

definition run_attempts ::
  "exec_host \<Rightarrow> 'x exec_world \<Rightarrow> ('x executor \<times> outbox_row) list \<Rightarrow> 'x exec_state \<Rightarrow> 'x exec_state" where
  "run_attempts xh xw as s = fold (\<lambda>(ex, e). attempt xh xw ex e) as s"

text \<open>What an attempt must leave in the journal under a policy.\<close>

definition settled_by :: "retry_policy \<Rightarrow> delivery \<Rightarrow> bool" where
  "settled_by retry d \<longleftrightarrow> 1 \<le> dl_attempts d \<and>
     (dl_next d \<noteq> None \<longrightarrow> dl_error d \<noteq> None \<and> dl_attempts d < maxAttempts retry)"

lemma record_lookup:
  assumes "recordExecutorDelivery xh tick e k er retry js = (dead, n, js')"
  shows "lookup key js' = (if key = (e, k) then Some
      \<lparr>dl_event = e, dl_module = k, dl_at = xh_iso xh (xh_ms xh (2 * tick + 1)), dl_error = er, dl_attempts = tries (e, k) js + 1,
       dl_next = (if er = None \<or> maxAttempts retry \<le> tries (e, k) js + 1 then None
                  else Some (backoffAt xh tick (tries (e, k) js + 1) retry))\<rparr>
    else lookup key js)"
proof -
  define row where "row = \<lparr>dl_event = e, dl_module = k, dl_at = xh_iso xh (xh_ms xh (2 * tick + 1)), dl_error = er,
       dl_attempts = tries (e, k) js + 1,
       dl_next = (if er = None \<or> maxAttempts retry \<le> tries (e, k) js + 1 then None
                  else Some (backoffAt xh tick (tries (e, k) js + 1) retry))\<rparr>"
  have js': "js' = (if list_ex (attempt_key e k) js then update_where (attempt_key e k) (\<lambda>_. row) js else js @ [row])"
    using assms unfolding recordExecutorDelivery_def row_def tries_def lookup_def Let_def fst_conv snd_conv
    by (simp only: prod.inject conj_commute) blast
  have key: "attempt_key e' k' row \<longleftrightarrow> (e', k') = (e, k)" for e' k' by (auto simp: attempt_key_def row_def dl_key_def)
  show ?thesis
  proof (cases "list_ex (attempt_key e k) js")
    case True
    have "lookup key js' = map_option (\<lambda>r. if attempt_key e k r then row else r) (lookup key js)"
      unfolding lookup_def js' if_P [OF True]
      by (rule row_where_update_where) (auto simp: attempt_key_def row_def dl_key_def)
    moreover have "lookup (e, k) js \<noteq> None" using True by (auto simp: lookup_def row_where_None list_ex_iff)
    moreover have "attempt_key (fst key) (snd key) r" if "lookup key js = Some r" for r
      using that unfolding lookup_def by (auto dest: row_where_SomeD)
    ultimately show ?thesis
      unfolding row_def [symmetric] by (cases "lookup key js") (auto simp: attempt_key_def prod_eq_iff)
  next
    case False
    then have "lookup (e, k) js = None" by (auto simp: lookup_def row_where_None list_ex_iff)
    then show ?thesis
      unfolding row_def [symmetric] using False key [of "fst key" "snd key"]
      by (auto simp: lookup_def js' row_where_append split: option.splits)
  qed
qed

lemma attempt_parts:
  obtains x inert er retry kind dead n where
    "attempt_effect xh xw ex e (xs_world s) (xs_inert s) = (x, inert, er, retry, kind)"
    "recordExecutorDelivery xh (rp_attempted (xs_report s)) (ob_id e) (deliveryId ex) er retry (xs_journal s) =
       (dead, n, xs_journal (attempt xh xw ex e s))"
    "xs_world (attempt xh xw ex e s) = x" "xs_inert (attempt xh xw ex e s) = inert"
proof -
  obtain x inert er retry kind where eff: "attempt_effect xh xw ex e (xs_world s) (xs_inert s) = (x, inert, er, retry, kind)"
    by (metis prod_cases5)
  obtain dead n js where
    "recordExecutorDelivery xh (rp_attempted (xs_report s)) (ob_id e) (deliveryId ex) er retry (xs_journal s) = (dead, n, js)"
    by (metis prod_cases3)
  with eff that show ?thesis by (simp add: attempt_def Let_def)
qed

lemma attempt_lookup:
  shows "key \<noteq> akey (ex, e) \<Longrightarrow> lookup key (xs_journal (attempt xh xw ex e s)) = lookup key (xs_journal s)"
    and "\<exists>d. lookup (akey (ex, e)) (xs_journal (attempt xh xw ex e s)) = Some d \<and>
      dl_attempts d = tries (akey (ex, e)) (xs_journal s) + 1 \<and> settled_by (ex_retry ex) d"
proof -
  obtain x inert er retry kind dead n where
    eff: "attempt_effect xh xw ex e (xs_world s) (xs_inert s) = (x, inert, er, retry, kind)"
    and rec: "recordExecutorDelivery xh (rp_attempted (xs_report s)) (ob_id e) (deliveryId ex) er retry (xs_journal s) =
       (dead, n, xs_journal (attempt xh xw ex e s))"
    by (rule attempt_parts)
  from eff have pol: "retry = TERMINAL_RETRY \<or> retry = ex_retry ex"
    by (auto simp: attempt_effect_def Let_def split: option.splits if_splits prod.splits handler_outcome.splits)
  show "key \<noteq> akey (ex, e) \<Longrightarrow> lookup key (xs_journal (attempt xh xw ex e s)) = lookup key (xs_journal s)"
    using record_lookup [OF rec, of key] by (auto simp: akey_def)
  show "\<exists>d. lookup (akey (ex, e)) (xs_journal (attempt xh xw ex e s)) = Some d \<and>
      dl_attempts d = tries (akey (ex, e)) (xs_journal s) + 1 \<and> settled_by (ex_retry ex) d"
    using record_lookup [OF rec, of "akey (ex, e)"] pol by (auto simp: akey_def settled_by_def TERMINAL_RETRY_def split: if_splits)
qed

lemma run_lookup_other: "key \<notin> akey ` set as \<Longrightarrow> lookup key (xs_journal (run_attempts xh xw as s)) = lookup key (xs_journal s)"
proof (induction as arbitrary: s)
  case Nil
  then show ?case by (simp add: run_attempts_def)
next
  case (Cons a as)
  then show ?case using attempt_lookup(1) [of key "fst a" "snd a" xh xw s]
    by (simp add: run_attempts_def case_prod_beta)
qed

lemma run_lookup_once:
  assumes "distinct (map akey as)" and "(ex, e) \<in> set as"
  shows "\<exists>d. lookup (akey (ex, e)) (xs_journal (run_attempts xh xw as s)) = Some d \<and>
    dl_attempts d = tries (akey (ex, e)) (xs_journal s) + 1 \<and> settled_by (ex_retry ex) d"
  using assms
proof (induction as arbitrary: s)
  case Nil
  then show ?case by simp
next
  case (Cons a as)
  let ?s = "attempt xh xw (fst a) (snd a) s"
  have step: "run_attempts xh xw (a # as) s = run_attempts xh xw as ?s" by (simp add: run_attempts_def case_prod_beta)
  show ?case
  proof (cases "a = (ex, e)")
    case True
    with Cons.prems(1) have "akey (ex, e) \<notin> akey ` set as" by simp
    from run_lookup_other [OF this] attempt_lookup(2) [of ex e xh xw s] True show ?thesis unfolding step by simp
  next
    case False
    with Cons.prems have mem: "(ex, e) \<in> set as" and "akey a \<notin> akey ` set as" by auto
    then have "akey (ex, e) \<noteq> akey a" by (metis imageI)
    then have "lookup (akey (ex, e)) (xs_journal ?s) = lookup (akey (ex, e)) (xs_journal s)"
      by (intro attempt_lookup(1)) simp
    moreover from Cons.IH [OF _ mem, of ?s] Cons.prems(1) obtain d where
      "lookup (akey (ex, e)) (xs_journal (run_attempts xh xw as ?s)) = Some d"
      "dl_attempts d = tries (akey (ex, e)) (xs_journal ?s) + 1" "settled_by (ex_retry ex) d" by auto
    ultimately show ?thesis unfolding step tries_def by auto
  qed
qed

lemma due_lookup:
  "due xh now k js e \<longleftrightarrow>
     (case lookup (ob_id e, k) js of None \<Rightarrow> True | Some d \<Rightarrow> (\<exists>nxt. dl_next d = Some nxt \<and> nxt \<le> now))"
  by (auto simp: due_def lookup_def split: option.splits)

lemma run_append: "run_attempts xh xw (as @ bs) s = run_attempts xh xw bs (run_attempts xh xw as s)"
  by (simp add: run_attempts_def)

lemma attempt_rows_run:
  assumes "attempt_rows xh xw ex es s = (stop, s')"
  shows "\<exists>n. xs_journal s' = xs_journal (run_attempts xh xw (map (Pair ex) (take n es)) s) \<and>
    xs_world s' = xs_world (run_attempts xh xw (map (Pair ex) (take n es)) s) \<and>
    (\<not> stop \<longrightarrow> s' = run_attempts xh xw (map (Pair ex) es) s) \<and> (stop \<longrightarrow> rp_lifecycleHeld (xs_report s'))"
  using assms
proof (induction es arbitrary: s)
  case Nil
  then show ?case by (simp add: run_attempts_def)
next
  case (Cons e es)
  show ?case
  proof (cases "xw_held xw (xs_world s)")
    case True
    with Cons.prems show ?thesis by (intro exI [of _ 0]) (auto simp: run_attempts_def)
  next
    case False
    with Cons.prems have "attempt_rows xh xw ex es (attempt xh xw ex e s) = (stop, s')" by simp
    from Cons.IH [OF this] obtain n where
      "xs_journal s' = xs_journal (run_attempts xh xw (map (Pair ex) (take n es)) (attempt xh xw ex e s)) \<and>
       xs_world s' = xs_world (run_attempts xh xw (map (Pair ex) (take n es)) (attempt xh xw ex e s)) \<and>
       (\<not> stop \<longrightarrow> s' = run_attempts xh xw (map (Pair ex) es) (attempt xh xw ex e s)) \<and>
       (stop \<longrightarrow> rp_lifecycleHeld (xs_report s'))" by blast
    then show ?thesis by (intro exI [of _ "Suc n"]) (simp add: run_attempts_def)
  qed
qed

text \<open>What the query of a pass selects for an executor.\<close>

definition wanted :: "exec_host \<Rightarrow> string \<Rightarrow> delivery list \<Rightarrow> 'x executor \<Rightarrow> outbox_row \<Rightarrow> bool" where
  "wanted xh now js ex e \<longleftrightarrow>
     ob_type e = ex_eventType ex \<and> emittedHere (xh_drain xh) e \<and> due xh now (deliveryId ex) js e"

lemma due_rows_facts:
  assumes "distinct (map ob_id out)"
  shows "distinct (map ob_id (due_rows xh now ex js out))"
    and "e \<in> set (due_rows xh now ex js out) \<longleftrightarrow> e \<in> set out \<and> wanted xh now js ex e"
  using assms distinct_sort_filter by (auto simp: due_rows_def wanted_def)

lemma akey_Pair: "map akey (map (Pair ex) es) = map (\<lambda>e. (ob_id e, deliveryId ex)) es"
  by (simp add: akey_def)

text \<open>
  A pass makes a list of attempts, one to a key, each due when the pass began; a pass that was not
  held makes all of them.
\<close>

lemma exec_pass_run:
  assumes "distinct (map ob_id out)" and "distinct (map ex_id exs)"
  shows "\<exists>as. xs_journal (exec_pass xh xw now out exs s) = xs_journal (run_attempts xh xw as s) \<and>
    xs_world (exec_pass xh xw now out exs s) = xs_world (run_attempts xh xw as s) \<and> distinct (map akey as) \<and>
    set as \<subseteq> {(ex, e). ex \<in> set exs \<and> e \<in> set out \<and> wanted xh now (xs_journal s) ex e} \<and>
    (rp_lifecycleHeld (xs_report (exec_pass xh xw now out exs s)) \<or>
     {(ex, e). ex \<in> set exs \<and> e \<in> set out \<and> wanted xh now (xs_journal s) ex e} \<subseteq> set as)"
  using assms(2)
proof (induction exs arbitrary: s)
  case Nil
  then show ?case by (intro exI [of _ "[]"]) (simp add: run_attempts_def)
next
  case (Cons ex exs)
  let ?rows = "due_rows xh now ex (xs_journal s) out"
  note rows = due_rows_facts [OF assms(1), where xh = xh and now = now and ex = ex and js = "xs_journal s"]
  have inj: "distinct (map (\<lambda>e. (ob_id e, deliveryId ex)) (take n ?rows))" for n
  proof -
    have "distinct (map ob_id (take n ?rows))" using rows(1) by (metis distinct_take take_map)
    then show ?thesis by (auto simp: distinct_map inj_on_def)
  qed
  obtain stop s1 where a: "attempt_rows xh xw ex ?rows s = (stop, s1)" by (cases "attempt_rows xh xw ex ?rows s")
  from attempt_rows_run [OF a] obtain n where n: "xs_journal s1 = xs_journal (run_attempts xh xw (map (Pair ex) (take n ?rows)) s)"
    "xs_world s1 = xs_world (run_attempts xh xw (map (Pair ex) (take n ?rows)) s)"
    "\<not> stop \<longrightarrow> s1 = run_attempts xh xw (map (Pair ex) ?rows) s" "stop \<longrightarrow> rp_lifecycleHeld (xs_report s1)" by blast
  show ?case
  proof (cases stop)
    case True
    have "distinct (map akey (map (Pair ex) (take n ?rows)))" unfolding akey_Pair by (rule inj)
    moreover have "set (map (Pair ex) (take n ?rows)) \<subseteq>
        {(ex', e). ex' \<in> set (ex # exs) \<and> e \<in> set out \<and> wanted xh now (xs_journal s) ex' e}"
      using rows(2) by (auto dest: in_set_takeD)
    ultimately show ?thesis using True a n by (intro exI [of _ "map (Pair ex) (take n ?rows)"]) simp
  next
    case False
    with n(3) have s1: "s1 = run_attempts xh xw (map (Pair ex) ?rows) s" by blast
    let ?W = "\<lambda>js. {(ex, e). ex \<in> set exs \<and> e \<in> set out \<and> wanted xh now js ex e}"
    from Cons.IH [of s1] Cons.prems obtain as where as:
      "xs_journal (exec_pass xh xw now out exs s1) = xs_journal (run_attempts xh xw as s1)"
      "xs_world (exec_pass xh xw now out exs s1) = xs_world (run_attempts xh xw as s1)" "distinct (map akey as)"
      "set as \<subseteq> ?W (xs_journal s1)"
      "rp_lifecycleHeld (xs_report (exec_pass xh xw now out exs s1)) \<or> ?W (xs_journal s1) \<subseteq> set as"
      by auto
    have other: "deliveryId ex' \<noteq> deliveryId ex" if "ex' \<in> set exs" for ex'
      using Cons.prems that by (auto simp: deliveryId_def dest: sym)
    have same: "lookup (ob_id e, deliveryId ex') (xs_journal s1) = lookup (ob_id e, deliveryId ex') (xs_journal s)"
      if "ex' \<in> set exs" for ex' e
      unfolding s1 using other [OF that] by (intro run_lookup_other) (auto simp: akey_def)
    have W: "?W (xs_journal s1) = ?W (xs_journal s)"
      by (simp add: wanted_def due_lookup same cong: conj_cong)
    have split: "{(ex', e). ex' \<in> set (ex # exs) \<and> e \<in> set out \<and> wanted xh now (xs_journal s) ex' e} =
        Pair ex ` set ?rows \<union> ?W (xs_journal s)"
      using rows(2) by auto
    have "distinct (map akey (map (Pair ex) ?rows @ as))"
      using inj [of "length ?rows"] as(3,4) other unfolding map_append akey_Pair by (force simp: akey_def)
    then show ?thesis
      using False a as s1 unfolding split W by (intro exI [of _ "map (Pair ex) ?rows @ as"]) (auto simp: run_append)
  qed
qed

text \<open>The same of a dispatch; a dispatch held from the start makes none.\<close>

definition start :: "delivery list \<Rightarrow> 'x \<Rightarrow> 'x exec_state" where
  "start js x = \<lparr>xs_journal = js, xs_world = x, xs_inert = None, xs_report = empty_report\<rparr>"

lemma start_simps [simp]: "xs_journal (start js x) = js" "xs_world (start js x) = x" "xs_inert (start js x) = None"
  by (simp_all add: start_def)

lemma dispatchExecutors_run:
  assumes "distinct (map ob_id out)" and "distinct (map ex_id exs)"
  obtains as where
    "xs_journal (dispatchExecutors xh xw now out exs js x) = xs_journal (run_attempts xh xw as (start js x))"
    "xs_world (dispatchExecutors xh xw now out exs js x) = xs_world (run_attempts xh xw as (start js x))"
    "distinct (map akey as)"
    "set as \<subseteq> {(ex, e). ex \<in> set exs \<and> e \<in> set out \<and> wanted xh now js ex e}"
    "rp_lifecycleHeld (xs_report (dispatchExecutors xh xw now out exs js x)) \<or>
     {(ex, e). ex \<in> set exs \<and> e \<in> set out \<and> wanted xh now js ex e} \<subseteq> set as"
proof (cases "exs = [] \<or> xw_held xw x")
  case True
  then show ?thesis
    using that [of "[]"] by (auto simp: dispatchExecutors_def Let_def run_attempts_def)
next
  case False
  then have "dispatchExecutors xh xw now out exs js x = exec_pass xh xw now out exs (start js x)"
    by (simp add: dispatchExecutors_def start_def Let_def)
  with exec_pass_run [OF assms, of xh xw now "start js x"] that show ?thesis by auto
qed

lemma run_attempts_Cons: "run_attempts xh xw (a # as) s = run_attempts xh xw as (attempt xh xw (fst a) (snd a) s)"
  by (simp add: run_attempts_def case_prod_beta)

section \<open>A copy of a scope acts on nothing\<close>

definition terminal_row :: "delivery option \<Rightarrow> bool" where
  "terminal_row r \<longleftrightarrow> (case r of Some d \<Rightarrow> dl_next d = None \<and> dl_error d \<noteq> None | None \<Rightarrow> False)"

definition found_inert :: "'x exec_world \<Rightarrow> 'x exec_state \<Rightarrow> bool" where
  "found_inert xw s \<longleftrightarrow> \<not> isPrimaryScopeRow (xw_scope xw (xs_world s)) \<and> xs_inert s \<noteq> Some False"

lemma attempt_inert:
  assumes "found_inert xw s"
  shows "xs_world (attempt xh xw ex e s) = xs_world s" and "found_inert xw (attempt xh xw ex e s)"
    and "terminal_row (lookup (akey (ex, e)) (xs_journal (attempt xh xw ex e s)))"
proof -
  obtain x inert er retry kind dead n where
    eff: "attempt_effect xh xw ex e (xs_world s) (xs_inert s) = (x, inert, er, retry, kind)"
    and rec: "recordExecutorDelivery xh (rp_attempted (xs_report s)) (ob_id e) (deliveryId ex) er retry (xs_journal s) =
       (dead, n, xs_journal (attempt xh xw ex e s))"
    and world: "xs_world (attempt xh xw ex e s) = x" "xs_inert (attempt xh xw ex e s) = inert"
    by (rule attempt_parts)
  have x: "x = xs_world s \<and> inert \<noteq> Some False \<and> er \<noteq> None \<and> retry = TERMINAL_RETRY"
    using eff assms
    by (cases "xs_inert s"; cases "hs_undecodable (xh_drain xh) e")
      (auto simp: attempt_effect_def found_inert_def or_default_def Let_def split: if_splits dest: sym [of "Some _"])
  from x world assms show "xs_world (attempt xh xw ex e s) = xs_world s" "found_inert xw (attempt xh xw ex e s)"
    by (auto simp: found_inert_def)
  show "terminal_row (lookup (akey (ex, e)) (xs_journal (attempt xh xw ex e s)))"
    using record_lookup [OF rec, of "akey (ex, e)"] x by (auto simp: akey_def terminal_row_def TERMINAL_RETRY_def)
qed

lemma run_inert:
  assumes "found_inert xw s"
  shows "xs_world (run_attempts xh xw as s) = xs_world s \<and>
    (key \<in> akey ` set as \<longrightarrow> terminal_row (lookup key (xs_journal (run_attempts xh xw as s))))"
  using assms
proof (induction as arbitrary: s)
  case Nil
  then show ?case by (simp add: run_attempts_def)
next
  case (Cons a as)
  note at = attempt_inert [OF Cons.prems, where xh = xh and ex = "fst a" and e = "snd a"]
  have rest: "key \<notin> akey ` set as \<Longrightarrow> key = akey a \<Longrightarrow>
      terminal_row (lookup key (xs_journal (run_attempts xh xw as (attempt xh xw (fst a) (snd a) s))))"
    using run_lookup_other at(3) by (metis prod.collapse)
  show ?case unfolding run_attempts_Cons using Cons.IH [OF at(2)] at(1) rest by auto
qed

section \<open>Attempts are bounded\<close>

definition attempt_limit :: "'x executor \<Rightarrow> nat" where
  "attempt_limit ex = max 1 (maxAttempts (ex_retry ex))"

definition attempts_ok :: "'x executor list \<Rightarrow> delivery list \<Rightarrow> bool" where
  "attempts_ok exs js \<longleftrightarrow> (\<forall>ex \<in> set exs. \<forall>e d. lookup (e, deliveryId ex) js = Some d \<longrightarrow>
     settled_by (ex_retry ex) d \<and> dl_attempts d \<le> attempt_limit ex)"

lemma due_tries:
  assumes "attempts_ok exs js" and "ex \<in> set exs" and "wanted xh now js ex e"
  shows "tries (akey (ex, e)) js < attempt_limit ex"
proof (cases "lookup (ob_id e, deliveryId ex) js")
  case None
  then show ?thesis by (simp add: tries_def akey_def attempt_limit_def)
next
  case (Some d)
  with assms(3) have "dl_next d \<noteq> None" by (auto simp: wanted_def due_lookup)
  moreover have "settled_by (ex_retry ex) d" using assms(1,2) Some by (auto simp: attempts_ok_def)
  ultimately show ?thesis using Some by (simp add: tries_def akey_def attempt_limit_def settled_by_def)
qed

lemma run_attempts_ok:
  assumes "attempts_ok exs (xs_journal s)" and "distinct (map ex_id exs)" and "distinct (map akey as)"
    and "set as \<subseteq> {(ex, e). ex \<in> set exs \<and> tries (akey (ex, e)) (xs_journal s) < attempt_limit ex}"
  shows "attempts_ok exs (xs_journal (run_attempts xh xw as s))"
  unfolding attempts_ok_def
proof (intro ballI allI impI)
  fix ex i d
  assume ex: "ex \<in> set exs" and d: "lookup (i, deliveryId ex) (xs_journal (run_attempts xh xw as s)) = Some d"
  show "settled_by (ex_retry ex) d \<and> dl_attempts d \<le> attempt_limit ex"
  proof (cases "(i, deliveryId ex) \<in> akey ` set as")
    case False
    then show ?thesis using d ex assms(1) by (auto simp: run_lookup_other attempts_ok_def)
  next
    case True
    then obtain ex' e where a: "(ex', e) \<in> set as" and i: "(i, deliveryId ex) = akey (ex', e)" by auto
    with assms(4) have ex': "ex' \<in> set exs" "tries (akey (ex', e)) (xs_journal s) < attempt_limit ex'" by auto
    from i have "ex_id ex' = ex_id ex" by (simp add: akey_def deliveryId_def)
    with ex ex'(1) assms(2) have "ex' = ex" by (auto simp: distinct_map dest: inj_onD)
    with run_lookup_once [OF assms(3) a, of xh xw s] d i ex'(2) show ?thesis by auto
  qed
qed

section \<open>Properties\<close>

text \<open>
  A host with one executor, whose handler counts its calls and throws, and one event it is due.
\<close>

definition demo_xh :: exec_host where
  "demo_xh = \<lparr>xh_drain = \<lparr>hs_clock = (\<lambda>_. ''t''), hs_undecodable = (\<lambda>_. None), hs_through = ''''\<rparr>,
     xh_iso = (\<lambda>t. if t < 1000 then ''t0'' else ''t1''), xh_ms = (\<lambda>_. 0), xh_random = (\<lambda>_. 1 / 2)\<rparr>"

definition demo_xw :: "scope_row option \<Rightarrow> nat exec_world" where
  "demo_xw row = \<lparr>xw_held = (\<lambda>_. False), xw_scope = (\<lambda>_. row)\<rparr>"

definition demo_executor :: "nat executor" where
  "demo_executor = \<lparr>ex_id = ''crm'', ex_eventType = ''customer.created'', ex_retry = resolveRetryPolicy None,
     ex_handler = (\<lambda>e n. (n + 1, Threw (PlainError ''timeout'')))\<rparr>"

definition demo_event :: outbox_row where
  "demo_event = \<lparr>ob_id = ''E1'', ob_type = ''customer.created'', ob_schema_version = 1, ob_occurred_at = ''t0'',
     ob_actor = ActorSystem ''crm'', ob_entity = \<lparr>entityType = ''customer'', entityId = ''C1''\<rparr>, ob_pii_class = PiiNone,
     ob_subject_id = None, ob_authorization = [], ob_operation = None, ob_payload = JNull\<rparr>"

definition primary_row :: "scope_row option" where
  "primary_row = Some \<lparr>sc_kind = None, sc_forked_from = None\<rparr>"

definition fork_row :: "scope_row option" where
  "fork_row = Some \<lparr>sc_kind = None, sc_forked_from = Some ''S0''\<rparr>"

lemmas demo_exec_defs = demo_xh_def demo_xw_def demo_executor_def demo_event_def primary_row_def fork_row_def

lemma demo_exec_ids [simp]: "distinct (map ob_id [demo_event])" "distinct (map ex_id [demo_executor])" by simp_all

lemma attempts_ok_Nil [simp]: "attempts_ok exs []" by (simp add: attempts_ok_def lookup_def row_where_def)

text \<open>
  C39. A dispatch runs at most one attempt for each executor and event, only where fewer attempts have
  been made than the executor's policy allows (at least one), and keeps the journal within that
  bound: no row ever counts more attempts, and a row that used them all has no next attempt.
\<close>

theorem executor_attempts_bounded:
  assumes "distinct (map ob_id out)" and "distinct (map ex_id exs)" and "attempts_ok exs js"
  shows "\<exists>as. xs_journal (dispatchExecutors xh xw now out exs js x) = xs_journal (run_attempts xh xw as (start js x)) \<and>
    xs_world (dispatchExecutors xh xw now out exs js x) = xs_world (run_attempts xh xw as (start js x)) \<and>
    distinct (map akey as) \<and>
    (\<forall>(ex, e) \<in> set as. ex \<in> set exs \<and> e \<in> set out \<and> tries (akey (ex, e)) js < attempt_limit ex) \<and>
    attempts_ok exs (xs_journal (dispatchExecutors xh xw now out exs js x))"
proof -
  obtain as where
    as: "xs_journal (dispatchExecutors xh xw now out exs js x) = xs_journal (run_attempts xh xw as (start js x))"
      "xs_world (dispatchExecutors xh xw now out exs js x) = xs_world (run_attempts xh xw as (start js x))"
    and d: "distinct (map akey as)"
    and w: "set as \<subseteq> {(ex, e). ex \<in> set exs \<and> e \<in> set out \<and> wanted xh now js ex e}"
    by (rule dispatchExecutors_run [OF assms(1,2)])
  have t: "set as \<subseteq> {(ex, e). ex \<in> set exs \<and> tries (akey (ex, e)) js < attempt_limit ex}"
    using w due_tries [OF assms(3)] by fastforce
  have "attempts_ok exs (xs_journal (run_attempts xh xw as (start js x)))"
    using assms(2,3) d t by (intro run_attempts_ok) auto
  with as d t w show ?thesis by (intro exI [of _ as]) auto
qed

theorem executor_attempts_bounded_witness:
  "attempts_ok [demo_executor] (xs_journal (dispatchExecutors demo_xh (demo_xw primary_row) ''t'' [demo_event] [demo_executor] [] 0))"
  using executor_attempts_bounded [OF demo_exec_ids attempts_ok_Nil, of demo_xh "demo_xw primary_row" "''t''" 0] by blast

text \<open>
  A pass that was not held attempts everything that is due: the event's journal row then counts
  one attempt more, and is delivered, dead-lettered, or scheduled with attempts left.
\<close>

theorem unheld_pass_attempts_due:
  assumes "distinct (map ob_id out)" and "distinct (map ex_id exs)"
    and "\<not> rp_lifecycleHeld (xs_report (dispatchExecutors xh xw now out exs js x))"
    and "ex \<in> set exs" and "e \<in> set out" and "wanted xh now js ex e"
  shows "\<exists>d. lookup (ob_id e, deliveryId ex) (xs_journal (dispatchExecutors xh xw now out exs js x)) = Some d \<and>
    dl_attempts d = tries (ob_id e, deliveryId ex) js + 1 \<and>
    (dl_next d = None \<or> dl_error d \<noteq> None \<and> dl_attempts d < maxAttempts (ex_retry ex))"
proof -
  obtain as where
    j: "xs_journal (dispatchExecutors xh xw now out exs js x) = xs_journal (run_attempts xh xw as (start js x))"
    and d: "distinct (map akey as)"
    and w: "rp_lifecycleHeld (xs_report (dispatchExecutors xh xw now out exs js x)) \<or>
      {(ex, e). ex \<in> set exs \<and> e \<in> set out \<and> wanted xh now js ex e} \<subseteq> set as"
    by (rule dispatchExecutors_run [OF assms(1,2)])
  from w assms(3-6) have "(ex, e) \<in> set as" by auto
  from run_lookup_once [OF d this, of xh xw "start js x"] show ?thesis
    unfolding j by (auto simp: akey_def settled_by_def)
qed

lemmas demo_pass_defs = demo_exec_defs dispatchExecutors_def due_rows_def due_def wanted_def emittedHere_def Let_def attempt_def
  attempt_effect_def recordExecutorDelivery_def or_default_def isPrimaryScopeRow_def isPrimaryScope_def row_where_def
  empty_report_def resolveRetryPolicy_def

lemma demo_pass:
  "\<not> rp_lifecycleHeld (xs_report (dispatchExecutors demo_xh (demo_xw primary_row) ''t'' [demo_event] [demo_executor] [] 0))"
  "wanted demo_xh ''t'' [] demo_executor demo_event"
  by (simp_all add: demo_pass_defs)

theorem unheld_pass_attempts_due_witness:
  "\<exists>d. lookup (''E1'', ''executor:crm'')
      (xs_journal (dispatchExecutors demo_xh (demo_xw primary_row) ''t'' [demo_event] [demo_executor] [] 0)) = Some d \<and>
    dl_attempts d = 1"
  using unheld_pass_attempts_due [OF demo_exec_ids demo_pass(1) _ _ demo_pass(2)]
  by (auto simp: deliveryId_def tries_def lookup_def row_where_def demo_executor_def demo_event_def)

text \<open>
  A scope that is a fork or a preview causes no outbound effect: a dispatch leaves the world as
  it found it, whatever the handlers would do, and every journal row it changes is final, with the
  reason as its error.
\<close>

theorem inert_scope_no_effects:
  assumes "distinct (map ob_id out)" and "distinct (map ex_id exs)" and "\<not> isPrimaryScopeRow (xw_scope xw x)"
  shows "xs_world (dispatchExecutors xh xw now out exs js x) = x \<and>
    (lookup key (xs_journal (dispatchExecutors xh xw now out exs js x)) = lookup key js \<or>
     terminal_row (lookup key (xs_journal (dispatchExecutors xh xw now out exs js x))))"
proof -
  obtain as where
    as: "xs_journal (dispatchExecutors xh xw now out exs js x) = xs_journal (run_attempts xh xw as (start js x))"
      "xs_world (dispatchExecutors xh xw now out exs js x) = xs_world (run_attempts xh xw as (start js x))"
    by (rule dispatchExecutors_run [OF assms(1,2)])
  have "found_inert xw (start js x)" using assms(3) by (simp add: found_inert_def)
  from run_inert [OF this, of xh as key] run_lookup_other [of key as xh xw "start js x"] show ?thesis
    unfolding as by auto
qed

theorem inert_scope_no_effects_witness:
  "xs_world (dispatchExecutors demo_xh (demo_xw fork_row) ''t'' [demo_event] [demo_executor] [] 0) = 0 \<and>
   xs_world (dispatchExecutors demo_xh (demo_xw primary_row) ''t'' [demo_event] [demo_executor] [] 0) = 1"
proof -
  have "\<not> isPrimaryScopeRow (xw_scope (demo_xw fork_row) 0)" by code_simp
  moreover have "xs_world (dispatchExecutors demo_xh (demo_xw primary_row) ''t'' [demo_event] [demo_executor] [] 0) = 1"
    by (simp add: demo_pass_defs)
  ultimately show ?thesis using inert_scope_no_effects [OF demo_exec_ids] by blast
qed

text \<open>
  The delay before the next attempt is the base delay doubled for each attempt made and cut at
  the cap, within a fifth of it either way.
\<close>

theorem backoff_bounded:
  assumes "0 \<le> r" and "r \<le> 1"
  shows "4 / 5 * of_nat (min (baseDelayMs retry * 2 ^ (n - 1)) (maxDelayMs retry)) \<le> backoffDelay n retry r \<and>
    backoffDelay n retry r \<le> 6 / 5 * of_nat (min (baseDelayMs retry * 2 ^ (n - 1)) (maxDelayMs retry))"
proof -
  define raw :: rat where "raw = of_nat (min (baseDelayMs retry * 2 ^ (n - 1)) (maxDelayMs retry))"
  have "0 \<le> raw" by (simp add: raw_def)
  then have "raw * (4 / 5) \<le> raw * (4 / 5 + r * (2 / 5))" "raw * (4 / 5 + r * (2 / 5)) \<le> raw * (6 / 5)"
    using assms by (intro mult_left_mono; simp)+
  then show ?thesis unfolding raw_def [symmetric] backoffDelay_def Let_def by (auto simp: mult.commute)
qed

theorem backoff_bounded_witness:
  "backoffDelay 20 (resolveRetryPolicy None) (1 / 2) \<le> 360000"
  using backoff_bounded [of "1 / 2" "resolveRetryPolicy None" 20] by (simp add: resolveRetryPolicy_def or_default_def)

end
