(* ===== verification/Instants.thy ===== *)
theory Instants
  imports Engine_Base
begin

text \<open>
  Values the engines read and write: optional fields of an input, decimals, fixed text shapes, and instants.  \<open>Date.parse\<close> and
  \<open>toISOString\<close> are the fields of \<open>date_lib\<close>; the parse answers nothing where JavaScript answers \<open>NaN\<close>.
  \<open>date_laws\<close> is what the engines rely on of them.
\<close>

section \<open>Optional fields\<close>

definition truthy :: "string option \<Rightarrow> bool" where
  "truthy x \<longleftrightarrow> x \<noteq> None \<and> x \<noteq> Some []"

definition if_given :: "('a \<Rightarrow> bool) \<Rightarrow> 'a option \<Rightarrow> bool" where
  "if_given ok x \<longleftrightarrow> (case x of None \<Rightarrow> True | Some v \<Rightarrow> ok v)"

definition or_else :: "'a option \<Rightarrow> 'a \<Rightarrow> 'a" where
  "or_else x y = (case x of None \<Rightarrow> y | Some v \<Rightarrow> v)"

definition optional_r :: "('a \<Rightarrow> 'b result) \<Rightarrow> 'a option \<Rightarrow> 'b option result" where
  "optional_r f x = (case x of None \<Rightarrow> Inr None | Some v \<Rightarrow> bind_r (f v) (\<lambda>w. Inr (Some w)))"

lemma if_given_mono: "if_given P k \<Longrightarrow> (\<And>v. P v \<Longrightarrow> Q v) \<Longrightarrow> if_given Q k"
  by (cases k) (auto simp: if_given_def)

section \<open>Decimals and shapes\<close>

text \<open>A fixed shape: \<open>d\<close> stands for a digit, any other character for itself.\<close>

definition matches :: "string \<Rightarrow> string \<Rightarrow> bool" where
  "matches shape s \<longleftrightarrow> list_all2 (\<lambda>c x. if c = CHR ''d'' then is_digit x else x = c) shape s"

definition nonNegDecimal :: "string \<Rightarrow> bool" where
  "nonNegDecimal s \<longleftrightarrow> decimalString s"

definition signedDecimal :: "string \<Rightarrow> bool" where
  "signedDecimal s \<longleftrightarrow> decimalString (if startsWith s ''-'' then drop 1 s else s)"

definition quoted :: "string \<Rightarrow> string" where
  "quoted s = CHR 0x27 # s @ [CHR 0x27]"

text \<open>A decimal in micro-units; the value is that of \<open>toMicro\<close> wherever that reads it.\<close>

definition micro :: "string \<Rightarrow> int" where
  "micro q = sum.projr (toMicro q)"

lemma toMicro_micro: "signedDecimal q \<Longrightarrow> toMicro q = Inr (micro q)"
  using toMicro_moneyAmount [of q] by (auto simp: signedDecimal_def moneyAmount_def micro_def)

lemma micro_fromMicro [simp]: "micro (fromMicro n) = n"
  by (simp add: micro_def)

lemma signedDecimal_fromMicro [simp]: "signedDecimal (fromMicro n)"
  using moneyAmount_fromMicro [of n] by (simp add: signedDecimal_def moneyAmount_def)

lemma zero_qty: "signedDecimal ''0''" "micro ''0'' = 0"
  by code_simp+

section \<open>Instants\<close>

record date_lib =
  d_parse :: "string \<Rightarrow> int option"
  d_iso :: "int \<Rightarrow> string"

definition toISOString :: "'a date_lib_scheme \<Rightarrow> int option \<Rightarrow> string result" where
  "toISOString d ms =
     (case ms of
        Some m \<Rightarrow> if \<bar>m\<bar> \<le> 8640000000000000 then Inr (d_iso d m) else Inl (PlainError ''Invalid time value'')
      | None \<Rightarrow> Inl (PlainError ''Invalid time value''))"

text \<open>
  What the functions rely on of the date library: an instant it writes reads back as the same time.
\<close>

definition date_laws :: "'a date_lib_scheme \<Rightarrow> bool" where
  "date_laws d \<longleftrightarrow> (\<forall>m. \<bar>m\<bar> \<le> 8640000000000000 \<longrightarrow> d_parse d (d_iso d m) = Some m \<and> d_iso d m \<noteq> [])"

text \<open>A date library that writes instants as strokes.\<close>

definition tick :: "nat \<Rightarrow> string" where
  "tick n = ''T'' @ replicate n (CHR ''x'')"

definition demo_dates :: date_lib where
  "demo_dates = \<lparr>d_parse = (\<lambda>s. case s of [] \<Rightarrow> None | c # cs \<Rightarrow> Some (if c = CHR ''T'' then int (length cs) else - int (length cs) - 1)),
     d_iso = (\<lambda>n. if 0 \<le> n then tick (nat n) else ''-'' @ replicate (nat (- n - 1)) (CHR ''x''))\<rparr>"

lemma demo_date_laws: "date_laws demo_dates"
  by (simp add: date_laws_def demo_dates_def tick_def)

end
