(* ===== verification/Booking.thy ===== *)
theory Booking
  imports Instants
begin

text \<open>
  The reservation engine, \<open>engines/booking/src\<close>: resources with a capacity, reservations of a
  half-open interval of time, participants, the twelve in-scope functions that change them and the
  operation bindings that check a permission first.

  Instants are ISO strings and compare as strings.  The functions take an
  optional \<open>now\<close>; the bindings never pass one, since the host strips undeclared keys of an input.
  The seam's parse of a stored row is kept where a typed row can fail it: a state outside the enum, a
  share that is no money.

  The theory reduces every function to a step of the tables (\<open>cal_step\<close>), shows that the state column
  follows the declared lifecycle (the interpretation \<open>bk\<close> of \<open>governed_store\<close>) and that a resource is
  never allocated beyond its capacity at any instant.
\<close>

section \<open>Rows, shapes, lifecycle\<close>

record resource_row =
  rs_id :: string
  rs_kind :: string
  rs_name :: string
  rs_capacity :: int
  rs_active :: int
  rs_created_at :: string

record reservation_row =
  r_id :: string
  r_resource_id :: string
  r_starts_at :: string
  r_ends_at :: string
  r_state :: string
  r_quantity :: int
  r_expires_at :: "string option"
  r_fill_target :: "int option"
  r_note :: "string option"
  r_created_by :: string
  r_created_at :: string

record participant_row =
  p_id :: string
  p_reservation_id :: string
  p_party_ref :: string
  p_share_amount :: "string option"
  p_share_currency :: "string option"
  p_joined_at :: string
  p_left_at :: "string option"

record bk_store = scope_store +
  bk_resources :: "resource_row list"
  bk_reservations :: "reservation_row list"
  bk_participants :: "participant_row list"

definition reservation_states :: "string list" where
  "reservation_states =
     [''held'', ''confirmed'', ''in_service'', ''completed'', ''expired'', ''cancelled'', ''no_show'']"

definition bookingLifecycle :: lifecycle_def where
  "bookingLifecycle =
     \<lparr>field = ''state'', initial = ''held'',
      states =
        [(''held'', \<lparr>on = [(''booking/confirm'', ''confirmed''), (''booking/expire'', ''expired''), (''booking/cancel'', ''cancelled'')],
            allow = [''booking/join'', ''booking/open'', ''booking/move''], extensible = False, terminal = False\<rparr>),
         (''confirmed'', \<lparr>on = [(''booking/start'', ''in_service''), (''booking/complete'', ''completed''),
              (''booking/no-show'', ''no_show''), (''booking/cancel'', ''cancelled'')],
            allow = [''booking/join'', ''booking/open'', ''booking/move''], extensible = False, terminal = False\<rparr>),
         (''in_service'', \<lparr>on = [(''booking/complete'', ''completed''), (''booking/no-show'', ''no_show'')],
            allow = [], extensible = False, terminal = False\<rparr>),
         (''expired'', \<lparr>on = [], allow = [], extensible = False, terminal = True\<rparr>),
         (''cancelled'', \<lparr>on = [], allow = [], extensible = False, terminal = True\<rparr>),
         (''completed'', \<lparr>on = [], allow = [], extensible = False, terminal = True\<rparr>),
         (''no_show'', \<lparr>on = [], allow = [], extensible = False, terminal = True\<rparr>)]\<rparr>"

section \<open>Instants\<close>

definition toInstant :: "date_lib \<Rightarrow> string \<Rightarrow> string result" where
  "toInstant d v =
     bind_r (guard_r (d_parse d v \<noteq> None) (SubstratError Validation_Failed None (''invalid instant: '' @ v))) (\<lambda>_.
       toISOString d (d_parse d v))"

definition instantIn :: "date_lib \<Rightarrow> string \<Rightarrow> string result" where
  "instantIn d v = bind_r (guard_r (d_parse d v \<noteq> None) (ZodError ''instantIn'')) (\<lambda>_. toInstant d v)"

definition nowOr :: "op_ctx \<Rightarrow> date_lib \<Rightarrow> string option \<Rightarrow> string result" where
  "nowOr cx d now = (case now of Some (c # cs) \<Rightarrow> toInstant d (c # cs) | _ \<Rightarrow> Inr (cx_at cx))"

section \<open>Published shapes\<close>

record resource =
  re_id :: string
  re_kind :: string
  re_name :: string
  re_capacity :: int
  re_active :: bool
  re_createdAt :: string

record reservation =
  v_id :: string
  v_resourceId :: string
  v_startsAt :: string
  v_endsAt :: string
  v_state :: string
  v_effectiveState :: string
  v_quantity :: int
  v_expiresAt :: "string option"
  v_fillTarget :: "int option"
  v_note :: "string option"
  v_createdBy :: string
  v_createdAt :: string

record participant =
  pa_id :: string
  pa_partyRef :: string
  pa_share :: "money option"
  pa_joinedAt :: string
  pa_leftAt :: "string option"

definition toResource :: "resource_row \<Rightarrow> resource" where
  "toResource r =
     \<lparr>re_id = rs_id r, re_kind = rs_kind r, re_name = rs_name r, re_capacity = rs_capacity r,
      re_active = (rs_active r = 1), re_createdAt = rs_created_at r\<rparr>"

definition effectiveStateOf :: "string \<Rightarrow> string option \<Rightarrow> string \<Rightarrow> string" where
  "effectiveStateOf state expiresAt now =
     (if state = ''held'' \<and> (case expiresAt of Some e \<Rightarrow> e \<le> now | None \<Rightarrow> False) then ''expired'' else state)"

definition toReservation :: "reservation_row \<Rightarrow> string \<Rightarrow> reservation result" where
  "toReservation r now =
     returns ''engine-booking'' (''reservation '' @ r_id r) (r_state r \<in> set reservation_states)
       \<lparr>v_id = r_id r, v_resourceId = r_resource_id r, v_startsAt = r_starts_at r, v_endsAt = r_ends_at r,
        v_state = r_state r, v_effectiveState = effectiveStateOf (r_state r) (r_expires_at r) now,
        v_quantity = r_quantity r, v_expiresAt = r_expires_at r, v_fillTarget = r_fill_target r,
        v_note = r_note r, v_createdBy = r_created_by r, v_createdAt = r_created_at r\<rparr>"

text \<open>A share is published where both of its columns are truthy.\<close>

definition toParticipant :: "participant_row \<Rightarrow> participant result" where
  "toParticipant r =
     (let share = (if truthy (p_share_amount r) \<and> truthy (p_share_currency r)
                   then Some \<lparr>amount = the (p_share_amount r), currency = the (p_share_currency r)\<rparr> else None) in
      returns ''engine-booking'' (''participant '' @ p_id r) (case share of None \<Rightarrow> True | Some m \<Rightarrow> money_ok m)
        \<lparr>pa_id = p_id r, pa_partyRef = p_party_ref r, pa_share = share, pa_joinedAt = p_joined_at r, pa_leftAt = p_left_at r\<rparr>)"

section \<open>Reads the functions share\<close>

definition reservationRef :: "string \<Rightarrow> entity_ref" where
  "reservationRef i = \<lparr>entityType = ''reservation'', entityId = i\<rparr>"

definition resourceRef :: "string \<Rightarrow> entity_ref" where
  "resourceRef i = \<lparr>entityType = ''resource'', entityId = i\<rparr>"

definition bk_conflict :: "string \<Rightarrow> string \<Rightarrow> err" where
  "bk_conflict reason msg = SubstratError Conflict (Some reason) msg"

definition SlotUnavailable :: "string \<Rightarrow> string \<Rightarrow> string \<Rightarrow> err" where
  "SlotUnavailable resourceId startsAt endsAt =
     PlainError (''slot unavailable on resource '' @ resourceId @ '' for '' @ startsAt @ ''/'' @ endsAt)"

definition getResourceRow :: "string \<Rightarrow> 'a bk_store_scheme \<Rightarrow> resource_row result" where
  "getResourceRow i st =
     (case row_where (\<lambda>r. rs_id r = i) (bk_resources st) of
        Some r \<Rightarrow> Inr r
      | None \<Rightarrow> Inl (SubstratError Not_Found None (''resource not found: '' @ i)))"

definition getRow :: "string \<Rightarrow> 'a bk_store_scheme \<Rightarrow> reservation_row result" where
  "getRow i st =
     (case row_where (\<lambda>r. r_id r = i) (bk_reservations st) of
        Some r \<Rightarrow> Inr r
      | None \<Rightarrow> Inl (SubstratError Not_Found None (''reservation not found: '' @ i)))"

definition requireTransition :: "reservation_row \<Rightarrow> string \<Rightarrow> unit result" where
  "requireTransition r operation =
     check_transition bookingLifecycle (''reservation '' @ r_id r) (r_state r) operation (reservationRef (r_id r))"

definition activeParticipants :: "string \<Rightarrow> 'a bk_store_scheme \<Rightarrow> participant_row list" where
  "activeParticipants i st =
     sort_key p_id (filter (\<lambda>p. p_reservation_id p = i \<and> p_left_at p = None) (bk_participants st))"

definition allParticipants :: "string \<Rightarrow> 'a bk_store_scheme \<Rightarrow> participant list result" where
  "allParticipants i st =
     traverse toParticipant (sort_key p_id (filter (\<lambda>p. p_reservation_id p = i) (bk_participants st)))"

text \<open>A row that holds capacity at \<open>now\<close>: committed, or held and not yet expired.\<close>

definition holds_capacity :: "string \<Rightarrow> reservation_row \<Rightarrow> bool" where
  "holds_capacity now r \<longleftrightarrow>
     r_state r \<in> set [''confirmed'', ''in_service''] \<or>
     r_state r = ''held'' \<and> (case r_expires_at r of Some e \<Rightarrow> now < e | None \<Rightarrow> False)"

definition overlapping :: "string \<Rightarrow> string \<Rightarrow> string \<Rightarrow> string \<Rightarrow> 'a bk_store_scheme \<Rightarrow> reservation_row list" where
  "overlapping resourceId startsAt endsAt now st =
     filter (\<lambda>r. r_resource_id r = resourceId \<and> r_starts_at r < endsAt \<and> startsAt < r_ends_at r \<and> holds_capacity now r)
       (bk_reservations st)"

definition allocatedOver :: "string \<Rightarrow> string \<Rightarrow> string \<Rightarrow> string \<Rightarrow> string \<Rightarrow> 'a bk_store_scheme \<Rightarrow> int" where
  "allocatedOver resourceId startsAt endsAt now exclude st =
     sum_list (map r_quantity (filter (\<lambda>r. r_id r \<noteq> exclude) (overlapping resourceId startsAt endsAt now st)))"

section \<open>Writes the functions share\<close>

definition bk_event :: "string \<Rightarrow> entity_ref \<Rightarrow> string option \<Rightarrow> json \<Rightarrow> domain_event_input" where
  "bk_event ty e who payload =
     \<lparr>ev_type = ty, ev_schemaVersion = 1, ev_entity = e,
      ev_piiClass = (case who of None \<Rightarrow> PiiNone | Some _ \<Rightarrow> Pseudonymous), ev_subjectId = who, ev_payload = payload\<rparr>"

text \<open>The table's \<open>CHECK\<close> constraints.\<close>

definition reservation_check :: "reservation_row \<Rightarrow> bool" where
  "reservation_check r \<longleftrightarrow>
     r_state r \<in> set reservation_states \<and> 1 \<le> r_quantity r \<and> r_starts_at r < r_ends_at r \<and>
     (r_state r \<noteq> ''held'' \<or> r_expires_at r \<noteq> None)"

definition insert_reservation :: "reservation_row \<Rightarrow> 'a bk_store_scheme \<Rightarrow> 'a bk_store_scheme result" where
  "insert_reservation r st =
     bind_r (guard_r (reservation_check r) (PlainError ''CHECK constraint failed'')) (\<lambda>_.
     bind_r (insert_row (\<lambda>a b. r_id a = r_id b) r (bk_reservations st)) (\<lambda>rows. Inr (st\<lparr>bk_reservations := rows\<rparr>)))"

definition set_reservation ::
  "string \<Rightarrow> (reservation_row \<Rightarrow> reservation_row) \<Rightarrow> 'a bk_store_scheme \<Rightarrow> 'a bk_store_scheme result" where
  "set_reservation i f st =
     bind_r (guard_r (list_all (\<lambda>r. r_id r = i \<longrightarrow> reservation_check (f r)) (bk_reservations st)) (PlainError ''CHECK constraint failed''))
       (\<lambda>_. Inr (st\<lparr>bk_reservations := update_where (\<lambda>r. r_id r = i) f (bk_reservations st)\<rparr>))"

definition published :: "string \<Rightarrow> string \<Rightarrow> 'a bk_store_scheme \<Rightarrow> (reservation \<times> 'a bk_store_scheme) result" where
  "published i now st = bind_r (getRow i st) (\<lambda>r. bind_r (toReservation r now) (\<lambda>v. Inr (v, st)))"

definition json_opt :: "('a \<Rightarrow> json) \<Rightarrow> 'a option \<Rightarrow> json" where
  "json_opt f x = (case x of None \<Rightarrow> JNull | Some v \<Rightarrow> f v)"

definition json_resource :: "resource_row \<Rightarrow> json" where
  "json_resource r = JObj [(''id'', JStr (rs_id r)), (''kind'', JStr (rs_kind r)), (''name'', JStr (rs_name r))]"

definition json_count :: "string \<Rightarrow> 'a bk_store_scheme \<Rightarrow> json" where
  "json_count i st = JNum (int (length (activeParticipants i st)))"

section \<open>In-scope functions\<close>

record create_resource_input =
  cr_kind :: string
  cr_name :: string
  cr_capacity :: "int option"

text \<open>\<open>z.number().int().min(1)\<close>.\<close>

definition z_positive :: "int \<Rightarrow> bool" where
  "z_positive n \<longleftrightarrow> 1 \<le> n \<and> n \<le> MAX_SAFE_INTEGER"

definition createResource ::
  "op_ctx \<Rightarrow> create_resource_input \<Rightarrow> 'a bk_store_scheme \<Rightarrow> (resource \<times> 'a bk_store_scheme) result" where
  "createResource cx input st =
     bind_r (guard_r (cr_kind input \<noteq> [] \<and> cr_name input \<noteq> [] \<and> if_given z_positive (cr_capacity input))
        (ZodError ''createResourceInput'')) (\<lambda>_.
     case ulid cx st of (i, st1) \<Rightarrow>
     let cap = or_else (cr_capacity input) 1;
         row = \<lparr>rs_id = i, rs_kind = cr_kind input, rs_name = cr_name input, rs_capacity = cap, rs_active = 1,
                rs_created_at = cx_at cx\<rparr> in
     bind_r (insert_row (\<lambda>a b. rs_id a = rs_id b) row (bk_resources st1)) (\<lambda>rows.
     bind_r (emit cx (bk_event ''booking.resource-created'' (resourceRef i) None
        (JObj [(''resourceId'', JStr i), (''kind'', JStr (cr_kind input)), (''name'', JStr (cr_name input)), (''capacity'', JNum cap)]))
        (st1\<lparr>bk_resources := rows\<rparr>)) (\<lambda>st2.
     bind_r (getResourceRow i st2) (\<lambda>r. Inr (toResource r, st2)))))"

definition setResourceActive ::
  "string \<Rightarrow> bool \<Rightarrow> 'a bk_store_scheme \<Rightarrow> (resource \<times> 'a bk_store_scheme) result" where
  "setResourceActive resourceId active st =
     bind_r (getResourceRow resourceId st) (\<lambda>row.
     let st1 = st\<lparr>bk_resources := update_where (\<lambda>r. rs_id r = rs_id row)
                    (\<lambda>r. r\<lparr>rs_active := (if active then 1 else 0)\<rparr>) (bk_resources st)\<rparr> in
     bind_r (getResourceRow (rs_id row) st1) (\<lambda>r. Inr (toResource r, st1)))"

record hold_input =
  hi_resourceId :: string
  hi_startsAt :: string
  hi_endsAt :: string
  hi_expiresAt :: string
  hi_quantity :: "int option"
  hi_fillTarget :: "int option"
  hi_note :: "string option"
  hi_now :: "string option"

text \<open>The instants of a hold, parsed: start, end, deadline.\<close>

definition holdReservationCall :: "date_lib \<Rightarrow> hold_input \<Rightarrow> (string \<times> string \<times> string) result" where
  "holdReservationCall d input =
     bind_r (guard_r (hi_resourceId input \<noteq> [] \<and> if_given z_positive (hi_quantity input) \<and> if_given z_positive (hi_fillTarget input))
        (ZodError ''holdReservationCall'')) (\<lambda>_.
     bind_r (instantIn d (hi_startsAt input)) (\<lambda>s.
     bind_r (instantIn d (hi_endsAt input)) (\<lambda>e.
     bind_r (instantIn d (hi_expiresAt input)) (\<lambda>x. Inr (s, e, x)))))"

definition new_hold :: "op_ctx \<Rightarrow> string \<Rightarrow> string \<Rightarrow> hold_input \<Rightarrow> string \<times> string \<times> string \<Rightarrow> string \<Rightarrow> reservation_row" where
  "new_hold cx i resourceId input slot now =
     \<lparr>r_id = i, r_resource_id = resourceId, r_starts_at = fst slot, r_ends_at = fst (snd slot), r_state = ''held'',
      r_quantity = or_else (hi_quantity input) 1, r_expires_at = Some (snd (snd slot)), r_fill_target = hi_fillTarget input,
      r_note = hi_note input, r_created_by = cx_principal cx, r_created_at = now\<rparr>"

definition holdReservation ::
  "op_ctx \<Rightarrow> date_lib \<Rightarrow> hold_input \<Rightarrow> 'a bk_store_scheme \<Rightarrow> (reservation \<times> 'a bk_store_scheme) result" where
  "holdReservation cx d input st =
     bind_r (holdReservationCall d input) (\<lambda>slot.
     case slot of (startsAt, endsAt, expiresAt) \<Rightarrow>
     bind_r (nowOr cx d (hi_now input)) (\<lambda>now.
     bind_r (guard_r (startsAt < endsAt)
        (SubstratError Validation_Failed None (''invalid interval: '' @ startsAt @ '' is not before '' @ endsAt))) (\<lambda>_.
     bind_r (guard_r (now < expiresAt)
        (SubstratError Validation_Failed None (''hold would already be expired: '' @ expiresAt @ '' <= '' @ now))) (\<lambda>_.
     bind_r (getResourceRow (hi_resourceId input) st) (\<lambda>resource.
     bind_r (guard_r (rs_active resource = 1)
        (bk_conflict ''resource_inactive'' (''resource is inactive: '' @ rs_id resource))) (\<lambda>_.
     let quantity = or_else (hi_quantity input) 1 in
     bind_r (guard_r (allocatedOver (rs_id resource) startsAt endsAt now [] st + quantity \<le> rs_capacity resource)
        (SlotUnavailable (rs_id resource) startsAt endsAt)) (\<lambda>_.
     case ulid cx st of (i, st1) \<Rightarrow>
     bind_r (insert_reservation (new_hold cx i (rs_id resource) input slot now) st1) (\<lambda>st2.
     bind_r (link cx (reservationRef i) (resourceRef (rs_id resource)) st2) (\<lambda>st3.
     bind_r (emit cx (bk_event ''booking.held'' (reservationRef i) None
        (JObj [(''reservationId'', JStr i), (''resource'', json_resource resource), (''startsAt'', JStr startsAt),
               (''endsAt'', JStr endsAt), (''quantity'', JNum quantity), (''expiresAt'', JStr expiresAt),
               (''fillTarget'', json_opt JNum (hi_fillTarget input))])) st3) (\<lambda>st4.
       published i now st4))))))))))"

definition confirmReservation ::
  "op_ctx \<Rightarrow> date_lib \<Rightarrow> string \<Rightarrow> string option \<Rightarrow> 'a bk_store_scheme \<Rightarrow> (reservation \<times> 'a bk_store_scheme) result" where
  "confirmReservation cx d reservationId given st =
     bind_r (getRow reservationId st) (\<lambda>row.
     bind_r (requireTransition row ''booking/confirm'') (\<lambda>_.
     bind_r (nowOr cx d given) (\<lambda>now.
     bind_r (guard_r (\<not> (truthy (r_expires_at row) \<and> the (r_expires_at row) \<le> now))
        (bk_conflict ''hold_expired'' (''hold expired at '' @ the (r_expires_at row)))) (\<lambda>_.
     bind_r (getResourceRow (r_resource_id row) st) (\<lambda>resource.
     bind_r (guard_r (allocatedOver (r_resource_id row) (r_starts_at row) (r_ends_at row) now (r_id row) st + r_quantity row
                        \<le> rs_capacity resource)
        (SlotUnavailable (r_resource_id row) (r_starts_at row) (r_ends_at row))) (\<lambda>_.
     bind_r (set_reservation (r_id row) (\<lambda>r. r\<lparr>r_state := ''confirmed'', r_expires_at := None\<rparr>) st) (\<lambda>st1.
     bind_r (emit cx (bk_event ''booking.confirmed'' (reservationRef (r_id row)) None
        (JObj [(''reservationId'', JStr (r_id row)), (''resource'', json_resource resource), (''startsAt'', JStr (r_starts_at row)),
               (''endsAt'', JStr (r_ends_at row)), (''quantity'', JNum (r_quantity row)),
               (''participantCount'', json_count (r_id row) st1)])) st1) (\<lambda>st2.
     bind_r (nowOr cx d given) (\<lambda>now'. published (r_id row) now' st2)))))))))"

definition slot_event :: "string \<Rightarrow> reservation_row \<Rightarrow> (string \<times> json) list \<Rightarrow> domain_event_input" where
  "slot_event ty row extra = bk_event ty (reservationRef (r_id row)) None
     (JObj ([(''reservationId'', JStr (r_id row)), (''resourceId'', JStr (r_resource_id row)),
             (''startsAt'', JStr (r_starts_at row)), (''endsAt'', JStr (r_ends_at row))] @ extra))"

definition expireReservation ::
  "op_ctx \<Rightarrow> date_lib \<Rightarrow> string \<Rightarrow> string option \<Rightarrow> 'a bk_store_scheme \<Rightarrow> (reservation \<times> 'a bk_store_scheme) result" where
  "expireReservation cx d reservationId given st =
     bind_r (getRow reservationId st) (\<lambda>row.
     bind_r (requireTransition row ''booking/expire'') (\<lambda>_.
     bind_r (nowOr cx d given) (\<lambda>now.
     bind_r (guard_r (truthy (r_expires_at row) \<and> the (r_expires_at row) \<le> now)
        (bk_conflict ''not_yet_expired'' (''reservation '' @ r_id row @ '' has not expired yet''))) (\<lambda>_.
     bind_r (set_reservation (r_id row) (\<lambda>r. r\<lparr>r_state := ''expired''\<rparr>) st) (\<lambda>st1.
     bind_r (emit cx (slot_event ''booking.expired'' row [(''participantCount'', json_count (r_id row) st1)]) st1) (\<lambda>st2.
       published (r_id row) now st2))))))"

record join_input =
  ji_reservationId :: string
  ji_partyRef :: string
  ji_share :: "money option"
  ji_now :: "string option"

definition is_full :: "reservation_row \<Rightarrow> nat \<Rightarrow> bool" where
  "is_full row n \<longleftrightarrow> (case r_fill_target row of Some f \<Rightarrow> f \<le> int n | None \<Rightarrow> False)"

definition joinReservation ::
  "op_ctx \<Rightarrow> date_lib \<Rightarrow> join_input \<Rightarrow> 'a bk_store_scheme \<Rightarrow> ((participant \<times> reservation) \<times> 'a bk_store_scheme) result" where
  "joinReservation cx d input st =
     bind_r (guard_r (ji_reservationId input \<noteq> [] \<and> ulid_pattern (ji_partyRef input) \<and> if_given money_ok (ji_share input))
        (ZodError ''joinReservationCall'')) (\<lambda>_.
     bind_r (getRow (ji_reservationId input) st) (\<lambda>row.
     bind_r (requireTransition row ''booking/join'') (\<lambda>_.
     bind_r (nowOr cx d (ji_now input)) (\<lambda>now.
     let active = activeParticipants (r_id row) st in
     bind_r (guard_r (ji_partyRef input \<notin> set (map p_party_ref active))
        (bk_conflict ''already_joined'' (''party '' @ ji_partyRef input @ '' has already joined '' @ r_id row))) (\<lambda>_.
     bind_r (guard_r (\<not> is_full row (length active))
        (bk_conflict ''reservation_full'' (''reservation '' @ r_id row @ '' is full ('' @ show_int (the (r_fill_target row)) @ '')''))) (\<lambda>_.
     case ulid cx st of (i, st1) \<Rightarrow>
     let p = \<lparr>p_id = i, p_reservation_id = r_id row, p_party_ref = ji_partyRef input,
              p_share_amount = map_option amount (ji_share input), p_share_currency = map_option currency (ji_share input),
              p_joined_at = now, p_left_at = None\<rparr> in
     bind_r (insert_row (\<lambda>a b. p_id a = p_id b) p (bk_participants st1)) (\<lambda>rows.
     bind_r (emit cx (bk_event ''booking.participant-joined'' (reservationRef (r_id row)) (Some (ji_partyRef input))
        (JObj [(''reservationId'', JStr (r_id row)), (''participantId'', JStr i), (''partyRef'', JStr (ji_partyRef input)),
               (''share'', json_opt json_money (ji_share input)), (''joined'', JNum (int (length active) + 1)),
               (''fillTarget'', json_opt JNum (r_fill_target row))])) (st1\<lparr>bk_participants := rows\<rparr>)) (\<lambda>st2.
     bind_r (toParticipant p) (\<lambda>shown.
     bind_r (if is_full row (length active + 1) \<and> r_state row = ''held''
             then confirmReservation cx d (r_id row) (Some now) st2
             else published (r_id row) now st2) (\<lambda>(v, st3). Inr ((shown, v), st3)))))))))))"

definition openReservation ::
  "op_ctx \<Rightarrow> date_lib \<Rightarrow> string \<Rightarrow> int option \<Rightarrow> string option \<Rightarrow> 'a bk_store_scheme \<Rightarrow> (reservation \<times> 'a bk_store_scheme) result" where
  "openReservation cx d reservationId fillTarget given st =
     bind_r (getRow reservationId st) (\<lambda>row.
     bind_r (requireTransition row ''booking/open'') (\<lambda>_.
     let joined = length (activeParticipants (r_id row) st) in
     bind_r (guard_r (if_given (\<lambda>f. int joined \<le> f) fillTarget)
        (bk_conflict ''capacity_below_joined'' (''cannot open '' @ show_int (the fillTarget) @ '' places: '' @ show_nat joined @
           '' are already on this reservation''))) (\<lambda>_.
     bind_r (set_reservation (r_id row) (\<lambda>r. r\<lparr>r_fill_target := fillTarget\<rparr>) st) (\<lambda>st1.
     bind_r (emit cx (slot_event ''booking.opened'' row
        [(''fillTarget'', json_opt JNum fillTarget), (''participantCount'', JNum (int joined))]) st1) (\<lambda>st2.
     bind_r (nowOr cx d given) (\<lambda>now. published (r_id row) now st2))))))"

definition mark_left :: "string \<Rightarrow> string \<Rightarrow> 'a bk_store_scheme \<Rightarrow> 'a bk_store_scheme" where
  "mark_left i x st =
     st\<lparr>bk_participants := update_where (\<lambda>q. p_id q = i) (\<lambda>q. q\<lparr>p_left_at := Some x\<rparr>) (bk_participants st)\<rparr>"

definition leaveReservation ::
  "op_ctx \<Rightarrow> date_lib \<Rightarrow> string \<Rightarrow> string \<Rightarrow> string option \<Rightarrow> 'a bk_store_scheme \<Rightarrow> (reservation \<times> 'a bk_store_scheme) result" where
  "leaveReservation cx d reservationId participantId given st =
     bind_r (getRow reservationId st) (\<lambda>row.
     bind_r (nowOr cx d given) (\<lambda>now.
     bind_r (case row_where (\<lambda>p. p_id p = participantId \<and> p_reservation_id p = r_id row) (bk_participants st) of
               Some p \<Rightarrow> Inr p
             | None \<Rightarrow> Inl (SubstratError Not_Found None (''participant not found: '' @ participantId))) (\<lambda>p.
     bind_r (guard_r (\<not> truthy (p_left_at p)) (bk_conflict ''already_left'' (''participant already left: '' @ participantId))) (\<lambda>_.
     let st1 = mark_left (p_id p) now st in
     bind_r (guard_r (ulid_pattern (p_party_ref p)) (ZodError ''dataSubjectId'')) (\<lambda>_.
     bind_r (emit cx (bk_event ''booking.participant-left'' (reservationRef (r_id row)) (Some (p_party_ref p))
        (JObj [(''reservationId'', JStr (r_id row)), (''participantId'', JStr (p_id p)), (''partyRef'', JStr (p_party_ref p)),
               (''remaining'', json_count (r_id row) st1), (''fillTarget'', json_opt JNum (r_fill_target row))])) st1) (\<lambda>st2.
       published (r_id row) now st2))))))"

definition cancelReservation ::
  "op_ctx \<Rightarrow> date_lib \<Rightarrow> string \<Rightarrow> string option \<Rightarrow> string option \<Rightarrow> 'a bk_store_scheme \<Rightarrow> (reservation \<times> 'a bk_store_scheme) result" where
  "cancelReservation cx d reservationId reason given st =
     bind_r (getRow reservationId st) (\<lambda>row.
     bind_r (requireTransition row ''booking/cancel'') (\<lambda>_.
     bind_r (set_reservation (r_id row) (\<lambda>r. r\<lparr>r_state := ''cancelled''\<rparr>) st) (\<lambda>st1.
     bind_r (emit cx (slot_event ''booking.cancelled'' row
        [(''reason'', json_opt JStr reason), (''participantCount'', json_count (r_id row) st1)]) st1) (\<lambda>st2.
     bind_r (nowOr cx d given) (\<lambda>now. published (r_id row) now st2)))))"

record move_input =
  mi_reservationId :: string
  mi_resourceId :: "string option"
  mi_startsAt :: "string option"
  mi_endsAt :: "string option"
  mi_now :: "string option"

text \<open>The interval a move asks for: re-sized, shifted with its duration kept, or as it was.\<close>

definition moved_interval ::
  "date_lib \<Rightarrow> reservation_row \<Rightarrow> string option \<Rightarrow> string option \<Rightarrow> (string \<times> string) result" where
  "moved_interval d row startsAt endsAt =
     (let s = or_else startsAt (r_starts_at row) in
      if truthy endsAt then Inr (s, the endsAt)
      else if truthy startsAt
      then bind_r (toISOString d
             (case (d_parse d s, d_parse d (r_ends_at row), d_parse d (r_starts_at row)) of
                (Some a, Some e, Some b) \<Rightarrow> Some (a + (e - b)) | _ \<Rightarrow> None)) (\<lambda>e. Inr (s, e))
      else Inr (s, r_ends_at row))"

definition moveReservation ::
  "op_ctx \<Rightarrow> date_lib \<Rightarrow> move_input \<Rightarrow> 'a bk_store_scheme \<Rightarrow> (reservation \<times> 'a bk_store_scheme) result" where
  "moveReservation cx d input st =
     bind_r (guard_r (mi_reservationId input \<noteq> [] \<and> mi_resourceId input \<noteq> Some []) (ZodError ''moveReservationCall'')) (\<lambda>_.
     bind_r (optional_r (instantIn d) (mi_startsAt input)) (\<lambda>askStart.
     bind_r (optional_r (instantIn d) (mi_endsAt input)) (\<lambda>askEnd.
     bind_r (getRow (mi_reservationId input) st) (\<lambda>row.
     bind_r (requireTransition row ''booking/move'') (\<lambda>_.
     bind_r (nowOr cx d (mi_now input)) (\<lambda>now.
     bind_r (moved_interval d row askStart askEnd) (\<lambda>(startsAt, endsAt).
     bind_r (guard_r (startsAt < endsAt)
        (SubstratError Validation_Failed None (''invalid interval: '' @ startsAt @ '' is not before '' @ endsAt))) (\<lambda>_.
     bind_r (getResourceRow (or_else (mi_resourceId input) (r_resource_id row)) st) (\<lambda>target.
     bind_r (guard_r (rs_active target = 1) (bk_conflict ''resource_inactive'' (''resource is inactive: '' @ rs_id target))) (\<lambda>_.
     bind_r (guard_r (allocatedOver (rs_id target) startsAt endsAt now (r_id row) st + r_quantity row \<le> rs_capacity target)
        (SlotUnavailable (rs_id target) startsAt endsAt)) (\<lambda>_.
     bind_r (set_reservation (r_id row)
        (\<lambda>r. r\<lparr>r_resource_id := rs_id target, r_starts_at := startsAt, r_ends_at := endsAt\<rparr>) st) (\<lambda>st1.
     bind_r (emit cx (bk_event ''booking.moved'' (reservationRef (r_id row)) None
        (JObj [(''reservationId'', JStr (r_id row)),
               (''from'', JObj [(''resourceId'', JStr (r_resource_id row)), (''startsAt'', JStr (r_starts_at row)), (''endsAt'', JStr (r_ends_at row))]),
               (''to'', JObj [(''resourceId'', JStr (rs_id target)), (''startsAt'', JStr startsAt), (''endsAt'', JStr endsAt)]),
               (''resource'', json_resource target), (''participantCount'', json_count (r_id row) st1)])) st1) (\<lambda>st2.
     bind_r (nowOr cx d (mi_now input)) (\<lambda>now'. published (r_id row) now' st2))))))))))))))"

definition startReservation ::
  "op_ctx \<Rightarrow> date_lib \<Rightarrow> string \<Rightarrow> string option \<Rightarrow> 'a bk_store_scheme \<Rightarrow> (reservation \<times> 'a bk_store_scheme) result" where
  "startReservation cx d reservationId given st =
     bind_r (getRow reservationId st) (\<lambda>row.
     bind_r (requireTransition row ''booking/start'') (\<lambda>_.
     bind_r (set_reservation (r_id row) (\<lambda>r. r\<lparr>r_state := ''in_service''\<rparr>) st) (\<lambda>st1.
     bind_r (emit cx (bk_event ''booking.started'' (reservationRef (r_id row)) None
        (JObj [(''reservationId'', JStr (r_id row)), (''resourceId'', JStr (r_resource_id row))])) st1) (\<lambda>st2.
     bind_r (nowOr cx d given) (\<lambda>now. published (r_id row) now st2)))))"

definition completeReservation ::
  "op_ctx \<Rightarrow> date_lib \<Rightarrow> string \<Rightarrow> string option \<Rightarrow> 'a bk_store_scheme \<Rightarrow> (reservation \<times> 'a bk_store_scheme) result" where
  "completeReservation cx d reservationId given st =
     bind_r (getRow reservationId st) (\<lambda>row.
     bind_r (requireTransition row ''booking/complete'') (\<lambda>_.
     bind_r (getResourceRow (r_resource_id row) st) (\<lambda>resource.
     bind_r (set_reservation (r_id row) (\<lambda>r. r\<lparr>r_state := ''completed''\<rparr>) st) (\<lambda>st1.
     bind_r (emit cx (bk_event ''booking.completed'' (reservationRef (r_id row)) None
        (JObj [(''reservationId'', JStr (r_id row)), (''resource'', json_resource resource), (''startsAt'', JStr (r_starts_at row)),
               (''endsAt'', JStr (r_ends_at row)), (''quantity'', JNum (r_quantity row)),
               (''participantCount'', json_count (r_id row) st1)])) st1) (\<lambda>st2.
     bind_r (nowOr cx d given) (\<lambda>now. published (r_id row) now st2))))))"

definition markNoShow ::
  "op_ctx \<Rightarrow> date_lib \<Rightarrow> string \<Rightarrow> string option \<Rightarrow> 'a bk_store_scheme \<Rightarrow> (reservation \<times> 'a bk_store_scheme) result" where
  "markNoShow cx d reservationId given st =
     bind_r (getRow reservationId st) (\<lambda>row.
     bind_r (requireTransition row ''booking/no-show'') (\<lambda>_.
     bind_r (set_reservation (r_id row) (\<lambda>r. r\<lparr>r_state := ''no_show''\<rparr>) st) (\<lambda>st1.
     bind_r (emit cx (slot_event ''booking.no-show'' row [(''participantCount'', json_count (r_id row) st1)]) st1) (\<lambda>st2.
     bind_r (nowOr cx d given) (\<lambda>now. published (r_id row) now st2)))))"

section \<open>Operation bindings\<close>

definition createResourceOp where
  "createResourceOp cx input st = bind_r (require cx ''booking:manage-resources'' None st) (createResource cx input)"

definition setResourceActiveOp where
  "setResourceActiveOp cx resourceId active st =
     bind_r (require cx ''booking:manage-resources'' None st) (setResourceActive resourceId active)"

definition holdOp where
  "holdOp cx d input st = bind_r (require cx ''booking:hold'' None st) (holdReservation cx d (input\<lparr>hi_now := None\<rparr>))"

definition confirmOp where
  "confirmOp cx d reservationId st =
     bind_r (require cx ''booking:confirm'' (Some (reservationRef reservationId)) st) (confirmReservation cx d reservationId None)"

definition expireOp where
  "expireOp cx d reservationId st = bind_r (require cx ''booking:confirm'' None st) (expireReservation cx d reservationId None)"

definition joinOp where
  "joinOp cx d input st =
     bind_r (require cx ''booking:create'' (Some (reservationRef (ji_reservationId input))) st) (joinReservation cx d (input\<lparr>ji_now := None\<rparr>))"

definition leaveOp where
  "leaveOp cx d reservationId participantId st =
     bind_r (require cx ''booking:cancel'' (Some (reservationRef reservationId)) st) (leaveReservation cx d reservationId participantId None)"

definition cancelOp where
  "cancelOp cx d reservationId reason st =
     bind_r (require cx ''booking:cancel'' (Some (reservationRef reservationId)) st) (cancelReservation cx d reservationId reason None)"

definition moveOp where
  "moveOp cx d input st =
     bind_r (require cx ''booking:move'' (Some (reservationRef (mi_reservationId input))) st) (moveReservation cx d (input\<lparr>mi_now := None\<rparr>))"

definition openOp where
  "openOp cx d reservationId fillTarget st =
     bind_r (require cx ''booking:confirm'' (Some (reservationRef reservationId)) st) (openReservation cx d reservationId fillTarget None)"

definition startOp where
  "startOp cx d reservationId st = bind_r (require cx ''booking:complete'' None st) (startReservation cx d reservationId None)"

definition completeOp where
  "completeOp cx d reservationId st = bind_r (require cx ''booking:complete'' None st) (completeReservation cx d reservationId None)"

definition noShowOp where
  "noShowOp cx d reservationId st = bind_r (require cx ''booking:complete'' None st) (markNoShow cx d reservationId None)"

definition getReservation ::
  "op_ctx \<Rightarrow> date_lib \<Rightarrow> string \<Rightarrow> string option \<Rightarrow> 'a bk_store_scheme \<Rightarrow> (reservation \<times> participant list) result" where
  "getReservation cx d reservationId given st =
     bind_r (getRow reservationId st) (\<lambda>row.
     bind_r (nowOr cx d given) (\<lambda>now.
     bind_r (toReservation row now) (\<lambda>v.
     bind_r (allParticipants reservationId st) (\<lambda>ps. Inr (v, ps)))))"

definition getOp where
  "getOp cx d reservationId st =
     bind_r (require cx ''booking:read'' (Some (reservationRef reservationId)) st) (\<lambda>st1.
     bind_r (getReservation cx d reservationId None st1) (\<lambda>x. Inr (x, st1)))"

section \<open>What each function changes\<close>

lemma bk_more_tables:
  fixes st st' :: "'a bk_store_scheme"
  assumes "scope_store.more st' = scope_store.more st"
  shows "bk_resources st' = bk_resources st" and "bk_reservations st' = bk_reservations st"
    and "bk_participants st' = bk_participants st"
  using assms by (cases st, cases st', simp)+

lemma bk_emit_tables:
  fixes st st' :: "'a bk_store_scheme"
  assumes "emit cx ev st = Inr st'"
  shows "bk_resources st' = bk_resources st" and "bk_reservations st' = bk_reservations st"
    and "bk_participants st' = bk_participants st"
  using bk_more_tables [OF emit_Inr(3) [OF assms]] by simp_all

lemma bk_link_tables:
  fixes st st' :: "'a bk_store_scheme"
  assumes "link cx c p st = Inr st'"
  shows "bk_resources st' = bk_resources st" and "bk_reservations st' = bk_reservations st"
    and "bk_participants st' = bk_participants st"
  using bk_more_tables [OF link_Inr(5) [OF assms]] by simp_all

lemma bk_require_tables:
  fixes st st' :: "'a bk_store_scheme"
  assumes "require cx p e st = Inr st'"
  shows "bk_resources st' = bk_resources st" and "bk_reservations st' = bk_reservations st"
    and "bk_participants st' = bk_participants st"
  using bk_more_tables [OF require_Inr(4) [OF assms]] by simp_all

lemma ulid_tables:
  fixes st st1 :: "'a bk_store_scheme"
  assumes "ulid cx st = (i, st1)"
  shows "bk_resources st1 = bk_resources st" and "bk_reservations st1 = bk_reservations st"
    and "bk_participants st1 = bk_participants st"
  using assms by (auto simp: ulid_def)

lemma bk_getRow_Inr: "getRow i st = Inr r \<longleftrightarrow> row_where (\<lambda>x. r_id x = i) (bk_reservations st) = Some r"
  by (simp add: getRow_def split: option.splits)

lemma getResourceRow_Inr: "getResourceRow i st = Inr r \<longleftrightarrow> row_where (\<lambda>x. rs_id x = i) (bk_resources st) = Some r"
  by (simp add: getResourceRow_def split: option.splits)

lemma getRow_own:
  assumes "getRow i st = Inr r"
  shows "row_where (\<lambda>x. r_id x = r_id r) (bk_reservations st) = Some r"
proof -
  from assms have "row_where (\<lambda>x. r_id x = i) (bk_reservations st) = Some r" by (simp add: bk_getRow_Inr)
  with row_where_SomeD [OF this] show ?thesis by simp
qed

lemma getResourceRow_own:
  assumes "getResourceRow i st = Inr r"
  shows "row_where (\<lambda>x. rs_id x = rs_id r) (bk_resources st) = Some r"
proof -
  from assms have "row_where (\<lambda>x. rs_id x = i) (bk_resources st) = Some r" by (simp add: getResourceRow_Inr)
  with row_where_SomeD [OF this] show ?thesis by simp
qed

lemma bk_published_Inr:
  "published i now st = Inr (v, st') \<longleftrightarrow> st' = st \<and> (\<exists>r. getRow i st = Inr r \<and> toReservation r now = Inr v)"
  by (auto simp: published_def bind_r_Inr_iff)

lemma bk_requireTransition_Inr:
  "requireTransition r op = Inr u \<longleftrightarrow> transitionFor bookingLifecycle (r_state r) op \<noteq> None"
  by (simp add: requireTransition_def check_transition_Inr)

lemma set_reservation_Inr:
  "set_reservation i f st = Inr st' \<longleftrightarrow>
     list_all (\<lambda>r. r_id r = i \<longrightarrow> reservation_check (f r)) (bk_reservations st) \<and>
     st' = st\<lparr>bk_reservations := update_where (\<lambda>r. r_id r = i) f (bk_reservations st)\<rparr>"
  by (auto simp: set_reservation_def monad_simps)

lemma insert_reservation_Inr:
  "insert_reservation r st = Inr st' \<longleftrightarrow>
     reservation_check r \<and> r_id r \<notin> r_id ` set (bk_reservations st) \<and>
     st' = st\<lparr>bk_reservations := bk_reservations st @ [r]\<rparr>"
  by (auto simp: insert_reservation_def monad_simps list_ex_iff)

lemmas bk_reads = bk_getRow_Inr getResourceRow_Inr bk_published_Inr bk_requireTransition_Inr set_reservation_Inr insert_reservation_Inr

section \<open>Load\<close>

text \<open>What is allocated on a resource at one instant of the calendar, judged at \<open>now\<close>.\<close>

definition counted :: "string \<Rightarrow> string \<Rightarrow> string \<Rightarrow> reservation_row \<Rightarrow> bool" where
  "counted now u rid r \<longleftrightarrow> r_resource_id r = rid \<and> r_starts_at r \<le> u \<and> u < r_ends_at r \<and> holds_capacity now r"

definition load :: "string \<Rightarrow> string \<Rightarrow> string \<Rightarrow> reservation_row list \<Rightarrow> int" where
  "load now u rid rows = sum_list (map r_quantity (filter (counted now u rid) rows))"

lemma sum_filter_mono:
  fixes f :: "'b \<Rightarrow> int"
  assumes "\<And>x. x \<in> set xs \<Longrightarrow> P x \<Longrightarrow> Q x" and "\<And>x. x \<in> set xs \<Longrightarrow> 0 \<le> f x"
  shows "sum_list (map f (filter P xs)) \<le> sum_list (map f (filter Q xs))"
  using assms
proof (induction xs)
  case (Cons x xs)
  have "sum_list (map f (filter P xs)) \<le> sum_list (map f (filter Q xs))" using Cons by simp
  moreover have "0 \<le> f x" "P x \<longrightarrow> Q x" using Cons.prems by simp_all
  ultimately show ?case by simp
qed simp

lemma load_append: "load now u rid (xs @ ys) = load now u rid xs + load now u rid ys"
  by (simp add: load_def)

lemma load_others_le:
  assumes "\<And>r. r \<in> set rows \<Longrightarrow> 0 \<le> r_quantity r"
  shows "load now u rid (filter P rows) \<le> load now u rid rows"
  unfolding load_def filter_filter using assms by (intro sum_filter_mono) auto

text \<open>Expiry is lazy: time passing only frees capacity.\<close>

lemma holds_capacity_mono: "holds_capacity n' r \<Longrightarrow> n \<le> n' \<Longrightarrow> holds_capacity n r"
  by (auto simp: holds_capacity_def split: option.splits)

lemma load_mono_now:
  assumes "n \<le> n'" and "\<And>r. r \<in> set rows \<Longrightarrow> 0 \<le> r_quantity r"
  shows "load n' u rid rows \<le> load n u rid rows"
  unfolding load_def
  using assms by (intro sum_filter_mono) (auto simp: counted_def intro: holds_capacity_mono)

text \<open>The allocation of an interval bounds the load at each of its instants.\<close>

lemma load_le_allocated:
  assumes "s \<le> u" and "u < e" and "\<And>r. r \<in> set (bk_reservations st) \<Longrightarrow> 0 \<le> r_quantity r"
  shows "load now u rid (filter (\<lambda>r. r_id r \<noteq> x) (bk_reservations st)) \<le> allocatedOver rid s e now x st"
  unfolding load_def allocatedOver_def overlapping_def filter_filter
  using assms by (intro sum_filter_mono) (auto simp: counted_def)

lemma load_update:
  assumes "distinct (map r_id rows)" and "row_where (\<lambda>r. r_id r = r_id r0) rows = Some r0"
    and "r_quantity (f r0) = r_quantity r0"
  shows "load now u rid (update_where (\<lambda>r. r_id r = r_id r0) f rows) =
    load now u rid (filter (\<lambda>r. r_id r \<noteq> r_id r0) rows) + (if counted now u rid (f r0) then r_quantity r0 else 0)"
  using assms(1,2)
proof (induction rows)
  case (Cons a rows)
  show ?case
  proof (cases "r_id a = r_id r0")
    case True
    with Cons.prems have a: "a = r0" and fresh: "r_id r0 \<notin> r_id ` set rows" by auto
    then have "update_where (\<lambda>r. r_id r = r_id r0) f rows = rows" "filter (\<lambda>r. r_id r \<noteq> r_id r0) rows = rows"
      by (induction rows) (auto simp: update_where_def)
    with a assms(3) show ?thesis by (simp add: update_where_def load_def)
  next
    case False
    with Cons show ?thesis by (simp add: update_where_def load_def)
  qed
qed simp

section \<open>A call as a step of the tables\<close>

text \<open>
  \<open>fits\<close>: the row stays within its resource's capacity next to every other row that overlaps it.
\<close>

definition fits :: "string \<Rightarrow> reservation_row \<Rightarrow> string \<Rightarrow> 'a bk_store_scheme \<Rightarrow> bool" where
  "fits now r x st \<longleftrightarrow> (\<exists>res. row_where (\<lambda>y. rs_id y = r_resource_id r) (bk_resources st) = Some res \<and>
     allocatedOver (r_resource_id r) (r_starts_at r) (r_ends_at r) now x st + r_quantity r \<le> rs_capacity res)"

definition no_more :: "reservation_row \<Rightarrow> reservation_row \<Rightarrow> bool" where
  "no_more r r0 \<longleftrightarrow> r_resource_id r = r_resource_id r0 \<and> (\<forall>n u rid. counted n u rid r \<longrightarrow> counted n u rid r0)"

inductive cal_step :: "string \<Rightarrow> 'a bk_store_scheme \<Rightarrow> 'a bk_store_scheme \<Rightarrow> bool" for now where
  created: "\<lbrakk>bk_resources st' = bk_resources st @ [res]; rs_id res \<notin> rs_id ` set (bk_resources st); 1 \<le> rs_capacity res;
      bk_reservations st' = bk_reservations st; bk_participants st' = bk_participants st\<rbrakk> \<Longrightarrow> cal_step now st st'"
| toggled: "\<lbrakk>bk_resources st' = update_where p (\<lambda>r. r\<lparr>rs_active := a\<rparr>) (bk_resources st);
      bk_reservations st' = bk_reservations st; bk_participants st' = bk_participants st\<rbrakk> \<Longrightarrow> cal_step now st st'"
| placed: "\<lbrakk>bk_reservations st' = bk_reservations st @ [r]; r_id r \<notin> r_id ` set (bk_reservations st); r_id r \<noteq> [];
      reservation_check r; r_state r = ''held''; if_given (\<lambda>f. 1 \<le> f) (r_fill_target r); fits now r [] st;
      bk_resources st' = bk_resources st; bk_participants st' = bk_participants st\<rbrakk> \<Longrightarrow> cal_step now st st'"
| revised: "\<lbrakk>row_where (\<lambda>r. r_id r = r_id r0) (bk_reservations st) = Some r0;
      bk_reservations st' = update_where (\<lambda>r. r_id r = r_id r0) f (bk_reservations st);
      \<And>r. r_id (f r) = r_id r \<and> r_quantity (f r) = r_quantity r; reservation_check (f r0);
      transitionFor bookingLifecycle (r_state r0) op = Some oc;
      r_state (f r0) = (case oc of Transition b \<Rightarrow> b | AllowedHere \<Rightarrow> r_state r0);
      no_more (f r0) r0 \<or> fits now (f r0) (r_id r0) st;
      r_fill_target (f r0) = r_fill_target r0 \<or> if_given (\<lambda>k. int (length (activeParticipants (r_id r0) st)) \<le> k) (r_fill_target (f r0));
      bk_resources st' = bk_resources st; bk_participants st' = bk_participants st\<rbrakk> \<Longrightarrow> cal_step now st st'"
| joined: "\<lbrakk>row_where (\<lambda>r. r_id r = r_id r0) (bk_reservations st) = Some r0;
      bk_participants st' = bk_participants st @ [p]; p_id p \<notin> p_id ` set (bk_participants st);
      p_reservation_id p = r_id r0; p_left_at p = None;
      p_party_ref p \<notin> p_party_ref ` set (activeParticipants (r_id r0) st); \<not> is_full r0 (length (activeParticipants (r_id r0) st));
      bk_resources st' = bk_resources st; bk_reservations st' = bk_reservations st\<rbrakk> \<Longrightarrow> cal_step now st st'"
| left: "\<lbrakk>bk_participants st' = update_where (\<lambda>q. p_id q = i) (\<lambda>q. q\<lparr>p_left_at := Some x\<rparr>) (bk_participants st);
      bk_resources st' = bk_resources st; bk_reservations st' = bk_reservations st\<rbrakk> \<Longrightarrow> cal_step now st st'"
| untouched: "\<lbrakk>bk_resources st' = bk_resources st; bk_reservations st' = bk_reservations st;
      bk_participants st' = bk_participants st\<rbrakk> \<Longrightarrow> cal_step now st st'"

text \<open>What each operation does from each state, read off the declaration.\<close>

lemma bk_edges:
  "transitionFor bookingLifecycle s ''booking/confirm'' = (if s = ''held'' then Some (Transition ''confirmed'') else None)"
  "transitionFor bookingLifecycle s ''booking/expire'' = (if s = ''held'' then Some (Transition ''expired'') else None)"
  "transitionFor bookingLifecycle s ''booking/cancel'' =
     (if s = ''held'' \<or> s = ''confirmed'' then Some (Transition ''cancelled'') else None)"
  "transitionFor bookingLifecycle s ''booking/start'' = (if s = ''confirmed'' then Some (Transition ''in_service'') else None)"
  "transitionFor bookingLifecycle s ''booking/complete'' =
     (if s = ''confirmed'' \<or> s = ''in_service'' then Some (Transition ''completed'') else None)"
  "transitionFor bookingLifecycle s ''booking/no-show'' =
     (if s = ''confirmed'' \<or> s = ''in_service'' then Some (Transition ''no_show'') else None)"
  "transitionFor bookingLifecycle s ''booking/join'' = (if s = ''held'' \<or> s = ''confirmed'' then Some AllowedHere else None)"
  "transitionFor bookingLifecycle s ''booking/open'' = (if s = ''held'' \<or> s = ''confirmed'' then Some AllowedHere else None)"
  "transitionFor bookingLifecycle s ''booking/move'' = (if s = ''held'' \<or> s = ''confirmed'' then Some AllowedHere else None)"
  by (simp_all add: transitionFor_def bookingLifecycle_def)

lemma createResource_step:
  assumes "createResource cx input st = Inr (v, st')"
  shows "cal_step now st st'"
proof -
  obtain i st1 where u: "ulid cx st = (i, st1)" by force
  define cap where "cap = or_else (cr_capacity input) 1"
  define row where "row = \<lparr>rs_id = i, rs_kind = cr_kind input, rs_name = cr_name input, rs_capacity = cap, rs_active = 1,
    rs_created_at = cx_at cx\<rparr>"
  from assms obtain ev where ok: "if_given z_positive (cr_capacity input)"
    and fresh: "\<not> list_ex (\<lambda>b. rs_id row = rs_id b) (bk_resources st1)"
    and em: "emit cx ev (st1\<lparr>bk_resources := bk_resources st1 @ [row]\<rparr>) = Inr st'"
    unfolding createResource_def u prod.case Let_def bind_r_Inr_iff guard_r_Inr_iff insert_row_Inr row_def cap_def by auto
  have "1 \<le> rs_capacity row" using ok by (simp add: row_def cap_def if_given_def or_else_def z_positive_def split: option.splits)
  then show ?thesis
    using fresh bk_emit_tables [OF em] ulid_tables [OF u] by (intro cal_step.created [of _ _ row]) (auto simp: list_ex_iff)
qed

lemma setResourceActive_step:
  assumes "setResourceActive i a st = Inr (v, st')"
  shows "cal_step now st st'"
proof -
  from assms obtain row where "getResourceRow i st = Inr row" by (cases "getResourceRow i st") (auto simp: setResourceActive_def)
  with assms have "st' = st\<lparr>bk_resources := update_where (\<lambda>r. rs_id r = rs_id row)
      (\<lambda>r. r\<lparr>rs_active := (if a then 1 else 0)\<rparr>) (bk_resources st)\<rparr>"
    by (auto simp: setResourceActive_def Let_def bind_r_Inr_iff)
  then show ?thesis
    by (intro cal_step.toggled [where p = "\<lambda>r. rs_id r = rs_id row" and a = "if a then 1 else 0"]) simp_all
qed

lemma revised_by:
  assumes "getRow i st = Inr row" and "set_reservation (r_id row) f st = Inr st1" and "emit cx ev st1 = Inr st'"
    and "\<And>r. r_id (f r) = r_id r \<and> r_quantity (f r) = r_quantity r"
    and "transitionFor bookingLifecycle (r_state row) op = Some oc"
    and "r_state (f row) = (case oc of Transition b \<Rightarrow> b | AllowedHere \<Rightarrow> r_state row)"
    and "no_more (f row) row \<or> fits now (f row) (r_id row) st"
    and "r_fill_target (f row) = r_fill_target row \<or>
      if_given (\<lambda>k. int (length (activeParticipants (r_id row) st)) \<le> k) (r_fill_target (f row))"
  shows "cal_step now st st'"
proof -
  note row = getRow_own [OF assms(1)]
  with assms(2) have "reservation_check (f row)"
    by (auto simp: set_reservation_Inr list_all_iff dest: row_where_SomeD)
  moreover have "bk_reservations st' = update_where (\<lambda>r. r_id r = r_id row) f (bk_reservations st)"
    "bk_resources st' = bk_resources st" "bk_participants st' = bk_participants st"
    using assms(2) bk_emit_tables [OF assms(3)] by (auto simp: set_reservation_Inr)
  ultimately show ?thesis using row assms(4-8) by (intro cal_step.revised [of row st st' f op oc]) blast+
qed

text \<open>Leaving a state that held capacity never adds load; nor does entering service.\<close>

lemma no_more_terminal: "s \<in> {''expired'', ''cancelled'', ''completed'', ''no_show''} \<Longrightarrow> no_more (r\<lparr>r_state := s\<rparr>) r"
  by (auto simp: no_more_def counted_def holds_capacity_def)

lemma no_more_in_service: "r_state r = ''confirmed'' \<Longrightarrow> no_more (r\<lparr>r_state := ''in_service''\<rparr>) r"
  by (auto simp: no_more_def counted_def holds_capacity_def)

lemma no_more_target: "no_more (r\<lparr>r_fill_target := k\<rparr>) r"
  by (auto simp: no_more_def counted_def holds_capacity_def)

lemma confirmReservation_step:
  assumes "confirmReservation cx d i given st = Inr (v, st')" and "nowOr cx d given = Inr now"
  shows "cal_step now st st'"
proof -
  let ?f = "\<lambda>r. r\<lparr>r_state := ''confirmed'', r_expires_at := None\<rparr> :: reservation_row"
  from assms obtain row u res st1 ev where get: "getRow i st = Inr row"
    and tr: "requireTransition row ''booking/confirm'' = Inr u" and res: "getResourceRow (r_resource_id row) st = Inr res"
    and fit: "allocatedOver (r_resource_id row) (r_starts_at row) (r_ends_at row) now (r_id row) st + r_quantity row \<le> rs_capacity res"
    and set: "set_reservation (r_id row) ?f st = Inr st1" and em: "emit cx ev st1 = Inr st'"
    unfolding confirmReservation_def bind_r_Inr_iff guard_r_Inr_iff bk_published_Inr by auto
  have "fits now (?f row) (r_id row) st" using res fit by (auto simp: fits_def getResourceRow_Inr)
  moreover have "r_state row = ''held''" using tr by (auto simp: bk_requireTransition_Inr bk_edges split: if_splits)
  ultimately show ?thesis
    by (intro revised_by [OF get set em, where op = "''booking/confirm''" and oc = "Transition ''confirmed''"])
      (auto simp: bk_edges)
qed

lemma terminal_step:
  assumes "getRow i st = Inr row" and "requireTransition row op = Inr u"
    and "set_reservation (r_id row) (\<lambda>r. r\<lparr>r_state := s\<rparr>) st = Inr st1" and "emit cx ev st1 = Inr st'"
    and "s \<in> {''expired'', ''cancelled'', ''completed'', ''no_show''}"
    and "\<And>x. transitionFor bookingLifecycle (r_state row) op = Some x \<Longrightarrow> x = Transition s"
  shows "cal_step now st st'"
proof -
  from assms(2,6) have "transitionFor bookingLifecycle (r_state row) op = Some (Transition s)"
    by (auto simp: bk_requireTransition_Inr)
  then show ?thesis
    using no_more_terminal [OF assms(5), of row] by (intro revised_by [OF assms(1,3,4), where op = op]) auto
qed

lemma expireReservation_step:
  assumes "expireReservation cx d i given st = Inr (v, st')"
  shows "cal_step now st st'"
proof -
  from assms obtain row u st1 ev where "getRow i st = Inr row" "requireTransition row ''booking/expire'' = Inr u"
    "set_reservation (r_id row) (\<lambda>r. r\<lparr>r_state := ''expired''\<rparr>) st = Inr st1" "emit cx ev st1 = Inr st'"
    unfolding expireReservation_def bind_r_Inr_iff guard_r_Inr_iff bk_published_Inr by auto
  then show ?thesis by (rule terminal_step) (auto simp: bk_edges split: if_splits)
qed

lemma cancelReservation_step:
  assumes "cancelReservation cx d i reason given st = Inr (v, st')"
  shows "cal_step now st st'"
proof -
  from assms obtain row u st1 ev where "getRow i st = Inr row" "requireTransition row ''booking/cancel'' = Inr u"
    "set_reservation (r_id row) (\<lambda>r. r\<lparr>r_state := ''cancelled''\<rparr>) st = Inr st1" "emit cx ev st1 = Inr st'"
    unfolding cancelReservation_def bind_r_Inr_iff bk_published_Inr by auto
  then show ?thesis by (rule terminal_step) (auto simp: bk_edges split: if_splits)
qed

lemma completeReservation_step:
  assumes "completeReservation cx d i given st = Inr (v, st')"
  shows "cal_step now st st'"
proof -
  from assms obtain row u st1 ev where "getRow i st = Inr row" "requireTransition row ''booking/complete'' = Inr u"
    "set_reservation (r_id row) (\<lambda>r. r\<lparr>r_state := ''completed''\<rparr>) st = Inr st1" "emit cx ev st1 = Inr st'"
    unfolding completeReservation_def bind_r_Inr_iff bk_published_Inr by auto
  then show ?thesis by (rule terminal_step) (auto simp: bk_edges split: if_splits)
qed

lemma markNoShow_step:
  assumes "markNoShow cx d i given st = Inr (v, st')"
  shows "cal_step now st st'"
proof -
  from assms obtain row u st1 ev where "getRow i st = Inr row" "requireTransition row ''booking/no-show'' = Inr u"
    "set_reservation (r_id row) (\<lambda>r. r\<lparr>r_state := ''no_show''\<rparr>) st = Inr st1" "emit cx ev st1 = Inr st'"
    unfolding markNoShow_def bind_r_Inr_iff bk_published_Inr by auto
  then show ?thesis by (rule terminal_step) (auto simp: bk_edges split: if_splits)
qed

lemma startReservation_step:
  assumes "startReservation cx d i given st = Inr (v, st')"
  shows "cal_step now st st'"
proof -
  from assms obtain row u st1 ev where get: "getRow i st = Inr row" and tr: "requireTransition row ''booking/start'' = Inr u"
    and set: "set_reservation (r_id row) (\<lambda>r. r\<lparr>r_state := ''in_service''\<rparr>) st = Inr st1" and em: "emit cx ev st1 = Inr st'"
    unfolding startReservation_def bind_r_Inr_iff bk_published_Inr by auto
  from tr have "r_state row = ''confirmed''" by (auto simp: bk_requireTransition_Inr bk_edges split: if_splits)
  then show ?thesis
    using no_more_in_service [of row]
    by (intro revised_by [OF get set em, where op = "''booking/start''" and oc = "Transition ''in_service''"]) (auto simp: bk_edges)
qed

lemma openReservation_step:
  assumes "openReservation cx d i k given st = Inr (v, st')"
  shows "cal_step now st st'"
proof -
  from assms obtain row u st1 ev where get: "getRow i st = Inr row" and tr: "requireTransition row ''booking/open'' = Inr u"
    and k: "if_given (\<lambda>f. int (length (activeParticipants (r_id row) st)) \<le> f) k"
    and set: "set_reservation (r_id row) (\<lambda>r. r\<lparr>r_fill_target := k\<rparr>) st = Inr st1" and em: "emit cx ev st1 = Inr st'"
    unfolding openReservation_def Let_def bind_r_Inr_iff guard_r_Inr_iff bk_published_Inr by auto
  from tr have "transitionFor bookingLifecycle (r_state row) ''booking/open'' = Some AllowedHere"
    by (auto simp: bk_requireTransition_Inr bk_edges split: if_splits)
  then show ?thesis
    using no_more_target [of k row] k
    by (intro revised_by [OF get set em, where op = "''booking/open''" and oc = AllowedHere]) auto
qed

lemma moveReservation_Inr:
  assumes "moveReservation cx d input st = Inr (v, st')"
  obtains now askStart askEnd row s e target st1 ev where
    "optional_r (instantIn d) (mi_startsAt input) = Inr askStart" "optional_r (instantIn d) (mi_endsAt input) = Inr askEnd"
    "nowOr cx d (mi_now input) = Inr now" "getRow (mi_reservationId input) st = Inr row"
    "transitionFor bookingLifecycle (r_state row) ''booking/move'' = Some AllowedHere"
    "moved_interval d row askStart askEnd = Inr (s, e)" "s < e"
    "getResourceRow (or_else (mi_resourceId input) (r_resource_id row)) st = Inr target" "rs_active target = 1"
    "allocatedOver (rs_id target) s e now (r_id row) st + r_quantity row \<le> rs_capacity target"
    "set_reservation (r_id row) (\<lambda>r. r\<lparr>r_resource_id := rs_id target, r_starts_at := s, r_ends_at := e\<rparr>) st = Inr st1"
    "emit cx ev st1 = Inr st'"
proof -
  from assms obtain now askStart askEnd row s e target st1 ev u where *:
    "optional_r (instantIn d) (mi_startsAt input) = Inr askStart" "optional_r (instantIn d) (mi_endsAt input) = Inr askEnd"
    "nowOr cx d (mi_now input) = Inr now" "getRow (mi_reservationId input) st = Inr row"
    "requireTransition row ''booking/move'' = Inr u"
    "moved_interval d row askStart askEnd = Inr (s, e)" "s < e"
    "getResourceRow (or_else (mi_resourceId input) (r_resource_id row)) st = Inr target" "rs_active target = 1"
    "allocatedOver (rs_id target) s e now (r_id row) st + r_quantity row \<le> rs_capacity target"
    "set_reservation (r_id row) (\<lambda>r. r\<lparr>r_resource_id := rs_id target, r_starts_at := s, r_ends_at := e\<rparr>) st = Inr st1"
    "emit cx ev st1 = Inr st'"
    unfolding moveReservation_def bind_r_Inr_iff guard_r_Inr_iff bk_published_Inr
    by (elim exE conjE) (auto simp: bind_r_Inr_iff guard_r_Inr_iff bk_published_Inr split: prod.splits)
  moreover from *(5) have "transitionFor bookingLifecycle (r_state row) ''booking/move'' = Some AllowedHere"
    by (auto simp: bk_requireTransition_Inr bk_edges split: if_splits)
  ultimately show thesis using that by blast
qed

lemma moveReservation_step:
  assumes "moveReservation cx d input st = Inr (v, st')" and "nowOr cx d (mi_now input) = Inr now"
  shows "cal_step now st st'"
  using moveReservation_Inr [OF assms(1)]
proof cases
  case (1 now' askStart askEnd row s e target st1 ev)
  let ?f = "\<lambda>r. r\<lparr>r_resource_id := rs_id target, r_starts_at := s, r_ends_at := e\<rparr> :: reservation_row"
  have now: "now' = now" using assms(2) 1(3) by simp
  have "fits now (?f row) (r_id row) st" using getResourceRow_own [OF 1(8)] 1(10) now by (auto simp: fits_def)
  then show ?thesis
    using 1(5) by (intro revised_by [OF 1(4,11,12), where op = "''booking/move''" and oc = AllowedHere]) auto
qed

lemma leaveReservation_step:
  assumes "leaveReservation cx d i pid given st = Inr (v, st')"
  shows "cal_step now st st'"
proof -
  from assms obtain ev x and p :: participant_row where em: "emit cx ev (mark_left (p_id p) x st) = Inr st'"
    unfolding leaveReservation_def Let_def bind_r_Inr_iff bk_published_Inr by blast
  show ?thesis using bk_emit_tables [OF em] by (intro cal_step.left [where i = "p_id p" and x = x]) (simp_all add: mark_left_def)
qed

lemma link_child_id:
  assumes "link cx c p st = Inr st'"
  shows "entityId c \<noteq> []"
  using assms by (auto simp: link_def entityObjectRef_def bind_r_Inr_iff object_id_def split: if_splits)

lemma holdReservation_Inr:
  assumes "holdReservation cx d input st = Inr (v, st')"
  obtains s e x now res i st1 st2 st3 ev where "holdReservationCall d input = Inr (s, e, x)"
    "nowOr cx d (hi_now input) = Inr now" "s < e" "now < x" "getResourceRow (hi_resourceId input) st = Inr res" "rs_active res = 1"
    "allocatedOver (rs_id res) s e now [] st + or_else (hi_quantity input) 1 \<le> rs_capacity res" "ulid cx st = (i, st1)"
    "insert_reservation (new_hold cx i (rs_id res) input (s, e, x) now) st1 = Inr st2"
    "link cx (reservationRef i) (resourceRef (rs_id res)) st2 = Inr st3" "emit cx ev st3 = Inr st'"
proof -
  obtain i st1 where u: "ulid cx st = (i, st1)" by force
  from assms that [OF _ _ _ _ _ _ _ u] show thesis
    unfolding holdReservation_def u Let_def prod.case bind_r_Inr_iff guard_r_Inr_iff bk_published_Inr
    by (elim exE conjE) (auto simp: u Let_def bind_r_Inr_iff guard_r_Inr_iff bk_published_Inr split: prod.splits)
qed

lemma holdReservation_tables:
  assumes "holdReservation cx d input st = Inr (v, st')"
  shows "bk_resources st' = bk_resources st" and "bk_participants st' = bk_participants st"
    and "\<exists>r. bk_reservations st' = bk_reservations st @ [r]"
proof -
  from holdReservation_Inr [OF assms] obtain s e x now res i st1 st2 st3 ev where "ulid cx st = (i, st1)"
    "insert_reservation (new_hold cx i (rs_id res) input (s, e, x) now) st1 = Inr st2"
    "link cx (reservationRef i) (resourceRef (rs_id (res :: resource_row))) st2 = Inr st3" "emit cx ev st3 = Inr st'" by metis
  note t = ulid_tables [OF this(1)] this(2) bk_link_tables [OF this(3)] bk_emit_tables [OF this(4)]
  from t show "bk_resources st' = bk_resources st" "bk_participants st' = bk_participants st"
    "\<exists>r. bk_reservations st' = bk_reservations st @ [r]" by (simp_all add: insert_reservation_Inr)
qed

lemma holdReservation_step:
  assumes "holdReservation cx d input st = Inr (v, st')" and "nowOr cx d (hi_now input) = Inr now"
  shows "cal_step now st st'"
  using holdReservation_Inr [OF assms(1)]
proof cases
  case (1 s e x now' res i st1 st2 st3 ev)
  let ?r = "new_hold cx i (rs_id res) input (s, e, x) now"
  have now: "now' = now" using assms(2) 1(2) by simp
  have ids: "r_id ?r = i" "r_state ?r = ''held''" "r_resource_id ?r = rs_id res" "r_starts_at ?r = s" "r_ends_at ?r = e"
    "r_quantity ?r = or_else (hi_quantity input) 1" "r_fill_target ?r = hi_fillTarget input"
    by (simp_all add: new_hold_def)
  have "i \<noteq> []" using link_child_id [OF 1(10)] by (simp add: reservationRef_def)
  moreover have "if_given (\<lambda>f. 1 \<le> f) (hi_fillTarget input)"
    using 1(1) by (auto simp: holdReservationCall_def if_given_def z_positive_def monad_simps split: option.splits)
  moreover have "fits now ?r [] st" using getResourceRow_own [OF 1(5)] 1(7) now by (auto simp: fits_def ids)
  ultimately show ?thesis
    using 1(9) bk_link_tables [OF 1(10)] bk_emit_tables [OF 1(11)] ulid_tables [OF 1(8)] now
    by (intro cal_step.placed [of _ _ ?r]) (auto simp: insert_reservation_Inr ids)
qed

text \<open>A join that fills the last place confirms in the same call, judged at the instant it hands on.\<close>

definition join_instant :: "op_ctx \<Rightarrow> date_lib \<Rightarrow> string option \<Rightarrow> string option" where
  "join_instant cx d given =
     (case nowOr cx d given of
        Inr n \<Rightarrow> Some (case nowOr cx d (Some n) of Inr m \<Rightarrow> m | Inl _ \<Rightarrow> n)
      | Inl _ \<Rightarrow> None)"

lemma joinReservation_Inr:
  assumes "joinReservation cx d input st = Inr ((shown, v), st')"
  obtains row n i st1 p ev st2 where "getRow (ji_reservationId input) st = Inr row"
    "requireTransition row ''booking/join'' = Inr ()" "nowOr cx d (ji_now input) = Inr n" "ulid cx st = (i, st1)"
    "ji_partyRef input \<notin> p_party_ref ` set (activeParticipants (r_id row) st)"
    "\<not> is_full row (length (activeParticipants (r_id row) st))"
    "p_id p = i" "p_reservation_id p = r_id row" "p_party_ref p = ji_partyRef input" "p_left_at p = None"
    "i \<notin> p_id ` set (bk_participants st)" "emit cx ev (st1\<lparr>bk_participants := bk_participants st @ [p]\<rparr>) = Inr st2"
    "(if is_full row (length (activeParticipants (r_id row) st) + 1) \<and> r_state row = ''held''
      then confirmReservation cx d (r_id row) (Some n) st2 else published (r_id row) n st2) = Inr (v, st')"
proof -
  obtain i st1 where u: "ulid cx st = (i, st1)" by force
  have tables: "bk_participants st1 = bk_participants st" by (rule ulid_tables(3) [OF u])
  from assms obtain row n where row: "getRow (ji_reservationId input) st = Inr row"
    "requireTransition row ''booking/join'' = Inr ()" and n: "nowOr cx d (ji_now input) = Inr n"
    unfolding joinReservation_def bind_r_Inr_iff by auto
  define p where "p = \<lparr>p_id = i, p_reservation_id = r_id row, p_party_ref = ji_partyRef input,
     p_share_amount = map_option amount (ji_share input), p_share_currency = map_option currency (ji_share input),
     p_joined_at = n, p_left_at = None\<rparr>"
  from assms obtain ev st2 where "ji_partyRef input \<notin> p_party_ref ` set (activeParticipants (r_id row) st)"
    "\<not> is_full row (length (activeParticipants (r_id row) st))" "i \<notin> p_id ` set (bk_participants st)"
    "emit cx ev (st1\<lparr>bk_participants := bk_participants st @ [p]\<rparr>) = Inr st2"
    "(if is_full row (length (activeParticipants (r_id row) st) + 1) \<and> r_state row = ''held''
      then confirmReservation cx d (r_id row) (Some n) st2 else published (r_id row) n st2) = Inr (v, st')"
    unfolding joinReservation_def row n u prod.case Let_def bind_r.simps p_def [symmetric] bind_r_Inr_iff guard_r_Inr_iff insert_row_Inr tables
    by (elim exE conjE) (auto simp: p_def list_ex_iff split: prod.splits)
  then show thesis using that [OF row n u, of p] by (simp add: p_def)
qed

lemma joinReservation_steps:
  assumes "joinReservation cx d input st = Inr (x, st')" and "join_instant cx d (ji_now input) = Some now"
  shows "(cal_step now)\<^sup>*\<^sup>* st st'"
proof -
  obtain shown v where "x = (shown, v)" by force
  with assms(1) have "joinReservation cx d input st = Inr ((shown, v), st')" by simp
  then show ?thesis
  proof (rule joinReservation_Inr)
    fix row n i st1 p ev st2
    assume get: "getRow (ji_reservationId input) st = Inr row" and n: "nowOr cx d (ji_now input) = Inr n"
      and u: "ulid cx st = (i, st1)" and party: "ji_partyRef input \<notin> p_party_ref ` set (activeParticipants (r_id row) st)"
      and room: "\<not> is_full row (length (activeParticipants (r_id row) st))"
      and p: "p_id p = i" "p_reservation_id p = r_id row" "p_party_ref p = ji_partyRef input" "p_left_at p = None"
        "i \<notin> p_id ` set (bk_participants st)"
      and em: "emit cx ev (st1\<lparr>bk_participants := bk_participants st @ [p]\<rparr>) = Inr st2"
      and rest: "(if is_full row (length (activeParticipants (r_id row) st) + 1) \<and> r_state row = ''held''
        then confirmReservation cx d (r_id row) (Some n) st2 else published (r_id row) n st2) = Inr (v, st')"
    note row = getRow_own [OF get]
    have join: "cal_step now st st2"
      using row party room p bk_emit_tables [OF em] ulid_tables [OF u]
      by (intro cal_step.joined [of row st st2 p]) simp_all
    show ?thesis
    proof (cases "is_full row (length (activeParticipants (r_id row) st) + 1) \<and> r_state row = ''held''")
      case True
      with rest have c: "confirmReservation cx d (r_id row) (Some n) st2 = Inr (v, st')" by simp
      then obtain m where m: "nowOr cx d (Some n) = Inr m" unfolding confirmReservation_def bind_r_Inr_iff by blast
      with assms(2) n have "m = now" by (simp add: join_instant_def)
      with confirmReservation_step [OF c m] join show ?thesis by (meson rtranclp.rtrancl_into_rtrancl r_into_rtranclp)
    next
      case False
      with rest have "st' = st2" by (auto simp: bk_published_Inr)
      with join show ?thesis by blast
    qed
  qed
qed

section \<open>The engine's runs\<close>

text \<open>
  One committed call judged at the instant \<open>now\<close>: an in-scope function, or anything else in the scope
  that leaves the engine's tables alone, as the check a binding makes first does.
\<close>

inductive bk_step :: "string \<Rightarrow> 'a bk_store_scheme \<Rightarrow> 'a bk_store_scheme \<Rightarrow> bool" for now where
  b_create: "createResource cx input st = Inr (v, st') \<Longrightarrow> bk_step now st st'"
| b_active: "setResourceActive i a st = Inr (v, st') \<Longrightarrow> bk_step now st st'"
| b_hold: "holdReservation cx d hold st = Inr (w, st') \<Longrightarrow> nowOr cx d (hi_now hold) = Inr now \<Longrightarrow> bk_step now st st'"
| b_confirm: "confirmReservation cx d i given st = Inr (w, st') \<Longrightarrow> nowOr cx d given = Inr now \<Longrightarrow> bk_step now st st'"
| b_expire: "expireReservation cx d i given st = Inr (w, st') \<Longrightarrow> bk_step now st st'"
| b_join: "joinReservation cx d jin st = Inr (x, st') \<Longrightarrow> join_instant cx d (ji_now jin) = Some now \<Longrightarrow> bk_step now st st'"
| b_open: "openReservation cx d i k given st = Inr (w, st') \<Longrightarrow> bk_step now st st'"
| b_leave: "leaveReservation cx d i pid given st = Inr (w, st') \<Longrightarrow> bk_step now st st'"
| b_cancel: "cancelReservation cx d i reason given st = Inr (w, st') \<Longrightarrow> bk_step now st st'"
| b_move: "moveReservation cx d move st = Inr (w, st') \<Longrightarrow> nowOr cx d (mi_now move) = Inr now \<Longrightarrow> bk_step now st st'"
| b_start: "startReservation cx d i given st = Inr (w, st') \<Longrightarrow> bk_step now st st'"
| b_complete: "completeReservation cx d i given st = Inr (w, st') \<Longrightarrow> bk_step now st st'"
| b_no_show: "markNoShow cx d i given st = Inr (w, st') \<Longrightarrow> bk_step now st st'"
| b_other: "bk_resources st' = bk_resources st \<Longrightarrow> bk_reservations st' = bk_reservations st \<Longrightarrow>
    bk_participants st' = bk_participants st \<Longrightarrow> bk_step now st st'"

lemma bk_step_cal: "bk_step now st st' \<Longrightarrow> (cal_step now)\<^sup>*\<^sup>* st st'"
  by (induction rule: bk_step.induct)
    (blast intro: r_into_rtranclp createResource_step setResourceActive_step holdReservation_step confirmReservation_step
      expireReservation_step joinReservation_steps openReservation_step leaveReservation_step cancelReservation_step
      moveReservation_step startReservation_step completeReservation_step markNoShow_step cal_step.untouched)+

text \<open>A run: calls one after another, at instants that do not go back.\<close>

inductive bk_run :: "string \<Rightarrow> 'a bk_store_scheme \<Rightarrow> string \<Rightarrow> 'a bk_store_scheme \<Rightarrow> bool" for n0 st0 where
  run_start: "bk_run n0 st0 n0 st0"
| run_step: "bk_run n0 st0 n st \<Longrightarrow> n \<le> n' \<Longrightarrow> bk_step n' st st' \<Longrightarrow> bk_run n0 st0 n' st'"

section \<open>Capacity is never exceeded\<close>

definition rows_ok :: "'a bk_store_scheme \<Rightarrow> bool" where
  "rows_ok st \<longleftrightarrow>
     distinct (map rs_id (bk_resources st)) \<and> distinct (map r_id (bk_reservations st)) \<and>
     (\<forall>res \<in> set (bk_resources st). 1 \<le> rs_capacity res) \<and>
     (\<forall>r \<in> set (bk_reservations st). reservation_check r \<and> r_id r \<noteq> [] \<and> r_resource_id r \<in> rs_id ` set (bk_resources st))"

definition within_capacity :: "string \<Rightarrow> 'a bk_store_scheme \<Rightarrow> bool" where
  "within_capacity now st \<longleftrightarrow>
     (\<forall>res \<in> set (bk_resources st). \<forall>u. load now u (rs_id res) (bk_reservations st) \<le> rs_capacity res)"

lemma rows_okD:
  assumes "rows_ok st"
  shows "distinct (map rs_id (bk_resources st))" and "distinct (map r_id (bk_reservations st))"
    and "\<And>res. res \<in> set (bk_resources st) \<Longrightarrow> 1 \<le> rs_capacity res"
    and "\<And>r. r \<in> set (bk_reservations st) \<Longrightarrow> reservation_check r"
    and "\<And>r. r \<in> set (bk_reservations st) \<Longrightarrow> r_id r \<noteq> []"
    and "\<And>r. r \<in> set (bk_reservations st) \<Longrightarrow> r_resource_id r \<in> rs_id ` set (bk_resources st)"
    and "\<And>r. r \<in> set (bk_reservations st) \<Longrightarrow> 0 \<le> r_quantity r"
  using assms by (auto simp: rows_ok_def reservation_check_def)

lemma fits_resource:
  assumes "fits now r x st"
  shows "r_resource_id r \<in> rs_id ` set (bk_resources st)"
proof -
  from assms obtain res where "row_where (\<lambda>y. rs_id y = r_resource_id r) (bk_resources st) = Some res" unfolding fits_def by blast
  from row_where_SomeD [OF this] show ?thesis by force
qed

lemma update_where_ids: "(\<And>r. r_id (f r) = r_id r) \<Longrightarrow> map r_id (update_where p f rows) = map r_id rows"
  by (rule map_update_where) simp

lemma cal_step_rows_ok:
  assumes "cal_step now st st'" and "rows_ok st"
  shows "rows_ok st'"
  using assms
proof (induction rule: cal_step.induct)
  case (created st' st res)
  then show ?case by (auto simp: rows_ok_def)
next
  case (toggled st' p a st)
  have ids: "map rs_id (bk_resources st') = map rs_id (bk_resources st)" unfolding toggled(1) by (rule map_update_where) simp
  moreover have "\<forall>res \<in> set (bk_resources st'). 1 \<le> rs_capacity res"
    using toggled(1,4) by (auto simp: rows_ok_def set_update_where)
  moreover from ids have "rs_id ` set (bk_resources st') = rs_id ` set (bk_resources st)" by (metis image_set)
  ultimately show ?case using toggled(2,4) by (simp add: rows_ok_def)
next
  case (placed st' st r)
  then show ?case using fits_resource [OF placed(7)] by (auto simp: rows_ok_def)
next
  case (revised r0 st st' f op oc)
  have "r_resource_id (f r0) \<in> rs_id ` set (bk_resources st)"
    using revised(1,7) rows_okD(6) [OF revised(11)] fits_resource [of now "f r0" "r_id r0" st]
    by (auto simp: no_more_def dest: row_where_SomeD)
  moreover have "r = r0" if "r \<in> set (bk_reservations st)" "r_id r = r_id r0" for r
    using that rows_okD(2) [OF revised(11)] row_where_SomeD [OF revised(1)] by (auto simp: distinct_map dest: inj_onD)
  ultimately have "reservation_check r \<and> r_id r \<noteq> [] \<and> r_resource_id r \<in> rs_id ` set (bk_resources st)"
    if "r \<in> set (bk_reservations st')" for r
    using that revised(3,4) rows_okD(4-6) [OF revised(11)] unfolding revised(2) set_update_where by (auto split: if_splits)
  moreover have "map r_id (bk_reservations st') = map r_id (bk_reservations st)"
    unfolding revised(2) using revised(3) by (intro update_where_ids) simp
  ultimately show ?case using revised(9,11) by (simp add: rows_ok_def)
qed (auto simp: rows_ok_def)

lemma resource_unique:
  assumes "rows_ok st" and "row_where (\<lambda>y. rs_id y = i) (bk_resources st) = Some r" and "res \<in> set (bk_resources st)" and "rs_id res = i"
  shows "r = res"
  using assms rows_okD(1) [OF assms(1)] row_where_SomeD [OF assms(2)] by (auto simp: distinct_map dest: inj_onD)

lemma placed_within:
  assumes "rows_ok st" and "within_capacity now st" and "fits now r [] st" and "res \<in> set (bk_resources st)"
  shows "load now u (rs_id res) (bk_reservations st @ [r]) \<le> rs_capacity res"
proof (cases "counted now u (rs_id res) r")
  case True
  then have r: "r_resource_id r = rs_id res" "r_starts_at r \<le> u" "u < r_ends_at r" by (auto simp: counted_def)
  from assms(3) obtain q where q: "row_where (\<lambda>y. rs_id y = rs_id res) (bk_resources st) = Some q"
    "allocatedOver (rs_id res) (r_starts_at r) (r_ends_at r) now [] st + r_quantity r \<le> rs_capacity q"
    by (auto simp: fits_def r(1))
  have "filter (\<lambda>r. r_id r \<noteq> []) (bk_reservations st) = bk_reservations st"
    using rows_okD(5) [OF assms(1)] by (simp add: filter_id_conv)
  then have "load now u (rs_id res) (bk_reservations st) \<le> allocatedOver (rs_id res) (r_starts_at r) (r_ends_at r) now [] st"
    using load_le_allocated [OF r(2,3), of st now "rs_id res" "[]"] rows_okD(7) [OF assms(1)] by simp
  moreover have "q = res" using resource_unique [OF assms(1) q(1) assms(4)] by simp
  ultimately show ?thesis using q(2) True by (simp add: load_append) (simp add: load_def)
next
  case False
  then show ?thesis using assms(2,4) by (simp add: load_append within_capacity_def) (simp add: load_def)
qed

lemma revised_within:
  assumes "rows_ok st" and "within_capacity now st" and "row_where (\<lambda>r. r_id r = r_id r0) (bk_reservations st) = Some r0"
    and "r_quantity (f r0) = r_quantity r0" and "no_more (f r0) r0 \<or> fits now (f r0) (r_id r0) st"
    and "res \<in> set (bk_resources st)"
  shows "load now u (rs_id res) (update_where (\<lambda>r. r_id r = r_id r0) f (bk_reservations st)) \<le> rs_capacity res"
proof -
  let ?others = "filter (\<lambda>r. r_id r \<noteq> r_id r0) (bk_reservations st)"
  note quant = rows_okD(7) [OF assms(1)]
  note eq = load_update [OF rows_okD(2) [OF assms(1)] assms(3)]
  have old: "load now u (rs_id res) (bk_reservations st) =
      load now u (rs_id res) ?others + (if counted now u (rs_id res) r0 then r_quantity r0 else 0)"
    using eq [of "\<lambda>r. r"] by (simp add: update_where_def)
  have cap: "load now u (rs_id res) (bk_reservations st) \<le> rs_capacity res" using assms(2,6) by (simp add: within_capacity_def)
  have others: "load now u (rs_id res) ?others \<le> load now u (rs_id res) (bk_reservations st)"
    using quant by (rule load_others_le)
  show ?thesis
  proof (cases "counted now u (rs_id res) (f r0)")
    case False
    with eq [of f now u "rs_id res"] assms(4) cap others show ?thesis by simp
  next
    case True
    from assms(5) show ?thesis
    proof
      assume "no_more (f r0) r0"
      with True have "counted now u (rs_id res) r0" by (auto simp: no_more_def)
      with eq [of f now u "rs_id res"] assms(4) True cap old show ?thesis by simp
    next
      assume "fits now (f r0) (r_id r0) st"
      moreover from True have r: "r_resource_id (f r0) = rs_id res" "r_starts_at (f r0) \<le> u" "u < r_ends_at (f r0)"
        by (auto simp: counted_def)
      ultimately obtain q where q: "row_where (\<lambda>y. rs_id y = rs_id res) (bk_resources st) = Some q"
        "allocatedOver (rs_id res) (r_starts_at (f r0)) (r_ends_at (f r0)) now (r_id r0) st + r_quantity (f r0) \<le> rs_capacity q"
        by (auto simp: fits_def)
      have "q = res" using resource_unique [OF assms(1) q(1) assms(6)] by simp
      moreover have "load now u (rs_id res) ?others \<le>
          allocatedOver (rs_id res) (r_starts_at (f r0)) (r_ends_at (f r0)) now (r_id r0) st"
        by (rule load_le_allocated [OF r(2,3) quant])
      ultimately show ?thesis using eq [of f now u "rs_id res"] assms(4) True q(2) by simp
    qed
  qed
qed

lemma cal_step_within:
  assumes "cal_step now st st'" and "rows_ok st" and "within_capacity now st"
  shows "within_capacity now st'"
  using assms
proof (induction rule: cal_step.induct)
  case (created st' st res)
  have "load now u (rs_id res) (bk_reservations st) = 0" for u
  proof -
    have "filter (counted now u (rs_id res)) (bk_reservations st) = []"
      using rows_okD(6) [OF created(6)] created(2) by (metis counted_def filter_False)
    then show ?thesis by (simp add: load_def)
  qed
  with created show ?case by (auto simp: within_capacity_def)
next
  case (toggled st' p a st)
  then show ?case by (auto simp: within_capacity_def set_update_where)
next
  case (placed st' st r)
  then show ?case using placed_within [OF placed(10,11,7)] by (simp add: within_capacity_def)
next
  case (revised r0 st st' f op oc)
  then show ?case
    using revised_within [OF revised(11,12,1), of f] by (simp add: within_capacity_def)
qed (auto simp: within_capacity_def)

lemma within_later: "rows_ok st \<Longrightarrow> within_capacity n st \<Longrightarrow> n \<le> n' \<Longrightarrow> within_capacity n' st"
  unfolding within_capacity_def using load_mono_now rows_okD(7) by (meson order_trans)

lemma bk_step_within:
  assumes "bk_step now st st'" and "rows_ok st" and "within_capacity now st"
  shows "rows_ok st' \<and> within_capacity now st'"
  using bk_step_cal [OF assms(1)] assms(2,3)
  by (induction rule: rtranclp_induct) (auto dest: cal_step_rows_ok cal_step_within)

lemma bk_run_within:
  assumes "bk_run n0 st0 n st" and "rows_ok st0" and "within_capacity n0 st0"
  shows "rows_ok st \<and> within_capacity n st"
  using assms
proof (induction rule: bk_run.induct)
  case (run_step n st n' st')
  then have ok: "rows_ok st" "within_capacity n' st" using within_later by blast+
  show ?case by (rule bk_step_within [OF run_step.hyps(3) ok])
qed simp

section \<open>The roster stays within the places on offer\<close>

definition on_roster :: "string \<Rightarrow> participant_row \<Rightarrow> bool" where
  "on_roster i p \<longleftrightarrow> p_reservation_id p = i \<and> p_left_at p = None"

definition roster_ok :: "'a bk_store_scheme \<Rightarrow> bool" where
  "roster_ok st \<longleftrightarrow>
     distinct (map p_id (bk_participants st)) \<and>
     (\<forall>p \<in> set (bk_participants st). p_reservation_id p \<in> r_id ` set (bk_reservations st)) \<and>
     (\<forall>r \<in> set (bk_reservations st).
        distinct (map p_party_ref (filter (on_roster (r_id r)) (bk_participants st))) \<and>
        if_given (\<lambda>k. int (length (filter (on_roster (r_id r)) (bk_participants st))) \<le> k) (r_fill_target r))"

lemma roster_okD:
  assumes "roster_ok st"
  shows "distinct (map p_id (bk_participants st))"
    and "\<And>p. p \<in> set (bk_participants st) \<Longrightarrow> p_reservation_id p \<in> r_id ` set (bk_reservations st)"
    and "\<And>r. r \<in> set (bk_reservations st) \<Longrightarrow> distinct (map p_party_ref (filter (on_roster (r_id r)) (bk_participants st)))"
    and "\<And>r. r \<in> set (bk_reservations st) \<Longrightarrow>
      if_given (\<lambda>k. int (length (filter (on_roster (r_id r)) (bk_participants st))) \<le> k) (r_fill_target r)"
  using assms by (auto simp: roster_ok_def)

lemma activeParticipants_roster:
  "length (activeParticipants i st) = length (filter (on_roster i) (bk_participants st))"
  "set (activeParticipants i st) = set (filter (on_roster i) (bk_participants st))"
  by (simp_all add: activeParticipants_def on_roster_def [abs_def])

lemma roster_left:
  "filter (on_roster i) (update_where (\<lambda>q. p_id q = j) (\<lambda>q. q\<lparr>p_left_at := Some x\<rparr>) ps) =
   filter (\<lambda>q. p_id q \<noteq> j) (filter (on_roster i) ps)"
  by (induction ps) (auto simp: update_where_def on_roster_def)

lemma same_id:
  assumes "rows_ok st" and "row_where (\<lambda>r. r_id r = r_id r0) (bk_reservations st) = Some r0"
    and "r \<in> set (bk_reservations st)" and "r_id r = r_id r0"
  shows "r = r0"
  using assms rows_okD(2) [OF assms(1)] row_where_SomeD [OF assms(2)] by (auto simp: distinct_map dest: inj_onD)

lemma cal_step_roster:
  assumes "cal_step now st st'" and "rows_ok st" and "roster_ok st"
  shows "roster_ok st'"
  using assms
proof (induction rule: cal_step.induct)
  case (placed st' st r)
  have none: "filter (on_roster (r_id r)) (bk_participants st) = []"
    unfolding filter_empty_conv on_roster_def using roster_okD(2) [OF placed(11)] placed(2) by metis
  have "if_given (\<lambda>k. 0 \<le> k) (r_fill_target r)" using placed(6) by (rule if_given_mono) simp
  with none placed(1,9) roster_okD [OF placed(11)] show ?case unfolding roster_ok_def by auto
next
  case (revised r0 st st' f op oc)
  have keep: "r_id ` set (bk_reservations st') = r_id ` set (bk_reservations st)"
    unfolding revised(2) set_update_where image_image using revised(3) by (intro image_cong) simp_all
  have target: "if_given (\<lambda>k. int (length (filter (on_roster (r_id r)) (bk_participants st))) \<le> k) (r_fill_target r)"
    and dist: "distinct (map p_party_ref (filter (on_roster (r_id r)) (bk_participants st)))"
    if "r \<in> set (bk_reservations st')" for r
  proof -
    from that obtain q where q: "q \<in> set (bk_reservations st)" "r = (if r_id q = r_id r0 then f q else q)"
      unfolding revised(2) set_update_where by auto
    then have id: "r_id r = r_id q" using revised(3) by simp
    then show "distinct (map p_party_ref (filter (on_roster (r_id r)) (bk_participants st)))"
      using roster_okD(3) [OF revised(12) q(1)] by simp
    show "if_given (\<lambda>k. int (length (filter (on_roster (r_id r)) (bk_participants st))) \<le> k) (r_fill_target r)"
    proof (cases "r_id q = r_id r0")
      case True
      with same_id [OF revised(11,1) q(1)] have "q = r0" by simp
      then show ?thesis
        using True q id revised(3,8) roster_okD(4) [OF revised(12) q(1)] by (auto simp: activeParticipants_roster)
    qed (use q id roster_okD(4) [OF revised(12) q(1)] in simp)
  qed
  then show ?case using revised(10) roster_okD(1,2) [OF revised(12)] keep unfolding roster_ok_def by simp
next
  case (joined r0 st st' p)
  have here: "if_given (\<lambda>k. int (length (filter (on_roster (r_id r)) (bk_participants st @ [p]))) \<le> k) (r_fill_target r)"
    and dist: "distinct (map p_party_ref (filter (on_roster (r_id r)) (bk_participants st @ [p])))"
    if r: "r \<in> set (bk_reservations st)" for r
  proof -
    note old = roster_okD(3,4) [OF joined(11) r]
    have on: "on_roster (r_id r) p \<longleftrightarrow> r_id r = r_id r0" using joined(4,5) by (auto simp: on_roster_def)
    show "if_given (\<lambda>k. int (length (filter (on_roster (r_id r)) (bk_participants st @ [p]))) \<le> k) (r_fill_target r)"
    proof (cases "r_id r = r_id r0")
      case True
      with same_id [OF joined(10,1) r] have "r = r0" by simp
      with joined(7) on True show ?thesis
        by (cases "r_fill_target r0") (simp_all add: activeParticipants_roster is_full_def if_given_def)
    qed (use on old(2) in simp)
    show "distinct (map p_party_ref (filter (on_roster (r_id r)) (bk_participants st @ [p])))"
    proof (cases "r_id r = r_id r0")
      case True
      with joined(6) on old(1) show ?thesis by (simp add: activeParticipants_roster)
    qed (use on old(1) in simp)
  qed
  have "p_reservation_id q \<in> r_id ` set (bk_reservations st)" if "q \<in> set (bk_participants st @ [p])" for q
    using that roster_okD(2) [OF joined(11)] row_where_SomeD [OF joined(1)] joined(4) by auto
  then show ?case
    using here dist joined(3) roster_okD(1) [OF joined(11)] unfolding roster_ok_def joined(2,9) by simp
next
  case (left st' i x st)
  have "distinct (map p_id (bk_participants st'))"
    using left(5) unfolding left(1) roster_ok_def by (subst map_update_where) simp_all
  moreover have "if_given (\<lambda>k. int (length (filter (on_roster (r_id r)) (bk_participants st'))) \<le> k) (r_fill_target r)"
    "distinct (map p_party_ref (filter (on_roster (r_id r)) (bk_participants st')))" if r: "r \<in> set (bk_reservations st)" for r
  proof -
    let ?on = "filter (on_roster (r_id r)) (bk_participants st)"
    have "length (filter (\<lambda>q. p_id q \<noteq> i) ?on) \<le> length ?on" by (rule length_filter_le)
    then show "if_given (\<lambda>k. int (length (filter (on_roster (r_id r)) (bk_participants st'))) \<le> k) (r_fill_target r)"
      unfolding left(1) roster_left using roster_okD(4) [OF left(5) r] by (auto elim: if_given_mono)
    show "distinct (map p_party_ref (filter (on_roster (r_id r)) (bk_participants st')))"
      unfolding left(1) roster_left using roster_okD(3) [OF left(5) r] by (rule distinct_map_filter)
  qed
  moreover have "p_reservation_id q \<in> r_id ` set (bk_reservations st)" if "q \<in> set (bk_participants st')" for q
    using that roster_okD(2) [OF left(5)] unfolding left(1) set_update_where by auto
  ultimately show ?case unfolding roster_ok_def left(3) by simp
qed (simp_all add: roster_ok_def)

section \<open>The state column follows the lifecycle\<close>

definition state_of :: "'a bk_store_scheme \<Rightarrow> string \<Rightarrow> string option" where
  "state_of st i = map_option r_state (row_where (\<lambda>r. r_id r = i) (bk_reservations st))"

lemma booking_coherent: "coherent bookingLifecycle"
  by (simp add: coherent_def state_coherent_def bookingLifecycle_def state_names_def)

lemma cal_step_born:
  assumes "cal_step now st st'" and "state_of st i = None" and "state_of st' i = Some a"
  shows "a = initial bookingLifecycle"
  using assms
proof (induction rule: cal_step.induct)
  case (placed st' st r)
  then show ?case
    by (auto simp: state_of_def row_where_append bookingLifecycle_def split: option.splits if_splits)
next
  case (revised r0 st st' f op oc)
  have "row_where (\<lambda>r. r_id r = i) (bk_reservations st') =
      map_option (\<lambda>r. if r_id r = r_id r0 then f r else r) (row_where (\<lambda>r. r_id r = i) (bk_reservations st))"
    unfolding revised(2) using revised(3) by (intro row_where_update_where) auto
  with revised show ?case by (simp add: state_of_def)
qed (simp_all add: state_of_def)

lemma cal_step_moves:
  assumes "cal_step now st st'" and "state_of st i = Some a"
  shows "\<exists>b. state_of st' i = Some b \<and> (b = a \<or> (\<exists>op. transitionFor bookingLifecycle a op = Some (Transition b)))"
  using assms
proof (induction rule: cal_step.induct)
  case (placed st' st r)
  then show ?case by (auto simp: state_of_def row_where_append)
next
  case (revised r0 st st' f op oc)
  have upd: "row_where (\<lambda>r. r_id r = i) (bk_reservations st') =
      map_option (\<lambda>r. if r_id r = r_id r0 then f r else r) (row_where (\<lambda>r. r_id r = i) (bk_reservations st))"
    unfolding revised(2) using revised(3) by (intro row_where_update_where) auto
  from revised(11) obtain r where r: "row_where (\<lambda>r. r_id r = i) (bk_reservations st) = Some r" "r_state r = a"
    by (auto simp: state_of_def)
  then have id: "r_id r = i" by (auto dest: row_where_SomeD)
  show ?case
  proof (cases "i = r_id r0")
    case False
    with r upd id show ?thesis by (auto simp: state_of_def)
  next
    case True
    with r revised(1) have "r = r0" by simp
    then have "state_of st' i = Some (r_state (f r0))" using r upd True by (simp add: state_of_def)
    with revised(5,6) r(2) \<open>r = r0\<close> show ?thesis by (cases oc) auto
  qed
qed (auto simp: state_of_def)

interpretation bk: governed_store bookingLifecycle state_of "\<lambda>s s'. \<exists>now. cal_step now s s'"
proof
  show "coherent bookingLifecycle" by (rule booking_coherent)
  show "a = initial bookingLifecycle"
    if "\<exists>now. cal_step now s s'" "state_of s i = None" "state_of s' i = Some a" for s s' :: "'a bk_store_scheme" and i a
    using that cal_step_born by blast
  show "\<exists>b. state_of s' i = Some b \<and> (b = a \<or> (\<exists>op. transitionFor bookingLifecycle a op = Some (Transition b)))"
    if "\<exists>now. cal_step now s s'" "state_of s i = Some a" for s s' :: "'a bk_store_scheme" and i a
    using that cal_step_moves by blast
qed

lemma bk_run_cal:
  assumes "bk_run n0 st0 n st"
  shows "(\<lambda>s s'. \<exists>now. cal_step now s s')\<^sup>*\<^sup>* st0 st"
  using assms
proof (induction rule: bk_run.induct)
  case (run_step n st n' st')
  from bk_step_cal [OF run_step.hyps(3)] have "(\<lambda>s s'. \<exists>now. cal_step now s s')\<^sup>*\<^sup>* st st'"
    by (rule rtranclp_mono [THEN predicate2D, rotated]) blast
  with run_step.IH show ?case by simp
qed simp

lemma bk_run_roster:
  assumes "bk_run n0 st0 n st" and "rows_ok st0" and "roster_ok st0"
  shows "rows_ok st \<and> roster_ok st"
  using bk_run_cal [OF assms(1)] assms(2,3)
  by (induction rule: rtranclp_induct) (auto dest: cal_step_rows_ok cal_step_roster)

section \<open>Properties\<close>

text \<open>
  A calendar with one pool of two places.
\<close>

definition bk_ctx :: op_ctx where
  "bk_ctx = demo_ctx\<lparr>cx_at := (tick 0), cx_relations := [(''reservation'', [''resource''])]\<rparr>"

definition demo_pool :: resource_row where
  "demo_pool = \<lparr>rs_id = ''R'', rs_kind = ''pool'', rs_name = ''Rackets'', rs_capacity = 2, rs_active = 1, rs_created_at = (tick 0)\<rparr>"

definition demo_slot :: "string \<Rightarrow> string \<Rightarrow> string \<Rightarrow> string \<Rightarrow> reservation_row" where
  "demo_slot i s e state = \<lparr>r_id = i, r_resource_id = ''R'', r_starts_at = s, r_ends_at = e, r_state = state, r_quantity = 1,
     r_expires_at = Some (tick 9), r_fill_target = Some 1, r_note = None, r_created_by = ''P'', r_created_at = (tick 0)\<rparr>"

definition demo_calendar :: "reservation_row list \<Rightarrow> bk_store" where
  "demo_calendar rows = \<lparr>tuples = [], outbox = [], passed = [], drawn = 0, bk_resources = [demo_pool], bk_reservations = rows,
     bk_participants = []\<rparr>"

definition demo_hold :: hold_input where
  "demo_hold = \<lparr>hi_resourceId = ''R'', hi_startsAt = (tick 1), hi_endsAt = (tick 3), hi_expiresAt = (tick 5), hi_quantity = None,
     hi_fillTarget = Some 4, hi_note = None, hi_now = None\<rparr>"

definition demo_move :: move_input where
  "demo_move = \<lparr>mi_reservationId = ''A'', mi_resourceId = None, mi_startsAt = Some (tick 4), mi_endsAt = None, mi_now = None\<rparr>"

lemmas demo_calendar_defs = demo_calendar_def demo_pool_def demo_slot_def tick_def numeral_eq_Suc

lemma demo_held:
  "\<exists>v s. holdReservation bk_ctx demo_dates demo_hold (demo_calendar [demo_slot ''A'' (tick 1) (tick 2) ''held'']) = Inr (v, s)"
proof -
  have "is_ok (holdReservation bk_ctx demo_dates demo_hold (demo_calendar [demo_slot ''A'' (tick 1) (tick 2) ''held'']))"
    by code_simp
  then show ?thesis by (rule is_ok_pairE)
qed

lemma demo_run:
  assumes "holdReservation bk_ctx demo_dates demo_hold st = Inr (v, s)"
  shows "bk_run (tick 0) st (tick 0) s"
proof -
  have "nowOr bk_ctx demo_dates (hi_now demo_hold) = Inr (tick 0)" by (simp add: nowOr_def demo_hold_def bk_ctx_def)
  with assms have "bk_step (tick 0) st s" by (rule bk_step.b_hold)
  from bk_run.run_step [OF bk_run.run_start _ this] show ?thesis by simp
qed

lemma demo_calendar_ok:
  "rows_ok (demo_calendar [demo_slot ''A'' (tick 1) (tick 2) ''held''])"
  "roster_ok (demo_calendar [demo_slot ''A'' (tick 1) (tick 2) ''held''])"
  "within_capacity (tick 0) (demo_calendar [demo_slot ''A'' (tick 1) (tick 2) ''held''])"
  by (simp_all add: demo_calendar_defs rows_ok_def roster_ok_def within_capacity_def load_def reservation_check_def
      reservation_states_def if_given_def)

text \<open>
  C12. The invariant the engine owns: whatever sequence of calls commits, at instants that do not go
  back, the live reservations that cover any one instant of a resource's calendar never add up to more
  than its capacity, now or at any later time.
\<close>

theorem never_overallocated:
  assumes "bk_run n0 st0 n st" and "rows_ok st0" and "within_capacity n0 st0" and "n \<le> n'" and "res \<in> set (bk_resources st)"
  shows "load n' u (rs_id res) (bk_reservations st) \<le> rs_capacity res"
  using bk_run_within [OF assms(1-3)] within_later assms(4,5) unfolding within_capacity_def by blast

theorem never_overallocated_witness:
  "\<exists>v s. holdReservation bk_ctx demo_dates demo_hold (demo_calendar [demo_slot ''A'' (tick 1) (tick 2) ''held'']) = Inr (v, s) \<and>
    load (tick 0) (tick 1) ''R'' (bk_reservations s) \<le> 2"
proof -
  from demo_held obtain v s where h: "holdReservation bk_ctx demo_dates demo_hold (demo_calendar [demo_slot ''A'' (tick 1) (tick 2) ''held'']) = Inr (v, s)"
    by blast
  have "bk_resources s = [demo_pool]"
    using holdReservation_tables(1) [OF h] by (simp add: demo_calendar_def)
  then have "demo_pool \<in> set (bk_resources s)" by simp
  from never_overallocated [OF demo_run [OF h] demo_calendar_ok(1,3) order_refl this] h show ?thesis
    by (auto simp: demo_pool_def)
qed

text \<open>
  The roster of every reservation keeps to its places: along every run no party is on it twice
  and it never outgrows the places on offer, whoever joins, leaves, or opens the reservation.
\<close>

theorem roster_within_places:
  assumes "bk_run n0 st0 n st" and "rows_ok st0" and "roster_ok st0" and "r \<in> set (bk_reservations st)"
  shows "distinct (map p_party_ref (filter (on_roster (r_id r)) (bk_participants st))) \<and>
    (case r_fill_target r of Some k \<Rightarrow> int (length (activeParticipants (r_id r) st)) \<le> k | None \<Rightarrow> True)"
  using roster_okD(3,4) [OF conjunct2 [OF bk_run_roster [OF assms(1-3)]] assms(4)]
  by (simp add: activeParticipants_roster if_given_def split: option.splits)

theorem roster_within_places_witness:
  "\<exists>v s r. holdReservation bk_ctx demo_dates demo_hold (demo_calendar [demo_slot ''A'' (tick 1) (tick 2) ''held'']) = Inr (v, s) \<and>
    r \<in> set (bk_reservations s) \<and> distinct (map p_party_ref (filter (on_roster (r_id r)) (bk_participants s)))"
proof -
  from demo_held obtain v s where h: "holdReservation bk_ctx demo_dates demo_hold (demo_calendar [demo_slot ''A'' (tick 1) (tick 2) ''held'']) = Inr (v, s)"
    by blast
  have "bk_reservations s \<noteq> []"
    using holdReservation_tables(3) [OF h] by auto
  then have "hd (bk_reservations s) \<in> set (bk_reservations s)" by simp
  with roster_within_places [OF demo_run [OF h] demo_calendar_ok(1,2)] h show ?thesis by blast
qed

lemma terminal_states: "s \<in> {''expired'', ''cancelled'', ''completed'', ''no_show''} \<Longrightarrow> is_terminal bookingLifecycle s"
  by (auto simp: is_terminal_def bookingLifecycle_def)

text \<open>
  A reservation that has expired, been cancelled, completed or not shown up stays so for good, and
  never holds capacity again.
\<close>

theorem settled_reservation_frees:
  assumes "bk_run n0 st0 n st" and "state_of st0 i = Some s" and "s \<in> {''expired'', ''cancelled'', ''completed'', ''no_show''}"
  shows "\<exists>r. row_where (\<lambda>r. r_id r = i) (bk_reservations st) = Some r \<and> r_state r = s \<and> \<not> holds_capacity m r"
proof -
  have "state_of st i = Some s"
    by (rule bk.terminal_frozen [OF bk_run_cal [OF assms(1)] assms(2)]) (rule terminal_states [OF assms(3)])
  then show ?thesis using assms(3) by (auto simp: state_of_def holds_capacity_def)
qed

lemma demo_held_beside:
  "\<exists>v s. holdReservation bk_ctx demo_dates demo_hold (demo_calendar [demo_slot ''A'' (tick 1) (tick 2) ''cancelled'']) = Inr (v, s)"
proof -
  have "is_ok (holdReservation bk_ctx demo_dates demo_hold (demo_calendar [demo_slot ''A'' (tick 1) (tick 2) ''cancelled'']))"
    by code_simp
  then show ?thesis by (rule is_ok_pairE)
qed

theorem settled_reservation_frees_witness:
  "\<exists>v s r. holdReservation bk_ctx demo_dates demo_hold (demo_calendar [demo_slot ''A'' (tick 1) (tick 2) ''cancelled'']) = Inr (v, s) \<and>
    row_where (\<lambda>r. r_id r = ''A'') (bk_reservations s) = Some r \<and> r_state r = ''cancelled''"
proof -
  from demo_held_beside obtain v s where h: "holdReservation bk_ctx demo_dates demo_hold
      (demo_calendar [demo_slot ''A'' (tick 1) (tick 2) ''cancelled'']) = Inr (v, s)" by blast
  have "state_of (demo_calendar [demo_slot ''A'' (tick 1) (tick 2) ''cancelled'']) ''A'' = Some ''cancelled''"
    by (simp add: state_of_def demo_calendar_def demo_slot_def)
  from settled_reservation_frees [OF demo_run [OF h] this] h show ?thesis by auto
qed

lemma row_where_updated:
  assumes "row_where (\<lambda>r. r_id r = i) rows = Some r0" and "\<And>r. r_id (f r) = r_id r"
  shows "row_where (\<lambda>r. r_id r = i) (update_where (\<lambda>r. r_id r = i) f rows) = Some (f r0)"
proof -
  have "row_where (\<lambda>r. r_id r = i) (update_where (\<lambda>r. r_id r = i) f rows) =
      map_option (\<lambda>r. if r_id r = i then f r else r) (row_where (\<lambda>r. r_id r = i) rows)"
    using assms(2) by (intro row_where_update_where) simp
  with assms(1) row_where_SomeD [OF assms(1)] show ?thesis by simp
qed

lemma instantIn_Inr:
  assumes "date_laws d" and "instantIn d v = Inr s"
  shows "\<exists>m. d_parse d s = Some m \<and> s \<noteq> []"
  using assms by (auto simp: instantIn_def toInstant_def toISOString_def date_laws_def monad_simps split: option.splits if_splits)

lemma filter_updated:
  assumes "\<And>r. r_id (f r) = r_id r"
  shows "filter (\<lambda>r. r_id r \<noteq> i) (update_where (\<lambda>r. r_id r = i) f rows) = filter (\<lambda>r. r_id r \<noteq> i) rows"
  using assms by (induction rows) (auto simp: update_where_def)

text \<open>
  A move that names only a new start shifts the booking: it keeps its duration, identity,
  quantity, state and roster, and changes no other reservation.
\<close>

theorem move_shifts:
  assumes "date_laws d" and "moveReservation cx d input st = Inr (v, st')"
    and "mi_startsAt input = Some w" and "mi_endsAt input = None"
  shows "\<exists>row row' a b a'. getRow (mi_reservationId input) st = Inr row \<and> getRow (mi_reservationId input) st' = Inr row' \<and>
    d_parse d (r_starts_at row) = Some a \<and> d_parse d (r_ends_at row) = Some b \<and>
    d_parse d (r_starts_at row') = Some a' \<and> d_parse d (r_ends_at row') = Some (a' + (b - a)) \<and>
    row' = row\<lparr>r_resource_id := r_resource_id row', r_starts_at := r_starts_at row', r_ends_at := r_ends_at row'\<rparr> \<and>
    filter (\<lambda>r. r_id r \<noteq> r_id row) (bk_reservations st') = filter (\<lambda>r. r_id r \<noteq> r_id row) (bk_reservations st) \<and>
    bk_participants st' = bk_participants st"
  using moveReservation_Inr [OF assms(2)]
proof cases
  case (1 now askStart askEnd row s e target st1 ev)
  let ?f = "\<lambda>r. r\<lparr>r_resource_id := rs_id target, r_starts_at := s, r_ends_at := e\<rparr> :: reservation_row"
  from 1(1) assms(3) obtain x where x: "askStart = Some x" "instantIn d w = Inr x" by (auto simp: optional_r_def bind_r_Inr_iff)
  from 1(2) assms(4) have y: "askEnd = None" by (simp add: optional_r_def)
  from instantIn_Inr [OF assms(1) x(2)] obtain a' where a': "d_parse d x = Some a'" "x \<noteq> []" by blast
  with 1(6) x(1) y obtain a b where iv: "s = x" "d_parse d (r_starts_at row) = Some a" "d_parse d (r_ends_at row) = Some b"
    "d_parse d e = Some (a' + (b - a))"
    using assms(1) by (auto simp: moved_interval_def truthy_def or_else_def toISOString_def date_laws_def monad_simps
      split: option.splits if_splits)
  have id: "r_id row = mi_reservationId input" using 1(4) by (auto simp: bk_getRow_Inr dest: row_where_SomeD)
  have rows: "bk_reservations st' = update_where (\<lambda>r. r_id r = mi_reservationId input) ?f (bk_reservations st)"
    "bk_participants st' = bk_participants st"
    using 1(11) bk_emit_tables [OF 1(12)] id by (simp_all add: set_reservation_Inr)
  have "getRow (mi_reservationId input) st' = Inr (?f row)"
    unfolding bk_getRow_Inr rows(1) using 1(4) by (intro row_where_updated) (simp_all add: bk_getRow_Inr)
  moreover have "filter (\<lambda>r. r_id r \<noteq> r_id row) (bk_reservations st') = filter (\<lambda>r. r_id r \<noteq> r_id row) (bk_reservations st)"
    unfolding rows(1) id by (rule filter_updated) simp
  ultimately show ?thesis
    using 1(4) iv a'(1) rows(2) by (intro exI [of _ row] exI [of _ "?f row"] exI [of _ a] exI [of _ b] exI [of _ a']) simp
qed

theorem move_shifts_witness:
  "\<exists>v s row'. moveReservation bk_ctx demo_dates demo_move (demo_calendar [demo_slot ''A'' (tick 1) (tick 3) ''held'']) = Inr (v, s) \<and>
    getRow ''A'' s = Inr row' \<and> r_state row' = ''held''"
proof -
  have "is_ok (moveReservation bk_ctx demo_dates demo_move (demo_calendar [demo_slot ''A'' (tick 1) (tick 3) ''held'']))" by code_simp
  then obtain v s where m: "moveReservation bk_ctx demo_dates demo_move (demo_calendar [demo_slot ''A'' (tick 1) (tick 3) ''held'']) = Inr (v, s)"
    by (blast dest: is_ok_pairE)
  have "mi_startsAt demo_move = Some (tick 4)" "mi_endsAt demo_move = None" by (simp_all add: demo_move_def)
  from move_shifts [OF demo_date_laws m this] obtain row row' where
    "getRow ''A'' (demo_calendar [demo_slot ''A'' (tick 1) (tick 3) ''held'']) = Inr row" "getRow ''A'' s = Inr row'" "r_state row' = r_state row"
    by (auto simp: demo_move_def) (metis reservation_row.select_convs(5) reservation_row.update_convs(2-4) reservation_row.surjective)
  moreover from this(1) have "r_state row = ''held''" by (auto simp: bk_getRow_Inr demo_calendar_def demo_slot_def)
  ultimately show ?thesis using m by auto
qed

end
