(* ===== verification/Pagination.thy ===== *)
theory Pagination
  imports Substrat_Prelude Complex_Main
begin

text \<open>
  The pagination convention of every list read (\<open>packages/contracts/src/pagination.ts\<close>): keyset pages
  whose cursor is the sort key of the last entry, the page cut from a list already folded, and
  \<open>pageVisible\<close>, which walks a list whose rows the caller may see only in part.

  What a producer of pages promises is the locale \<open>keyset_pages\<close>; what a client gets from it, that a
  walk along the cursors yields every row once, is proved there and holds of each producer that
  interprets it: here \<open>pageOverFold\<close>, and in \<open>Booking_Calendar\<close> the engine's own two.
\<close>

section \<open>Pages\<close>

datatype js_number = Finite rat | NotFinite

definition LIST_PAGE_DEFAULT :: int where
  "LIST_PAGE_DEFAULT = 20"

definition LIST_PAGE_MAX :: int where
  "LIST_PAGE_MAX = 200"

definition listLimitOf :: "js_number option \<Rightarrow> int" where
  "listLimitOf limit =
     (case limit of
        Some (Finite n) \<Rightarrow> if n < 1 then LIST_PAGE_DEFAULT else min \<lfloor>n\<rfloor> LIST_PAGE_MAX
      | _ \<Rightarrow> LIST_PAGE_DEFAULT)"

record 'e page =
  entries :: "'e list"
  nextCursor :: "string option"
  rowCursors :: "string list option"

record 'e counted_page = "'e page" +
  total :: int

definition pageOf :: "'e list \<Rightarrow> int \<Rightarrow> ('e \<Rightarrow> string) \<Rightarrow> bool \<Rightarrow> 'e page" where
  "pageOf es limit key asked =
     \<lparr>entries = es,
      nextCursor = (if limit \<le> int (length es) \<and> es \<noteq> [] then Some (key (last es)) else None),
      rowCursors = (if asked then Some (map key es) else None)\<rparr>"

definition countedPageOf :: "'e list \<Rightarrow> int \<Rightarrow> ('e \<Rightarrow> string) \<Rightarrow> int \<Rightarrow> bool \<Rightarrow> 'e counted_page" where
  "countedPageOf es limit key n asked = page.extend (pageOf es limit key asked) (counted_page.fields n)"

definition mapPage :: "'a page \<Rightarrow> ('a \<Rightarrow> 'b) \<Rightarrow> 'b page" where
  "mapPage pg fn = \<lparr>entries = map fn (entries pg), nextCursor = nextCursor pg, rowCursors = rowCursors pg\<rparr>"

definition past :: "bool \<Rightarrow> ('e \<Rightarrow> string) \<Rightarrow> string \<Rightarrow> 'e \<Rightarrow> bool" where
  "past asc key cursor row \<longleftrightarrow> (if asc then cursor < key row else key row < cursor)"

text \<open>\<open>rows.findIndex\<close>, and the end of the list where it finds none.\<close>

definition index_or_end :: "('e \<Rightarrow> bool) \<Rightarrow> 'e list \<Rightarrow> nat" where
  "index_or_end p rows = length (takeWhile (\<lambda>r. \<not> p r) rows)"

definition pageOverFold :: "'e list \<Rightarrow> js_number option \<Rightarrow> string option \<Rightarrow> ('e \<Rightarrow> string) \<Rightarrow> bool \<Rightarrow> 'e page" where
  "pageOverFold rows asked cursor key asc =
     (let limit = listLimitOf asked;
          after = (case cursor of None \<Rightarrow> 0 | Some c \<Rightarrow> index_or_end (past asc key c) rows) in
      pageOf (take (nat limit) (drop after rows)) limit key False)"

section \<open>What a walk along the cursors yields\<close>

definition after :: "('e \<Rightarrow> string) \<Rightarrow> string option \<Rightarrow> 'e \<Rightarrow> bool" where
  "after key cursor e \<longleftrightarrow> (case cursor of None \<Rightarrow> True | Some c \<Rightarrow> c < key e)"

text \<open>A client's loop: read a page, follow its cursor, stop where there is none.\<close>

fun walk :: "nat \<Rightarrow> (string option \<Rightarrow> 'e page result) \<Rightarrow> string option \<Rightarrow> 'e list result" where
  "walk 0 fetch cursor = Inr []"
| "walk (Suc n) fetch cursor =
     bind_r (fetch cursor) (\<lambda>pg.
     bind_r (case nextCursor pg of None \<Rightarrow> Inr [] | Some c \<Rightarrow> walk n fetch (Some c)) (\<lambda>es.
       Inr (entries pg @ es)))"

lemma filter_past_sorted:
  assumes "sorted_wrt (<) (map key xs)" and "i < length xs"
  shows "filter (\<lambda>e. (key (xs ! i) :: string) < key e) xs = drop (Suc i) xs"
proof -
  have le: "\<not> key (xs ! i) < key x" if "x \<in> set (take (Suc i) xs)" for x
  proof -
    from that obtain j where "j < Suc i" "x = xs ! j" using assms(2) by (auto simp: in_set_conv_nth)
    then show ?thesis
      using assms sorted_wrt_nth_less [OF assms(1), of j i] by (cases "j = i") (auto simp: order.asym)
  qed
  have gt: "key (xs ! i) < key x" if "x \<in> set (drop (Suc i) xs)" for x
  proof -
    from that obtain j where "j < length xs - Suc i" "x = xs ! (Suc i + j)" by (auto simp: in_set_conv_nth)
    then show ?thesis using sorted_wrt_nth_less [OF assms(1), of i "Suc i + j"] by simp
  qed
  have "filter (\<lambda>e. key (xs ! i) < key e) (take (Suc i) xs @ drop (Suc i) xs) = drop (Suc i) xs"
    unfolding filter_append using le gt by (simp add: filter_empty_conv filter_id_conv)
  then show ?thesis by simp
qed

lemma sorted_filter_keys: "sorted_wrt (<) (map key xs) \<Longrightarrow> sorted_wrt (<) (map key (filter P xs))"
  by (induction xs) auto

text \<open>The rows past the last entry of a full page are those that follow it in the list.\<close>

lemma after_last:
  assumes "sorted_wrt (<) (map key rows)" and "0 < n" and "n \<le> length (filter (after key c) rows)"
  shows "filter (after key (Some (key (filter (after key c) rows ! (n - 1))))) rows = drop n (filter (after key c) rows)"
proof -
  let ?xs = "filter (after key c) rows"
  let ?k = "key (?xs ! (n - 1))"
  have mem: "?xs ! (n - 1) \<in> set ?xs" using assms(2,3) by (intro nth_mem) linarith
  have "after key c (?xs ! (n - 1))" using mem by simp
  then have "after key (Some ?k) e \<longleftrightarrow> after key c e \<and> ?k < key e" for e
    by (cases c) (auto simp: after_def)
  then have "filter (after key (Some ?k)) rows = filter (\<lambda>e. ?k < key e) ?xs"
    unfolding filter_filter by (intro filter_cong) simp_all
  also have "\<dots> = drop n ?xs"
    using filter_past_sorted [OF sorted_filter_keys [OF assms(1)], of "n - 1"] assms(2,3) by simp
  finally show ?thesis .
qed

text \<open>
  What a producer of pages promises of a source it can list: the listing is sorted by a unique key,
  and a page of at most \<open>most\<close> rows is the rows past the cursor, with the cursor of \<open>pageOf\<close>.
\<close>

locale keyset_pages =
  fixes fetch :: "'s \<Rightarrow> nat \<Rightarrow> string option \<Rightarrow> 'e page result" and listing :: "'s \<Rightarrow> 'e list option"
    and key :: "'e \<Rightarrow> string" and most :: nat
  assumes listing_sorted: "listing s = Some rows \<Longrightarrow> sorted_wrt (<) (map key rows)"
    and page_spec: "listing s = Some rows \<Longrightarrow> 0 < sz \<Longrightarrow> sz \<le> most \<Longrightarrow>
      fetch s sz c = Inr (pageOf (take sz (filter (after key c) rows)) (int sz) key False)"
begin

lemma walk_from:
  assumes "listing s = Some rows" and "0 < sz" and "sz \<le> most" and "length (filter (after key c) rows) < n * sz"
  shows "walk n (fetch s sz) c = Inr (filter (after key c) rows)"
  using assms(4)
proof (induction n arbitrary: c)
  case (Suc n)
  let ?xs = "filter (after key c) rows"
  note page = page_spec [OF assms(1-3), of c]
  show ?case
  proof (cases "length ?xs < sz")
    case True
    then show ?thesis using page by (simp add: pageOf_def)
  next
    case False
    with assms(2) have ne: "take sz ?xs \<noteq> []" by (cases ?xs) auto
    from ne False assms(2) have last: "last (take sz ?xs) = ?xs ! (sz - 1)" by (simp add: last_conv_nth)
    define k where "k = key (?xs ! (sz - 1))"
    have nxt: "nextCursor (pageOf (take sz ?xs) (int sz) key False) = Some k"
      using False ne last by (simp add: pageOf_def k_def)
    have rest: "filter (after key (Some k)) rows = drop sz ?xs"
      unfolding k_def using False by (intro after_last listing_sorted [OF assms(1)] assms(2)) simp
    have "walk n (fetch s sz) (Some k) = Inr (drop sz ?xs)"
      using Suc.prems False by (subst Suc.IH) (simp_all add: rest)
    then show ?thesis using page nxt by (simp add: pageOf_def)
  qed
qed simp

text \<open>Enough pages are one more than the full ones.\<close>

lemma walk_all:
  assumes "listing s = Some rows" and "0 < sz" and "sz \<le> most" and "length rows div sz < n"
  shows "walk n (fetch s sz) None = Inr rows"
proof -
  have "filter (after key None) rows = rows" by (simp add: after_def [abs_def])
  moreover have "length rows < n * sz" using assms(2,4) by (simp add: div_less_iff_less_mult)
  ultimately show ?thesis using walk_from [OF assms(1-3), of None n] by simp
qed

end

lemma drop_index_sorted:
  assumes "sorted_wrt (<) (map key rows)"
  shows "drop (index_or_end (past True key c) rows) rows = filter (after key (Some c)) rows"
  using assms
proof (induction rows)
  case (Cons r rows)
  show ?case
  proof (cases "c < key r")
    case True
    with Cons.prems have "filter (\<lambda>e. c < key e) rows = rows"
      by (auto simp: filter_id_conv)
    with True show ?thesis by (simp add: index_or_end_def past_def after_def)
  qed (use Cons in \<open>simp_all add: index_or_end_def past_def after_def\<close>)
qed (simp add: index_or_end_def)

lemma drop_after:
  assumes "sorted_wrt (<) (map key rows)"
  shows "drop (case c of None \<Rightarrow> 0 | Some c \<Rightarrow> index_or_end (past True key c) rows) rows = filter (after key c) rows"
  using drop_index_sorted [OF assms] by (cases c) (simp_all add: after_def [abs_def])

lemma listLimitOf_size: "0 < sz \<Longrightarrow> sz \<le> 200 \<Longrightarrow> listLimitOf (Some (Finite (of_nat sz))) = int sz"
  by (auto simp: listLimitOf_def LIST_PAGE_MAX_def)

lemma pageOverFold_sorted:
  assumes "sorted_wrt (<) (map key rows)" and "0 < sz" and "sz \<le> 200"
  shows "pageOverFold rows (Some (Finite (of_nat sz))) c key True = pageOf (take sz (filter (after key c) rows)) (int sz) key False"
  unfolding pageOverFold_def Let_def listLimitOf_size [OF assms(2,3)] nat_int drop_after [OF assms(1)] ..

definition fold_listing :: "('e \<Rightarrow> string) \<Rightarrow> 'e list \<Rightarrow> 'e list option" where
  "fold_listing key rows = (if sorted_wrt (<) (map key rows) then Some rows else None)"

definition fold_fetch :: "('e \<Rightarrow> string) \<Rightarrow> 'e list \<Rightarrow> nat \<Rightarrow> string option \<Rightarrow> 'e page result" where
  "fold_fetch key rows sz c = Inr (pageOverFold rows (Some (Finite (of_nat sz))) c key True)"

interpretation fold: keyset_pages "fold_fetch key" "fold_listing key" key 200 for key
  by unfold_locales (auto simp: fold_fetch_def fold_listing_def pageOverFold_sorted split: if_splits)

section \<open>Pages of what the caller may see\<close>

definition VISIBLE_SCAN_BUDGET :: nat where
  "VISIBLE_SCAN_BUDGET = 2000"

definition VISIBLE_SCAN_BUDGET_MIN :: nat where
  "VISIBLE_SCAN_BUDGET_MIN = VISIBLE_SCAN_BUDGET div 2"

definition VISIBLE_BATCH :: nat where
  "VISIBLE_BATCH = 64"

text \<open>The budget for an accepted random word.\<close>

definition sealedScanBudget :: "nat \<Rightarrow> nat" where
  "sealedScanBudget random =
     VISIBLE_SCAN_BUDGET_MIN + random mod (VISIBLE_SCAN_BUDGET - VISIBLE_SCAN_BUDGET_MIN + 1)"

datatype 'e visible_test = OneByOne "'e \<Rightarrow> bool" | InBatch "'e list \<Rightarrow> bool list"

record continuation =
  co_writable :: "bool option"
  co_open :: "string \<Rightarrow> string result"
  co_seal :: "string \<Rightarrow> bool \<Rightarrow> string option"

record walk_options =
  vo_scanBudget :: "nat option"
  vo_continuation :: "continuation option"
  vo_random :: nat

fun verdict :: "'e visible_test \<Rightarrow> 'e list \<Rightarrow> nat \<Rightarrow> 'e \<Rightarrow> bool" where
  "verdict (OneByOne f) es i e = f e"
| "verdict (InBatch f) es i e = (let decided = f es in i < length decided \<and> decided ! i)"

definition ownCursor :: "'e page \<Rightarrow> nat \<Rightarrow> string option" where
  "ownCursor batch i =
     (case rowCursors batch of
        Some cs \<Rightarrow> if length cs = length (entries batch) then Some (cs ! i)
                   else if i + 1 = length (entries batch) then nextCursor batch else None
      | None \<Rightarrow> if i + 1 = length (entries batch) then nextCursor batch else None)"

text \<open>
  The rows of one batch: left with the page filled and the index of the row that filled it, or right
  with what was kept and how many rows have been read.
\<close>

fun scan_rows ::
  "nat \<Rightarrow> (nat \<Rightarrow> 'e \<Rightarrow> bool) \<Rightarrow> nat \<Rightarrow> 'e list \<Rightarrow> 'e list \<times> nat \<Rightarrow> ('e list \<times> nat) + ('e list \<times> nat)" where
  "scan_rows limit ok i [] (kept, scanned) = Inr (kept, scanned)"
| "scan_rows limit ok i (e # es) (kept, scanned) =
     (if \<not> ok i e then scan_rows limit ok (Suc i) es (kept, scanned + 1)
      else if length kept + 1 < limit then scan_rows limit ok (Suc i) es (kept @ [e], scanned + 1)
      else Inl (kept @ [e], i))"

definition visible_page :: "'e list \<Rightarrow> string option \<Rightarrow> 'e page" where
  "visible_page kept c = \<lparr>entries = kept, nextCursor = c, rowCursors = None\<rparr>"

definition handed_on :: "continuation option \<Rightarrow> string option \<Rightarrow> string option" where
  "handed_on cont position =
     (case (position, cont) of
        (Some (c # cs), Some k) \<Rightarrow> (case co_seal k (c # cs) False of Some s \<Rightarrow> Some s | None \<Rightarrow> position)
      | _ \<Rightarrow> position)"

definition sealed_stop :: "continuation option \<Rightarrow> string \<Rightarrow> string option" where
  "sealed_stop cont c = Option.bind cont (\<lambda>k. co_seal k c True)"

partial_function (option) visible_loop ::
  "(nat \<Rightarrow> string option \<Rightarrow> 'e page result) \<Rightarrow> nat \<Rightarrow> nat \<Rightarrow> nat \<Rightarrow> 'e visible_test \<Rightarrow> continuation option \<Rightarrow>
   string option \<Rightarrow> 'e list \<times> nat \<Rightarrow> 'e page result option" where
  "visible_loop fetch limit sz budget allow cont cursor s =
     (case fetch (min sz (budget - snd s)) cursor of
        Inl er \<Rightarrow> Some (Inl er)
      | Inr batch \<Rightarrow>
          (case scan_rows limit (verdict allow (entries batch)) 0 (entries batch) s of
             Inl (kept, i) \<Rightarrow> Some (Inr (visible_page kept (handed_on cont (ownCursor batch i))))
           | Inr (kept, scanned) \<Rightarrow>
               (case nextCursor batch of
                  None \<Rightarrow> Some (Inr (visible_page kept None))
                | Some c \<Rightarrow>
                    if budget \<le> scanned then Some (Inr (visible_page kept (sealed_stop cont c)))
                    else visible_loop fetch limit sz budget allow cont (Some c) (kept, scanned))))"

definition opened :: "continuation option \<Rightarrow> string option \<Rightarrow> string option result" where
  "opened cont cursor =
     (case (cursor, cont) of
        (Some (c # cs), Some k) \<Rightarrow> bind_r (co_open k (c # cs)) (\<lambda>p. Inr (Some p))
      | _ \<Rightarrow> Inr cursor)"

definition scan_budget :: "walk_options \<Rightarrow> nat" where
  "scan_budget opts =
     (case vo_scanBudget opts of
        Some b \<Rightarrow> b
      | None \<Rightarrow> if vo_continuation opts \<noteq> None \<and> co_writable (the (vo_continuation opts)) \<noteq> Some False
                then sealedScanBudget (vo_random opts) else VISIBLE_SCAN_BUDGET)"

definition pageVisible ::
  "(nat \<Rightarrow> string option \<Rightarrow> 'e page result) \<Rightarrow> js_number option \<Rightarrow> string option \<Rightarrow> 'e visible_test \<Rightarrow> walk_options \<Rightarrow>
   'e page result option" where
  "pageVisible fetch asked cursor allow opts =
     (let limit = nat (listLimitOf asked) in
      case opened (vo_continuation opts) cursor of
        Inl er \<Rightarrow> Some (Inl er)
      | Inr c \<Rightarrow> visible_loop fetch limit (max limit VISIBLE_BATCH) (scan_budget opts) allow (vo_continuation opts) c ([], 0))"

section \<open>What a visible page holds\<close>

lemma scan_rows_short:
  assumes "length kept + length (filter f es) < limit"
  shows "scan_rows limit (\<lambda>_. f) i es (kept, n) = Inr (kept @ filter f es, n + length es)"
  using assms by (induction es arbitrary: i kept n) auto

lemma scan_rows_full:
  assumes "length kept < limit" and "limit \<le> length kept + length (filter f es)"
  shows "\<exists>j < length es. scan_rows limit (\<lambda>_. f) i es (kept, n) = Inl (take limit (kept @ filter f es), i + j) \<and>
    es ! j = last (take limit (kept @ filter f es))"
  using assms
proof (induction es arbitrary: i kept n)
  case (Cons e es)
  show ?case
  proof (cases "f e \<and> limit \<le> length kept + 1")
    case True
    with Cons.prems(1) have "limit = length kept + 1" by linarith
    with True show ?thesis by (intro exI [of _ 0]) simp
  next
    case False
    define kept' where "kept' = (if f e then kept @ [e] else kept)"
    have step: "scan_rows limit (\<lambda>_. f) i (e # es) (kept, n) = scan_rows limit (\<lambda>_. f) (Suc i) es (kept', n + 1)"
      using False by (auto simp: kept'_def)
    have all: "kept @ filter f (e # es) = kept' @ filter f es" by (simp add: kept'_def)
    have "length kept' < limit" "limit \<le> length kept' + length (filter f es)"
      using Cons.prems False by (auto simp: kept'_def)
    from Cons.IH [OF this, of "Suc i" "n + 1"] obtain j where "j < length es"
      "scan_rows limit (\<lambda>_. f) (Suc i) es (kept', n + 1) = Inl (take limit (kept' @ filter f es), Suc i + j)"
      "es ! j = last (take limit (kept' @ filter f es))" by blast
    then show ?thesis unfolding step all by (intro exI [of _ "Suc j"]) simp
  qed
qed simp

text \<open>A fetch over a sorted list that answers each row's own cursor.\<close>

definition keyset_fetch :: "'e list \<Rightarrow> ('e \<Rightarrow> string) \<Rightarrow> nat \<Rightarrow> string option \<Rightarrow> 'e page result" where
  "keyset_fetch rows key n c = Inr (pageOf (take n (filter (after key c) rows)) (int n) key True)"

text \<open>What the walk answers over the rows left after the cursor, with \<open>budget\<close> of them to read.\<close>

definition visible_result ::
  "continuation option \<Rightarrow> nat \<Rightarrow> nat \<Rightarrow> ('e \<Rightarrow> string) \<Rightarrow> 'e list \<Rightarrow> 'e list \<Rightarrow> 'e page" where
  "visible_result cont limit budget key rest found =
     visible_page (take limit found)
       (if limit \<le> length found then handed_on cont (Some (key (last (take limit found))))
        else if budget \<le> length rest then sealed_stop cont (key (rest ! (budget - 1))) else None)"

text \<open>A test, of one row or of a whole batch, whose verdict on a row is that of a predicate.\<close>

definition decides :: "'e visible_test \<Rightarrow> ('e \<Rightarrow> bool) \<Rightarrow> bool" where
  "decides allow f \<longleftrightarrow> (\<forall>es i. i < length es \<longrightarrow> verdict allow es i (es ! i) = f (es ! i))"

lemma decides_one_or_batch [simp]: "decides (OneByOne f) f" "decides (InBatch (map f)) f"
  by (simp_all add: decides_def)

lemma scan_rows_decided:
  assumes "\<And>j. j < length es \<Longrightarrow> ok (i + j) (es ! j) = f (es ! j)"
  shows "scan_rows limit ok i es s = scan_rows limit (\<lambda>_. f) i es s"
  using assms
proof (induction es arbitrary: i s)
  case (Cons e es)
  obtain kept n where s: "s = (kept, n)" by (cases s)
  have "ok i e = f e" using Cons.prems [of 0] by simp
  moreover have "scan_rows limit ok (Suc i) es t = scan_rows limit (\<lambda>_. f) (Suc i) es t" for t
    using Cons.prems [of "Suc j" for j] by (intro Cons.IH) simp
  ultimately show ?case unfolding s by simp
next
  case Nil
  then show ?case by (cases s) simp
qed

lemma decides_scan: "decides allow f \<Longrightarrow> scan_rows limit (verdict allow es) 0 es s = scan_rows limit (\<lambda>_. f) 0 es s"
  by (rule scan_rows_decided) (simp add: decides_def)

lemma take_split: "m \<le> b \<Longrightarrow> take m xs @ take (b - m) (drop m xs) = take b xs"
  by (metis le_add_diff_inverse take_add)

lemma visible_loop_keyset:
  assumes "sorted_wrt (<) (map key rows)" and "decides allow f" and "0 < sz" and "length kept < limit" and "n < budget"
  shows "visible_loop (keyset_fetch rows key) limit sz budget allow cont c (kept, n) =
    Some (Inr (visible_result cont limit (budget - n) key (filter (after key c) rows)
      (kept @ filter f (take (budget - n) (filter (after key c) rows)))))"
  using assms(4,5)
proof (induction "length (filter (after key c) rows)" arbitrary: c kept n rule: less_induct)
  case less
  let ?R = "filter (after key c) rows"
  define m where "m = min sz (budget - n)"
  have m: "0 < m" "m \<le> budget - n" using assms(3) less.prems(2) by (auto simp: m_def)
  define batch where "batch = pageOf (take m ?R) (int m) key True"
  have es: "entries batch = take m ?R" "rowCursors batch = Some (map key (take m ?R))" by (simp_all add: batch_def pageOf_def)
  have loop: "visible_loop (keyset_fetch rows key) limit sz budget allow cont c (kept, n) =
      (case scan_rows limit (\<lambda>_. f) 0 (take m ?R) (kept, n) of
         Inl (kept', i) \<Rightarrow> Some (Inr (visible_page kept' (handed_on cont (ownCursor batch i))))
       | Inr (kept', scanned) \<Rightarrow>
           (case nextCursor batch of
              None \<Rightarrow> Some (Inr (visible_page kept' None))
            | Some c' \<Rightarrow> if budget \<le> scanned then Some (Inr (visible_page kept' (sealed_stop cont c')))
                else visible_loop (keyset_fetch rows key) limit sz budget allow cont (Some c') (kept', scanned)))"
    by (subst visible_loop.simps)
      (simp add: keyset_fetch_def m_def [symmetric] batch_def [symmetric] es(1) decides_scan [OF assms(2)])
  show ?case
  proof (cases "length kept + length (filter f (take m ?R)) < limit")
    case False
    then obtain j where j: "j < length (take m ?R)"
      "scan_rows limit (\<lambda>_. f) 0 (take m ?R) (kept, n) = Inl (take limit (kept @ filter f (take m ?R)), 0 + j)"
      "take m ?R ! j = last (take limit (kept @ filter f (take m ?R)))"
      using scan_rows_full [OF less.prems(1), of f "take m ?R" 0 n] by auto
    have more: "kept @ filter f (take (budget - n) ?R) =
        (kept @ filter f (take m ?R)) @ filter f (take (budget - n - m) (drop m ?R))"
      using take_split [OF m(2), of ?R] by (metis append.assoc filter_append)
    have same: "take limit (kept @ filter f (take (budget - n) ?R)) = take limit (kept @ filter f (take m ?R))"
      unfolding more using False by simp
    have enough: "limit \<le> length (kept @ filter f (take (budget - n) ?R))" unfolding more using False by simp
    have "ownCursor batch j = Some (key (take m ?R ! j))" using j(1) by (simp add: ownCursor_def es)
    then show ?thesis unfolding loop j(2) visible_result_def same using enough j(3) by simp
  next
    case True
    note short = scan_rows_short [OF True, of 0 n]
    show ?thesis
    proof (cases "m \<le> length ?R")
      case False
      then have "nextCursor batch = None" "take (budget - n) ?R = ?R" "take m ?R = ?R" "\<not> budget - n \<le> length ?R"
        using m by (auto simp: batch_def pageOf_def)
      then show ?thesis unfolding loop short visible_result_def using True by simp
    next
      case full: True
      define k where "k = key (?R ! (m - 1))"
      have "take m ?R \<noteq> []" using full m(1) by auto
      then have nxt: "nextCursor batch = Some k"
        using full m(1) by (simp add: batch_def pageOf_def k_def last_conv_nth)
      have rest: "filter (after key (Some k)) rows = drop m ?R"
        unfolding k_def using assms(1) m(1) full by (rule after_last)
      show ?thesis
      proof (cases "budget \<le> n + length (take m ?R)")
        case True
        then have "m = budget - n" "budget \<le> n + (budget - n)" using full m(2) by simp_all
        with True nxt full \<open>length kept + length (filter f (take m ?R)) < limit\<close> show ?thesis
          unfolding loop short visible_result_def k_def by simp
      next
        case go: False
        then have scanned: "n + length (take m ?R) = n + m" "n + m < budget" using full by simp_all
        let ?found = "kept @ filter f (take (budget - n) ?R)"
        have "length (filter (after key (Some k)) rows) < length ?R" unfolding rest using full m(1) by simp
        then have "visible_loop (keyset_fetch rows key) limit sz budget allow cont (Some k) (kept @ filter f (take m ?R), n + m) =
          Some (Inr (visible_result cont limit (budget - (n + m)) key (drop m ?R)
            ((kept @ filter f (take m ?R)) @ filter f (take (budget - (n + m)) (drop m ?R)))))"
          using less.hyps [of "Some k" "kept @ filter f (take m ?R)" "n + m"] True scanned(2) rest by simp
        moreover have "(kept @ filter f (take m ?R)) @ filter f (take (budget - (n + m)) (drop m ?R)) = ?found"
          using take_split [OF m(2), of ?R] by (metis append.assoc diff_diff_left filter_append)
        moreover have "visible_result cont limit (budget - (n + m)) key (drop m ?R) ?found =
            visible_result cont limit (budget - n) key ?R ?found"
        proof -
          have "budget - (n + m) \<le> length (drop m ?R) \<longleftrightarrow> budget - n \<le> length ?R" using full scanned(2) by simp linarith
          moreover have "drop m ?R ! (budget - (n + m) - 1) = ?R ! (budget - n - 1)" using full scanned(2) by simp
          ultimately show ?thesis unfolding visible_result_def by simp
        qed
        ultimately show ?thesis unfolding loop short using nxt go scanned by simp
      qed
    qed
  qed
qed

lemma listLimitOf_range: "1 \<le> listLimitOf asked \<and> listLimitOf asked \<le> 200"
proof (cases asked)
  case (Some x)
  then show ?thesis
    by (cases x) (auto simp: listLimitOf_def LIST_PAGE_DEFAULT_def LIST_PAGE_MAX_def le_floor_iff)
qed (simp add: listLimitOf_def LIST_PAGE_DEFAULT_def)

section \<open>Properties\<close>

text \<open>
  Following the cursors of a folded list, sorted by a unique key, yields every row exactly once
  and in order, for every page size a caller may ask for, in one page more than the full ones.
\<close>

theorem fold_walk_complete:
  assumes "sorted_wrt (<) (map key rows)" and "0 < sz" and "sz \<le> 200" and "length rows div sz < n"
  shows "walk n (\<lambda>c. Inr (pageOverFold rows (Some (Finite (of_nat sz))) c key True)) None = Inr rows"
  using fold.walk_all [of key rows rows, OF _ assms(2-4)] assms(1) by (simp add: fold_fetch_def [abs_def] fold_listing_def)

theorem fold_walk_complete_witness:
  "walk 3 (\<lambda>c. Inr (pageOverFold [''a'', ''b'', ''c'', ''d'', ''e''] (Some (Finite (of_nat 2))) c (\<lambda>s. s) True)) None =
     Inr [''a'', ''b'', ''c'', ''d'', ''e'']"
proof -
  have "sorted_wrt (<) (map (\<lambda>s. s) [''a'', ''b'', ''c'', ''d'', ''e''])" by code_simp
  from fold_walk_complete [OF this, of 2 3] show ?thesis by simp
qed

text \<open>
  C32. A page of what the caller may see, over a keyset list, for a test of one row or of a whole batch
  that decides a predicate of the row, with or without a continuation codec: where the cursor opens,
  the walk returns.  The page holds the first visible rows after the cursor among those the budget lets
  it read, as many as a page takes, and no cursor of a row beside them.  A full page hands on, sealed
  where there is a codec, the position of its own last row; a page that is not full, stopped by the
  budget, hands on nothing but what the codec seals as hidden, so nothing at all without a codec; and
  the end of the list is the end of the walk.
\<close>

theorem visible_page_exact:
  assumes "sorted_wrt (<) (map key rows)" and "decides allow f" and "opened (vo_continuation opts) cursor = Inr c"
    and "0 < scan_budget opts"
  shows "let rest = filter (after key c) rows in
    \<exists>pg. pageVisible (keyset_fetch rows key) asked cursor allow opts = Some (Inr pg) \<and> rowCursors pg = None \<and>
    entries pg = take (nat (listLimitOf asked)) (filter f (take (scan_budget opts) rest)) \<and>
    nextCursor pg =
      (if listLimitOf asked \<le> int (length (filter f (take (scan_budget opts) rest)))
       then handed_on (vo_continuation opts) (Some (key (last (entries pg))))
       else if scan_budget opts \<le> length rest
       then Option.bind (vo_continuation opts) (\<lambda>k. co_seal k (key (rest ! (scan_budget opts - 1))) True) else None)"
proof -
  let ?L = "nat (listLimitOf asked)" and ?R = "filter (after key c) rows"
  have L: "0 < ?L" using listLimitOf_range [of asked] by linarith
  have "pageVisible (keyset_fetch rows key) asked cursor allow opts =
      visible_loop (keyset_fetch rows key) ?L (max ?L VISIBLE_BATCH) (scan_budget opts) allow (vo_continuation opts) c ([], 0)"
    by (simp add: pageVisible_def Let_def assms(3))
  also have "\<dots> = Some (Inr (visible_result (vo_continuation opts) ?L (scan_budget opts - 0) key ?R
      ([] @ filter f (take (scan_budget opts - 0) ?R))))"
    by (rule visible_loop_keyset) (use assms L in auto)
  finally show ?thesis
    by (auto simp: visible_result_def visible_page_def sealed_stop_def nat_le_iff Let_def)
qed

theorem visible_page_exact_witness:
  "\<exists>pg. pageVisible (keyset_fetch [''a'', ''b'', ''c'', ''d'', ''e''] (\<lambda>s. s)) (Some (Finite 2)) (Some ''+a'')
      (InBatch (map (\<lambda>s. s \<noteq> ''c'')))
      \<lparr>vo_scanBudget = None,
       vo_continuation = Some \<lparr>co_writable = Some True, co_open = (\<lambda>c. Inr (tl c)),
         co_seal = (\<lambda>p hidden. Some ((if hidden then CHR ''-'' else CHR ''+'') # p))\<rparr>, vo_random = 0\<rparr> = Some (Inr pg) \<and>
    entries pg = [''b'', ''d''] \<and> nextCursor pg = Some ''+d''"
proof -
  let ?k = "\<lparr>co_writable = Some True, co_open = (\<lambda>c. Inr (tl c)),
      co_seal = (\<lambda>p hidden. Some ((if hidden then CHR ''-'' else CHR ''+'') # p))\<rparr>"
  let ?o = "\<lparr>vo_scanBudget = None, vo_continuation = Some ?k, vo_random = 0\<rparr>"
  let ?rows = "[''a'', ''b'', ''c'', ''d'', ''e'']" and ?f = "\<lambda>s. s \<noteq> ''c''"
  have sorted: "sorted_wrt (<) (map (\<lambda>s. s) ?rows)" by code_simp
  have opens: "opened (vo_continuation ?o) (Some ''+a'') = Inr (Some ''a'')" by (simp add: opened_def)
  have budget: "scan_budget ?o = 1000"
    by (simp add: scan_budget_def sealedScanBudget_def VISIBLE_SCAN_BUDGET_MIN_def VISIBLE_SCAN_BUDGET_def)
  then have "0 < scan_budget ?o" by simp
  moreover have two: "listLimitOf (Some (Finite 2)) = 2" by (simp add: listLimitOf_def LIST_PAGE_MAX_def)
  moreover have rest: "filter (after (\<lambda>s. s) (Some ''a'')) ?rows = [''b'', ''c'', ''d'', ''e'']" by code_simp
  moreover have "filter ?f (take 1000 [''b'', ''c'', ''d'', ''e'']) = [''b'', ''d'', ''e'']" by code_simp
  ultimately obtain pg where pg: "pageVisible (keyset_fetch ?rows (\<lambda>s. s)) (Some (Finite 2)) (Some ''+a'') (InBatch (map ?f)) ?o = Some (Inr pg)"
    "entries pg = take (nat 2) [''b'', ''d'', ''e'']" "nextCursor pg = handed_on (Some ?k) (Some (last (entries pg)))"
    using visible_page_exact [OF sorted decides_one_or_batch(2) [of ?f] opens, of "Some (Finite 2)"]
    unfolding Let_def budget rest by auto
  moreover have "entries pg = [''b'', ''d'']" unfolding pg(2) by simp
  ultimately show ?thesis unfolding handed_on_def by (intro exI conjI) simp_all
qed

end
