(* ===== verification/Booking_Calendar.thy ===== *)
theory Booking_Calendar
  imports Booking Pagination
begin

text \<open>
  The reads of the reservation engine (\<open>engines/booking/src/index.ts\<close>): the two lists of
  reservations, free capacity as a sweep over interval boundaries, and the pages cut from them.

  It shows that the sweep answers exactly the free capacity of every instant, that the pages of the
  list and of the sweep are keyset pages (interpretations \<open>reservations\<close> and \<open>free\<close> of
  \<open>keyset_pages\<close>), and where a hold disagrees with the sweep.
\<close>

section \<open>Lists of reservations\<close>

record list_input =
  li_resourceId :: "string option"
  li_from :: "string option"
  li_to :: "string option"
  li_now :: "string option"
  li_limit :: "int option"
  li_cursor :: "string option"

definition if_truthy :: "(string \<Rightarrow> 'b result) \<Rightarrow> string option \<Rightarrow> 'b option result" where
  "if_truthy f x = (if truthy x then bind_r (f (the x)) (\<lambda>y. Inr (Some y)) else Inr None)"

definition list_clauses :: "date_lib \<Rightarrow> list_input \<Rightarrow> (reservation_row \<Rightarrow> bool) result" where
  "list_clauses d input =
     bind_r (if_truthy (toInstant d) (li_to input)) (\<lambda>to.
     bind_r (if_truthy (toInstant d) (li_from input)) (\<lambda>from.
       Inr (\<lambda>r. (truthy (li_resourceId input) \<longrightarrow> Some (r_resource_id r) = li_resourceId input) \<and>
                if_given (\<lambda>u. r_starts_at r < u) to \<and> if_given (\<lambda>u. u < r_ends_at r) from)))"

text \<open>\<open>LIMIT ?\<close>: a negative limit is none.\<close>

definition sql_limit :: "int \<Rightarrow> 'r list \<Rightarrow> 'r list" where
  "sql_limit n rows = (if n < 0 then rows else take (nat n) rows)"

definition listReservationsPage ::
  "op_ctx \<Rightarrow> date_lib \<Rightarrow> list_input \<Rightarrow> 'a bk_store_scheme \<Rightarrow> reservation page result" where
  "listReservationsPage cx d input st =
     bind_r (list_clauses d input) (\<lambda>sel.
     let limit = min (or_else (li_limit input) LIST_PAGE_DEFAULT) LIST_PAGE_MAX in
     bind_r (nowOr cx d (li_now input)) (\<lambda>now.
     let rows = sql_limit limit (sort_key r_id
           (filter (\<lambda>r. sel r \<and> (truthy (li_cursor input) \<longrightarrow> the (li_cursor input) < r_id r)) (bk_reservations st))) in
     bind_r (traverse (\<lambda>r. toReservation r now) rows) (\<lambda>vs. Inr (pageOf vs limit v_id False))))"

text \<open>\<open>ORDER BY starts_at, id\<close>; the sorts are stable.\<close>

definition listReservations ::
  "op_ctx \<Rightarrow> date_lib \<Rightarrow> list_input \<Rightarrow> 'a bk_store_scheme \<Rightarrow> reservation list result" where
  "listReservations cx d input st =
     bind_r (list_clauses d input) (\<lambda>sel.
     bind_r (nowOr cx d (li_now input)) (\<lambda>now.
       traverse (\<lambda>r. toReservation r now) (sort_key r_starts_at (sort_key r_id (filter sel (bk_reservations st))))))"

definition listResources :: "string option \<Rightarrow> 'a bk_store_scheme \<Rightarrow> resource list" where
  "listResources kind st =
     map toResource (sort_key rs_name (filter (\<lambda>r. truthy kind \<longrightarrow> Some (rs_kind r) = kind) (bk_resources st)))"

definition listOp where
  "listOp cx d input st =
     bind_r (require cx ''booking:read'' None st) (\<lambda>st1.
     bind_r (listReservationsPage cx d (input\<lparr>li_now := None\<rparr>) st1) (\<lambda>pg. Inr (pg, st1)))"

section \<open>Free capacity\<close>

record free_interval =
  fi_startsAt :: string
  fi_endsAt :: string
  fi_available :: int

text \<open>The boundaries of the sweep: the window's ends and every start and end strictly inside it.\<close>

definition edges :: "string \<Rightarrow> string \<Rightarrow> reservation_row list \<Rightarrow> string list" where
  "edges from to busy =
     sort (remdups ([from, to] @ concat (map (\<lambda>r.
       (if from < r_starts_at r \<and> r_starts_at r < to then [r_starts_at r] else []) @
       (if from < r_ends_at r \<and> r_ends_at r < to then [r_ends_at r] else [])) busy)))"

definition push_segment :: "int \<Rightarrow> reservation_row list \<Rightarrow> string \<Rightarrow> string \<Rightarrow> free_interval list \<Rightarrow> free_interval list" where
  "push_segment cap busy a b segs =
     (let allocated = sum_list (map r_quantity (filter (\<lambda>r. r_starts_at r < b \<and> a < r_ends_at r) busy));
          free = cap - allocated in
      if free \<le> 0 then segs
      else if segs \<noteq> [] \<and> fi_endsAt (last segs) = a \<and> fi_available (last segs) = free
      then butlast segs @ [(last segs)\<lparr>fi_endsAt := b\<rparr>]
      else segs @ [\<lparr>fi_startsAt = a, fi_endsAt = b, fi_available = free\<rparr>])"

fun sweep :: "int \<Rightarrow> reservation_row list \<Rightarrow> string list \<Rightarrow> free_interval list \<Rightarrow> free_interval list" where
  "sweep cap busy (a # b # ps) segs = sweep cap busy (b # ps) (push_segment cap busy a b segs)"
| "sweep cap busy _ segs = segs"

definition availability ::
  "op_ctx \<Rightarrow> date_lib \<Rightarrow> string \<Rightarrow> string \<Rightarrow> string \<Rightarrow> string option \<Rightarrow> 'a bk_store_scheme \<Rightarrow> free_interval list result" where
  "availability cx d resourceId askFrom askTo given st =
     bind_r (toInstant d askFrom) (\<lambda>from.
     bind_r (toInstant d askTo) (\<lambda>to.
     if to \<le> from then Inr []
     else
       bind_r (nowOr cx d given) (\<lambda>now.
       bind_r (getResourceRow resourceId st) (\<lambda>resource.
       if rs_active resource \<noteq> 1 then Inr []
       else
         (let busy = overlapping (rs_id resource) from to now st in
          Inr (sweep (rs_capacity resource) busy (edges from to busy) []))))))"

text \<open>\<open>slice(from, to)\<close>: a negative end counts from the end of the array.\<close>

definition js_slice :: "nat \<Rightarrow> int \<Rightarrow> 'e list \<Rightarrow> 'e list" where
  "js_slice a b xs = drop a (take (nat (if b < 0 then b + int (length xs) else b)) xs)"

definition availabilityPage ::
  "op_ctx \<Rightarrow> date_lib \<Rightarrow> string \<Rightarrow> string \<Rightarrow> string \<Rightarrow> string option \<Rightarrow> int option \<Rightarrow> string option \<Rightarrow> 'a bk_store_scheme \<Rightarrow>
   free_interval page result" where
  "availabilityPage cx d resourceId askFrom askTo given asked cursor st =
     bind_r (availability cx d resourceId askFrom askTo given st) (\<lambda>all.
     let limit = min (or_else asked LIST_PAGE_DEFAULT) LIST_PAGE_MAX;
         start = (case cursor of None \<Rightarrow> 0 | Some c \<Rightarrow> index_or_end (past True fi_startsAt c) all) in
     Inr (pageOf (js_slice start (int start + limit) all) limit fi_startsAt False))"

definition availabilityOp where
  "availabilityOp cx d resourceId askFrom askTo asked cursor st =
     bind_r (require cx ''booking:read'' None st) (\<lambda>st1.
     bind_r (availabilityPage cx d resourceId askFrom askTo None asked cursor st1) (\<lambda>pg. Inr (pg, st1)))"

section \<open>The sweep answers the free capacity of every instant\<close>

definition spans :: "string \<Rightarrow> free_interval \<Rightarrow> bool" where
  "spans u s \<longleftrightarrow> fi_startsAt s \<le> u \<and> u < fi_endsAt s"

definition free_at :: "int \<Rightarrow> reservation_row list \<Rightarrow> string \<Rightarrow> int" where
  "free_at cap busy u = cap - sum_list (map r_quantity (filter (\<lambda>r. r_starts_at r \<le> u \<and> u < r_ends_at r) busy))"

text \<open>
  Segments in order and without overlap, none empty, none that its neighbour could have absorbed.
\<close>

definition segments_ok :: "string \<Rightarrow> string \<Rightarrow> free_interval list \<Rightarrow> bool" where
  "segments_ok from to segs \<longleftrightarrow>
     sorted_wrt (\<lambda>x y. fi_endsAt x \<le> fi_startsAt y) segs \<and>
     successively (\<lambda>x y. \<not> (fi_endsAt x = fi_startsAt y \<and> fi_available x = fi_available y)) segs \<and>
     list_all (\<lambda>s. from \<le> fi_startsAt s \<and> fi_startsAt s < fi_endsAt s \<and> fi_endsAt s \<le> to \<and> 0 < fi_available s) segs"

definition answers :: "(string \<Rightarrow> int) \<Rightarrow> string \<Rightarrow> string \<Rightarrow> free_interval list \<Rightarrow> bool" where
  "answers f from to segs \<longleftrightarrow>
     (\<forall>u. from \<le> u \<and> u < to \<longrightarrow> map fi_available (filter (spans u) segs) = (if 0 < f u then [f u] else []))"

lemma uncovered_past:
  assumes "list_all (\<lambda>s. fi_endsAt s \<le> a) segs" and "a \<le> u"
  shows "filter (spans u) segs = []"
  using assms by (induction segs) (auto simp: spans_def)

lemma segments_okD:
  assumes "segments_ok from to segs"
  shows "sorted_wrt (\<lambda>x y. fi_endsAt x \<le> fi_startsAt y) segs"
    and "s \<in> set segs \<Longrightarrow> from \<le> fi_startsAt s \<and> fi_startsAt s < fi_endsAt s \<and> fi_endsAt s \<le> to \<and> 0 < fi_available s"
  using assms by (auto simp: segments_ok_def list_all_iff)

lemma answers_uncovered:
  assumes "segments_ok from a segs" and "answers f from a segs" and "a < b"
    and "\<And>u. a \<le> u \<Longrightarrow> u < b \<Longrightarrow> f u \<le> 0"
  shows "answers f from b segs"
  unfolding answers_def
proof (intro allI impI, elim conjE)
  fix u assume u: "from \<le> u" "u < b"
  show "map fi_available (filter (spans u) segs) = (if 0 < f u then [f u] else [])"
  proof (cases "u < a")
    case True
    with u assms(2) show ?thesis by (simp add: answers_def)
  next
    case False
    have "list_all (\<lambda>s. fi_endsAt s \<le> a) segs" using segments_okD(2) [OF assms(1)] by (auto simp: list_all_iff)
    with False have "filter (spans u) segs = []" by (intro uncovered_past) auto
    moreover have "f u \<le> 0" using assms(4) [of u] u False by simp
    ultimately show ?thesis by simp
  qed
qed

lemma answers_pushed:
  assumes "segments_ok from a segs" and "answers f from a segs" and "a < b"
    and "\<And>u. a \<le> u \<Longrightarrow> u < b \<Longrightarrow> f u = v" and "0 < v"
  shows "answers f from b (segs @ [\<lparr>fi_startsAt = a, fi_endsAt = b, fi_available = v\<rparr>])"
  unfolding answers_def
proof (intro allI impI, elim conjE)
  fix u assume u: "from \<le> u" "u < b"
  show "map fi_available (filter (spans u) (segs @ [\<lparr>fi_startsAt = a, fi_endsAt = b, fi_available = v\<rparr>])) =
      (if 0 < f u then [f u] else [])"
  proof (cases "u < a")
    case True
    with u assms(2) show ?thesis by (simp add: answers_def spans_def)
  next
    case False
    have "list_all (\<lambda>s. fi_endsAt s \<le> a) segs" using segments_okD(2) [OF assms(1)] by (auto simp: list_all_iff)
    with False have "filter (spans u) segs = []" by (intro uncovered_past) auto
    moreover have "f u = v" using assms(4) [of u] u False by simp
    ultimately show ?thesis using assms(5) u False by (simp add: spans_def)
  qed
qed

text \<open>Merging the pushed segment into its neighbour spans the same instants with the same answer.\<close>

lemma spans_merged:
  assumes "fi_startsAt s < fi_endsAt s" and "fi_endsAt s < b"
  shows "map fi_available (filter (spans u) [s\<lparr>fi_endsAt := b\<rparr>]) =
    map fi_available (filter (spans u) [s, \<lparr>fi_startsAt = fi_endsAt s, fi_endsAt = b, fi_available = fi_available s\<rparr>])"
  using assms by (auto simp: spans_def)

lemma push_segment_ok:
  assumes "segments_ok from a segs" and "from \<le> a" and "a < b"
  shows "segments_ok from b (push_segment cap busy a b segs)"
proof -
  have keep: "segments_ok from b segs"
    using assms by (auto simp: segments_ok_def list_all_iff)
  show ?thesis
  proof (cases segs rule: rev_cases)
    case Nil
    with assms show ?thesis by (simp add: push_segment_def Let_def segments_ok_def)
  next
    case (snoc init s)
    with assms keep show ?thesis
      by (auto simp: push_segment_def Let_def segments_ok_def sorted_wrt_append successively_append_iff list_all_iff
          dest: order.strict_trans1)
  qed
qed

lemma push_segment_answers:
  assumes "segments_ok from a segs" and "answers f from a segs" and "a < b"
    and "\<And>u. a \<le> u \<Longrightarrow> u < b \<Longrightarrow> f u = cap - sum_list (map r_quantity (filter (\<lambda>r. r_starts_at r < b \<and> a < r_ends_at r) busy))"
  shows "answers f from b (push_segment cap busy a b segs)"
proof -
  define v where "v = cap - sum_list (map r_quantity (filter (\<lambda>r. r_starts_at r < b \<and> a < r_ends_at r) busy))"
  note f = assms(4) [folded v_def]
  have push: "push_segment cap busy a b segs =
      (if v \<le> 0 then segs
       else if segs \<noteq> [] \<and> fi_endsAt (last segs) = a \<and> fi_available (last segs) = v
       then butlast segs @ [(last segs)\<lparr>fi_endsAt := b\<rparr>] else segs @ [\<lparr>fi_startsAt = a, fi_endsAt = b, fi_available = v\<rparr>])"
    by (simp add: push_segment_def v_def Let_def)
  show ?thesis
  proof (cases "v \<le> 0")
    case True
    with answers_uncovered [OF assms(1-3)] f show ?thesis by (simp add: push)
  next
    case False
    then have pushed: "answers f from b (segs @ [\<lparr>fi_startsAt = a, fi_endsAt = b, fi_available = v\<rparr>])"
      using answers_pushed [OF assms(1-3)] f by simp
    show ?thesis
    proof (cases "segs \<noteq> [] \<and> fi_endsAt (last segs) = a \<and> fi_available (last segs) = v")
      case True
      then obtain init s where s: "segs = init @ [s]" "fi_endsAt s = a" "fi_available s = v" by (cases segs rule: rev_cases) auto
      have "fi_startsAt s < fi_endsAt s" using segments_okD(2) [OF assms(1), of s] s(1) by simp
      then have "map fi_available (filter (spans u) (init @ [s\<lparr>fi_endsAt := b\<rparr>])) =
          map fi_available (filter (spans u) (segs @ [\<lparr>fi_startsAt = a, fi_endsAt = b, fi_available = v\<rparr>]))" for u
        using spans_merged [of s b u] s assms(3) by (simp only: filter_append map_append append_assoc append.simps)
      moreover have "push_segment cap busy a b segs = init @ [s\<lparr>fi_endsAt := b\<rparr>]"
        unfolding push using s False by simp
      ultimately show ?thesis using pushed by (simp only: answers_def)
    qed (use pushed False in \<open>auto simp: push\<close>)
  qed
qed

text \<open>Between two consecutive boundaries no reservation starts or ends.\<close>

lemma free_between:
  assumes "a \<le> u" and "u < b"
    and "\<And>r. r \<in> set busy \<Longrightarrow> \<not> (a < r_starts_at r \<and> r_starts_at r < b) \<and> \<not> (a < r_ends_at r \<and> r_ends_at r < b)"
  shows "free_at cap busy u = cap - sum_list (map r_quantity (filter (\<lambda>r. r_starts_at r < b \<and> a < r_ends_at r) busy))"
proof -
  have "filter (\<lambda>r. r_starts_at r \<le> u \<and> u < r_ends_at r) busy = filter (\<lambda>r. r_starts_at r < b \<and> a < r_ends_at r) busy"
    using assms by (intro filter_cong refl) force
  then show ?thesis by (simp add: free_at_def)
qed

lemma sweep_correct:
  assumes "sorted_wrt (<) ps" and "ps \<noteq> []" and "from \<le> hd ps"
    and "\<And>r. r \<in> set busy \<Longrightarrow> {x \<in> {r_starts_at r, r_ends_at r}. hd ps < x \<and> x < last ps} \<subseteq> set ps"
    and "segments_ok from (hd ps) segs" and "answers (free_at cap busy) from (hd ps) segs"
  shows "segments_ok from (last ps) (sweep cap busy ps segs) \<and> answers (free_at cap busy) from (last ps) (sweep cap busy ps segs)"
  using assms
proof (induction cap busy ps segs rule: sweep.induct)
  case (1 cap busy a b ps segs)
  have ab: "a < b" "b \<le> last (b # ps)" using "1.prems"(1) by (auto simp: less_imp_le)
  have none: "\<not> (a < x \<and> x < b)" if "r \<in> set busy" "x \<in> {r_starts_at r, r_ends_at r}" for r x
  proof
    assume x: "a < x \<and> x < b"
    with ab have "x < last (b # ps)" by (meson order.strict_trans2)
    with that x "1.prems"(4) have "x \<in> set (a # b # ps)" by auto
    with x "1.prems"(1) show False by (auto dest: order.asym)
  qed
  have flat: "free_at cap busy u = cap - sum_list (map r_quantity (filter (\<lambda>r. r_starts_at r < b \<and> a < r_ends_at r) busy))"
    if "a \<le> u" "u < b" for u
    using that none by (intro free_between) auto
  have sub: "{x \<in> {r_starts_at r, r_ends_at r}. hd (b # ps) < x \<and> x < last (b # ps)} \<subseteq> set (b # ps)" if "r \<in> set busy" for r
    using "1.prems"(4) [OF that] ab(1) by (auto dest: order.strict_trans)
  have "segments_ok from b (push_segment cap busy a b segs)" "answers (free_at cap busy) from b (push_segment cap busy a b segs)"
    using "1.prems" ab(1) flat by (auto intro: push_segment_ok push_segment_answers)
  then show ?case using "1.IH" "1.prems"(1,3) ab(1) sub by simp
qed auto

lemma edges_facts:
  assumes "from < to"
  shows "sorted_wrt (<) (edges from to busy)" and "hd (edges from to busy) = from" and "last (edges from to busy) = to"
    and "edges from to busy \<noteq> []"
    and "r \<in> set busy \<Longrightarrow> {x \<in> {r_starts_at r, r_ends_at r}. from < x \<and> x < to} \<subseteq> set (edges from to busy)"
proof -
  let ?E = "edges from to busy"
  have mem: "x \<in> set ?E \<longleftrightarrow> x = from \<or> x = to \<or> from < x \<and> x < to \<and> (\<exists>r \<in> set busy. x = r_starts_at r \<or> x = r_ends_at r)" for x
    unfolding edges_def by (simp, fastforce split: if_splits)
  have sorted: "sorted ?E" "distinct ?E" by (simp_all add: edges_def)
  then show "sorted_wrt (<) ?E" by (simp add: strict_sorted_iff)
  have ends: "from \<in> set ?E" "to \<in> set ?E" by (simp_all add: mem)
  then show ne: "?E \<noteq> []" by (metis list.set(1) empty_iff)
  have bounds: "from \<le> x" "x \<le> to" if "x \<in> set ?E" for x
    using that assms less_imp_le [of "from" x] less_imp_le [of x to] unfolding mem by auto
  show "hd ?E = from"
    using sorted(1) ne ends(1) bounds(1) [of "hd ?E"] by (cases ?E) (auto intro: antisym)
  show "last ?E = to"
    using sorted(1) ne ends(2) bounds(2) [of "last ?E"] by (cases ?E rule: rev_cases) (auto simp: sorted_append intro: antisym)
  show "{x \<in> {r_starts_at r, r_ends_at r}. from < x \<and> x < to} \<subseteq> set ?E" if "r \<in> set busy"
    using that by (auto simp: mem)
qed

lemma free_at_load:
  assumes "from \<le> u" and "u < to"
  shows "free_at cap (overlapping rid from to now st) u = cap - load now u rid (bk_reservations st)"
proof -
  have "filter (\<lambda>r. r_starts_at r \<le> u \<and> u < r_ends_at r) (overlapping rid from to now st) =
      filter (counted now u rid) (bk_reservations st)"
    using assms unfolding overlapping_def filter_filter by (intro filter_cong refl) (auto simp: counted_def)
  then show ?thesis by (simp add: free_at_def load_def)
qed

lemma availability_open:
  assumes "toInstant d askFrom = Inr from" and "toInstant d askTo = Inr to" and "nowOr cx d given = Inr now"
    and "getResourceRow resourceId st = Inr res" and "rs_active res = 1" and "from < to"
  shows "availability cx d resourceId askFrom askTo given st =
    Inr (sweep (rs_capacity res) (overlapping (rs_id res) from to now st) (edges from to (overlapping (rs_id res) from to now st)) [])"
  using assms by (auto simp: availability_def Let_def)

lemma sweep_window:
  assumes "from < to"
  shows "segments_ok from to (sweep cap busy (edges from to busy) []) \<and>
    answers (free_at cap busy) from to (sweep cap busy (edges from to busy) [])"
proof -
  let ?E = "edges from to busy"
  note E = edges_facts [OF assms, where busy = busy]
  have "segments_ok from (hd ?E) []" "answers (free_at cap busy) from (hd ?E) []" "from \<le> hd ?E"
    unfolding E(2) by (auto simp: segments_ok_def answers_def)
  from sweep_correct [OF E(1,4) this(3) _ this(1,2)] E(5) show ?thesis unfolding E(2,3) by blast
qed

section \<open>The two reads as keyset pages\<close>

type_synonym reservation_source = "op_ctx \<times> date_lib \<times> list_input \<times> bk_store"

type_synonym free_source = "op_ctx \<times> date_lib \<times> string \<times> string \<times> string \<times> string option \<times> bk_store"

definition shown :: "string \<Rightarrow> reservation_row \<Rightarrow> reservation" where
  "shown now r =
     \<lparr>v_id = r_id r, v_resourceId = r_resource_id r, v_startsAt = r_starts_at r, v_endsAt = r_ends_at r,
      v_state = r_state r, v_effectiveState = effectiveStateOf (r_state r) (r_expires_at r) now,
      v_quantity = r_quantity r, v_expiresAt = r_expires_at r, v_fillTarget = r_fill_target r,
      v_note = r_note r, v_createdBy = r_created_by r, v_createdAt = r_created_at r\<rparr>"

lemma shown_id [simp]: "v_id (shown now r) = r_id r"
  by (simp add: shown_def)

lemma toReservation_shown: "reservation_check r \<Longrightarrow> toReservation r now = Inr (shown now r)"
  by (simp add: toReservation_def shown_def reservation_check_def returns_def)

lemma traverse_shown:
  assumes "\<And>r. r \<in> set rows \<Longrightarrow> reservation_check r"
  shows "traverse (\<lambda>r. toReservation r now) rows = Inr (map (shown now) rows)"
  using assms by (induction rows) (simp_all add: toReservation_shown)

definition reservation_fetch :: "reservation_source \<Rightarrow> nat \<Rightarrow> string option \<Rightarrow> reservation page result" where
  "reservation_fetch s sz c =
     (case s of (cx, d, input, st) \<Rightarrow> listReservationsPage cx d (input\<lparr>li_limit := Some (int sz), li_cursor := c\<rparr>) st)"

definition reservation_listing :: "reservation_source \<Rightarrow> reservation list option" where
  "reservation_listing s =
     (case s of (cx, d, input, st) \<Rightarrow>
        if rows_ok st then (case listReservations cx d input st of Inr vs \<Rightarrow> Some (sort_key v_id vs) | Inl _ \<Rightarrow> None) else None)"

lemma listReservations_Inr:
  assumes "rows_ok st" and "listReservations cx d input st = Inr vs"
  obtains sel now where "list_clauses d input = Inr sel" and "nowOr cx d (li_now input) = Inr now"
    and "sort_key v_id vs = map (shown now) (sort_key r_id (filter sel (bk_reservations st)))"
proof -
  from assms(2) obtain sel now where c: "list_clauses d input = Inr sel" and n: "nowOr cx d (li_now input) = Inr now"
    and rows: "traverse (\<lambda>r. toReservation r now) (sort_key r_starts_at (sort_key r_id (filter sel (bk_reservations st)))) = Inr vs"
    by (auto simp: listReservations_def monad_simps)
  let ?xs = "filter sel (bk_reservations st)"
  have "vs = map (shown now) (sort_key r_starts_at (sort_key r_id ?xs))"
    using rows traverse_shown [of "sort_key r_starts_at (sort_key r_id ?xs)" now] rows_okD(4) [OF assms(1)] by simp
  moreover have "distinct (map r_id ?xs)" using rows_okD(2) [OF assms(1)] by (simp add: distinct_map_filter)
  then have "sort_key r_id (sort_key r_starts_at (sort_key r_id ?xs)) = sort_key r_id ?xs" by (intro sort_unique_key) simp_all
  ultimately have "sort_key v_id vs = map (shown now) (sort_key r_id ?xs)" by (simp add: sort_map_key)
  with c n show thesis by (rule that)
qed

lemma Nil_less: "(x :: string) \<noteq> [] \<Longrightarrow> [] < x"
  by (cases x) simp_all

lemma page_of_reservations:
  assumes "rows_ok st" and "list_clauses d input = Inr sel" and "nowOr cx d (li_now input) = Inr now" and "0 < sz" and "sz \<le> 200"
  shows "listReservationsPage cx d (input\<lparr>li_limit := Some (int sz), li_cursor := c\<rparr>) st =
    Inr (pageOf (take sz (filter (after v_id c) (map (shown now) (sort_key r_id (filter sel (bk_reservations st)))))) (int sz) v_id False)"
proof -
  let ?rows = "filter (\<lambda>r. sel r \<and> (truthy c \<longrightarrow> the c < r_id r)) (bk_reservations st)"
  have same: "list_clauses d (input\<lparr>li_limit := Some (int sz), li_cursor := c\<rparr>) = list_clauses d input"
    by (simp add: list_clauses_def)
  have "?rows = filter (\<lambda>r. after v_id c (shown now r)) (filter sel (bk_reservations st))"
    unfolding filter_filter using rows_okD(5) [OF assms(1)]
    by (intro filter_cong refl) (auto simp: after_def truthy_def Nil_less split: option.splits)
  then have "sort_key r_id ?rows = filter (\<lambda>r. after v_id c (shown now r)) (sort_key r_id (filter sel (bk_reservations st)))"
    by (simp add: filter_sort)
  then have "map (shown now) (sort_key r_id ?rows) = filter (after v_id c) (map (shown now) (sort_key r_id (filter sel (bk_reservations st))))"
    by (simp add: filter_map o_def)
  moreover have "traverse (\<lambda>r. toReservation r now) (take sz (sort_key r_id ?rows)) = Inr (map (shown now) (take sz (sort_key r_id ?rows)))"
    by (rule traverse_shown) (use rows_okD(4) [OF assms(1)] in \<open>auto dest: in_set_takeD\<close>)
  ultimately show ?thesis
    using assms(2-5) by (simp add: listReservationsPage_def same Let_def or_else_def LIST_PAGE_MAX_def sql_limit_def take_map [symmetric])
qed

lemma reservation_listing_Some:
  assumes "reservation_listing (cx, d, input, st) = Some rows"
  obtains vs where "rows_ok st" and "listReservations cx d input st = Inr vs" and "rows = sort_key v_id vs"
  using assms by (auto simp: reservation_listing_def split: if_splits sum.splits)

interpretation reservations: keyset_pages reservation_fetch reservation_listing v_id 200
proof
  fix s rows assume "reservation_listing s = Some rows"
  moreover obtain cx d input st where s: "s = (cx, d, input, st)" by (cases s) auto
  ultimately obtain vs where ok: "rows_ok st" and "listReservations cx d input st = Inr vs" and rows: "rows = sort_key v_id vs"
    by (auto elim: reservation_listing_Some)
  then obtain sel now where sel: "list_clauses d input = Inr sel" and now: "nowOr cx d (li_now input) = Inr now"
    and vs: "rows = map (shown now) (sort_key r_id (filter sel (bk_reservations st)))"
    by (auto elim: listReservations_Inr)
  show "sorted_wrt (<) (map v_id rows)"
    using sorted_unique_key [of r_id "filter sel (bk_reservations st)"] rows_okD(2) [OF ok]
    unfolding vs by (simp add: distinct_map_filter o_def)
  show "reservation_fetch s sz c = Inr (pageOf (take sz (filter (after v_id c) rows)) (int sz) v_id False)" if "0 < sz" "sz \<le> 200" for sz c
    using page_of_reservations [OF ok sel now that] by (simp add: reservation_fetch_def s vs)
qed

definition free_fetch :: "free_source \<Rightarrow> nat \<Rightarrow> string option \<Rightarrow> free_interval page result" where
  "free_fetch s sz c =
     (case s of (cx, d, resourceId, askFrom, askTo, given, st) \<Rightarrow>
        availabilityPage cx d resourceId askFrom askTo given (Some (int sz)) c st)"

definition free_listing :: "free_source \<Rightarrow> free_interval list option" where
  "free_listing s =
     (case s of (cx, d, resourceId, askFrom, askTo, given, st) \<Rightarrow>
        (case availability cx d resourceId askFrom askTo given st of Inr segs \<Rightarrow> Some segs | Inl _ \<Rightarrow> None))"

lemma segments_starts: "segments_ok from to segs \<Longrightarrow> sorted_wrt (<) (map fi_startsAt segs)"
  unfolding segments_ok_def
  by (induction segs) (auto simp: successively_Cons intro: order.strict_trans2)

lemma availability_starts:
  assumes "availability cx d resourceId askFrom askTo given st = Inr segs"
  shows "sorted_wrt (<) (map fi_startsAt segs)"
proof (cases "segs = []")
  case False
  with assms obtain "from" to now and res :: resource_row where win: "from < to"
    and segs: "segs = sweep (rs_capacity res) (overlapping (rs_id res) from to now st) (edges from to (overlapping (rs_id res) from to now st)) []"
    by (auto simp: availability_def monad_simps Let_def not_le split: if_splits)
  from sweep_window [OF win] show ?thesis unfolding segs by (blast intro: segments_starts)
qed simp

lemma js_slice_page: "js_slice a (int a + int n) xs = take n (drop a xs)"
  by (simp add: js_slice_def nat_add_distrib drop_take)

interpretation free: keyset_pages free_fetch free_listing fi_startsAt 200
proof
  fix s rows assume "free_listing s = Some rows"
  moreover obtain cx d rid f t' given st where s: "s = (cx, d, rid, f, t', given, st)" by (cases s) auto
  ultimately have rows: "availability cx d rid f t' given st = Inr rows"
    by (auto simp: free_listing_def split: sum.splits)
  then show sorted: "sorted_wrt (<) (map fi_startsAt rows)" by (rule availability_starts)
  show "free_fetch s sz c = Inr (pageOf (take sz (filter (after fi_startsAt c) rows)) (int sz) fi_startsAt False)" if "0 < sz" "sz \<le> 200" for sz c
    using that by (simp add: free_fetch_def s availabilityPage_def rows or_else_def LIST_PAGE_MAX_def Let_def js_slice_page drop_after [OF sorted])
qed

section \<open>Properties\<close>

definition demo_day :: bk_store where
  "demo_day = demo_calendar [demo_slot ''A'' (tick 1) (tick 2) ''confirmed'', demo_slot ''B'' (tick 2) (tick 3) ''confirmed'']"

definition demo_list :: list_input where
  "demo_list = \<lparr>li_resourceId = Some ''R'', li_from = None, li_to = None, li_now = None, li_limit = None, li_cursor = None\<rparr>"

lemma demo_day_ok: "rows_ok demo_day"
  by (simp add: demo_day_def demo_calendar_defs rows_ok_def reservation_check_def reservation_states_def)

text \<open>
  C13. The sweep is the free capacity of every instant.  For an active resource and a window, the read
  answers; every instant of the window at which capacity is left lies in exactly one interval, which
  carries what is left there, and an instant at which none is left lies in none; and the intervals are
  in order, non-empty, inside the window, and merged as far as they go.
\<close>

theorem availability_exact:
  assumes "toInstant d askFrom = Inr from" and "toInstant d askTo = Inr to" and "from < to"
    and "nowOr cx d given = Inr now" and "getResourceRow resourceId st = Inr res" and "rs_active res = 1"
  shows "\<exists>segs. availability cx d resourceId askFrom askTo given st = Inr segs \<and> segments_ok from to segs \<and>
    (\<forall>u. from \<le> u \<and> u < to \<longrightarrow>
       map fi_available (filter (spans u) segs) =
         (let left = rs_capacity res - load now u (rs_id res) (bk_reservations st) in if 0 < left then [left] else []))"
  using availability_open [OF assms(1,2,4-6,3)] sweep_window [OF assms(3), of "rs_capacity res" "overlapping (rs_id res) from to now st"]
  by (simp add: answers_def free_at_load Let_def)

theorem availability_exact_witness:
  "\<exists>segs. availability bk_ctx demo_dates ''R'' (tick 1) (tick 4) None demo_day = Inr segs \<and> segments_ok (tick 1) (tick 4) segs \<and>
    map fi_available (filter (spans (tick 2)) segs) = [1] \<and> map fi_available (filter (spans (tick 3)) segs) = [2]"
proof -
  have read: "toInstant demo_dates (tick 1) = Inr (tick 1)" "toInstant demo_dates (tick 4) = Inr (tick 4)"
    by (simp_all add: toInstant_def toISOString_def demo_dates_def tick_def)
  have order: "tick 1 < tick 4" "tick 1 \<le> tick 2" "tick 2 < tick 4" "tick 1 \<le> tick 3" "tick 3 < tick 4" by code_simp+
  have "nowOr bk_ctx demo_dates None = Inr (tick 0)" "getResourceRow ''R'' demo_day = Inr demo_pool" "rs_active demo_pool = 1"
    by (simp_all add: nowOr_def bk_ctx_def getResourceRow_def demo_day_def demo_calendar_def demo_pool_def)
  from availability_exact [OF read order(1) this] obtain segs where
    segs: "availability bk_ctx demo_dates ''R'' (tick 1) (tick 4) None demo_day = Inr segs" "segments_ok (tick 1) (tick 4) segs"
    and point: "\<And>u. tick 1 \<le> u \<Longrightarrow> u < tick 4 \<Longrightarrow> map fi_available (filter (spans u) segs) =
         (let left = rs_capacity demo_pool - load (tick 0) u (rs_id demo_pool) (bk_reservations demo_day) in if 0 < left then [left] else [])"
    by blast
  have "load (tick 0) (tick 2) (rs_id demo_pool) (bk_reservations demo_day) = 1"
    "load (tick 0) (tick 3) (rs_id demo_pool) (bk_reservations demo_day) = 0" "rs_capacity demo_pool = 2"
    by code_simp+
  with segs point [OF order(2,3)] point [OF order(4,5)] show ?thesis by (intro exI [of _ segs]) (simp add: Let_def)
qed

text \<open>
  The paged list is the unpaged one: following the cursors of the reservation pages yields the
  reservations that the unpaged list answers for the same filter, each once and ordered by id, for
  every page size up to the ceiling, in one page more than the full ones.
\<close>

theorem list_walk_complete:
  fixes st :: bk_store
  assumes "rows_ok st" and "listReservations cx d input st = Inr vs" and "0 < sz" and "sz \<le> 200" and "length vs div sz < n"
  shows "walk n (\<lambda>c. listReservationsPage cx d (input\<lparr>li_limit := Some (int sz), li_cursor := c\<rparr>) st) None = Inr (sort_key v_id vs)"
proof -
  have "reservation_listing (cx, d, input, st) = Some (sort_key v_id vs)" using assms(1,2) by (simp add: reservation_listing_def)
  from reservations.walk_all [OF this assms(3,4)] assms(5) show ?thesis by (simp add: reservation_fetch_def [abs_def])
qed

theorem list_walk_complete_witness:
  "\<exists>vs. listReservations bk_ctx demo_dates demo_list demo_day = Inr vs \<and> map v_id vs = [''A'', ''B''] \<and>
    walk 3 (\<lambda>c. listReservationsPage bk_ctx demo_dates (demo_list\<lparr>li_limit := Some (int 1), li_cursor := c\<rparr>) demo_day) None =
      Inr (sort_key v_id vs)"
proof -
  have "map v_id (sum.projr (listReservations bk_ctx demo_dates demo_list demo_day)) = [''A'', ''B''] \<and>
      is_ok (listReservations bk_ctx demo_dates demo_list demo_day)" by code_simp
  then obtain vs where vs: "listReservations bk_ctx demo_dates demo_list demo_day = Inr vs" "map v_id vs = [''A'', ''B'']"
    by (cases "listReservations bk_ctx demo_dates demo_list demo_day") auto
  have "length vs = length [''A'', ''B'']" unfolding vs(2) [symmetric] by simp
  with list_walk_complete [OF demo_day_ok vs(1), of 1 3] vs show ?thesis by simp
qed

section \<open>A hold adds up, a calendar does not\<close>

lemma one_le_sum:
  fixes f :: "'b \<Rightarrow> int"
  shows "a \<in> set xs \<Longrightarrow> \<forall>x \<in> set xs. 0 \<le> f x \<Longrightarrow> f a \<le> sum_list (map f xs)"
proof (induction xs)
  case (Cons x xs)
  moreover from Cons.prems(2) have "0 \<le> sum_list (map f xs)" by (intro sum_list_nonneg) auto
  ultimately show ?case by auto
qed simp

lemma two_le_sum:
  fixes f :: "'b \<Rightarrow> int"
  shows "a \<in> set xs \<Longrightarrow> b \<in> set xs \<Longrightarrow> a \<noteq> b \<Longrightarrow> \<forall>x \<in> set xs. 0 \<le> f x \<Longrightarrow> f a + f b \<le> sum_list (map f xs)"
proof (induction xs)
  case (Cons x xs)
  then show ?case using one_le_sum [of a xs f] one_le_sum [of b xs f] by auto
qed simp

lemma hold_too_much:
  assumes "holdReservationCall d input = Inr (from, to, x)" and "nowOr cx d (hi_now input) = Inr now" and "from < to" and "now < x"
    and "getResourceRow (hi_resourceId input) st = Inr res" and "rs_active res = 1"
    and "rs_capacity res < allocatedOver (rs_id res) from to now [] st + or_else (hi_quantity input) 1"
  shows "holdReservation cx d input st = Inl (SlotUnavailable (rs_id res) from to)"
  using assms by (simp add: holdReservation_def Let_def guard_r_def)

text \<open>
  C33. A hold may be refused though the capacity is there at every instant.  Take a valid hold on an
  active resource, and two reservations of it that both overlap the interval but not each other, as one
  ends before the other starts.  If at every instant of the interval the resource has the places asked for
  left, the calendar says so, and yet the hold is refused as soon as the two reservations and the places
  asked for exceed the capacity together: the hold adds up every reservation that overlaps it, whether or
  not they overlap each other.
\<close>

theorem hold_refused_though_free:
  assumes "rows_ok st" and "holdReservationCall d input = Inr (from, to, x)" and "nowOr cx d (hi_now input) = Inr now" and "from < to" and "now < x"
    and "getResourceRow (hi_resourceId input) st = Inr res" and "rs_active res = 1"
    and "toInstant d askFrom = Inr from" and "toInstant d askTo = Inr to"
    and "r1 \<in> set (overlapping (rs_id res) from to now st)" and "r2 \<in> set (overlapping (rs_id res) from to now st)"
    and "r_ends_at r1 \<le> r_starts_at r2" and "rs_capacity res < r_quantity r1 + r_quantity r2 + or_else (hi_quantity input) 1"
    and "\<forall>u. from \<le> u \<and> u < to \<longrightarrow> load now u (rs_id res) (bk_reservations st) + or_else (hi_quantity input) 1 \<le> rs_capacity res"
  shows "(\<exists>segs. availability cx d (hi_resourceId input) askFrom askTo (hi_now input) st = Inr segs \<and>
      (\<forall>u. from \<le> u \<and> u < to \<longrightarrow> (\<exists>free. filter (spans u) segs = [free] \<and> or_else (hi_quantity input) 1 \<le> fi_available free))) \<and>
    holdReservation cx d input st = Inl (SlotUnavailable (rs_id res) from to)"
proof
  let ?n = "or_else (hi_quantity input) 1"
  have n: "0 < ?n" using assms(2)
    by (cases "hi_quantity input") (auto simp: holdReservationCall_def or_else_def if_given_def z_positive_def monad_simps)
  obtain segs where segs: "availability cx d (hi_resourceId input) askFrom askTo (hi_now input) st = Inr segs"
    "\<And>u. from \<le> u \<Longrightarrow> u < to \<Longrightarrow> map fi_available (filter (spans u) segs) =
       (let left = rs_capacity res - load now u (rs_id res) (bk_reservations st) in if 0 < left then [left] else [])"
    using availability_open [OF assms(8,9,3,6,7,4)] sweep_window [OF assms(4), of "rs_capacity res" "overlapping (rs_id res) from to now st"]
    by (simp add: answers_def free_at_load Let_def)
  have "\<exists>free. filter (spans u) segs = [free] \<and> ?n \<le> fi_available free" if u: "from \<le> u" "u < to" for u
  proof -
    have "load now u (rs_id res) (bk_reservations st) + ?n \<le> rs_capacity res" using assms(14) u by blast
    with segs(2) [OF u] n show ?thesis by (auto simp: Let_def)
  qed
  with segs(1) show "\<exists>segs. availability cx d (hi_resourceId input) askFrom askTo (hi_now input) st = Inr segs \<and>
      (\<forall>u. from \<le> u \<and> u < to \<longrightarrow> (\<exists>free. filter (spans u) segs = [free] \<and> ?n \<le> fi_available free))" by blast
next
  have rows: "\<forall>r \<in> set (overlapping (rs_id res) from to now st). 0 \<le> r_quantity r \<and> r_id r \<noteq> [] \<and> r_starts_at r < r_ends_at r"
    using assms(1) by (auto simp: rows_ok_def overlapping_def reservation_check_def)
  then have "filter (\<lambda>r. r_id r \<noteq> []) (overlapping (rs_id res) from to now st) = overlapping (rs_id res) from to now st"
    by (simp add: filter_id_conv)
  moreover have "r1 \<noteq> r2" using rows assms(10,12) by fastforce
  ultimately have "r_quantity r1 + r_quantity r2 \<le> allocatedOver (rs_id res) from to now [] st"
    unfolding allocatedOver_def using two_le_sum [OF assms(10,11)] rows by simp
  then show "holdReservation cx d input st = Inl (SlotUnavailable (rs_id res) from to)"
    using assms(13) by (intro hold_too_much [OF assms(2-7)]) simp
qed

theorem hold_refused_though_free_witness:
  "holdReservation bk_ctx demo_dates demo_hold demo_day = Inl (SlotUnavailable ''R'' (tick 1) (tick 3)) \<and>
    (\<exists>segs. availability bk_ctx demo_dates ''R'' (tick 1) (tick 3) None demo_day = Inr segs \<and>
      (\<exists>free. filter (spans (tick 1)) segs = [free] \<and> 1 \<le> fi_available free))"
proof -
  have call: "holdReservationCall demo_dates demo_hold = Inr (tick 1, tick 3, tick 5)" by code_simp
  have now: "nowOr bk_ctx demo_dates (hi_now demo_hold) = Inr (tick 0)" by (simp add: nowOr_def demo_hold_def bk_ctx_def)
  have hold: "hi_resourceId demo_hold = ''R''" "hi_now demo_hold = None" "or_else (hi_quantity demo_hold) 1 = 1"
    by (simp_all add: demo_hold_def or_else_def)
  have res: "getResourceRow (hi_resourceId demo_hold) demo_day = Inr demo_pool" "rs_active demo_pool = 1" "rs_id demo_pool = ''R''"
    "rs_capacity demo_pool = 2"
    by (simp_all add: hold getResourceRow_def demo_day_def demo_calendar_def demo_pool_def)
  have order: "tick 1 < tick 3" "tick 0 < tick 5" "tick 1 \<le> tick 1" by code_simp+
  have read: "toInstant demo_dates (tick 1) = Inr (tick 1)" "toInstant demo_dates (tick 3) = Inr (tick 3)"
    by (simp_all add: toInstant_def toISOString_def demo_dates_def tick_def)
  let ?a = "demo_slot ''A'' (tick 1) (tick 2) ''confirmed''" and ?b = "demo_slot ''B'' (tick 2) (tick 3) ''confirmed''"
  have busy: "overlapping (rs_id demo_pool) (tick 1) (tick 3) (tick 0) demo_day = [?a, ?b]" by code_simp
  have ends: "r_ends_at ?a \<le> r_starts_at ?b" "r_quantity ?a = 1" "r_quantity ?b = 1" by code_simp+
  have free: "load (tick 0) u (rs_id demo_pool) (bk_reservations demo_day) \<le> 1" for u
  proof -
    have "\<not> (counted (tick 0) u (rs_id demo_pool) ?a \<and> counted (tick 0) u (rs_id demo_pool) ?b)"
      using ends(1) unfolding counted_def by (meson leD order_trans)
    moreover have "bk_reservations demo_day = [?a, ?b]" by (simp add: demo_day_def demo_calendar_def)
    ultimately show ?thesis using ends(2,3) by (auto simp: load_def)
  qed
  from hold_refused_though_free [OF demo_day_ok call now order(1,2) res(1,2) read, unfolded busy, of ?a ?b] ends free order
  show ?thesis unfolding hold res by fastforce
qed

end
