(* ===== verification/Metering.thy ===== *)
theory Metering
  imports Instants Pagination
begin

text \<open>
  The usage ledger, \<open>engines/metering/src\<close>: meters, append-only entries keyed by a caller's dedupe key,
  window aggregates, and the journal of closed periods whose latest end is the horizon behind which
  nothing may be recorded.

  A stored row is parsed on the way out as in the code, of which a typed row keeps what can fail: the
  kind of a meter, a quantity that is a decimal, an instant in ISO form.

  The theory reduces every call to a step of the tables, and shows that the lines of a closed period
  stay what the ledger gives for its window, whatever is recorded, configured or closed afterwards.
\<close>

section \<open>Formats\<close>

text \<open>\<open>ISO_INSTANT\<close>: a fixed part, then at most three digits of a fraction.\<close>

definition isoInstantIn :: "string \<Rightarrow> bool" where
  "isoInstantIn s \<longleftrightarrow>
     matches ''dddd-dd-ddTdd:dd:dd'' (take 19 s) \<and>
     drop 19 s \<noteq> [] \<and> last s = CHR ''Z'' \<and>
     (case butlast (drop 19 s) of [] \<Rightarrow> True | c # f \<Rightarrow> c = CHR ''.'' \<and> 1 \<le> length f \<and> length f \<le> 3 \<and> list_all is_digit f)"

definition isoInstant :: "date_lib \<Rightarrow> string \<Rightarrow> string result" where
  "isoInstant d s = bind_r (guard_r (isoInstantIn s) (ZodError ''isoInstant'')) (\<lambda>_. toISOString d (d_parse d s))"

section \<open>Rows and published shapes\<close>

record meter_row =
  m_key :: string
  m_kind :: string
  m_unit :: string
  m_description :: "string option"
  m_active :: int
  m_created_at :: string

record entry_row =
  e_id :: string
  e_meter_key :: string
  e_qty :: string
  e_subject_type :: "string option"
  e_subject_id :: "string option"
  e_occurred_at :: string
  e_dedupe_key :: string
  e_note :: "string option"
  e_created_by :: string
  e_created_at :: string

record period_row =
  q_id :: string
  q_from_at :: string
  q_to_at :: string
  q_closed_by :: string
  q_closed_at :: string

record period_line_row =
  l_id :: string
  l_period_id :: string
  l_meter_key :: string
  l_kind :: string
  l_unit :: string
  l_qty :: string
  l_entry_count :: int

record mt_store = scope_store +
  mt_meters :: "meter_row list"
  mt_entries :: "entry_row list"
  mt_periods :: "period_row list"
  mt_lines :: "period_line_row list"

record meter =
  me_key :: string
  me_kind :: string
  me_unit :: string
  me_description :: "string option"
  me_active :: bool
  me_createdAt :: string

record usage_entry =
  ue_id :: string
  ue_meterKey :: string
  ue_qty :: string
  ue_subject :: "entity_ref option"
  ue_occurredAt :: string
  ue_dedupeKey :: string
  ue_note :: "string option"
  ue_createdBy :: string
  ue_createdAt :: string

record metering_period =
  mp_id :: string
  mp_from :: string
  mp_to :: string
  mp_closedBy :: string
  mp_closedAt :: string

record period_line =
  pl_meterKey :: string
  pl_kind :: string
  pl_unit :: string
  pl_qty :: string
  pl_entryCount :: int

record usage_aggregate =
  ag_qty :: string
  ag_entryCount :: int

definition meterKind :: "string list" where
  "meterKind = [''counter'', ''gauge'']"

definition mt_conflict :: "string \<Rightarrow> string \<Rightarrow> err" where
  "mt_conflict reason msg = SubstratError Conflict (Some reason) msg"

definition mt_event :: "string \<Rightarrow> string \<Rightarrow> string \<Rightarrow> json \<Rightarrow> domain_event_input" where
  "mt_event ty entity i payload =
     \<lparr>ev_type = ty, ev_schemaVersion = 1, ev_entity = \<lparr>entityType = entity, entityId = i\<rparr>,
      ev_piiClass = PiiNone, ev_subjectId = None, ev_payload = payload\<rparr>"

abbreviation mt_returns :: "string \<Rightarrow> bool \<Rightarrow> 'v \<Rightarrow> 'v result" where
  "mt_returns \<equiv> returns ''engine-metering''"

section \<open>A stored row, parsed and published\<close>

definition storedMeter :: "meter_row \<Rightarrow> meter_row result" where
  "storedMeter r = mt_returns (''meter row '' @ m_key r) (m_kind r \<in> set meterKind) r"

definition storedEntry :: "entry_row \<Rightarrow> entry_row result" where
  "storedEntry r = mt_returns (''usage entry row '' @ e_id r) (signedDecimal (e_qty r) \<and> isoInstantIn (e_occurred_at r)) r"

definition storedPeriod :: "period_row \<Rightarrow> period_row result" where
  "storedPeriod r = mt_returns (''period row '' @ q_id r) (isoInstantIn (q_from_at r) \<and> isoInstantIn (q_to_at r)) r"

definition storedLine :: "period_line_row \<Rightarrow> period_line_row result" where
  "storedLine r = mt_returns (''period line row '' @ l_id r) (l_kind r \<in> set meterKind \<and> signedDecimal (l_qty r)) r"

definition toMeter :: "meter_row \<Rightarrow> meter result" where
  "toMeter raw =
     bind_r (storedMeter raw) (\<lambda>r.
       mt_returns (''meter '' @ m_key r) (m_kind r \<in> set meterKind)
         \<lparr>me_key = m_key r, me_kind = m_kind r, me_unit = m_unit r, me_description = m_description r,
          me_active = (m_active r = 1), me_createdAt = m_created_at r\<rparr>)"

definition toEntry :: "entry_row \<Rightarrow> usage_entry result" where
  "toEntry raw =
     bind_r (storedEntry raw) (\<lambda>r.
     let subj = (case (e_subject_type r, e_subject_id r) of
                   (Some ty, Some i) \<Rightarrow> Some \<lparr>entityType = ty, entityId = i\<rparr> | _ \<Rightarrow> None) in
       mt_returns (''usage entry '' @ e_id r)
         (signedDecimal (e_qty r) \<and> if_given entityRef_ok subj \<and> isoInstantIn (e_occurred_at r))
         \<lparr>ue_id = e_id r, ue_meterKey = e_meter_key r, ue_qty = e_qty r, ue_subject = subj,
          ue_occurredAt = e_occurred_at r, ue_dedupeKey = e_dedupe_key r, ue_note = e_note r,
          ue_createdBy = e_created_by r, ue_createdAt = e_created_at r\<rparr>)"

definition toPeriod :: "period_row \<Rightarrow> metering_period result" where
  "toPeriod raw =
     bind_r (storedPeriod raw) (\<lambda>r.
       mt_returns (''metering period '' @ q_id r) (isoInstantIn (q_from_at r) \<and> isoInstantIn (q_to_at r))
         \<lparr>mp_id = q_id r, mp_from = q_from_at r, mp_to = q_to_at r, mp_closedBy = q_closed_by r, mp_closedAt = q_closed_at r\<rparr>)"

definition toLine :: "period_line_row \<Rightarrow> period_line result" where
  "toLine raw =
     bind_r (storedLine raw) (\<lambda>r.
       mt_returns (''period line '' @ l_id r) (l_kind r \<in> set meterKind \<and> signedDecimal (l_qty r))
         \<lparr>pl_meterKey = l_meter_key r, pl_kind = l_kind r, pl_unit = l_unit r, pl_qty = l_qty r, pl_entryCount = l_entry_count r\<rparr>)"

definition getMeterRow :: "string \<Rightarrow> 'a mt_store_scheme \<Rightarrow> meter_row result" where
  "getMeterRow key st =
     (case row_where (\<lambda>r. m_key r = key) (mt_meters st) of
        Some r \<Rightarrow> storedMeter r
      | None \<Rightarrow> Inl (SubstratError Not_Found None (''meter not found: '' @ key)))"

text \<open>\<open>SELECT MAX(to_at)\<close>.\<close>

definition closeHorizon :: "'a mt_store_scheme \<Rightarrow> string option" where
  "closeHorizon st = (if mt_periods st = [] then None else Some (Max (set (map q_to_at (mt_periods st)))))"

section \<open>Aggregation\<close>

text \<open>\<open>ORDER BY occurred_at, id\<close>; the sorts are stable.\<close>

definition by_time :: "entry_row list \<Rightarrow> entry_row list" where
  "by_time es = sort_key e_occurred_at (sort_key e_id es)"

definition window :: "string \<Rightarrow> string \<Rightarrow> string \<Rightarrow> entry_row list \<Rightarrow> entry_row list" where
  "window key from to es = by_time (filter (\<lambda>e. e_meter_key e = key \<and> from \<le> e_occurred_at e \<and> e_occurred_at e < to) es)"

definition earlier :: "string \<Rightarrow> string \<Rightarrow> entry_row list \<Rightarrow> entry_row list" where
  "earlier key from es = by_time (filter (\<lambda>e. e_meter_key e = key \<and> e_occurred_at e < from) es)"

definition entryFold :: "string \<Rightarrow> entry_row \<Rightarrow> string result" where
  "entryFold surface e = mt_returns surface (signedDecimal (e_qty e) \<and> isoInstantIn (e_occurred_at e)) (e_qty e)"

fun sum_qty :: "string \<Rightarrow> string list \<Rightarrow> string result" where
  "sum_qty acc [] = Inr acc"
| "sum_qty acc (q # qs) = bind_r (addDecimal acc q) (\<lambda>acc'. sum_qty acc' qs)"

fun max_qty :: "string \<Rightarrow> string list \<Rightarrow> string result" where
  "max_qty m [] = Inr m"
| "max_qty m (q # qs) = bind_r (compareDecimal q m) (\<lambda>c. max_qty (if 0 < c then q else m) qs)"

definition aggregateMeter ::
  "meter_row \<Rightarrow> string \<Rightarrow> string \<Rightarrow> 'a mt_store_scheme \<Rightarrow> usage_aggregate option result" where
  "aggregateMeter meter from to st =
     bind_r (traverse (entryFold (''usage entry on meter '' @ quoted (m_key meter))) (window (m_key meter) from to (mt_entries st))) (\<lambda>rows.
     if m_kind meter = ''counter'' then
       (if rows = [] then Inr None
        else bind_r (sum_qty ''0'' rows) (\<lambda>q. Inr (Some \<lparr>ag_qty = q, ag_entryCount = int (length rows)\<rparr>)))
     else if rows \<noteq> [] then
       bind_r (max_qty (hd rows) rows) (\<lambda>q. Inr (Some \<lparr>ag_qty = q, ag_entryCount = int (length rows)\<rparr>))
     else
       (case earlier (m_key meter) from (mt_entries st) of
          [] \<Rightarrow> Inr None
        | e # es \<Rightarrow> bind_r (entryFold (''carried entry on meter '' @ quoted (m_key meter)) (last (e # es))) (\<lambda>q.
            Inr (Some \<lparr>ag_qty = q, ag_entryCount = 0\<rparr>))))"

section \<open>In-scope functions\<close>

record configure_input =
  ci_key :: string
  ci_kind :: string
  ci_unit :: string
  ci_description :: "string option"
  ci_active :: "bool option"

text \<open>\<open>description\<close> and \<open>active\<close> are \<open>COALESCE(?, column)\<close>.\<close>

definition revised_meter :: "configure_input \<Rightarrow> meter_row \<Rightarrow> meter_row" where
  "revised_meter input r =
     r\<lparr>m_description := (case ci_description input of None \<Rightarrow> m_description r | Some x \<Rightarrow> Some x),
       m_active := (case ci_active input of None \<Rightarrow> m_active r | Some a \<Rightarrow> if a then 1 else 0)\<rparr>"

definition new_meter :: "op_ctx \<Rightarrow> configure_input \<Rightarrow> meter_row" where
  "new_meter cx input =
     \<lparr>m_key = ci_key input, m_kind = ci_kind input, m_unit = ci_unit input, m_description = ci_description input,
      m_active = (if ci_active input = Some False then 0 else 1), m_created_at = cx_at cx\<rparr>"

definition configured :: "op_ctx \<Rightarrow> configure_input \<Rightarrow> 'a mt_store_scheme \<Rightarrow> 'a mt_store_scheme result" where
  "configured cx input st =
     (case row_where (\<lambda>r. m_key r = ci_key input) (mt_meters st) of
        Some stored \<Rightarrow>
          bind_r (storedMeter stored) (\<lambda>existing.
          bind_r (guard_r (m_kind existing = ci_kind input \<and> m_unit existing = ci_unit input)
             (mt_conflict ''definition_frozen'' (''meter '' @ quoted (ci_key input) @ '' is '' @ m_kind existing @ ''/'' @ m_unit existing))) (\<lambda>_.
            Inr (st\<lparr>mt_meters := update_where (\<lambda>r. m_key r = ci_key input) (revised_meter input) (mt_meters st)\<rparr>)))
      | None \<Rightarrow>
          bind_r (insert_row (\<lambda>a b. m_key a = m_key b) (new_meter cx input) (mt_meters st)) (\<lambda>rows.
            Inr (st\<lparr>mt_meters := rows\<rparr>)))"

definition configureMeter ::
  "op_ctx \<Rightarrow> configure_input \<Rightarrow> 'a mt_store_scheme \<Rightarrow> (meter \<times> 'a mt_store_scheme) result" where
  "configureMeter cx input st =
     bind_r (guard_r (ci_key input \<noteq> [] \<and> ci_kind input \<in> set meterKind \<and> ci_unit input \<noteq> []) (ZodError ''configureMeterInput'')) (\<lambda>_.
     bind_r (configured cx input st) (\<lambda>st1.
     bind_r (getMeterRow (ci_key input) st1) (\<lambda>row.
     bind_r (emit cx (mt_event ''metering.meter-configured'' ''metering-meter'' (m_key row)
        (JObj [(''key'', JStr (m_key row)), (''kind'', JStr (m_kind row)), (''unit'', JStr (m_unit row)), (''active'', JBool (m_active row = 1))])) st1) (\<lambda>st2.
     bind_r (toMeter row) (\<lambda>v. Inr (v, st2))))))"

definition listMeters :: "'a mt_store_scheme \<Rightarrow> meter list result" where
  "listMeters st = traverse toMeter (sort_key m_key (mt_meters st))"

definition MAX_FUTURE_SKEW_MS :: int where
  "MAX_FUTURE_SKEW_MS = 5 * 60000"

record record_input =
  ru_meter :: string
  ru_qty :: string
  ru_subject :: "entity_ref option"
  ru_occurredAt :: "string option"
  ru_dedupeKey :: string
  ru_note :: "string option"

text \<open>
  The parsed input is the instant normalised.  A transform that throws does so while the object is being
  parsed, ahead of the issues the other fields raise.
\<close>

definition recordUsageInput :: "date_lib \<Rightarrow> record_input \<Rightarrow> string option result" where
  "recordUsageInput d input =
     bind_r (optional_r (isoInstant d) (ru_occurredAt input)) (\<lambda>occurredAt.
     bind_r (guard_r (ru_meter input \<noteq> [] \<and> signedDecimal (ru_qty input) \<and> if_given entityRef_ok (ru_subject input) \<and> ru_dedupeKey input \<noteq> [])
        (ZodError ''recordUsageInput'')) (\<lambda>_. Inr occurredAt))"

definition priorEntry :: "string \<Rightarrow> string \<Rightarrow> 'a mt_store_scheme \<Rightarrow> entry_row option" where
  "priorEntry key dedupe st = row_where (\<lambda>e. e_meter_key e = key \<and> e_dedupe_key e = dedupe) (mt_entries st)"

definition entry_clash :: "entry_row \<Rightarrow> entry_row \<Rightarrow> bool" where
  "entry_clash a b \<longleftrightarrow> e_id a = e_id b \<or> e_meter_key a = e_meter_key b \<and> e_dedupe_key a = e_dedupe_key b"

definition new_entry :: "op_ctx \<Rightarrow> string \<Rightarrow> string \<Rightarrow> record_input \<Rightarrow> string \<Rightarrow> entry_row" where
  "new_entry cx i key input occurredAt =
     \<lparr>e_id = i, e_meter_key = key, e_qty = ru_qty input, e_subject_type = map_option entityType (ru_subject input),
      e_subject_id = map_option entityId (ru_subject input), e_occurred_at = occurredAt, e_dedupe_key = ru_dedupeKey input,
      e_note = ru_note input, e_created_by = cx_principal cx, e_created_at = cx_at cx\<rparr>"

text \<open>The two bounds on \<open>occurredAt\<close>: the close horizon behind, the skew tolerance ahead.\<close>

definition within_bounds :: "op_ctx \<Rightarrow> date_lib \<Rightarrow> string \<Rightarrow> 'a mt_store_scheme \<Rightarrow> unit result" where
  "within_bounds cx d occurredAt st =
     bind_r (guard_r (case closeHorizon st of None \<Rightarrow> True | Some h \<Rightarrow> h \<le> occurredAt)
        (mt_conflict ''period_closed'' (''occurred_at '' @ occurredAt @ '' is behind the close horizon '' @ the (closeHorizon st)))) (\<lambda>_.
     bind_r (toISOString d (map_option (\<lambda>ms. ms + MAX_FUTURE_SKEW_MS) (d_parse d (cx_at cx)))) (\<lambda>ceiling.
       guard_r (occurredAt \<le> ceiling) (mt_conflict ''occurred_at_ahead'' (''occurred_at '' @ occurredAt @ '' is ahead of '' @ cx_at cx))))"

definition recordUsage ::
  "op_ctx \<Rightarrow> date_lib \<Rightarrow> record_input \<Rightarrow> 'a mt_store_scheme \<Rightarrow> ((usage_entry \<times> bool) \<times> 'a mt_store_scheme) result" where
  "recordUsage cx d input st =
     bind_r (recordUsageInput d input) (\<lambda>given.
     bind_r (getMeterRow (ru_meter input) st) (\<lambda>meter.
     bind_r (guard_r (m_active meter = 1) (mt_conflict ''meter_inactive'' (''meter '' @ quoted (m_key meter) @ '' is inactive''))) (\<lambda>_.
     bind_r (guard_r (m_kind meter = ''gauge'' \<longrightarrow> nonNegDecimal (ru_qty input)) (ZodError ''nonNegDecimal'')) (\<lambda>_.
     case priorEntry (m_key meter) (ru_dedupeKey input) st of
       Some prior \<Rightarrow>
         bind_r (storedEntry prior) (\<lambda>existing.
         bind_r (compareDecimal (e_qty existing) (ru_qty input)) (\<lambda>c.
         bind_r (guard_r (c = 0) (mt_conflict ''dedupe_mismatch''
            (''dedupe key '' @ quoted (ru_dedupeKey input) @ '' on meter '' @ quoted (m_key meter) @ '' was recorded with qty '' @
             e_qty existing @ '', now '' @ ru_qty input))) (\<lambda>_.
         bind_r (toEntry existing) (\<lambda>v. Inr ((v, True), st)))))
     | None \<Rightarrow>
         (let occurredAt = or_else given (cx_at cx) in
          bind_r (within_bounds cx d occurredAt st) (\<lambda>_.
          case ulid cx st of (i, st1) \<Rightarrow>
          let e = new_entry cx i (m_key meter) input occurredAt in
          bind_r (insert_row entry_clash e (mt_entries st1)) (\<lambda>rows.
          bind_r (toEntry e) (\<lambda>v.
          bind_r (emit cx (mt_event ''metering.usage-recorded'' ''metering-entry'' i
             (JObj [(''entryId'', JStr i), (''meterKey'', JStr (m_key meter)), (''kind'', JStr (m_kind meter)), (''unit'', JStr (m_unit meter)),
                    (''qty'', JStr (ru_qty input)), (''subject'', case ru_subject input of None \<Rightarrow> JNull | Some x \<Rightarrow> json_ref x),
                    (''occurredAt'', JStr occurredAt), (''dedupeKey'', JStr (ru_dedupeKey input))])) (st1\<lparr>mt_entries := rows\<rparr>)) (\<lambda>st2.
            Inr ((v, False), st2))))))))))"

definition usageTotal ::
  "date_lib \<Rightarrow> string \<Rightarrow> string \<Rightarrow> string \<Rightarrow> 'a mt_store_scheme \<Rightarrow> usage_aggregate option result" where
  "usageTotal d key askFrom askTo st =
     bind_r (isoInstant d askFrom) (\<lambda>from.
     bind_r (isoInstant d askTo) (\<lambda>to.
     bind_r (guard_r (from < to) (SubstratError Validation_Failed None (''to '' @ to @ '' must be after from '' @ from))) (\<lambda>_.
     bind_r (getMeterRow key st) (\<lambda>meter.
     bind_r (aggregateMeter meter from to st) (\<lambda>agg.
       case agg of None \<Rightarrow> Inr None
       | Some a \<Rightarrow> mt_returns (''usage total for '' @ quoted key) (signedDecimal (ag_qty a)) (Some a))))))"

text \<open>The filter of \<open>listEntries\<close>; \<open>from\<close> and \<open>to\<close> are parsed in that order where they are truthy.\<close>

definition entry_clauses ::
  "date_lib \<Rightarrow> string option \<Rightarrow> entity_ref option \<Rightarrow> string option \<Rightarrow> string option \<Rightarrow> (entry_row \<Rightarrow> bool) result" where
  "entry_clauses d key subj askFrom askTo =
     bind_r (if truthy askFrom then optional_r (isoInstant d) askFrom else Inr None) (\<lambda>from.
     bind_r (if truthy askTo then optional_r (isoInstant d) askTo else Inr None) (\<lambda>to.
       Inr (\<lambda>e. (truthy key \<longrightarrow> Some (e_meter_key e) = key) \<and>
                if_given (\<lambda>x. e_subject_type e = Some (entityType x) \<and> e_subject_id e = Some (entityId x)) subj \<and>
                if_given (\<lambda>u. u \<le> e_occurred_at e) from \<and> if_given (\<lambda>u. e_occurred_at e < u) to)))"

definition listEntries ::
  "date_lib \<Rightarrow> string option \<Rightarrow> entity_ref option \<Rightarrow> string option \<Rightarrow> string option \<Rightarrow> 'a mt_store_scheme \<Rightarrow> usage_entry list result" where
  "listEntries d key subj askFrom askTo st =
     bind_r (entry_clauses d key subj askFrom askTo) (\<lambda>sel. traverse toEntry (by_time (filter sel (mt_entries st))))"

definition closePeriodInput :: "date_lib \<Rightarrow> string \<Rightarrow> string \<Rightarrow> (string \<times> string) result" where
  "closePeriodInput d askFrom askTo =
     bind_r (if isoInstantIn askFrom then isoInstant d askFrom else Inr askFrom) (\<lambda>from.
     bind_r (if isoInstantIn askTo then isoInstant d askTo else Inr askTo) (\<lambda>to.
     bind_r (guard_r (isoInstantIn askFrom \<and> isoInstantIn askTo) (ZodError ''closePeriodInput'')) (\<lambda>_. Inr (from, to))))"

text \<open>The loop of a close over the meters.\<close>

fun close_lines ::
  "op_ctx \<Rightarrow> string \<Rightarrow> string \<Rightarrow> string \<Rightarrow> meter_row list \<Rightarrow> 'a mt_store_scheme \<Rightarrow> (period_line list \<times> 'a mt_store_scheme) result" where
  "close_lines cx pid from to [] st = Inr ([], st)"
| "close_lines cx pid from to (raw # ms) st =
     bind_r (storedMeter raw) (\<lambda>meter.
     bind_r (aggregateMeter meter from to st) (\<lambda>agg.
       case agg of None \<Rightarrow> close_lines cx pid from to ms st
       | Some a \<Rightarrow>
           (case ulid cx st of (i, st1) \<Rightarrow>
            bind_r (insert_row (\<lambda>x y. l_id x = l_id y)
               \<lparr>l_id = i, l_period_id = pid, l_meter_key = m_key meter, l_kind = m_kind meter, l_unit = m_unit meter,
                l_qty = ag_qty a, l_entry_count = ag_entryCount a\<rparr> (mt_lines st1)) (\<lambda>rows.
            bind_r (mt_returns (''period line for '' @ quoted (m_key meter)) (m_kind meter \<in> set meterKind \<and> signedDecimal (ag_qty a))
               \<lparr>pl_meterKey = m_key meter, pl_kind = m_kind meter, pl_unit = m_unit meter, pl_qty = ag_qty a,
                pl_entryCount = ag_entryCount a\<rparr>) (\<lambda>line.
            bind_r (close_lines cx pid from to ms (st1\<lparr>mt_lines := rows\<rparr>)) (\<lambda>(lines, st2). Inr (line # lines, st2)))))))"

definition json_period_line :: "period_line \<Rightarrow> json" where
  "json_period_line l = JObj [(''meterKey'', JStr (pl_meterKey l)), (''kind'', JStr (pl_kind l)), (''unit'', JStr (pl_unit l)),
     (''qty'', JStr (pl_qty l)), (''entryCount'', JNum (pl_entryCount l))]"

definition closePeriod ::
  "op_ctx \<Rightarrow> date_lib \<Rightarrow> string \<Rightarrow> string \<Rightarrow> 'a mt_store_scheme \<Rightarrow> ((metering_period \<times> period_line list) \<times> 'a mt_store_scheme) result" where
  "closePeriod cx d askFrom askTo st =
     bind_r (closePeriodInput d askFrom askTo) (\<lambda>(from, to).
     bind_r (guard_r (from < to) (SubstratError Validation_Failed None (''to '' @ to @ '' must be after from '' @ from))) (\<lambda>_.
     bind_r (guard_r (case closeHorizon st of None \<Rightarrow> True | Some h \<Rightarrow> h \<le> from)
        (mt_conflict ''period_overlap'' (''period from '' @ from @ '' overlaps the close horizon '' @ the (closeHorizon st)))) (\<lambda>_.
     case ulid cx st of (i, st1) \<Rightarrow>
     bind_r (insert_row (\<lambda>a b. q_id a = q_id b)
        \<lparr>q_id = i, q_from_at = from, q_to_at = to, q_closed_by = cx_principal cx, q_closed_at = cx_at cx\<rparr> (mt_periods st1)) (\<lambda>rows.
     bind_r (close_lines cx i from to (sort_key m_key (mt_meters st1)) (st1\<lparr>mt_periods := rows\<rparr>)) (\<lambda>(lines, st2).
     bind_r (emit cx (mt_event ''metering.period-closed'' ''metering-period'' i
        (JObj [(''periodId'', JStr i), (''from'', JStr from), (''to'', JStr to), (''lines'', JArr (map json_period_line lines))])) st2) (\<lambda>st3.
     bind_r (mt_returns (''metering period '' @ i) (isoInstantIn from \<and> isoInstantIn to)
        \<lparr>mp_id = i, mp_from = from, mp_to = to, mp_closedBy = cx_principal cx, mp_closedAt = cx_at cx\<rparr>) (\<lambda>p.
       Inr ((p, lines), st3))))))))"

definition listPeriods :: "'a mt_store_scheme \<Rightarrow> metering_period list result" where
  "listPeriods st = traverse toPeriod (sort_key q_from_at (sort_key q_id (mt_periods st)))"

definition periodLines :: "string \<Rightarrow> 'a mt_store_scheme \<Rightarrow> period_line list result" where
  "periodLines pid st =
     bind_r (guard_r (row_where (\<lambda>p. q_id p = pid) (mt_periods st) \<noteq> None)
        (SubstratError Not_Found None (''metering period not found: '' @ pid))) (\<lambda>_.
       traverse toLine (sort_key l_meter_key (filter (\<lambda>l. l_period_id l = pid) (mt_lines st))))"

section \<open>Operation bindings\<close>

definition nul :: char where
  "nul = CHR 0x00"

definition CURSOR_FIELD_SEPARATOR :: string where
  "CURSOR_FIELD_SEPARATOR = [nul]"

definition configureMeterOp where
  "configureMeterOp cx input st = bind_r (require cx ''metering:configure'' None st) (configureMeter cx input)"

definition recordOp where
  "recordOp cx d input st = bind_r (require cx ''metering:record'' None st) (recordUsage cx d input)"

definition closePeriodOp where
  "closePeriodOp cx d askFrom askTo st = bind_r (require cx ''metering:close'' None st) (closePeriod cx d askFrom askTo)"

text \<open>A read: the check, then what it answers; the store changes only by the passed check.\<close>

definition read_op :: "op_ctx \<Rightarrow> ('a mt_store_scheme \<Rightarrow> 'v result) \<Rightarrow> 'a mt_store_scheme \<Rightarrow> ('v \<times> 'a mt_store_scheme) result" where
  "read_op cx answer st =
     bind_r (require cx ''metering:read'' None st) (\<lambda>st1. bind_r (answer st1) (\<lambda>v. Inr (v, st1)))"

definition totalOp where
  "totalOp cx d key askFrom askTo = read_op cx (usageTotal d key askFrom askTo)"

definition entry_cursor :: "usage_entry \<Rightarrow> string" where
  "entry_cursor e = ue_occurredAt e @ CURSOR_FIELD_SEPARATOR @ ue_id e"

definition period_cursor :: "metering_period \<Rightarrow> string" where
  "period_cursor p = mp_from p @ CURSOR_FIELD_SEPARATOR @ mp_id p"

definition listMetersOp where
  "listMetersOp cx asked cursor =
     read_op cx (\<lambda>st. bind_r (listMeters st) (\<lambda>ms. Inr (pageOverFold ms asked cursor me_key True)))"

definition listEntriesOp where
  "listEntriesOp cx d key subj askFrom askTo asked cursor =
     read_op cx (\<lambda>st. bind_r (listEntries d key subj askFrom askTo st) (\<lambda>es. Inr (pageOverFold es asked cursor entry_cursor True)))"

definition listPeriodsOp where
  "listPeriodsOp cx asked cursor =
     read_op cx (\<lambda>st. bind_r (listPeriods st) (\<lambda>ps. Inr (pageOverFold ps asked cursor period_cursor True)))"

definition periodLinesOp where
  "periodLinesOp cx pid asked cursor =
     read_op cx (\<lambda>st. bind_r (periodLines pid st) (\<lambda>ls. Inr (pageOverFold ls asked cursor pl_meterKey True)))"

section \<open>The aggregate of a window\<close>

text \<open>The reference: an exact sum, or the largest sample, or the last one carried forward.\<close>

definition largest :: "string list \<Rightarrow> string" where
  "largest qs = foldl (\<lambda>m q. if micro m < micro q then q else m) (hd qs) qs"

definition usage :: "meter_row \<Rightarrow> string \<Rightarrow> string \<Rightarrow> entry_row list \<Rightarrow> usage_aggregate option" where
  "usage m from to es =
     (let ws = window (m_key m) from to es; old = earlier (m_key m) from es in
      if m_kind m = ''counter'' then
        (if ws = [] then None
         else Some \<lparr>ag_qty = fromMicro (sum_list (map (\<lambda>e. micro (e_qty e)) ws)), ag_entryCount = int (length ws)\<rparr>)
      else if ws \<noteq> [] then Some \<lparr>ag_qty = largest (map e_qty ws), ag_entryCount = int (length ws)\<rparr>
      else if old = [] then None else Some \<lparr>ag_qty = e_qty (last old), ag_entryCount = 0\<rparr>)"

definition entry_ok :: "entry_row \<Rightarrow> bool" where
  "entry_ok e \<longleftrightarrow> signedDecimal (e_qty e) \<and> isoInstantIn (e_occurred_at e)"

lemma sum_qty_exact:
  assumes "signedDecimal acc" and "list_all signedDecimal qs" and "qs \<noteq> []"
  shows "sum_qty acc qs = Inr (fromMicro (micro acc + sum_list (map micro qs)))"
  using assms
proof (induction qs arbitrary: acc)
  case (Cons q qs)
  have step: "addDecimal acc q = Inr (fromMicro (micro acc + micro q))"
    using Cons.prems by (simp add: addDecimal_def toMicro_micro)
  show ?case
  proof (cases "qs = []")
    case False
    then show ?thesis using Cons.prems Cons.IH [of "fromMicro (micro acc + micro q)"] by (simp add: step algebra_simps)
  qed (simp add: step)
qed simp

lemma max_qty_largest:
  assumes "signedDecimal m" and "list_all signedDecimal qs"
  shows "max_qty m qs = Inr (foldl (\<lambda>m q. if micro m < micro q then q else m) m qs)"
  using assms
proof (induction qs arbitrary: m)
  case (Cons q qs)
  have "compareDecimal q m = Inr (if micro q < micro m then -1 else if micro m < micro q then 1 else 0)"
    using Cons.prems by (simp add: compareDecimal_def toMicro_micro)
  then show ?case using Cons by simp
qed simp

lemma set_by_time [simp]: "set (by_time es) = set es"
  by (simp add: by_time_def)

lemma by_time_Nil [simp]: "by_time es = [] \<longleftrightarrow> es = []"
  by (metis set_by_time set_empty)

lemma traverse_entryFold:
  assumes "\<And>e. e \<in> set es \<Longrightarrow> entry_ok e"
  shows "traverse (entryFold surface) es = Inr (map e_qty es)"
  using assms by (intro traverse_total) (simp add: entryFold_def entry_ok_def returns_def)

lemma aggregate_usage:
  assumes "\<And>e. e \<in> set (mt_entries st) \<Longrightarrow> entry_ok e"
  shows "aggregateMeter m from to st = Inr (usage m from to (mt_entries st))"
proof -
  let ?ws = "window (m_key m) from to (mt_entries st)" and ?old = "earlier (m_key m) from (mt_entries st)"
  have ws: "e \<in> set ?ws \<Longrightarrow> entry_ok e" and old: "e \<in> set ?old \<Longrightarrow> entry_ok e" for e
    using assms by (auto simp: window_def earlier_def)
  have rows: "traverse (entryFold s) ?ws = Inr (map e_qty ?ws)" for s by (rule traverse_entryFold [OF ws])
  have qs: "list_all signedDecimal (map e_qty ?ws)" using ws by (auto simp: list_all_iff entry_ok_def)
  have "sum_qty ''0'' (map e_qty ?ws) = Inr (fromMicro (sum_list (map (\<lambda>e. micro (e_qty e)) ?ws)))" if "?ws \<noteq> []"
    using sum_qty_exact [OF zero_qty(1) qs] that by (simp add: zero_qty comp_def)
  moreover have "max_qty (hd (map e_qty ?ws)) (map e_qty ?ws) = Inr (largest (map e_qty ?ws))" if "?ws \<noteq> []"
    unfolding largest_def by (rule max_qty_largest [OF _ qs]) (use qs that in \<open>cases ?ws; simp\<close>)
  moreover have "entryFold s (last ?old) = Inr (e_qty (last ?old))" if "?old \<noteq> []" for s
    using old [of "last ?old"] that by (simp add: entryFold_def entry_ok_def returns_def)
  ultimately show ?thesis
    by (cases "?ws = []"; cases ?old) (simp_all add: aggregateMeter_def usage_def rows Let_def)
qed

text \<open>An entry of another meter, or at or after the end of the window, does not change the aggregate.\<close>

lemma usage_append:
  assumes "from \<le> to" and "e_meter_key e = m_key m \<Longrightarrow> to \<le> e_occurred_at e"
  shows "usage m from to (es @ [e]) = usage m from to es"
proof -
  have "\<not> (e_meter_key e = m_key m \<and> e_occurred_at e < to)" using assms(2) by auto
  moreover have "e_occurred_at e < from \<Longrightarrow> e_occurred_at e < to" using assms(1) by (meson order.strict_trans2)
  ultimately show ?thesis by (auto simp: usage_def window_def earlier_def)
qed

lemma usage_unknown:
  assumes "\<And>e. e \<in> set es \<Longrightarrow> e_meter_key e \<noteq> m_key m"
  shows "usage m from to es = None"
proof -
  have "window (m_key m) from to es = []" "earlier (m_key m) from es = []"
    using assms by (auto simp: window_def earlier_def filter_empty_conv)
  then show ?thesis by (simp add: usage_def)
qed

lemma usage_meter: "m_key m' = m_key m \<Longrightarrow> m_kind m' = m_kind m \<Longrightarrow> usage m' from to es = usage m from to es"
  by (simp add: usage_def)

lemma usage_decimal:
  assumes "\<And>e. e \<in> set es \<Longrightarrow> entry_ok e" and "usage m from to es = Some a"
  shows "signedDecimal (ag_qty a)"
proof -
  have big: "foldl (\<lambda>m q. if micro m < micro q then q else m) q qs \<in> set (q # qs)" for q qs
    by (induction qs arbitrary: q) (auto split: if_splits)
  have "largest (map e_qty ws) \<in> e_qty ` set ws" if "ws \<noteq> []" for ws
    using big [of "hd (map e_qty ws)" "map e_qty ws"] that unfolding largest_def by (cases ws) auto
  moreover have "signedDecimal (e_qty e)" if "e \<in> set (window (m_key m) from to es) \<or> e \<in> set (earlier (m_key m) from es)" for e
    using that assms(1) by (auto simp: window_def earlier_def entry_ok_def)
  moreover have "last old \<in> set old" if "old \<noteq> []" for old :: "entry_row list" using that by simp
  ultimately show ?thesis
    using assms(2) by (fastforce simp: usage_def Let_def split: if_splits)
qed

section \<open>A call as a step of the tables\<close>

definition line_view :: "period_line_row \<Rightarrow> period_line" where
  "line_view l = \<lparr>pl_meterKey = l_meter_key l, pl_kind = l_kind l, pl_unit = l_unit l, pl_qty = l_qty l, pl_entryCount = l_entry_count l\<rparr>"

definition line_of :: "meter_row \<Rightarrow> usage_aggregate \<Rightarrow> period_line" where
  "line_of m a = \<lparr>pl_meterKey = m_key m, pl_kind = m_kind m, pl_unit = m_unit m, pl_qty = ag_qty a, pl_entryCount = ag_entryCount a\<rparr>"

lemma line_of_key [simp]: "pl_meterKey (line_of m a) = m_key m"
  by (simp add: line_of_def)

text \<open>The lines a close writes for a window, over the meters by key.\<close>

definition frozen :: "string \<Rightarrow> string \<Rightarrow> meter_row list \<Rightarrow> entry_row list \<Rightarrow> period_line list" where
  "frozen from to ms es = List.map_filter (\<lambda>m. map_option (line_of m) (usage m from to es)) (sort_key m_key ms)"

inductive mt_tab :: "'a mt_store_scheme \<Rightarrow> 'a mt_store_scheme \<Rightarrow> bool" where
  meter_added: "m_key m \<notin> m_key ` set (mt_meters st) \<Longrightarrow> m_kind m \<in> set meterKind \<Longrightarrow>
    mt_meters st' = mt_meters st @ [m] \<Longrightarrow> mt_entries st' = mt_entries st \<Longrightarrow> mt_periods st' = mt_periods st \<Longrightarrow>
    mt_lines st' = mt_lines st \<Longrightarrow> mt_tab st st'"
| meter_revised: "mt_meters st' = update_where (\<lambda>r. m_key r = k) (revised_meter input) (mt_meters st) \<Longrightarrow>
    mt_entries st' = mt_entries st \<Longrightarrow> mt_periods st' = mt_periods st \<Longrightarrow> mt_lines st' = mt_lines st \<Longrightarrow> mt_tab st st'"
| entry_added: "entry_ok e \<Longrightarrow> e_meter_key e \<in> m_key ` set (mt_meters st) \<Longrightarrow> \<not> list_ex (entry_clash e) (mt_entries st) \<Longrightarrow>
    (\<And>h. closeHorizon st = Some h \<Longrightarrow> h \<le> e_occurred_at e) \<Longrightarrow>
    mt_meters st' = mt_meters st \<Longrightarrow> mt_entries st' = mt_entries st @ [e] \<Longrightarrow> mt_periods st' = mt_periods st \<Longrightarrow>
    mt_lines st' = mt_lines st \<Longrightarrow> mt_tab st st'"
| period_closed: "q_from_at p < q_to_at p \<Longrightarrow> isoInstantIn (q_from_at p) \<Longrightarrow> isoInstantIn (q_to_at p) \<Longrightarrow>
    q_id p \<notin> q_id ` set (mt_periods st) \<Longrightarrow> (\<And>h. closeHorizon st = Some h \<Longrightarrow> h \<le> q_from_at p) \<Longrightarrow>
    (\<And>l. l \<in> set ls \<Longrightarrow> l_period_id l = q_id p) \<Longrightarrow>
    ((\<And>e. e \<in> set (mt_entries st) \<Longrightarrow> entry_ok e) \<Longrightarrow> map line_view ls = frozen (q_from_at p) (q_to_at p) (mt_meters st) (mt_entries st)) \<Longrightarrow>
    mt_meters st' = mt_meters st \<Longrightarrow> mt_entries st' = mt_entries st \<Longrightarrow> mt_periods st' = mt_periods st @ [p] \<Longrightarrow>
    mt_lines st' = mt_lines st @ ls \<Longrightarrow> mt_tab st st'"
| untouched: "mt_meters st' = mt_meters st \<Longrightarrow> mt_entries st' = mt_entries st \<Longrightarrow> mt_periods st' = mt_periods st \<Longrightarrow>
    mt_lines st' = mt_lines st \<Longrightarrow> mt_tab st st'"

lemma mt_more_tables:
  fixes st st' :: "'a mt_store_scheme"
  assumes "scope_store.more st' = scope_store.more st"
  shows "mt_meters st' = mt_meters st" and "mt_entries st' = mt_entries st" and "mt_periods st' = mt_periods st"
    and "mt_lines st' = mt_lines st"
  using assms by (cases st, cases st', simp)+

lemma mt_emit_tables:
  fixes st st' :: "'a mt_store_scheme"
  assumes "emit cx ev st = Inr st'"
  shows "mt_meters st' = mt_meters st" and "mt_entries st' = mt_entries st" and "mt_periods st' = mt_periods st"
    and "mt_lines st' = mt_lines st"
  using mt_more_tables [OF emit_Inr(3) [OF assms]] by simp_all

lemma mt_require_tables:
  fixes st st' :: "'a mt_store_scheme"
  assumes "require cx p e st = Inr st'"
  shows "mt_meters st' = mt_meters st" and "mt_entries st' = mt_entries st" and "mt_periods st' = mt_periods st"
    and "mt_lines st' = mt_lines st"
  using mt_more_tables [OF require_Inr(4) [OF assms]] by simp_all

lemma mt_ulid_tables:
  fixes st st1 :: "'a mt_store_scheme"
  assumes "ulid cx st = (i, st1)"
  shows "mt_meters st1 = mt_meters st" and "mt_entries st1 = mt_entries st" and "mt_periods st1 = mt_periods st"
    and "mt_lines st1 = mt_lines st"
  using assms by (auto simp: ulid_def)

lemma storedMeter_Inr [monad_simps]: "storedMeter r = Inr r' \<longleftrightarrow> m_kind r \<in> set meterKind \<and> r' = r"
  by (auto simp: storedMeter_def monad_simps)

lemma getMeterRow_Inr:
  "getMeterRow k st = Inr r \<longleftrightarrow> row_where (\<lambda>x. m_key x = k) (mt_meters st) = Some r \<and> m_kind r \<in> set meterKind"
  by (auto simp: getMeterRow_def monad_simps split: option.splits)

lemma configureMeter_tab:
  assumes "configureMeter cx input st = Inr (v, st')"
  shows "mt_tab st st'"
proof -
  from assms obtain st1 row ev where kind: "ci_kind input \<in> set meterKind" and conf: "configured cx input st = Inr st1"
    and em: "emit cx ev st1 = Inr st'"
    by (auto simp: configureMeter_def monad_simps)
  show ?thesis
  proof (cases "row_where (\<lambda>r. m_key r = ci_key input) (mt_meters st)")
    case None
    then have "ci_key input \<notin> m_key ` set (mt_meters st)" by (auto simp: row_where_None)
    with None conf kind mt_emit_tables [OF em] show ?thesis
      by (intro mt_tab.meter_added [of "new_meter cx input"]) (auto simp: configured_def new_meter_def monad_simps)
  next
    case (Some r)
    with conf mt_emit_tables [OF em] show ?thesis
      by (intro mt_tab.meter_revised [of _ "ci_key input" input]) (auto simp: configured_def monad_simps)
  qed
qed

lemma toEntry_ok: "toEntry e = Inr v \<Longrightarrow> entry_ok e"
  by (auto simp: toEntry_def storedEntry_def entry_ok_def monad_simps)

lemma recordUsage_Inr:
  assumes "recordUsage cx d input st = Inr ((v, b), st')"
  obtains (replayed) m given prior where "b" and "st' = st" and "recordUsageInput d input = Inr given"
      and "getMeterRow (ru_meter input) st = Inr m" and "m_active m = 1" and "m_kind m = ''gauge'' \<longrightarrow> nonNegDecimal (ru_qty input)"
      and "priorEntry (m_key m) (ru_dedupeKey input) st = Some prior" and "toEntry prior = Inr v" and "micro (e_qty prior) = micro (ru_qty input)"
  | (fresh) m given i st1 e ev where "\<not> b" and "recordUsageInput d input = Inr given" and "getMeterRow (ru_meter input) st = Inr m"
      and "m_active m = 1" and "m_kind m = ''gauge'' \<longrightarrow> nonNegDecimal (ru_qty input)"
      and "priorEntry (m_key m) (ru_dedupeKey input) st = None" and "within_bounds cx d (or_else given (cx_at cx)) st = Inr ()"
      and "ulid cx st = (i, st1)" and "e = new_entry cx i (m_key m) input (or_else given (cx_at cx))"
      and "\<not> list_ex (entry_clash e) (mt_entries st1)" and "toEntry e = Inr v"
      and "emit cx ev (st1\<lparr>mt_entries := mt_entries st1 @ [e]\<rparr>) = Inr st'"
proof -
  from assms obtain given m where base: "recordUsageInput d input = Inr given" "getMeterRow (ru_meter input) st = Inr m"
    "m_active m = 1" "m_kind m = ''gauge'' \<longrightarrow> nonNegDecimal (ru_qty input)"
    by (auto simp: recordUsage_def monad_simps)
  have qty: "signedDecimal (ru_qty input)" using base(1) by (auto simp: recordUsageInput_def monad_simps)
  show thesis
  proof (cases "priorEntry (m_key m) (ru_dedupeKey input) st")
    case (Some prior)
    have ok: "toEntry prior = Inr v \<and> b \<and> st' = st \<and> compareDecimal (e_qty prior) (ru_qty input) = Inr 0 \<and> signedDecimal (e_qty prior)"
      using assms base Some by (auto simp: recordUsage_def storedEntry_def monad_simps)
    then have "micro (e_qty prior) = micro (ru_qty input)"
      using qty by (auto simp: compareDecimal_def toMicro_micro split: if_splits)
    with ok base Some show thesis by (intro replayed) auto
  next
    case None
    obtain i st1 where u: "ulid cx st = (i, st1)" by (cases "ulid cx st")
    from assms base None u show thesis
      by (auto simp: recordUsage_def monad_simps Let_def intro!: fresh [of given m i st1])
  qed
qed

lemma recordUsage_tab:
  assumes "recordUsage cx d input st = Inr ((v, b), st')"
  shows "mt_tab st st'"
  using assms
proof (cases rule: recordUsage_Inr)
  case replayed
  then show ?thesis by (intro mt_tab.untouched) simp_all
next
  case (fresh m given i st1 e ev)
  have "m \<in> set (mt_meters st)" using fresh(3) by (auto simp: getMeterRow_Inr dest: row_where_SomeD)
  moreover have "h \<le> e_occurred_at e" if "closeHorizon st = Some h" for h
    using fresh(7,9) that by (auto simp: within_bounds_def new_entry_def monad_simps)
  moreover note mt_ulid_tables [OF fresh(8)] mt_emit_tables [OF fresh(12)]
  ultimately show ?thesis
    using fresh(9,10) toEntry_ok [OF fresh(11)] by (intro mt_tab.entry_added [of e]) (auto simp: new_entry_def)
qed

lemma map_filter_Cons: "List.map_filter f (x # xs) = (case f x of None \<Rightarrow> List.map_filter f xs | Some y \<Rightarrow> y # List.map_filter f xs)"
  by (simp add: List.map_filter_def split: option.splits)

lemma close_lines_Inr:
  assumes "close_lines cx pid from to ms st = Inr (lines, st')"
  shows "\<exists>ls. mt_meters st' = mt_meters st \<and> mt_entries st' = mt_entries st \<and> mt_periods st' = mt_periods st \<and>
    mt_lines st' = mt_lines st @ ls \<and> (\<forall>l \<in> set ls. l_period_id l = pid) \<and>
    ((\<forall>e \<in> set (mt_entries st). entry_ok e) \<longrightarrow>
       map line_view ls = List.map_filter (\<lambda>m. map_option (line_of m) (usage m from to (mt_entries st))) ms)"
  using assms
proof (induction ms arbitrary: st lines)
  case (Cons raw ms)
  from Cons.prems obtain agg where agg: "aggregateMeter raw from to st = Inr agg" by (auto simp: monad_simps)
  have pure: "agg = usage raw from to (mt_entries st)" if "\<forall>e \<in> set (mt_entries st). entry_ok e"
    using aggregate_usage [of st raw "from" to] that agg by simp
  show ?case
  proof (cases agg)
    case None
    with Cons.prems agg have "close_lines cx pid from to ms st = Inr (lines, st')" by (auto simp: monad_simps)
    from Cons.IH [OF this] pure None show ?thesis by (auto simp: map_filter_Cons)
  next
    case (Some a)
    obtain i st1 where u: "ulid cx st = (i, st1)" by (cases "ulid cx st")
    let ?l = "\<lparr>l_id = i, l_period_id = pid, l_meter_key = m_key raw, l_kind = m_kind raw, l_unit = m_unit raw,
      l_qty = ag_qty a, l_entry_count = ag_entryCount a\<rparr>"
    from Cons.prems agg Some u obtain ls' where "close_lines cx pid from to ms (st1\<lparr>mt_lines := mt_lines st1 @ [?l]\<rparr>) = Inr (ls', st')"
      by (auto simp: monad_simps)
    from Cons.IH [OF this] obtain ls where ls: "mt_meters st' = mt_meters st1" "mt_entries st' = mt_entries st1"
      "mt_periods st' = mt_periods st1" "mt_lines st' = mt_lines st1 @ ?l # ls" "\<forall>l \<in> set ls. l_period_id l = pid"
      "(\<forall>e \<in> set (mt_entries st1). entry_ok e) \<longrightarrow>
         map line_view ls = List.map_filter (\<lambda>m. map_option (line_of m) (usage m from to (mt_entries st1))) ms" by auto
    have "map line_view (?l # ls) = List.map_filter (\<lambda>m. map_option (line_of m) (usage m from to (mt_entries st))) (raw # ms)"
      if "\<forall>e \<in> set (mt_entries st). entry_ok e"
      using ls(6) that pure [OF that, symmetric] Some mt_ulid_tables [OF u]
      by (simp add: map_filter_Cons line_view_def line_of_def split: option.splits)
    with ls(1-5) mt_ulid_tables [OF u] show ?thesis by (intro exI [of _ "?l # ls"]) simp
  qed
qed (simp add: List.map_filter_def)

lemma closePeriod_tab:
  assumes "closePeriod cx d askFrom askTo st = Inr (x, st')"
  shows "mt_tab st st'"
proof -
  obtain i st1 where u: "ulid cx st = (i, st1)" by (cases "ulid cx st")
  from assms u obtain "from" to lines st2 ev
    where win: "from < to" "isoInstantIn from" "isoInstantIn to"
      and hor: "case closeHorizon st of None \<Rightarrow> True | Some h \<Rightarrow> h \<le> from"
      and fresh: "\<not> list_ex (\<lambda>b. i = q_id b) (mt_periods st1)"
      and ls: "close_lines cx i from to (sort_key m_key (mt_meters st1))
        (st1\<lparr>mt_periods := mt_periods st1 @ [\<lparr>q_id = i, q_from_at = from, q_to_at = to, q_closed_by = cx_principal cx, q_closed_at = cx_at cx\<rparr>]\<rparr>) =
          Inr (lines, st2)"
      and em: "emit cx ev st2 = Inr st'"
    by (auto simp: closePeriod_def monad_simps)
  from close_lines_Inr [OF ls] mt_ulid_tables [OF u] mt_emit_tables [OF em] obtain new where
    "mt_meters st' = mt_meters st" "mt_entries st' = mt_entries st" "mt_lines st' = mt_lines st @ new"
    "mt_periods st' = mt_periods st @ [\<lparr>q_id = i, q_from_at = from, q_to_at = to, q_closed_by = cx_principal cx, q_closed_at = cx_at cx\<rparr>]"
    "\<forall>l \<in> set new. l_period_id l = i"
    "(\<forall>e \<in> set (mt_entries st). entry_ok e) \<longrightarrow> map line_view new = frozen from to (mt_meters st) (mt_entries st)"
    by (auto simp: frozen_def)
  with win hor fresh mt_ulid_tables [OF u] show ?thesis
    by (intro mt_tab.period_closed [of "\<lparr>q_id = i, q_from_at = from, q_to_at = to, q_closed_by = cx_principal cx, q_closed_at = cx_at cx\<rparr>" st new])
      (auto simp: list_ex_iff)
qed

section \<open>The engine's runs\<close>

text \<open>A committed call, or anything else in the scope that leaves the engine's tables alone.\<close>

inductive mt_step :: "'a mt_store_scheme \<Rightarrow> 'a mt_store_scheme \<Rightarrow> bool" where
  u_configure: "configureMeter cx input st = Inr (v, st') \<Longrightarrow> mt_step st st'"
| u_record: "recordUsage cx d usg st = Inr ((w, b), st') \<Longrightarrow> mt_step st st'"
| u_close: "closePeriod cx d askFrom askTo st = Inr (x, st') \<Longrightarrow> mt_step st st'"
| u_other: "mt_meters st' = mt_meters st \<Longrightarrow> mt_entries st' = mt_entries st \<Longrightarrow> mt_periods st' = mt_periods st \<Longrightarrow>
    mt_lines st' = mt_lines st \<Longrightarrow> mt_step st st'"

lemma mt_step_tab: "mt_step st st' \<Longrightarrow> mt_tab st st'"
  by (induction rule: mt_step.induct) (blast intro: configureMeter_tab recordUsage_tab closePeriod_tab mt_tab.untouched)+

lemma mt_run_tab: "mt_step\<^sup>*\<^sup>* st st' \<Longrightarrow> mt_tab\<^sup>*\<^sup>* st st'"
  by (induction rule: rtranclp_induct) (auto intro: rtranclp.rtrancl_into_rtrancl mt_step_tab)

section \<open>The ledger's invariant\<close>

definition usage_ok :: "'a mt_store_scheme \<Rightarrow> bool" where
  "usage_ok st \<longleftrightarrow>
     distinct (map m_key (mt_meters st)) \<and> (\<forall>m \<in> set (mt_meters st). m_kind m \<in> set meterKind) \<and>
     distinct (map e_id (mt_entries st)) \<and> distinct (map (\<lambda>e. (e_meter_key e, e_dedupe_key e)) (mt_entries st)) \<and>
     (\<forall>e \<in> set (mt_entries st). entry_ok e \<and> e_meter_key e \<in> m_key ` set (mt_meters st)) \<and>
     distinct (map q_id (mt_periods st)) \<and> sorted_wrt (\<lambda>p q. q_to_at p \<le> q_from_at q) (mt_periods st) \<and>
     (\<forall>p \<in> set (mt_periods st). q_from_at p < q_to_at p \<and> isoInstantIn (q_from_at p) \<and> isoInstantIn (q_to_at p)) \<and>
     l_period_id ` set (mt_lines st) \<subseteq> q_id ` set (mt_periods st) \<and>
     (\<forall>p \<in> set (mt_periods st). map line_view (filter (\<lambda>l. l_period_id l = q_id p) (mt_lines st)) =
        frozen (q_from_at p) (q_to_at p) (mt_meters st) (mt_entries st))"

lemma horizon_bounds:
  assumes "\<And>h. closeHorizon st = Some h \<Longrightarrow> h \<le> u" and "p \<in> set (mt_periods st)"
  shows "q_to_at p \<le> u"
proof -
  have "closeHorizon st = Some (Max (q_to_at ` set (mt_periods st)))" using assms(2) by (auto simp: closeHorizon_def)
  moreover have "q_to_at p \<le> Max (q_to_at ` set (mt_periods st))" using assms(2) by simp
  ultimately show ?thesis using assms(1) by fastforce
qed

lemma map_filter_conv: "List.map_filter f xs = map (\<lambda>x. the (f x)) (filter (\<lambda>x. f x \<noteq> None) xs)"
  by (simp add: List.map_filter_def comp_def)

lemma frozen_append_meter:
  assumes "usage m from to es = None"
  shows "frozen from to (ms @ [m]) es = frozen from to ms es"
  using assms by (simp add: frozen_def map_filter_conv filter_sort)

lemma frozen_append_entry:
  assumes "from \<le> to" and "to \<le> e_occurred_at e"
  shows "frozen from to ms (es @ [e]) = frozen from to ms es"
proof -
  have "usage m from to (es @ [e]) = usage m from to es" for m using assms by (intro usage_append)
  then show ?thesis by (simp add: frozen_def)
qed

lemma revised_meter_fixed [simp]:
  "m_key (revised_meter input r) = m_key r" "m_kind (revised_meter input r) = m_kind r" "m_unit (revised_meter input r) = m_unit r"
  by (simp_all add: revised_meter_def)

lemma map_filter_map: "List.map_filter f (map g xs) = List.map_filter (\<lambda>x. f (g x)) xs"
  by (induction xs) (simp_all add: List.map_filter_def)

lemma frozen_revised: "frozen from to (update_where (\<lambda>r. m_key r = k) (revised_meter input) ms) es = frozen from to ms es"
proof -
  define g where "g = (\<lambda>r. if m_key r = k then revised_meter input r else r)"
  have g: "m_key (g m) = m_key m" "usage (g m) from to es = usage m from to es" "line_of (g m) = line_of m" for m
    by (auto simp: g_def line_of_def fun_eq_iff intro: usage_meter)
  have "update_where (\<lambda>r. m_key r = k) (revised_meter input) ms = map g ms" by (simp add: update_where_def g_def)
  then show ?thesis by (simp add: frozen_def sort_map_key map_filter_map g)
qed

lemma usage_okD:
  assumes "usage_ok st"
  shows "distinct (map m_key (mt_meters st))" and "\<And>m. m \<in> set (mt_meters st) \<Longrightarrow> m_kind m \<in> set meterKind"
    and "distinct (map e_id (mt_entries st))" and "distinct (map (\<lambda>e. (e_meter_key e, e_dedupe_key e)) (mt_entries st))"
    and "\<And>e. e \<in> set (mt_entries st) \<Longrightarrow> entry_ok e" and "\<And>e. e \<in> set (mt_entries st) \<Longrightarrow> e_meter_key e \<in> m_key ` set (mt_meters st)"
    and "distinct (map q_id (mt_periods st))" and "sorted_wrt (\<lambda>p q. q_to_at p \<le> q_from_at q) (mt_periods st)"
    and "\<And>p. p \<in> set (mt_periods st) \<Longrightarrow> q_from_at p < q_to_at p"
    and "l_period_id ` set (mt_lines st) \<subseteq> q_id ` set (mt_periods st)"
    and "\<And>p. p \<in> set (mt_periods st) \<Longrightarrow> map line_view (filter (\<lambda>l. l_period_id l = q_id p) (mt_lines st)) =
        frozen (q_from_at p) (q_to_at p) (mt_meters st) (mt_entries st)"
  using assms unfolding usage_ok_def by blast+

lemma entry_added_ok:
  assumes "usage_ok st" and "entry_ok e" and "e_meter_key e \<in> m_key ` set (mt_meters st)"
    and "\<not> list_ex (entry_clash e) (mt_entries st)" and "\<And>h. closeHorizon st = Some h \<Longrightarrow> h \<le> e_occurred_at e"
    and "mt_meters st' = mt_meters st" "mt_entries st' = mt_entries st @ [e]" "mt_periods st' = mt_periods st" "mt_lines st' = mt_lines st"
  shows "usage_ok st'"
proof -
  have "frozen (q_from_at p) (q_to_at p) (mt_meters st) (mt_entries st @ [e]) = frozen (q_from_at p) (q_to_at p) (mt_meters st) (mt_entries st)"
    if "p \<in> set (mt_periods st)" for p
    using horizon_bounds [OF assms(5) that] usage_okD(9) [OF assms(1) that] by (intro frozen_append_entry) auto
  moreover have "e_id e \<notin> e_id ` set (mt_entries st)"
    "(e_meter_key e, e_dedupe_key e) \<notin> (\<lambda>e. (e_meter_key e, e_dedupe_key e)) ` set (mt_entries st)"
    using assms(4) by (auto simp: list_ex_iff entry_clash_def)
  ultimately show ?thesis using assms(1-3,6-) unfolding usage_ok_def by simp
qed

lemma meter_added_ok:
  assumes "usage_ok st" and "m_key m \<notin> m_key ` set (mt_meters st)" and "m_kind m \<in> set meterKind"
    and "mt_meters st' = mt_meters st @ [m]" "mt_entries st' = mt_entries st" "mt_periods st' = mt_periods st" "mt_lines st' = mt_lines st"
  shows "usage_ok st'"
proof -
  have "usage m from to (mt_entries st) = None" for "from" to
    using usage_okD(6) [OF assms(1)] assms(2) by (intro usage_unknown) metis
  then have "frozen from to (mt_meters st @ [m]) (mt_entries st) = frozen from to (mt_meters st) (mt_entries st)" for "from" to
    by (rule frozen_append_meter)
  with assms show ?thesis unfolding usage_ok_def by auto
qed

lemma period_closed_ok:
  assumes "usage_ok st" and "q_from_at p < q_to_at p" and "isoInstantIn (q_from_at p)" and "isoInstantIn (q_to_at p)"
    and "q_id p \<notin> q_id ` set (mt_periods st)" and "\<And>h. closeHorizon st = Some h \<Longrightarrow> h \<le> q_from_at p"
    and "\<And>l. l \<in> set ls \<Longrightarrow> l_period_id l = q_id p"
    and "map line_view ls = frozen (q_from_at p) (q_to_at p) (mt_meters st) (mt_entries st)"
    and "mt_meters st' = mt_meters st" "mt_entries st' = mt_entries st" "mt_periods st' = mt_periods st @ [p]" "mt_lines st' = mt_lines st @ ls"
  shows "usage_ok st'"
proof -
  have "l_period_id l \<noteq> q_id p" if "l \<in> set (mt_lines st)" for l
    using usage_okD(10) [OF assms(1)] assms(5) that by (metis image_eqI subsetD)
  then have "filter (\<lambda>l. l_period_id l = q_id p) (mt_lines st) = []" by (simp add: filter_empty_conv)
  moreover have "filter (\<lambda>l. l_period_id l = q_id p) ls = ls" using assms(7) by (simp add: filter_id_conv)
  moreover have "filter (\<lambda>l. l_period_id l = q_id r) ls = []" if "r \<in> set (mt_periods st)" for r
    using assms(5,7) that by (auto simp: filter_empty_conv)
  ultimately have "map line_view (filter (\<lambda>l. l_period_id l = q_id r) (mt_lines st @ ls)) =
      frozen (q_from_at r) (q_to_at r) (mt_meters st) (mt_entries st)" if "r \<in> set (mt_periods st @ [p])" for r
    using that usage_okD(11) [OF assms(1)] assms(8) by auto
  moreover have "q_to_at r \<le> q_from_at p" if "r \<in> set (mt_periods st)" for r
    using horizon_bounds [OF assms(6) that] .
  ultimately show ?thesis using assms(1-5,7,9-) unfolding usage_ok_def by (auto simp: sorted_wrt_append)
qed

lemma mt_tab_ok: "mt_tab st st' \<Longrightarrow> usage_ok st \<Longrightarrow> usage_ok st'"
proof (induction rule: mt_tab.induct)
  case (meter_added m st st')
  show ?case by (rule meter_added_ok [OF meter_added(7) meter_added(1-6)])
next
  case (meter_revised st' k input st)
  have keys: "map m_key (mt_meters st') = map m_key (mt_meters st)" using meter_revised(1) by (simp add: update_where_def)
  moreover have "m_key ` set (mt_meters st') = m_key ` set (mt_meters st)" using arg_cong [OF keys, of set] by simp
  moreover have "m_kind m \<in> set meterKind" if "m \<in> set (mt_meters st')" for m
    using that meter_revised(1) usage_okD(2) [OF meter_revised(5)] by (auto simp: set_update_where split: if_splits)
  ultimately show ?case
    using meter_revised by (simp add: usage_ok_def frozen_revised)
next
  case (entry_added e st st')
  show ?case by (rule entry_added_ok [OF entry_added(9) entry_added(1-8)])
next
  case (period_closed p st ls st')
  note lines = period_closed(7) [OF usage_okD(5) [OF period_closed(12)]]
  show ?case by (rule period_closed_ok [OF period_closed(12) period_closed(1-6) lines period_closed(8-11)])
next
  case (untouched st' st)
  then show ?case by (simp add: usage_ok_def)
qed

lemma mt_run_ok: "mt_step\<^sup>*\<^sup>* st st' \<Longrightarrow> usage_ok st \<Longrightarrow> usage_ok st'"
  by (induction rule: rtranclp_induct) (auto intro: mt_tab_ok mt_step_tab)

text \<open>Entries, periods and lines are only ever added, at the end; the key, kind and unit of a meter stay.\<close>

definition grows :: "'a mt_store_scheme \<Rightarrow> 'a mt_store_scheme \<Rightarrow> bool" where
  "grows st st' \<longleftrightarrow>
     (\<exists>es. mt_entries st' = mt_entries st @ es) \<and> (\<exists>ps. mt_periods st' = mt_periods st @ ps) \<and>
     (\<exists>ls. mt_lines st' = mt_lines st @ ls \<and> (\<forall>l \<in> set ls. l_period_id l \<notin> q_id ` set (mt_periods st))) \<and>
     (\<exists>ms. map (\<lambda>m. (m_key m, m_kind m, m_unit m)) (mt_meters st') = map (\<lambda>m. (m_key m, m_kind m, m_unit m)) (mt_meters st) @ ms)"

lemma mt_tab_grows: "mt_tab st st' \<Longrightarrow> grows st st'"
proof (induction rule: mt_tab.induct)
  case (meter_revised st' k input st)
  have "map (\<lambda>m. (m_key m, m_kind m, m_unit m)) (mt_meters st') = map (\<lambda>m. (m_key m, m_kind m, m_unit m)) (mt_meters st)"
    using meter_revised(1) by (simp add: update_where_def)
  with meter_revised show ?case by (simp add: grows_def)
qed (auto simp: grows_def)

lemma grows_trans:
  assumes "grows a b" and "grows b c"
  shows "grows a c"
proof -
  from assms(1) obtain es ps ls ms where 1: "mt_entries b = mt_entries a @ es" "mt_periods b = mt_periods a @ ps"
    "mt_lines b = mt_lines a @ ls" "\<forall>l \<in> set ls. l_period_id l \<notin> q_id ` set (mt_periods a)"
    "map (\<lambda>m. (m_key m, m_kind m, m_unit m)) (mt_meters b) = map (\<lambda>m. (m_key m, m_kind m, m_unit m)) (mt_meters a) @ ms"
    unfolding grows_def by blast
  from assms(2) obtain es' ps' ls' ms' where 2: "mt_entries c = mt_entries b @ es'" "mt_periods c = mt_periods b @ ps'"
    "mt_lines c = mt_lines b @ ls'" "\<forall>l \<in> set ls'. l_period_id l \<notin> q_id ` set (mt_periods b)"
    "map (\<lambda>m. (m_key m, m_kind m, m_unit m)) (mt_meters c) = map (\<lambda>m. (m_key m, m_kind m, m_unit m)) (mt_meters b) @ ms'"
    unfolding grows_def by blast
  have "\<forall>l \<in> set (ls @ ls'). l_period_id l \<notin> q_id ` set (mt_periods a)"
    using 1(2,4) 2(4) by auto
  then show ?thesis unfolding grows_def using 1(1-3,5) 2(1-3,5) by simp
qed

lemma mt_run_grows: "mt_step\<^sup>*\<^sup>* st st' \<Longrightarrow> grows st st'"
proof (induction rule: rtranclp_induct)
  case (step y z)
  then show ?case by (blast intro: grows_trans mt_tab_grows mt_step_tab)
qed (simp add: grows_def)

section \<open>Reading the frozen lines back\<close>

lemma in_frozen:
  assumes "l \<in> set (frozen from to ms es)"
  obtains m a where "m \<in> set ms" and "usage m from to es = Some a" and "l = line_of m a"
proof -
  from assms obtain m where m: "m \<in> set ms" "usage m from to es \<noteq> None" "l = the (map_option (line_of m) (usage m from to es))"
    by (auto simp: frozen_def map_filter_conv)
  then obtain a where "usage m from to es = Some a" by blast
  with m show thesis by (intro that [of m a]) simp_all
qed

lemma frozen_sorted:
  assumes "distinct (map m_key ms)"
  shows "sorted_wrt (<) (map pl_meterKey (frozen from to ms es))"
proof -
  have key: "pl_meterKey (the (map_option (line_of m) (usage m from to es))) = m_key m" if "usage m from to es \<noteq> None" for m
    using that by (auto simp: line_of_def)
  have "map pl_meterKey (frozen from to ms es) = map m_key (filter (\<lambda>m. usage m from to es \<noteq> None) (sort_key m_key ms))"
    using key by (simp add: frozen_def map_filter_conv)
  also have "sorted_wrt (<) \<dots>"
    using sorted_unique_key [OF assms] by (simp add: sorted_wrt_map sorted_wrt_filter)
  finally show ?thesis .
qed

lemma frozen_find:
  assumes "distinct (map m_key ms)" and "m \<in> set ms"
  shows "row_where (\<lambda>l. pl_meterKey l = m_key m) (frozen from to ms es) = map_option (line_of m) (usage m from to es)"
proof -
  have "row_where (\<lambda>l. pl_meterKey l = m_key m) (List.map_filter (\<lambda>m. map_option (line_of m) (usage m from to es)) xs) =
      map_option (line_of m) (usage m from to es)" if "distinct (map m_key xs)" "m \<in> set xs" for xs
    using that
  proof (induction xs)
    case (Cons x xs)
    show ?case
    proof (cases "x = m")
      case True
      have "row_where (\<lambda>l. pl_meterKey l = m_key m) (List.map_filter (\<lambda>m. map_option (line_of m) (usage m from to es)) xs) = None"
        using Cons.prems True by (auto simp: row_where_None map_filter_conv line_of_def image_iff)
      with True show ?thesis by (auto simp: map_filter_Cons split: option.splits)
    next
      case False
      with Cons.prems have "m_key x \<noteq> m_key m" by (auto simp: image_iff)
      with False Cons show ?thesis by (auto simp: map_filter_Cons split: option.splits)
    qed
  qed simp
  moreover have "distinct (map m_key (sort_key m_key ms))"
    using sorted_unique_key [OF assms(1)] by (simp add: strict_sorted_iff)
  ultimately show ?thesis using assms(2) by (simp add: frozen_def)
qed

lemma periodLines_frozen:
  assumes "usage_ok st" and "p \<in> set (mt_periods st)"
  shows "periodLines (q_id p) st = Inr (frozen (q_from_at p) (q_to_at p) (mt_meters st) (mt_entries st))"
proof -
  let ?L = "filter (\<lambda>l. l_period_id l = q_id p) (mt_lines st)"
  let ?F = "frozen (q_from_at p) (q_to_at p) (mt_meters st) (mt_entries st)"
  note L = usage_okD(11) [OF assms]
  have "map l_meter_key ?L = map pl_meterKey (map line_view ?L)" by (simp add: line_view_def)
  also have "\<dots> = map pl_meterKey ?F" by (simp only: L)
  finally have "sorted (map l_meter_key ?L)"
    using frozen_sorted [OF usage_okD(1) [OF assms(1)]] by (simp add: strict_sorted_iff)
  then have sort: "sort_key l_meter_key ?L = ?L" by (rule sort_key_id_if_sorted)
  have "toLine l = Inr (line_view l)" if "l \<in> set ?L" for l
  proof -
    have "line_view l \<in> set (map line_view ?L)" using that by simp
    then have "line_view l \<in> set ?F" unfolding L .
    then obtain m a where "m \<in> set (mt_meters st)" "usage m (q_from_at p) (q_to_at p) (mt_entries st) = Some a" "line_view l = line_of m a"
      by (rule in_frozen)
    with usage_okD(2) [OF assms(1)] usage_decimal [OF usage_okD(5) [OF assms(1)]] show ?thesis
      by (auto simp: toLine_def storedLine_def line_view_def line_of_def returns_def)
  qed
  then have "traverse toLine ?L = Inr ?F" using L traverse_total [of ?L toLine line_view] by simp
  moreover have "row_where (\<lambda>r. q_id r = q_id p) (mt_periods st) \<noteq> None" using assms(2) by (auto simp: row_where_None)
  ultimately show ?thesis by (simp add: periodLines_def sort)
qed

section \<open>Properties\<close>

lemma entry_kept:
  assumes "priorEntry k dk st = Some e" and "grows st st'"
  shows "priorEntry k dk st' = Some e"
  using assms by (auto simp: priorEntry_def grows_def row_where_append)

lemma meter_kind_kept:
  assumes "grows st st'" and "usage_ok st'" and "getMeterRow k st = Inr m" and "getMeterRow k st' = Inr m'"
  shows "m_key m' = k" and "m_kind m' = m_kind m"
proof -
  have m: "m \<in> set (mt_meters st)" "m_key m = k" and m': "m' \<in> set (mt_meters st')" "m_key m' = k"
    using assms(3,4) by (auto simp: getMeterRow_Inr dest: row_where_SomeD)
  from assms(1) obtain ms where "map (\<lambda>m. (m_key m, m_kind m, m_unit m)) (mt_meters st') = map (\<lambda>m. (m_key m, m_kind m, m_unit m)) (mt_meters st) @ ms"
    by (auto simp: grows_def)
  then have "(m_key m, m_kind m, m_unit m) \<in> set (map (\<lambda>m. (m_key m, m_kind m, m_unit m)) (mt_meters st'))" using m(1) by auto
  then obtain m2 where m2: "m2 \<in> set (mt_meters st')" "m_key m2 = m_key m" "m_kind m2 = m_kind m" by auto
  have "m2 = m'" using usage_okD(1) [OF assms(2)] m(2) m' m2(1,2) by (simp add: distinct_map inj_on_def)
  with m' m2(3) show "m_key m' = k" and "m_kind m' = m_kind m" by simp_all
qed

lemma recorded_prior:
  assumes "recordUsage cx d input st = Inr ((v, b), st1)"
  obtains m given prior where "recordUsageInput d input = Inr given" and "getMeterRow (ru_meter input) st = Inr m"
    and "m_kind m = ''gauge'' \<longrightarrow> nonNegDecimal (ru_qty input)"
    and "priorEntry (ru_meter input) (ru_dedupeKey input) st1 = Some prior" and "toEntry prior = Inr v"
    and "micro (e_qty prior) = micro (ru_qty input)"
  using assms
proof (cases rule: recordUsage_Inr)
  case (replayed m given prior)
  then have "m_key m = ru_meter input" by (auto simp: getMeterRow_Inr dest: row_where_SomeD)
  with replayed show thesis by (intro that [of given m prior]) auto
next
  case (fresh m given i st2 e ev)
  then have key: "m_key m = ru_meter input" by (auto simp: getMeterRow_Inr dest: row_where_SomeD)
  have "priorEntry (ru_meter input) (ru_dedupeKey input) st1 = Some e"
    using fresh(6,9) key mt_emit_tables [OF fresh(12)] mt_ulid_tables [OF fresh(8)]
    by (simp add: priorEntry_def row_where_append new_entry_def)
  with fresh key show thesis by (intro that [of given m e]) (auto simp: new_entry_def)
qed

lemma replay_answers:
  assumes "recordUsageInput d input = Inr given" and "getMeterRow (ru_meter input) st = Inr m" and "m_active m = 1"
    and "m_kind m = ''gauge'' \<longrightarrow> nonNegDecimal (ru_qty input)"
    and "priorEntry (ru_meter input) (ru_dedupeKey input) st = Some prior" and "toEntry prior = Inr v"
    and "micro (e_qty prior) = micro (ru_qty input)"
  shows "recordUsage cx d input st = Inr ((v, True), st)"
proof -
  have "m_key m = ru_meter input" using assms(2) by (auto simp: getMeterRow_Inr dest: row_where_SomeD)
  moreover have "entry_ok prior" using assms(6) by (rule toEntry_ok)
  moreover have "signedDecimal (ru_qty input)" using assms(1) by (auto simp: recordUsageInput_def monad_simps)
  ultimately show ?thesis
    using assms by (auto simp: recordUsage_def storedEntry_def returns_def entry_ok_def compareDecimal_def toMicro_micro)
qed

definition demo_iso :: date_lib where
  "demo_iso = \<lparr>d_parse = (\<lambda>s. Some (digits_value (take 2 (drop 14 s)) * 60000 + digits_value (take 2 (drop 17 s)) * 1000)),
     d_iso = (\<lambda>n. ''2024-01-01T00:'' @ padStart0 2 (show_nat (nat (n div 60000))) @ '':'' @
       padStart0 2 (show_nat (nat (n div 1000 mod 60))) @ ''.000Z'')\<rparr>"

definition demo_time :: "int \<Rightarrow> string" where
  "demo_time m = d_iso demo_iso (m * 60000)"

definition mt_ctx :: "int \<Rightarrow> op_ctx" where
  "mt_ctx m = demo_ctx\<lparr>cx_at := demo_time m\<rparr>"

definition demo_meter :: meter_row where
  "demo_meter = \<lparr>m_key = ''calls'', m_kind = ''counter'', m_unit = ''call'', m_description = None, m_active = 1, m_created_at = demo_time 0\<rparr>"

definition demo_ledger :: mt_store where
  "demo_ledger = \<lparr>tuples = [], outbox = [], passed = [], drawn = 0, mt_meters = [demo_meter], mt_entries = [], mt_periods = [], mt_lines = []\<rparr>"

definition demo_usage :: "string \<Rightarrow> string \<Rightarrow> record_input" where
  "demo_usage q dk = \<lparr>ru_meter = ''calls'', ru_qty = q, ru_subject = None, ru_occurredAt = None, ru_dedupeKey = dk, ru_note = None\<rparr>"

lemma demo_ledger_ok: "usage_ok demo_ledger"
  by (simp add: usage_ok_def demo_ledger_def demo_meter_def meterKind_def)

definition demo_line :: period_line where
  "demo_line = \<lparr>pl_meterKey = ''calls'', pl_kind = ''counter'', pl_unit = ''call'', pl_qty = ''2.5'', pl_entryCount = 1\<rparr>"

lemma demo_closed:
  obtains v b s x s2 p where "recordUsage (mt_ctx 1) demo_iso (demo_usage ''2.5'' ''a'') demo_ledger = Inr ((v, b), s)"
    and "closePeriod (mt_ctx 2) demo_iso ''2024-01-01T00:00:00Z'' ''2024-01-01T00:02:00Z'' s = Inr (x, s2)"
    and "p \<in> set (mt_periods s2)" and "usage_ok s2" and "periodLines (q_id p) s2 = Inr [demo_line]"
    and "mt_meters s2 = [demo_meter]"
proof -
  have "bind_r (recordUsage (mt_ctx 1) demo_iso (demo_usage ''2.5'' ''a'') demo_ledger) (\<lambda>(v, s).
      bind_r (closePeriod (mt_ctx 2) demo_iso ''2024-01-01T00:00:00Z'' ''2024-01-01T00:02:00Z'' s) (\<lambda>(x, s2).
      bind_r (guard_r (mt_periods s2 \<noteq> [] \<and> mt_meters s2 = [demo_meter]) (PlainError [])) (\<lambda>_. periodLines (q_id (hd (mt_periods s2))) s2))) = Inr [demo_line]"
    by code_simp
  then obtain v b s x s2 where r: "recordUsage (mt_ctx 1) demo_iso (demo_usage ''2.5'' ''a'') demo_ledger = Inr ((v, b), s)"
    and c: "closePeriod (mt_ctx 2) demo_iso ''2024-01-01T00:00:00Z'' ''2024-01-01T00:02:00Z'' s = Inr (x, s2)"
    and p: "mt_periods s2 \<noteq> []" "mt_meters s2 = [demo_meter]" "periodLines (q_id (hd (mt_periods s2))) s2 = Inr [demo_line]"
    by (auto simp: monad_simps)
  have "usage_ok s2" using mt_tab_ok [OF closePeriod_tab [OF c] mt_tab_ok [OF recordUsage_tab [OF r] demo_ledger_ok]] .
  with r c p show thesis by (intro that [of v b s x s2 "hd (mt_periods s2)"]) simp_all
qed

text \<open>
  C14. A closed period is evidence.  Whatever is recorded, configured or closed after it, its lines never
  change, and each of them is what the ledger of that day still gives for the window: for every meter,
  aggregating the period's window again answers the frozen line, or nothing where there is none.
\<close>

theorem closed_lines_reproducible:
  assumes "usage_ok st" and "mt_step\<^sup>*\<^sup>* st st'" and "p \<in> set (mt_periods st)"
  shows "\<exists>ls. periodLines (q_id p) st = Inr ls \<and> periodLines (q_id p) st' = Inr ls \<and>
    (\<forall>m \<in> set (mt_meters st'). aggregateMeter m (q_from_at p) (q_to_at p) st' =
       Inr (map_option (\<lambda>l. \<lparr>ag_qty = pl_qty l, ag_entryCount = pl_entryCount l\<rparr>) (row_where (\<lambda>l. pl_meterKey l = m_key m) ls)))"
proof -
  note ok = mt_run_ok [OF assms(2,1)] and more = mt_run_grows [OF assms(2)]
  let ?F = "\<lambda>s. frozen (q_from_at p) (q_to_at p) (mt_meters s) (mt_entries s)"
  have p': "p \<in> set (mt_periods st')" using more assms(3) by (auto simp: grows_def)
  from more obtain ls where "mt_lines st' = mt_lines st @ ls" "\<forall>l \<in> set ls. l_period_id l \<notin> q_id ` set (mt_periods st)"
    by (auto simp: grows_def)
  then have "filter (\<lambda>l. l_period_id l = q_id p) (mt_lines st') = filter (\<lambda>l. l_period_id l = q_id p) (mt_lines st)"
    using assms(3) by (auto simp: filter_empty_conv)
  then have same: "?F st' = ?F st" using usage_okD(11) [OF assms(1,3)] usage_okD(11) [OF ok p'] by simp
  have "aggregateMeter m (q_from_at p) (q_to_at p) st' =
      Inr (map_option (\<lambda>l. \<lparr>ag_qty = pl_qty l, ag_entryCount = pl_entryCount l\<rparr>) (row_where (\<lambda>l. pl_meterKey l = m_key m) (?F st')))"
    if "m \<in> set (mt_meters st')" for m
  proof -
    have "aggregateMeter m (q_from_at p) (q_to_at p) st' = Inr (usage m (q_from_at p) (q_to_at p) (mt_entries st'))"
      by (rule aggregate_usage) (rule usage_okD(5) [OF ok])
    then show ?thesis
      unfolding frozen_find [OF usage_okD(1) [OF ok] that] by (cases "usage m (q_from_at p) (q_to_at p) (mt_entries st')") (simp_all add: line_of_def)
  qed
  with same periodLines_frozen [OF assms(1,3)] periodLines_frozen [OF ok p'] show ?thesis by (intro exI [of _ "?F st"]) simp
qed

theorem closed_lines_reproducible_witness:
  "\<exists>v s x s2 p. recordUsage (mt_ctx 1) demo_iso (demo_usage ''2.5'' ''a'') demo_ledger = Inr (v, s) \<and>
    closePeriod (mt_ctx 2) demo_iso ''2024-01-01T00:00:00Z'' ''2024-01-01T00:02:00Z'' s = Inr (x, s2) \<and> p \<in> set (mt_periods s2) \<and>
    aggregateMeter demo_meter (q_from_at p) (q_to_at p) s2 = Inr (Some \<lparr>ag_qty = ''2.5'', ag_entryCount = 1\<rparr>)"
proof -
  obtain v b s x s2 p where 1: "recordUsage (mt_ctx 1) demo_iso (demo_usage ''2.5'' ''a'') demo_ledger = Inr ((v, b), s)"
    "closePeriod (mt_ctx 2) demo_iso ''2024-01-01T00:00:00Z'' ''2024-01-01T00:02:00Z'' s = Inr (x, s2)" "p \<in> set (mt_periods s2)" "usage_ok s2"
    "periodLines (q_id p) s2 = Inr [demo_line]" "mt_meters s2 = [demo_meter]"
    by (rule demo_closed)
  from closed_lines_reproducible [OF 1(4) rtranclp.rtrancl_refl 1(3)] 1(5,6)
  have "aggregateMeter demo_meter (q_from_at p) (q_to_at p) s2 =
      Inr (map_option (\<lambda>l. \<lparr>ag_qty = pl_qty l, ag_entryCount = pl_entryCount l\<rparr>) (row_where (\<lambda>l. pl_meterKey l = m_key demo_meter) [demo_line]))"
    by auto
  also have "\<dots> = Inr (Some \<lparr>ag_qty = ''2.5'', ag_entryCount = 1\<rparr>)" by (simp add: demo_meter_def demo_line_def)
  finally show ?thesis using 1(1-3) by blast
qed

text \<open>
  C15. A retry is harmless.  Once a usage has been recorded, the same call made again, at any later time
  and whatever ran in between, answers the entry first recorded and changes nothing, as long as the
  meter is active; and the ledger holds that observation exactly once.
\<close>

theorem usage_recorded_once:
  assumes "usage_ok st" and "recordUsage cx d input st = Inr ((v, b), st1)" and "mt_step\<^sup>*\<^sup>* st1 st2"
    and "getMeterRow (ru_meter input) st2 = Inr m" and "m_active m = 1"
  shows "recordUsage cx' d input st2 = Inr ((v, True), st2) \<and>
    length (filter (\<lambda>e. e_meter_key e = ru_meter input \<and> e_dedupe_key e = ru_dedupeKey input) (mt_entries st2)) = 1"
proof -
  have run: "mt_step\<^sup>*\<^sup>* st st2" using mt_step.u_record [OF assms(2)] assms(3) by (rule converse_rtranclp_into_rtranclp)
  note ok = mt_run_ok [OF run assms(1)]
  obtain m0 given prior where r: "recordUsageInput d input = Inr given" "getMeterRow (ru_meter input) st = Inr m0"
    "m_kind m0 = ''gauge'' \<longrightarrow> nonNegDecimal (ru_qty input)" "priorEntry (ru_meter input) (ru_dedupeKey input) st1 = Some prior"
    "toEntry prior = Inr v" "micro (e_qty prior) = micro (ru_qty input)" using assms(2) by (rule recorded_prior)
  have kind: "m_kind m = m_kind m0" using meter_kind_kept(2) [OF mt_run_grows [OF run] ok r(2) assms(4)] .
  have prior: "priorEntry (ru_meter input) (ru_dedupeKey input) st2 = Some prior"
    using entry_kept [OF r(4) mt_run_grows [OF assms(3)]] .
  let ?P = "\<lambda>e. e_meter_key e = ru_meter input \<and> e_dedupe_key e = ru_dedupeKey input"
  have "filter ?P (mt_entries st2) \<noteq> []"
    using row_where_SomeD [OF prior [unfolded priorEntry_def]] by (auto simp: filter_empty_conv)
  moreover have "length (filter ?P (mt_entries st2)) \<le> 1"
  proof -
    have "distinct (map (\<lambda>e. (e_meter_key e, e_dedupe_key e)) (filter ?P (mt_entries st2)))"
      using usage_okD(4) [OF ok] by (rule distinct_map_filter)
    moreover have "map (\<lambda>e. (e_meter_key e, e_dedupe_key e)) (filter ?P (mt_entries st2)) =
        replicate (length (filter ?P (mt_entries st2))) (ru_meter input, ru_dedupeKey input)"
      by (intro replicate_eqI) auto
    ultimately show ?thesis by (cases "length (filter ?P (mt_entries st2))") (auto simp: set_replicate_conv_if split: if_splits)
  qed
  ultimately show ?thesis
    using replay_answers [OF r(1) assms(4,5) _ prior r(5,6)] r(3) kind by (simp add: le_Suc_eq)
qed

theorem usage_recorded_once_witness:
  "\<exists>v b s. recordUsage (mt_ctx 1) demo_iso (demo_usage ''2.5'' ''a'') demo_ledger = Inr ((v, b), s) \<and>
    recordUsage (mt_ctx 3) demo_iso (demo_usage ''2.5'' ''a'') s = Inr ((v, True), s)"
proof -
  obtain v b s where r: "recordUsage (mt_ctx 1) demo_iso (demo_usage ''2.5'' ''a'') demo_ledger = Inr ((v, b), s)"
    by (rule demo_closed)
  have "\<exists>m. getMeterRow ''calls'' s = Inr m \<and> m_active m = 1"
    using r
  proof (cases rule: recordUsage_Inr)
    case (fresh m given i st1 e ev)
    then have "mt_meters s = [demo_meter]" using mt_emit_tables(1) mt_ulid_tables(1) by (fastforce simp: demo_ledger_def)
    then show ?thesis by (simp add: getMeterRow_def demo_meter_def storedMeter_def meterKind_def returns_def)
  qed (simp add: getMeterRow_def demo_ledger_def demo_meter_def storedMeter_def meterKind_def returns_def)
  then obtain m where "getMeterRow (ru_meter (demo_usage ''2.5'' ''a'')) s = Inr m" "m_active m = 1" by (auto simp: demo_usage_def)
  from usage_recorded_once [OF demo_ledger_ok r rtranclp.rtrancl_refl this, of "mt_ctx 3"] r show ?thesis by blast
qed

lemma getMeterRow_kind: "getMeterRow k st = Inr m \<Longrightarrow> m_key m = k \<and> m_kind m \<in> set meterKind"
  by (auto simp: getMeterRow_Inr dest: row_where_SomeD)

lemma largest_max:
  assumes "qs \<noteq> []"
  shows "largest qs \<in> set qs \<and> (\<forall>q \<in> set qs. micro q \<le> micro (largest qs))"
proof -
  have "foldl (\<lambda>m q. if micro m < micro q then q else m) q qs \<in> set (q # qs) \<and>
      (\<forall>x \<in> set (q # qs). micro x \<le> micro (foldl (\<lambda>m q. if micro m < micro q then q else m) q qs))" for q qs
  proof (induction qs arbitrary: q)
    case (Cons x qs)
    from Cons.IH [of q] Cons.IH [of x] show ?case by (cases "micro q < micro x") fastforce+
  qed simp
  from this [of "hd qs" qs] assms show ?thesis unfolding largest_def by (cases qs) auto
qed

lemma sum_window: "sum_list (map (\<lambda>e. micro (e_qty e)) (by_time es)) = sum_list (map (\<lambda>e. micro (e_qty e)) es)"
proof -
  have "mset (by_time es) = mset es" by (simp add: by_time_def)
  then have "mset (map (\<lambda>e. micro (e_qty e)) (by_time es)) = mset (map (\<lambda>e. micro (e_qty e)) es)" by simp
  then show ?thesis by (metis sum_mset_sum_list)
qed

lemma length_by_time [simp]: "length (by_time es) = length es"
  by (simp add: by_time_def)

lemma last_by_time:
  assumes "es \<noteq> []"
  shows "last (by_time es) \<in> set es \<and> (\<forall>e \<in> set es. e_occurred_at e \<le> e_occurred_at (last (by_time es)))"
proof -
  have ne: "by_time es \<noteq> []" using assms by simp
  have sorted: "sorted (map e_occurred_at (by_time es))" by (simp add: by_time_def)
  from ne obtain xs x where xs: "by_time es = xs @ [x]" by (cases "by_time es" rule: rev_cases) auto
  then have mem: "set es = insert x (set xs)" by (metis set_by_time list.set(2) rotate1.simps(2) set_rotate1)
  from sorted xs have "\<forall>e \<in> set xs. e_occurred_at e \<le> e_occurred_at x" by (simp add: sorted_append)
  with xs mem show ?thesis by simp
qed

text \<open>
  A window's total is right, whatever the meter: a counter's is the exact sum of its entries in the
  half-open window, with their number, and nothing where there are none; a gauge's is its largest
  sample there, else the latest earlier one carried forward with a count of zero, else nothing.
\<close>

theorem window_total_exact:
  assumes "usage_ok st" and "isoInstant d askFrom = Inr from" and "isoInstant d askTo = Inr to" and "from < to"
    and "getMeterRow key st = Inr m"
  defines "ws \<equiv> filter (\<lambda>e. e_meter_key e = key \<and> from \<le> e_occurred_at e \<and> e_occurred_at e < to) (mt_entries st)"
    and "old \<equiv> filter (\<lambda>e. e_meter_key e = key \<and> e_occurred_at e < from) (mt_entries st)"
  shows "\<exists>agg. usageTotal d key askFrom askTo st = Inr agg \<and>
    (m_kind m = ''counter'' \<longrightarrow> agg = (if ws = [] then None
       else Some \<lparr>ag_qty = fromMicro (sum_list (map (\<lambda>e. micro (e_qty e)) ws)), ag_entryCount = int (length ws)\<rparr>)) \<and>
    (m_kind m = ''gauge'' \<and> ws \<noteq> [] \<longrightarrow> (\<exists>e \<in> set ws. agg = Some \<lparr>ag_qty = e_qty e, ag_entryCount = int (length ws)\<rparr> \<and>
       (\<forall>x \<in> set ws. micro (e_qty x) \<le> micro (e_qty e)))) \<and>
    (m_kind m = ''gauge'' \<and> ws = [] \<longrightarrow> (if old = [] then agg = None
       else \<exists>e \<in> set old. agg = Some \<lparr>ag_qty = e_qty e, ag_entryCount = 0\<rparr> \<and> (\<forall>x \<in> set old. e_occurred_at x \<le> e_occurred_at e)))"
proof -
  let ?agg = "usage m from to (mt_entries st)"
  have key: "m_key m = key" and kind: "m_kind m \<in> set meterKind" using getMeterRow_kind [OF assms(5)] by auto
  have w: "window (m_key m) from to (mt_entries st) = by_time ws" and o: "earlier (m_key m) from (mt_entries st) = by_time old"
    by (simp_all add: window_def earlier_def ws_def old_def key)
  have agg: "aggregateMeter m from to st = Inr ?agg" by (rule aggregate_usage) (rule usage_okD(5) [OF assms(1)])
  have "usageTotal d key askFrom askTo st = Inr ?agg"
  proof (cases ?agg)
    case (Some a)
    have "signedDecimal (ag_qty a)" using usage_decimal [OF usage_okD(5) [OF assms(1)] Some] .
    with Some agg show ?thesis using assms(2-5) by (simp add: usageTotal_def returns_def)
  qed (use assms(2-5) agg in \<open>simp add: usageTotal_def\<close>)
  moreover have "m_kind m = ''counter'' \<longrightarrow> ?agg = (if ws = [] then None
       else Some \<lparr>ag_qty = fromMicro (sum_list (map (\<lambda>e. micro (e_qty e)) ws)), ag_entryCount = int (length ws)\<rparr>)"
    by (simp add: usage_def w o sum_window)
  moreover have "\<exists>e \<in> set ws. ?agg = Some \<lparr>ag_qty = e_qty e, ag_entryCount = int (length ws)\<rparr> \<and>
       (\<forall>x \<in> set ws. micro (e_qty x) \<le> micro (e_qty e))" if "m_kind m = ''gauge''" "ws \<noteq> []"
    using largest_max [of "map e_qty (by_time ws)"] that by (auto simp: usage_def w o)
  moreover have "if old = [] then ?agg = None
       else \<exists>e \<in> set old. ?agg = Some \<lparr>ag_qty = e_qty e, ag_entryCount = 0\<rparr> \<and> (\<forall>x \<in> set old. e_occurred_at x \<le> e_occurred_at e)"
    if "m_kind m = ''gauge''" "ws = []"
    using last_by_time [of old] that by (auto simp: usage_def w o)
  ultimately show ?thesis by blast
qed

definition demo_entry :: "string \<Rightarrow> string \<Rightarrow> int \<Rightarrow> entry_row" where
  "demo_entry i q m = \<lparr>e_id = i, e_meter_key = ''calls'', e_qty = q, e_subject_type = None, e_subject_id = None, e_occurred_at = demo_time m,
     e_dedupe_key = i, e_note = None, e_created_by = ''P'', e_created_at = demo_time m\<rparr>"

definition demo_used :: mt_store where
  "demo_used = demo_ledger\<lparr>mt_entries := [demo_entry ''a'' ''2.5'' 1, demo_entry ''b'' ''-0.5'' 2, demo_entry ''c'' ''9'' 3]\<rparr>"

lemma demo_used_ok: "usage_ok demo_used"
proof -
  have "\<forall>e \<in> set (mt_entries demo_used). entry_ok e" by code_simp
  then show ?thesis by (simp add: usage_ok_def demo_used_def demo_ledger_def demo_meter_def meterKind_def demo_entry_def)
qed

theorem window_total_exact_witness:
  "usageTotal demo_iso ''calls'' ''2024-01-01T00:01:00Z'' ''2024-01-01T00:03:00Z'' demo_used = Inr (Some \<lparr>ag_qty = ''2'', ag_entryCount = 2\<rparr>)"
proof -
  have read: "isoInstant demo_iso ''2024-01-01T00:01:00Z'' = Inr (demo_time 1)" "isoInstant demo_iso ''2024-01-01T00:03:00Z'' = Inr (demo_time 3)"
    "demo_time 1 < demo_time 3" "getMeterRow ''calls'' demo_used = Inr demo_meter" by code_simp+
  have ws: "filter (\<lambda>e. e_meter_key e = ''calls'' \<and> demo_time 1 \<le> e_occurred_at e \<and> e_occurred_at e < demo_time 3) (mt_entries demo_used) =
      [demo_entry ''a'' ''2.5'' 1, demo_entry ''b'' ''-0.5'' 2]" by code_simp
  have "fromMicro (sum_list (map (\<lambda>e. micro (e_qty e)) [demo_entry ''a'' ''2.5'' 1, demo_entry ''b'' ''-0.5'' 2])) = ''2''" by code_simp
  with window_total_exact [OF demo_used_ok read, unfolded ws] show ?thesis by (auto simp: demo_meter_def)
qed

text \<open>A close does not look at the clock, nor at the periods once its window is accepted.\<close>

lemma close_lines_any_time:
  fixes st :: "'a mt_store_scheme"
  assumes "close_lines cx pid from to ms st = Inr (ls, st')"
  shows "close_lines (cx\<lparr>cx_at := now\<rparr>) pid from to ms (st\<lparr>mt_periods := ps\<rparr>) = Inr (ls, st'\<lparr>mt_periods := ps\<rparr>)"
  using assms
proof (induction ms arbitrary: st ls)
  case (Cons raw ms)
  have "mt_entries (st\<lparr>mt_periods := ps\<rparr>) = mt_entries st" for st :: "'a mt_store_scheme" by simp
  then have agg: "aggregateMeter m from to (st\<lparr>mt_periods := ps\<rparr>) = aggregateMeter m from to st" for m and st :: "'a mt_store_scheme"
    by (simp only: aggregateMeter_def)
  obtain i st1 where u: "ulid cx st = (i, st1)" by (cases "ulid cx st")
  then have u': "ulid cx (st\<lparr>mt_periods := ps\<rparr>) = (i, st1\<lparr>mt_periods := ps\<rparr>)" by (auto simp: ulid_def)
  from Cons.prems obtain agg where raw: "storedMeter raw = Inr raw" "aggregateMeter raw from to st = Inr agg"
    by (auto simp: storedMeter_def monad_simps)
  show ?case
  proof (cases agg)
    case None
    with Cons raw show ?thesis by (simp add: agg)
  next
    case (Some a)
    from Cons.prems raw u Some obtain lines where ls: "close_lines cx pid from to ms (st1\<lparr>mt_lines := mt_lines st1 @
        [\<lparr>l_id = i, l_period_id = pid, l_meter_key = m_key raw, l_kind = m_kind raw, l_unit = m_unit raw,
          l_qty = ag_qty a, l_entry_count = ag_entryCount a\<rparr>]\<rparr>) = Inr (lines, st')"
      by (auto simp: monad_simps)
    have swap: "st1\<lparr>mt_periods := ps, mt_lines := rows\<rparr> = st1\<lparr>mt_lines := rows, mt_periods := ps\<rparr>" for rows by (cases st1) simp
    from Cons.IH [OF ls] ls Cons.prems raw u u' Some show ?thesis
      by (auto simp: agg swap monad_simps insert_row_def returns_def split: if_splits)
  qed
qed simp

lemma closePeriod_any_time:
  assumes "closePeriod cx d askFrom askTo st = Inr ((p, ls), st')"
  shows "\<exists>p' s. closePeriod (cx\<lparr>cx_at := now\<rparr>) d askFrom askTo st = Inr ((p', ls), s) \<and> mp_from p' = mp_from p \<and> mp_to p' = mp_to p"
proof -
  obtain i st1 where u: "ulid cx st = (i, st1)" by (cases "ulid cx st")
  let ?row = "\<lambda>tm from to. \<lparr>q_id = i, q_from_at = from, q_to_at = to, q_closed_by = cx_principal cx, q_closed_at = tm\<rparr>"
  from assms u obtain "from" to st2 where
    win: "closePeriodInput d askFrom askTo = Inr (from, to)" "from < to" "case closeHorizon st of None \<Rightarrow> True | Some h \<Rightarrow> h \<le> from"
    and fresh: "\<not> list_ex (\<lambda>b. i = q_id b) (mt_periods st1)"
    and ls: "close_lines cx i from to (sort_key m_key (mt_meters st1)) (st1\<lparr>mt_periods := mt_periods st1 @ [?row (cx_at cx) from to]\<rparr>) = Inr (ls, st2)"
    and em: "emit cx (mt_event ''metering.period-closed'' ''metering-period'' i
        (JObj [(''periodId'', JStr i), (''from'', JStr from), (''to'', JStr to), (''lines'', JArr (map json_period_line ls))])) st2 = Inr st'"
    and p: "isoInstantIn from" "isoInstantIn to" "mp_from p = from" "mp_to p = to"
    by (auto simp: closePeriod_def monad_simps)
  let ?ps = "mt_periods st1 @ [?row now from to]"
  have "alike st2 (st2\<lparr>mt_periods := ?ps\<rparr>)" by (simp add: alike_def)
  from emit_any_time [OF em this, of now] obtain s where s: "emit (cx\<lparr>cx_at := now\<rparr>) (mt_event ''metering.period-closed'' ''metering-period'' i
        (JObj [(''periodId'', JStr i), (''from'', JStr from), (''to'', JStr to), (''lines'', JArr (map json_period_line ls))])) (st2\<lparr>mt_periods := ?ps\<rparr>) = Inr s" by blast
  have "close_lines (cx\<lparr>cx_at := now\<rparr>) i from to (sort_key m_key (mt_meters st1)) (st1\<lparr>mt_periods := ?ps\<rparr>) = Inr (ls, st2\<lparr>mt_periods := ?ps\<rparr>)"
    using close_lines_any_time [OF ls, of now ?ps] by simp
  then show ?thesis
    using u win fresh s p by (simp add: closePeriod_def insert_row_def returns_def)
qed

lemma closed_row:
  assumes "closePeriod cx d askFrom askTo st = Inr ((p, ls), st')"
  shows "\<exists>q \<in> set (mt_periods st'). q_to_at q = mp_to p"
proof -
  obtain i st1 where u: "ulid cx st = (i, st1)" by (cases "ulid cx st")
  from assms u obtain "from" to st2 ev where
    ls: "close_lines cx i from to (sort_key m_key (mt_meters st1))
        (st1\<lparr>mt_periods := mt_periods st1 @ [\<lparr>q_id = i, q_from_at = from, q_to_at = to, q_closed_by = cx_principal cx, q_closed_at = cx_at cx\<rparr>]\<rparr>) = Inr (ls, st2)"
    and em: "emit cx ev st2 = Inr st'" and p: "mp_to p = to"
    by (auto simp: closePeriod_def monad_simps)
  from close_lines_Inr [OF ls] mt_emit_tables [OF em] p show ?thesis by auto
qed

lemma mt_run_periods: "mt_step\<^sup>*\<^sup>* st st' \<Longrightarrow> set (mt_periods st) \<subseteq> set (mt_periods st')"
proof (induction rule: rtranclp_induct)
  case (step y z)
  from mt_step_tab [OF step(2)] have "set (mt_periods y) \<subseteq> set (mt_periods z)" by (induction rule: mt_tab.induct) auto
  with step.IH show ?case by blast
qed simp

text \<open>
  C25. A close may shut the ledger.  The clock plays no part in a close: one that commits at some instant commits
  at every other, also long before its end.  And whatever runs after it, a new observation dated before
  that end is refused, so one of the present until the end is past; while the end is further ahead than the
  tolerance for clock skew, every new observation is refused, at whatever time it is dated.
\<close>

theorem future_close_shuts_ledger:
  assumes "closePeriod cx d askFrom askTo st = Inr ((p, ls), st1)" and "mt_step\<^sup>*\<^sup>* st1 st2"
    and "recordUsageInput d input = Inr given" and "priorEntry (ru_meter input) (ru_dedupeKey input) st2 = None"
    and "or_else given (cx_at cx') < mp_to p \<or>
      toISOString d (map_option (\<lambda>ms. ms + MAX_FUTURE_SKEW_MS) (d_parse d (cx_at cx'))) = Inr latest \<and> latest < mp_to p"
  shows "\<not> is_ok (recordUsage cx' d input st2) \<and>
    (\<exists>p' s. closePeriod (cx\<lparr>cx_at := now\<rparr>) d askFrom askTo st = Inr ((p', ls), s) \<and> mp_from p' = mp_from p \<and> mp_to p' = mp_to p)"
proof (rule conjI [OF _ closePeriod_any_time [OF assms(1)]])
  from closed_row [OF assms(1)] mt_run_periods [OF assms(2)] obtain q where q: "q \<in> set (mt_periods st2)" "q_to_at q = mp_to p" by blast
  have behind: "\<not> (case closeHorizon st2 of None \<Rightarrow> True | Some h \<Rightarrow> h \<le> u)" if "u < mp_to p" for u
  proof
    assume "case closeHorizon st2 of None \<Rightarrow> True | Some h \<Rightarrow> h \<le> u"
    then have "q_to_at q \<le> u" by (intro horizon_bounds [where st = st2] q(1)) (simp split: option.splits)
    with q(2) that show False by simp
  qed
  show "\<not> is_ok (recordUsage cx' d input st2)"
  proof
    assume "is_ok (recordUsage cx' d input st2)"
    then obtain v b st' where "recordUsage cx' d input st2 = Inr ((v, b), st')" by (auto simp: is_ok_iff)
    then show False
    proof (cases rule: recordUsage_Inr)
      case (replayed m given' prior)
      with assms(4) getMeterRow_kind [OF replayed(4)] show False by simp
    next
      case (fresh m given' i st1 e ev)
      have w: "within_bounds cx' d (or_else given (cx_at cx')) st2 = Inr ()" using fresh(2,7) assms(3) by simp
      then have "case closeHorizon st2 of None \<Rightarrow> True | Some h \<Rightarrow> h \<le> or_else given (cx_at cx')" by (auto simp: within_bounds_def monad_simps)
      then have late: "mp_to p \<le> or_else given (cx_at cx')" using behind by (meson not_le)
      with assms(5) have "toISOString d (map_option (\<lambda>ms. ms + MAX_FUTURE_SKEW_MS) (d_parse d (cx_at cx'))) = Inr latest" "latest < mp_to p" by auto
      with w have "or_else given (cx_at cx') \<le> latest" by (auto simp: within_bounds_def monad_simps)
      with late \<open>latest < mp_to p\<close> show False by (meson order.trans not_le)
    qed
  qed
qed

theorem future_close_shuts_ledger_witness:
  "\<exists>p ls s. closePeriod (mt_ctx 2) demo_iso ''2024-01-01T00:00:00Z'' ''2024-01-01T00:30:00Z'' demo_ledger = Inr ((p, ls), s) \<and>
    \<not> is_ok (recordUsage (mt_ctx 3) demo_iso (demo_usage ''1'' ''z'') s) \<and> \<not> is_ok (recordUsage (mt_ctx 28) demo_iso (demo_usage ''1'' ''z'') s)"
proof -
  have "bind_r (closePeriod (mt_ctx 2) demo_iso ''2024-01-01T00:00:00Z'' ''2024-01-01T00:30:00Z'' demo_ledger) (\<lambda>((p, ls), s).
      guard_r (mp_to p = demo_time 30 \<and> mt_entries s = []) (PlainError [])) = Inr ()" by code_simp
  then obtain p ls s where c: "closePeriod (mt_ctx 2) demo_iso ''2024-01-01T00:00:00Z'' ''2024-01-01T00:30:00Z'' demo_ledger = Inr ((p, ls), s)"
    "mp_to p = demo_time 30" "mt_entries s = []" by (auto simp: monad_simps)
  have given: "recordUsageInput demo_iso (demo_usage ''1'' ''z'') = Inr None" by code_simp
  have none: "priorEntry (ru_meter (demo_usage ''1'' ''z'')) (ru_dedupeKey (demo_usage ''1'' ''z'')) s = None"
    using c(3) by (simp add: priorEntry_def)
  have t: "or_else None (cx_at (mt_ctx 3)) < demo_time 30" "or_else None (cx_at (mt_ctx 28)) < demo_time 30" by code_simp+
  from future_close_shuts_ledger [OF c(1) rtranclp.rtrancl_refl given none, unfolded c(2), of "mt_ctx 3"] t(1)
    future_close_shuts_ledger [OF c(1) rtranclp.rtrancl_refl given none, unfolded c(2), of "mt_ctx 28"] t(2) c(1)
  show ?thesis by blast
qed

section \<open>The pages of the ledger\<close>

text \<open>A stable sort of rows sorted by one key orders them by both.\<close>

lemma insort_two_keys:
  fixes f :: "'r \<Rightarrow> 'k :: linorder" and g :: "'r \<Rightarrow> 'l :: linorder"
  assumes "sorted_wrt (\<lambda>x y. f x < f y \<or> f x = f y \<and> g x \<le> g y) zs" and "\<And>z. z \<in> set zs \<Longrightarrow> g y \<le> g z"
  shows "sorted_wrt (\<lambda>x y. f x < f y \<or> f x = f y \<and> g x \<le> g y) (insort_key f y zs)"
  using assms
proof (induction zs)
  case (Cons z zs)
  show ?case
  proof (cases "f y \<le> f z")
    case True
    have "f y < f x \<or> f y = f x \<and> g y \<le> g x" if "x \<in> set (z # zs)" for x
      using True Cons.prems that by (auto simp: order.order_iff_strict intro: order.strict_trans)
    with True Cons.prems show ?thesis by simp
  next
    case False
    with Cons show ?thesis by (auto simp: set_insort_key)
  qed
qed simp

lemma sort_two_keys:
  fixes f :: "'r \<Rightarrow> 'k :: linorder" and g :: "'r \<Rightarrow> 'l :: linorder"
  assumes "sorted (map g xs)"
  shows "sorted_wrt (\<lambda>x y. f x < f y \<or> f x = f y \<and> g x \<le> g y) (sort_key f xs)"
  using assms by (induction xs) (auto intro!: insort_two_keys)

lemma by_time_sorted:
  assumes "distinct (map e_id es)"
  shows "sorted_wrt (\<lambda>x y. e_occurred_at x < e_occurred_at y \<or> e_occurred_at x = e_occurred_at y \<and> e_id x < e_id y) (by_time es)"
proof -
  have "mset (map e_id (by_time es)) = mset (map e_id es)" by (simp add: by_time_def)
  then have "distinct (map e_id (by_time es))" using assms mset_eq_imp_distinct_iff by blast
  then have "sorted_wrt (\<lambda>x y. e_id x \<noteq> e_id y) (by_time es)" by (simp add: distinct_map distinct_conv_nth sorted_wrt_iff_nth_less inj_on_def)
  moreover have "sorted_wrt (\<lambda>x y. e_occurred_at x < e_occurred_at y \<or> e_occurred_at x = e_occurred_at y \<and> e_id x \<le> e_id y) (by_time es)"
    unfolding by_time_def by (rule sort_two_keys) simp
  ultimately show ?thesis unfolding sorted_wrt_iff_nth_less by (auto simp: less_le)
qed

text \<open>Joining with a character below all others keeps the order of the pair.\<close>

lemma nul_facts: "\<not> is_digit nul" "nul \<noteq> CHR ''Z''" "nul \<noteq> CHR ''.''" "nul \<notin> set ''dddd-dd-ddTdd:dd:dd''"
  by code_simp+

lemma nul_less:
  assumes "c \<noteq> nul"
  shows "nul < c"
proof -
  have "of_char nul = (0 :: nat)" by code_simp
  moreover have "of_char c \<noteq> (of_char nul :: nat)" using assms by simp
  ultimately show ?thesis by (simp add: less_char_def)
qed

lemma joined_less:
  assumes "nul \<notin> set a" and "nul \<notin> set b" and "a < b \<or> a = b \<and> x < y"
  shows "a @ CURSOR_FIELD_SEPARATOR @ x < b @ CURSOR_FIELD_SEPARATOR @ y"
  using assms
proof (induction a arbitrary: b)
  case Nil
  then show ?case by (cases b) (auto simp: CURSOR_FIELD_SEPARATOR_def nul_less)
next
  case (Cons c a)
  then obtain c' b' where b: "b = c' # b'" by (cases b) auto
  with Cons show ?case by auto
qed

lemma matches_nul:
  assumes "matches shape u" and "nul \<notin> set shape"
  shows "nul \<notin> set u"
proof
  assume "nul \<in> set u"
  then obtain i where i: "i < length u" "u ! i = nul" by (auto simp: in_set_conv_nth)
  with assms(1) have "i < length shape" "shape ! i = CHR ''d'' \<longrightarrow> is_digit nul" "shape ! i \<noteq> CHR ''d'' \<longrightarrow> nul = shape ! i"
    unfolding matches_def list_all2_conv_all_nth by metis+
  with assms(2) nul_facts(1) show False by (metis nth_mem)
qed

lemma iso_no_separator:
  assumes "isoInstantIn s"
  shows "nul \<notin> set s"
proof -
  note iso = assms [unfolded isoInstantIn_def]
  have "nul \<notin> set (take 19 s)" by (rule matches_nul [OF conjunct1 [OF iso] nul_facts(4)])
  moreover have "nul \<notin> set (drop 19 s)"
  proof -
    from iso have ne: "drop 19 s \<noteq> []" by blast
    with iso have last: "last (drop 19 s) = CHR ''Z''" by (metis last_drop drop_eq_Nil not_le)
    have "nul \<notin> set (butlast (drop 19 s))"
    proof (cases "butlast (drop 19 s)")
      case (Cons c f)
      with iso have "c = CHR ''.''" "list_all is_digit f" by simp_all
      with Cons nul_facts(1,3) show ?thesis by (auto simp: list_all_iff)
    qed simp
    moreover have "drop 19 s = butlast (drop 19 s) @ [CHR ''Z'']" using append_butlast_last_id [OF ne] last by simp
    then have "set (drop 19 s) = insert (CHR ''Z'') (set (butlast (drop 19 s)))"
      by (metis Un_insert_right list.set(1,2) set_append sup_bot_right)
    ultimately show ?thesis using nul_facts(2) by blast
  qed
  moreover have "set s = set (take 19 s) \<union> set (drop 19 s)" by (metis append_take_drop_id set_append)
  ultimately show ?thesis by blast
qed

definition entry_view :: "entry_row \<Rightarrow> usage_entry" where
  "entry_view r = sum.projr (toEntry r)"

lemma listEntries_Inr:
  assumes "listEntries d key subj askFrom askTo st = Inr es"
  obtains sel where "entry_clauses d key subj askFrom askTo = Inr sel" and "es = map entry_view (by_time (filter sel (mt_entries st)))"
    and "\<And>e. e \<in> set (by_time (filter sel (mt_entries st))) \<Longrightarrow> toEntry e = Inr (entry_view e)"
proof -
  from assms obtain sel where sel: "entry_clauses d key subj askFrom askTo = Inr sel"
    and rows: "traverse toEntry (by_time (filter sel (mt_entries st))) = Inr es" by (auto simp: listEntries_def monad_simps)
  have view: "toEntry e = Inr (entry_view e)" if "e \<in> set (by_time (filter sel (mt_entries st)))" for e
    using traverse_Inr_arg [OF rows that] by (auto simp: entry_view_def)
  with traverse_total [of "by_time (filter sel (mt_entries st))" toEntry entry_view] rows have "es = map entry_view (by_time (filter sel (mt_entries st)))"
    by simp
  from that [OF sel this view] show thesis .
qed

lemma entries_sorted:
  assumes "usage_ok st" and "listEntries d key subj askFrom askTo st = Inr es"
  shows "sorted_wrt (<) (map entry_cursor es)"
proof -
  obtain sel where es: "es = map entry_view (by_time (filter sel (mt_entries st)))"
    and view: "\<And>e. e \<in> set (by_time (filter sel (mt_entries st))) \<Longrightarrow> toEntry e = Inr (entry_view e)" using assms(2) by (rule listEntries_Inr) blast
  have cursor: "entry_cursor (entry_view e) = e_occurred_at e @ CURSOR_FIELD_SEPARATOR @ e_id e" "isoInstantIn (e_occurred_at e)"
    if "e \<in> set (by_time (filter sel (mt_entries st)))" for e
    using view [OF that] by (auto simp: toEntry_def storedEntry_def entry_cursor_def Let_def monad_simps)
  have "distinct (map e_id (filter sel (mt_entries st)))" using usage_okD(3) [OF assms(1)] by (rule distinct_map_filter)
  from by_time_sorted [OF this] have "sorted_wrt (\<lambda>x y. entry_cursor (entry_view x) < entry_cursor (entry_view y)) (by_time (filter sel (mt_entries st)))"
  proof (rule sorted_wrt_mono_rel [rotated])
    fix x y assume m: "x \<in> set (by_time (filter sel (mt_entries st)))" "y \<in> set (by_time (filter sel (mt_entries st)))"
      and lt: "e_occurred_at x < e_occurred_at y \<or> e_occurred_at x = e_occurred_at y \<and> e_id x < e_id y"
    from lt show "entry_cursor (entry_view x) < entry_cursor (entry_view y)"
      unfolding cursor(1) [OF m(1)] cursor(1) [OF m(2)]
      by (intro joined_less iso_no_separator cursor(2) m)
  qed
  then show ?thesis by (simp add: es sorted_wrt_map)
qed

text \<open>
  The ledger is read completely: following the cursors of \<open>metering/list-entries\<close> yields the entries
  the filter selects, in the order of time and id, each once, also where several share an instant.
\<close>

theorem entries_walk_complete:
  assumes "usage_ok st" and "require cx ''metering:read'' None st = Inr st1" and "listEntries d key subj askFrom askTo st = Inr es"
    and "0 < sz" and "sz \<le> 200" and "length es div sz < n"
  shows "walk n (\<lambda>c. bind_r (listEntriesOp cx d key subj askFrom askTo (Some (Finite (of_nat sz))) c st) (\<lambda>(pg, _). Inr pg)) None = Inr es"
proof -
  have same: "listEntries d key subj askFrom askTo st1 = Inr es"
    using assms(3) mt_require_tables [OF assms(2)] by (simp add: listEntries_def)
  have "fold_listing entry_cursor es = Some es" using entries_sorted [OF assms(1,3)] by (simp add: fold_listing_def)
  from fold.walk_all [OF this assms(4-6)] show ?thesis
    by (simp add: listEntriesOp_def read_op_def assms(2) same fold_fetch_def [abs_def])
qed

theorem entries_walk_complete_witness:
  "\<exists>es. listEntries demo_iso None None None None demo_used = Inr es \<and> map ue_id es = [''a'', ''b'', ''c''] \<and>
    walk 2 (\<lambda>c. bind_r (listEntriesOp (mt_ctx 4\<lparr>cx_override := Some ''job''\<rparr>) demo_iso None None None None (Some (Finite (of_nat 2))) c demo_used)
      (\<lambda>(pg, _). Inr pg)) None = Inr es"
proof -
  have "map ue_id (sum.projr (listEntries demo_iso None None None None demo_used)) = [''a'', ''b'', ''c''] \<and>
      is_ok (listEntries demo_iso None None None None demo_used)" by code_simp
  then obtain es where es: "listEntries demo_iso None None None None demo_used = Inr es" "map ue_id es = [''a'', ''b'', ''c'']"
    by (cases "listEntries demo_iso None None None None demo_used") auto
  have "length es = length [''a'', ''b'', ''c'']" unfolding es(2) [symmetric] by simp
  moreover have "is_ok (require (mt_ctx 4\<lparr>cx_override := Some ''job''\<rparr>) ''metering:read'' None demo_used)" by code_simp
  then obtain st1 where "require (mt_ctx 4\<lparr>cx_override := Some ''job''\<rparr>) ''metering:read'' None demo_used = Inr st1" by (auto dest: is_okE)
  ultimately show ?thesis using entries_walk_complete [OF demo_used_ok _ es(1), of _ st1 2 2] es by simp
qed

end
