(* ===== verification/Capability_Directory.thy ===== *)
theory Capability_Directory
  imports Instants "HOL-Library.Word"
begin

text \<open>
  Capabilities: authority carried by a secret.  This theory holds the directory of a scope
  (\<open>packages/kernel/src/capability.ts\<close>): its two tables, the secrets of which only hashes are stored,
  \<open>ctx.capabilities.mint\<close>, \<open>revoke\<close> and \<open>list\<close>, the session door and the sweeps that revoke
  binding links.  The exchange of a secret is in \<open>Capability_Exchange\<close>.

  A row extends the row the checker reads, so \<open>capabilityLive\<close> and \<open>capabilityGrantOf\<close> are the
  checker's own.  JSON columns are held decoded, \<open>None\<close> for text that does not parse.  Random bytes,
  SHA-256, \<open>Date\<close> and zod's \<open>datetime\<close> format are the fields of \<open>cap_lib\<close>.  The guard that
  keeps a minted secret out of module tables, events and logs scans texts and is not modelled.
\<close>

section \<open>Secrets\<close>

record cap_lib = date_lib +
  cl_datetime :: "string \<Rightarrow> bool"
  cl_random :: "nat \<Rightarrow> 8 word list" \<comment> \<open>the 32 bytes of the n-th draw\<close>
  cl_sha256 :: "string \<Rightarrow> 8 word list"

definition base64_alphabet :: string where
  "base64_alphabet = ''ABCDEFGHIJKLMNOPQRSTUVWXYZabcdefghijklmnopqrstuvwxyz0123456789+/''"

fun btoa :: "8 word list \<Rightarrow> string" where
  "btoa [] = []"
| "btoa [a] = [base64_alphabet ! (unat a div 4), base64_alphabet ! (unat a mod 4 * 16), CHR ''='', CHR ''='']"
| "btoa [a, b] = [base64_alphabet ! (unat a div 4), base64_alphabet ! (unat a mod 4 * 16 + unat b div 16),
     base64_alphabet ! (unat b mod 16 * 4), CHR ''='']"
| "btoa (a # b # c # bs) = base64_alphabet ! (unat a div 4) # base64_alphabet ! (unat a mod 4 * 16 + unat b div 16) #
     base64_alphabet ! (unat b mod 16 * 4 + unat c div 64) # base64_alphabet ! (unat c mod 64) # btoa bs"

definition toBase64url :: "8 word list \<Rightarrow> string" where
  "toBase64url bytes =
     rev (dropWhile (\<lambda>c. c = CHR ''='') (rev (map (\<lambda>c. if c = CHR ''+'' then CHR ''-'' else if c = CHR ''/'' then CHR ''_'' else c) (btoa bytes))))"

definition hex_digit :: "nat \<Rightarrow> char" where
  "hex_digit n = ''0123456789abcdef'' ! n"

definition capabilityTokenHash :: "cap_lib \<Rightarrow> string \<Rightarrow> string" where
  "capabilityTokenHash L token = concat (map (\<lambda>b. [hex_digit (unat b div 16), hex_digit (unat b mod 16)]) (cl_sha256 L token))"

definition CAPABILITY_SECRET_PREFIX :: string where "CAPABILITY_SECRET_PREFIX = ''sbcap_''"
definition CAPABILITY_SESSION_PREFIX :: string where "CAPABILITY_SESSION_PREFIX = ''sbses_''"
definition CAPABILITY_SESSION_TTL_MS :: int where "CAPABILITY_SESSION_TTL_MS = 24 * 60 * 60000"
definition CAPABILITY_PERMISSIONS_MAX :: nat where "CAPABILITY_PERMISSIONS_MAX = 16"
definition CAPABILITY_OPERATIONS_MAX :: nat where "CAPABILITY_OPERATIONS_MAX = 32"
definition TOKEN_MAX_LENGTH :: nat where "TOKEN_MAX_LENGTH = 128"

definition plausible :: "string \<Rightarrow> string \<Rightarrow> bool" where
  "plausible token prefix \<longleftrightarrow> startsWith token prefix \<and> length token \<le> TOKEN_MAX_LENGTH"

text \<open>A fresh token: 32 random bytes behind a prefix.\<close>

definition mint_token :: "cap_lib \<Rightarrow> string \<Rightarrow> 'a scope_store_scheme \<Rightarrow> string \<times> 'a scope_store_scheme" where
  "mint_token L prefix st = (prefix @ toBase64url (cl_random L (drawn st)), st\<lparr>drawn := Suc (drawn st)\<rparr>)"

definition mintCapabilitySecret :: "cap_lib \<Rightarrow> 'a scope_store_scheme \<Rightarrow> string \<times> 'a scope_store_scheme" where
  "mintCapabilitySecret L st = mint_token L CAPABILITY_SECRET_PREFIX st"

definition mintCapabilitySessionToken :: "cap_lib \<Rightarrow> 'a scope_store_scheme \<Rightarrow> string \<times> 'a scope_store_scheme" where
  "mintCapabilitySessionToken L st = mint_token L CAPABILITY_SESSION_PREFIX st"

section \<open>The directory\<close>

record cap_row = capability_row +
  cap_id :: string
  cap_token_hash :: string
  cap_label :: "string option"
  cap_operations :: "json option option"
  cap_attachments :: "string option"
  cap_principal :: "string option"
  cap_target_digest :: "string option"
  cap_revoked_reason :: "string option"
  cap_action :: "json option option"
  cap_minted_at :: string
  cap_last_used_at :: "string option"
  cap_revoked_by :: "json option option"

record session_row =
  ss_token_hash :: string
  ss_capability_id :: string
  ss_created_at :: string
  ss_expires_at :: string

text \<open>Beside the two tables: the secrets minted by the running invocation, and the module tables a binding names (columns to values, \<open>None\<close> for \<open>NULL\<close>).\<close>

record cap_store = scope_store +
  cp_capabilities :: "cap_row list"
  cp_sessions :: "session_row list"
  cp_minted :: "string list"
  cp_tables :: "(string \<times> (string \<times> string option) list list) list"

definition cap_clash :: "cap_row \<Rightarrow> cap_row \<Rightarrow> bool" where
  "cap_clash a b \<longleftrightarrow> cap_id a = cap_id b \<or> cap_token_hash a = cap_token_hash b"

definition capabilityByIdQuery :: "string \<Rightarrow> 'a cap_store_scheme \<Rightarrow> cap_row option" where
  "capabilityByIdQuery i st = row_where (\<lambda>r. cap_id r = i) (cp_capabilities st)"

section \<open>Wire formats\<close>

definition instant :: "cap_lib \<Rightarrow> string \<Rightarrow> string result" where
  "instant L s = bind_r (guard_r (cl_datetime L s) (ZodError ''instant'')) (\<lambda>_.
     case d_parse L s of None \<Rightarrow> Inr s | Some ms \<Rightarrow> toISOString L (Some ms))"

definition js_trim :: "string \<Rightarrow> string" where
  "js_trim s = rev (dropWhile is_space (rev (dropWhile is_space s)))"

definition capabilityLabel :: "string \<Rightarrow> string result" where
  "capabilityLabel s = bind_r (guard_r (js_trim s \<noteq> [] \<and> length (js_trim s) \<le> 200) (ZodError ''capabilityLabel'')) (\<lambda>_. Inr (js_trim s))"

definition positive_int :: "int \<Rightarrow> bool" where
  "positive_int n \<longleftrightarrow> 0 < n \<and> n \<le> MAX_SAFE_INTEGER"

text \<open>\<open>capabilityAction\<close>: the one action, a bind of a record.\<close>

definition capabilityAction :: "json \<Rightarrow> entity_ref option" where
  "capabilityAction j = Option.bind (z_prop ''kind'' (z_enum [''bind'']) j) (\<lambda>_. z_prop ''entity'' z_entityRef j)"

definition json_action :: "entity_ref \<Rightarrow> json" where
  "json_action e = JObj [(''kind'', JStr ''bind''), (''entity'', json_ref e)]"

definition actionOf :: "cap_row \<Rightarrow> entity_ref option result" where
  "actionOf row =
     (case cap_action row of
        None \<Rightarrow> Inr None
      | Some None \<Rightarrow> Inl (PlainError ''SyntaxError'')
      | Some (Some j) \<Rightarrow> bind_r (parse_as ''capabilityAction'' capabilityAction j) (\<lambda>e. Inr (Some e)))"

definition decodedAction :: "json option \<Rightarrow> entity_ref option" where
  "decodedAction j = Option.bind j capabilityAction"

datatype cap_author = ByPrincipal string | ByPlatform string

fun capabilityAuthor :: "json \<Rightarrow> cap_author option" where
  "capabilityAuthor (JStr s) = (if ulid_pattern s then Some (ByPrincipal s) else None)"
| "capabilityAuthor (JObj fs) =
     (case map_of fs ''platform'' of Some (JStr p) \<Rightarrow> if ulid_pattern p then Some (ByPlatform p) else None | _ \<Rightarrow> None)"
| "capabilityAuthor _ = None"

fun json_author :: "cap_author \<Rightarrow> json" where
  "json_author (ByPrincipal p) = JStr p"
| "json_author (ByPlatform a) = JObj [(''platform'', JStr a)]"

definition json_opt :: "('v \<Rightarrow> json) \<Rightarrow> 'v option \<Rightarrow> json" where
  "json_opt f x = (case x of None \<Rightarrow> JNull | Some v \<Rightarrow> f v)"

definition cap_event :: "string \<Rightarrow> entity_ref \<Rightarrow> json \<Rightarrow> domain_event_input" where
  "cap_event ty e payload = \<lparr>ev_type = ty, ev_schemaVersion = 1, ev_entity = e, ev_piiClass = PiiNone, ev_subjectId = None, ev_payload = payload\<rparr>"

section \<open>\<open>ctx.capabilities\<close>\<close>

record mint_input =
  cm_entity :: entity_ref
  cm_permissions :: "string list"
  cm_operations :: "string list option"
  cm_attachments :: "string option"
  cm_expiresAt :: "string option"
  cm_maxUses :: "int option"
  cm_label :: "string option"

definition capabilityAuthority :: "mint_input \<Rightarrow> bool" where
  "capabilityAuthority input \<longleftrightarrow>
     entityRef_ok (cm_entity input) \<and>
     cm_permissions input \<noteq> [] \<and> length (cm_permissions input) \<le> CAPABILITY_PERMISSIONS_MAX \<and> list_all permissionKey (cm_permissions input) \<and>
     if_given (\<lambda>ops. ops \<noteq> [] \<and> length ops \<le> CAPABILITY_OPERATIONS_MAX \<and> list_all (\<lambda>s. s \<noteq> []) ops) (cm_operations input) \<and>
     if_given (\<lambda>a. a = ''read'') (cm_attachments input)"

definition capabilityMintInput :: "cap_lib \<Rightarrow> mint_input \<Rightarrow> mint_input result" where
  "capabilityMintInput L input =
     bind_r (guard_r (capabilityAuthority input) (ZodError ''capabilityMintInput'')) (\<lambda>_.
     bind_r (optional_r (instant L) (cm_expiresAt input)) (\<lambda>expiresAt.
     bind_r (guard_r (if_given positive_int (cm_maxUses input)) (ZodError ''capabilityMintInput'')) (\<lambda>_.
     bind_r (optional_r capabilityLabel (cm_label input)) (\<lambda>label.
       Inr (input\<lparr>cm_expiresAt := expiresAt, cm_label := label\<rparr>)))))"

definition principalOf :: "check_subject \<Rightarrow> string \<Rightarrow> string result" where
  "principalOf subj verb =
     (case subj of Principal i \<Rightarrow> Inr i
      | _ \<Rightarrow> Inl (SubstratError Forbidden (Some ''capability_delegation'')
           (verb @ '': only a principal may do this: a '' @ subject_kind subj @ '' actor cannot delegate authority it holds on behalf of someone else'')))"

text \<open>A consumer acts as the system actor it is, so it cannot mint.\<close>

definition verb_subject :: "op_ctx \<Rightarrow> check_subject" where
  "verb_subject cx = (case cx_override cx of Some m \<Rightarrow> System m | None \<Rightarrow> cx_subject cx)"

text \<open>The loop that asks every key on the entity.\<close>

fun check_all :: "op_ctx \<Rightarrow> string \<Rightarrow> entity_ref \<Rightarrow> string list \<Rightarrow> 'a scope_store_scheme \<Rightarrow> 'a scope_store_scheme result" where
  "check_all cx verb e [] st = Inr st"
| "check_all cx verb e (p # ps) st =
     bind_r (decideCheck cx p (Some e) st) (\<lambda>(held, st1).
     bind_r (guard_r (allowed held)
        (SubstratError Permission_Denied None (''cannot '' @ verb @ '' '' @ p @ '' on '' @ ref_of e @ '': the caller does not hold it there''))) (\<lambda>_.
       check_all cx verb e ps st1))"

record minted_capability =
  mc_id :: string
  mc_secret :: string
  mc_expiresAt :: "string option"

definition act_row :: "mint_input \<Rightarrow> string \<Rightarrow> string \<Rightarrow> string \<Rightarrow> string \<Rightarrow> string list \<Rightarrow> string list option \<Rightarrow> cap_row" where
  "act_row input i tokenHash minter now permissions operations =
     \<lparr>cap_mode = ''act'', cap_entity_type = Some (entityType (cm_entity input)), cap_entity_id = Some (entityId (cm_entity input)),
      cap_permissions = Some (Some (JArr (map JStr permissions))), cap_minted_by = Some (JStr minter),
      cap_expires_at = cm_expiresAt input, cap_max_uses = cm_maxUses input, cap_uses = 0, cap_revoked_at = None,
      cap_id = i, cap_token_hash = tokenHash, cap_label = cm_label input,
      cap_operations = map_option (\<lambda>ops. Some (JArr (map JStr ops))) operations, cap_attachments = cm_attachments input,
      cap_principal = None, cap_target_digest = None, cap_revoked_reason = None, cap_action = None,
      cap_minted_at = now, cap_last_used_at = None, cap_revoked_by = None\<rparr>"

definition minted_payload :: "mint_input \<Rightarrow> string \<Rightarrow> string \<Rightarrow> string list \<Rightarrow> string list option \<Rightarrow> json" where
  "minted_payload input i minter permissions operations =
     JObj [(''capabilityId'', JStr i), (''entity'', json_ref (cm_entity input)), (''permissions'', JArr (map JStr permissions)),
           (''operations'', json_opt (\<lambda>ops. JArr (map JStr ops)) operations), (''expiresAt'', json_opt JStr (cm_expiresAt input)),
           (''maxUses'', json_opt JNum (cm_maxUses input)), (''label'', json_opt JStr (cm_label input)), (''mintedBy'', JStr minter)]"

definition capability_mint ::
  "op_ctx \<Rightarrow> cap_lib \<Rightarrow> (string \<Rightarrow> bool) \<Rightarrow> mint_input \<Rightarrow> 'a cap_store_scheme \<Rightarrow> (minted_capability \<times> 'a cap_store_scheme) result" where
  "capability_mint cx L isOperation raw st =
     bind_r (assertImpersonationWrites cx ''ctx.capabilities.mint'') (\<lambda>_.
     bind_r (principalOf (verb_subject cx) ''ctx.capabilities.mint'') (\<lambda>minter.
     bind_r (capabilityMintInput L raw) (\<lambda>input.
     bind_r (entityObjectRef (cm_entity input) ''ctx.capabilities.mint'') (\<lambda>_.
     let permissions = unique_in_order (cm_permissions input); operations = map_option unique_in_order (cm_operations input) in
     bind_r (guard_r (if_given (list_all isOperation) operations)
        (SubstratError Validation_Failed None ''ctx.capabilities.mint: not an operation on this host'')) (\<lambda>_.
     bind_r (guard_r (if_given (\<lambda>x. cx_at cx < x) (cm_expiresAt input))
        (SubstratError Validation_Failed None ''ctx.capabilities.mint: expiresAt is not in the future'')) (\<lambda>_.
     bind_r (check_all cx ''mint a capability carrying'' (cm_entity input) permissions st) (\<lambda>st1.
     case ulid cx st1 of (i, st2) \<Rightarrow>
     bind_r (guard_r (ulid_pattern i) (ZodError ''capabilityId'')) (\<lambda>_.
     case mintCapabilitySecret L st2 of (secret, st3) \<Rightarrow>
     bind_r (insert_row cap_clash (act_row input i (capabilityTokenHash L secret) minter (cx_at cx) permissions operations) (cp_capabilities st3)) (\<lambda>rows.
     bind_r (writeEvent cx KernelAuthor (cap_event ''capability.minted'' (cm_entity input) (minted_payload input i minter permissions operations))
        (st3\<lparr>cp_capabilities := rows, cp_minted := cp_minted st3 @ [secret]\<rparr>)) (\<lambda>st4.
       Inr (\<lparr>mc_id = i, mc_secret = secret, mc_expiresAt = cm_expiresAt input\<rparr>, st4)))))))))))"

text \<open>The one revoke write; \<open>None\<close> is the kernel's own.\<close>

definition stamp_revoked :: "cap_author option \<Rightarrow> string \<Rightarrow> string option \<Rightarrow> cap_row \<Rightarrow> cap_row" where
  "stamp_revoked author now reason r =
     r\<lparr>cap_revoked_at := Some now, cap_revoked_by := map_option (\<lambda>a. Some (json_author a)) author, cap_revoked_reason := reason\<rparr>"

definition markRevoked ::
  "string \<Rightarrow> cap_author option \<Rightarrow> string \<Rightarrow> string option \<Rightarrow> 'a cap_store_scheme \<Rightarrow> bool \<times> 'a cap_store_scheme" where
  "markRevoked i author now reason st =
     (length (filter (\<lambda>r. cap_id r = i \<and> cap_revoked_at r = None) (cp_capabilities st)) = 1,
      st\<lparr>cp_capabilities := update_where (\<lambda>r. cap_id r = i \<and> cap_revoked_at r = None) (stamp_revoked author now reason) (cp_capabilities st)\<rparr>)"

definition capability_revoke :: "op_ctx \<Rightarrow> string \<Rightarrow> 'a cap_store_scheme \<Rightarrow> 'a cap_store_scheme result" where
  "capability_revoke cx i st =
     bind_r (assertImpersonationWrites cx ''ctx.capabilities.revoke'') (\<lambda>_.
     bind_r (principalOf (verb_subject cx) ''ctx.capabilities.revoke'') (\<lambda>revoker.
     bind_r (guard_r (ulid_pattern i) (ZodError ''capabilityId'')) (\<lambda>_.
     case capabilityByIdQuery i st of
       None \<Rightarrow> Inl (SubstratError Not_Found None (''no capability '' @ i @ '' in this scope''))
     | Some row \<Rightarrow>
         (case capabilityGrantOf row of
            None \<Rightarrow> Inl (SubstratError Forbidden (Some ''capability_platform_minted'')
              (''capability '' @ i @ '' is a '' @ cap_mode row @ '' capability and is revoked by the host that minted it, not ctx.capabilities''))
          | Some g \<Rightarrow>
              if cap_revoked_at row \<noteq> None then Inr st
              else
                bind_r (check_all cx (''revoke capability '' @ i @ '' carrying'') (cg_entity g) (cg_permissions g) st) (\<lambda>st1.
                  writeEvent cx KernelAuthor (cap_event ''capability.revoked'' (cg_entity g)
                     (JObj [(''capabilityId'', JStr i), (''entity'', json_ref (cg_entity g)), (''revokedBy'', JStr revoker)]))
                    (snd (markRevoked i (Some (ByPrincipal revoker)) (cx_at cx) None st1)))))))"

section \<open>Reading the directory\<close>

record cap_common =
  cr_id :: string
  cr_label :: "string option"
  cr_mintedBy :: cap_author
  cr_mintedAt :: string
  cr_expiresAt :: "string option"
  cr_maxUses :: "int option"
  cr_uses :: int
  cr_lastUsedAt :: "string option"
  cr_revokedAt :: "string option"
  cr_revokedBy :: "cap_author option"
  cr_revokedReason :: "string option"

datatype capability_record =
    ActRecord cap_common entity_ref "string list" "string list option" "string option"
  | BecomeRecord cap_common string "entity_ref option"
  | BindRecord cap_common string entity_ref

text \<open>\<open>JSON.parse\<close> of a column, then the schema's parse of what it holds.\<close>

definition json_column :: "string \<Rightarrow> (json \<Rightarrow> 'v option) \<Rightarrow> json option \<Rightarrow> 'v result" where
  "json_column schema view j = (case j of None \<Rightarrow> Inl (PlainError ''SyntaxError'') | Some v \<Rightarrow> parse_as schema view v)"

definition record_common :: "cap_lib \<Rightarrow> cap_row \<Rightarrow> cap_common result" where
  "record_common L row =
     bind_r (json_column ''capabilityRecord'' capabilityAuthor (cap_minted_by row)) (\<lambda>mintedBy.
     bind_r (optional_r (json_column ''capabilityRecord'' capabilityAuthor) (cap_revoked_by row)) (\<lambda>revokedBy.
     bind_r (guard_r (ulid_pattern (cap_id row) \<and> if_given positive_int (cap_max_uses row) \<and>
        0 \<le> cap_uses row \<and> cap_uses row \<le> MAX_SAFE_INTEGER \<and> if_given (\<lambda>x. x = ''holdings-changed'') (cap_revoked_reason row))
        (ZodError ''capabilityRecord'')) (\<lambda>_.
     bind_r (optional_r capabilityLabel (cap_label row)) (\<lambda>label.
     bind_r (instant L (cap_minted_at row)) (\<lambda>mintedAt.
     bind_r (optional_r (instant L) (cap_expires_at row)) (\<lambda>expiresAt.
     bind_r (optional_r (instant L) (cap_last_used_at row)) (\<lambda>lastUsedAt.
     bind_r (optional_r (instant L) (cap_revoked_at row)) (\<lambda>revokedAt.
       Inr \<lparr>cr_id = cap_id row, cr_label = label, cr_mintedBy = mintedBy, cr_mintedAt = mintedAt, cr_expiresAt = expiresAt,
            cr_maxUses = cap_max_uses row, cr_uses = cap_uses row, cr_lastUsedAt = lastUsedAt, cr_revokedAt = revokedAt,
            cr_revokedBy = revokedBy, cr_revokedReason = cap_revoked_reason row\<rparr>))))))))"

definition record_principal :: "cap_row \<Rightarrow> string result" where
  "record_principal row =
     (case cap_principal row of
        Some p \<Rightarrow> bind_r (guard_r (ulid_pattern p) (ZodError ''principalId'')) (\<lambda>_. Inr p)
      | None \<Rightarrow> Inl (ZodError ''principalId''))"

definition act_record :: "cap_row \<Rightarrow> cap_common \<Rightarrow> capability_record result" where
  "act_record row c =
     bind_r (case cap_permissions row of None \<Rightarrow> Inr []
        | Some j \<Rightarrow> json_column ''capabilityRecord'' (z_array parse_key) j) (\<lambda>permissions.
     bind_r (optional_r (json_column ''capabilityRecord'' (z_array z_string1)) (cap_operations row)) (\<lambda>operations.
     bind_r (guard_r (permissions \<noteq> [] \<and> cap_entity_type row \<noteq> None \<and> cap_entity_type row \<noteq> Some [] \<and>
        cap_entity_id row \<noteq> None \<and> cap_entity_id row \<noteq> Some []) (ZodError ''capabilityRecord'')) (\<lambda>_.
       Inr (ActRecord c \<lparr>entityType = the (cap_entity_type row), entityId = the (cap_entity_id row)\<rparr> permissions operations
         (map_option (\<lambda>_. ''read'') (cap_attachments row))))))"

definition capabilityRecordOf :: "cap_lib \<Rightarrow> cap_row \<Rightarrow> capability_record result" where
  "capabilityRecordOf L row =
     bind_r (record_common L row) (\<lambda>c.
       if cap_mode row = ''become'' then
         bind_r (record_principal row) (\<lambda>p. bind_r (actionOf row) (\<lambda>a. Inr (BecomeRecord c p a)))
       else if cap_mode row = ''bind'' then
         bind_r (record_principal row) (\<lambda>p. bind_r (actionOf row) (\<lambda>a.
           case a of None \<Rightarrow> Inl (ZodError ''capabilityRecord'') | Some e \<Rightarrow> Inr (BindRecord c p e)))
       else act_record row c)"

fun common_of :: "capability_record \<Rightarrow> cap_common" where
  "common_of (ActRecord c e ps ops a) = c"
| "common_of (BecomeRecord c p a) = c"
| "common_of (BindRecord c p e) = c"

datatype capability_status = StatusLive | StatusUsedUp | StatusExpired | StatusRevoked

definition capabilityStatus :: "cap_common \<Rightarrow> string \<Rightarrow> capability_status" where
  "capabilityStatus r now =
     (if cr_revokedAt r \<noteq> None then StatusRevoked
      else if (case cr_expiresAt r of None \<Rightarrow> False | Some x \<Rightarrow> x \<le> now) then StatusExpired
      else if (case cr_maxUses r of None \<Rightarrow> False | Some m \<Rightarrow> m \<le> cr_uses r) then StatusUsedUp
      else StatusLive)"

record capability_filter =
  cf_entity :: "entity_ref option"
  cf_includeRevoked :: "bool option"
  cf_limit :: "int option"
  cf_cursor :: "string option"

definition capabilityFilter :: "capability_filter \<Rightarrow> bool" where
  "capabilityFilter f \<longleftrightarrow> if_given entityRef_ok (cf_entity f) \<and> if_given (\<lambda>n. 1 \<le> n \<and> n \<le> 200) (cf_limit f) \<and> if_given ulid_pattern (cf_cursor f)"

definition DEFAULT_CAPABILITY_LIMIT :: int where "DEFAULT_CAPABILITY_LIMIT = 50"

definition capability_where :: "capability_filter \<Rightarrow> cap_row \<Rightarrow> bool" where
  "capability_where f r \<longleftrightarrow>
     if_given (\<lambda>e. cap_entity_type r = Some (entityType e) \<and> cap_entity_id r = Some (entityId e)) (cf_entity f) \<and>
     (cf_includeRevoked f = Some True \<or> cap_revoked_at r = None) \<and> if_given (\<lambda>c. cap_id r < c) (cf_cursor f)"

text \<open>The newest first: ids are ULIDs.\<close>

definition capabilityListQuery :: "capability_filter \<Rightarrow> nat \<Rightarrow> 'a cap_store_scheme \<Rightarrow> cap_row list result" where
  "capabilityListQuery f extra st =
     bind_r (guard_r (capabilityFilter f) (ZodError ''capabilityFilter'')) (\<lambda>_.
       Inr (take (nat (or_else (cf_limit f) DEFAULT_CAPABILITY_LIMIT) + extra)
              (rev (sort_key cap_id (filter (capability_where f) (cp_capabilities st))))))"

definition readCapabilities :: "cap_lib \<Rightarrow> capability_filter \<Rightarrow> 'a cap_store_scheme \<Rightarrow> capability_record list result" where
  "readCapabilities L f st = bind_r (capabilityListQuery f 0 st) (traverse (capabilityRecordOf L))"

definition readCapabilityPage ::
  "cap_lib \<Rightarrow> capability_filter \<Rightarrow> 'a cap_store_scheme \<Rightarrow> (capability_record list \<times> string option) result" where
  "readCapabilityPage L f st =
     bind_r (capabilityListQuery f 1 st) (\<lambda>rows.
     let n = nat (or_else (cf_limit f) DEFAULT_CAPABILITY_LIMIT) in
     bind_r (traverse (capabilityRecordOf L) (take n rows)) (\<lambda>es.
       Inr (es, if n < length rows \<and> es \<noteq> [] then Some (cr_id (common_of (last es))) else None)))"

section \<open>The session door\<close>

definition CAPABILITY_ATTACHMENT_READ_OPERATIONS :: "string list" where
  "CAPABILITY_ATTACHMENT_READ_OPERATIONS = [''attachments.list'', ''attachments.open'', ''attachments.search'']"

text \<open>The stored allowlist is the array a mint wrote; anything else in the column throws.\<close>

definition operation_listed :: "json option \<Rightarrow> string \<Rightarrow> bool result" where
  "operation_listed col operation =
     (case col of Some (JArr js) \<Rightarrow> Inr (JStr operation \<in> set js) | _ \<Rightarrow> Inl (PlainError ''SyntaxError''))"

definition resolveCapabilitySession :: "string \<Rightarrow> string \<Rightarrow> string \<Rightarrow> bool \<Rightarrow> 'a cap_store_scheme \<Rightarrow> string result" where
  "resolveCapabilitySession sessionHash now operation attachmentRead st =
     (case row_where (\<lambda>s. ss_token_hash s = sessionHash) (cp_sessions st) of
        None \<Rightarrow> Inl (SubstratError Unauthenticated None ''capability session is unknown or has expired'')
      | Some s \<Rightarrow>
          if ss_expires_at s \<le> now then Inl (SubstratError Unauthenticated None ''capability session is unknown or has expired'')
          else
            (case capabilityByIdQuery (ss_capability_id s) st of
               None \<Rightarrow> Inl (SubstratError Unauthenticated None ''capability has been revoked or has expired'')
             | Some row \<Rightarrow>
                 bind_r (guard_r (cap_mode row = ''act'' \<and> capabilityLive row now)
                    (SubstratError Unauthenticated None ''capability has been revoked or has expired'')) (\<lambda>_.
                 bind_r (case cap_operations row of
                    None \<Rightarrow> Inr ()
                  | Some col \<Rightarrow>
                      bind_r (operation_listed col operation) (\<lambda>listed.
                        guard_r (listed \<or> attachmentRead \<and> cap_attachments row = Some ''read'' \<and> operation \<in> set CAPABILITY_ATTACHMENT_READ_OPERATIONS)
                          (SubstratError Forbidden (Some ''capability_operation'')
                             (''capability '' @ cap_id row @ '' may not invoke '' @ operation)))) (\<lambda>_.
                 bind_r (guard_r (ulid_pattern (cap_id row)) (ZodError ''capabilityId'')) (\<lambda>_. Inr (cap_id row))))))"

section \<open>Sweeps over binding links\<close>

definition exchangeable_link :: "string \<Rightarrow> cap_row \<Rightarrow> bool" where
  "exchangeable_link now r \<longleftrightarrow>
     cap_revoked_at r = None \<and> expires_after (cap_expires_at r) now \<and> (case cap_max_uses r of None \<Rightarrow> True | Some m \<Rightarrow> cap_uses r < m)"

fun revoke_each ::
  "string list \<Rightarrow> cap_author option \<Rightarrow> string \<Rightarrow> 'a cap_store_scheme \<Rightarrow> (string list \<times> 'a cap_store_scheme) result" where
  "revoke_each [] by now st = Inr ([], st)"
| "revoke_each (i # is) by now st =
     bind_r (guard_r (ulid_pattern i) (ZodError ''capabilityId'')) (\<lambda>_.
     case markRevoked i by now None st of (changed, st1) \<Rightarrow>
     bind_r (revoke_each is by now st1) (\<lambda>(rest, st2). Inr (if changed then i # rest else rest, st2)))"

definition revokeBindLinksIn ::
  "entity_ref \<Rightarrow> cap_author option \<Rightarrow> string \<Rightarrow> 'a cap_store_scheme \<Rightarrow> (string list \<times> 'a cap_store_scheme) result" where
  "revokeBindLinksIn e by now st =
     bind_r (revoke_each (map cap_id (filter (\<lambda>r. cap_mode r \<in> {''become'', ''bind''} \<and> cap_action r \<noteq> None \<and> exchangeable_link now r \<and>
          decodedAction (the (cap_action r)) = Some e) (cp_capabilities st))) by now st) (\<lambda>(ids, st1). Inr (sort ids, st1))"

definition revokeBindLinksFor :: "string \<Rightarrow> string \<Rightarrow> 'a cap_store_scheme \<Rightarrow> 'a cap_store_scheme result" where
  "revokeBindLinksFor who now st =
     bind_r (revoke_each (map cap_id (filter (\<lambda>r. cap_mode r = ''bind'' \<and> cap_principal r = Some who \<and> exchangeable_link now r)
          (cp_capabilities st))) None now st) (\<lambda>(ids, st1). Inr st1)"


section \<open>What the verbs leave alone\<close>

lemma cp_more:
  fixes st st' :: "'a cap_store_scheme"
  assumes "scope_store.more st' = scope_store.more st"
  shows "cp_capabilities st' = cp_capabilities st" "cp_sessions st' = cp_sessions st" "cp_tables st' = cp_tables st"
  using assms by (cases st, cases st', simp)+

lemma writeEvent_cap:
  fixes st st' :: "'a cap_store_scheme"
  assumes "writeEvent cx au ev st = Inr st'"
  shows "cp_capabilities st' = cp_capabilities st" "cp_sessions st' = cp_sessions st" "cp_tables st' = cp_tables st" "tuples st' = tuples st"
  by (simp_all add: writeEvent_Inr(4) [OF assms])

lemma check_all_Inr:
  assumes "check_all cx verb e ps st = Inr st'"
  shows "tuples st' = tuples st \<and> scope_store.more st' = scope_store.more st \<and>
    (cx_override cx = None \<longrightarrow> (\<forall>p \<in> set ps. \<exists>d. cx_checker cx (tuples st) (cx_subject cx) p (cx_node cx) (Some e) = Inr d \<and> allowed d))"
  using assms
proof (induction ps arbitrary: st)
  case (Cons p ps)
  then obtain d st1 where d: "decideCheck cx p (Some e) st = Inr (d, st1)" "allowed d" and rest: "check_all cx verb e ps st1 = Inr st'"
    by (auto simp: monad_simps)
  from Cons.IH [OF rest] decideCheck_Inr [OF d(1)] d(2) show ?case by auto
qed simp

lemma principalOf_Inr [monad_simps]: "principalOf subj verb = Inr i \<longleftrightarrow> subj = Principal i"
  by (cases subj) (auto simp: principalOf_def)

end
