(* ===== verification/Entity_Binding.thy ===== *)
theory Entity_Binding
  imports Capability_Directory "HOL-Library.AList"
begin

text \<open>
  Binding shapes (\<open>packages/kernel/src/entity-binding.ts\<close>): a record names its own person in a
  declared column, and the person it names holds the declared keys on the record.  The theory models
  the judgement a link is held to, the claim, the unbind and the two halves of an erasure, over the
  tuples, the capability rows and the module tables of a scope.

  A module table maps column names to values; a declared column a row does not list reads as \<open>NULL\<close>.
\<close>

section \<open>The recorded bindings\<close>

definition BIND_HOLDER_RELATION :: string where "BIND_HOLDER_RELATION = ''shape-bind-holder''"
definition BIND_PERMISSION_RELATION :: string where "BIND_PERMISSION_RELATION = ''shape-bind-permission''"
definition BIND_KEY_RELATION :: string where "BIND_KEY_RELATION = ''shape-bind-key''"
definition BOUND_EVER_RELATION :: string where "BOUND_EVER_RELATION = ''shape-bound''"
definition ENTITY_SHAPE_MARKER_RELATION :: string where "ENTITY_SHAPE_MARKER_RELATION = ''bootstrap''"

definition BINDING_RELATIONS :: "string list" where
  "BINDING_RELATIONS = [BIND_HOLDER_RELATION, BIND_PERMISSION_RELATION, BIND_KEY_RELATION, shape_protected_key_relation]"

record entity_binding =
  eb_entityType :: string
  eb_table :: string
  eb_idColumn :: string
  eb_principalColumn :: string
  eb_permission :: "string option"
  eb_keys :: "string list"
  eb_every :: "string list"

text \<open>\<open>s.split(c)\<close>.\<close>

fun split_on :: "char \<Rightarrow> string \<Rightarrow> string list" where
  "split_on c [] = [[]]"
| "split_on c (x # xs) = (if x = c then [] # split_on c xs else (case split_on c xs of w # ws \<Rightarrow> (x # w) # ws | [] \<Rightarrow> [[x]]))"

definition SQL_IDENTIFIER :: "string \<Rightarrow> bool" where
  "SQL_IDENTIFIER s \<longleftrightarrow> s \<noteq> [] \<and> list_all (\<lambda>c. is_upper c \<or> is_lower c \<or> is_digit c \<or> c = CHR ''_'') s \<and> \<not> is_digit (hd s)"

definition assertSqlIdentifier :: "string \<Rightarrow> string result" where
  "assertSqlIdentifier s = bind_r (guard_r (SQL_IDENTIFIER s) (PlainError (s @ '' is not a plain SQL identifier''))) (\<lambda>_. Inr s)"

definition key_of_object :: "string \<Rightarrow> string result" where
  "key_of_object ob = bind_r (guard_r (permissionKey (drop (length ''granted:'') ob)) (ZodError ''permissionKey'')) (\<lambda>_. Inr (drop (length ''granted:'') ob))"

definition objects_of :: "string \<Rightarrow> tuple_row list \<Rightarrow> string list" where
  "objects_of rel rows = map object (filter (\<lambda>r. relation r = rel) rows)"

definition bindingFrom :: "string \<Rightarrow> tuple_row list \<Rightarrow> entity_binding option result" where
  "bindingFrom ty rows =
     (case (objects_of BIND_HOLDER_RELATION rows, objects_of BIND_PERMISSION_RELATION rows) of
        ([holder], permission) \<Rightarrow>
          if 1 < length permission then Inr None
          else if length (split_on (CHR ''.'') holder) \<noteq> 3 then Inr None
          else
            bind_r (traverse assertSqlIdentifier (split_on (CHR ''.'') holder)) (\<lambda>names.
            bind_r (case permission of [] \<Rightarrow> Inr None | p # _ \<Rightarrow> bind_r (guard_r (permissionKey p) (ZodError ''permissionKey'')) (\<lambda>_. Inr (Some p))) (\<lambda>perm.
            bind_r (traverse key_of_object (objects_of BIND_KEY_RELATION rows)) (\<lambda>keys.
            bind_r (traverse key_of_object (objects_of shape_protected_key_relation rows)) (\<lambda>every.
              Inr (Some \<lparr>eb_entityType = ty, eb_table = names ! 0, eb_idColumn = names ! 1, eb_principalColumn = names ! 2,
                   eb_permission = perm, eb_keys = sort keys, eb_every = sort every\<rparr>)))))
      | _ \<Rightarrow> Inr None)"

text \<open>A binding that still declares its key, with that key.\<close>

definition entityBindingOf :: "string \<Rightarrow> tuple_row list \<Rightarrow> (entity_binding \<times> string) option result" where
  "entityBindingOf ty rows =
     bind_r (bindingFrom ty (filter (\<lambda>r. subject r = ''shape:'' @ ty \<and> relation r \<in> set BINDING_RELATIONS) rows)) (\<lambda>b.
       Inr (Option.bind b (\<lambda>b. map_option (\<lambda>p. (b, p)) (eb_permission b))))"

definition shape_subject :: "tuple_row \<Rightarrow> bool" where
  "shape_subject r \<longleftrightarrow> ''shape:'' \<le> subject r \<and> subject r < ''shape;''"

definition entityBindingsOf :: "tuple_row list \<Rightarrow> entity_binding list result" where
  "entityBindingsOf rows =
     (let facts = filter (\<lambda>r. shape_subject r \<and> relation r \<in> set BINDING_RELATIONS) rows in
      bind_r (traverse (\<lambda>s. bindingFrom (drop (length ''shape:'') s) (filter (\<lambda>r. subject r = s) facts)) (unique_in_order (map subject facts)))
        (\<lambda>bs. Inr (List.map_filter id bs)))"

section \<open>The record and its holders\<close>

definition tableExists :: "string \<Rightarrow> 'a cap_store_scheme \<Rightarrow> bool" where
  "tableExists name st \<longleftrightarrow> name \<in> fst ` set (cp_tables st)"

definition table_rows :: "string \<Rightarrow> 'a cap_store_scheme \<Rightarrow> (string \<times> string option) list list" where
  "table_rows name st = (case map_of (cp_tables st) name of None \<Rightarrow> [] | Some rows \<Rightarrow> rows)"

definition column :: "string \<Rightarrow> (string \<times> string option) list \<Rightarrow> string option" where
  "column c row = (case map_of row c of None \<Rightarrow> None | Some v \<Rightarrow> v)"

text \<open>\<open>UPDATE t SET c = v WHERE p\<close>.\<close>

definition update_table ::
  "string \<Rightarrow> ((string \<times> string option) list \<Rightarrow> bool) \<Rightarrow> string \<Rightarrow> string option \<Rightarrow> 'a cap_store_scheme \<Rightarrow> 'a cap_store_scheme" where
  "update_table name p c v st =
     st\<lparr>cp_tables := map (\<lambda>(n, rows). (n, if n = name then update_where p (AList.update c v) rows else rows)) (cp_tables st)\<rparr>"

definition boundRecord :: "entity_binding \<Rightarrow> string \<Rightarrow> 'a cap_store_scheme \<Rightarrow> nat \<times> string option" where
  "boundRecord b eid st =
     (if \<not> tableExists (eb_table b) st then (0, None)
      else let named = map (column (eb_principalColumn b)) (filter (\<lambda>r. column (eb_idColumn b) r = Some eid) (table_rows (eb_table b) st)) in
        (length named, case List.find (\<lambda>x. x \<noteq> None) named of None \<Rightarrow> None | Some x \<Rightarrow> x))"

definition principal_subject :: "tuple_row \<Rightarrow> bool" where
  "principal_subject r \<longleftrightarrow> ''principal:'' \<le> subject r \<and> subject r < ''principal;''"

definition marks :: "string \<Rightarrow> tuple_row \<Rightarrow> bool" where
  "marks ob r \<longleftrightarrow> object r = ob \<and> relation r = ENTITY_SHAPE_MARKER_RELATION \<and> revoked_at r = None \<and> principal_subject r"

definition heldBySomeone :: "string \<Rightarrow> tuple_row list \<Rightarrow> bool" where
  "heldBySomeone ob rows \<longleftrightarrow> list_ex (marks ob) rows"

section \<open>The judgement and the claim\<close>

datatype judgement = Bindable entity_binding | BindRefused string | BindLacking string

definition judgeBind :: "(string \<Rightarrow> entity_ref \<Rightarrow> bool result) \<Rightarrow> entity_ref \<Rightarrow> 'a cap_store_scheme \<Rightarrow> judgement result" where
  "judgeBind may entity st =
     bind_r (entityObjectRef entity ''bind'') (\<lambda>ob.
     bind_r (entityBindingOf (entityType entity) (tuples st)) (\<lambda>found.
       case found of None \<Rightarrow> Inr (BindRefused ''bind-not-declared'')
       | Some (b, permission) \<Rightarrow>
           bind_r (may permission entity) (\<lambda>ok.
             if \<not> ok then Inr (BindLacking permission)
             else
               (case boundRecord b (entityId entity) st of (n, named) \<Rightarrow>
                  Inr (if n = 0 then BindRefused ''bind-record-missing''
                       else if named \<noteq> None then BindRefused ''bind-record-bound''
                       else if 1 < n then BindRefused ''bind-record-ambiguous''
                       else if heldBySomeone ob (tuples st) then BindRefused ''bind-record-held''
                       else Bindable b)))))"

text \<open>\<open>grantEntityShapeIn\<close>: the marker and every key, each an explicit write.\<close>

definition keysOf :: "string list \<Rightarrow> string list" where
  "keysOf ps = sort (remdups ps)"

definition grantEntityShapeIn :: "string \<Rightarrow> entity_ref \<Rightarrow> string list \<Rightarrow> tuple_row list \<Rightarrow> tuple_row list result" where
  "grantEntityShapeIn who entity permissions rows =
     bind_r (entityObjectRef entity ''grantEntityShape'') (\<lambda>ob.
       Inr (fold (\<lambda>rel. explicitTuple (''principal:'' @ who) rel ob) (ENTITY_SHAPE_MARKER_RELATION # map (\<lambda>p. ''granted:'' @ p) (keysOf permissions)) rows))"

definition insert_or_ignore :: "string \<Rightarrow> string \<Rightarrow> string \<Rightarrow> tuple_row list \<Rightarrow> tuple_row list" where
  "insert_or_ignore s rel ob rows = (if list_ex (tuple_key s rel ob) rows then rows else rows @ [new_tuple s rel ob None])"

text \<open>The context a host verb emits through: a fresh one, so no check has passed in it.\<close>

definition host_ctx :: "op_ctx \<Rightarrow> check_subject \<Rightarrow> string \<Rightarrow> op_ctx" where
  "host_ctx cx subj operation = cx\<lparr>cx_subject := subj, cx_override := None, cx_operation := Some operation, cx_session := None\<rparr>"

definition unclaimed :: "entity_binding \<Rightarrow> string \<Rightarrow> (string \<times> string option) list \<Rightarrow> bool" where
  "unclaimed b eid r \<longleftrightarrow> column (eb_idColumn b) r = Some eid \<and> column (eb_principalColumn b) r = None"

definition bindIn ::
  "op_ctx \<Rightarrow> entity_binding \<Rightarrow> entity_ref \<Rightarrow> string \<Rightarrow> string \<Rightarrow> string \<Rightarrow> 'a cap_store_scheme \<Rightarrow> 'a cap_store_scheme result" where
  "bindIn cx b entity who capabilityId mintedBy st =
     bind_r (guard_r (length (filter (unclaimed b (entityId entity)) (table_rows (eb_table b) st)) = 1)
        (SubstratError Internal None (''capability '' @ capabilityId @ '': its bind on '' @ entityType entity @ '' was refused after it was judged''))) (\<lambda>_.
     bind_r (grantEntityShapeIn who entity (eb_keys b) (tuples st)) (\<lambda>rows.
       writeEvent cx KernelAuthor (cap_event ''entity.holder-bound'' entity
          (JObj [(''entity'', json_ref entity), (''principal'', JStr who), (''capabilityId'', JStr capabilityId), (''mintedBy'', JStr mintedBy),
                 (''granted'', JArr (map JStr (eb_keys b)))]))
         ((update_table (eb_table b) (unclaimed b (entityId entity)) (eb_principalColumn b) (Some who) st)
            \<lparr>tuples := insert_or_ignore (''shape:'' @ entityType entity) BOUND_EVER_RELATION ''bound'' rows\<rparr>)))"

section \<open>Unbinding\<close>

text \<open>What a release takes from a holder: the marker and every key held on the record.\<close>

definition released_row :: "string \<Rightarrow> string \<Rightarrow> tuple_row \<Rightarrow> bool" where
  "released_row s ob r \<longleftrightarrow> subject r = s \<and> object r = ob \<and> revoked_at r = None \<and>
     (relation r = ENTITY_SHAPE_MARKER_RELATION \<or> ''granted:'' \<le> relation r \<and> relation r < ''granted;'')"

fun release_each :: "string list \<Rightarrow> string \<Rightarrow> string \<Rightarrow> tuple_row list \<Rightarrow> ((string \<times> string list) list \<times> tuple_row list) result" where
  "release_each [] ob now rows = Inr ([], rows)"
| "release_each (s # ss) ob now rows =
     bind_r (traverse key_of_object (map relation (filter (\<lambda>r. released_row s ob r \<and> relation r \<noteq> ENTITY_SHAPE_MARKER_RELATION) rows))) (\<lambda>removed.
     bind_r (release_each ss ob now (update_where (released_row s ob) (\<lambda>r. r\<lparr>revoked_at := Some now\<rparr>) rows)) (\<lambda>(rest, rows').
       Inr ((drop (length ''principal:'') s, sort removed) # rest, rows')))"

definition releaseHolders ::
  "string \<Rightarrow> string \<Rightarrow> string option \<Rightarrow> tuple_row list \<Rightarrow> ((string \<times> string list) list \<times> tuple_row list) result" where
  "releaseHolders ob now one rows =
     release_each (map subject (filter (\<lambda>r. marks ob r \<and> if_given (\<lambda>p. subject r = ''principal:'' @ p) one) rows)) ob now rows"

definition clearColumn :: "entity_binding \<Rightarrow> string \<Rightarrow> string option \<Rightarrow> 'a cap_store_scheme \<Rightarrow> 'a cap_store_scheme" where
  "clearColumn b eid who st =
     (if \<not> tableExists (eb_table b) st then st
      else update_table (eb_table b) (\<lambda>r. column (eb_idColumn b) r = Some eid \<and>
          (case who of None \<Rightarrow> column (eb_principalColumn b) r \<noteq> None | Some p \<Rightarrow> column (eb_principalColumn b) r = Some p))
        (eb_principalColumn b) None st)"

datatype unbind_answer = Unbound "string list" "string list" | UnbindRefused string | UnbindLacking string

fun emit_unbound :: "op_ctx \<Rightarrow> entity_ref \<Rightarrow> (string \<times> string list) list \<Rightarrow> 'a cap_store_scheme \<Rightarrow> 'a cap_store_scheme result" where
  "emit_unbound cx entity [] st = Inr st"
| "emit_unbound cx entity ((who, removed) # rest) st =
     bind_r (writeEvent cx KernelAuthor (cap_event ''entity.holder-unbound'' entity
        (JObj [(''entity'', json_ref entity), (''principal'', JStr who), (''removed'', JArr (map JStr removed))])) st) (emit_unbound cx entity rest)"

definition unbindEntityHolder ::
  "op_ctx \<Rightarrow> string \<Rightarrow> (string \<Rightarrow> entity_ref \<Rightarrow> bool result) \<Rightarrow> entity_ref \<Rightarrow> 'a cap_store_scheme \<Rightarrow> (unbind_answer \<times> 'a cap_store_scheme) result" where
  "unbindEntityHolder cx caller may entity st =
     bind_r (entityObjectRef entity ''unbind'') (\<lambda>ob.
     bind_r (entityBindingOf (entityType entity) (tuples st)) (\<lambda>found.
       case found of None \<Rightarrow> Inr (UnbindRefused ''bind-not-declared'', st)
       | Some (b, permission) \<Rightarrow>
           bind_r (may permission entity) (\<lambda>ok.
             if \<not> ok then Inr (UnbindLacking permission, st)
             else
               (let st1 = clearColumn b (entityId entity) None st in
                bind_r (releaseHolders ob (cx_at cx) None (tuples st1)) (\<lambda>(released, rows).
                bind_r (emit_unbound cx entity released (st1\<lparr>tuples := rows\<rparr>)) (\<lambda>st2.
                bind_r (revokeBindLinksIn entity (Some (ByPrincipal caller)) (cx_at cx) st2) (\<lambda>(links, st3).
                  Inr (Unbound (map fst released) links, st3))))))))"

section \<open>The erasure's half\<close>

record erasure_bindings =
  er_subject :: string
  er_holders :: "(string \<times> string option) list"
  er_columns :: "(entity_binding \<times> string \<times> string) list"

definition captured_holders :: "string \<Rightarrow> string \<Rightarrow> tuple_row list \<Rightarrow> (string \<times> string option) list" where
  "captured_holders subjectId ty rows =
     (ty @ '':'' @ subjectId, None) #
     map (\<lambda>r. (object r, Some subjectId))
       (filter (\<lambda>r. subject r = ''principal:'' @ subjectId \<and> relation r = ENTITY_SHAPE_MARKER_RELATION \<and> revoked_at r = None \<and>
          ty @ '':'' \<le> object r \<and> object r < ty @ '';'') rows)"

definition captured_columns :: "string \<Rightarrow> entity_binding option \<Rightarrow> 'a cap_store_scheme \<Rightarrow> (entity_binding \<times> string \<times> string) list" where
  "captured_columns subjectId found st =
     (case found of None \<Rightarrow> []
      | Some b \<Rightarrow>
          if \<not> tableExists (eb_table b) st then []
          else map (\<lambda>r. (b, (case column (eb_idColumn b) r of None \<Rightarrow> ''null'' | Some i \<Rightarrow> i), the (column (eb_principalColumn b) r)))
            (filter (\<lambda>r. (column (eb_idColumn b) r = Some subjectId \<or> column (eb_principalColumn b) r = Some subjectId) \<and>
               column (eb_principalColumn b) r \<noteq> None) (table_rows (eb_table b) st)))"

definition captureBoundOf :: "string \<Rightarrow> 'a cap_store_scheme \<Rightarrow> erasure_bindings result" where
  "captureBoundOf subjectId st =
     bind_r (entityBindingsOf (tuples st)) (\<lambda>bs.
       let types = unique_in_order (map eb_entityType bs @
             map (\<lambda>r. drop (length ''shape:'') (subject r)) (filter (\<lambda>r. shape_subject r \<and> relation r = BOUND_EVER_RELATION) (tuples st))) in
       Inr \<lparr>er_subject = subjectId,
            er_holders = concat (map (\<lambda>ty. captured_holders subjectId ty (tuples st)) types),
            er_columns = concat (map (\<lambda>ty. captured_columns subjectId (List.find (\<lambda>b. eb_entityType b = ty) (rev bs)) st) types)\<rparr>)"

fun release_columns :: "(entity_binding \<times> string \<times> string) list \<Rightarrow> string \<Rightarrow> 'a cap_store_scheme \<Rightarrow> 'a cap_store_scheme result" where
  "release_columns [] now st = Inr st"
| "release_columns ((b, i, p) # cs) now st =
     bind_r (revokeBindLinksIn \<lparr>entityType = eb_entityType b, entityId = i\<rparr> None now (clearColumn b i (Some p) st)) (\<lambda>(ids, st1).
       release_columns cs now st1)"

fun release_holders :: "(string \<times> string option) list \<Rightarrow> string \<Rightarrow> tuple_row list \<Rightarrow> tuple_row list result" where
  "release_holders [] now rows = Inr rows"
| "release_holders ((ob, one) # hs) now rows = bind_r (releaseHolders ob now one rows) (\<lambda>(x, rows1). release_holders hs now rows1)"

definition releaseBound :: "erasure_bindings \<Rightarrow> string \<Rightarrow> 'a cap_store_scheme \<Rightarrow> 'a cap_store_scheme result" where
  "releaseBound captured now st =
     bind_r (release_columns (er_columns captured) now st) (\<lambda>st1.
     bind_r (release_holders (er_holders captured) now (tuples st1)) (\<lambda>rows.
       revokeBindLinksFor (er_subject captured) now (st1\<lparr>tuples := rows\<rparr>)))"

section \<open>The claim\<close>

lemma bindIn_Inr:
  fixes st st' :: "'a cap_store_scheme"
  assumes "bindIn cx b entity who i m st = Inr st'"
  shows "length (filter (unclaimed b (entityId entity)) (table_rows (eb_table b) st)) = 1"
    "\<exists>rows. grantEntityShapeIn who entity (eb_keys b) (tuples st) = Inr rows \<and>
       tuples st' = insert_or_ignore (''shape:'' @ entityType entity) BOUND_EVER_RELATION ''bound'' rows"
    "cp_tables st' = cp_tables (update_table (eb_table b) (unclaimed b (entityId entity)) (eb_principalColumn b) (Some who) st)"
    "cp_capabilities st' = cp_capabilities st" "cp_sessions st' = cp_sessions st"
proof -
  from assms obtain rows ev where 1: "length (filter (unclaimed b (entityId entity)) (table_rows (eb_table b) st)) = 1"
    "grantEntityShapeIn who entity (eb_keys b) (tuples st) = Inr rows"
    and w: "writeEvent cx KernelAuthor ev ((update_table (eb_table b) (unclaimed b (entityId entity)) (eb_principalColumn b) (Some who) st)
        \<lparr>tuples := insert_or_ignore (''shape:'' @ entityType entity) BOUND_EVER_RELATION ''bound'' rows\<rparr>) = Inr st'"
    unfolding bindIn_def bind_r_Inr_iff guard_r_Inr_iff by blast
  note e = writeEvent_cap [OF w]
  show "length (filter (unclaimed b (entityId entity)) (table_rows (eb_table b) st)) = 1" by (rule 1)
  show "\<exists>rows. grantEntityShapeIn who entity (eb_keys b) (tuples st) = Inr rows \<and>
       tuples st' = insert_or_ignore (''shape:'' @ entityType entity) BOUND_EVER_RELATION ''bound'' rows"
    using 1(2) e(4) by (intro exI [of _ rows]) simp
  show "cp_tables st' = cp_tables (update_table (eb_table b) (unclaimed b (entityId entity)) (eb_principalColumn b) (Some who) st)"
    using e(3) by simp
  show "cp_capabilities st' = cp_capabilities st" "cp_sessions st' = cp_sessions st" using e(1,2) by (simp_all add: update_table_def)
qed

end
