(* ===== verification/Capability_Exchange.thy ===== *)
theory Capability_Exchange
  imports Entity_Binding
begin

text \<open>
  The host's half of capabilities: the exchange of a secret for a session, a principal or a binding,
  the platform's and a principal's \<open>become\<close> mint, bind links, their revokes, and where a link stands
  (\<open>packages/kernel/src/capability.ts\<close> from \<open>exchangeCapability\<close> on, and the host verbs of
  \<open>packages/adapter-sqlite/src/index.ts\<close> that wrap them in one transaction).

  The permission checker is a record of functions over the tables as the verb finds them; \<open>evaluator\<close>
  is the checker the kernel builds.  What a host verb dispatches after its commit is the drain of
  \<open>Delivery\<close>.
\<close>

section \<open>Holdings and their digest\<close>

record permission_checker =
  pk_check :: "check_subject \<Rightarrow> string \<Rightarrow> check_node \<Rightarrow> entity_ref option \<Rightarrow> decision result"
  pk_covers :: "check_subject \<Rightarrow> string list \<Rightarrow> check_node \<Rightarrow> coverage result"
  pk_holdings :: "(check_subject \<Rightarrow> check_node \<Rightarrow> holdings result) option"

definition evaluator :: "reader \<Rightarrow> permission_checker" where
  "evaluator rd = \<lparr>pk_check = check rd, pk_covers = covers rd, pk_holdings = Some (holdings_at rd)\<rparr>"

definition allowedFor :: "permission_checker \<Rightarrow> string \<Rightarrow> check_node \<Rightarrow> string \<Rightarrow> entity_ref \<Rightarrow> bool result" where
  "allowedFor ck who n permission entity = bind_r (pk_check ck (Principal who) permission n (Some entity)) (\<lambda>d. Inr (allowed d))"

text \<open>\<open>JSON.stringify\<close> of strings and arrays of strings.\<close>

definition json_escape :: "char \<Rightarrow> string" where
  "json_escape c =
     (if c = CHR 0x22 then [CHR 0x5C, CHR 0x22] else if c = CHR 0x5C then [CHR 0x5C, CHR 0x5C]
      else if c = CHR 0x08 then [CHR 0x5C, CHR ''b''] else if c = CHR 0x09 then [CHR 0x5C, CHR ''t'']
      else if c = CHR 0x0A then [CHR 0x5C, CHR ''n''] else if c = CHR 0x0C then [CHR 0x5C, CHR ''f'']
      else if c = CHR 0x0D then [CHR 0x5C, CHR ''r'']
      else if (of_char c :: nat) < 32
      then [CHR 0x5C, CHR ''u'', CHR ''0'', CHR ''0'', hex_digit (of_char c div 16), hex_digit (of_char c mod 16)]
      else [c])"

definition json_quote :: "string \<Rightarrow> string" where
  "json_quote s = [CHR 0x22] @ concat (map json_escape s) @ [CHR 0x22]"

definition json_strings :: "string list \<Rightarrow> string" where
  "json_strings xs = ''['' @ join '','' (map json_quote xs) @ '']''"

definition sorted_set :: "string list \<Rightarrow> string list" where
  "sorted_set xs = sort (remdups xs)"

definition narrowed_text :: "string \<times> entity_ref \<Rightarrow> string" where
  "narrowed_text x = fst x @ '' '' @ ref_of (snd x)"

definition canonical_holdings :: "holdings \<Rightarrow> string" where
  "canonical_holdings held =
     ''{'' @ json_quote ''roles'' @ '':'' @ json_strings (sorted_set (h_roles held)) @ '','' @
     json_quote ''granted'' @ '':'' @ json_strings (sorted_set (h_granted held)) @ '','' @
     json_quote ''narrowed'' @ '':'' @ json_strings (sorted_set (map narrowed_text (h_narrowed held))) @ ''}''"

definition holdingsDigest :: "cap_lib \<Rightarrow> holdings \<Rightarrow> string" where
  "holdingsDigest L held = capabilityTokenHash L (canonical_holdings held)"

definition BIND_DIGEST_PREFIX :: string where "BIND_DIGEST_PREFIX = ''bind:''"

definition storedDigest :: "cap_lib \<Rightarrow> cap_row \<Rightarrow> holdings \<Rightarrow> string" where
  "storedDigest L row held = (if cap_action row \<noteq> None then BIND_DIGEST_PREFIX @ holdingsDigest L held else holdingsDigest L held)"

section \<open>The exchange\<close>

datatype exchange_answer =
    SessionGranted string string string entity_ref \<comment> \<open>capability, session token, expiry, entity\<close>
  | YieldsPrincipal string string "entity_ref option" \<comment> \<open>capability, principal, the record bound\<close>

definition CAPABILITY_SESSION_PRUNE_BATCH :: nat where "CAPABILITY_SESSION_PRUNE_BATCH = 100"

definition exchange_row :: "cap_lib \<Rightarrow> string \<Rightarrow> string \<Rightarrow> string option \<Rightarrow> 'a cap_store_scheme \<Rightarrow> cap_row option" where
  "exchange_row L now secret mode st =
     (if \<not> plausible secret CAPABILITY_SECRET_PREFIX then None
      else case row_where (\<lambda>r. cap_token_hash r = capabilityTokenHash L secret) (cp_capabilities st) of
        None \<Rightarrow> None
      | Some row \<Rightarrow> if capabilityExchangeable row now \<and> if_given (\<lambda>m. cap_mode row = m) mode then Some row else None)"

definition minter_of :: "cap_row \<Rightarrow> string option result" where
  "minter_of row = bind_r (json_column ''capabilityAuthor'' capabilityAuthor (cap_minted_by row)) (\<lambda>a.
     Inr (case a of ByPrincipal p \<Rightarrow> Some p | ByPlatform _ \<Rightarrow> None))"

text \<open>Who may present a bind link, and whether a principal-minted \<open>become\<close> still yields what it was minted for.\<close>

definition exchange_holdings ::
  "cap_lib \<Rightarrow> (string \<Rightarrow> holdings result) option \<Rightarrow> cap_row \<Rightarrow> string option \<Rightarrow> string option \<Rightarrow> string
     \<Rightarrow> 'a cap_store_scheme \<Rightarrow> (bool \<times> 'a cap_store_scheme) result" where
  "exchange_holdings L holdings row minter presenter now st =
     (if cap_mode row = ''bind'' then
        (case (presenter, holdings) of
           (Some p, Some hs) \<Rightarrow>
             if cap_principal row = Some p then bind_r (hs p) (\<lambda>h. Inr (h_permissions h \<noteq> [], st)) else Inr (False, st)
         | _ \<Rightarrow> Inr (False, st))
      else if cap_mode row = ''become'' \<and> minter \<noteq> None then
        (case holdings of
           None \<Rightarrow> Inr (False, st)
         | Some hs \<Rightarrow>
             if \<not> truthy (cap_target_digest row) then Inr (False, st)
             else
               bind_r (record_principal row) (\<lambda>p.
               bind_r (hs p) (\<lambda>held.
                 if Some (storedDigest L row held) = cap_target_digest row then Inr (True, st)
                 else bind_r (guard_r (ulid_pattern (cap_id row)) (ZodError ''capabilityId'')) (\<lambda>_.
                   Inr (False, snd (markRevoked (cap_id row) None now (Some ''holdings-changed'') st))))))
      else Inr (True, st))"

text \<open>The carried bind, judged: \<open>None\<close> refuses, \<open>Some None\<close> has nothing to bind.\<close>

definition exchange_bind ::
  "(string \<Rightarrow> string \<Rightarrow> entity_ref \<Rightarrow> bool result) option \<Rightarrow> cap_row \<Rightarrow> string option \<Rightarrow> 'a cap_store_scheme
     \<Rightarrow> (entity_binding \<times> entity_ref \<times> string) option option result" where
  "exchange_bind may row minter st =
     bind_r (if cap_mode row = ''act'' then Inr None else actionOf row) (\<lambda>action.
       case action of
         None \<Rightarrow> Inr (if cap_mode row = ''bind'' then None else Some None)
       | Some e \<Rightarrow>
           (case (may, minter) of
              (Some f, Some m) \<Rightarrow>
                bind_r (judgeBind (f m) e st) (\<lambda>j. Inr (case j of Bindable b \<Rightarrow> Some (Some (b, e, m)) | _ \<Rightarrow> None))
            | _ \<Rightarrow> Inr None))"

text \<open>\<open>UPDATE ... SET uses = uses + 1, last_used_at = ? WHERE id = ? AND uses = ?\<close>.\<close>

definition take_use :: "cap_row \<Rightarrow> string \<Rightarrow> 'a cap_store_scheme \<Rightarrow> bool \<times> 'a cap_store_scheme" where
  "take_use row now st =
     (length (filter (\<lambda>r. cap_id r = cap_id row \<and> cap_uses r = cap_uses row) (cp_capabilities st)) = 1,
      st\<lparr>cp_capabilities := update_where (\<lambda>r. cap_id r = cap_id row \<and> cap_uses r = cap_uses row)
           (\<lambda>r. r\<lparr>cap_uses := cap_uses r + 1, cap_last_used_at := Some now\<rparr>) (cp_capabilities st)\<rparr>)"

definition exercised_payload :: "cap_row \<Rightarrow> string \<Rightarrow> string \<Rightarrow> string option \<Rightarrow> string option \<Rightarrow> json" where
  "exercised_payload row i mode sessionExpiresAt who =
     JObj [(''capabilityId'', JStr i), (''mode'', JStr mode), (''uses'', JNum (cap_uses row + 1)), (''maxUses'', json_opt JNum (cap_max_uses row)),
           (''sessionExpiresAt'', json_opt JStr sessionExpiresAt), (''principal'', json_opt JStr who)]"

definition exchange_bind_mode ::
  "op_ctx \<Rightarrow> cap_row \<Rightarrow> entity_binding \<times> entity_ref \<times> string \<Rightarrow> 'a cap_store_scheme \<Rightarrow> (exchange_answer option \<times> 'a cap_store_scheme) result" where
  "exchange_bind_mode cx row bd st =
     (case bd of (b, e, m) \<Rightarrow>
      bind_r (record_principal row) (\<lambda>p.
      bind_r (bindIn cx b e p (cap_id row) m st) (\<lambda>st1. Inr (Some (YieldsPrincipal (cap_id row) p (Some e)), st1))))"

definition exchange_become_mode ::
  "op_ctx \<Rightarrow> cap_row \<Rightarrow> (entity_binding \<times> entity_ref \<times> string) option \<Rightarrow> 'a cap_store_scheme \<Rightarrow> (exchange_answer option \<times> 'a cap_store_scheme) result" where
  "exchange_become_mode cx row bd st =
     bind_r (record_principal row) (\<lambda>p.
     bind_r (case bd of None \<Rightarrow> Inr st | Some (b, e, m) \<Rightarrow> bindIn cx b e p (cap_id row) m st) (\<lambda>st1.
     bind_r (writeEvent cx KernelAuthor (cap_event ''capability.exercised'' \<lparr>entityType = ''capability'', entityId = cap_id row\<rparr>
        (exercised_payload row (cap_id row) ''become'' None (Some p))) st1) (\<lambda>st2.
       Inr (Some (YieldsPrincipal (cap_id row) p (map_option (\<lambda>(b, e, m). e) bd)), st2))))"

definition prune_sessions :: "string \<Rightarrow> session_row list \<Rightarrow> session_row list" where
  "prune_sessions now rows =
     (let gone = map ss_token_hash (take CAPABILITY_SESSION_PRUNE_BATCH (filter (\<lambda>s. ss_expires_at s \<le> now) rows)) in
      filter (\<lambda>s. ss_token_hash s \<notin> set gone) rows)"

definition exchange_act_mode ::
  "op_ctx \<Rightarrow> cap_lib \<Rightarrow> cap_row \<Rightarrow> 'a cap_store_scheme \<Rightarrow> (exchange_answer option \<times> 'a cap_store_scheme) result" where
  "exchange_act_mode cx L row st =
     (case capabilityGrantOf row of
        None \<Rightarrow> Inr (None, st)
      | Some g \<Rightarrow>
          bind_r (toISOString L (map_option (\<lambda>ms. ms + CAPABILITY_SESSION_TTL_MS) (d_parse L (cx_at cx)))) (\<lambda>ttlEnd.
          let expiresAt = (case cap_expires_at row of Some x \<Rightarrow> if x < ttlEnd then x else ttlEnd | None \<Rightarrow> ttlEnd) in
          case mintCapabilitySessionToken L st of (token, st1) \<Rightarrow>
          bind_r (insert_row (\<lambda>a b. ss_token_hash a = ss_token_hash b)
             \<lparr>ss_token_hash = capabilityTokenHash L token, ss_capability_id = cap_id row, ss_created_at = cx_at cx, ss_expires_at = expiresAt\<rparr>
             (prune_sessions (cx_at cx) (cp_sessions st1))) (\<lambda>rows.
          bind_r (writeEvent cx KernelAuthor (cap_event ''capability.exercised'' (cg_entity g)
             (exercised_payload row (cap_id row) ''act'' (Some expiresAt) None)) (st1\<lparr>cp_sessions := rows\<rparr>)) (\<lambda>st2.
            Inr (Some (SessionGranted (cap_id row) token expiresAt (cg_entity g)), st2)))))"

definition CAPABILITY_EXCHANGE_OPERATION :: string where "CAPABILITY_EXCHANGE_OPERATION = ''capabilities.exchange''"

text \<open>What the use bought, by mode.\<close>

definition exchange_finish ::
  "op_ctx \<Rightarrow> cap_lib \<Rightarrow> cap_row \<Rightarrow> (entity_binding \<times> entity_ref \<times> string) option \<Rightarrow> 'a cap_store_scheme \<Rightarrow> (exchange_answer option \<times> 'a cap_store_scheme) result" where
  "exchange_finish cx L row bind st =
     (if cap_mode row = ''bind'' then (case bind of Some b \<Rightarrow> exchange_bind_mode cx row b st | None \<Rightarrow> Inr (None, st))
      else if cap_mode row = ''become'' then exchange_become_mode cx row bind st
      else exchange_act_mode cx L row st)"

definition exchangeCapability ::
  "op_ctx \<Rightarrow> cap_lib \<Rightarrow> (string \<Rightarrow> holdings result) option \<Rightarrow> (string \<Rightarrow> string \<Rightarrow> entity_ref \<Rightarrow> bool result) option
     \<Rightarrow> string \<Rightarrow> string option \<Rightarrow> string option \<Rightarrow> 'a cap_store_scheme \<Rightarrow> (exchange_answer option \<times> 'a cap_store_scheme) result" where
  "exchangeCapability cx L holdings may secret mode presenter st =
     (case exchange_row L (cx_at cx) secret mode st of
        None \<Rightarrow> Inr (None, st)
      | Some row \<Rightarrow>
          bind_r (minter_of row) (\<lambda>minter.
          bind_r (exchange_holdings L holdings row minter presenter (cx_at cx) st) (\<lambda>(ok, st0).
            if \<not> ok then Inr (None, st0)
            else
              bind_r (exchange_bind may row minter st0) (\<lambda>bd.
                case bd of None \<Rightarrow> Inr (None, st0)
                | Some bind \<Rightarrow>
                    (case take_use row (cx_at cx) st0 of (taken, st1) \<Rightarrow>
                     if \<not> taken then Inr (None, st1)
                     else
                       bind_r (guard_r (ulid_pattern (cap_id row)) (ZodError ''capabilityId'')) (\<lambda>_.
                         exchange_finish (host_ctx cx (Capability (cap_id row)) CAPABILITY_EXCHANGE_OPERATION) L row bind st1))))))"

text \<open>The host's exchange: one instant, one transaction, a fresh context.\<close>

definition host_exchange ::
  "op_ctx \<Rightarrow> cap_lib \<Rightarrow> permission_checker \<Rightarrow> string \<Rightarrow> string option \<Rightarrow> string option \<Rightarrow> 'a cap_store_scheme \<Rightarrow> (exchange_answer option \<times> 'a cap_store_scheme) result" where
  "host_exchange cx L ck secret mode presenter st =
     bind_r (if mode = Some ''bind'' then
         (case presenter of Some p \<Rightarrow> bind_r (guard_r (ulid_pattern p) (ZodError ''principalId'')) (\<lambda>_. Inr (Some p)) | None \<Rightarrow> Inl (ZodError ''principalId''))
       else Inr None) (\<lambda>who.
       exchangeCapability cx L (map_option (\<lambda>hs p. hs (Principal p) (cx_node cx)) (pk_holdings ck))
         (Some (\<lambda>p. allowedFor ck p (cx_node cx))) secret mode who (st\<lparr>passed := []\<rparr>))"

section \<open>\<open>become\<close> and bind mints\<close>

record become_input =
  bi_principal :: string
  bi_expiresAt :: "string option"
  bi_maxUses :: int
  bi_label :: "string option"
  bi_bind :: "entity_ref option"

definition become_fields :: "cap_lib \<Rightarrow> become_input \<Rightarrow> become_input result" where
  "become_fields L raw =
     bind_r (guard_r (ulid_pattern (bi_principal raw) \<and> positive_int (bi_maxUses raw) \<and> if_given entityRef_ok (bi_bind raw)) (ZodError ''becomeCapabilityInput'')) (\<lambda>_.
     bind_r (optional_r (instant L) (bi_expiresAt raw)) (\<lambda>expiresAt.
     bind_r (optional_r capabilityLabel (bi_label raw)) (\<lambda>label.
       Inr (raw\<lparr>bi_expiresAt := expiresAt, bi_label := label\<rparr>))))"

text \<open>The platform's input: an expiry is required, and a bind is no field of it.\<close>

definition becomeCapabilityInput :: "cap_lib \<Rightarrow> become_input \<Rightarrow> become_input result" where
  "becomeCapabilityInput L raw =
     bind_r (guard_r (bi_expiresAt raw \<noteq> None) (ZodError ''becomeCapabilityInput'')) (\<lambda>_. become_fields L (raw\<lparr>bi_bind := None\<rparr>))"

definition principalBecomeCapabilityInput :: "cap_lib \<Rightarrow> become_input \<Rightarrow> become_input result" where
  "principalBecomeCapabilityInput L raw = become_fields L raw"

definition checkBecomeInput :: "cap_lib \<Rightarrow> become_input \<Rightarrow> string \<Rightarrow> become_input result" where
  "checkBecomeInput L raw now =
     bind_r (becomeCapabilityInput L raw) (\<lambda>input.
     bind_r (guard_r (if_given (\<lambda>x. now < x) (bi_expiresAt input)) (SubstratError Validation_Failed None ''mintCapability: expiresAt is not in the future'')) (\<lambda>_.
       Inr input))"

definition become_row ::
  "become_input \<Rightarrow> string \<Rightarrow> string \<Rightarrow> cap_author \<Rightarrow> string \<Rightarrow> string option \<Rightarrow> entity_ref option \<Rightarrow> string \<Rightarrow> cap_row" where
  "become_row input i tokenHash author now targetDigest action mode =
     \<lparr>cap_mode = mode, cap_entity_type = None, cap_entity_id = None, cap_permissions = None, cap_minted_by = Some (json_author author),
      cap_expires_at = bi_expiresAt input, cap_max_uses = Some (bi_maxUses input), cap_uses = 0, cap_revoked_at = None,
      cap_id = i, cap_token_hash = tokenHash, cap_label = bi_label input, cap_operations = None, cap_attachments = None,
      cap_principal = Some (bi_principal input), cap_target_digest = targetDigest, cap_revoked_reason = None,
      cap_action = map_option (\<lambda>e. Some (json_action e)) action, cap_minted_at = now, cap_last_used_at = None, cap_revoked_by = None\<rparr>"

definition insertBecome ::
  "op_ctx \<Rightarrow> cap_lib \<Rightarrow> become_input \<Rightarrow> cap_author \<Rightarrow> string option \<Rightarrow> entity_ref option \<Rightarrow> string \<Rightarrow> 'a cap_store_scheme
     \<Rightarrow> (minted_capability \<times> 'a cap_store_scheme) result" where
  "insertBecome cx L input author targetDigest action mode st =
     (case ulid cx st of (i, st1) \<Rightarrow>
      bind_r (guard_r (ulid_pattern i) (ZodError ''capabilityId'')) (\<lambda>_.
      case mintCapabilitySecret L st1 of (secret, st2) \<Rightarrow>
      bind_r (insert_row cap_clash (become_row input i (capabilityTokenHash L secret) author (cx_at cx) targetDigest action mode) (cp_capabilities st2)) (\<lambda>rows.
        Inr (\<lparr>mc_id = i, mc_secret = secret, mc_expiresAt = bi_expiresAt input\<rparr>, st2\<lparr>cp_capabilities := rows\<rparr>))))"

definition mintBecomeCapability ::
  "op_ctx \<Rightarrow> cap_lib \<Rightarrow> become_input \<Rightarrow> string \<Rightarrow> 'a cap_store_scheme \<Rightarrow> (minted_capability \<times> 'a cap_store_scheme) result" where
  "mintBecomeCapability cx L raw actor st =
     bind_r (checkBecomeInput L raw (cx_at cx)) (\<lambda>input. insertBecome cx L input (ByPlatform actor) None None ''become'' st)"

definition becomeClaimed :: "string \<Rightarrow> 'a cap_store_scheme \<Rightarrow> bool" where
  "becomeClaimed who st \<longleftrightarrow> list_ex (\<lambda>r. cap_mode r = ''become'' \<and> cap_principal r = Some who \<and> 0 < cap_uses r) (cp_capabilities st)"

fun covers_narrowed ::
  "permission_checker \<Rightarrow> string \<Rightarrow> check_node \<Rightarrow> (string \<times> entity_ref) list \<Rightarrow> string list \<Rightarrow> string list result" where
  "covers_narrowed ck caller n [] missing = Inr missing"
| "covers_narrowed ck caller n ((permission, entity) # rest) missing =
     (if permission \<in> set missing then covers_narrowed ck caller n rest missing
      else bind_r (pk_check ck (Principal caller) permission n (Some entity)) (\<lambda>d.
        covers_narrowed ck caller n rest (if allowed d then missing else missing @ [permission])))"

text \<open>What the caller lacks of what is held; nothing when it covers all of it.\<close>

definition coversHoldings :: "permission_checker \<Rightarrow> string \<Rightarrow> holdings \<Rightarrow> check_node \<Rightarrow> string list option result" where
  "coversHoldings ck caller held n =
     bind_r (pk_covers ck (Principal caller) (h_permissions held) n) (\<lambda>nodeLevel.
     bind_r (covers_narrowed ck caller n (h_narrowed held) (case nodeLevel of Covered \<Rightarrow> [] | NotCovered m \<Rightarrow> unique_in_order m)) (\<lambda>missing.
       Inr (if missing = [] then None else Some missing)))"

datatype 'a bounded = Granted 'a | Refused string | Uncovered "string list"

fun of_judgement :: "judgement \<Rightarrow> 'a \<Rightarrow> 'a bounded" where
  "of_judgement (Bindable b) v = Granted v"
| "of_judgement (BindRefused why) v = Refused why"
| "of_judgement (BindLacking permission) v = Uncovered [permission]"

definition becomeMintCheck ::
  "cap_lib \<Rightarrow> permission_checker \<Rightarrow> string \<Rightarrow> string \<Rightarrow> check_node \<Rightarrow> entity_ref option \<Rightarrow> 'a cap_store_scheme \<Rightarrow> string bounded result" where
  "becomeMintCheck L ck caller target n bind st =
     (if becomeClaimed target st then Inr (Refused ''target-already-claimed'')
      else case pk_holdings ck of
        None \<Rightarrow> Inl (SubstratError Unavailable None ''this permission checker cannot read what a principal holds'')
      | Some holdings \<Rightarrow>
          bind_r (holdings (Principal target) n) (\<lambda>held.
            if h_permissions held = [] then Inr (Refused ''target-holds-nothing'')
            else
              bind_r (coversHoldings ck caller held n) (\<lambda>lacks.
                case lacks of Some missing \<Rightarrow> Inr (Uncovered missing)
                | None \<Rightarrow>
                    (case bind of None \<Rightarrow> Inr (Granted (holdingsDigest L held))
                     | Some e \<Rightarrow> bind_r (judgeBind (allowedFor ck caller n) e st) (\<lambda>j. Inr (of_judgement j (holdingsDigest L held)))))))"

definition mintBecomeCapabilityAsPrincipal ::
  "op_ctx \<Rightarrow> cap_lib \<Rightarrow> string \<Rightarrow> become_input \<Rightarrow> string \<Rightarrow> 'a cap_store_scheme \<Rightarrow> (minted_capability \<times> 'a cap_store_scheme) result" where
  "mintBecomeCapabilityAsPrincipal cx L minter raw targetDigest st =
     bind_r (principalBecomeCapabilityInput L raw) (\<lambda>input.
     bind_r (guard_r (if_given (\<lambda>x. cx_at cx < x) (bi_expiresAt input))
        (SubstratError Validation_Failed None ''mintBecomeCapability: expiresAt is not in the future'')) (\<lambda>_.
     bind_r (insertBecome cx L input (ByPrincipal minter)
        (Some (if bi_bind input \<noteq> None then BIND_DIGEST_PREFIX @ targetDigest else targetDigest)) (bi_bind input) ''become'' st) (\<lambda>(minted, st1).
     bind_r (writeEvent cx KernelAuthor (cap_event ''capability.become-minted'' \<lparr>entityType = ''capability'', entityId = mc_id minted\<rparr>
        (JObj ([(''capabilityId'', JStr (mc_id minted)), (''principal'', JStr (bi_principal input)), (''expiresAt'', json_opt JStr (bi_expiresAt input)),
                (''maxUses'', JNum (bi_maxUses input)), (''label'', json_opt JStr (bi_label input)), (''mintedBy'', JStr minter)] @
               (case bi_bind input of None \<Rightarrow> [] | Some e \<Rightarrow> [(''action'', json_action e)])))) st1) (\<lambda>st2. Inr (minted, st2)))))"

definition CAPABILITY_BECOME_MINT_OPERATION :: string where "CAPABILITY_BECOME_MINT_OPERATION = ''capabilities.mint-become''"

definition mintBecomeCapabilityBounded ::
  "op_ctx \<Rightarrow> cap_lib \<Rightarrow> permission_checker \<Rightarrow> string \<Rightarrow> become_input \<Rightarrow> 'a cap_store_scheme \<Rightarrow> (minted_capability bounded \<times> 'a cap_store_scheme) result" where
  "mintBecomeCapabilityBounded cx L ck caller input st =
     bind_r (guard_r (ulid_pattern caller) (ZodError ''principalId'')) (\<lambda>_.
     bind_r (principalBecomeCapabilityInput L input) (\<lambda>parsed.
     bind_r (becomeMintCheck L ck caller (bi_principal parsed) (cx_node cx) (bi_bind parsed) st) (\<lambda>checked.
       case checked of
         Refused why \<Rightarrow> Inr (Refused why, st)
       | Uncovered missing \<Rightarrow> Inr (Uncovered missing, st)
       | Granted digest \<Rightarrow>
           bind_r (mintBecomeCapabilityAsPrincipal (host_ctx cx (Principal caller) CAPABILITY_BECOME_MINT_OPERATION) L caller parsed digest (st\<lparr>passed := []\<rparr>))
             (\<lambda>(minted, st1). Inr (Granted minted, st1)))))"

record bind_link_input =
  bl_principal :: string
  bl_entity :: entity_ref
  bl_expiresAt :: "string option"
  bl_label :: "string option"

definition principalBindLinkInput :: "cap_lib \<Rightarrow> bind_link_input \<Rightarrow> bind_link_input result" where
  "principalBindLinkInput L raw =
     bind_r (guard_r (ulid_pattern (bl_principal raw) \<and> entityRef_ok (bl_entity raw)) (ZodError ''principalBindLinkInput'')) (\<lambda>_.
     bind_r (optional_r (instant L) (bl_expiresAt raw)) (\<lambda>expiresAt.
     bind_r (optional_r capabilityLabel (bl_label raw)) (\<lambda>label.
       Inr (raw\<lparr>bl_expiresAt := expiresAt, bl_label := label\<rparr>))))"

definition bindLinkMintCheck ::
  "permission_checker \<Rightarrow> string \<Rightarrow> string \<Rightarrow> check_node \<Rightarrow> entity_ref \<Rightarrow> 'a cap_store_scheme \<Rightarrow> unit bounded result" where
  "bindLinkMintCheck ck caller target n entity st =
     bind_r (judgeBind (allowedFor ck caller n) entity st) (\<lambda>j.
       case j of
         Bindable b \<Rightarrow>
           (case pk_holdings ck of
              None \<Rightarrow> Inl (SubstratError Unavailable None ''this permission checker cannot read what a principal holds'')
            | Some holdings \<Rightarrow> bind_r (holdings (Principal target) n) (\<lambda>held.
                Inr (if h_permissions held = [] then Refused ''target-holds-nothing'' else Granted ())))
       | _ \<Rightarrow> Inr (of_judgement j ()))"

definition mintBindLinkAsPrincipal ::
  "op_ctx \<Rightarrow> cap_lib \<Rightarrow> string \<Rightarrow> bind_link_input \<Rightarrow> 'a cap_store_scheme \<Rightarrow> (minted_capability \<times> 'a cap_store_scheme) result" where
  "mintBindLinkAsPrincipal cx L minter raw st =
     bind_r (principalBindLinkInput L raw) (\<lambda>input.
     bind_r (guard_r (if_given (\<lambda>x. cx_at cx < x) (bl_expiresAt input))
        (SubstratError Validation_Failed None ''mintBindLink: expiresAt is not in the future'')) (\<lambda>_.
     bind_r (insertBecome cx L \<lparr>bi_principal = bl_principal input, bi_expiresAt = bl_expiresAt input, bi_maxUses = 1, bi_label = bl_label input, bi_bind = None\<rparr>
        (ByPrincipal minter) None (Some (bl_entity input)) ''bind'' st) (\<lambda>(minted, st1).
     bind_r (writeEvent cx KernelAuthor (cap_event ''capability.bind-minted'' (bl_entity input)
        (JObj [(''capabilityId'', JStr (mc_id minted)), (''principal'', JStr (bl_principal input)), (''entity'', json_ref (bl_entity input)),
               (''expiresAt'', json_opt JStr (bl_expiresAt input)), (''label'', json_opt JStr (bl_label input)), (''mintedBy'', JStr minter)])) st1) (\<lambda>st2.
       Inr (minted, st2)))))"

definition CAPABILITY_BIND_MINT_OPERATION :: string where "CAPABILITY_BIND_MINT_OPERATION = ''capabilities.mint-bind''"

definition mintBindLinkBounded ::
  "op_ctx \<Rightarrow> cap_lib \<Rightarrow> permission_checker \<Rightarrow> string \<Rightarrow> bind_link_input \<Rightarrow> 'a cap_store_scheme \<Rightarrow> (minted_capability bounded \<times> 'a cap_store_scheme) result" where
  "mintBindLinkBounded cx L ck caller input st =
     bind_r (guard_r (ulid_pattern caller) (ZodError ''principalId'')) (\<lambda>_.
     bind_r (principalBindLinkInput L input) (\<lambda>parsed.
     bind_r (bindLinkMintCheck ck caller (bl_principal parsed) (cx_node cx) (bl_entity parsed) st) (\<lambda>checked.
       case checked of
         Refused why \<Rightarrow> Inr (Refused why, st)
       | Uncovered missing \<Rightarrow> Inr (Uncovered missing, st)
       | Granted u \<Rightarrow>
           bind_r (mintBindLinkAsPrincipal (host_ctx cx (Principal caller) CAPABILITY_BIND_MINT_OPERATION) L caller parsed (st\<lparr>passed := []\<rparr>))
             (\<lambda>(minted, st1). Inr (Granted minted, st1)))))"

section \<open>Revokes and the state of a link\<close>

definition revokeCapabilityAsPlatform ::
  "op_ctx \<Rightarrow> cap_lib \<Rightarrow> string \<Rightarrow> string \<Rightarrow> 'a cap_store_scheme \<Rightarrow> (capability_record option \<times> 'a cap_store_scheme) result" where
  "revokeCapabilityAsPlatform cx L i actor st =
     bind_r (guard_r (ulid_pattern i) (ZodError ''capabilityId'')) (\<lambda>_.
       case capabilityByIdQuery i st of
         None \<Rightarrow> Inr (None, st)
       | Some row \<Rightarrow> bind_r (capabilityRecordOf L row) (\<lambda>r. Inr (Some r, snd (markRevoked i (Some (ByPlatform actor)) (cx_at cx) None st))))"

definition revokeBecomeCapability ::
  "op_ctx \<Rightarrow> permission_checker \<Rightarrow> string \<Rightarrow> string \<Rightarrow> 'a cap_store_scheme \<Rightarrow> (bool bounded \<times> 'a cap_store_scheme) result" where
  "revokeBecomeCapability cx ck i by st =
     bind_r (guard_r (ulid_pattern by) (ZodError ''principalId'')) (\<lambda>_.
     bind_r (guard_r (ulid_pattern i) (ZodError ''capabilityId'')) (\<lambda>_.
       case capabilityByIdQuery i st of
         None \<Rightarrow> Inr (Granted False, st)
       | Some row \<Rightarrow>
           (case cap_minted_by row of
              None \<Rightarrow> Inl (PlainError ''SyntaxError'')
            | Some (JStr minter) \<Rightarrow>
                if cap_mode row \<noteq> ''become'' then Inr (Granted False, st)
                else
                  bind_r (if minter = by then Inr None
                    else case pk_holdings ck of
                        None \<Rightarrow> Inl (SubstratError Unavailable None ''this permission checker cannot read what a principal holds'')
                      | Some holdings \<Rightarrow>
                          bind_r (record_principal row) (\<lambda>p.
                          bind_r (holdings (Principal p) (cx_node cx)) (\<lambda>held. coversHoldings ck by held (cx_node cx)))) (\<lambda>lacks.
                    case lacks of Some missing \<Rightarrow> Inr (Uncovered missing, st)
                    | None \<Rightarrow> (case markRevoked i (Some (ByPrincipal by)) (cx_at cx) None st of (changed, st1) \<Rightarrow> Inr (Granted changed, st1)))
            | _ \<Rightarrow> Inr (Granted False, st))))"

datatype link_state = LinkOpen | LinkUsed | LinkRevoked "string option" | LinkExpired

definition becomeLinkStateOf :: "cap_lib \<Rightarrow> (string \<Rightarrow> holdings result) option \<Rightarrow> string \<Rightarrow> cap_row option \<Rightarrow> link_state result" where
  "becomeLinkStateOf L holdings now found =
     (case found of
        None \<Rightarrow> Inr (LinkRevoked None)
      | Some row \<Rightarrow>
          if cap_mode row \<noteq> ''become'' then Inr (LinkRevoked None)
          else if cap_revoked_at row \<noteq> None
          then Inr (LinkRevoked (if cap_revoked_reason row = Some ''holdings-changed'' then Some ''holdings-changed'' else None))
          else if \<not> expires_after (cap_expires_at row) now then Inr LinkExpired
          else if (case cap_max_uses row of None \<Rightarrow> False | Some m \<Rightarrow> m \<le> cap_uses row) then Inr LinkUsed
          else
            (case cap_minted_by row of
               None \<Rightarrow> Inl (PlainError ''SyntaxError'')
             | Some (JStr minter) \<Rightarrow>
                 (case holdings of
                    None \<Rightarrow> Inr (LinkRevoked None)
                  | Some hs \<Rightarrow>
                      if \<not> truthy (cap_target_digest row) then Inr (LinkRevoked None)
                      else
                        bind_r (record_principal row) (\<lambda>p.
                        bind_r (hs p) (\<lambda>held.
                          Inr (if Some (storedDigest L row held) \<noteq> cap_target_digest row then LinkRevoked (Some ''holdings-changed'') else LinkOpen))))
             | _ \<Rightarrow> Inr LinkOpen))"

definition BECOME_LINK_STATES_MAX_IDS :: nat where "BECOME_LINK_STATES_MAX_IDS = 100"

definition readBecomeLinkStates ::
  "cap_lib \<Rightarrow> (string \<Rightarrow> holdings result) option \<Rightarrow> string list \<Rightarrow> string \<Rightarrow> 'a cap_store_scheme \<Rightarrow> link_state list result" where
  "readBecomeLinkStates L holdings ids now st =
     bind_r (guard_r (length ids \<le> BECOME_LINK_STATES_MAX_IDS) (SubstratError Validation_Failed None ''becomeLinkStates: ask in pages'')) (\<lambda>_.
       traverse (\<lambda>i. bind_r (guard_r (ulid_pattern i) (ZodError ''capabilityId'')) (\<lambda>_. becomeLinkStateOf L holdings now (capabilityByIdQuery i st))) ids)"

definition ENTITY_UNBIND_OPERATION :: string where "ENTITY_UNBIND_OPERATION = ''entities.unbind''"

definition unbindEntityHolderBounded ::
  "op_ctx \<Rightarrow> permission_checker \<Rightarrow> string \<Rightarrow> entity_ref \<Rightarrow> 'a cap_store_scheme \<Rightarrow> (unbind_answer \<times> 'a cap_store_scheme) result" where
  "unbindEntityHolderBounded cx ck caller entity st =
     bind_r (guard_r (ulid_pattern caller) (ZodError ''principalId'')) (\<lambda>_.
       unbindEntityHolder (host_ctx cx (Principal caller) ENTITY_UNBIND_OPERATION) caller (allowedFor ck caller (cx_node cx)) entity (st\<lparr>passed := []\<rparr>))"


end
