(* ===== verification/Capability_Runs.thy ===== *)
theory Capability_Runs
  imports Capability_Exchange
begin

text \<open>
  Runs of the capability directory.  Every verb of \<open>Capability_Directory\<close>, \<open>Entity_Binding\<close> and
  \<open>Capability_Exchange\<close> is reduced to what it does to the two tables, and the runs of all of them,
  interleaved with module code, keep the directory's invariant: ids and hashes are unique, uses stay
  within their limit, a row changes only in its uses and its revocation, a revocation stays.
\<close>

section \<open>What a verb may do to the directory\<close>

definition dir_ok :: "'a cap_store_scheme \<Rightarrow> bool" where
  "dir_ok st \<longleftrightarrow>
     distinct (map cap_id (cp_capabilities st)) \<and> distinct (map cap_token_hash (cp_capabilities st)) \<and>
     (\<forall>r \<in> set (cp_capabilities st). 0 \<le> cap_uses r \<and> if_given (\<lambda>m. cap_uses r \<le> m) (cap_max_uses r)) \<and>
     distinct (map ss_token_hash (cp_sessions st))"

definition keeps :: "cap_row \<Rightarrow> cap_row \<Rightarrow> bool" where
  "keeps r r' \<longleftrightarrow>
     (\<exists>n lu at who why. r' = r\<lparr>cap_uses := n, cap_last_used_at := lu, cap_revoked_at := at, cap_revoked_by := who, cap_revoked_reason := why\<rparr> \<and>
        (cap_revoked_at r \<noteq> None \<longrightarrow> at = cap_revoked_at r))"

text \<open>\<open>moves T tr\<close>: the step exchanged the capabilities of \<open>tr\<close>, at instants up to \<open>T\<close>.\<close>

definition moves :: "string \<Rightarrow> string list \<Rightarrow> 'a cap_store_scheme \<Rightarrow> 'a cap_store_scheme \<Rightarrow> bool" where
  "moves T tr st st' \<longleftrightarrow>
     (dir_ok st \<longrightarrow> dir_ok st' \<and>
       (\<forall>r \<in> set (cp_capabilities st). \<exists>r' \<in> set (cp_capabilities st'). keeps r r' \<and> cap_uses r + int (count_list tr (cap_id r)) \<le> cap_uses r') \<and>
       (\<forall>s \<in> set (cp_sessions st). T < ss_expires_at s \<longrightarrow> s \<in> set (cp_sessions st')))"

lemma keepsI:
  assumes "r' = r\<lparr>cap_uses := n, cap_last_used_at := lu, cap_revoked_at := at, cap_revoked_by := who, cap_revoked_reason := why\<rparr>"
    and "cap_revoked_at r \<noteq> None \<Longrightarrow> at = cap_revoked_at r"
  shows "keeps r r'"
  using assms unfolding keeps_def by blast

lemma keeps_refl [simp]: "keeps r r"
  by (rule keepsI [where n = "cap_uses r" and lu = "cap_last_used_at r" and at = "cap_revoked_at r" and who = "cap_revoked_by r" and why = "cap_revoked_reason r"]) simp_all

lemma keeps_stamp: "cap_revoked_at r = None \<Longrightarrow> keeps r (stamp_revoked author now why r)"
  by (rule keepsI [where n = "cap_uses r" and lu = "cap_last_used_at r" and at = "Some now" and who = "map_option (\<lambda>a. Some (json_author a)) author" and why = why])
    (simp_all add: stamp_revoked_def)

lemma stamp_uses [simp]: "cap_uses (stamp_revoked author now why r) = cap_uses r"
  by (simp add: stamp_revoked_def)

lemma keeps_use: "keeps r (r\<lparr>cap_uses := n, cap_last_used_at := lu\<rparr>)"
  by (rule keepsI [where n = n and lu = lu and at = "cap_revoked_at r" and who = "cap_revoked_by r" and why = "cap_revoked_reason r"]) simp_all

lemma grant_cong:
  "cap_mode r' = cap_mode r \<Longrightarrow> cap_entity_type r' = cap_entity_type r \<Longrightarrow> cap_entity_id r' = cap_entity_id r \<Longrightarrow>
   cap_permissions r' = cap_permissions r \<Longrightarrow> cap_minted_by r' = cap_minted_by r \<Longrightarrow> capabilityGrantOf r' = capabilityGrantOf r"
  by (simp only: capabilityGrantOf_def)

lemma keeps_cols:
  assumes "keeps r r'"
  shows "cap_id r' = cap_id r" "cap_token_hash r' = cap_token_hash r" "cap_max_uses r' = cap_max_uses r" "cap_mode r' = cap_mode r"
    "cap_expires_at r' = cap_expires_at r" "cap_operations r' = cap_operations r" "cap_principal r' = cap_principal r"
    "cap_revoked_at r \<noteq> None \<Longrightarrow> cap_revoked_at r' = cap_revoked_at r" "capabilityGrantOf r' = capabilityGrantOf r"
proof -
  show "capabilityGrantOf r' = capabilityGrantOf r"
    using assms by (intro grant_cong) (auto simp: keeps_def)
qed (use assms in \<open>auto simp: keeps_def\<close>)

lemma keeps_trans: "keeps r r' \<Longrightarrow> keeps r' r'' \<Longrightarrow> keeps r r''"
proof -
  assume 1: "keeps r r'" and 2: "keeps r' r''"
  from 1 obtain n lu at who why where a: "r' = r\<lparr>cap_uses := n, cap_last_used_at := lu, cap_revoked_at := at, cap_revoked_by := who, cap_revoked_reason := why\<rparr>"
    "cap_revoked_at r \<noteq> None \<longrightarrow> at = cap_revoked_at r" unfolding keeps_def by blast
  from 2 obtain n' lu' at' who' why' where b: "r'' = r'\<lparr>cap_uses := n', cap_last_used_at := lu', cap_revoked_at := at', cap_revoked_by := who', cap_revoked_reason := why'\<rparr>"
    "cap_revoked_at r' \<noteq> None \<longrightarrow> at' = cap_revoked_at r'" unfolding keeps_def by blast
  show "keeps r r''" by (rule keepsI [where n = n' and lu = lu' and at = at' and who = who' and why = why']) (use a b in auto)
qed

lemma keeps_itself: "r \<in> set rows \<Longrightarrow> \<exists>r' \<in> set rows. keeps r r' \<and> cap_uses r \<le> cap_uses r'"
  by (intro bexI [of _ r]) simp_all

lemma moves_trans:
  assumes "moves T tr st st1" and "moves T tr' st1 st2"
  shows "moves T (tr @ tr') st st2"
proof (unfold moves_def, intro impI)
  assume "dir_ok st"
  note 1 = assms(1) [unfolded moves_def, rule_format, OF this]
  note 2 = assms(2) [unfolded moves_def, rule_format, OF 1 [THEN conjunct1]]
  have "\<exists>r'' \<in> set (cp_capabilities st2). keeps r r'' \<and> cap_uses r + int (count_list (tr @ tr') (cap_id r)) \<le> cap_uses r''"
    if "r \<in> set (cp_capabilities st)" for r
  proof -
    from 1 that obtain r' where a: "r' \<in> set (cp_capabilities st1)" "keeps r r'" "cap_uses r + int (count_list tr (cap_id r)) \<le> cap_uses r'" by blast
    with 2 obtain r'' where b: "r'' \<in> set (cp_capabilities st2)" "keeps r' r''" "cap_uses r' + int (count_list tr' (cap_id r')) \<le> cap_uses r''" by blast
    with a keeps_trans keeps_cols(1) [OF a(2)] show ?thesis by (intro bexI [of _ r'']) auto
  qed
  with 1 2 show "dir_ok st2 \<and> (\<forall>r \<in> set (cp_capabilities st). \<exists>r' \<in> set (cp_capabilities st2). keeps r r' \<and>
      cap_uses r + int (count_list (tr @ tr') (cap_id r)) \<le> cap_uses r') \<and> (\<forall>s \<in> set (cp_sessions st). T < ss_expires_at s \<longrightarrow> s \<in> set (cp_sessions st2))"
    by blast
qed

lemma moves_then: "moves T [] st st1 \<Longrightarrow> moves T tr st1 st2 \<Longrightarrow> moves T tr st st2"
  and then_moves: "moves T tr st st1 \<Longrightarrow> moves T [] st1 st2 \<Longrightarrow> moves T tr st st2"
  using moves_trans [of T "[]"] moves_trans [of T tr st st1 "[]" st2] by auto

lemma moves_mono: "moves T tr st st' \<Longrightarrow> T \<le> T' \<Longrightarrow> moves T' tr st st'"
  unfolding moves_def by (meson order_le_less_trans)

lemma moves_same:
  assumes "cp_capabilities st' = cp_capabilities st" and "cp_sessions st' = cp_sessions st"
  shows "moves T [] st st'"
  using assms keeps_itself by (auto simp: moves_def dir_ok_def)

lemma moves_added:
  assumes "cp_capabilities st' = cp_capabilities st @ [r]" and "cp_sessions st' = cp_sessions st"
    and "\<not> list_ex (cap_clash r) (cp_capabilities st)" and "cap_uses r = 0" and "if_given (\<lambda>m. 0 \<le> m) (cap_max_uses r)"
  shows "moves T [] st st'"
proof -
  have "cap_id r \<notin> cap_id ` set (cp_capabilities st)" "cap_token_hash r \<notin> cap_token_hash ` set (cp_capabilities st)"
    using assms(3) by (auto simp: list_ex_iff cap_clash_def)
  with assms keeps_itself [of _ "cp_capabilities st"] show ?thesis by (auto simp: moves_def dir_ok_def)
qed

text \<open>A step that rewrites rows in place.\<close>

lemma moves_rewritten:
  assumes "cp_capabilities st' = map g (cp_capabilities st)"
    and row: "\<And>r. dir_ok st \<Longrightarrow> r \<in> set (cp_capabilities st) \<Longrightarrow> keeps r (g r) \<and> cap_uses r + int (count_list tr (cap_id r)) \<le> cap_uses (g r) \<and>
      (if_given (\<lambda>m. cap_uses r \<le> m) (cap_max_uses r) \<longrightarrow> if_given (\<lambda>m. cap_uses (g r) \<le> m) (cap_max_uses r))"
    and "dir_ok st \<Longrightarrow> distinct (map ss_token_hash (cp_sessions st'))"
    and "\<And>s. dir_ok st \<Longrightarrow> s \<in> set (cp_sessions st) \<Longrightarrow> T < ss_expires_at s \<Longrightarrow> s \<in> set (cp_sessions st')"
  shows "moves T tr st st'"
proof (unfold moves_def, intro impI conjI)
  assume ok: "dir_ok st"
  have same: "map cap_id (cp_capabilities st') = map cap_id (cp_capabilities st)"
    "map cap_token_hash (cp_capabilities st') = map cap_token_hash (cp_capabilities st)"
    unfolding assms(1) using row [OF ok] keeps_cols(1,2) by auto
  have uses: "0 \<le> cap_uses (g r) \<and> if_given (\<lambda>m. cap_uses (g r) \<le> m) (cap_max_uses (g r))" if "r \<in> set (cp_capabilities st)" for r
  proof -
    have "0 \<le> cap_uses r \<and> if_given (\<lambda>m. cap_uses r \<le> m) (cap_max_uses r)" using ok that by (simp add: dir_ok_def)
    then show ?thesis using row [OF ok that] keeps_cols(3) [of r "g r"] by auto
  qed
  show "dir_ok st'" unfolding dir_ok_def same using ok assms(3) uses by (auto simp: dir_ok_def assms(1))
  show "\<forall>r \<in> set (cp_capabilities st). \<exists>r' \<in> set (cp_capabilities st'). keeps r r' \<and> cap_uses r + int (count_list tr (cap_id r)) \<le> cap_uses r'"
    using row [OF ok] by (auto simp: assms(1))
  show "\<forall>s \<in> set (cp_sessions st). T < ss_expires_at s \<longrightarrow> s \<in> set (cp_sessions st')" using assms(4) [OF ok] by blast
qed

lemma moves_revoked: "moves T [] st (snd (markRevoked i author now why st))"
proof (rule moves_rewritten)
  show "cp_capabilities (snd (markRevoked i author now why st)) =
      map (\<lambda>r. if cap_id r = i \<and> cap_revoked_at r = None then stamp_revoked author now why r else r) (cp_capabilities st)"
    by (simp add: markRevoked_def update_where_def)
qed (auto simp: markRevoked_def dir_ok_def keeps_stamp)

section \<open>The verbs\<close>

lemma capability_mint_Inr:
  assumes "capability_mint cx L isOp raw st = Inr (m, st')"
  obtains minter input st1 where "cx_override cx = None" "cx_subject cx = Principal minter" "capabilityMintInput L raw = Inr input"
    "if_given (\<lambda>x. cx_at cx < x) (cm_expiresAt input)"
    "check_all cx ''mint a capability carrying'' (cm_entity input) (unique_in_order (cm_permissions input)) st = Inr st1"
    "mc_id m = cx_ids cx (drawn st1)" "ulid_pattern (mc_id m)" "mc_expiresAt m = cm_expiresAt input"
    "mc_secret m = CAPABILITY_SECRET_PREFIX @ toBase64url (cl_random L (Suc (drawn st1)))"
    "\<not> list_ex (cap_clash (act_row input (mc_id m) (capabilityTokenHash L (mc_secret m)) minter (cx_at cx) (unique_in_order (cm_permissions input))
       (map_option unique_in_order (cm_operations input)))) (cp_capabilities st)"
    "cp_capabilities st' = cp_capabilities st @ [act_row input (mc_id m) (capabilityTokenHash L (mc_secret m)) minter (cx_at cx)
       (unique_in_order (cm_permissions input)) (map_option unique_in_order (cm_operations input))]"
    "cp_sessions st' = cp_sessions st" "tuples st' = tuples st" "cp_tables st' = cp_tables st"
proof -
  from assms obtain minter input st1 rows where 1: "verb_subject cx = Principal minter" "capabilityMintInput L raw = Inr input"
    "if_given (\<lambda>x. cx_at cx < x) (cm_expiresAt input)"
    "check_all cx ''mint a capability carrying'' (cm_entity input) (unique_in_order (cm_permissions input)) st = Inr st1"
    "ulid_pattern (cx_ids cx (drawn st1))" "m = \<lparr>mc_id = cx_ids cx (drawn st1), mc_secret = CAPABILITY_SECRET_PREFIX @ toBase64url (cl_random L (Suc (drawn st1))), mc_expiresAt = cm_expiresAt input\<rparr>"
    and rows: "insert_row cap_clash (act_row input (mc_id m) (capabilityTokenHash L (mc_secret m)) minter (cx_at cx) (unique_in_order (cm_permissions input))
       (map_option unique_in_order (cm_operations input))) (cp_capabilities st1) = Inr rows"
    and em: "writeEvent cx KernelAuthor (cap_event ''capability.minted'' (cm_entity input) (minted_payload input (mc_id m) minter (unique_in_order (cm_permissions input)) (map_option unique_in_order (cm_operations input))))
        (st1\<lparr>drawn := Suc (Suc (drawn st1)), cp_capabilities := rows, cp_minted := cp_minted st1 @ [mc_secret m]\<rparr>) = Inr st'"
    by (auto simp: capability_mint_def monad_simps ulid_def mintCapabilitySecret_def mint_token_def Let_def)
  have "cx_override cx = None" "cx_subject cx = Principal minter" using 1(1) by (auto simp: verb_subject_def split: option.splits)
  moreover note check_all_Inr [OF 1(4)] cp_more [of st1 st] writeEvent_cap [OF em]
  ultimately show thesis using 1 rows by (intro that [of minter input st1]) (auto simp: monad_simps)
qed

lemma mint_moves:
  assumes "capability_mint cx L isOp raw st = Inr (m, st')"
  shows "moves T [] st st'"
  using assms
proof (rule capability_mint_Inr)
  fix minter input st1
  assume i: "capabilityMintInput L raw = Inr input" and c: "\<not> list_ex (cap_clash (act_row input (mc_id m) (capabilityTokenHash L (mc_secret m)) minter (cx_at cx)
       (unique_in_order (cm_permissions input)) (map_option unique_in_order (cm_operations input)))) (cp_capabilities st)"
    and r: "cp_capabilities st' = cp_capabilities st @ [act_row input (mc_id m) (capabilityTokenHash L (mc_secret m)) minter (cx_at cx)
       (unique_in_order (cm_permissions input)) (map_option unique_in_order (cm_operations input))]" "cp_sessions st' = cp_sessions st"
  have "if_given (\<lambda>m. 0 \<le> m) (cm_maxUses input)"
    using i by (auto simp: capabilityMintInput_def monad_simps if_given_def positive_int_def split: option.splits)
  then show ?thesis by (intro moves_added [OF r c]) (simp_all add: act_row_def)
qed

lemma capability_revoke_Inr:
  assumes "capability_revoke cx i st = Inr st'"
  obtains row where "capabilityByIdQuery i st = Some row" "cap_revoked_at row \<noteq> None" "st' = st"
    | row g verb st1 who ev where "capabilityByIdQuery i st = Some row" "capabilityGrantOf row = Some g" "cap_revoked_at row = None"
      "check_all cx verb (cg_entity g) (cg_permissions g) st = Inr st1" "cx_override cx = None"
      "writeEvent cx KernelAuthor ev (snd (markRevoked i (Some (ByPrincipal who)) (cx_at cx) None st1)) = Inr st'"
proof -
  from assms obtain who where w: "verb_subject cx = Principal who" by (auto simp: capability_revoke_def monad_simps)
  then have o: "cx_override cx = None" by (simp add: verb_subject_def split: option.splits)
  from assms obtain row g where r: "capabilityByIdQuery i st = Some row" "capabilityGrantOf row = Some g"
    by (auto simp: capability_revoke_def monad_simps split: option.splits)
  show thesis
  proof (cases "cap_revoked_at row")
    case None
    with assms r w show ?thesis by (auto simp: capability_revoke_def monad_simps intro: that(2) [OF r None _ o])
  next
    case (Some x)
    with assms r show ?thesis by (auto simp: capability_revoke_def monad_simps intro: that(1))
  qed
qed

lemma revoke_moves:
  assumes "capability_revoke cx i st = Inr st'"
  shows "moves T [] st st'"
  using assms
proof (cases rule: capability_revoke_Inr)
  case (2 row g verb st1 who ev)
  have "moves T [] st st1" using check_all_Inr [OF 2(4)] cp_more [of st1 st] by (intro moves_same) auto
  moreover have "moves T [] st1 (snd (markRevoked i (Some (ByPrincipal who)) (cx_at cx) None st1))" by (rule moves_revoked)
  moreover have "moves T [] (snd (markRevoked i (Some (ByPrincipal who)) (cx_at cx) None st1)) st'"
    using writeEvent_cap [OF 2(6)] by (intro moves_same) auto
  ultimately show ?thesis by (blast intro: moves_then)
qed (simp add: moves_same)

lemma revoke_each_moves:
  "revoke_each is who now st = Inr (ids, st') \<Longrightarrow> moves T [] st st'"
proof (induction "is" arbitrary: st ids)
  case (Cons i "is")
  then obtain rest where "revoke_each is who now (snd (markRevoked i who now None st)) = Inr (rest, st')"
    by (auto simp: monad_simps split: prod.splits)
  then show ?case by (rule moves_then [OF moves_revoked Cons.IH])
qed (simp add: moves_same)

lemma revokeBindLinksIn_moves: "revokeBindLinksIn e who now st = Inr (ids, st') \<Longrightarrow> moves T [] st st'"
  by (auto simp: revokeBindLinksIn_def monad_simps intro: revoke_each_moves)

lemma revokeBindLinksFor_moves: "revokeBindLinksFor p now st = Inr st' \<Longrightarrow> moves T [] st st'"
  by (auto simp: revokeBindLinksFor_def monad_simps intro: revoke_each_moves)

lemma insertBecome_Inr:
  assumes "insertBecome cx L input author digest action mode st = Inr (m, st')"
  shows "cp_capabilities st' = cp_capabilities st @ [become_row input (mc_id m) (capabilityTokenHash L (mc_secret m)) author (cx_at cx) digest action mode]"
    "\<not> list_ex (cap_clash (become_row input (mc_id m) (capabilityTokenHash L (mc_secret m)) author (cx_at cx) digest action mode)) (cp_capabilities st)"
    "cp_sessions st' = cp_sessions st" "tuples st' = tuples st" "cp_tables st' = cp_tables st" "ulid_pattern (mc_id m)"
  using assms by (auto simp: insertBecome_def monad_simps ulid_def mintCapabilitySecret_def mint_token_def)

lemma insertBecome_moves:
  assumes "insertBecome cx L input author digest action mode st = Inr (m, st')" and "0 \<le> bi_maxUses input"
  shows "moves T [] st st'"
  by (rule moves_added [OF insertBecome_Inr(1,3,2) [OF assms(1)]]) (use assms(2) in \<open>simp_all add: become_row_def if_given_def\<close>)

lemma become_fields_Inr: "become_fields L raw = Inr input \<Longrightarrow> 0 \<le> bi_maxUses input \<and> bi_principal input = bi_principal raw \<and> bi_bind input = bi_bind raw"
  by (auto simp: become_fields_def monad_simps positive_int_def)

lemma mintBecome_moves: "mintBecomeCapability cx L raw actor st = Inr (m, st') \<Longrightarrow> moves T [] st st'"
  by (auto simp: mintBecomeCapability_def checkBecomeInput_def becomeCapabilityInput_def monad_simps
      intro!: insertBecome_moves dest!: become_fields_Inr)

lemma mintBecomeAsPrincipal_moves:
  assumes "mintBecomeCapabilityAsPrincipal cx L minter raw digest st = Inr (m, st')"
  shows "moves T [] st st'"
proof -
  from assms obtain input st1 dg ev where 1: "become_fields L raw = Inr input"
    "insertBecome cx L input (ByPrincipal minter) dg (bi_bind input) ''become'' st = Inr (m, st1)" and em: "writeEvent cx KernelAuthor ev st1 = Inr st'"
    by (auto simp: mintBecomeCapabilityAsPrincipal_def principalBecomeCapabilityInput_def monad_simps)
  have "moves T [] st st1" using insertBecome_moves [OF 1(2)] become_fields_Inr [OF 1(1)] by blast
  moreover have "moves T [] st1 st'" using writeEvent_cap [OF em] by (intro moves_same) auto
  ultimately show ?thesis by (blast intro: moves_then)
qed

lemma moves_passed: "moves T tr (st\<lparr>passed := ps\<rparr>) st' \<Longrightarrow> moves T tr st st'"
  by (erule moves_then [rotated]) (rule moves_same; simp)

lemma mintBecomeBounded_Inr:
  assumes "mintBecomeCapabilityBounded cx L ck caller input st = Inr (a, st')"
  obtains "st' = st" "\<And>m. a \<noteq> Granted m"
    | parsed digest m where "a = Granted m" "principalBecomeCapabilityInput L input = Inr parsed"
      "becomeMintCheck L ck caller (bi_principal parsed) (cx_node cx) (bi_bind parsed) st = Inr (Granted digest)"
      "mintBecomeCapabilityAsPrincipal (host_ctx cx (Principal caller) CAPABILITY_BECOME_MINT_OPERATION) L caller parsed digest (st\<lparr>passed := []\<rparr>) = Inr (m, st')"
proof -
  from assms obtain parsed checked where 1: "principalBecomeCapabilityInput L input = Inr parsed"
    "becomeMintCheck L ck caller (bi_principal parsed) (cx_node cx) (bi_bind parsed) st = Inr checked"
    by (auto simp: mintBecomeCapabilityBounded_def monad_simps)
  show thesis
  proof (cases checked)
    case (Granted digest)
    with assms 1 show ?thesis by (auto simp: mintBecomeCapabilityBounded_def monad_simps intro: that(2))
  qed (use assms 1 in \<open>auto simp: mintBecomeCapabilityBounded_def monad_simps intro: that(1)\<close>)
qed

lemma mintBecomeBounded_moves:
  "mintBecomeCapabilityBounded cx L ck caller input st = Inr (a, st') \<Longrightarrow> moves T [] st st'"
  by (erule mintBecomeBounded_Inr) (auto intro: moves_same moves_passed mintBecomeAsPrincipal_moves)

lemma mintBindLinkBounded_Inr:
  assumes "mintBindLinkBounded cx L ck caller input st = Inr (a, st')"
  obtains "st' = st" "\<And>m. a \<noteq> Granted m"
    | parsed m where "a = Granted m" "principalBindLinkInput L input = Inr parsed"
      "bindLinkMintCheck ck caller (bl_principal parsed) (cx_node cx) (bl_entity parsed) st = Inr (Granted ())"
      "mintBindLinkAsPrincipal (host_ctx cx (Principal caller) CAPABILITY_BIND_MINT_OPERATION) L caller parsed (st\<lparr>passed := []\<rparr>) = Inr (m, st')"
proof -
  from assms obtain parsed checked where 1: "principalBindLinkInput L input = Inr parsed"
    "bindLinkMintCheck ck caller (bl_principal parsed) (cx_node cx) (bl_entity parsed) st = Inr checked"
    by (auto simp: mintBindLinkBounded_def monad_simps)
  show thesis
  proof (cases checked)
    case (Granted u)
    with assms 1 show ?thesis by (auto simp: mintBindLinkBounded_def monad_simps intro: that(2))
  qed (use assms 1 in \<open>auto simp: mintBindLinkBounded_def monad_simps intro: that(1)\<close>)
qed

lemma mintBindLinkAsPrincipal_moves:
  assumes "mintBindLinkAsPrincipal cx L minter raw st = Inr (m, st')"
  shows "moves T [] st st'"
proof -
  from assms obtain input :: bind_link_input and st1 ev where 1: "insertBecome cx L
      \<lparr>bi_principal = bl_principal input, bi_expiresAt = bl_expiresAt input, bi_maxUses = 1, bi_label = bl_label input, bi_bind = None\<rparr>
      (ByPrincipal minter) None (Some (bl_entity input)) ''bind'' st = Inr (m, st1)"
    and em: "writeEvent cx KernelAuthor ev st1 = Inr st'"
    by (auto simp: mintBindLinkAsPrincipal_def monad_simps)
  have "moves T [] st st1" by (rule insertBecome_moves [OF 1]) simp
  moreover have "moves T [] st1 st'" using writeEvent_cap [OF em] by (intro moves_same) auto
  ultimately show ?thesis by (blast intro: moves_then)
qed

lemma mintBindLinkBounded_moves:
  "mintBindLinkBounded cx L ck caller input st = Inr (a, st') \<Longrightarrow> moves T [] st st'"
  by (erule mintBindLinkBounded_Inr) (auto intro: moves_same moves_passed mintBindLinkAsPrincipal_moves)

lemma revokeAsPlatform_moves: "revokeCapabilityAsPlatform cx L i actor st = Inr (a, st') \<Longrightarrow> moves T [] st st'"
  by (auto simp: revokeCapabilityAsPlatform_def monad_simps moves_same moves_revoked split: option.splits)

lemma revokeBecome_moves:
  assumes "revokeBecomeCapability cx ck i who st = Inr (a, st')"
  shows "moves T [] st st'"
proof -
  from assms have "st' = st \<or> st' = snd (markRevoked i (Some (ByPrincipal who)) (cx_at cx) None st)"
    by (auto simp: revokeBecomeCapability_def monad_simps split: option.splits json.splits if_splits prod.splits)
  then show ?thesis using moves_revoked moves_same by blast
qed


section \<open>The exchange and the bindings\<close>

fun answer_cap :: "exchange_answer \<Rightarrow> string" where
  "answer_cap (SessionGranted i token x e) = i"
| "answer_cap (YieldsPrincipal i p e) = i"

definition exchanged :: "exchange_answer option \<Rightarrow> string list" where
  "exchanged a = (case a of None \<Rightarrow> [] | Some x \<Rightarrow> [answer_cap x])"

lemma exchange_rowD:
  assumes "exchange_row L now secret mode st = Some row"
  shows "row \<in> set (cp_capabilities st)" "cap_token_hash row = capabilityTokenHash L secret" "capabilityExchangeable row now"
    "if_given (\<lambda>m. cap_mode row = m) mode" "plausible secret CAPABILITY_SECRET_PREFIX"
  using assms by (auto simp: exchange_row_def split: if_splits option.splits dest: row_where_SomeD)

lemma exchange_holdings_Inr:
  assumes "exchange_holdings L holdings row minter presenter now st = Inr (ok, st')"
  shows "ok \<Longrightarrow> st' = st" "st' = st \<or> st' = snd (markRevoked (cap_id row) None now (Some ''holdings-changed'') st)"
  using assms by (auto simp: exchange_holdings_def monad_simps split: option.splits if_splits)

lemma exchange_cases:
  assumes "exchangeCapability cx L holdings may secret mode presenter st = Inr (ans, st')"
  obtains (refused) "ans = None" "st' = st"
    | (stale) row where "exchange_row L (cx_at cx) secret mode st = Some row" "ans = None"
      "st' = snd (markRevoked (cap_id row) None (cx_at cx) (Some ''holdings-changed'') st)"
    | (lost) row where "exchange_row L (cx_at cx) secret mode st = Some row" "ans = None" "\<not> fst (take_use row (cx_at cx) st)"
      "st' = snd (take_use row (cx_at cx) st)"
    | (used) row minter bd where "exchange_row L (cx_at cx) secret mode st = Some row" "minter_of row = Inr minter"
      "exchange_holdings L holdings row minter presenter (cx_at cx) st = Inr (True, st)" "exchange_bind may row minter st = Inr (Some bd)"
      "fst (take_use row (cx_at cx) st)" "ulid_pattern (cap_id row)"
      "exchange_finish (host_ctx cx (Capability (cap_id row)) CAPABILITY_EXCHANGE_OPERATION) L row bd (snd (take_use row (cx_at cx) st)) = Inr (ans, st')"
proof (cases "exchange_row L (cx_at cx) secret mode st")
  case None
  with assms show ?thesis by (auto simp: exchangeCapability_def intro: refused)
next
  case (Some row)
  with assms obtain minter ok st0 where 1: "minter_of row = Inr minter" "exchange_holdings L holdings row minter presenter (cx_at cx) st = Inr (ok, st0)"
    by (auto simp: exchangeCapability_def monad_simps)
  show ?thesis
  proof (cases ok)
    case False
    with assms Some 1 have "ans = None" "st' = st0" by (auto simp: exchangeCapability_def monad_simps)
    with exchange_holdings_Inr(2) [OF 1(2)] Some show ?thesis by (auto intro: refused stale)
  next
    case True
    with exchange_holdings_Inr(1) [OF 1(2)] have st0: "st0 = st" by simp
    note h = 1(2) [unfolded st0 True [THEN eqTrueI]]
    obtain b where b: "exchange_bind may row minter st = Inr b"
      using assms Some 1 True st0 by (auto simp: exchangeCapability_def monad_simps)
    show ?thesis
    proof (cases b)
      case None
      with assms Some 1 True st0 b show ?thesis by (auto simp: exchangeCapability_def monad_simps intro: refused)
    next
      case (Some bd)
      obtain taken st1 where t: "take_use row (cx_at cx) st = (taken, st1)" by (cases "take_use row (cx_at cx) st")
      show ?thesis
      proof (cases taken)
        case False
        with assms \<open>exchange_row _ _ _ _ _ = _\<close> 1 True st0 b Some t have "ans = None" "st' = st1" by (auto simp: exchangeCapability_def monad_simps)
        with t False \<open>exchange_row _ _ _ _ _ = _\<close> show ?thesis by (auto intro: lost)
      next
        case yes: True
        with assms \<open>exchange_row _ _ _ _ _ = _\<close> 1 True st0 b Some t have "ulid_pattern (cap_id row)"
          "exchange_finish (host_ctx cx (Capability (cap_id row)) CAPABILITY_EXCHANGE_OPERATION) L row bd st1 = Inr (ans, st')"
          by (auto simp: exchangeCapability_def monad_simps)
        with t yes \<open>exchange_row _ _ _ _ _ = _\<close> 1(1) h b Some show ?thesis by (auto intro: used)
      qed
    qed
  qed
qed

lemma exchange_finish_cap:
  fixes st st' :: "'a cap_store_scheme"
  assumes "exchange_finish cx L row bd st = Inr (ans, st')"
  shows "cp_capabilities st' = cp_capabilities st" "exchanged ans \<in> {[], [cap_id row]}"
    "cp_sessions st' = cp_sessions st \<or> (\<exists>s token. cp_sessions st' = prune_sessions (cx_at cx) (cp_sessions st) @ [s] \<and>
       ss_token_hash s \<notin> ss_token_hash ` set (prune_sessions (cx_at cx) (cp_sessions st)) \<and> ss_capability_id s = cap_id row \<and>
       ss_token_hash s = capabilityTokenHash L token \<and> cap_mode row = ''act'' \<and> ans = Some (SessionGranted (cap_id row) token (ss_expires_at s) (cg_entity (the (capabilityGrantOf row)))))"
proof -
  have "(\<exists>b. bd = Some b \<and> exchange_bind_mode cx row b st = Inr (ans, st')) \<or> ans = None \<and> st' = st \<or>
      exchange_become_mode cx row bd st = Inr (ans, st') \<or> exchange_act_mode cx L row st = Inr (ans, st')"
    using assms unfolding exchange_finish_def by (cases "cap_mode row = ''bind''"; cases "cap_mode row = ''become''"; cases bd; simp)
  then consider (bind) b where "bd = Some b" "exchange_bind_mode cx row b st = Inr (ans, st')" | (none) "ans = None" "st' = st"
    | (become) "exchange_become_mode cx row bd st = Inr (ans, st')" | (act) "exchange_act_mode cx L row st = Inr (ans, st')"
    by blast
  then have "cp_capabilities st' = cp_capabilities st \<and> exchanged ans \<in> {[], [cap_id row]} \<and>
    (cp_sessions st' = cp_sessions st \<or> (\<exists>s token. cp_sessions st' = prune_sessions (cx_at cx) (cp_sessions st) @ [s] \<and>
       ss_token_hash s \<notin> ss_token_hash ` set (prune_sessions (cx_at cx) (cp_sessions st)) \<and> ss_capability_id s = cap_id row \<and>
       ss_token_hash s = capabilityTokenHash L token \<and> cap_mode row = ''act'' \<and> ans = Some (SessionGranted (cap_id row) token (ss_expires_at s) (cg_entity (the (capabilityGrantOf row))))))"
  proof cases
    case (bind b)
    then show ?thesis by (auto simp: exchange_bind_mode_def monad_simps exchanged_def split: prod.splits dest: bindIn_Inr(4,5))
  next
    case none
    then show ?thesis by (simp add: exchanged_def)
  next
    case become
    then obtain p st1 ev where b: "(case bd of None \<Rightarrow> Inr st | Some (b, e, m) \<Rightarrow> bindIn cx b e p (cap_id row) m st) = Inr st1"
      and w: "writeEvent cx KernelAuthor ev st1 = Inr st'" and a: "exchanged ans = [cap_id row]"
      by (auto simp: exchange_become_mode_def monad_simps exchanged_def)
    have "cp_capabilities st1 = cp_capabilities st" "cp_sessions st1 = cp_sessions st"
      using b by (cases bd; auto dest: bindIn_Inr(4,5))+
    with w a show ?thesis using writeEvent_cap [OF w] by simp
  next
    case act
    show ?thesis
    proof (cases "capabilityGrantOf row")
      case None
      with act show ?thesis by (simp add: exchange_act_mode_def exchanged_def)
    next
      case (Some g)
      then have mode: "cap_mode row = ''act''" by (auto simp: capabilityGrantOf_def split: option.splits if_splits)
      let ?token = "CAPABILITY_SESSION_PREFIX @ toBase64url (cl_random L (drawn st))"
      let ?s = "\<lambda>x. \<lparr>ss_token_hash = capabilityTokenHash L ?token, ss_capability_id = cap_id row, ss_created_at = cx_at cx, ss_expires_at = x\<rparr>"
      from act Some obtain x rows ev where x: "insert_row (\<lambda>a b. ss_token_hash a = ss_token_hash b) (?s x) (prune_sessions (cx_at cx) (cp_sessions st)) = Inr rows"
        "ans = Some (SessionGranted (cap_id row) ?token x (cg_entity g))"
        "writeEvent cx KernelAuthor ev (st\<lparr>drawn := Suc (drawn st), cp_sessions := rows\<rparr>) = Inr st'"
        by (auto simp: exchange_act_mode_def bind_r_Inr_iff mintCapabilitySessionToken_def mint_token_def Let_def)
      obtain s token where s: "insert_row (\<lambda>a b. ss_token_hash a = ss_token_hash b) s (prune_sessions (cx_at cx) (cp_sessions st)) = Inr rows"
        "ss_capability_id s = cap_id row" "ss_token_hash s = capabilityTokenHash L token" "ans = Some (SessionGranted (cap_id row) token (ss_expires_at s) (cg_entity g))"
        using x(1,2) by (intro that [of "?s x" ?token]) simp_all
      note ev = writeEvent_cap [OF x(3)]
      from s(1) have rows: "rows = prune_sessions (cx_at cx) (cp_sessions st) @ [s]"
        "ss_token_hash s \<notin> ss_token_hash ` set (prune_sessions (cx_at cx) (cp_sessions st))" by (auto simp: monad_simps list_ex_iff)
      show ?thesis using ev rows s(2-4) Some mode by (auto simp: exchanged_def)
    qed
  qed
  then show "cp_capabilities st' = cp_capabilities st" "exchanged ans \<in> {[], [cap_id row]}"
    "cp_sessions st' = cp_sessions st \<or> (\<exists>s token. cp_sessions st' = prune_sessions (cx_at cx) (cp_sessions st) @ [s] \<and>
       ss_token_hash s \<notin> ss_token_hash ` set (prune_sessions (cx_at cx) (cp_sessions st)) \<and> ss_capability_id s = cap_id row \<and>
       ss_token_hash s = capabilityTokenHash L token \<and> cap_mode row = ''act'' \<and> ans = Some (SessionGranted (cap_id row) token (ss_expires_at s) (cg_entity (the (capabilityGrantOf row)))))"
    by blast+
qed


lemma prune_keeps: "s \<in> set rows \<Longrightarrow> distinct (map ss_token_hash rows) \<Longrightarrow> now < ss_expires_at s \<Longrightarrow> s \<in> set (prune_sessions now rows)"
proof -
  assume s: "s \<in> set rows" "distinct (map ss_token_hash rows)" "now < ss_expires_at s"
  have "ss_token_hash s \<notin> ss_token_hash ` set (take CAPABILITY_SESSION_PRUNE_BATCH (filter (\<lambda>s. ss_expires_at s \<le> now) rows))"
  proof
    assume "ss_token_hash s \<in> ss_token_hash ` set (take CAPABILITY_SESSION_PRUNE_BATCH (filter (\<lambda>s. ss_expires_at s \<le> now) rows))"
    then obtain s' where "s' \<in> set rows" "ss_expires_at s' \<le> now" "ss_token_hash s' = ss_token_hash s" by (auto dest!: in_set_takeD)
    with s show False by (auto simp: distinct_map inj_on_def)
  qed
  with s(1) show ?thesis by (simp add: prune_sessions_def Let_def)
qed

lemma use_rows:
  assumes "dir_ok st" and "row \<in> set (cp_capabilities st)" and "r \<in> set (cp_capabilities st)" and "cap_id r = cap_id row"
  shows "r = row"
  using assms by (auto simp: dir_ok_def distinct_map inj_on_def)

lemma distinct_filter_eq: "distinct xs \<Longrightarrow> x \<in> set xs \<Longrightarrow> filter (\<lambda>y. y = x) xs = [x]"
  by (induction xs) (auto simp: filter_empty_conv)

lemma take_use_taken:
  assumes "dir_ok st" and "row \<in> set (cp_capabilities st)"
  shows "fst (take_use row now st)"
proof -
  have "filter (\<lambda>r. cap_id r = cap_id row \<and> cap_uses r = cap_uses row) (cp_capabilities st) = filter (\<lambda>r. r = row) (cp_capabilities st)"
    using use_rows [OF assms] by (intro filter_cong) auto
  moreover have "distinct (cp_capabilities st)" using assms(1) by (auto simp: dir_ok_def distinct_map)
  then have "filter (\<lambda>r. r = row) (cp_capabilities st) = [row]" using assms(2) by (rule distinct_filter_eq)
  ultimately show ?thesis by (simp add: take_use_def)
qed

lemma exchange_moves:
  assumes "exchangeCapability cx L holdings may secret mode presenter st = Inr (ans, st')"
  shows "moves (cx_at cx) (exchanged ans) st st'"
  using assms
proof (cases rule: exchange_cases)
  case refused
  then show ?thesis by (simp add: exchanged_def moves_same)
next
  case (stale row)
  then show ?thesis by (simp add: exchanged_def moves_revoked)
next
  case (lost row)
  then have "\<not> dir_ok st" using take_use_taken [OF _ exchange_rowD(1) [OF lost(1)]] by blast
  then show ?thesis by (simp add: moves_def)
next
  case (used row minter bd)
  note row = exchange_rowD [OF used(1)] and fin = exchange_finish_cap [OF used(7)]
  have at: "cx_at (host_ctx cx subj op) = cx_at cx" for subj op by (simp add: host_ctx_def)
  have ss: "cp_sessions (snd (take_use row (cx_at cx) st)) = cp_sessions st" by (simp add: take_use_def)
  have new: "cp_sessions st' = cp_sessions st \<or> (\<exists>s. cp_sessions st' = prune_sessions (cx_at cx) (cp_sessions st) @ [s] \<and>
      ss_token_hash s \<notin> ss_token_hash ` set (prune_sessions (cx_at cx) (cp_sessions st)))"
    using fin(3) by (auto simp: at ss)
  show ?thesis
  proof (rule moves_rewritten)
    show "cp_capabilities st' = map (\<lambda>r. if cap_id r = cap_id row \<and> cap_uses r = cap_uses row
        then r\<lparr>cap_uses := cap_uses r + 1, cap_last_used_at := Some (cx_at cx)\<rparr> else r) (cp_capabilities st)"
      using fin(1) by (simp add: take_use_def update_where_def)
  next
    fix r assume ok: "dir_ok st" and r: "r \<in> set (cp_capabilities st)"
    have "if_given (\<lambda>m. cap_uses row < m) (cap_max_uses row)" using row(3) by (auto simp: capabilityExchangeable_def if_given_def split: option.splits)
    then have lim: "if_given (\<lambda>m. cap_uses row + 1 \<le> m) (cap_max_uses row)" by (auto simp: if_given_def split: option.splits)
    let ?g = "if cap_id r = cap_id row \<and> cap_uses r = cap_uses row then r\<lparr>cap_uses := cap_uses r + 1, cap_last_used_at := Some (cx_at cx)\<rparr> else r"
    show "keeps r ?g \<and> cap_uses r + int (count_list (exchanged ans) (cap_id r)) \<le> cap_uses ?g \<and>
      (if_given (\<lambda>m. cap_uses r \<le> m) (cap_max_uses r) \<longrightarrow> if_given (\<lambda>m. cap_uses ?g \<le> m) (cap_max_uses r))"
    proof (cases "cap_id r = cap_id row")
      case True
      with use_rows [OF ok row(1) r] have "r = row" by simp
      then show ?thesis using fin(2) lim keeps_use by auto
    next
      case False
      then show ?thesis using fin(2) by auto
    qed
  next
    assume "dir_ok st"
    then have "distinct (map ss_token_hash (cp_sessions st))" by (simp add: dir_ok_def)
    then show "distinct (map ss_token_hash (cp_sessions st'))" using new by (auto simp: prune_sessions_def Let_def distinct_map_filter)
  next
    fix s assume "dir_ok st" "s \<in> set (cp_sessions st)" "cx_at cx < ss_expires_at s"
    then show "s \<in> set (cp_sessions st')" using new prune_keeps [of s "cp_sessions st" "cx_at cx"] by (auto simp: dir_ok_def)
  qed
qed

lemma host_exchange_Inr:
  assumes "host_exchange cx L ck secret mode presenter st = Inr (ans, st')"
  obtains who where "exchangeCapability cx L (map_option (\<lambda>hs p. hs (Principal p) (cx_node cx)) (pk_holdings ck))
    (Some (\<lambda>p. allowedFor ck p (cx_node cx))) secret mode who (st\<lparr>passed := []\<rparr>) = Inr (ans, st')"
  using assms by (auto simp: host_exchange_def monad_simps)

lemma emit_unbound_cap:
  fixes st st' :: "'a cap_store_scheme"
  assumes "emit_unbound cx entity rs st = Inr st'"
  shows "cp_capabilities st' = cp_capabilities st \<and> cp_sessions st' = cp_sessions st \<and> cp_tables st' = cp_tables st \<and> tuples st' = tuples st"
  using assms
proof (induction rs arbitrary: st)
  case (Cons x rs)
  obtain who removed where "x = (who, removed)" by (cases x)
  with Cons.prems obtain ev st1 where "writeEvent cx KernelAuthor ev st = Inr st1" "emit_unbound cx entity rs st1 = Inr st'"
    by (auto simp: monad_simps)
  with Cons.IH [of st1] writeEvent_cap [of cx KernelAuthor ev st st1] show ?case by simp
qed simp


lemma unbind_Inr:
  fixes st st' :: "'a cap_store_scheme"
  assumes "unbindEntityHolder cx caller may entity st = Inr (a, st')"
  obtains (refused) "st' = st" "\<And>us ls. a \<noteq> Unbound us ls"
    | (unbound) b permission released rows st2 ls where "a = Unbound (map fst released) ls" "entityObjectRef entity ''unbind'' = Inr (ref_of entity)"
      "entityBindingOf (entityType entity) (tuples st) = Inr (Some (b, permission))" "may permission entity = Inr True"
      "releaseHolders (ref_of entity) (cx_at cx) None (tuples st) = Inr (released, rows)"
      "cp_capabilities st2 = cp_capabilities st" "cp_sessions st2 = cp_sessions st" "cp_tables st2 = cp_tables (clearColumn b (entityId entity) None st)" "tuples st2 = rows"
      "revokeBindLinksIn entity (Some (ByPrincipal caller)) (cx_at cx) st2 = Inr (ls, st')"
proof -
  from assms obtain ob found where 1: "entityObjectRef entity ''unbind'' = Inr ob" "entityBindingOf (entityType entity) (tuples st) = Inr found"
    by (auto simp: unbindEntityHolder_def monad_simps)
  then have ob: "ob = ref_of entity" by (simp add: entityObjectRef_def split: if_splits)
  show thesis
  proof (cases found)
    case None
    with assms 1 show ?thesis by (intro refused) (auto simp: unbindEntityHolder_def monad_simps)
  next
    case (Some bp)
    obtain b permission where bp: "bp = (b, permission)" by (cases bp)
    with assms 1 Some obtain ok where ok: "may permission entity = Inr ok" by (auto simp: unbindEntityHolder_def monad_simps)
    show ?thesis
    proof (cases ok)
      case False
      with assms 1 Some bp ok show ?thesis by (intro refused) (auto simp: unbindEntityHolder_def monad_simps)
    next
      case True
      let ?st1 = "clearColumn b (entityId entity) None st"
      have st1: "tuples ?st1 = tuples st" "cp_capabilities ?st1 = cp_capabilities st" "cp_sessions ?st1 = cp_sessions st"
        by (simp_all add: clearColumn_def update_table_def)
      from assms 1 Some bp ok True obtain released rows st2 ls where 2: "releaseHolders ob (cx_at cx) None (tuples ?st1) = Inr (released, rows)"
        "emit_unbound cx entity released (?st1\<lparr>tuples := rows\<rparr>) = Inr st2" "revokeBindLinksIn entity (Some (ByPrincipal caller)) (cx_at cx) st2 = Inr (ls, st')"
        "a = Unbound (map fst released) ls"
        by (auto simp: unbindEntityHolder_def monad_simps Let_def)
      from emit_unbound_cap [OF 2(2)] st1 2 1 ok True Some bp ob show ?thesis by (intro unbound) auto
    qed
  qed
qed

lemma unbind_moves: "unbindEntityHolder cx caller may entity st = Inr (a, st') \<Longrightarrow> moves T [] st st'"
proof (erule unbind_Inr)
  fix st2 ls
  assume "cp_capabilities st2 = cp_capabilities st" "cp_sessions st2 = cp_sessions st"
    "revokeBindLinksIn entity (Some (ByPrincipal caller)) (cx_at cx) st2 = Inr (ls, st')"
  then show ?thesis by (intro moves_then [OF moves_same revokeBindLinksIn_moves])
qed (simp add: moves_same)

lemma release_columns_moves: "release_columns cs now st = Inr st' \<Longrightarrow> moves T [] st st'"
proof (induction cs arbitrary: st)
  case (Cons c cs)
  obtain b i p where c: "c = (b, i, p)" by (cases c)
  with Cons.prems obtain ids st1 where 1: "revokeBindLinksIn \<lparr>entityType = eb_entityType b, entityId = i\<rparr> None now (clearColumn b i (Some p) st) = Inr (ids, st1)"
    "release_columns cs now st1 = Inr st'" by (auto simp: monad_simps)
  have "moves T [] st (clearColumn b i (Some p) st)" by (rule moves_same) (simp_all add: clearColumn_def update_table_def)
  then show ?case by (rule moves_then [OF _ moves_then [OF revokeBindLinksIn_moves [OF 1(1)] Cons.IH [OF 1(2)]]])
qed (simp add: moves_same)

lemma releaseBound_moves: "releaseBound captured now st = Inr st' \<Longrightarrow> moves T [] st st'"
proof -
  assume "releaseBound captured now st = Inr st'"
  then obtain st1 rows where 1: "release_columns (er_columns captured) now st = Inr st1" "revokeBindLinksFor (er_subject captured) now (st1\<lparr>tuples := rows\<rparr>) = Inr st'"
    by (auto simp: releaseBound_def monad_simps)
  have "moves T [] st1 (st1\<lparr>tuples := rows\<rparr>)" by (rule moves_same) simp_all
  then show ?thesis by (rule moves_then [OF release_columns_moves [OF 1(1)] moves_then [OF _ revokeBindLinksFor_moves [OF 1(2)]]])
qed

section \<open>Runs\<close>

text \<open>One call, at an instant, with the capabilities it exchanged; \<open>c_other\<close> is module code, which cannot write the two tables.\<close>

inductive cap_step :: "string \<Rightarrow> string list \<Rightarrow> 'a cap_store_scheme \<Rightarrow> 'a cap_store_scheme \<Rightarrow> bool" where
  c_mint: "capability_mint cx L isOp raw st = Inr (m, st') \<Longrightarrow> cap_step (cx_at cx) [] st st'"
| c_revoke: "capability_revoke cx i st = Inr st' \<Longrightarrow> cap_step (cx_at cx) [] st st'"
| c_exchange: "host_exchange cx L ck secret mode presenter st = Inr (ans, st') \<Longrightarrow> cap_step (cx_at cx) (exchanged ans) st st'"
| c_mint_become: "mintBecomeCapability cx L input actor st = Inr (m, st') \<Longrightarrow> cap_step (cx_at cx) [] st st'"
| c_mint_become_bounded: "mintBecomeCapabilityBounded cx L ck caller input st = Inr (a, st') \<Longrightarrow> cap_step (cx_at cx) [] st st'"
| c_mint_bind: "mintBindLinkBounded cx L ck caller blink st = Inr (a, st') \<Longrightarrow> cap_step (cx_at cx) [] st st'"
| c_revoke_platform: "revokeCapabilityAsPlatform cx L i actor st = Inr (r, st') \<Longrightarrow> cap_step (cx_at cx) [] st st'"
| c_revoke_become: "revokeBecomeCapability cx ck i who st = Inr (v, st') \<Longrightarrow> cap_step (cx_at cx) [] st st'"
| c_unbind: "unbindEntityHolderBounded cx ck caller entity st = Inr (u, st') \<Longrightarrow> cap_step (cx_at cx) [] st st'"
| c_erasure: "releaseBound captured now st = Inr st' \<Longrightarrow> cap_step now [] st st'"
| c_other: "cp_capabilities st' = cp_capabilities st \<Longrightarrow> cp_sessions st' = cp_sessions st \<Longrightarrow> cap_step now [] st st'"

lemma cap_step_moves: "cap_step now tr st st' \<Longrightarrow> moves now tr st st'"
proof (induction rule: cap_step.induct)
  case (c_exchange cx L ck secret mode presenter st ans st')
  then show ?case by (auto elim!: host_exchange_Inr intro: moves_passed exchange_moves)
next
  case (c_unbind cx ck caller entity st u st')
  then show ?case by (auto simp: unbindEntityHolderBounded_def monad_simps intro: moves_passed unbind_moves)
qed (fact mint_moves revoke_moves mintBecome_moves mintBecomeBounded_moves mintBindLinkBounded_moves revokeAsPlatform_moves
  revokeBecome_moves releaseBound_moves moves_same)+

inductive cap_run :: "string \<Rightarrow> string list \<Rightarrow> 'a cap_store_scheme \<Rightarrow> 'a cap_store_scheme \<Rightarrow> bool" for T where
  run_nil: "cap_run T [] st st"
| run_step: "cap_run T tr st st1 \<Longrightarrow> cap_step now tr' st1 st2 \<Longrightarrow> now \<le> T \<Longrightarrow> cap_run T (tr @ tr') st st2"

lemma cap_run_moves: "cap_run T tr st st' \<Longrightarrow> moves T tr st st'"
  by (induction rule: cap_run.induct) (auto intro: moves_same moves_trans moves_mono cap_step_moves)


end
