(* ===== verification/Capability_Safety.thy ===== *)
theory Capability_Safety
  imports Capability_Runs
begin

text \<open>
  What the capability directory promises, over every run of its verbs: a limit is never exceeded, a
  revocation is final for the exchange, for sessions and for the checker, a session acts until it
  ends, a \<open>become\<close> link never yields more than its minter held, a claim binds a free record and an
  unbind frees it.
\<close>

section \<open>A small directory\<close>

text \<open>A principal mints a capability with two uses; random bytes count and the hash is injective.\<close>

definition demo_lib :: cap_lib where
  "demo_lib = \<lparr>d_parse = (\<lambda>s. Some 0), d_iso = (\<lambda>m. ''2026-01-02T00:00:00.000Z''), cl_datetime = (\<lambda>s. True),
     cl_random = (\<lambda>n. replicate 3 (word_of_nat n)), cl_sha256 = map (\<lambda>c. word_of_nat (of_char c))\<rparr>"

definition demo_directory :: cap_store where
  "demo_directory = \<lparr>tuples = demo_tuples, outbox = [], passed = [], drawn = 0, cp_capabilities = [], cp_sessions = [], cp_minted = [], cp_tables = []\<rparr>"

definition demo_mint :: mint_input where
  "demo_mint = \<lparr>cm_entity = demo_facility, cm_permissions = [''workorder:read''], cm_operations = Some [''workorder/list''], cm_attachments = None,
     cm_expiresAt = None, cm_maxUses = Some 2, cm_label = None\<rparr>"

abbreviation demo_evaluator :: permission_checker where
  "demo_evaluator \<equiv> evaluator (createTupleChecker demo_deps)"

lemma demo_minted:
  obtains m s r where "capability_mint demo_ctx demo_lib (\<lambda>_. True) demo_mint demo_directory = Inr (m, s)" "dir_ok s"
    "cp_capabilities s = [r]" "mc_secret m = ''sbcap_AQEB''" "mc_id m = cap_id r" "cap_max_uses r = Some 2" "cap_uses r = 0" "ulid_pattern (cap_id r)"
proof -
  have "bind_r (capability_mint demo_ctx demo_lib (\<lambda>_. True) demo_mint demo_directory) (\<lambda>(m, s).
      guard_r (case cp_capabilities s of [r] \<Rightarrow> mc_secret m = ''sbcap_AQEB'' \<and> mc_id m = cap_id r \<and> cap_max_uses r = Some 2 \<and> cap_uses r = 0 \<and> ulid_pattern (cap_id r) | _ \<Rightarrow> False)
        (PlainError [])) = Inr ()" by code_simp
  then obtain m s where m: "capability_mint demo_ctx demo_lib (\<lambda>_. True) demo_mint demo_directory = Inr (m, s)"
    and r: "case cp_capabilities s of [r] \<Rightarrow> mc_secret m = ''sbcap_AQEB'' \<and> mc_id m = cap_id r \<and> cap_max_uses r = Some 2 \<and> cap_uses r = 0 \<and> ulid_pattern (cap_id r) | _ \<Rightarrow> False"
    by (auto simp: monad_simps)
  have "dir_ok demo_directory" by (simp add: dir_ok_def demo_directory_def)
  with mint_moves [OF m] have "dir_ok s" by (simp add: moves_def)
  with m r show thesis by (auto split: list.splits intro: that)
qed

section \<open>Limits and revocation\<close>

lemma dir_ok_id: "dir_ok st \<Longrightarrow> r \<in> set (cp_capabilities st) \<Longrightarrow> capabilityByIdQuery (cap_id r) st = Some r"
proof -
  assume ok: "dir_ok st" and r: "r \<in> set (cp_capabilities st)"
  then obtain x where x: "row_where (\<lambda>q. cap_id q = cap_id r) (cp_capabilities st) = Some x"
    by (cases "row_where (\<lambda>q. cap_id q = cap_id r) (cp_capabilities st)") (auto simp: row_where_None)
  with use_rows [OF ok r] show ?thesis by (auto simp: capabilityByIdQuery_def dest: row_where_SomeD)
qed

lemma exchange_answer_row:
  assumes "host_exchange cx L ck secret mode presenter st = Inr (ans, st')" and "i \<in> set (exchanged ans)"
  shows "\<exists>row \<in> set (cp_capabilities st). cap_id row = i \<and> capabilityExchangeable row (cx_at cx)"
proof -
  from assms(1) obtain who where "exchangeCapability cx L (map_option (\<lambda>hs p. hs (Principal p) (cx_node cx)) (pk_holdings ck))
    (Some (\<lambda>p. allowedFor ck p (cx_node cx))) secret mode who (st\<lparr>passed := []\<rparr>) = Inr (ans, st')" by (rule host_exchange_Inr)
  then show ?thesis
  proof (cases rule: exchange_cases)
    case (used row minter bd)
    with exchange_finish_cap(2) [OF used(7)] exchange_rowD [OF used(1)] assms(2) show ?thesis by auto
  qed (use assms(2) in \<open>auto simp: exchanged_def\<close>)
qed

lemma exchangeable_unrevoked: "capabilityExchangeable row now \<Longrightarrow> cap_revoked_at row = None"
  by (simp add: capabilityExchangeable_def capabilityLive_def)

lemma cap_step_exchanges:
  "cap_step now tr st st' \<Longrightarrow> i \<in> set tr \<Longrightarrow> \<exists>row \<in> set (cp_capabilities st). cap_id row = i \<and> capabilityExchangeable row now"
  by (cases rule: cap_step.cases) (auto dest: exchange_answer_row)

lemma revoked_stays:
  assumes "dir_ok st" and "moves T tr st st'" and "r \<in> set (cp_capabilities st)" and "cap_revoked_at r \<noteq> None"
    and "row \<in> set (cp_capabilities st')" and "cap_id row = cap_id r"
  shows "cap_revoked_at row \<noteq> None"
proof -
  from assms(1-3) obtain r' where r': "r' \<in> set (cp_capabilities st')" "keeps r r'" and ok: "dir_ok st'" by (auto simp: moves_def)
  from use_rows [OF ok r'(1) assms(5)] assms(6) keeps_cols(1,8) [OF r'(2)] assms(4) show ?thesis by auto
qed

lemma revoked_not_exchanged:
  "cap_run T tr st st' \<Longrightarrow> dir_ok st \<Longrightarrow> r \<in> set (cp_capabilities st) \<Longrightarrow> cap_revoked_at r \<noteq> None \<Longrightarrow> cap_id r \<notin> set tr"
proof (induction rule: cap_run.induct)
  case (run_step tr st st1 now tr' st2)
  have "cap_id r \<notin> set tr'"
  proof
    assume "cap_id r \<in> set tr'"
    with cap_step_exchanges [OF run_step(2)] obtain row where row: "row \<in> set (cp_capabilities st1)" "cap_id row = cap_id r"
      "capabilityExchangeable row now" by blast
    with revoked_stays [OF run_step(5) cap_run_moves [OF run_step(1)] run_step(6,7)] show False
      using exchangeable_unrevoked by blast
  qed
  with run_step show ?case by simp
qed simp

text \<open>
  C11. The directory stays well formed.  Whatever verbs and module code run, ids and hashes stay unique and
  uses within their limits, and a capability keeps its row: of its columns only the uses, the last use
  and the revocation change, uses never go down and a revocation keeps its instant.
\<close>

theorem directory_stays_well_formed:
  assumes "dir_ok st" and "cap_run T tr st st'"
  shows "dir_ok st' \<and> (\<forall>r \<in> set (cp_capabilities st). \<exists>r' \<in> set (cp_capabilities st').
    r' = r\<lparr>cap_uses := cap_uses r', cap_last_used_at := cap_last_used_at r', cap_revoked_at := cap_revoked_at r',
      cap_revoked_by := cap_revoked_by r', cap_revoked_reason := cap_revoked_reason r'\<rparr> \<and>
    cap_uses r \<le> cap_uses r' \<and> (cap_revoked_at r \<noteq> None \<longrightarrow> cap_revoked_at r' = cap_revoked_at r))"
proof -
  have m: "moves T tr st st'" by (rule cap_run_moves [OF assms(2)])
  have k: "keeps r r' \<Longrightarrow> r' = r\<lparr>cap_uses := cap_uses r', cap_last_used_at := cap_last_used_at r', cap_revoked_at := cap_revoked_at r',
      cap_revoked_by := cap_revoked_by r', cap_revoked_reason := cap_revoked_reason r'\<rparr>" for r r'
    by (auto simp: keeps_def)
  show ?thesis
  proof (intro conjI ballI)
    show "dir_ok st'" using m assms(1) by (simp add: moves_def)
    fix r assume "r \<in> set (cp_capabilities st)"
    with m assms(1) obtain r' where r': "r' \<in> set (cp_capabilities st')" "keeps r r'" "cap_uses r + int (count_list tr (cap_id r)) \<le> cap_uses r'"
      by (auto simp: moves_def)
    show "\<exists>r' \<in> set (cp_capabilities st'). r' = r\<lparr>cap_uses := cap_uses r', cap_last_used_at := cap_last_used_at r', cap_revoked_at := cap_revoked_at r',
      cap_revoked_by := cap_revoked_by r', cap_revoked_reason := cap_revoked_reason r'\<rparr> \<and>
      cap_uses r \<le> cap_uses r' \<and> (cap_revoked_at r \<noteq> None \<longrightarrow> cap_revoked_at r' = cap_revoked_at r)"
      using r' k [OF r'(2)] keeps_cols(8) [OF r'(2)] by (intro bexI [of _ r']) auto
  qed
qed

theorem directory_stays_well_formed_witness:
  "dir_ok demo_directory \<and> (\<exists>m s. capability_mint demo_ctx demo_lib (\<lambda>_. True) demo_mint demo_directory = Inr (m, s) \<and> dir_ok s)"
proof -
  have ok: "dir_ok demo_directory" by (simp add: dir_ok_def demo_directory_def)
  obtain m s where 1: "capability_mint demo_ctx demo_lib (\<lambda>_. True) demo_mint demo_directory = Inr (m, s)" by (rule demo_minted)
  have "cap_run (cx_at demo_ctx) ([] @ []) demo_directory s" by (rule run_step [OF run_nil c_mint [OF 1]]) simp
  from directory_stays_well_formed [OF ok this] ok 1 show ?thesis by blast
qed

text \<open>
  C8. A limit on uses is never exceeded: along any run of the capability verbs and of module code, the
  uses a capability has had and the exchanges of the run it answers together stay within its limit,
  and its row still says so at the end.
\<close>

theorem uses_within_limit:
  assumes "dir_ok st" and "cap_run T tr st st'" and "r \<in> set (cp_capabilities st)" and "cap_max_uses r = Some m"
  shows "cap_uses r + int (count_list tr (cap_id r)) \<le> m \<and>
    (\<exists>r'. capabilityByIdQuery (cap_id r) st' = Some r' \<and> cap_max_uses r' = Some m \<and>
       cap_uses r + int (count_list tr (cap_id r)) \<le> cap_uses r' \<and> cap_uses r' \<le> m)"
proof -
  from cap_run_moves [OF assms(2)] assms(1,3) obtain r' where r': "r' \<in> set (cp_capabilities st')" "keeps r r'"
    "cap_uses r + int (count_list tr (cap_id r)) \<le> cap_uses r'" and ok: "dir_ok st'"
    by (auto simp: moves_def)
  moreover have "cap_max_uses r' = Some m" "cap_id r' = cap_id r" using keeps_cols(1,3) [OF r'(2)] assms(4) by simp_all
  moreover from this ok r'(1) have "cap_uses r' \<le> m" by (auto simp: dir_ok_def if_given_def)
  moreover have "capabilityByIdQuery (cap_id r) st' = Some r'" using dir_ok_id [OF ok r'(1)] keeps_cols(1) [OF r'(2)] by simp
  ultimately show ?thesis by auto
qed

theorem uses_within_limit_witness:
  "\<exists>m s a s'. capability_mint demo_ctx demo_lib (\<lambda>_. True) demo_mint demo_directory = Inr (m, s) \<and>
     host_exchange demo_ctx demo_lib demo_evaluator ''sbcap_AQEB'' None None s = Inr (Some a, s') \<and>
     (\<exists>r'. capabilityByIdQuery (mc_id m) s' = Some r' \<and> 1 \<le> cap_uses r' \<and> cap_uses r' \<le> 2)"
proof -
  obtain m s r where 1: "capability_mint demo_ctx demo_lib (\<lambda>_. True) demo_mint demo_directory = Inr (m, s)" "dir_ok s"
    "cp_capabilities s = [r]" "mc_id m = cap_id r" "cap_max_uses r = Some 2" "cap_uses r = 0" by (rule demo_minted)
  have "is_ok (bind_r (capability_mint demo_ctx demo_lib (\<lambda>_. True) demo_mint demo_directory) (\<lambda>(m, s).
      bind_r (host_exchange demo_ctx demo_lib demo_evaluator ''sbcap_AQEB'' None None s) (\<lambda>(a, s'). guard_r (exchanged a = [mc_id m]) (PlainError []))))"
    by code_simp
  with 1(1,4) obtain a s' where 2: "host_exchange demo_ctx demo_lib demo_evaluator ''sbcap_AQEB'' None None s = Inr (a, s')" "exchanged a = [cap_id r]"
    by (auto simp: is_ok_iff monad_simps)
  then obtain x where x: "a = Some x" by (auto simp: exchanged_def split: option.splits)
  have "cap_run (cx_at demo_ctx) ([] @ exchanged a) s s'" by (rule run_step [OF run_nil c_exchange [OF 2(1)]]) simp
  from uses_within_limit [OF 1(2) this, of r 2] 1 2 x show ?thesis by auto
qed

text \<open>The table as the checker reads it.\<close>

definition checker_rows :: "'a cap_store_scheme \<Rightarrow> (string \<times> capability_row) list" where
  "checker_rows st = map (\<lambda>r. (cap_id r, capability_row.truncate r)) (cp_capabilities st)"

lemma checker_row:
  assumes "map_of (checker_rows st) i = Some x"
  obtains r where "r \<in> set (cp_capabilities st)" "cap_id r = i" "x = capability_row.truncate r"
  using map_of_SomeD [OF assms] that by (auto simp: checker_rows_def)

lemma revoked_unusable:
  assumes "\<And>row. row \<in> set (cp_capabilities st) \<Longrightarrow> cap_id row = i \<Longrightarrow> cap_revoked_at row \<noteq> None"
    and "db_capabilities db = checker_rows st"
  shows "capability_usable (scopeReader db) now i permission = None"
proof -
  have "\<not> capabilityLive x now" if "map_of (checker_rows st) i = Some x" for x
    using that by (rule checker_row) (use assms(1) in \<open>auto simp: capabilityLive_def capability_row.defs\<close>)
  then show ?thesis by (auto simp: capability_usable_def scopeReader_def assms(2) split: option.splits)
qed

text \<open>
  C7. A revocation is final.  Whatever verbs run after it, a revoked capability is exchanged in none of
  them and by no later exchange, no session resolves to it, and the checker denies it every
  permission.
\<close>

theorem revocation_is_final:
  assumes "dir_ok st" and "r \<in> set (cp_capabilities st)" and "cap_revoked_at r \<noteq> None" and "cap_run T tr st st'"
    and "scope_of n = Some sid" and "map_of (db_scopes deps) sid = Some db" and "db_capabilities db = checker_rows st'"
  shows "cap_id r \<notin> set tr \<and>
    (host_exchange cx L ck secret mode presenter st' = Inr (ans, st'') \<longrightarrow> cap_id r \<notin> set (exchanged ans)) \<and>
    resolveCapabilitySession hash now operation att st' \<noteq> Inr (cap_id r) \<and>
    check (createTupleChecker deps) (Capability (cap_id r)) permission n entity = Inr (Denied permission n)"
proof (intro conjI impI)
  have dead: "cap_revoked_at row \<noteq> None" if "row \<in> set (cp_capabilities st')" "cap_id row = cap_id r" for row
    using revoked_stays [OF assms(1) cap_run_moves [OF assms(4)] assms(2,3) that] .
  show "cap_id r \<notin> set tr" by (rule revoked_not_exchanged [OF assms(4,1,2,3)])
  show "cap_id r \<notin> set (exchanged ans)" if "host_exchange cx L ck secret mode presenter st' = Inr (ans, st'')"
    using exchange_answer_row [OF that] dead exchangeable_unrevoked by blast
  show "resolveCapabilitySession hash now operation att st' \<noteq> Inr (cap_id r)"
    using dead by (auto simp: resolveCapabilitySession_def capabilityByIdQuery_def capabilityLive_def monad_simps
        split: option.splits if_splits dest!: row_where_SomeD)
  show "check (createTupleChecker deps) (Capability (cap_id r)) permission n entity = Inr (Denied permission n)"
    using revoked_unusable [OF dead assms(7)] assms(5,6)
    by (auto simp: check_def checkCapability_def createTupleChecker_def Let_def split: option.splits)
qed

theorem revocation_is_final_witness:
  "\<exists>m s s1. capability_mint demo_ctx demo_lib (\<lambda>_. True) demo_mint demo_directory = Inr (m, s) \<and>
     revokeCapabilityAsPlatform demo_ctx demo_lib (mc_id m) ''op'' s = Inr s1 \<and>
     check (createTupleChecker (demo_deps\<lparr>db_scopes := [(''S1'', \<lparr>db_tuples = demo_tuples, db_capabilities = checker_rows (snd s1)\<rparr>)]\<rparr>))
       (Capability (mc_id m)) ''workorder:read'' demo_node (Some demo_facility) = Inr (Denied ''workorder:read'' demo_node)"
proof -
  let ?deps = "\<lambda>s1. demo_deps\<lparr>db_scopes := [(''S1'', \<lparr>db_tuples = demo_tuples, db_capabilities = checker_rows (snd s1)\<rparr>)]\<rparr>"
  obtain m s r where 1: "capability_mint demo_ctx demo_lib (\<lambda>_. True) demo_mint demo_directory = Inr (m, s)" "dir_ok s"
    "cp_capabilities s = [r]" "mc_id m = cap_id r" by (rule demo_minted)
  have "is_ok (bind_r (capability_mint demo_ctx demo_lib (\<lambda>_. True) demo_mint demo_directory) (\<lambda>(m, s).
      bind_r (revokeCapabilityAsPlatform demo_ctx demo_lib (mc_id m) ''op'' s) (\<lambda>(v, s1).
        guard_r (\<exists>r1 \<in> set (cp_capabilities s1). cap_id r1 = mc_id m \<and> cap_revoked_at r1 \<noteq> None) (PlainError []))))"
    by code_simp
  with 1(1) obtain v s1 r1 where 2: "revokeCapabilityAsPlatform demo_ctx demo_lib (mc_id m) ''op'' s = Inr (v, s1)"
    "r1 \<in> set (cp_capabilities s1)" "cap_revoked_at r1 \<noteq> None" "cap_id r1 = mc_id m"
    by (auto simp: is_ok_iff monad_simps)
  have ok: "dir_ok s1" using revokeAsPlatform_moves [OF 2(1)] 1(2) by (simp add: moves_def)
  have n: "scope_of demo_node = Some ''S1''" by code_simp
  have "check (createTupleChecker (?deps (v, s1))) (Capability (cap_id r1)) ''workorder:read'' demo_node (Some demo_facility) = Inr (Denied ''workorder:read'' demo_node)"
    using revocation_is_final [OF ok 2(2,3) run_nil n, of "?deps (v, s1)" "\<lparr>db_tuples = demo_tuples, db_capabilities = checker_rows s1\<rparr>"] by simp
  with 1(1) 2 show ?thesis by auto
qed

section \<open>Minting and sessions\<close>

lemma parse_keys_JStr: "list_all permissionKey ks \<Longrightarrow> parse_keys (map JStr ks) = Some ks"
  by (induction ks) auto

lemma act_row_grant:
  "list_all permissionKey ks \<Longrightarrow> ulid_pattern minter \<Longrightarrow>
   capabilityGrantOf (act_row input i h minter now ks ops) = Some \<lparr>cg_entity = cm_entity input, cg_permissions = ks, cg_mintedBy = Some minter\<rparr>"
  by (simp add: capabilityGrantOf_def act_row_def parse_keys_JStr)

lemma capabilityMintInput_Inr:
  assumes "capabilityMintInput L raw = Inr input"
  shows "cm_entity input = cm_entity raw" "cm_permissions input = cm_permissions raw" "cm_operations input = cm_operations raw"
    "cm_maxUses input = cm_maxUses raw" "list_all permissionKey (cm_permissions raw)" "cm_permissions raw \<noteq> []"
  using assms by (auto simp: capabilityMintInput_def monad_simps capabilityAuthority_def)

text \<open>
  A mint delegates and never elevates.  It returns only to a principal acting as itself whom the checker
  allows every key asked for on the entity; it adds one row, which carries exactly those keys on exactly
  that entity in that principal's name with no use taken, stores the hash of the secret and not the secret,
  and touches no other row, no session and no tuple.
\<close>

theorem capability_mint_delegates:
  assumes "capability_mint cx L isOp raw st = Inr (m, st')" and "ulid_pattern (cx_principal cx)"
  shows "\<exists>minter r. cx_override cx = None \<and> cx_subject cx = Principal minter \<and>
    (\<forall>p \<in> set (cm_permissions raw). \<exists>d. cx_checker cx (tuples st) (Principal minter) p (cx_node cx) (Some (cm_entity raw)) = Inr d \<and> allowed d) \<and>
    cp_capabilities st' = cp_capabilities st @ [r] \<and> capabilityGrantOf r =
      Some \<lparr>cg_entity = cm_entity raw, cg_permissions = unique_in_order (cm_permissions raw), cg_mintedBy = Some minter\<rparr> \<and>
    cap_id r = mc_id m \<and> cap_token_hash r = capabilityTokenHash L (mc_secret m) \<and> cap_max_uses r = cm_maxUses raw \<and> cap_uses r = 0 \<and>
    capabilityExchangeable r (cx_at cx) \<and>
    cp_sessions st' = cp_sessions st \<and> tuples st' = tuples st \<and> cp_tables st' = cp_tables st"
  using assms(1)
proof (cases rule: capability_mint_Inr)
  case (1 minter input st1)
  note input = capabilityMintInput_Inr [OF 1(3)]
  have "ulid_pattern minter" using assms(2) 1(2) by (simp add: cx_principal_def)
  with input(5) have grant: "capabilityGrantOf (act_row input i h minter now (unique_in_order (cm_permissions input)) ops) =
      Some \<lparr>cg_entity = cm_entity raw, cg_permissions = unique_in_order (cm_permissions raw), cg_mintedBy = Some minter\<rparr>" for i h now ops
    using act_row_grant [of "unique_in_order (cm_permissions input)"] by (simp add: input list_all_iff)
  have uses: "if_given positive_int (cm_maxUses input)" using 1(3) by (auto simp: capabilityMintInput_def monad_simps)
  have live: "capabilityExchangeable (act_row input i h minter now ks ops) (cx_at cx)" for i h now ks ops
    using 1(4) uses by (auto simp: capabilityExchangeable_def capabilityLive_def act_row_def expires_after_def if_given_def positive_int_def split: option.splits)
  from check_all_Inr [OF 1(5)] 1 grant live show ?thesis
    by (intro exI [of _ minter] exI [of _ "act_row input (mc_id m) (capabilityTokenHash L (mc_secret m)) minter (cx_at cx)
       (unique_in_order (cm_permissions input)) (map_option unique_in_order (cm_operations input))"])
      (simp add: input, simp add: act_row_def input)
qed

theorem capability_mint_delegates_witness:
  "\<exists>m s. capability_mint demo_ctx demo_lib (\<lambda>_. True) demo_mint demo_directory = Inr (m, s) \<and>
     (\<exists>d. cx_checker demo_ctx demo_tuples (Principal demo_p2) ''workorder:read'' demo_node (Some demo_facility) = Inr d \<and> allowed d)"
proof -
  obtain m s r where 1: "capability_mint demo_ctx demo_lib (\<lambda>_. True) demo_mint demo_directory = Inr (m, s)" by (rule demo_minted)
  have "ulid_pattern (cx_principal demo_ctx)" by code_simp
  from capability_mint_delegates [OF 1 this] 1 show ?thesis
    by (auto simp: demo_mint_def demo_directory_def demo_ctx_def)
qed


lemma session_granted:
  assumes "exchange_finish cx L row bd st = Inr (Some (SessionGranted i token x e), st')"
  shows "i = cap_id row" "cap_mode row = ''act''" "if_given (\<lambda>y. x \<le> y) (cap_expires_at row)" "capabilityGrantOf row \<noteq> None"
    "cg_entity (the (capabilityGrantOf row)) = e"
    "\<exists>s \<in> set (cp_sessions st'). ss_token_hash s = capabilityTokenHash L token \<and> ss_capability_id s = i \<and> ss_expires_at s = x"
proof -
  have "exchange_act_mode cx L row st = Inr (Some (SessionGranted i token x e), st')"
    using assms by (auto simp: exchange_finish_def exchange_bind_mode_def exchange_become_mode_def monad_simps split: if_splits option.splits prod.splits)
  moreover then obtain g where gr: "capabilityGrantOf row = Some g" by (auto simp: exchange_act_mode_def split: option.split_asm)
  ultimately obtain ttl rows st1 ev where g: "capabilityGrantOf row = Some g" "cg_entity g = e" "i = cap_id row"
    and x: "x = (case cap_expires_at row of Some y \<Rightarrow> if y < ttl then y else ttl | None \<Rightarrow> ttl)"
    and ins: "insert_row (\<lambda>a b. ss_token_hash a = ss_token_hash b) \<lparr>ss_token_hash = capabilityTokenHash L token, ss_capability_id = i,
        ss_created_at = cx_at cx, ss_expires_at = x\<rparr> (prune_sessions (cx_at cx) (cp_sessions st)) = Inr rows"
    and ev: "writeEvent cx KernelAuthor ev (st1\<lparr>cp_sessions := rows\<rparr>) = Inr st'"
    by (auto simp: exchange_act_mode_def bind_r_Inr_iff mintCapabilitySessionToken_def mint_token_def Let_def)
  show "i = cap_id row" "capabilityGrantOf row \<noteq> None" "cg_entity (the (capabilityGrantOf row)) = e" using g by simp_all
  show "cap_mode row = ''act''" using g(1) by (auto simp: capabilityGrantOf_def split: option.splits if_splits)
  show "if_given (\<lambda>y. x \<le> y) (cap_expires_at row)" by (auto simp: x if_given_def split: option.splits)
  show "\<exists>s \<in> set (cp_sessions st'). ss_token_hash s = capabilityTokenHash L token \<and> ss_capability_id s = i \<and> ss_expires_at s = x"
    using ins writeEvent_cap(2) [OF ev] by (auto simp: monad_simps)
qed

lemma session_resolves:
  assumes "dir_ok st" and "s \<in> set (cp_sessions st)" and "row \<in> set (cp_capabilities st)" and "ss_capability_id s = cap_id row"
  shows "resolveCapabilitySession (ss_token_hash s) now operation att st =
    bind_r (guard_r (now < ss_expires_at s) (SubstratError Unauthenticated None ''capability session is unknown or has expired'')) (\<lambda>_.
    bind_r (guard_r (cap_mode row = ''act'' \<and> capabilityLive row now) (SubstratError Unauthenticated None ''capability has been revoked or has expired'')) (\<lambda>_.
    bind_r (case cap_operations row of None \<Rightarrow> Inr ()
      | Some col \<Rightarrow> bind_r (operation_listed col operation) (\<lambda>listed.
          guard_r (listed \<or> att \<and> cap_attachments row = Some ''read'' \<and> operation \<in> set CAPABILITY_ATTACHMENT_READ_OPERATIONS)
            (SubstratError Forbidden (Some ''capability_operation'') (''capability '' @ cap_id row @ '' may not invoke '' @ operation)))) (\<lambda>_.
    bind_r (guard_r (ulid_pattern (cap_id row)) (ZodError ''capabilityId'')) (\<lambda>_. Inr (cap_id row)))))"
proof -
  obtain y where y: "row_where (\<lambda>q. ss_token_hash q = ss_token_hash s) (cp_sessions st) = Some y"
    using assms(2) by (cases "row_where (\<lambda>q. ss_token_hash q = ss_token_hash s) (cp_sessions st)") (auto simp: row_where_None)
  with assms(1,2) have "y = s" by (auto simp: dir_ok_def distinct_map inj_on_def dest!: row_where_SomeD)
  with y show ?thesis
    by (simp add: resolveCapabilitySession_def assms(4) dir_ok_id [OF assms(1,3)] guard_r_def linorder_not_less [symmetric])
qed

text \<open>
  A session acts until it ends.  After an exchange that answered a session, whatever runs, the session
  admits an operation as that capability at an instant before its expiry exactly when the capability has
  not been revoked and its allowlist, when it has one, names the operation or the operation is an
  attachment read it may make; at its expiry it admits nothing.
\<close>

theorem session_acts_until_it_ends:
  assumes "dir_ok st" and "host_exchange cx L ck secret mode presenter st = Inr (Some (SessionGranted i token x e), st1)"
    and "cap_run T tr st1 st2" and "T < x"
  shows "\<exists>row. capabilityByIdQuery i st2 = Some row \<and> cg_entity (the (capabilityGrantOf row)) = e \<and>
    (resolveCapabilitySession (capabilityTokenHash L token) now operation att st2 = Inr i \<longleftrightarrow>
      now < x \<and> cap_revoked_at row = None \<and>
      if_given (\<lambda>col. \<exists>listed. operation_listed col operation = Inr listed \<and>
        (listed \<or> att \<and> cap_attachments row = Some ''read'' \<and> operation \<in> set CAPABILITY_ATTACHMENT_READ_OPERATIONS)) (cap_operations row))"
proof -
  from assms(2) obtain who where ex: "exchangeCapability cx L (map_option (\<lambda>hs p. hs (Principal p) (cx_node cx)) (pk_holdings ck))
    (Some (\<lambda>p. allowedFor ck p (cx_node cx))) secret mode who (st\<lparr>passed := []\<rparr>) = Inr (Some (SessionGranted i token x e), st1)"
    by (rule host_exchange_Inr)
  have "moves (cx_at cx) (exchanged (Some (SessionGranted i token x e))) st st1" by (rule moves_passed [OF exchange_moves [OF ex]])
  with assms(1) have ok1: "dir_ok st1" by (simp add: moves_def)
  with cap_run_moves [OF assms(3)] have ok2: "dir_ok st2" by (simp add: moves_def)
  from ex show ?thesis
  proof (cases rule: exchange_cases)
    case (used row minter bd)
    note g = session_granted [OF used(7)] and fin = exchange_finish_cap [OF used(7)]
    from g(6) obtain s where s: "s \<in> set (cp_sessions st1)" "ss_token_hash s = capabilityTokenHash L token" "ss_capability_id s = i" "ss_expires_at s = x" by blast
    with cap_run_moves [OF assms(3)] ok1 assms(4) have s2: "s \<in> set (cp_sessions st2)" by (auto simp: moves_def)
    let ?r1 = "row\<lparr>cap_uses := cap_uses row + 1, cap_last_used_at := Some (cx_at cx)\<rparr>"
    have "?r1 \<in> set (cp_capabilities st1)" using exchange_rowD(1) [OF used(1)] fin(1) by (force simp: take_use_def update_where_def)
    with cap_run_moves [OF assms(3)] ok1 obtain r2 where r2: "r2 \<in> set (cp_capabilities st2)" "keeps ?r1 r2" by (auto simp: moves_def)
    note k = keeps_trans [OF keeps_use r2(2)]
    have row: "cap_id r2 = i" "cap_mode r2 = ''act''" "ulid_pattern i" "cg_entity (the (capabilityGrantOf r2)) = e"
      "if_given (\<lambda>y. x \<le> y) (cap_expires_at r2)" using keeps_cols [OF k] g used(6) by simp_all
    have live: "now < x \<Longrightarrow> capabilityLive r2 now \<longleftrightarrow> cap_revoked_at r2 = None"
      using row(5) by (auto simp: capabilityLive_def expires_after_def if_given_def split: option.splits)
    have "resolveCapabilitySession (capabilityTokenHash L token) now operation att st2 = Inr i \<longleftrightarrow>
      now < x \<and> cap_revoked_at r2 = None \<and>
      if_given (\<lambda>col. \<exists>listed. operation_listed col operation = Inr listed \<and>
        (listed \<or> att \<and> cap_attachments r2 = Some ''read'' \<and> operation \<in> set CAPABILITY_ATTACHMENT_READ_OPERATIONS)) (cap_operations r2)"
      using session_resolves [OF ok2 s2 r2(1), of now operation att] s row(1-3) live
      by (cases "cap_operations r2") (auto simp: monad_simps if_given_def)
    then show ?thesis using dir_ok_id [OF ok2 r2(1)] row(1,4) by auto
  qed simp_all
qed


theorem session_acts_until_it_ends_witness:
  "\<exists>m s token x s1. capability_mint demo_ctx demo_lib (\<lambda>_. True) demo_mint demo_directory = Inr (m, s) \<and>
     host_exchange demo_ctx demo_lib demo_evaluator ''sbcap_AQEB'' None None s = Inr (Some (SessionGranted (mc_id m) token x demo_facility), s1) \<and>
     resolveCapabilitySession (capabilityTokenHash demo_lib token) (cx_at demo_ctx) ''workorder/list'' False s1 = Inr (mc_id m) \<and>
     resolveCapabilitySession (capabilityTokenHash demo_lib token) x ''workorder/list'' False s1 \<noteq> Inr (mc_id m)"
proof -
  let ?x = "''2026-01-02T00:00:00.000Z''"
  obtain m s where 1: "capability_mint demo_ctx demo_lib (\<lambda>_. True) demo_mint demo_directory = Inr (m, s)" "dir_ok s" by (rule demo_minted)
  have "is_ok (bind_r (capability_mint demo_ctx demo_lib (\<lambda>_. True) demo_mint demo_directory) (\<lambda>(m, s).
      bind_r (host_exchange demo_ctx demo_lib demo_evaluator ''sbcap_AQEB'' None None s) (\<lambda>(a, s1).
        guard_r (a = Some (SessionGranted (mc_id m) ''sbses_AwMD'' ?x demo_facility) \<and>
          (case capabilityByIdQuery (mc_id m) s1 of None \<Rightarrow> False
           | Some r \<Rightarrow> cap_revoked_at r = None \<and> cap_operations r = Some (Some (JArr [JStr ''workorder/list''])))) (PlainError []))))"
    by code_simp
  with 1(1) obtain s1 r where 2: "host_exchange demo_ctx demo_lib demo_evaluator ''sbcap_AQEB'' None None s = Inr (Some (SessionGranted (mc_id m) ''sbses_AwMD'' ?x demo_facility), s1)"
    and r: "capabilityByIdQuery (mc_id m) s1 = Some r" "cap_revoked_at r = None" "cap_operations r = Some (Some (JArr [JStr ''workorder/list'']))"
    by (auto simp: is_ok_iff monad_simps split: option.split_asm)
  have now: "cx_at demo_ctx < ?x" by code_simp
  have "resolveCapabilitySession (capabilityTokenHash demo_lib ''sbses_AwMD'') (cx_at demo_ctx) ''workorder/list'' False s1 = Inr (mc_id m)"
    using session_acts_until_it_ends [OF 1(2) 2 run_nil now, of "cx_at demo_ctx" "''workorder/list''" False] r now
    by (auto simp: if_given_def operation_listed_def)
  moreover have "resolveCapabilitySession (capabilityTokenHash demo_lib ''sbses_AwMD'') ?x ''workorder/list'' False s1 \<noteq> Inr (mc_id m)"
    using session_acts_until_it_ends [OF 1(2) 2 run_nil now, of ?x "''workorder/list''" False] by auto
  ultimately show ?thesis using 1(1) 2 by blast
qed

section \<open>An invitation\<close>

definition demo_team :: checker_deps where
  "demo_team = demo_deps\<lparr>db_directory := [(''T1'', demo_row (''principal:'' @ demo_p2) ''granted:workorder:read'' ''tenant:T1''),
     (''T1'', demo_row (''principal:'' @ demo_p3) ''granted:workorder:read'' ''tenant:T1'')]\<rparr>"

abbreviation team_evaluator :: permission_checker where
  "team_evaluator \<equiv> evaluator (createTupleChecker demo_team)"

definition demo_invite :: become_input where
  "demo_invite = \<lparr>bi_principal = demo_p3, bi_expiresAt = None, bi_maxUses = 1, bi_label = None, bi_bind = None\<rparr>"

lemma demo_team_ok: "store_ok demo_team" by code_simp

lemma demo_hash_inj: "inj_on (cl_sha256 demo_lib) A"
proof (rule inj_onI)
  fix x y assume "cl_sha256 demo_lib x = cl_sha256 demo_lib y"
  then have eq: "map (\<lambda>c. word_of_nat (of_char c) :: 8 word) x = map (\<lambda>c. word_of_nat (of_char c)) y" by (simp add: demo_lib_def)
  have "inj (\<lambda>c. word_of_nat (of_char c) :: 8 word)"
  proof (rule injI)
    fix c d :: char assume "(word_of_nat (of_char c) :: 8 word) = word_of_nat (of_char d)"
    then have "unat (word_of_nat (of_char c) :: 8 word) = unat (word_of_nat (of_char d) :: 8 word)" by simp
    moreover have "(of_char c' :: nat) < 256" for c' using nat_of_char_less_256 by simp
    ultimately have "(of_char c :: nat) = of_char d" by (simp add: unat_of_nat)
    then show "c = d" by simp
  qed
  with eq show "x = y" by (simp add: inj_map_eq_map)
qed

fun minted_r :: "'v bounded \<times> 's \<Rightarrow> ('v \<times> 's) result" where
  "minted_r (Granted v, s) = Inr (v, s)"
| "minted_r (a, s) = Inl (PlainError [])"

lemma minted_r_Inr [monad_simps]: "minted_r x = Inr (v, s) \<longleftrightarrow> x = (Granted v, s)"
  by (induction x rule: minted_r.induct) auto

lemma demo_invited:
  obtains m s s1 where "mintBecomeCapabilityBounded demo_ctx demo_lib team_evaluator demo_p2 demo_invite demo_directory = Inr (Granted m, s)"
    "host_exchange demo_ctx demo_lib team_evaluator (mc_secret m) (Some ''become'') None s = Inr (Some (YieldsPrincipal (mc_id m) demo_p3 None), s1)"
proof -
  have "is_ok (bind_r (mintBecomeCapabilityBounded demo_ctx demo_lib team_evaluator demo_p2 demo_invite demo_directory) (\<lambda>x.
    bind_r (minted_r x) (\<lambda>(m, s).
    bind_r (host_exchange demo_ctx demo_lib team_evaluator (mc_secret m) (Some ''become'') None s) (\<lambda>(x, s1).
        guard_r (x = Some (YieldsPrincipal (mc_id m) demo_p3 None)) (PlainError [])))))" by code_simp
  then show thesis by (auto simp: is_ok_iff monad_simps intro: that)
qed

section \<open>Becoming a principal\<close>

lemma covers_narrowed_none:
  "covers_narrowed ck caller n xs missing = Inr [] \<Longrightarrow>
   missing = [] \<and> (\<forall>(p, e) \<in> set xs. \<exists>d. pk_check ck (Principal caller) p n (Some e) = Inr d \<and> allowed d)"
proof (induction xs arbitrary: missing)
  case (Cons x xs)
  obtain p e where x: "x = (p, e)" by (cases x)
  show ?case
  proof (cases "p \<in> set missing")
    case True
    with Cons x show ?thesis by fastforce
  next
    case False
    with Cons.prems x obtain d where d: "pk_check ck (Principal caller) p n (Some e) = Inr d"
      "covers_narrowed ck caller n xs (if allowed d then missing else missing @ [p]) = Inr []" by (auto simp: monad_simps)
    from Cons.IH [OF d(2)] d(1) x show ?thesis by (auto split: if_splits)
  qed
qed simp

lemma coversHoldings_none:
  assumes "coversHoldings ck caller held n = Inr None"
  shows "pk_covers ck (Principal caller) (h_permissions held) n = Inr Covered \<or>
      (\<exists>m. pk_covers ck (Principal caller) (h_permissions held) n = Inr (NotCovered m) \<and> set m = {})"
    "\<forall>(p, e) \<in> set (h_narrowed held). \<exists>d. pk_check ck (Principal caller) p n (Some e) = Inr d \<and> allowed d"
proof -
  from assms obtain c where c: "pk_covers ck (Principal caller) (h_permissions held) n = Inr c"
    "covers_narrowed ck caller n (h_narrowed held) (case c of Covered \<Rightarrow> [] | NotCovered m \<Rightarrow> unique_in_order m) = Inr []"
    by (auto simp: coversHoldings_def monad_simps split: if_splits)
  note n = covers_narrowed_none [OF c(2)]
  then show "\<forall>(p, e) \<in> set (h_narrowed held). \<exists>d. pk_check ck (Principal caller) p n (Some e) = Inr d \<and> allowed d" by blast
  from n have "(case c of Covered \<Rightarrow> [] | NotCovered m \<Rightarrow> unique_in_order m) = []" by blast
  with c(1) show "pk_covers ck (Principal caller) (h_permissions held) n = Inr Covered \<or>
      (\<exists>m. pk_covers ck (Principal caller) (h_permissions held) n = Inr (NotCovered m) \<and> set m = {})"
    by (cases c) (auto simp: unique_in_order_def)
qed

lemma covers_missing_nonempty: "covers rd s required n = Inr (NotCovered m) \<Longrightarrow> m \<noteq> []"
proof -
  assume "covers rd s required n = Inr (NotCovered m)"
  with sq.fold_set_add_ne [of required] show ?thesis
    by (cases s) (auto simp: covers_def coverageOf_def Let_def monad_simps split: if_splits)
qed

lemma becomeMintCheck_Granted:
  assumes "becomeMintCheck L (evaluator rd) caller target n bind st = Inr (Granted digest)"
  obtains held where "holdings_at rd (Principal target) n = Inr held" "h_permissions held \<noteq> []" "digest = holdingsDigest L held"
    "covers rd (Principal caller) (h_permissions held) n = Inr Covered" "\<not> becomeClaimed target st"
    "\<forall>(p, e) \<in> set (h_narrowed held). \<exists>d. check rd (Principal caller) p n (Some e) = Inr d \<and> allowed d"
    "if_given (\<lambda>e. \<exists>b. judgeBind (allowedFor (evaluator rd) caller n) e st = Inr (Bindable b)) bind"
proof -
  from assms obtain held lacks where 1: "\<not> becomeClaimed target st" "holdings_at rd (Principal target) n = Inr held" "h_permissions held \<noteq> []"
    "coversHoldings (evaluator rd) caller held n = Inr lacks"
    by (auto simp: becomeMintCheck_def evaluator_def monad_simps split: if_splits)
  with assms have l: "lacks = None" by (cases lacks) (auto simp: becomeMintCheck_def evaluator_def monad_simps)
  note c = coversHoldings_none [OF 1(4) [unfolded l]]
  have "covers rd (Principal caller) (h_permissions held) n = Inr Covered" using c(1) by (auto simp: evaluator_def dest: covers_missing_nonempty)
  moreover have "digest = holdingsDigest L held \<and> if_given (\<lambda>e. \<exists>b. judgeBind (allowedFor (evaluator rd) caller n) e st = Inr (Bindable b)) bind"
  proof (cases bind)
    case None
    with assms 1 l show ?thesis by (auto simp: becomeMintCheck_def evaluator_def monad_simps if_given_def)
  next
    case (Some e)
    with assms 1 l obtain j where j: "judgeBind (allowedFor (evaluator rd) caller n) e st = Inr j" "of_judgement j (holdingsDigest L held) = Granted digest"
      by (auto simp: becomeMintCheck_def monad_simps evaluator_def)
    with Some show ?thesis by (cases j) (auto simp: if_given_def)
  qed
  ultimately show thesis using 1 c(2) by (intro that [of held]) (auto simp: evaluator_def)
qed


lemma become_granted:
  assumes "store_ok deps"
    and "mintBecomeCapabilityBounded cx L (evaluator (createTupleChecker deps)) caller input st = Inr (Granted m, st')"
  shows "\<exists>held r. holdings_at (createTupleChecker deps) (Principal (bi_principal input)) (cx_node cx) = Inr held \<and> h_permissions held \<noteq> [] \<and>
    (\<forall>p \<in> set (h_permissions held). \<exists>pf. check (createTupleChecker deps) (Principal caller) p (cx_node cx) None = Inr (Allowed pf)) \<and>
    (\<forall>(p, e) \<in> set (h_narrowed held). \<exists>d. check (createTupleChecker deps) (Principal caller) p (cx_node cx) (Some e) = Inr d \<and> allowed d) \<and>
    \<not> becomeClaimed (bi_principal input) st \<and> cp_capabilities st' = cp_capabilities st @ [r] \<and>
    cap_id r = mc_id m \<and> cap_token_hash r = capabilityTokenHash L (mc_secret m) \<and> cap_mode r = ''become'' \<and>
    cap_principal r = Some (bi_principal input) \<and> cap_minted_by r = Some (JStr caller) \<and> cap_max_uses r = Some (bi_maxUses input) \<and>
    cap_target_digest r = Some (storedDigest L r held) \<and> tuples st' = tuples st \<and> cp_sessions st' = cp_sessions st \<and> ulid_pattern caller"
proof (cases rule: mintBecomeBounded_Inr [OF assms(2)])
  case (2 parsed digest m')
  have given: "bi_principal parsed = bi_principal input" "bi_bind parsed = bi_bind input" "bi_maxUses parsed = bi_maxUses input"
    using 2(2) by (auto simp: principalBecomeCapabilityInput_def become_fields_def monad_simps)
  from 2(3) obtain held where h: "holdings_at (createTupleChecker deps) (Principal (bi_principal parsed)) (cx_node cx) = Inr held" "h_permissions held \<noteq> []"
    "digest = holdingsDigest L held" "covers (createTupleChecker deps) (Principal caller) (h_permissions held) (cx_node cx) = Inr Covered"
    "\<not> becomeClaimed (bi_principal parsed) st"
    "\<forall>(p, e) \<in> set (h_narrowed held). \<exists>d. check (createTupleChecker deps) (Principal caller) p (cx_node cx) (Some e) = Inr d \<and> allowed d"
    by (rule becomeMintCheck_Granted)
  note node = h(4) [unfolded sq.covers_iff_checks [OF store_reader_ok [OF assms(1)]]]
  let ?cx = "host_ctx cx (Principal caller) CAPABILITY_BECOME_MINT_OPERATION"
  from 2(4) obtain input' st1 ev where 3: "become_fields L parsed = Inr input'"
    "insertBecome ?cx L input' (ByPrincipal caller) (Some (if bi_bind input' \<noteq> None then BIND_DIGEST_PREFIX @ digest else digest))
       (bi_bind input') ''become'' (st\<lparr>passed := []\<rparr>) = Inr (m', st1)" and em: "writeEvent ?cx KernelAuthor ev st1 = Inr st'"
    by (auto simp: mintBecomeCapabilityAsPrincipal_def principalBecomeCapabilityInput_def monad_simps)
  have parsed: "bi_principal input' = bi_principal input" "bi_bind input' = bi_bind input" "bi_maxUses input' = bi_maxUses input"
    using 3(1) given by (auto simp: become_fields_def monad_simps)
  note row = insertBecome_Inr [OF 3(2)] and e = writeEvent_cap [OF em]
  have "cp_capabilities st' = cp_capabilities st @ [become_row input' (mc_id m') (capabilityTokenHash L (mc_secret m')) (ByPrincipal caller) (cx_at ?cx)
      (Some (if bi_bind input' \<noteq> None then BIND_DIGEST_PREFIX @ digest else digest)) (bi_bind input') ''become'']"
    "tuples st' = tuples st" "cp_sessions st' = cp_sessions st" using row e by simp_all
  moreover have "ulid_pattern caller" using assms(2) by (simp add: mintBecomeCapabilityBounded_def monad_simps)
  ultimately show ?thesis using node h 2(1) given parsed
    by (intro exI [of _ held]) (auto simp: become_row_def storedDigest_def)
qed (use assms(2) in auto)


text \<open>
  C5. Becoming someone never elevates.  A principal's \<open>become\<close> mint is granted only for a target that holds
  something at the node and into which no link has yet been exchanged, and only to a caller whom the
  checker allows every permission the target holds at the node, and every entity-narrowed grant on that
  entity.  It adds one link, which records the caller as its minter and the digest of those holdings,
  and grants nothing by itself.
\<close>

theorem become_mint_never_elevates:
  assumes "store_ok deps"
    and "mintBecomeCapabilityBounded cx L (evaluator (createTupleChecker deps)) caller input st = Inr (Granted m, st')"
  shows "\<exists>held r. holdings_at (createTupleChecker deps) (Principal (bi_principal input)) (cx_node cx) = Inr held \<and> h_permissions held \<noteq> [] \<and>
    (\<forall>p \<in> set (h_permissions held). \<exists>pf. check (createTupleChecker deps) (Principal caller) p (cx_node cx) None = Inr (Allowed pf)) \<and>
    (\<forall>(p, e) \<in> set (h_narrowed held). \<exists>d. check (createTupleChecker deps) (Principal caller) p (cx_node cx) (Some e) = Inr d \<and> allowed d) \<and>
    \<not> becomeClaimed (bi_principal input) st \<and> cp_capabilities st' = cp_capabilities st @ [r] \<and>
    cap_id r = mc_id m \<and> cap_token_hash r = capabilityTokenHash L (mc_secret m) \<and> cap_mode r = ''become'' \<and>
    cap_principal r = Some (bi_principal input) \<and> cap_minted_by r = Some (JStr caller) \<and> cap_max_uses r = Some (bi_maxUses input) \<and>
    cap_target_digest r = Some (storedDigest L r held) \<and> tuples st' = tuples st \<and> cp_sessions st' = cp_sessions st"
  using become_granted [OF assms] by blast

theorem become_mint_never_elevates_witness:
  "\<exists>m s. mintBecomeCapabilityBounded demo_ctx demo_lib team_evaluator demo_p2 demo_invite demo_directory = Inr (Granted m, s) \<and>
     (\<exists>pf. check (createTupleChecker demo_team) (Principal demo_p2) ''workorder:read'' demo_node None = Inr (Allowed pf))"
proof -
  obtain m s where m: "mintBecomeCapabilityBounded demo_ctx demo_lib team_evaluator demo_p2 demo_invite demo_directory = Inr (Granted m, s)" by (rule demo_invited)
  have "holdings_at (createTupleChecker demo_team) (Principal (bi_principal demo_invite)) (cx_node demo_ctx) =
      Inr \<lparr>h_permissions = [''workorder:read''], h_roles = [], h_granted = [''workorder:read''], h_narrowed = []\<rparr>" by code_simp
  with become_mint_never_elevates [OF demo_team_ok m] m show ?thesis by (auto simp: demo_ctx_def)
qed


section \<open>The digest of holdings\<close>

lemma hex_digit_inj: "m < 16 \<Longrightarrow> n < 16 \<Longrightarrow> hex_digit m = hex_digit n \<longleftrightarrow> m = n"
proof -
  assume "m < 16" "n < 16"
  moreover have "distinct ''0123456789abcdef''" "length ''0123456789abcdef'' = 16" by simp_all
  ultimately show ?thesis unfolding hex_digit_def by (metis nth_eq_iff_index_eq)
qed

lemma split_16: "m div 16 = n div 16 \<Longrightarrow> m mod 16 = n mod 16 \<Longrightarrow> m = (n :: nat)"
  by (metis div_mult_mod_eq)

lemma hex_inj:
  "concat (map (\<lambda>b. [hex_digit (unat b div 16), hex_digit (unat b mod 16)]) xs) =
   concat (map (\<lambda>b. [hex_digit (unat b div 16), hex_digit (unat b mod 16)]) ys) \<Longrightarrow> xs = (ys :: 8 word list)"
proof (induction xs arbitrary: ys)
  case (Cons x xs)
  then obtain y ys' where ys: "ys = y # ys'" by (cases ys) auto
  have lt: "unat b div 16 < 16" "unat b mod 16 < 16" for b :: "8 word"
  proof -
    have "unat b < 2 ^ LENGTH(8)" by (rule unsigned_less)
    then show "unat b div 16 < 16" "unat b mod 16 < 16" by simp_all
  qed
  from Cons.prems ys lt have "unat x div 16 = unat y div 16" "unat x mod 16 = unat y mod 16" by (simp_all add: hex_digit_inj)
  then have "x = y" using split_16 word_unat_eq_iff by blast
  with Cons ys show ?case by simp
qed (simp add: concat_eq_Nil_conv)

lemma json_escape_prefix:
  assumes "json_escape c @ x = json_escape d @ y"
  shows "c = d \<and> x = y"
proof -
  have u: "c = d" if "(of_char c :: nat) < 32" "(of_char d :: nat) < 32"
    "hex_digit (of_char c div 16) = hex_digit (of_char d div 16)" "hex_digit (of_char c mod 16) = hex_digit (of_char d mod 16)"
  proof -
    have "(of_char c :: nat) div 16 = of_char d div 16" "(of_char c :: nat) mod 16 = of_char d mod 16"
      using that by (simp_all add: hex_digit_inj)
    then have "(of_char c :: nat) = of_char d" by (rule split_16)
    then show ?thesis by simp
  qed
  show ?thesis using assms u by (simp add: json_escape_def split: if_split_asm)
qed

lemma json_escape_head: "json_escape c = e # es \<Longrightarrow> e \<noteq> CHR 0x22" "json_escape c \<noteq> []"
  by (auto simp: json_escape_def split: if_split_asm)

lemma json_body_prefix:
  "concat (map json_escape s) @ CHR 0x22 # x = concat (map json_escape s') @ CHR 0x22 # y \<Longrightarrow> s = s' \<and> x = y"
proof (induction s arbitrary: s')
  case Nil
  show ?case
  proof (cases s')
    case (Cons d ds)
    obtain e es where "json_escape d = e # es" using json_escape_head(2) [of d] by (cases "json_escape d") auto
    with Nil Cons json_escape_head(1) show ?thesis by auto
  qed (use Nil in simp)
next
  case (Cons c cs)
  show ?case
  proof (cases s')
    case Nil
    obtain e es where "json_escape c = e # es" using json_escape_head(2) [of c] by (cases "json_escape c") auto
    with Nil Cons.prems json_escape_head(1) show ?thesis by auto
  next
    case s': (Cons d ds)
    from Cons.prems s' have "json_escape c @ (concat (map json_escape cs) @ CHR 0x22 # x) = json_escape d @ (concat (map json_escape ds) @ CHR 0x22 # y)" by simp
    from json_escape_prefix [OF this] Cons.IH [of ds] s' show ?thesis by simp
  qed
qed

lemma json_quote_prefix: "json_quote s @ x = json_quote s' @ y \<Longrightarrow> s = s' \<and> x = y"
  using json_body_prefix [of s x s' y] by (simp add: json_quote_def)

lemma join_cons: "join sep (x # xs) = x @ (if xs = [] then [] else sep @ join sep xs)"
  by (cases xs) simp_all

lemma json_strings_body:
  "join '','' (map json_quote xs) @ '']'' @ u = join '','' (map json_quote ys) @ '']'' @ v \<Longrightarrow> xs = ys \<and> u = v"
proof (induction xs arbitrary: ys)
  case Nil
  then show ?case by (cases ys) (simp_all add: join_cons json_quote_def)
next
  case (Cons a as)
  show ?case
  proof (cases ys)
    case Nil
    with Cons.prems show ?thesis by (simp add: join_cons json_quote_def)
  next
    case ys: (Cons b bs)
    from Cons.prems ys have "json_quote a @ ((if as = [] then [] else '','' @ join '','' (map json_quote as)) @ '']'' @ u) =
      json_quote b @ ((if bs = [] then [] else '','' @ join '','' (map json_quote bs)) @ '']'' @ v)" by (simp add: join_cons)
    from json_quote_prefix [OF this] Cons.IH [of bs] ys show ?thesis by (auto split: if_splits)
  qed
qed

lemma json_strings_prefix: "json_strings xs @ u = json_strings ys @ v \<Longrightarrow> xs = ys \<and> u = v"
  using json_strings_body [of xs u ys v] by (simp add: json_strings_def)

lemma canonical_holdings_inj:
  assumes "canonical_holdings held = canonical_holdings held'"
  shows "set (h_roles held) = set (h_roles held') \<and> set (h_granted held) = set (h_granted held') \<and>
    narrowed_text ` set (h_narrowed held) = narrowed_text ` set (h_narrowed held')"
proof -
  have set: "set (sorted_set xs) = set xs" for xs by (simp add: sorted_set_def)
  let ?g = "\<lambda>h. '','' @ json_quote ''granted'' @ '':'' @ json_strings (sorted_set (h_granted h))"
  let ?n = "\<lambda>h. '','' @ json_quote ''narrowed'' @ '':'' @ json_strings (sorted_set (map narrowed_text (h_narrowed h))) @ ''}''"
  from assms have "json_strings (sorted_set (h_roles held)) @ (?g held @ ?n held) = json_strings (sorted_set (h_roles held')) @ (?g held' @ ?n held')"
    by (simp add: canonical_holdings_def)
  from json_strings_prefix [OF this] have r: "sorted_set (h_roles held) = sorted_set (h_roles held')"
    and "json_strings (sorted_set (h_granted held)) @ ?n held = json_strings (sorted_set (h_granted held')) @ ?n held'" by simp_all
  from json_strings_prefix [OF this(2)] have g: "sorted_set (h_granted held) = sorted_set (h_granted held')"
    and "json_strings (sorted_set (map narrowed_text (h_narrowed held))) @ ''}'' = json_strings (sorted_set (map narrowed_text (h_narrowed held'))) @ ''}''"
    by simp_all
  from json_strings_prefix [OF this(2)] have n: "sorted_set (map narrowed_text (h_narrowed held)) = sorted_set (map narrowed_text (h_narrowed held'))" by simp
  show ?thesis using arg_cong [OF r, of set] arg_cong [OF g, of set] arg_cong [OF n, of set] by (simp add: set)
qed


lemma keeps_link:
  assumes "keeps r r'"
  shows "cap_target_digest r' = cap_target_digest r" "cap_minted_by r' = cap_minted_by r" "cap_action r' = cap_action r"
  using assms by (auto simp: keeps_def)

lemma yielded_holdings:
  assumes "exchange_holdings L holdings row (Some minter) presenter now st = Inr (True, st)" and "cap_mode row = ''become''"
  obtains hs held where "holdings = Some hs" "record_principal row = Inr (the (cap_principal row))" "hs (the (cap_principal row)) = Inr held"
    "cap_target_digest row = Some (storedDigest L row held)"
  using assms by (auto simp: exchange_holdings_def record_principal_def monad_simps split: option.split_asm if_split_asm)

text \<open>
  C6. A principal's link yields only what was judged.  When a \<open>become\<close> link a principal minted is exchanged,
  whatever ran in between, its principal holds at that moment the same roles, the same direct grants and
  the same entity-narrowed grants as when the mint was bounded.  SHA-256 is assumed not to collide on the
  texts holdings are written as.
\<close>

theorem become_yields_what_was_judged:
  assumes "store_ok deps" and "dir_ok st"
    and "mintBecomeCapabilityBounded cx L (evaluator (createTupleChecker deps)) caller input st = Inr (Granted m, st1)"
    and "cap_run T tr st1 st2"
    and "host_exchange cx' L (evaluator rd') secret mode presenter st2 = Inr (Some (YieldsPrincipal (mc_id m) p b), st3)"
    and "inj_on (cl_sha256 L) {canonical_holdings held | held.
           holdings_at (createTupleChecker deps) (Principal (bi_principal input)) (cx_node cx) = Inr held \<or>
           holdings_at rd' (Principal (bi_principal input)) (cx_node cx') = Inr held}"
  shows "p = bi_principal input \<and>
    (\<exists>held held'. holdings_at (createTupleChecker deps) (Principal p) (cx_node cx) = Inr held \<and> holdings_at rd' (Principal p) (cx_node cx') = Inr held' \<and>
      set (h_roles held') = set (h_roles held) \<and> set (h_granted held') = set (h_granted held) \<and>
      narrowed_text ` set (h_narrowed held') = narrowed_text ` set (h_narrowed held))"
proof -
  from become_granted [OF assms(1,3)] obtain held r where
    h: "holdings_at (createTupleChecker deps) (Principal (bi_principal input)) (cx_node cx) = Inr held"
    and new: "cp_capabilities st1 = cp_capabilities st @ [r]" and r0: "cap_id r = mc_id m" "cap_mode r = ''become''" "cap_principal r = Some (bi_principal input)"
      "cap_minted_by r = Some (JStr caller)" "cap_target_digest r = Some (storedDigest L r held)" "ulid_pattern caller" by blast
  have "r \<in> set (cp_capabilities st1)" using new by simp
  note r = this r0
  have ok1: "dir_ok st1" using mintBecomeBounded_moves [OF assms(3)] assms(2) by (simp add: moves_def)
  with cap_run_moves [OF assms(4)] r(1) obtain r2 where r2: "r2 \<in> set (cp_capabilities st2)" "keeps r r2" and ok2: "dir_ok st2" by (auto simp: moves_def)
  from assms(5) obtain who where ex: "exchangeCapability cx' L (map_option (\<lambda>hs p. hs (Principal p) (cx_node cx')) (pk_holdings (evaluator rd')))
    (Some (\<lambda>p. allowedFor (evaluator rd') p (cx_node cx'))) secret mode who (st2\<lparr>passed := []\<rparr>) = Inr (Some (YieldsPrincipal (mc_id m) p b), st3)"
    by (rule host_exchange_Inr)
  from ex show ?thesis
  proof (cases rule: exchange_cases)
    case (used row minter bd)
    have id: "cap_id row = mc_id m" using exchange_finish_cap(2) [OF used(7)] by (simp add: exchanged_def)
    have row: "row = r2" using use_rows [OF ok2 r2(1), of row] exchange_rowD(1) [OF used(1)] id r(2) keeps_cols(1) [OF r2(2)] by simp
    note k = keeps_cols [OF r2(2)] keeps_link [OF r2(2)]
    have minter: "minter = Some caller" using used(2) k r(5,7) row by (simp add: minter_of_def json_column_def parse_as_def monad_simps)
    have mode: "cap_mode row = ''become''" using k(4) row r(3) by simp
    from used(3) [unfolded minter] mode obtain hs held' where y: "map_option (\<lambda>hs p. hs (Principal p) (cx_node cx')) (pk_holdings (evaluator rd')) = Some hs"
      "hs (the (cap_principal row)) = Inr held'" "cap_target_digest row = Some (storedDigest L row held')" "record_principal row = Inr (the (cap_principal row))"
      by (rule yielded_holdings)
    have pr: "cap_principal row = Some (bi_principal input)" using k(7) row r(4) by simp
    have p: "p = bi_principal input"
      using used(7) mode y(4) pr by (auto simp: exchange_finish_def exchange_become_mode_def monad_simps split: option.split_asm)
    have "storedDigest L row held' = storedDigest L r held" using y(3) k(10) r(6) row by simp
    then have "capabilityTokenHash L (canonical_holdings held') = capabilityTokenHash L (canonical_holdings held)"
      using k(12) row by (simp add: storedDigest_def holdingsDigest_def split: if_splits)
    then have "cl_sha256 L (canonical_holdings held') = cl_sha256 L (canonical_holdings held)" unfolding capabilityTokenHash_def by (rule hex_inj)
    moreover have "holdings_at rd' (Principal (bi_principal input)) (cx_node cx') = Inr held'" using y(1,2) pr by (auto simp: evaluator_def)
    ultimately have "canonical_holdings held' = canonical_holdings held" using assms(6) h by (auto dest: inj_onD)
    from canonical_holdings_inj [OF this] h y(1,2) pr p show ?thesis by (auto simp: evaluator_def)
  qed simp_all
qed


theorem become_yields_what_was_judged_witness:
  "\<exists>m s s1. mintBecomeCapabilityBounded demo_ctx demo_lib team_evaluator demo_p2 demo_invite demo_directory = Inr (Granted m, s) \<and>
     host_exchange demo_ctx demo_lib team_evaluator (mc_secret m) (Some ''become'') None s = Inr (Some (YieldsPrincipal (mc_id m) demo_p3 None), s1) \<and>
     (\<exists>held. holdings_at (createTupleChecker demo_team) (Principal demo_p3) demo_node = Inr held)"
proof -
  obtain m s s1 where 1: "mintBecomeCapabilityBounded demo_ctx demo_lib team_evaluator demo_p2 demo_invite demo_directory = Inr (Granted m, s)"
    "host_exchange demo_ctx demo_lib team_evaluator (mc_secret m) (Some ''become'') None s = Inr (Some (YieldsPrincipal (mc_id m) demo_p3 None), s1)"
    by (rule demo_invited)
  have "dir_ok demo_directory" by (simp add: dir_ok_def demo_directory_def)
  from become_yields_what_was_judged [OF demo_team_ok this 1(1) run_nil 1(2) demo_hash_inj] 1 show ?thesis by (auto simp: demo_ctx_def)
qed

section \<open>A second key\<close>










text \<open>
  The digest names roles by key, so redefining a role does not end a link: here the role of the target
  is widened after the mint, the link is still exchanged, and the principal it yields is allowed what
  the minter was never allowed.
\<close>

definition demo_roles :: checker_deps where
  "demo_roles = demo_deps\<lparr>db_directory := [(''T1'', demo_row (''principal:'' @ demo_p2) ''granted:workorder:read'' ''tenant:T1''), (''T1'', demo_row (''principal:'' @ demo_p3) ''role:staff'' ''tenant:T1'')]\<rparr>"

definition demo_widened :: checker_deps where
  "demo_widened = demo_roles\<lparr>db_roles := [((''T1'', ''staff''), \<lparr>role_key = ''staff'', role_permissions = [''workorder:read'', ''workorder:close'']\<rparr>)]\<rparr>"

lemma role_redefinition_keeps_link:
  "\<exists>m s s1 pf. mintBecomeCapabilityBounded demo_ctx demo_lib (evaluator (createTupleChecker demo_roles)) demo_p2 demo_invite demo_directory = Inr (Granted m, s) \<and>
     host_exchange demo_ctx demo_lib (evaluator (createTupleChecker demo_widened)) (mc_secret m) (Some ''become'') None s =
       Inr (Some (YieldsPrincipal (mc_id m) demo_p3 None), s1) \<and>
     check (createTupleChecker demo_widened) (Principal demo_p3) ''workorder:close'' demo_node None = Inr (Allowed pf) \<and>
     check (createTupleChecker demo_widened) (Principal demo_p2) ''workorder:close'' demo_node None = Inr (Denied ''workorder:close'' demo_node)"
proof -
  have "is_ok (bind_r (mintBecomeCapabilityBounded demo_ctx demo_lib (evaluator (createTupleChecker demo_roles)) demo_p2 demo_invite demo_directory) (\<lambda>a.
    bind_r (minted_r a) (\<lambda>(m, s).
    bind_r (host_exchange demo_ctx demo_lib (evaluator (createTupleChecker demo_widened)) (mc_secret m) (Some ''become'') None s) (\<lambda>(x, s1).
      guard_r (x = Some (YieldsPrincipal (mc_id m) demo_p3 None)) (PlainError [])))))" by code_simp
  then obtain m s s1 where 1: "mintBecomeCapabilityBounded demo_ctx demo_lib (evaluator (createTupleChecker demo_roles)) demo_p2 demo_invite demo_directory = Inr (Granted m, s)"
    "host_exchange demo_ctx demo_lib (evaluator (createTupleChecker demo_widened)) (mc_secret m) (Some ''become'') None s = Inr (Some (YieldsPrincipal (mc_id m) demo_p3 None), s1)"
    by (auto simp: is_ok_iff monad_simps)
  have "case check (createTupleChecker demo_widened) (Principal demo_p3) ''workorder:close'' demo_node None of Inr d \<Rightarrow> allowed d | Inl e \<Rightarrow> False" by code_simp
  then obtain pf where 2: "check (createTupleChecker demo_widened) (Principal demo_p3) ''workorder:close'' demo_node None = Inr (Allowed pf)"
    by (auto elim: allowed.elims split: sum.splits)
  have 3: "check (createTupleChecker demo_widened) (Principal demo_p2) ''workorder:close'' demo_node None = Inr (Denied ''workorder:close'' demo_node)" by code_simp
  from 1 2 3 show ?thesis by blast
qed


end
