(* ===== verification/Entity_Claims.thy ===== *)
theory Entity_Claims
  imports Capability_Safety
begin

text \<open>
  What a binding shape promises: a claim binds exactly a record that exists once, names nobody and is
  held by nobody; an unbind frees it again; and the state a link is reported in is what its exchange
  will answer.
\<close>

section \<open>A person's record\<close>

definition demo_person :: entity_ref where
  "demo_person = \<lparr>entityType = ''person'', entityId = ''E1''\<rparr>"

definition demo_people :: cap_store where
  "demo_people = demo_directory\<lparr>
     tuples := [demo_row ''shape:person'' ''shape-bind-holder'' ''people.id.who'', demo_row ''shape:person'' ''shape-bind-permission'' ''workorder:read'',
       demo_row ''shape:person'' ''shape-bind-key'' ''granted:workorder:list''],
     cp_tables := [(''people'', [[(''id'', Some ''E1''), (''who'', None)]])]\<rparr>"

definition demo_bind :: bind_link_input where
  "demo_bind = \<lparr>bl_principal = demo_p3, bl_entity = demo_person, bl_expiresAt = None, bl_label = None\<rparr>"

lemma demo_claimed:
  obtains m s s1 us ls s2 where "mintBindLinkBounded demo_ctx demo_lib team_evaluator demo_p2 demo_bind demo_people = Inr (Granted m, s)"
    "host_exchange demo_ctx demo_lib team_evaluator (mc_secret m) (Some ''bind'') (Some demo_p3) s = Inr (Some (YieldsPrincipal (mc_id m) demo_p3 (Some demo_person)), s1)"
    "unbindEntityHolderBounded demo_ctx team_evaluator demo_p2 demo_person s1 = Inr (Unbound us ls, s2)" "us = [demo_p3]"
proof -
  have "is_ok (bind_r (mintBindLinkBounded demo_ctx demo_lib team_evaluator demo_p2 demo_bind demo_people) (\<lambda>a.
    bind_r (minted_r a) (\<lambda>(m, s).
    bind_r (host_exchange demo_ctx demo_lib team_evaluator (mc_secret m) (Some ''bind'') (Some demo_p3) s) (\<lambda>(x, s1).
    bind_r (unbindEntityHolderBounded demo_ctx team_evaluator demo_p2 demo_person s1) (\<lambda>(u, s2).
      guard_r (x = Some (YieldsPrincipal (mc_id m) demo_p3 (Some demo_person)) \<and> u = Unbound [demo_p3] []) (PlainError []))))))" by code_simp
  then show thesis by (auto simp: is_ok_iff monad_simps intro: that)
qed

section \<open>The claim\<close>

lemma judgeBind_Bindable:
  assumes "judgeBind may e st = Inr (Bindable b)"
  obtains permission where "entityObjectRef e ''bind'' = Inr (ref_of e)" "entityBindingOf (entityType e) (tuples st) = Inr (Some (b, permission))"
    "may permission e = Inr True" "boundRecord b (entityId e) st = (1, None)" "\<not> heldBySomeone (ref_of e) (tuples st)"
proof -
  from assms obtain ob found where 1: "entityObjectRef e ''bind'' = Inr ob" "entityBindingOf (entityType e) (tuples st) = Inr found"
    by (auto simp: judgeBind_def monad_simps)
  then have ob: "ob = ref_of e" by (simp add: entityObjectRef_def split: if_splits)
  obtain b' permission where f: "found = Some (b', permission)" using assms 1 by (cases found) (auto simp: judgeBind_def monad_simps)
  with assms 1 obtain ok where ok: "may permission e = Inr ok" by (auto simp: judgeBind_def monad_simps)
  obtain n named where bd: "boundRecord b' (entityId e) st = (n, named)" by fastforce
  from assms 1 f ok bd ob have "ok" "b' = b" "n = 1" "named = None" "\<not> heldBySomeone (ref_of e) (tuples st)"
    by (auto simp: judgeBind_def split: if_splits)
  with 1 f ok bd ob show thesis by (intro that [of permission]) auto
qed

lemma map_of_updated: "map_of (map (\<lambda>(n, rows). (n, if n = name then f rows else rows)) xs) name = map_option f (map_of xs name)"
  by (induction xs) auto

lemma table_rows_update:
  "table_rows name (update_table name p c v st) = update_where p (AList.update c v) (table_rows name st)"
  by (simp add: table_rows_def update_table_def map_of_updated update_where_def split: option.split)

lemma tableExists_update [simp]: "tableExists n (update_table name p c v st) = tableExists n st"
  by (force simp: tableExists_def update_table_def)

lemma column_update: "column k (AList.update c v row) = (if k = c then v else column k row)"
  by (simp add: column_def AList.update_conv')

lemma boundRecord_Some: "0 < n \<Longrightarrow> boundRecord b eid st = (n, named) \<Longrightarrow> tableExists (eb_table b) st"
  by (auto simp: boundRecord_def split: if_splits)

lemma boundRecord_cong: "cp_tables st' = cp_tables st \<Longrightarrow> boundRecord b eid st' = boundRecord b eid st"
  by (simp add: boundRecord_def tableExists_def table_rows_def)

lemma claimed_record:
  assumes "boundRecord b eid st = (1, None)"
  shows "boundRecord b eid (update_table (eb_table b) (unclaimed b eid) (eb_principalColumn b) (Some who) st) = (1, Some who)"
proof -
  have ex: "tableExists (eb_table b) st" using boundRecord_Some [OF _ assms] by simp
  let ?rows = "table_rows (eb_table b) st" and ?id = "eb_idColumn b" and ?pc = "eb_principalColumn b"
  from assms ex have "length (filter (\<lambda>r. column ?id r = Some eid) ?rows) = 1"
    and none: "\<forall>r \<in> set ?rows. column ?id r = Some eid \<longrightarrow> column ?pc r = None"
    by (auto simp: boundRecord_def Let_def find_None_iff split: option.splits)
      (auto simp: find_Some_iff)
  then obtain r where r: "filter (\<lambda>r. column ?id r = Some eid) ?rows = [r]" by (auto simp: length_Suc_conv)
  have diff: "?id \<noteq> ?pc"
  proof
    assume "?id = ?pc"
    moreover have "r \<in> set ?rows" "column ?id r = Some eid" using r by (auto dest: filter_eq_ConsD simp: filter_eq_Cons_iff)
    ultimately show False using none by auto
  qed
  have "filter (\<lambda>r. column ?id r = Some eid) (update_where (unclaimed b eid) (AList.update ?pc (Some who)) rows) =
      map (AList.update ?pc (Some who)) (filter (\<lambda>r. column ?id r = Some eid) rows)"
    if "\<forall>r \<in> set rows. column ?id r = Some eid \<longrightarrow> column ?pc r = None" for rows
    using that diff by (induction rows) (auto simp: update_where_def unclaimed_def column_update)
  from this [OF none] show ?thesis using ex r by (simp add: boundRecord_def table_rows_update column_update)
qed

lemma explicitTuple_present: "\<exists>r \<in> set (explicitTuple s rel ob rows). tuple_key s rel ob r \<and> revoked_at r = None"
proof (cases "list_ex (tuple_key s rel ob) rows")
  case True
  then obtain r where r: "r \<in> set rows" "tuple_key s rel ob r" by (auto simp: list_ex_iff)
  let ?f = "\<lambda>r. if tuple_key s rel ob r \<and> revoked_at r \<noteq> None then r\<lparr>revoked_at := None, expires_at := None\<rparr> else r"
  have "?f r \<in> set (explicitTuple s rel ob rows)" using r(1) True by (auto simp: explicitTuple_def update_where_def)
  moreover have "tuple_key s rel ob (?f r)" "revoked_at (?f r) = None" using r(2) by (auto simp: tuple_key_def)
  ultimately show ?thesis by blast
qed (simp add: explicitTuple_def new_tuple_def tuple_key_def)

lemma explicitTuple_keeps:
  assumes "\<exists>r \<in> set rows. tuple_key s rel ob r \<and> revoked_at r = None"
  shows "\<exists>r \<in> set (explicitTuple s' rel' ob' rows). tuple_key s rel ob r \<and> revoked_at r = None"
proof -
  from assms obtain r where r: "r \<in> set rows" "tuple_key s rel ob r" "revoked_at r = None" by blast
  then have "r \<in> set (explicitTuple s' rel' ob' rows)" by (force simp: explicitTuple_def update_where_def)
  with r show ?thesis by blast
qed

lemma shape_granted:
  assumes "rel \<in> set rels"
  shows "\<exists>r \<in> set (fold (\<lambda>rel. explicitTuple s rel ob) rels rows). tuple_key s rel ob r \<and> revoked_at r = None"
proof -
  have later: "\<exists>r \<in> set (fold (\<lambda>rel. explicitTuple s rel ob) rels' rows'). tuple_key s rel ob r \<and> revoked_at r = None"
    if "\<exists>r \<in> set rows'. tuple_key s rel ob r \<and> revoked_at r = None" for rels' rows'
    using that by (induction rels' arbitrary: rows') (auto intro: explicitTuple_keeps)
  from assms show ?thesis
  proof (induction rels arbitrary: rows)
    case (Cons x xs)
    show ?case
    proof (cases "rel = x")
      case True
      with later [OF explicitTuple_present] show ?thesis by simp
    next
      case False
      with Cons show ?thesis by simp
    qed
  qed simp
qed

lemma principal_subject_prefix [simp]: "subject r = ''principal:'' @ p \<Longrightarrow> principal_subject r"
  by (simp add: principal_subject_def Cons_less_Cons less_char_def)

text \<open>What is written is live, unless a row of the key stood there expired: such a row is left as it is.\<close>

definition none_stale :: "string \<Rightarrow> string \<Rightarrow> string \<Rightarrow> string \<Rightarrow> tuple_row list \<Rightarrow> bool" where
  "none_stale now s rel ob rows \<longleftrightarrow> (\<forall>r \<in> set rows. tuple_key s rel ob r \<and> revoked_at r = None \<longrightarrow> live r now)"

lemma explicitTuple_rows:
  assumes "r \<in> set (explicitTuple s rel ob rows)"
  shows "r \<in> set rows \<or> live r now"
  using assms by (auto simp: explicitTuple_def new_tuple_def live_def expires_after_def set_update_where split: if_splits)

lemma explicitTuple_fresh:
  assumes "none_stale now s rel ob rows"
  shows "none_stale now s rel ob (explicitTuple s' rel' ob' rows)"
  using assms explicitTuple_rows unfolding none_stale_def by blast

lemma shape_live:
  assumes "rel \<in> set rels" and "none_stale now s rel ob rows"
  shows "\<exists>r \<in> set (fold (\<lambda>rel. explicitTuple s rel ob) rels rows). tuple_key s rel ob r \<and> live r now"
proof -
  have "none_stale now s rel ob (fold (\<lambda>rel. explicitTuple s rel ob) rels rows)"
    using assms(2) by (induction rels arbitrary: rows) (simp_all add: explicitTuple_fresh)
  with shape_granted [OF assms(1), of s ob rows] show ?thesis by (auto simp: none_stale_def)
qed

lemma yields_bound:
  assumes "exchange_finish cx L row bd st = Inr (Some (YieldsPrincipal i p (Some e)), st')"
  obtains b m st1 where "bd = Some (b, e, m)" "bindIn cx b e p i m st = Inr st1" "cp_tables st' = cp_tables st1" "tuples st' = tuples st1"
    "cap_principal row = Some p" "i = cap_id row"
proof -
  have pr: "record_principal row = Inr p \<Longrightarrow> cap_principal row = Some p"
    by (auto simp: record_principal_def monad_simps split: option.split_asm)
  consider (bind) b where "bd = Some b" "exchange_bind_mode cx row b st = Inr (Some (YieldsPrincipal i p (Some e)), st')"
    | (become) "exchange_become_mode cx row bd st = Inr (Some (YieldsPrincipal i p (Some e)), st')"
    | (act) "exchange_act_mode cx L row st = Inr (Some (YieldsPrincipal i p (Some e)), st')"
    using assms by (auto simp: exchange_finish_def split: if_split_asm option.split_asm)
  then show thesis
  proof cases
    case (bind b)
    then show ?thesis using pr by (cases b) (auto simp: exchange_bind_mode_def monad_simps intro: that)
  next
    case become
    obtain p' b m st1 ev where 1: "bd = Some (b, e, m)" "bindIn cx b e p (cap_id row) m st = Inr st1" "writeEvent cx KernelAuthor ev st1 = Inr st'"
      "record_principal row = Inr p" "i = cap_id row"
      using become by (cases bd) (auto simp: exchange_become_mode_def monad_simps)
    with writeEvent_cap [OF 1(3)] pr show ?thesis by (intro that) auto
  next
    case act
    then show ?thesis by (auto simp: exchange_act_mode_def monad_simps Let_def split: option.split_asm prod.split_asm)
  qed
qed

lemma exchange_bind_judged:
  assumes "exchange_bind (Some f) row minter st = Inr (Some (Some (b, e, m)))"
  shows "minter = Some m \<and> actionOf row = Inr (Some e) \<and> judgeBind (f m) e st = Inr (Bindable b)"
proof -
  from assms obtain action where a: "(if cap_mode row = ''act'' then Inr None else actionOf row) = Inr action" by (auto simp: exchange_bind_def monad_simps)
  with assms obtain e' where e': "action = Some e'" by (cases action) (auto simp: exchange_bind_def monad_simps split: if_split_asm)
  with assms a obtain m' where m': "minter = Some m'" by (cases minter) (auto simp: exchange_bind_def)
  with assms a e' obtain j where "judgeBind (f m') e' st = Inr j" "(case j of Bindable b \<Rightarrow> Some (Some (b, e', m')) | _ \<Rightarrow> None) = Some (Some (b, e, m))"
    by (auto simp: exchange_bind_def monad_simps)
  with a e' m' show ?thesis by (cases j) (auto split: if_split_asm)
qed

text \<open>
  C9. A claim binds exactly a free record.  An exchange that answers a bound record is made with a link whose
  minter the checker still allows the binding's key on that record; the record exists exactly once, names
  nobody and nobody holds it.  After it the record names the principal the link is for, who has an
  unrevoked row for the marker and for every key the shape declares there; the marker's is live at that
  instant, and so is that of each key unless an expired row of the key stood there, which the exchange
  leaves expired.  A bind link is taken only by that principal.
\<close>

theorem claim_binds_free_record:
  assumes "host_exchange cx L ck secret mode presenter st = Inr (Some (YieldsPrincipal i p (Some e)), st')"
  shows "\<exists>row minter b permission. row \<in> set (cp_capabilities st) \<and> cap_id row = i \<and> cap_principal row = Some p \<and>
    capabilityExchangeable row (cx_at cx) \<and> minter_of row = Inr (Some minter) \<and>
    entityBindingOf (entityType e) (tuples st) = Inr (Some (b, permission)) \<and> allowedFor ck minter (cx_node cx) permission e = Inr True \<and>
    boundRecord b (entityId e) st = (1, None) \<and> \<not> heldBySomeone (ref_of e) (tuples st) \<and>
    boundRecord b (entityId e) st' = (1, Some p) \<and>
    (\<forall>rel \<in> set (ENTITY_SHAPE_MARKER_RELATION # map (\<lambda>k. ''granted:'' @ k) (eb_keys b)).
       (\<exists>r \<in> set (tuples st'). tuple_key (''principal:'' @ p) rel (ref_of e) r \<and> revoked_at r = None) \<and>
       (rel = ENTITY_SHAPE_MARKER_RELATION \<or>
        (\<forall>r \<in> set (tuples st). tuple_key (''principal:'' @ p) rel (ref_of e) r \<and> revoked_at r = None \<longrightarrow> live r (cx_at cx)) \<longrightarrow>
        (\<exists>r \<in> set (tuples st'). tuple_key (''principal:'' @ p) rel (ref_of e) r \<and> live r (cx_at cx)))) \<and>
    (cap_mode row = ''bind'' \<longrightarrow> mode = Some ''bind'' \<and> presenter = Some p)"
proof -
  from assms obtain who where ex: "exchangeCapability cx L (map_option (\<lambda>hs p. hs (Principal p) (cx_node cx)) (pk_holdings ck))
    (Some (\<lambda>p. allowedFor ck p (cx_node cx))) secret mode who (st\<lparr>passed := []\<rparr>) = Inr (Some (YieldsPrincipal i p (Some e)), st')"
    and who: "who = None \<or> mode = Some ''bind'' \<and> who = presenter"
    by (auto simp: host_exchange_def monad_simps split: option.split_asm if_split_asm)
  from ex show ?thesis
  proof (cases rule: exchange_cases)
    case (used row minter bd)
    from used(7) obtain b m st1 where y: "bd = Some (b, e, m)"
      "bindIn (host_ctx cx (Capability (cap_id row)) CAPABILITY_EXCHANGE_OPERATION) b e p i m (snd (take_use row (cx_at cx) (st\<lparr>passed := []\<rparr>))) = Inr st1"
      "cp_tables st' = cp_tables st1" "tuples st' = tuples st1" "cap_principal row = Some p" "i = cap_id row" by (rule yields_bound)
    note j = exchange_bind_judged [OF used(4) [unfolded y(1)]]
    then obtain permission where free: "entityObjectRef e ''bind'' = Inr (ref_of e)" "entityBindingOf (entityType e) (tuples st) = Inr (Some (b, permission))"
      "allowedFor ck m (cx_node cx) permission e = Inr True" "boundRecord b (entityId e) (st\<lparr>passed := []\<rparr>) = (1, None)" "\<not> heldBySomeone (ref_of e) (tuples st)"
      by (auto elim: judgeBind_Bindable)
    note bound = bindIn_Inr [OF y(2)]
    have rec: "boundRecord b (entityId e) st = (1, None)" using free(4) boundRecord_cong [of "st\<lparr>passed := []\<rparr>" st] by simp
    have "cp_tables st' = cp_tables (update_table (eb_table b) (unclaimed b (entityId e)) (eb_principalColumn b) (Some p) st)"
      using y(3) bound(3) by (simp add: take_use_def update_table_def)
    then have rec': "boundRecord b (entityId e) st' = (1, Some p)" using claimed_record [OF rec] boundRecord_cong by metis
    from bound(2) obtain rows where rows: "grantEntityShapeIn p e (eb_keys b) (tuples st) = Inr rows"
      "tuples st' = insert_or_ignore (''shape:'' @ entityType e) BOUND_EVER_RELATION ''bound'' rows" using y(4) by (auto simp: take_use_def)
    have granted: "tuples st' = insert_or_ignore (''shape:'' @ entityType e) BOUND_EVER_RELATION ''bound''
        (fold (\<lambda>rel. explicitTuple (''principal:'' @ p) rel (ref_of e))
          (ENTITY_SHAPE_MARKER_RELATION # map (\<lambda>k. ''granted:'' @ k) (keysOf (eb_keys b))) (tuples st))"
      using rows free(1) by (auto simp: grantEntityShapeIn_def entityObjectRef_def monad_simps simp del: fold_simps split: if_split_asm)
    have later: "\<exists>r \<in> set (insert_or_ignore x y z rs). P r" if "\<exists>r \<in> set rs. P r" for x y z rs and P :: "tuple_row \<Rightarrow> bool"
      using that by (auto simp: insert_or_ignore_def)
    have marker: "none_stale (cx_at cx) (''principal:'' @ p) ENTITY_SHAPE_MARKER_RELATION (ref_of e) (tuples st)"
      using free(5) by (auto simp: heldBySomeone_def marks_def list_ex_iff none_stale_def tuple_key_def simp del: append.simps)
    have keys: "(\<exists>r \<in> set (tuples st'). tuple_key (''principal:'' @ p) rel (ref_of e) r \<and> revoked_at r = None) \<and>
        (rel = ENTITY_SHAPE_MARKER_RELATION \<or>
         (\<forall>r \<in> set (tuples st). tuple_key (''principal:'' @ p) rel (ref_of e) r \<and> revoked_at r = None \<longrightarrow> live r (cx_at cx)) \<longrightarrow>
         (\<exists>r \<in> set (tuples st'). tuple_key (''principal:'' @ p) rel (ref_of e) r \<and> live r (cx_at cx)))"
      if "rel \<in> set (ENTITY_SHAPE_MARKER_RELATION # map (\<lambda>k. ''granted:'' @ k) (eb_keys b))" for rel
    proof -
      have rel: "rel \<in> set (ENTITY_SHAPE_MARKER_RELATION # map (\<lambda>k. ''granted:'' @ k) (keysOf (eb_keys b)))" using that by (simp add: keysOf_def)
      note shape_live [OF this, of "cx_at cx" "''principal:'' @ p" "ref_of e" "tuples st"]
      with marker have "rel = ENTITY_SHAPE_MARKER_RELATION \<or> none_stale (cx_at cx) (''principal:'' @ p) rel (ref_of e) (tuples st) \<longrightarrow>
          (\<exists>r \<in> set (tuples st'). tuple_key (''principal:'' @ p) rel (ref_of e) r \<and> live r (cx_at cx))"
        unfolding granted by (blast intro: later)
      moreover have "\<exists>r \<in> set (tuples st'). tuple_key (''principal:'' @ p) rel (ref_of e) r \<and> revoked_at r = None"
        unfolding granted by (rule later [OF shape_granted [OF rel]])
      ultimately show ?thesis unfolding none_stale_def by blast
    qed
    have own: "cap_mode row = ''bind'' \<longrightarrow> mode = Some ''bind'' \<and> presenter = Some p"
      using used(3) y(5) who by (auto simp: exchange_holdings_def monad_simps split: option.split_asm if_split_asm)
    show ?thesis using exchange_rowD [OF used(1)] used(2) j y(5,6) free rec rec' keys own
      by (intro exI [of _ row] exI [of _ m] exI [of _ b] exI [of _ permission]) auto
  qed simp_all
qed


theorem claim_binds_free_record_witness:
  "\<exists>m s s1. mintBindLinkBounded demo_ctx demo_lib team_evaluator demo_p2 demo_bind demo_people = Inr (Granted m, s) \<and>
     host_exchange demo_ctx demo_lib team_evaluator (mc_secret m) (Some ''bind'') (Some demo_p3) s = Inr (Some (YieldsPrincipal (mc_id m) demo_p3 (Some demo_person)), s1) \<and>
     (\<exists>b permission. entityBindingOf ''person'' (tuples s) = Inr (Some (b, permission)) \<and> boundRecord b ''E1'' s = (1, None) \<and> boundRecord b ''E1'' s1 = (1, Some demo_p3))"
proof -
  obtain m s s1 where 1: "mintBindLinkBounded demo_ctx demo_lib team_evaluator demo_p2 demo_bind demo_people = Inr (Granted m, s)"
    "host_exchange demo_ctx demo_lib team_evaluator (mc_secret m) (Some ''bind'') (Some demo_p3) s = Inr (Some (YieldsPrincipal (mc_id m) demo_p3 (Some demo_person)), s1)"
    by (rule demo_claimed)
  have e: "entityType demo_person = ''person''" "entityId demo_person = ''E1''" by (simp_all add: demo_person_def)
  from claim_binds_free_record [OF 1(2), unfolded e] 1 show ?thesis by blast
qed

section \<open>The unbind\<close>

lemma release_each_rows:
  "release_each ss ob now rows = Inr (rel, rows') \<Longrightarrow>
   rows' = map (\<lambda>r. if \<exists>s \<in> set ss. released_row s ob r then r\<lparr>revoked_at := Some now\<rparr> else r) rows \<and> map fst rel = map (drop (length ''principal:'')) ss"
proof (induction ss arbitrary: rows rel)
  case (Cons s ss)
  let ?rows = "update_where (released_row s ob) (\<lambda>r. r\<lparr>revoked_at := Some now\<rparr>) rows"
  from Cons.prems obtain removed rest where 1: "release_each ss ob now ?rows = Inr (rest, rows')" "rel = (drop (length ''principal:'') s, sort removed) # rest"
    by (auto simp: monad_simps)
  from Cons.IH [OF 1(1)] 1(2) show ?case by (auto simp: update_where_def released_row_def)
qed simp

lemma stamp_cols [simp]:
  "cap_id (stamp_revoked who now why r) = cap_id r" "cap_revoked_at (stamp_revoked who now why r) = Some now"
  by (simp_all add: stamp_revoked_def)

lemma revoke_each_rows:
  "revoke_each is who now st = Inr (ids, st') \<Longrightarrow>
   cp_capabilities st' = map (\<lambda>r. if cap_id r \<in> set is \<and> cap_revoked_at r = None then stamp_revoked who now None r else r) (cp_capabilities st) \<and>
   cp_tables st' = cp_tables st \<and> tuples st' = tuples st"
proof (induction "is" arbitrary: st ids)
  case (Cons i "is")
  then obtain rest where 1: "revoke_each is who now (snd (markRevoked i who now None st)) = Inr (rest, st')"
    by (auto simp: monad_simps split: prod.splits)
  from Cons.IH [OF 1] have ih: "cp_capabilities st' = map (\<lambda>r. if cap_id r \<in> set is \<and> cap_revoked_at r = None then stamp_revoked who now None r else r)
      (map (\<lambda>r. if cap_id r = i \<and> cap_revoked_at r = None then stamp_revoked who now None r else r) (cp_capabilities st))"
    "cp_tables st' = cp_tables st" "tuples st' = tuples st" by (simp_all add: markRevoked_def update_where_def)
  show ?case unfolding ih(1) map_map using ih(2,3) by auto
qed simp

lemma links_revoked:
  assumes "revokeBindLinksIn e who now st = Inr (ids, st')"
  shows "\<forall>r \<in> set (cp_capabilities st'). cap_mode r \<in> {''become'', ''bind''} \<and> cap_action r \<noteq> None \<and> decodedAction (the (cap_action r)) = Some e \<longrightarrow>
      \<not> capabilityExchangeable r now"
    "cp_tables st' = cp_tables st" "tuples st' = tuples st"
proof -
  let ?hit = "\<lambda>r. cap_mode r \<in> {''become'', ''bind''} \<and> cap_action r \<noteq> None \<and> exchangeable_link now r \<and> decodedAction (the (cap_action r)) = Some e"
  from assms obtain l where 1: "revoke_each (map cap_id (filter ?hit (cp_capabilities st))) who now st = Inr (l, st')"
    by (auto simp: revokeBindLinksIn_def monad_simps)
  note rows = revoke_each_rows [OF 1]
  then show "cp_tables st' = cp_tables st" "tuples st' = tuples st" by simp_all
  have link: "capabilityExchangeable r now \<longleftrightarrow> exchangeable_link now r" for r :: cap_row
    by (simp add: capabilityExchangeable_def capabilityLive_def exchangeable_link_def conj_assoc)
  show "\<forall>r \<in> set (cp_capabilities st'). cap_mode r \<in> {''become'', ''bind''} \<and> cap_action r \<noteq> None \<and> decodedAction (the (cap_action r)) = Some e \<longrightarrow>
      \<not> capabilityExchangeable r now"
  proof (intro ballI impI notI)
    fix r assume r: "r \<in> set (cp_capabilities st')" "capabilityExchangeable r now"
      and hit: "cap_mode r \<in> {''become'', ''bind''} \<and> cap_action r \<noteq> None \<and> decodedAction (the (cap_action r)) = Some e"
    from r(1) rows obtain q where q: "q \<in> set (cp_capabilities st)"
      "r = (if cap_id q \<in> set (map cap_id (filter ?hit (cp_capabilities st))) \<and> cap_revoked_at q = None then stamp_revoked who now None q else q)" by auto
    have "cap_revoked_at r = None" using r(2) by (rule exchangeable_unrevoked)
    with q(2) have rq: "r = q" by (simp split: if_split_asm)
    with q(1) hit r(2) have "cap_id q \<in> set (map cap_id (filter ?hit (cp_capabilities st)))" by (simp add: link)
    with q(2) rq \<open>cap_revoked_at r = None\<close> have "q = stamp_revoked who now None q" by (simp only: if_True simp_thms)
    then have "cap_revoked_at q = Some now" by (metis stamp_cols(2))
    with rq \<open>cap_revoked_at r = None\<close> show False by simp
  qed
qed

lemma cleared_record: "snd (boundRecord b eid (clearColumn b eid None st)) = None"
proof (cases "tableExists (eb_table b) st")
  case True
  let ?rows = "table_rows (eb_table b) (clearColumn b eid None st)"
  have "column (eb_principalColumn b) r = None" if "r \<in> set ?rows" "column (eb_idColumn b) r = Some eid" for r
    using that True by (auto simp: clearColumn_def table_rows_update update_where_def column_update split: if_split_asm)
  then have "List.find (\<lambda>x. x \<noteq> None) (map (column (eb_principalColumn b)) (filter (\<lambda>r. column (eb_idColumn b) r = Some eid) ?rows)) = None"
    by (auto simp: find_None_iff)
  then show ?thesis by (simp add: boundRecord_def Let_def)
qed (simp add: clearColumn_def boundRecord_def)

lemma cleared_count:
  assumes "eb_idColumn b \<noteq> eb_principalColumn b"
  shows "fst (boundRecord b eid (clearColumn b eid None st)) = fst (boundRecord b eid st)"
proof (cases "tableExists (eb_table b) st")
  case True
  have "length (filter (\<lambda>r. column (eb_idColumn b) r = Some eid) (update_where p (AList.update (eb_principalColumn b) None) rows)) =
      length (filter (\<lambda>r. column (eb_idColumn b) r = Some eid) rows)" for p rows
    using assms by (induction rows) (auto simp: update_where_def column_update)
  with True show ?thesis by (simp add: boundRecord_def clearColumn_def table_rows_update Let_def)
qed (simp add: clearColumn_def)

text \<open>A binding is read from subjects, relations and objects, so a release leaves it as it was.\<close>

lemma objects_of_map:
  assumes "\<And>r. subject (g r) = subject r \<and> relation (g r) = relation r \<and> object (g r) = object r"
  shows "objects_of rel (filter (\<lambda>r. subject r = s \<and> relation r \<in> R) (map g rows)) = objects_of rel (filter (\<lambda>r. subject r = s \<and> relation r \<in> R) rows)"
  using assms by (induction rows) (auto simp: objects_of_def)

lemma entityBindingOf_map:
  assumes "\<And>r. subject (g r) = subject r \<and> relation (g r) = relation r \<and> object (g r) = object r"
  shows "entityBindingOf ty (map g rows) = entityBindingOf ty rows"
  by (simp only: entityBindingOf_def bindingFrom_def objects_of_map [OF assms])


lemma granted_range: "''granted:'' \<le> ''granted:'' @ k" "''granted:'' @ k < ''granted;''"
  by (simp_all add: less_eq_char_def less_char_def)

text \<open>
  C10. An unbind frees the record.  When it answers, the checker allowed its caller the binding's key on the
  record; after it the record names nobody, nobody holds it, whoever held it keeps no key on it, and no
  outstanding link binds it, so that a record that exists once can be claimed again by a new link.
\<close>

theorem unbind_frees_record:
  assumes "unbindEntityHolderBounded cx ck caller e st = Inr (Unbound holders links, st')"
  shows "\<exists>b permission. entityBindingOf (entityType e) (tuples st) = Inr (Some (b, permission)) \<and>
    allowedFor ck caller (cx_node cx) permission e = Inr True \<and>
    snd (boundRecord b (entityId e) st') = None \<and> \<not> heldBySomeone (ref_of e) (tuples st') \<and>
    (\<forall>r \<in> set (tuples st). marks (ref_of e) r \<longrightarrow>
       (\<forall>r' \<in> set (tuples st'). \<forall>k. tuple_key (subject r) (''granted:'' @ k) (ref_of e) r' \<longrightarrow> revoked_at r' \<noteq> None)) \<and>
    (\<forall>r \<in> set (cp_capabilities st'). cap_mode r \<in> {''become'', ''bind''} \<and> cap_action r \<noteq> None \<and> decodedAction (the (cap_action r)) = Some e \<longrightarrow>
       \<not> capabilityExchangeable r (cx_at cx)) \<and>
    (eb_idColumn b \<noteq> eb_principalColumn b \<and> fst (boundRecord b (entityId e) st) = 1 \<and> may permission e = Inr True \<longrightarrow>
       judgeBind may e st' = Inr (Bindable b))"
proof -
  let ?cx = "host_ctx cx (Principal caller) ENTITY_UNBIND_OPERATION"
  have at: "cx_at ?cx = cx_at cx" by (simp add: host_ctx_def)
  from assms have "unbindEntityHolder ?cx caller (allowedFor ck caller (cx_node cx)) e (st\<lparr>passed := []\<rparr>) = Inr (Unbound holders links, st')"
    by (auto simp: unbindEntityHolderBounded_def monad_simps)
  then show ?thesis
  proof (cases rule: unbind_Inr)
    case (unbound b permission released rows st2 ls)
    let ?st = "st\<lparr>passed := []\<rparr>"
    let ?holders = "map subject (filter (marks (ref_of e)) (tuples st))"
    let ?g = "\<lambda>r. if \<exists>s \<in> set ?holders. released_row s (ref_of e) r then r\<lparr>revoked_at := Some (cx_at cx)\<rparr> else r"
    have rows: "rows = map ?g (tuples st)"
      using release_each_rows [of ?holders "ref_of e" "cx_at cx" "tuples st" released rows] unbound(5)
      by (simp add: releaseHolders_def at if_given_def)
    note links = links_revoked [OF unbound(10), unfolded at]
    have tup: "tuples st' = map ?g (tuples st)" using links(3) unbound(9) rows by simp
    have "boundRecord b (entityId e) st' = boundRecord b (entityId e) (clearColumn b (entityId e) None ?st)"
      by (rule boundRecord_cong) (simp add: links(2) unbound(8))
    also have "\<dots> = boundRecord b (entityId e) (clearColumn b (entityId e) None st)"
      by (rule boundRecord_cong) (simp add: clearColumn_def update_table_def tableExists_def)
    finally have rec: "boundRecord b (entityId e) st' = boundRecord b (entityId e) (clearColumn b (entityId e) None st)" .
    have free: "\<not> heldBySomeone (ref_of e) (tuples st')"
      by (auto simp: heldBySomeone_def list_ex_iff tup marks_def released_row_def split: if_split_asm)
    have keys: "revoked_at r' \<noteq> None" if "r \<in> set (tuples st)" "marks (ref_of e) r" "r' \<in> set (tuples st')" "tuple_key (subject r) (''granted:'' @ k) (ref_of e) r'" for r r' k
    proof
      assume none: "revoked_at r' = None"
      from that(3) obtain q where q: "q \<in> set (tuples st)" "r' = ?g q" unfolding tup by (elim imageE [OF set_map [THEN eq_refl, THEN subsetD]])
      have "\<not> (\<exists>s \<in> set ?holders. released_row s (ref_of e) q)" using q(2) none by (metis option.simps(3) tuple_row.select_convs(5) tuple_row.surjective tuple_row.update_convs(5))
      moreover from this q(2) have "r' = q" by simp
      moreover have "subject r \<in> set ?holders" using that(1,2) by auto
      moreover have "released_row (subject r) (ref_of e) r'" using that(4) none granted_range by (simp add: released_row_def tuple_key_def)
      ultimately show False by blast
    qed
    have bnd: "entityBindingOf (entityType e) (tuples st') = Inr (Some (b, permission))"
      unfolding tup using unbound(3) by (subst entityBindingOf_map) auto
    have again: "judgeBind may e st' = Inr (Bindable b)"
      if "eb_idColumn b \<noteq> eb_principalColumn b" "fst (boundRecord b (entityId e) st) = 1" "may permission e = Inr True"
    proof -
      have "boundRecord b (entityId e) st' = (1, None)" using cleared_count [OF that(1)] cleared_record that(2) rec by (metis prod.collapse)
      then show ?thesis using that(3) bnd free unbound(2) by (simp add: judgeBind_def entityObjectRef_def split: if_split_asm)
    qed
    show ?thesis using unbound(3,4) rec cleared_record free keys links(1) again
      by (intro exI [of _ b] exI [of _ permission]) auto
  qed blast
qed


theorem unbind_frees_record_witness:
  "\<exists>m s s1 ls s2. mintBindLinkBounded demo_ctx demo_lib team_evaluator demo_p2 demo_bind demo_people = Inr (Granted m, s) \<and>
     host_exchange demo_ctx demo_lib team_evaluator (mc_secret m) (Some ''bind'') (Some demo_p3) s = Inr (Some (YieldsPrincipal (mc_id m) demo_p3 (Some demo_person)), s1) \<and>
     unbindEntityHolderBounded demo_ctx team_evaluator demo_p2 demo_person s1 = Inr (Unbound [demo_p3] ls, s2) \<and> \<not> heldBySomeone (ref_of demo_person) (tuples s2)"
proof -
  obtain m s s1 us ls s2 where 1: "mintBindLinkBounded demo_ctx demo_lib team_evaluator demo_p2 demo_bind demo_people = Inr (Granted m, s)"
    "host_exchange demo_ctx demo_lib team_evaluator (mc_secret m) (Some ''bind'') (Some demo_p3) s = Inr (Some (YieldsPrincipal (mc_id m) demo_p3 (Some demo_person)), s1)"
    "unbindEntityHolderBounded demo_ctx team_evaluator demo_p2 demo_person s1 = Inr (Unbound us ls, s2)" "us = [demo_p3]"
    by (rule demo_claimed)
  from unbind_frees_record [OF 1(3)] 1 show ?thesis by blast
qed

section \<open>The state of a link\<close>

lemma exchange_row_of:
  assumes "dir_ok st" and "row \<in> set (cp_capabilities st)" and "plausible secret CAPABILITY_SECRET_PREFIX"
    and "cap_token_hash row = capabilityTokenHash L secret" and "if_given (\<lambda>m. cap_mode row = m) mode"
  shows "exchange_row L now secret mode st = (if capabilityExchangeable row now then Some row else None)"
proof -
  have "row_where (\<lambda>r. cap_token_hash r = capabilityTokenHash L secret) (cp_capabilities st) = Some row"
  proof (cases "row_where (\<lambda>r. cap_token_hash r = capabilityTokenHash L secret) (cp_capabilities st)")
    case None
    with assms(2,4) show ?thesis by (auto simp: row_where_None)
  next
    case (Some x)
    with row_where_SomeD [OF Some] assms(1,2,4) show ?thesis by (auto simp: dir_ok_def distinct_map inj_on_def)
  qed
  with assms(3,5) show ?thesis by (simp add: exchange_row_def)
qed

lemma become_link_exchange:
  assumes "dir_ok st" and "row \<in> set (cp_capabilities st)" and "cap_mode row = ''become''" and "cap_action row = None"
    and "plausible secret CAPABILITY_SECRET_PREFIX" and "cap_token_hash row = capabilityTokenHash L secret" and "if_given (\<lambda>m. m = ''become'') mode"
    and "minter_of row = Inr minter" and "capabilityExchangeable row (cx_at cx)" and "ulid_pattern (cap_id row)"
  shows "exchangeCapability cx L holdings may secret mode presenter st =
    bind_r (exchange_holdings L holdings row minter presenter (cx_at cx) st) (\<lambda>(ok, st0).
      if \<not> ok then Inr (None, st0)
      else if fst (take_use row (cx_at cx) st0)
      then exchange_become_mode (host_ctx cx (Capability (cap_id row)) CAPABILITY_EXCHANGE_OPERATION) row None (snd (take_use row (cx_at cx) st0))
      else Inr (None, snd (take_use row (cx_at cx) st0)))"
proof -
  have "exchange_row L (cx_at cx) secret mode st = Some row"
    using exchange_row_of [OF assms(1,2,5,6)] assms(3,7,9) by (simp add: if_given_def split: option.splits)
  moreover have "exchange_bind may row minter st0 = Inr (Some None)" for st0 :: "'a cap_store_scheme"
    using assms(3,4) by (simp add: exchange_bind_def actionOf_def)
  ultimately show ?thesis using assms(3,8,10)
    by (auto simp: exchangeCapability_def exchange_finish_def guard_r_def split: prod.split intro!: arg_cong2 [of _ _ _ _ bind_r])
qed

lemma link_judged:
  assumes "cap_mode row = ''become''" and "minter_of row = Inr minter" and st: "becomeLinkStateOf L holdings now (Some row) = Inr state"
    and "capabilityExchangeable row now" and id: "ulid_pattern (cap_id row)"
  shows "(\<exists>s. exchange_holdings L holdings row minter presenter now st = Inr (False, s)) \<and> state \<noteq> LinkOpen \<or>
    exchange_holdings L holdings row minter presenter now st = Inr (True, st) \<and> state = LinkOpen"
proof -
  have cols: "cap_revoked_at row = None" "expires_after (cap_expires_at row) now"
    "\<not> (case cap_max_uses row of None \<Rightarrow> False | Some m \<Rightarrow> m \<le> cap_uses row)"
    using assms(4) by (auto simp: capabilityExchangeable_def capabilityLive_def split: option.splits)
  from assms(2) obtain j a where j: "cap_minted_by row = Some j" "capabilityAuthor j = Some a"
    and m: "minter = (case a of ByPrincipal p \<Rightarrow> Some p | ByPlatform q \<Rightarrow> None)"
    by (auto simp: minter_of_def json_column_def parse_as_def monad_simps split: option.split_asm)
  show ?thesis
  proof (cases j)
    case (JStr p)
    with j m have minter: "minter = Some p" by (auto split: if_split_asm)
    show ?thesis
    proof (cases "holdings = None \<or> \<not> truthy (cap_target_digest row)")
      case True
      with st cols j JStr minter assms(1) show ?thesis
        by (cases holdings) (auto simp: becomeLinkStateOf_def exchange_holdings_def)
    next
      case False
      then obtain hs where hs: "holdings = Some hs" "truthy (cap_target_digest row)" by auto
      with st cols j JStr assms(1) obtain q held where "record_principal row = Inr q" "hs q = Inr held"
        "state = (if Some (storedDigest L row held) \<noteq> cap_target_digest row then LinkRevoked (Some ''holdings-changed'') else LinkOpen)"
        by (auto simp: becomeLinkStateOf_def monad_simps)
      with hs cols minter assms(1) id show ?thesis by (simp add: exchange_holdings_def guard_r_def)
    qed
  next
    case (JObj fs)
    with j m have "minter = None" by (auto split: option.split_asm json.split_asm if_split_asm)
    with st cols j JObj assms(1) show ?thesis by (simp add: becomeLinkStateOf_def exchange_holdings_def)
  qed (use j in auto)
qed

text \<open>
  The state a link is reported in is what its exchange answers.  For a plain \<open>become\<close> link, whoever minted
  it, a link reported open is not refused by the exchange at that moment, and one reported used, revoked
  or expired is.
\<close>

theorem link_state_is_exchange:
  assumes "dir_ok st" and "row \<in> set (cp_capabilities st)" and "cap_mode row = ''become''" and "cap_action row = None"
    and "plausible secret CAPABILITY_SECRET_PREFIX" and "cap_token_hash row = capabilityTokenHash L secret"
    and "minter_of row = Inr minter"
    and "readBecomeLinkStates L (map_option (\<lambda>hs p. hs (Principal p) (cx_node cx)) (pk_holdings ck)) [cap_id row] (cx_at cx) st = Inr [state]"
  shows "(\<exists>st'. host_exchange cx L ck secret (Some ''become'') presenter st = Inr (None, st')) \<longleftrightarrow> state \<noteq> LinkOpen"
proof -
  let ?hs = "map_option (\<lambda>hs p. hs (Principal p) (cx_node cx)) (pk_holdings ck)"
  let ?may = "Some (\<lambda>p. allowedFor ck p (cx_node cx))" and ?st = "st\<lparr>passed := []\<rparr>"
  have st: "becomeLinkStateOf L ?hs (cx_at cx) (Some row) = Inr state" and id: "ulid_pattern (cap_id row)"
    using assms(8) dir_ok_id [OF assms(1,2)] by (auto simp: readBecomeLinkStates_def monad_simps)
  have ok: "dir_ok ?st" "row \<in> set (cp_capabilities ?st)" using assms(1,2) by (simp_all add: dir_ok_def)
  have host: "host_exchange cx L ck secret (Some ''become'') presenter st = exchangeCapability cx L ?hs ?may secret (Some ''become'') None ?st"
    by (simp add: host_exchange_def)
  have yields: "exchange_become_mode c row bd s \<noteq> Inr (None, s')" for c bd and s s' :: "'a cap_store_scheme"
    by (auto simp: exchange_become_mode_def monad_simps)
  show ?thesis
  proof (cases "capabilityExchangeable row (cx_at cx)")
    case False
    then have "exchangeCapability cx L ?hs ?may secret (Some ''become'') None ?st = Inr (None, ?st)"
      using exchange_row_of [OF ok assms(5,6), of "Some ''become''"] assms(3) by (simp add: exchangeCapability_def if_given_def)
    moreover have "state \<noteq> LinkOpen"
      using st False assms(3) by (auto simp: becomeLinkStateOf_def capabilityExchangeable_def capabilityLive_def split: option.split_asm if_split_asm)
    ultimately show ?thesis using host by auto
  next
    case True
    have ex: "exchangeCapability cx L ?hs ?may secret (Some ''become'') None ?st =
      bind_r (exchange_holdings L ?hs row minter None (cx_at cx) ?st) (\<lambda>(b, st0).
        if \<not> b then Inr (None, st0) else if fst (take_use row (cx_at cx) st0)
        then exchange_become_mode (host_ctx cx (Capability (cap_id row)) CAPABILITY_EXCHANGE_OPERATION) row None (snd (take_use row (cx_at cx) st0))
        else Inr (None, snd (take_use row (cx_at cx) st0)))"
      by (rule become_link_exchange [OF ok assms(3-6) _ assms(7) True id]) (simp add: if_given_def)
    have taken: "fst (take_use row (cx_at cx) ?st)" by (rule take_use_taken [OF ok])
    have "(\<exists>s. exchange_holdings L ?hs row minter None (cx_at cx) ?st = Inr (False, s)) \<and> state \<noteq> LinkOpen \<or>
        exchange_holdings L ?hs row minter None (cx_at cx) ?st = Inr (True, ?st) \<and> state = LinkOpen"
      by (rule link_judged [OF assms(3,7) st True id])
    then show ?thesis using ex host taken yields by auto
  qed
qed


theorem link_state_is_exchange_witness:
  "\<exists>m s state. mintBecomeCapabilityBounded demo_ctx demo_lib team_evaluator demo_p2 demo_invite demo_directory = Inr (Granted m, s) \<and>
     readBecomeLinkStates demo_lib (Some (\<lambda>p. holdings_at (createTupleChecker demo_team) (Principal p) demo_node)) [mc_id m] (cx_at demo_ctx) s = Inr [state] \<and>
     state = LinkOpen"
proof -
  have "is_ok (bind_r (mintBecomeCapabilityBounded demo_ctx demo_lib team_evaluator demo_p2 demo_invite demo_directory) (\<lambda>a.
    bind_r (minted_r a) (\<lambda>(m, s).
    bind_r (readBecomeLinkStates demo_lib (map_option (\<lambda>hs p. hs (Principal p) (cx_node demo_ctx)) (pk_holdings team_evaluator)) [mc_id m] (cx_at demo_ctx) s) (\<lambda>states.
    bind_r (host_exchange demo_ctx demo_lib team_evaluator (mc_secret m) (Some ''become'') None s) (\<lambda>(x, s1).
      guard_r (length states = 1 \<and> x \<noteq> None \<and> plausible (mc_secret m) CAPABILITY_SECRET_PREFIX \<and>
        cp_capabilities s \<noteq> [] \<and> cap_mode (hd (cp_capabilities s)) = ''become'' \<and> cap_action (hd (cp_capabilities s)) = None \<and>
        cap_id (hd (cp_capabilities s)) = mc_id m \<and> cap_token_hash (hd (cp_capabilities s)) = capabilityTokenHash demo_lib (mc_secret m) \<and>
        minter_of (hd (cp_capabilities s)) = Inr (Some demo_p2)) (PlainError []))))))" by code_simp
  then obtain m s state x s1 where 1: "mintBecomeCapabilityBounded demo_ctx demo_lib team_evaluator demo_p2 demo_invite demo_directory = Inr (Granted m, s)"
    "readBecomeLinkStates demo_lib (map_option (\<lambda>hs p. hs (Principal p) (cx_node demo_ctx)) (pk_holdings team_evaluator)) [mc_id m] (cx_at demo_ctx) s = Inr [state]"
    "host_exchange demo_ctx demo_lib team_evaluator (mc_secret m) (Some ''become'') None s = Inr (Some x, s1)" "plausible (mc_secret m) CAPABILITY_SECRET_PREFIX"
    "cp_capabilities s \<noteq> []" "cap_mode (hd (cp_capabilities s)) = ''become''" "cap_action (hd (cp_capabilities s)) = None" "cap_id (hd (cp_capabilities s)) = mc_id m"
    "cap_token_hash (hd (cp_capabilities s)) = capabilityTokenHash demo_lib (mc_secret m)" "minter_of (hd (cp_capabilities s)) = Inr (Some demo_p2)"
    by (auto simp: is_ok_iff monad_simps length_Suc_conv)
  have "dir_ok demo_directory" by (simp add: dir_ok_def demo_directory_def)
  with mintBecomeBounded_moves [OF 1(1)] have ok: "dir_ok s" by (simp add: moves_def)
  have "state = LinkOpen"
    using link_state_is_exchange [OF ok _ 1(6,7,4,9,10), of demo_ctx team_evaluator state None] 1 by auto
  moreover have "map_option (\<lambda>hs p. hs (Principal p) (cx_node demo_ctx)) (pk_holdings team_evaluator) =
      Some (\<lambda>p. holdings_at (createTupleChecker demo_team) (Principal p) demo_node)" by (simp add: evaluator_def demo_ctx_def)
  ultimately show ?thesis using 1 by auto
qed

end
