(* ===== verification/Absence.thy ===== *)
theory Absence
  imports Instants Pagination
begin

text \<open>
  The absence engine, \<open>engines/absence/src\<close>: leave types with a floor, the append-only ledger of signed
  day counts, and the requests that book against it.  A balance is a fold over the ledger; no counter is
  stored.

  A stored row is parsed on the way out, of which a typed row keeps what can fail: kinds and statuses,
  decimals, calendar dates.  Every statement that selects by id relies on the primary key.  A leave day is
  a calendar date, so text order is the order of days.
\<close>

section \<open>Calendar dates\<close>

text \<open>\<open>calendarDate\<close>: \<open>YYYY-MM-DD\<close> with a real month and day.  \<open>slice_number\<close> is \<open>Number(s.slice(i, j))\<close> on digits.\<close>

definition slice_number :: "nat \<Rightarrow> nat \<Rightarrow> string \<Rightarrow> int" where
  "slice_number i j s = digits_value (take (j - i) (drop i s))"

definition leap_year :: "int \<Rightarrow> bool" where
  "leap_year y \<longleftrightarrow> y mod 4 = 0 \<and> (y mod 100 \<noteq> 0 \<or> y mod 400 = 0)"

definition days_in_month :: "int \<Rightarrow> int \<Rightarrow> int" where
  "days_in_month y m =
     (if m = 2 then if leap_year y then 29 else 28 else if m \<in> {4, 6, 9, 11} then 30 else 31)"

definition real_day :: "int \<Rightarrow> int \<Rightarrow> int \<Rightarrow> bool" where
  "real_day y m d \<longleftrightarrow> 1 \<le> m \<and> m \<le> 12 \<and> 1 \<le> d \<and> d \<le> days_in_month y m"

definition calendarDate :: "string \<Rightarrow> bool" where
  "calendarDate s \<longleftrightarrow>
     matches ''dddd-dd-dd'' s \<and> real_day (slice_number 0 4 s) (slice_number 5 7 s) (slice_number 8 10 s)"

definition isoDate :: "string \<Rightarrow> string result" where
  "isoDate s = (if calendarDate s then Inr s else Inl (ZodError ''isoDate''))"

section \<open>Rows and published shapes\<close>

record leave_type_row =
  lt_key :: string
  lt_floor :: string
  lt_active :: int
  lt_created_at :: string

record ledger_row =
  ae_id :: string
  ae_subject_type :: string
  ae_subject_id :: string
  ae_data_subject_id :: string
  ae_leave_type_key :: string
  ae_entry_kind :: string
  ae_delta :: string
  ae_effective_date :: string
  ae_request_id :: "string option"
  ae_note :: "string option"
  ae_created_by :: string
  ae_created_at :: string

record request_row =
  ar_id :: string
  ar_subject_type :: string
  ar_subject_id :: string
  ar_data_subject_id :: string
  ar_leave_type_key :: string
  ar_start_date :: string
  ar_end_date :: string
  ar_days :: string
  ar_status :: string
  ar_note :: "string option"
  ar_decided_by :: "string option"
  ar_decided_at :: "string option"
  ar_created_by :: string
  ar_created_at :: string

record ab_store = scope_store +
  ab_types :: "leave_type_row list"
  ab_ledger :: "ledger_row list"
  ab_requests :: "request_row list"

record leave_type =
  lv_key :: string
  lv_floor :: string
  lv_active :: bool
  lv_createdAt :: string

record absence_entry =
  en_id :: string
  en_subject :: entity_ref
  en_leaveTypeKey :: string
  en_entryKind :: string
  en_delta :: string
  en_effectiveDate :: string
  en_requestId :: "string option"
  en_note :: "string option"
  en_createdBy :: string
  en_createdAt :: string

record absence_request =
  rq_id :: string
  rq_subject :: entity_ref
  rq_leaveTypeKey :: string
  rq_startDate :: string
  rq_endDate :: string
  rq_days :: string
  rq_status :: string
  rq_note :: "string option"
  rq_decidedBy :: "string option"
  rq_decidedAt :: "string option"
  rq_createdBy :: string
  rq_createdAt :: string

record absence_day =
  dy_date :: string
  dy_leaveTypeKey :: string
  dy_requestId :: string

record absence_subject =
  sb_ref :: entity_ref
  sb_dataSubjectId :: string

definition entryKind :: "string list" where
  "entryKind = [''accrual'', ''booking'', ''correction'', ''carryover'', ''reversal'']"

definition requestStatus :: "string list" where
  "requestStatus = [''requested'', ''approved'', ''rejected'', ''cancelled'']"

definition absenceSubject :: "absence_subject \<Rightarrow> bool" where
  "absenceSubject s \<longleftrightarrow> entityRef_ok (sb_ref s) \<and> ulid_pattern (sb_dataSubjectId s)"

definition ab_conflict :: "string \<Rightarrow> string \<Rightarrow> err" where
  "ab_conflict reason msg = SubstratError Conflict (Some reason) msg"

abbreviation ab_returns :: "string \<Rightarrow> bool \<Rightarrow> 'v \<Rightarrow> 'v result" where
  "ab_returns \<equiv> returns ''engine-absence''"

text \<open>\<open>emitAbsenceEvent\<close> for an event about a subject, and for one about a leave type.\<close>

definition subject_event :: "string \<Rightarrow> absence_subject \<Rightarrow> json \<Rightarrow> domain_event_input" where
  "subject_event ty s payload =
     \<lparr>ev_type = ty, ev_schemaVersion = 1, ev_entity = sb_ref s, ev_piiClass = Pseudonymous,
      ev_subjectId = Some (sb_dataSubjectId s), ev_payload = payload\<rparr>"

definition leave_type_event :: "leave_type_row \<Rightarrow> domain_event_input" where
  "leave_type_event r =
     \<lparr>ev_type = ''absence.leave-type-configured'', ev_schemaVersion = 1,
      ev_entity = \<lparr>entityType = ''absence-leave-type'', entityId = lt_key r\<rparr>, ev_piiClass = PiiNone, ev_subjectId = None,
      ev_payload = JObj [(''key'', JStr (lt_key r)), (''floor'', JStr (lt_floor r)), (''active'', JBool (lt_active r = 1))]\<rparr>"

definition json_nullable :: "string option \<Rightarrow> json" where
  "json_nullable x = (case x of None \<Rightarrow> JNull | Some s \<Rightarrow> JStr s)"

section \<open>A stored row, parsed and published\<close>

definition ab_storedEntry :: "ledger_row \<Rightarrow> ledger_row result" where
  "ab_storedEntry r = ab_returns (''ledger row '' @ ae_id r)
     (ae_entry_kind r \<in> set entryKind \<and> signedDecimal (ae_delta r) \<and> calendarDate (ae_effective_date r)) r"

definition storedRequest :: "request_row \<Rightarrow> request_row result" where
  "storedRequest r = ab_returns (''absence request row '' @ ar_id r)
     (calendarDate (ar_start_date r) \<and> calendarDate (ar_end_date r) \<and> nonNegDecimal (ar_days r) \<and> ar_status r \<in> set requestStatus) r"

definition entry_subject :: "ledger_row \<Rightarrow> entity_ref" where
  "entry_subject r = \<lparr>entityType = ae_subject_type r, entityId = ae_subject_id r\<rparr>"

definition subjectRefOf :: "request_row \<Rightarrow> entity_ref" where
  "subjectRefOf r = \<lparr>entityType = ar_subject_type r, entityId = ar_subject_id r\<rparr>"

definition ab_toEntry :: "ledger_row \<Rightarrow> absence_entry result" where
  "ab_toEntry raw =
     bind_r (ab_storedEntry raw) (\<lambda>r.
       ab_returns (''absence entry '' @ ae_id r)
         (entityRef_ok (entry_subject r) \<and> ae_entry_kind r \<in> set entryKind \<and> calendarDate (ae_effective_date r))
         \<lparr>en_id = ae_id r, en_subject = entry_subject r, en_leaveTypeKey = ae_leave_type_key r, en_entryKind = ae_entry_kind r,
          en_delta = ae_delta r, en_effectiveDate = ae_effective_date r, en_requestId = ae_request_id r, en_note = ae_note r,
          en_createdBy = ae_created_by r, en_createdAt = ae_created_at r\<rparr>)"

definition toRequest :: "request_row \<Rightarrow> absence_request result" where
  "toRequest raw =
     bind_r (storedRequest raw) (\<lambda>r.
       ab_returns (''absence request '' @ ar_id r)
         (entityRef_ok (subjectRefOf r) \<and> calendarDate (ar_start_date r) \<and> calendarDate (ar_end_date r) \<and> ar_status r \<in> set requestStatus)
         \<lparr>rq_id = ar_id r, rq_subject = subjectRefOf r, rq_leaveTypeKey = ar_leave_type_key r, rq_startDate = ar_start_date r,
          rq_endDate = ar_end_date r, rq_days = ar_days r, rq_status = ar_status r, rq_note = ar_note r, rq_decidedBy = ar_decided_by r,
          rq_decidedAt = ar_decided_at r, rq_createdBy = ar_created_by r, rq_createdAt = ar_created_at r\<rparr>)"

definition toLeaveType :: "leave_type_row \<Rightarrow> leave_type result" where
  "toLeaveType r = Inr \<lparr>lv_key = lt_key r, lv_floor = lt_floor r, lv_active = (lt_active r = 1), lv_createdAt = lt_created_at r\<rparr>"

text \<open>\<open>negate\<close>, on text: \<open>5\<close> becomes \<open>-5\<close>, \<open>-5\<close> becomes \<open>5\<close>, a zero becomes \<open>0\<close>.\<close>

definition negate_decimal :: "string \<Rightarrow> string result" where
  "negate_decimal d =
     bind_r (compareDecimal d ''0'') (\<lambda>c.
       Inr (if c = 0 then ''0'' else if startsWith d ''-'' then drop 1 d else CHR ''-'' # d))"

definition getRequestRow :: "string \<Rightarrow> 'a ab_store_scheme \<Rightarrow> request_row result" where
  "getRequestRow i st =
     (case row_where (\<lambda>r. ar_id r = i) (ab_requests st) of
        Some r \<Rightarrow> storedRequest r
      | None \<Rightarrow> Inl (SubstratError Not_Found None (''absence request not found: '' @ i)))"

definition getLeaveTypeRow :: "string \<Rightarrow> 'a ab_store_scheme \<Rightarrow> leave_type_row result" where
  "getLeaveTypeRow key st =
     (case row_where (\<lambda>r. lt_key r = key) (ab_types st) of
        Some r \<Rightarrow> Inr r
      | None \<Rightarrow> Inl (SubstratError Not_Found None (''leave type not found: '' @ key)))"

definition getEntryRow :: "string \<Rightarrow> 'a ab_store_scheme \<Rightarrow> ledger_row result" where
  "getEntryRow i st =
     (case row_where (\<lambda>r. ae_id r = i) (ab_ledger st) of
        Some r \<Rightarrow> ab_storedEntry r
      | None \<Rightarrow> Inl (SubstratError Internal None (''ledger entry '' @ i @ '' vanished after insert'')))"

section \<open>The ledger\<close>

record ledger_input =
  li_subject :: absence_subject
  li_leaveTypeKey :: string
  li_entryKind :: string
  li_delta :: string
  li_effectiveDate :: string
  li_requestId :: "string option"
  li_note :: "string option"

definition new_ledger_row :: "op_ctx \<Rightarrow> string \<Rightarrow> ledger_input \<Rightarrow> ledger_row" where
  "new_ledger_row cx i input =
     \<lparr>ae_id = i, ae_subject_type = entityType (sb_ref (li_subject input)), ae_subject_id = entityId (sb_ref (li_subject input)),
      ae_data_subject_id = sb_dataSubjectId (li_subject input), ae_leave_type_key = li_leaveTypeKey input,
      ae_entry_kind = li_entryKind input, ae_delta = li_delta input, ae_effective_date = li_effectiveDate input,
      ae_request_id = li_requestId input, ae_note = li_note input, ae_created_by = cx_principal cx, ae_created_at = cx_at cx\<rparr>"

definition insertEntry ::
  "op_ctx \<Rightarrow> ledger_input \<Rightarrow> 'a ab_store_scheme \<Rightarrow> (absence_entry \<times> 'a ab_store_scheme) result" where
  "insertEntry cx input st =
     (case ulid cx st of (i, st1) \<Rightarrow>
      bind_r (insert_row (\<lambda>a b. ae_id a = ae_id b) (new_ledger_row cx i input) (ab_ledger st1)) (\<lambda>rows.
      let st2 = st1\<lparr>ab_ledger := rows\<rparr> in
      bind_r (bind_r (getEntryRow i st2) ab_toEntry) (\<lambda>entry.
      bind_r (emit cx (subject_event ''absence.entry-recorded'' (li_subject input)
         (JObj [(''entryId'', JStr i), (''subject'', json_ref (sb_ref (li_subject input))),
                (''leaveTypeKey'', JStr (li_leaveTypeKey input)), (''entryKind'', JStr (li_entryKind input)),
                (''delta'', JStr (li_delta input)), (''effectiveDate'', JStr (li_effectiveDate input)),
                (''requestId'', json_nullable (li_requestId input))])) st2) (\<lambda>st3.
        Inr (entry, st3)))))"

text \<open>The fold of a balance; every summand is parsed before it is added.\<close>

fun fold_deltas :: "string \<Rightarrow> string list \<Rightarrow> string result" where
  "fold_deltas acc [] = Inr acc"
| "fold_deltas acc (d # ds) =
     bind_r (ab_returns ''ledger delta'' (signedDecimal d) d) (\<lambda>d.
     bind_r (addDecimal acc d) (\<lambda>acc'. fold_deltas acc' ds))"

definition counted :: "entity_ref \<Rightarrow> string \<Rightarrow> string option \<Rightarrow> ledger_row \<Rightarrow> bool" where
  "counted subj key asOf e \<longleftrightarrow>
     entry_subject e = subj \<and> ae_leave_type_key e = key \<and> if_given (\<lambda>d. ae_effective_date e \<le> d) asOf"

definition balanceAsOf :: "entity_ref \<Rightarrow> string \<Rightarrow> string option \<Rightarrow> 'a ab_store_scheme \<Rightarrow> string result" where
  "balanceAsOf subj key askAsOf st =
     bind_r (optional_r isoDate askAsOf) (\<lambda>asOf.
     bind_r (fold_deltas ''0'' (map ae_delta (filter (counted subj key asOf) (ab_ledger st)))) (\<lambda>balance.
       ab_returns (''balance of '' @ quoted key) (signedDecimal balance) balance))"

section \<open>In-scope functions\<close>

record leave_type_input =
  lc_key :: string
  lc_floor :: "string option"
  lc_active :: "bool option"

text \<open>\<open>INSERT ... ON CONFLICT(key) DO UPDATE\<close>; both columns are \<open>COALESCE(?, column)\<close>.\<close>

definition new_leave_type :: "op_ctx \<Rightarrow> leave_type_input \<Rightarrow> leave_type_row" where
  "new_leave_type cx input =
     \<lparr>lt_key = lc_key input, lt_floor = or_else (lc_floor input) ''0'',
      lt_active = (if lc_active input = Some False then 0 else 1), lt_created_at = cx_at cx\<rparr>"

definition revised_leave_type :: "leave_type_input \<Rightarrow> leave_type_row \<Rightarrow> leave_type_row" where
  "revised_leave_type input r =
     r\<lparr>lt_floor := or_else (lc_floor input) (lt_floor r),
       lt_active := (case lc_active input of None \<Rightarrow> lt_active r | Some a \<Rightarrow> if a then 1 else 0)\<rparr>"

definition upsert_leave_type :: "op_ctx \<Rightarrow> leave_type_input \<Rightarrow> leave_type_row list \<Rightarrow> leave_type_row list" where
  "upsert_leave_type cx input rows =
     (if list_ex (\<lambda>r. lt_key r = lc_key input) rows
      then update_where (\<lambda>r. lt_key r = lc_key input) (revised_leave_type input) rows
      else rows @ [new_leave_type cx input])"

definition configureLeaveType ::
  "op_ctx \<Rightarrow> leave_type_input \<Rightarrow> 'a ab_store_scheme \<Rightarrow> (leave_type \<times> 'a ab_store_scheme) result" where
  "configureLeaveType cx input st =
     bind_r (guard_r (lc_key input \<noteq> [] \<and> if_given signedDecimal (lc_floor input)) (ZodError ''configureLeaveTypeInput'')) (\<lambda>_.
     let st1 = st\<lparr>ab_types := upsert_leave_type cx input (ab_types st)\<rparr> in
     bind_r (getLeaveTypeRow (lc_key input) st1) (\<lambda>row.
     bind_r (emit cx (leave_type_event row) st1) (\<lambda>st2.
     bind_r (toLeaveType row) (\<lambda>v. Inr (v, st2)))))"

definition listLeaveTypes :: "'a ab_store_scheme \<Rightarrow> leave_type list result" where
  "listLeaveTypes st = traverse toLeaveType (sort_key lt_key (ab_types st))"

text \<open>The input of an administrative entry has no request id; the other fields are those of \<open>ledger_input\<close>.\<close>

definition ADMIN_KINDS :: "string list" where
  "ADMIN_KINDS = [''accrual'', ''correction'', ''carryover'']"

definition recordEntryInput :: "ledger_input \<Rightarrow> ledger_input result" where
  "recordEntryInput input =
     bind_r (guard_r (absenceSubject (li_subject input) \<and> li_leaveTypeKey input \<noteq> [] \<and> li_entryKind input \<in> set ADMIN_KINDS \<and>
        signedDecimal (li_delta input) \<and> calendarDate (li_effectiveDate input)) (ZodError ''recordEntryInput'')) (\<lambda>_.
       Inr (input\<lparr>li_requestId := None\<rparr>))"

definition recordEntry ::
  "op_ctx \<Rightarrow> ledger_input \<Rightarrow> 'a ab_store_scheme \<Rightarrow> (absence_entry \<times> 'a ab_store_scheme) result" where
  "recordEntry cx rawInput st =
     bind_r (recordEntryInput rawInput) (\<lambda>input.
     bind_r (getLeaveTypeRow (li_leaveTypeKey input) st) (\<lambda>_. insertEntry cx input st))"

record absence_input =
  ai_subject :: absence_subject
  ai_leaveTypeKey :: string
  ai_startDate :: string
  ai_endDate :: string
  ai_days :: string
  ai_note :: "string option"

text \<open>
  The refinement of \<open>days\<close> runs although its pattern failed (a schema runs all its checks), so text that
  is no number at all raises what \<open>BigInt\<close> throws.
\<close>

definition requestAbsenceInput :: "absence_input \<Rightarrow> unit result" where
  "requestAbsenceInput input =
     bind_r (compareDecimal (ai_days input) ''0'') (\<lambda>c.
       guard_r (absenceSubject (ai_subject input) \<and> ai_leaveTypeKey input \<noteq> [] \<and> calendarDate (ai_startDate input) \<and>
          calendarDate (ai_endDate input) \<and> nonNegDecimal (ai_days input) \<and> 0 < c) (ZodError ''requestAbsenceInput''))"

definition new_request :: "op_ctx \<Rightarrow> string \<Rightarrow> absence_input \<Rightarrow> request_row" where
  "new_request cx i input =
     \<lparr>ar_id = i, ar_subject_type = entityType (sb_ref (ai_subject input)), ar_subject_id = entityId (sb_ref (ai_subject input)),
      ar_data_subject_id = sb_dataSubjectId (ai_subject input), ar_leave_type_key = ai_leaveTypeKey input,
      ar_start_date = ai_startDate input, ar_end_date = ai_endDate input, ar_days = ai_days input, ar_status = ''requested'',
      ar_note = ai_note input, ar_decided_by = None, ar_decided_at = None, ar_created_by = cx_principal cx, ar_created_at = cx_at cx\<rparr>"

definition requestAbsence ::
  "op_ctx \<Rightarrow> absence_input \<Rightarrow> 'a ab_store_scheme \<Rightarrow> (absence_request \<times> 'a ab_store_scheme) result" where
  "requestAbsence cx input st =
     bind_r (requestAbsenceInput input) (\<lambda>_.
     bind_r (guard_r (ai_startDate input \<le> ai_endDate input)
        (SubstratError Validation_Failed None (''endDate '' @ ai_endDate input @ '' precedes startDate '' @ ai_startDate input))) (\<lambda>_.
     bind_r (getLeaveTypeRow (ai_leaveTypeKey input) st) (\<lambda>ty.
     bind_r (guard_r (lt_active ty = 1)
        (ab_conflict ''leave_type_inactive'' (''leave type '' @ quoted (ai_leaveTypeKey input) @ '' is inactive''))) (\<lambda>_.
     case ulid cx st of (i, st1) \<Rightarrow>
     bind_r (insert_row (\<lambda>a b. ar_id a = ar_id b) (new_request cx i input) (ab_requests st1)) (\<lambda>rows.
     bind_r (emit cx (subject_event ''absence.requested'' (ai_subject input)
        (JObj [(''requestId'', JStr i), (''subject'', json_ref (sb_ref (ai_subject input))),
               (''leaveTypeKey'', JStr (ai_leaveTypeKey input)), (''startDate'', JStr (ai_startDate input)),
               (''endDate'', JStr (ai_endDate input)), (''days'', JStr (ai_days input))])) (st1\<lparr>ab_requests := rows\<rparr>)) (\<lambda>st2.
     bind_r (bind_r (getRequestRow i st2) toRequest) (\<lambda>v. Inr (v, st2))))))))"

text \<open>A stored request's subject; the erasure key is parsed again.\<close>

definition stored_subject :: "request_row \<Rightarrow> absence_subject result" where
  "stored_subject r =
     (if ulid_pattern (ar_data_subject_id r) then Inr \<lparr>sb_ref = subjectRefOf r, sb_dataSubjectId = ar_data_subject_id r\<rparr>
      else Inl (ZodError ''dataSubjectId''))"

definition set_request :: "string \<Rightarrow> (request_row \<Rightarrow> request_row) \<Rightarrow> 'a ab_store_scheme \<Rightarrow> 'a ab_store_scheme" where
  "set_request i f st = st\<lparr>ab_requests := update_where (\<lambda>r. ar_id r = i) f (ab_requests st)\<rparr>"

definition coalesce :: "'a option \<Rightarrow> 'a option \<Rightarrow> 'a option" where
  "coalesce x y = (case x of None \<Rightarrow> y | Some v \<Rightarrow> Some v)"

definition rejected_row :: "op_ctx \<Rightarrow> string option \<Rightarrow> request_row \<Rightarrow> request_row" where
  "rejected_row cx note r =
     r\<lparr>ar_status := ''rejected'', ar_decided_by := Some (cx_principal cx), ar_decided_at := Some (cx_at cx), ar_note := coalesce note (ar_note r)\<rparr>"

definition approved_row :: "op_ctx \<Rightarrow> request_row \<Rightarrow> request_row" where
  "approved_row cx r = r\<lparr>ar_status := ''approved'', ar_decided_by := Some (cx_principal cx), ar_decided_at := Some (cx_at cx)\<rparr>"

definition cancelled_row :: "op_ctx \<Rightarrow> string option \<Rightarrow> request_row \<Rightarrow> request_row" where
  "cancelled_row cx reason r = r\<lparr>ar_status := ''cancelled'', ar_decided_at := Some (cx_at cx), ar_note := coalesce reason (ar_note r)\<rparr>"

definition expired_row :: "op_ctx \<Rightarrow> request_row \<Rightarrow> request_row" where
  "expired_row cx r = r\<lparr>ar_status := ''cancelled'', ar_decided_at := Some (cx_at cx),
     ar_note := coalesce (ar_note r) (Some ''auto-expired: start date passed before approval'')\<rparr>"

definition decided_event :: "absence_subject \<Rightarrow> request_row \<Rightarrow> string \<Rightarrow> json \<Rightarrow> (string \<times> json) list \<Rightarrow> domain_event_input" where
  "decided_event s r decision booking interval =
     subject_event ''absence.decided'' s
       (JObj ([(''requestId'', JStr (ar_id r)), (''subject'', json_ref (sb_ref s)), (''leaveTypeKey'', JStr (ar_leave_type_key r)),
               (''decision'', JStr decision), (''bookingId'', booking)] @ interval))"

text \<open>The entry a request books, or takes back.\<close>

definition request_entry :: "absence_subject \<Rightarrow> request_row \<Rightarrow> string \<Rightarrow> string \<Rightarrow> string \<Rightarrow> string option \<Rightarrow> ledger_input" where
  "request_entry s r kind delta date note =
     \<lparr>li_subject = s, li_leaveTypeKey = ar_leave_type_key r, li_entryKind = kind, li_delta = delta,
      li_effectiveDate = date, li_requestId = Some (ar_id r), li_note = note\<rparr>"

record decide_input =
  di_requestId :: string
  di_decision :: string
  di_note :: "string option"

definition rejectRequest ::
  "op_ctx \<Rightarrow> absence_subject \<Rightarrow> decide_input \<Rightarrow> request_row \<Rightarrow> 'a ab_store_scheme \<Rightarrow>
     ((absence_request \<times> absence_entry option) \<times> 'a ab_store_scheme) result" where
  "rejectRequest cx s input req st =
     (let st1 = set_request (ar_id req) (rejected_row cx (di_note input)) st in
      bind_r (emit cx (decided_event s req ''rejected'' JNull []) st1) (\<lambda>st2.
      bind_r (bind_r (getRequestRow (ar_id req) st2) toRequest) (\<lambda>v. Inr ((v, None), st2))))"

definition approveRequest ::
  "op_ctx \<Rightarrow> absence_subject \<Rightarrow> decide_input \<Rightarrow> request_row \<Rightarrow> 'a ab_store_scheme \<Rightarrow>
     ((absence_request \<times> absence_entry option) \<times> 'a ab_store_scheme) result" where
  "approveRequest cx s input req st =
     bind_r (getLeaveTypeRow (ar_leave_type_key req) st) (\<lambda>ty.
     bind_r (balanceAsOf (sb_ref s) (ar_leave_type_key req) None st) (\<lambda>balance.
     bind_r (negate_decimal (ar_days req)) (\<lambda>taken.
     bind_r (addDecimal balance taken) (\<lambda>remaining.
     bind_r (compareDecimal remaining (lt_floor ty)) (\<lambda>c.
     bind_r (guard_r (0 \<le> c) (ab_conflict ''insufficient_balance''
        (''insufficient balance: '' @ balance @ '' day(s) of '' @ quoted (ar_leave_type_key req) @ '' (floor '' @ lt_floor ty @
         ''), request needs '' @ ar_days req))) (\<lambda>_.
     bind_r (insertEntry cx (request_entry s req ''booking'' taken (ar_start_date req) (di_note input)) st) (\<lambda>(booking, st1).
     bind_r (emit cx (decided_event s req ''approved'' (JStr (en_id booking))
        [(''days'', JStr (ar_days req)), (''startDate'', JStr (ar_start_date req)), (''endDate'', JStr (ar_end_date req))])
        (set_request (ar_id req) (approved_row cx) st1)) (\<lambda>st2.
     bind_r (bind_r (getRequestRow (ar_id req) st2) toRequest) (\<lambda>v. Inr ((v, Some booking), st2))))))))))"

definition decideAbsence ::
  "op_ctx \<Rightarrow> decide_input \<Rightarrow> 'a ab_store_scheme \<Rightarrow> ((absence_request \<times> absence_entry option) \<times> 'a ab_store_scheme) result" where
  "decideAbsence cx input st =
     bind_r (guard_r (di_requestId input \<noteq> [] \<and> di_decision input \<in> {''approve'', ''reject''}) (ZodError ''decideAbsenceInput'')) (\<lambda>_.
     bind_r (getRequestRow (di_requestId input) st) (\<lambda>req.
     bind_r (guard_r (ar_status req = ''requested'') (ab_conflict ''wrong_status''
        (''absence request '' @ ar_id req @ '' is '' @ quoted (ar_status req) @ '', only a requested absence can be decided''))) (\<lambda>_.
     bind_r (stored_subject req) (\<lambda>s.
       if di_decision input = ''reject'' then rejectRequest cx s input req st else approveRequest cx s input req st))))"

record cancel_input =
  xi_requestId :: string
  xi_reason :: "string option"

definition booking_of :: "string \<Rightarrow> 'a ab_store_scheme \<Rightarrow> ledger_row option" where
  "booking_of i st = row_where (\<lambda>e. ae_request_id e = Some i \<and> ae_entry_kind e = ''booking'') (ab_ledger st)"

text \<open>The compensating entry of an approved request; a requested one touches no ledger.\<close>

definition reverse_booking ::
  "op_ctx \<Rightarrow> absence_subject \<Rightarrow> cancel_input \<Rightarrow> request_row \<Rightarrow> 'a ab_store_scheme \<Rightarrow> (absence_entry option \<times> 'a ab_store_scheme) result" where
  "reverse_booking cx s input req st =
     (if ar_status req \<noteq> ''approved'' then Inr (None, st)
      else case booking_of (ar_id req) st of
        None \<Rightarrow> Inl (SubstratError Internal None (''approved request '' @ ar_id req @ '' has no booking entry''))
      | Some row \<Rightarrow>
          bind_r (ab_storedEntry row) (\<lambda>booking.
          bind_r (negate_decimal (ae_delta booking)) (\<lambda>back.
          bind_r (insertEntry cx (request_entry s req ''reversal'' back (ae_effective_date booking) (xi_reason input)) st) (\<lambda>(reversal, st1).
            Inr (Some reversal, st1)))))"

definition cancelAbsence ::
  "op_ctx \<Rightarrow> cancel_input \<Rightarrow> 'a ab_store_scheme \<Rightarrow> ((absence_request \<times> absence_entry option) \<times> 'a ab_store_scheme) result" where
  "cancelAbsence cx input st =
     bind_r (guard_r (xi_requestId input \<noteq> []) (ZodError ''cancelAbsenceInput'')) (\<lambda>_.
     bind_r (getRequestRow (xi_requestId input) st) (\<lambda>req.
     bind_r (guard_r (ar_status req \<in> {''requested'', ''approved''}) (ab_conflict ''wrong_status''
        (''absence request '' @ ar_id req @ '' is '' @ quoted (ar_status req) @ '', only requested or approved can be cancelled''))) (\<lambda>_.
     bind_r (stored_subject req) (\<lambda>s.
     bind_r (reverse_booking cx s input req st) (\<lambda>(reversal, st1).
     bind_r (emit cx (subject_event ''absence.cancelled'' s
        (JObj [(''requestId'', JStr (ar_id req)), (''subject'', json_ref (sb_ref s)), (''leaveTypeKey'', JStr (ar_leave_type_key req)),
               (''priorStatus'', JStr (ar_status req)), (''reversalId'', json_nullable (map_option en_id reversal))]))
        (set_request (ar_id req) (cancelled_row cx (xi_reason input)) st1)) (\<lambda>st2.
     bind_r (bind_r (getRequestRow (ar_id req) st2) toRequest) (\<lambda>v. Inr ((v, reversal), st2))))))))"

definition STALE_BATCH :: nat where
  "STALE_BATCH = 100"

definition stale :: "string \<Rightarrow> request_row \<Rightarrow> bool" where
  "stale today r \<longleftrightarrow> ar_status r = ''requested'' \<and> ar_start_date r < today"

fun expire_each :: "op_ctx \<Rightarrow> request_row list \<Rightarrow> 'a ab_store_scheme \<Rightarrow> 'a ab_store_scheme result" where
  "expire_each cx [] st = Inr st"
| "expire_each cx (req # reqs) st =
     bind_r (stored_subject req) (\<lambda>s.
     bind_r (emit cx (subject_event ''absence.expired'' s
        (JObj [(''requestId'', JStr (ar_id req)), (''subject'', json_ref (sb_ref s)), (''startDate'', JStr (ar_start_date req))]))
        (set_request (ar_id req) (expired_row cx) st)) (expire_each cx reqs))"

definition expireStaleRequests :: "op_ctx \<Rightarrow> 'a ab_store_scheme \<Rightarrow> (nat \<times> 'a ab_store_scheme) result" where
  "expireStaleRequests cx st =
     bind_r (traverse storedRequest
        (take STALE_BATCH (sort_key ar_start_date (filter (stale (take 10 (cx_at cx))) (ab_requests st))))) (\<lambda>reqs.
     bind_r (expire_each cx reqs st) (\<lambda>st1. Inr (length reqs, st1)))"

section \<open>Reads\<close>

text \<open>\<open>ORDER BY created_at DESC, id DESC\<close>; ids are unique.\<close>

definition listRequests :: "entity_ref option \<Rightarrow> string option \<Rightarrow> 'a ab_store_scheme \<Rightarrow> absence_request list result" where
  "listRequests subj status st =
     traverse toRequest (rev (sort_key ar_created_at (sort_key ar_id
       (filter (\<lambda>r. if_given (\<lambda>x. subjectRefOf r = x) subj \<and> (truthy status \<longrightarrow> Some (ar_status r) = status)) (ab_requests st)))))"

definition ab_listEntries :: "entity_ref \<Rightarrow> string option \<Rightarrow> 'a ab_store_scheme \<Rightarrow> absence_entry list result" where
  "ab_listEntries subj key st =
     traverse ab_toEntry (sort_key ae_effective_date (sort_key ae_id
       (filter (\<lambda>e. entry_subject e = subj \<and> (truthy key \<longrightarrow> Some (ae_leave_type_key e) = key)) (ab_ledger st))))"

definition entriesInWindow :: "string \<Rightarrow> string \<Rightarrow> string option \<Rightarrow> 'a ab_store_scheme \<Rightarrow> absence_entry list result" where
  "entriesInWindow askFrom askTo kind st =
     bind_r (isoDate askFrom) (\<lambda>from.
     bind_r (isoDate askTo) (\<lambda>to.
       traverse ab_toEntry (sort_key ae_subject_id (sort_key ae_effective_date (sort_key ae_id
         (filter (\<lambda>e. from \<le> ae_effective_date e \<and> ae_effective_date e \<le> to \<and> (truthy kind \<longrightarrow> Some (ae_entry_kind e) = kind))
            (ab_ledger st)))))))"


section \<open>Days\<close>

text \<open>
  \<open>Date.UTC\<close> and the date part of \<open>toISOString\<close>, as the language defines them (\<open>DayFromYear\<close>,
  \<open>YearFromTime\<close>, \<open>MonthFromTime\<close>).  \<open>Date.UTC\<close> reads the years 0 to 99 as 1900 to 1999; its months and
  days here are those of a calendar date, and the years printed have four digits.
\<close>

definition MS_PER_DAY :: int where
  "MS_PER_DAY = 86400000"

definition day_from_year :: "int \<Rightarrow> int" where
  "day_from_year y = 365 * (y - 1970) + (y - 1969) div 4 - (y - 1901) div 100 + (y - 1601) div 400"

definition days_before_month :: "int \<Rightarrow> int \<Rightarrow> int" where
  "days_before_month y m = sum_list (map (days_in_month y) [1..m - 1])"

definition date_utc :: "int \<Rightarrow> int \<Rightarrow> int \<Rightarrow> int" where
  "date_utc year m d =
     (let y = (if 0 \<le> year \<and> year \<le> 99 then 1900 + year else year) in
      MS_PER_DAY * (day_from_year y + days_before_month y m + d - 1))"

definition year_of_day :: "int \<Rightarrow> int" where
  "year_of_day n =
     (let y = 1970 + 400 * n div 146097 in
      if n < day_from_year y then y - 1 else if day_from_year (y + 1) \<le> n then y + 1 else y)"

definition month_of_day :: "int \<Rightarrow> int \<Rightarrow> int" where
  "month_of_day y k = hd (filter (\<lambda>m. k < days_before_month y (m + 1)) [1..12])"

definition date_text :: "int \<Rightarrow> int \<Rightarrow> int \<Rightarrow> string" where
  "date_text y m d = padStart0 4 (show_nat (nat y)) @ ''-'' @ padStart0 2 (show_nat (nat m)) @ ''-'' @ padStart0 2 (show_nat (nat d))"

definition iso_date_of :: "int \<Rightarrow> string" where
  "iso_date_of ms =
     (let n = ms div MS_PER_DAY; y = year_of_day n; k = n - day_from_year y; m = month_of_day y k in
      date_text y m (k - days_before_month y m + 1))"

definition utc_of_text :: "string \<Rightarrow> int" where
  "utc_of_text s = date_utc (slice_number 0 4 s) (slice_number 5 7 s) (slice_number 8 10 s)"

function each_date_from :: "int \<Rightarrow> int \<Rightarrow> string list" where
  "each_date_from cur end =
     (if cur \<le> end then iso_date_of cur # each_date_from (cur + MS_PER_DAY) end else [])"
  by auto
termination
  by (relation "measure (\<lambda>(cur, end). nat (end + 1 - cur))") (simp_all add: MS_PER_DAY_def)

declare each_date_from.simps [simp del]

definition eachDate :: "string \<Rightarrow> string \<Rightarrow> string list" where
  "eachDate from to = each_date_from (utc_of_text from) (utc_of_text to)"

definition covering :: "entity_ref \<Rightarrow> string \<Rightarrow> string \<Rightarrow> request_row \<Rightarrow> bool" where
  "covering subj from to r \<longleftrightarrow>
     subjectRefOf r = subj \<and> ar_status r = ''approved'' \<and> ar_start_date r \<le> to \<and> from \<le> ar_end_date r"

definition days_of :: "string \<Rightarrow> string \<Rightarrow> request_row \<Rightarrow> absence_day list" where
  "days_of from to r =
     (let start = (if ar_start_date r < from then from else ar_start_date r);
          end = (if to < ar_end_date r then to else ar_end_date r) in
      map (\<lambda>d. \<lparr>dy_date = d, dy_leaveTypeKey = ar_leave_type_key r, dy_requestId = ar_id r\<rparr>) (eachDate start end))"

definition absence_availability ::
  "entity_ref \<Rightarrow> string \<Rightarrow> string \<Rightarrow> 'a ab_store_scheme \<Rightarrow> (absence_day list \<times> absence_request list) result" where
  "absence_availability subj askFrom askTo st =
     bind_r (isoDate askFrom) (\<lambda>from.
     bind_r (isoDate askTo) (\<lambda>to.
     bind_r (guard_r (from \<le> to) (SubstratError Validation_Failed None (''to '' @ to @ '' precedes from '' @ from))) (\<lambda>_.
     bind_r (traverse storedRequest (sort_key ar_start_date (sort_key ar_id (filter (covering subj from to) (ab_requests st))))) (\<lambda>rows.
     let days = concat (map (days_of from to) rows) in
     bind_r (ab_returns (''availability of '' @ entityId subj) (list_all (\<lambda>d. calendarDate (dy_date d)) days) days) (\<lambda>days.
     bind_r (traverse toRequest rows) (\<lambda>requests. Inr (days, requests)))))))"

section \<open>Operation bindings\<close>

definition configureLeaveTypeOp where
  "configureLeaveTypeOp cx input st = bind_r (require cx ''absence:configure'' None st) (configureLeaveType cx input)"

definition recordEntryOp where
  "recordEntryOp cx input st = bind_r (require cx ''absence:configure'' None st) (recordEntry cx input)"

definition requestOp where
  "requestOp cx input st =
     bind_r (requestAbsenceInput input) (\<lambda>_.
     bind_r (require cx ''absence:request'' (Some (sb_ref (ai_subject input))) st) (requestAbsence cx input))"

definition decideOp where
  "decideOp cx input st = bind_r (require cx ''absence:approve'' None st) (decideAbsence cx input)"

text \<open>An approver, or the subject of a request that is still open.\<close>

definition cancelOp ::
  "op_ctx \<Rightarrow> cancel_input \<Rightarrow> 'a ab_store_scheme \<Rightarrow> ((absence_request \<times> absence_entry option) \<times> 'a ab_store_scheme) result" where
  "cancelOp cx input st =
     bind_r (guard_r (xi_requestId input \<noteq> []) (ZodError ''cancelAbsenceInput'')) (\<lambda>_.
     bind_r (decideCheck cx ''absence:approve'' None st) (\<lambda>(asApprover, st1).
     bind_r (if allowed asApprover then Inr st1
             else bind_r (getRequestRow (xi_requestId input) st1) (\<lambda>req.
                  bind_r (if ar_status req \<noteq> ''requested'' then assertAllowed asApprover else Inr ()) (\<lambda>_.
                    require cx ''absence:request'' (Some (subjectRefOf req)) st1))) (\<lambda>st2.
       cancelAbsence cx input st2)))"

definition expireStaleOp where
  "expireStaleOp cx st = bind_r (require cx ''absence:approve'' None st) (expireStaleRequests cx)"

text \<open>A read, checked on the scope or narrowed to a parsed subject.\<close>

definition ab_read_op ::
  "op_ctx \<Rightarrow> entity_ref option \<Rightarrow> ('a ab_store_scheme \<Rightarrow> 'v result) \<Rightarrow> 'a ab_store_scheme \<Rightarrow> ('v \<times> 'a ab_store_scheme) result" where
  "ab_read_op cx subj answer st =
     bind_r (guard_r (if_given entityRef_ok subj) (ZodError ''entityRef'')) (\<lambda>_.
     bind_r (require cx ''absence:read'' subj st) (\<lambda>st1. bind_r (answer st1) (\<lambda>v. Inr (v, st1))))"

definition ab_entry_cursor :: "absence_entry \<Rightarrow> string" where
  "ab_entry_cursor e = en_effectiveDate e @ [CHR 0x00] @ en_id e"

definition listLeaveTypesOp where
  "listLeaveTypesOp cx asked cursor =
     ab_read_op cx None (\<lambda>st. bind_r (listLeaveTypes st) (\<lambda>ts. Inr (pageOverFold ts asked cursor lv_key True)))"

definition balanceOp where
  "balanceOp cx subj key asOf = ab_read_op cx (Some subj) (balanceAsOf subj key asOf)"

definition availabilityOp where
  "availabilityOp cx subj from to = ab_read_op cx (Some subj) (absence_availability subj from to)"

definition listRequestsOp where
  "listRequestsOp cx subj status asked cursor =
     ab_read_op cx subj (\<lambda>st. bind_r (listRequests subj status st) (\<lambda>rs. Inr (pageOverFold rs asked cursor rq_id False)))"

definition ab_listEntriesOp where
  "ab_listEntriesOp cx subj key asked cursor =
     ab_read_op cx (Some subj) (\<lambda>st. bind_r (ab_listEntries subj key st) (\<lambda>es. Inr (pageOverFold es asked cursor ab_entry_cursor True)))"


end
