(* ===== verification/Absence_Ledger.thy ===== *)
theory Absence_Ledger
  imports Absence
begin

text \<open>
  What the absence engine keeps.  Every call is a step of the ledger and the request book (\<open>ab_tab\<close>); the
  invariant \<open>absence_ok\<close> ties the two together: an approved request has exactly one booking of its days, a
  cancelled one has none or a booking and the entry that takes it back, any other has none.  So a balance
  is what was recorded by an administrator less the days of the approved requests.
\<close>

section \<open>Signed decimals\<close>

lemma decimal_no_sign: "decimalString d \<Longrightarrow> \<not> startsWith d ''-''"
proof
  assume d: "decimalString d" and "startsWith d ''-''"
  then obtain r where r: "d = CHR ''-'' # r" by (auto simp: startsWith_iff)
  have "\<not> is_digit (CHR ''-'')" by code_simp
  then show False using d by (simp add: r decimalString_def Let_def)
qed

lemma nonNeg_signed: "nonNegDecimal d \<Longrightarrow> signedDecimal d"
  using decimal_no_sign [of d] by (simp add: nonNegDecimal_def signedDecimal_def)

lemma toMicro_minus:
  assumes "\<not> startsWith d ''-''"
  shows "toMicro (CHR ''-'' # d) = bind_r (toMicro d) (\<lambda>m. Inr (- m))"
  using assms by (simp add: toMicro_def startsWith_def bind_r_assoc Let_def)

lemma micro_eq: "toMicro d = Inr m \<Longrightarrow> micro d = m"
  by (simp add: micro_def)

lemma micro_minus:
  assumes "decimalString d"
  shows "micro (CHR ''-'' # d) = - micro d"
proof -
  have "toMicro d = Inr (micro d)" using assms nonNeg_signed [of d] by (intro toMicro_micro) (simp add: nonNegDecimal_def)
  then have "toMicro (CHR ''-'' # d) = Inr (- micro d)" by (simp add: toMicro_minus [OF decimal_no_sign [OF assms]])
  then show ?thesis by (rule micro_eq)
qed

lemma compareDecimal_signed:
  "signedDecimal a \<Longrightarrow> signedDecimal b \<Longrightarrow> compareDecimal a b = Inr (if micro a < micro b then -1 else if micro b < micro a then 1 else 0)"
  by (simp add: compareDecimal_def toMicro_micro)

lemma addDecimal_signed: "signedDecimal a \<Longrightarrow> signedDecimal b \<Longrightarrow> addDecimal a b = Inr (fromMicro (micro a + micro b))"
  by (simp add: addDecimal_def toMicro_micro)

lemma negate_signed:
  assumes "signedDecimal d"
  obtains n where "negate_decimal d = Inr n" and "signedDecimal n" and "micro n = - micro d"
proof (cases "micro d = 0")
  case True
  then show thesis
    using that [of "''0''"] assms zero_qty by (simp add: negate_decimal_def compareDecimal_signed)
next
  case False
  show thesis
  proof (cases "startsWith d ''-''")
    case True
    then obtain r where r: "d = CHR ''-'' # r" by (auto simp: startsWith_iff)
    with assms have dec: "decimalString r" by (simp add: signedDecimal_def startsWith_def)
    then have "signedDecimal r" using nonNeg_signed by (simp add: nonNegDecimal_def)
    moreover have "micro d = - micro r" using micro_minus [OF dec] by (simp add: r)
    moreover have "negate_decimal d = Inr r"
      using False True assms zero_qty by (simp add: negate_decimal_def compareDecimal_signed r)
    ultimately show thesis by (intro that [of r]) simp_all
  next
    case False2: False
    then have dec: "decimalString d" using assms by (simp add: signedDecimal_def)
    have "signedDecimal (CHR ''-'' # d)" using dec by (simp add: signedDecimal_def startsWith_def)
    moreover have "micro (CHR ''-'' # d) = - micro d" using dec by (rule micro_minus)
    moreover have "negate_decimal d = Inr (CHR ''-'' # d)"
      using False False2 assms zero_qty by (simp add: negate_decimal_def compareDecimal_signed)
    ultimately show thesis by (intro that [of "CHR ''-'' # d"]) simp_all
  qed
qed

lemma fold_deltas_exact:
  assumes "signedDecimal acc" and "list_all signedDecimal ds"
  shows "\<exists>q. fold_deltas acc ds = Inr q \<and> signedDecimal q \<and> micro q = micro acc + sum_list (map micro ds)"
  using assms
proof (induction ds arbitrary: acc)
  case (Cons d ds)
  then show ?case using Cons.IH [of "fromMicro (micro acc + micro d)"] by (simp add: returns_def addDecimal_signed add.assoc)
qed simp

section \<open>Tables\<close>

lemma ab_more_tables:
  fixes st st' :: "'a ab_store_scheme"
  assumes "scope_store.more st' = scope_store.more st"
  shows "ab_types st' = ab_types st" and "ab_ledger st' = ab_ledger st" and "ab_requests st' = ab_requests st"
  using assms by (cases st, cases st', simp)+

lemma ab_emit_tables:
  fixes st st' :: "'a ab_store_scheme"
  assumes "emit cx ev st = Inr st'"
  shows "ab_types st' = ab_types st" and "ab_ledger st' = ab_ledger st" and "ab_requests st' = ab_requests st"
  using ab_more_tables [OF emit_Inr(3) [OF assms]] by simp_all

lemma ab_require_tables:
  fixes st st' :: "'a ab_store_scheme"
  assumes "require cx p e st = Inr st'"
  shows "ab_types st' = ab_types st" and "ab_ledger st' = ab_ledger st" and "ab_requests st' = ab_requests st"
  using ab_more_tables [OF require_Inr(4) [OF assms]] by simp_all

lemma ab_ulid_tables:
  fixes st st1 :: "'a ab_store_scheme"
  assumes "ulid cx st = (i, st1)"
  shows "ab_types st1 = ab_types st" and "ab_ledger st1 = ab_ledger st" and "ab_requests st1 = ab_requests st"
  using assms by (auto simp: ulid_def)

lemma set_request_tables [simp]:
  "ab_ledger (set_request i f st) = ab_ledger st" "ab_types (set_request i f st) = ab_types st"
  "ab_requests (set_request i f st) = update_where (\<lambda>r. ar_id r = i) f (ab_requests st)"
  by (simp_all add: set_request_def)

lemma ab_storedEntry_Inr [monad_simps]:
  "ab_storedEntry r = Inr r' \<longleftrightarrow> r' = r \<and> ae_entry_kind r \<in> set entryKind \<and> signedDecimal (ae_delta r) \<and> calendarDate (ae_effective_date r)"
  by (auto simp: ab_storedEntry_def monad_simps)

lemma storedRequest_Inr [monad_simps]:
  "storedRequest r = Inr r' \<longleftrightarrow> r' = r \<and> calendarDate (ar_start_date r) \<and> calendarDate (ar_end_date r) \<and>
     nonNegDecimal (ar_days r) \<and> ar_status r \<in> set requestStatus"
  by (auto simp: storedRequest_def monad_simps)

lemma getRequestRow_Inr:
  assumes "getRequestRow i st = Inr r"
  shows "r \<in> set (ab_requests st)" and "ar_id r = i" and "storedRequest r = Inr r"
  using assms by (auto simp: getRequestRow_def monad_simps dest: row_where_SomeD split: option.splits)

lemma stored_subject_Inr: "stored_subject r = Inr s \<Longrightarrow> sb_ref s = subjectRefOf r \<and> sb_dataSubjectId s = ar_data_subject_id r"
  by (auto simp: stored_subject_def split: if_splits)

lemma insertEntry_Inr:
  assumes "insertEntry cx input st = Inr (v, st')"
  obtains i where "ab_ledger st' = ab_ledger st @ [new_ledger_row cx i input]" and "ab_requests st' = ab_requests st"
    and "ab_types st' = ab_types st" and "i \<notin> ae_id ` set (ab_ledger st)" and "en_id v = i"
    and "ab_storedEntry (new_ledger_row cx i input) = Inr (new_ledger_row cx i input)"
proof -
  obtain i st1 where u: "ulid cx st = (i, st1)" by (cases "ulid cx st")
  note same = ab_ulid_tables [OF u]
  let ?r = "new_ledger_row cx i input"
  from assms u obtain ev where fresh: "\<not> list_ex (\<lambda>b. ae_id ?r = ae_id b) (ab_ledger st1)"
    and row: "bind_r (getEntryRow i (st1\<lparr>ab_ledger := ab_ledger st1 @ [?r]\<rparr>)) ab_toEntry = Inr v"
    and em: "emit cx ev (st1\<lparr>ab_ledger := ab_ledger st1 @ [?r]\<rparr>) = Inr st'"
    by (auto simp: insertEntry_def monad_simps Let_def)
  have i: "ae_id ?r = i" by (simp add: new_ledger_row_def)
  have new: "i \<notin> ae_id ` set (ab_ledger st)" using fresh same(2) i by (auto simp: list_ex_iff)
  then have "row_where (\<lambda>r. ae_id r = i) (ab_ledger st1 @ [?r]) = Some ?r"
    using same(2) i by (auto simp: row_where_append row_where_None split: option.splits dest: row_where_SomeD)
  with row have "ab_storedEntry ?r = Inr ?r" "en_id v = i"
    using i by (auto simp: getEntryRow_def ab_toEntry_def monad_simps)
  with new ab_emit_tables [OF em] same show thesis by (intro that [of i]) simp_all
qed

section \<open>A call as a step of the ledger and the request book\<close>

text \<open>What a decision leaves alone of a request.\<close>

definition request_cols :: "request_row \<Rightarrow> string list" where
  "request_cols r = [ar_id r, ar_subject_type r, ar_subject_id r, ar_data_subject_id r, ar_leave_type_key r,
     ar_start_date r, ar_end_date r, ar_days r, ar_created_by r, ar_created_at r]"

definition settles :: "string \<Rightarrow> (request_row \<Rightarrow> request_row) \<Rightarrow> bool" where
  "settles status f \<longleftrightarrow> (\<forall>r. ar_status (f r) = status \<and> request_cols (f r) = request_cols r)"

lemma settles_rows:
  "settles ''rejected'' (rejected_row cx note)" "settles ''approved'' (approved_row cx)"
  "settles ''cancelled'' (cancelled_row cx reason)" "settles ''cancelled'' (expired_row cx)"
  by (simp_all add: settles_def request_cols_def rejected_row_def approved_row_def cancelled_row_def expired_row_def)

lemma settles_id: "settles s f \<Longrightarrow> ar_id (f r) = ar_id r"
  by (simp add: settles_def request_cols_def)

text \<open>An entry of a request: its subject, leave type and first day, and its days with a sign.\<close>

definition posting :: "request_row \<Rightarrow> string \<Rightarrow> int \<Rightarrow> ledger_row \<Rightarrow> bool" where
  "posting r kind sign e \<longleftrightarrow>
     ae_request_id e = Some (ar_id r) \<and> ae_entry_kind e = kind \<and> entry_subject e = subjectRefOf r \<and>
     ae_leave_type_key e = ar_leave_type_key r \<and> ae_effective_date e = ar_start_date r \<and>
     signedDecimal (ae_delta e) \<and> micro (ae_delta e) = sign * micro (ar_days r)"

definition takes_back :: "request_row \<Rightarrow> ledger_row \<Rightarrow> ledger_row \<Rightarrow> bool" where
  "takes_back r b e \<longleftrightarrow>
     ae_request_id e = Some (ar_id r) \<and> ae_entry_kind e = ''reversal'' \<and> entry_subject e = subjectRefOf r \<and>
     ae_leave_type_key e = ar_leave_type_key r \<and> ae_effective_date e = ae_effective_date b \<and>
     signedDecimal (ae_delta e) \<and> micro (ae_delta e) = - micro (ae_delta b)"

definition recorded :: "ledger_row \<Rightarrow> bool" where
  "recorded e \<longleftrightarrow> ae_request_id e = None \<and> ae_entry_kind e \<in> set ADMIN_KINDS \<and> signedDecimal (ae_delta e)"

definition request_good :: "request_row \<Rightarrow> bool" where
  "request_good r \<longleftrightarrow> nonNegDecimal (ar_days r) \<and> 0 < micro (ar_days r) \<and> ar_status r \<in> set requestStatus \<and>
     calendarDate (ar_start_date r) \<and> calendarDate (ar_end_date r) \<and> ar_start_date r \<le> ar_end_date r"

inductive ab_tab :: "'a ab_store_scheme \<Rightarrow> 'a ab_store_scheme \<Rightarrow> bool" where
  untouched: "ab_ledger st' = ab_ledger st \<Longrightarrow> ab_requests st' = ab_requests st \<Longrightarrow> ab_tab st st'"
| entry_recorded: "recorded e \<Longrightarrow> ae_id e \<notin> ae_id ` set (ab_ledger st) \<Longrightarrow>
    ab_ledger st' = ab_ledger st @ [e] \<Longrightarrow> ab_requests st' = ab_requests st \<Longrightarrow> ab_tab st st'"
| request_born: "request_good r \<Longrightarrow> ar_status r = ''requested'' \<Longrightarrow> ar_id r \<notin> ar_id ` set (ab_requests st) \<Longrightarrow>
    ab_ledger st' = ab_ledger st \<Longrightarrow> ab_requests st' = ab_requests st @ [r] \<Longrightarrow> ab_tab st st'"
| request_closed: "r \<in> set (ab_requests st) \<Longrightarrow> ar_status r = ''requested'' \<Longrightarrow> settles s f \<Longrightarrow> s \<in> {''rejected'', ''cancelled''} \<Longrightarrow>
    ab_ledger st' = ab_ledger st \<Longrightarrow> ab_requests st' = update_where (\<lambda>x. ar_id x = ar_id r) f (ab_requests st) \<Longrightarrow> ab_tab st st'"
| request_approved: "r \<in> set (ab_requests st) \<Longrightarrow> ar_status r = ''requested'' \<Longrightarrow> settles ''approved'' f \<Longrightarrow>
    posting r ''booking'' (-1) b \<Longrightarrow> ae_id b \<notin> ae_id ` set (ab_ledger st) \<Longrightarrow>
    ab_ledger st' = ab_ledger st @ [b] \<Longrightarrow> ab_requests st' = update_where (\<lambda>x. ar_id x = ar_id r) f (ab_requests st) \<Longrightarrow> ab_tab st st'"
| request_reversed: "r \<in> set (ab_requests st) \<Longrightarrow> ar_status r = ''approved'' \<Longrightarrow> settles ''cancelled'' f \<Longrightarrow>
    booking_of (ar_id r) st = Some b \<Longrightarrow> takes_back r b e \<Longrightarrow> ae_id e \<notin> ae_id ` set (ab_ledger st) \<Longrightarrow>
    ab_ledger st' = ab_ledger st @ [e] \<Longrightarrow> ab_requests st' = update_where (\<lambda>x. ar_id x = ar_id r) f (ab_requests st) \<Longrightarrow> ab_tab st st'"

lemma configureLeaveType_tab: "configureLeaveType cx input st = Inr (v, st') \<Longrightarrow> ab_tab st st'"
  by (auto simp: configureLeaveType_def monad_simps Let_def ab_emit_tables intro!: ab_tab.untouched)

lemma recordEntry_tab:
  assumes "recordEntry cx input st = Inr (v, st')"
  shows "ab_tab st st'"
proof -
  from assms have kind: "li_entryKind input \<in> set ADMIN_KINDS" "signedDecimal (li_delta input)"
    and ins: "insertEntry cx (input\<lparr>li_requestId := None\<rparr>) st = Inr (v, st')"
    by (auto simp: recordEntry_def recordEntryInput_def monad_simps)
  from ins obtain i where "ab_ledger st' = ab_ledger st @ [new_ledger_row cx i (input\<lparr>li_requestId := None\<rparr>)]"
    "ab_requests st' = ab_requests st" "i \<notin> ae_id ` set (ab_ledger st)" by (rule insertEntry_Inr)
  with kind show ?thesis
    by (intro ab_tab.entry_recorded [of "new_ledger_row cx i (input\<lparr>li_requestId := None\<rparr>)"]) (auto simp: recorded_def new_ledger_row_def)
qed

lemma requestAbsence_Inr:
  assumes "requestAbsence cx input st = Inr (v, st')"
  obtains i where "ab_requests st' = ab_requests st @ [new_request cx i input]" and "ab_ledger st' = ab_ledger st"
    and "i \<notin> ar_id ` set (ab_requests st)" and "request_good (new_request cx i input)" and "rq_id v = i"
proof -
  obtain i st1 where u: "ulid cx st = (i, st1)" by (cases "ulid cx st")
  note same = ab_ulid_tables [OF u]
  let ?r = "new_request cx i input"
  from assms u obtain c ev where cmp: "compareDecimal (ai_days input) ''0'' = Inr c" "0 < c" and days: "nonNegDecimal (ai_days input)"
    and dates: "calendarDate (ai_startDate input)" "calendarDate (ai_endDate input)" "ai_startDate input \<le> ai_endDate input"
    and fresh: "\<not> list_ex (\<lambda>b. ar_id ?r = ar_id b) (ab_requests st1)"
    and em: "emit cx ev (st1\<lparr>ab_requests := ab_requests st1 @ [?r]\<rparr>) = Inr st'"
    and row: "bind_r (getRequestRow i st') toRequest = Inr v"
    by (auto simp: requestAbsence_def requestAbsenceInput_def monad_simps)
  have "0 < micro (ai_days input)"
    using cmp zero_qty compareDecimal_signed [OF nonNeg_signed [OF days] zero_qty(1)] by (auto split: if_splits)
  then have good: "request_good ?r"
    using days dates by (simp add: request_good_def new_request_def requestStatus_def)
  have "rq_id v = i" using row by (auto simp: toRequest_def monad_simps dest: getRequestRow_Inr(2))
  with good fresh same ab_emit_tables [OF em] show thesis
    by (intro that [of i]) (auto simp: list_ex_iff new_request_def)
qed

lemma requestAbsence_tab: "requestAbsence cx input st = Inr (v, st') \<Longrightarrow> ab_tab st st'"
  by (erule requestAbsence_Inr, rule ab_tab.request_born) (auto simp: new_request_def)

lemma rejectRequest_tab:
  assumes "rejectRequest cx s input req st = Inr (v, st')" and "req \<in> set (ab_requests st)" and "ar_status req = ''requested''"
  shows "ab_tab st st'"
proof -
  from assms(1) obtain ev where em: "emit cx ev (set_request (ar_id req) (rejected_row cx (di_note input)) st) = Inr st'"
    by (auto simp: rejectRequest_def monad_simps Let_def)
  show ?thesis
    using ab_emit_tables [OF em] by (intro ab_tab.request_closed [OF assms(2,3) settles_rows(1)]) simp_all
qed

text \<open>What a successful approval has found, and what it writes.\<close>

lemma approveRequest_Inr:
  assumes "approveRequest cx s input req st = Inr ((v, w), st')"
  obtains ty balance taken b booking st1 where "getLeaveTypeRow (ar_leave_type_key req) st = Inr ty"
    and "balanceAsOf (sb_ref s) (ar_leave_type_key req) None st = Inr balance" and "negate_decimal (ar_days req) = Inr taken"
    and "\<exists>left c. addDecimal balance taken = Inr left \<and> compareDecimal left (lt_floor ty) = Inr c \<and> 0 \<le> c"
    and "w = Some booking" and "ab_ledger st' = ab_ledger st @ [b]" and "ae_id b \<notin> ae_id ` set (ab_ledger st)"
    and "b = new_ledger_row cx (en_id booking) (request_entry s req ''booking'' taken (ar_start_date req) (di_note input))"
    and "ab_storedEntry b = Inr b" and "ab_types st' = ab_types st"
    and "ab_requests st' = update_where (\<lambda>x. ar_id x = ar_id req) (approved_row cx) (ab_requests st)"
proof -
  from assms obtain ty balance taken left c booking st1 ev where
    pre: "getLeaveTypeRow (ar_leave_type_key req) st = Inr ty" "balanceAsOf (sb_ref s) (ar_leave_type_key req) None st = Inr balance"
      "negate_decimal (ar_days req) = Inr taken" "addDecimal balance taken = Inr left" "compareDecimal left (lt_floor ty) = Inr c" "0 \<le> c"
      "w = Some booking"
    and ins: "insertEntry cx (request_entry s req ''booking'' taken (ar_start_date req) (di_note input)) st = Inr (booking, st1)"
    and em: "emit cx ev (set_request (ar_id req) (approved_row cx) st1) = Inr st'"
    by (auto simp: approveRequest_def monad_simps)
  note em' = ab_emit_tables [OF em]
  from ins show thesis
    by (rule insertEntry_Inr) (use pre em' in \<open>auto intro!: that simp: new_ledger_row_def\<close>)
qed

lemma approveRequest_tab:
  assumes "approveRequest cx s input req st = Inr ((v, w), st')" and "req \<in> set (ab_requests st)" and "ar_status req = ''requested''"
    and "stored_subject req = Inr s" and "nonNegDecimal (ar_days req)"
  shows "ab_tab st st'"
  using assms(1)
proof (rule approveRequest_Inr)
  fix ty balance taken b booking
  assume neg: "negate_decimal (ar_days req) = Inr taken"
    and b: "b = new_ledger_row cx (en_id booking) (request_entry s req ''booking'' taken (ar_start_date req) (di_note input))"
    and st': "ab_ledger st' = ab_ledger st @ [b]" "ae_id b \<notin> ae_id ` set (ab_ledger st)"
      "ab_requests st' = update_where (\<lambda>x. ar_id x = ar_id req) (approved_row cx) (ab_requests st)"
  obtain n where "negate_decimal (ar_days req) = Inr n" "signedDecimal n" "micro n = - micro (ar_days req)"
    using nonNeg_signed [OF assms(5)] by (rule negate_signed)
  with neg have "posting req ''booking'' (-1) b"
    using stored_subject_Inr [OF assms(4)]
    by (simp add: b posting_def new_ledger_row_def request_entry_def entry_subject_def subjectRefOf_def)
  with st' show ?thesis by (intro ab_tab.request_approved [OF assms(2,3) settles_rows(2)]) simp_all
qed

lemma decideAbsence_tab:
  assumes "decideAbsence cx input st = Inr ((v, w), st')"
  shows "ab_tab st st'"
proof -
  from assms obtain req s where req: "getRequestRow (di_requestId input) st = Inr req" "ar_status req = ''requested''" "stored_subject req = Inr s"
    and run: "(if di_decision input = ''reject'' then rejectRequest cx s input req st else approveRequest cx s input req st) = Inr ((v, w), st')"
    by (auto simp: decideAbsence_def monad_simps)
  note row = getRequestRow_Inr [OF req(1)]
  then have "nonNegDecimal (ar_days req)" by (simp add: monad_simps)
  with run req row show ?thesis by (auto intro: rejectRequest_tab approveRequest_tab split: if_splits)
qed

lemma reverse_booking_Inr:
  assumes "reverse_booking cx s input req st = Inr (rv, st1)" and "stored_subject req = Inr s"
  obtains (open_request) "ar_status req \<noteq> ''approved''" and "rv = None" and "st1 = st"
  | (reversed) b e reversal where "ar_status req = ''approved''" and "booking_of (ar_id req) st = Some b" and "rv = Some reversal"
      and "takes_back req b e" and "ae_id e \<notin> ae_id ` set (ab_ledger st)" and "ab_ledger st1 = ab_ledger st @ [e]"
      and "ab_requests st1 = ab_requests st"
proof (cases "ar_status req = ''approved''")
  case False
  with assms(1) show thesis by (intro open_request) (simp_all add: reverse_booking_def)
next
  case True
  with assms(1) obtain b rd reversal where b: "booking_of (ar_id req) st = Some b" "rv = Some reversal" "signedDecimal (ae_delta b)"
      "negate_decimal (ae_delta b) = Inr rd"
    and ins: "insertEntry cx (request_entry s req ''reversal'' rd (ae_effective_date b) (xi_reason input)) st = Inr (reversal, st1)"
    by (auto simp: reverse_booking_def monad_simps split: option.splits)
  obtain n where n: "negate_decimal (ae_delta b) = Inr n" "signedDecimal n" "micro n = - micro (ae_delta b)"
    using b(3) by (rule negate_signed)
  let ?e = "\<lambda>i. new_ledger_row cx i (request_entry s req ''reversal'' rd (ae_effective_date b) (xi_reason input))"
  have "takes_back req b (?e i)" for i
    using n b(4) stored_subject_Inr [OF assms(2)]
    by (simp add: takes_back_def new_ledger_row_def request_entry_def entry_subject_def subjectRefOf_def)
  moreover have "ae_id (?e i) = i" for i by (simp add: new_ledger_row_def)
  ultimately show thesis
    using ins by (rule_tac insertEntry_Inr [OF ins]) (use True b in \<open>auto intro!: reversed\<close>)
qed

lemma cancelAbsence_Inr:
  assumes "cancelAbsence cx input st = Inr ((v, w), st')"
  obtains req s st1 where "getRequestRow (xi_requestId input) st = Inr req" and "ar_status req \<in> {''requested'', ''approved''}"
    and "stored_subject req = Inr s" and "reverse_booking cx s input req st = Inr (w, st1)" and "ab_ledger st' = ab_ledger st1"
    and "ab_requests st' = update_where (\<lambda>x. ar_id x = ar_id req) (cancelled_row cx (xi_reason input)) (ab_requests st1)"
proof -
  from assms obtain req s st1 ev where 1: "getRequestRow (xi_requestId input) st = Inr req" "ar_status req \<in> {''requested'', ''approved''}"
      "stored_subject req = Inr s" "reverse_booking cx s input req st = Inr (w, st1)"
    and em: "emit cx ev (set_request (ar_id req) (cancelled_row cx (xi_reason input)) st1) = Inr st'"
    by (auto simp: cancelAbsence_def monad_simps)
  with ab_emit_tables [OF em] show thesis by (intro that) simp_all
qed

lemma cancelAbsence_tab:
  assumes "cancelAbsence cx input st = Inr ((v, w), st')"
  shows "ab_tab st st'"
  using assms
proof (rule cancelAbsence_Inr)
  fix req s st1
  assume req: "getRequestRow (xi_requestId input) st = Inr req" "ar_status req \<in> {''requested'', ''approved''}" "stored_subject req = Inr s"
    and rv: "reverse_booking cx s input req st = Inr (w, st1)" and led: "ab_ledger st' = ab_ledger st1"
    and rows: "ab_requests st' = update_where (\<lambda>x. ar_id x = ar_id req) (cancelled_row cx (xi_reason input)) (ab_requests st1)"
  note row = getRequestRow_Inr [OF req(1)]
  from rv req(3) show ?thesis
  proof (cases rule: reverse_booking_Inr)
    case open_request
    with req(2) led rows show ?thesis by (intro ab_tab.request_closed [OF row(1) _ settles_rows(3)]) auto
  next
    case (reversed b e reversal)
    with led rows show ?thesis
      by (intro ab_tab.request_reversed [OF row(1) reversed(1) settles_rows(3) reversed(2,4,5)]) auto
  qed
qed


section \<open>The sweep\<close>

definition expire_all :: "op_ctx \<Rightarrow> request_row list \<Rightarrow> request_row list \<Rightarrow> request_row list" where
  "expire_all cx reqs rows = map (\<lambda>r. if ar_id r \<in> ar_id ` set reqs then expired_row cx r else r) rows"

lemma expired_id [simp]: "ar_id (expired_row cx r) = ar_id r"
  by (rule settles_id [OF settles_rows(4)])

lemma expire_each_tab:
  assumes "expire_each cx reqs st = Inr st'" and "distinct (map ar_id reqs)"
    and "\<And>r. r \<in> set reqs \<Longrightarrow> r \<in> set (ab_requests st) \<and> ar_status r = ''requested''"
  shows "ab_tab\<^sup>*\<^sup>* st st' \<and> ab_ledger st' = ab_ledger st \<and> ab_types st' = ab_types st \<and> ab_requests st' = expire_all cx reqs (ab_requests st)"
  using assms
proof (induction reqs arbitrary: st)
  case Nil
  then show ?case by (simp add: expire_all_def)
next
  case (Cons q qs)
  let ?st1 = "set_request (ar_id q) (expired_row cx) st"
  from Cons.prems(1) obtain ev st2 where em: "emit cx ev ?st1 = Inr st2" and rest: "expire_each cx qs st2 = Inr st'"
    by (auto simp: monad_simps)
  note st2 = ab_emit_tables [OF em]
  have one: "ab_tab st st2"
    using Cons.prems(3) [of q] st2 by (intro ab_tab.request_closed [of q _ _ _, OF _ _ settles_rows(4)]) auto
  have "r \<in> set (ab_requests st2) \<and> ar_status r = ''requested''" if "r \<in> set qs" for r
  proof -
    have "ar_id r \<in> ar_id ` set qs" "ar_id q \<notin> ar_id ` set qs" using Cons.prems(2) that by simp_all
    then have "ar_id r \<noteq> ar_id q" by metis
    moreover have "r \<in> set (ab_requests st)" "ar_status r = ''requested''" using Cons.prems(3) [of r] that by simp_all
    ultimately show ?thesis unfolding st2(3) by (simp add: set_update_where image_iff)
  qed
  with Cons.IH [OF rest] Cons.prems(2) have IH: "ab_tab\<^sup>*\<^sup>* st2 st'" "ab_ledger st' = ab_ledger st2" "ab_types st' = ab_types st2"
    "ab_requests st' = expire_all cx qs (ab_requests st2)" by auto
  moreover have "expire_all cx qs (update_where (\<lambda>x. ar_id x = ar_id q) (expired_row cx) rows) = expire_all cx (q # qs) rows" for rows
    using Cons.prems(2) by (auto simp: expire_all_def update_where_def)
  ultimately show ?case
    using one st2 by (auto intro: converse_rtranclp_into_rtranclp)
qed

definition stale_batch :: "op_ctx \<Rightarrow> request_row list \<Rightarrow> request_row list" where
  "stale_batch cx rows = take STALE_BATCH (sort_key ar_start_date (filter (stale (take 10 (cx_at cx))) rows))"

lemma distinct_sort_take:
  "distinct (map f rows) \<Longrightarrow> distinct (map f (take n (sort_key k (filter P rows))))"
  by (metis distinct_map_filter distinct_take mset_sort mset_map mset_eq_imp_distinct_iff take_map)

lemma expireStale_Inr:
  assumes "expireStaleRequests cx st = Inr (n, st')" and "distinct (map ar_id (ab_requests st))"
  shows "ab_tab\<^sup>*\<^sup>* st st'" and "n = length (stale_batch cx (ab_requests st))" and "ab_ledger st' = ab_ledger st"
    and "ab_types st' = ab_types st" and "ab_requests st' = expire_all cx (stale_batch cx (ab_requests st)) (ab_requests st)"
proof -
  let ?b = "stale_batch cx (ab_requests st)"
  from assms(1) obtain reqs where tr: "traverse storedRequest ?b = Inr reqs" and ex: "expire_each cx reqs st = Inr st'" "n = length reqs"
    by (auto simp: expireStaleRequests_def stale_batch_def monad_simps)
  have "storedRequest r = Inr r" if "r \<in> set ?b" for r
    using traverse_Inr_arg [OF tr that] by (auto simp: monad_simps)
  then have "reqs = ?b" using traverse_total [of ?b storedRequest id] tr by simp
  moreover have "r \<in> set (ab_requests st) \<and> ar_status r = ''requested''" if "r \<in> set ?b" for r
    using that set_take_subset [of STALE_BATCH] by (fastforce simp: stale_batch_def stale_def)
  moreover have "distinct (map ar_id ?b)" unfolding stale_batch_def using assms(2) by (rule distinct_sort_take)
  ultimately have "ab_tab\<^sup>*\<^sup>* st st' \<and> ab_ledger st' = ab_ledger st \<and> ab_types st' = ab_types st \<and>
      ab_requests st' = expire_all cx ?b (ab_requests st)" "n = length ?b"
    using expire_each_tab [OF ex(1)] ex(2) by auto
  then show "ab_tab\<^sup>*\<^sup>* st st'" "n = length ?b" "ab_ledger st' = ab_ledger st" "ab_types st' = ab_types st"
    "ab_requests st' = expire_all cx ?b (ab_requests st)" by simp_all
qed

section \<open>The invariant\<close>

text \<open>The entries of a request, by where it stands.\<close>

fun postings_ok :: "request_row \<Rightarrow> ledger_row list \<Rightarrow> bool" where
  "postings_ok r [] = (ar_status r \<noteq> ''approved'')"
| "postings_ok r [b] = (ar_status r = ''approved'' \<and> posting r ''booking'' (-1) b)"
| "postings_ok r [b, c] = (ar_status r = ''cancelled'' \<and> posting r ''booking'' (-1) b \<and> posting r ''reversal'' 1 c)"
| "postings_ok r es = False"

definition postings :: "string \<Rightarrow> ledger_row list \<Rightarrow> ledger_row list" where
  "postings i es = filter (\<lambda>e. ae_request_id e = Some i) es"

definition entry_placed :: "request_row list \<Rightarrow> ledger_row \<Rightarrow> bool" where
  "entry_placed rs e \<longleftrightarrow> recorded e \<or> signedDecimal (ae_delta e) \<and> (\<exists>i \<in> ar_id ` set rs. ae_request_id e = Some i)"

definition absence_ok :: "'a ab_store_scheme \<Rightarrow> bool" where
  "absence_ok st \<longleftrightarrow>
     distinct (map ar_id (ab_requests st)) \<and> distinct (map ae_id (ab_ledger st)) \<and>
     list_all request_good (ab_requests st) \<and> list_all (entry_placed (ab_requests st)) (ab_ledger st) \<and>
     list_all (\<lambda>r. postings_ok r (postings (ar_id r) (ab_ledger st))) (ab_requests st)"

lemma absence_okD:
  assumes "absence_ok st"
  shows "distinct (map ar_id (ab_requests st))" and "distinct (map ae_id (ab_ledger st))"
    and "\<And>r. r \<in> set (ab_requests st) \<Longrightarrow> request_good r"
    and "\<And>e. e \<in> set (ab_ledger st) \<Longrightarrow> entry_placed (ab_requests st) e"
    and "\<And>r. r \<in> set (ab_requests st) \<Longrightarrow> postings_ok r (postings (ar_id r) (ab_ledger st))"
  using assms by (auto simp: absence_ok_def list_all_iff)

lemma postings_append: "postings i (es @ [e]) = postings i es @ (if ae_request_id e = Some i then [e] else [])"
  by (simp add: postings_def)

lemma unique_request: "distinct (map ar_id rs) \<Longrightarrow> r \<in> set rs \<Longrightarrow> x \<in> set rs \<Longrightarrow> ar_id x = ar_id r \<Longrightarrow> x = r"
  by (auto simp: distinct_map inj_on_def)

lemma entry_placed_update:
  assumes "settles s f" and "entry_placed rs e"
  shows "entry_placed (update_where P f rs) e"
proof -
  have "map ar_id (update_where P f rs) = map ar_id rs" by (rule map_update_where) (rule settles_id [OF assms(1)])
  then have "ar_id ` set (update_where P f rs) = ar_id ` set rs" by (metis list.set_map)
  with assms(2) show ?thesis by (simp only: entry_placed_def)
qed

lemma settles_good: "settles s f \<Longrightarrow> s \<in> set requestStatus \<Longrightarrow> request_good r \<Longrightarrow> request_good (f r)"
  by (auto simp: settles_def request_cols_def request_good_def)

lemma settles_posting: "settles s f \<Longrightarrow> posting (f r) k n e \<longleftrightarrow> posting r k n e"
  by (simp add: settles_def request_cols_def posting_def subjectRefOf_def)

lemma posting_own: "posting r k n e \<Longrightarrow> ae_request_id e = Some (ar_id r) \<and> signedDecimal (ae_delta e)"
  by (simp add: posting_def)

text \<open>
  The step rules share their conclusion: the ledger grows by at most an entry of the request that moves,
  and only that request is rewritten.
\<close>

lemma absence_ok_moved:
  assumes ok: "absence_ok st" and r: "r \<in> set (ab_requests st)" and f: "settles s f" and s: "s \<in> set requestStatus"
    and rows: "ab_requests st' = update_where (\<lambda>x. ar_id x = ar_id r) f (ab_requests st)"
    and led: "ab_ledger st' = ab_ledger st @ es" and own: "\<And>e. e \<in> set es \<Longrightarrow> ae_request_id e = Some (ar_id r) \<and> signedDecimal (ae_delta e)"
    and fresh: "distinct (map ae_id (ab_ledger st @ es))" and post: "postings_ok (f r) (postings (ar_id r) (ab_ledger st) @ es)"
  shows "absence_ok st'"
proof -
  note ok' = absence_okD [OF ok]
  have ids: "map ar_id (ab_requests st') = map ar_id (ab_requests st)"
    unfolding rows by (rule map_update_where) (rule settles_id [OF f])
  have shape: "x = f r \<or> x \<in> set (ab_requests st) \<and> ar_id x \<noteq> ar_id r" if "x \<in> set (ab_requests st')" for x
    using that unfolding rows by (rule in_update_whereE) (use unique_request [OF ok'(1) r] in auto)
  have "request_good x" if "x \<in> set (ab_requests st')" for x
    using shape [OF that] settles_good [OF f s ok'(3) [OF r]] ok'(3) by auto
  moreover have "entry_placed (ab_requests st') e" if "e \<in> set (ab_ledger st')" for e
  proof -
    have "entry_placed (ab_requests st) e" using that ok'(4) own r by (auto simp: led entry_placed_def)
    then show ?thesis unfolding rows by (rule entry_placed_update [OF f])
  qed
  moreover have "postings_ok x (postings (ar_id x) (ab_ledger st'))" if "x \<in> set (ab_requests st')" for x
    using shape [OF that]
  proof
    assume x: "x = f r"
    have "postings (ar_id r) es = es" using own by (simp add: postings_def filter_id_conv)
    then have "postings (ar_id x) (ab_ledger st') = postings (ar_id r) (ab_ledger st) @ es"
      by (simp add: x led settles_id [OF f] postings_def)
    with post show ?thesis by (simp only: x)
  next
    assume x: "x \<in> set (ab_requests st) \<and> ar_id x \<noteq> ar_id r"
    then have "postings (ar_id x) es = []" using own by (auto simp: postings_def filter_empty_conv)
    then have "postings (ar_id x) (ab_ledger st') = postings (ar_id x) (ab_ledger st)" by (simp add: led postings_def)
    with x ok'(5) show ?thesis by simp
  qed
  ultimately show ?thesis using ok'(1) fresh ids by (simp add: absence_ok_def list_all_iff led)
qed

lemma booking_of_posting:
  assumes "absence_ok st" and "r \<in> set (ab_requests st)" and "ar_status r = ''approved''"
  obtains b where "postings (ar_id r) (ab_ledger st) = [b]" and "posting r ''booking'' (-1) b" and "booking_of (ar_id r) st = Some b"
proof -
  have ok: "postings_ok r (postings (ar_id r) (ab_ledger st))" using absence_okD(5) [OF assms(1,2)] .
  then obtain b where b: "postings (ar_id r) (ab_ledger st) = [b]" "posting r ''booking'' (-1) b"
    using assms(3) by (cases "(r, postings (ar_id r) (ab_ledger st))" rule: postings_ok.cases) auto
  have "row_where (\<lambda>e. ae_request_id e = Some i \<and> ae_entry_kind e = k) es = row_where (\<lambda>e. ae_entry_kind e = k) (postings i es)" for i k es
    by (induction es) (auto simp: postings_def)
  then have "booking_of (ar_id r) st = Some b" using b by (simp add: booking_of_def posting_def)
  with b show thesis by (rule that)
qed

lemma ab_tab_ok:
  assumes "ab_tab st st'" and "absence_ok st"
  shows "absence_ok st'"
  using assms
proof (induction rule: ab_tab.induct)
  case (untouched st' st)
  then show ?case by (simp add: absence_ok_def)
next
  case (entry_recorded e st st')
  note ok = absence_okD [OF entry_recorded.prems]
  have "postings i (ab_ledger st @ [e]) = postings i (ab_ledger st)" for i
    using entry_recorded(1) by (simp add: postings_append recorded_def)
  moreover have "entry_placed (ab_requests st) e" using entry_recorded(1) by (simp add: entry_placed_def)
  ultimately show ?case using entry_recorded ok by (auto simp: absence_ok_def list_all_iff)
next
  case (request_born r st st')
  note ok = absence_okD [OF request_born.prems]
  have none: "postings (ar_id r) (ab_ledger st) = []"
  proof -
    have "ae_request_id e \<noteq> Some (ar_id r)" if "e \<in> set (ab_ledger st)" for e
    proof
      assume own: "ae_request_id e = Some (ar_id r)"
      with ok(4) [OF that] obtain i where "i \<in> ar_id ` set (ab_requests st)" "ae_request_id e = Some i"
        by (auto simp: entry_placed_def recorded_def)
      with own request_born(3) show False by simp
    qed
    then show ?thesis by (simp add: postings_def filter_empty_conv)
  qed
  have "entry_placed (ab_requests st @ [r]) e" if "e \<in> set (ab_ledger st)" for e
    using ok(4) [OF that] by (auto simp: entry_placed_def)
  with none request_born ok show ?case by (auto simp: absence_ok_def list_all_iff)
next
  case (request_closed r st s f st')
  have "postings_ok r (postings (ar_id r) (ab_ledger st))" using absence_okD(5) [OF request_closed.prems request_closed(1)] .
  then have "postings (ar_id r) (ab_ledger st) = []"
    using request_closed(2) by (cases "(r, postings (ar_id r) (ab_ledger st))" rule: postings_ok.cases) auto
  moreover have "ar_status (f r) \<noteq> ''approved''" "s \<in> set requestStatus"
    using request_closed(3,4) by (auto simp: settles_def requestStatus_def)
  ultimately show ?case
    using request_closed absence_okD(2) [OF request_closed.prems] by (intro absence_ok_moved [of st r s f st' "[]"]) auto
next
  case (request_approved r st f b st')
  have "postings_ok r (postings (ar_id r) (ab_ledger st))" using absence_okD(5) [OF request_approved.prems request_approved(1)] .
  then have "postings (ar_id r) (ab_ledger st) = []"
    using request_approved(2) by (cases "(r, postings (ar_id r) (ab_ledger st))" rule: postings_ok.cases) auto
  moreover have "ar_status (f r) = ''approved''" using request_approved(3) by (simp add: settles_def)
  ultimately show ?case
    using request_approved absence_okD(2) [OF request_approved.prems] settles_posting [OF request_approved(3)]
    by (intro absence_ok_moved [of st r "''approved''" f st' "[b]"]) (auto simp: requestStatus_def posting_own)
next
  case (request_reversed r st f b e st')
  obtain b' where b': "postings (ar_id r) (ab_ledger st) = [b']" "posting r ''booking'' (-1) b'" "booking_of (ar_id r) st = Some b'"
    using request_reversed.prems request_reversed(1,2) by (rule booking_of_posting)
  with request_reversed(4) have b: "b' = b" by simp
  have "posting r ''reversal'' 1 e" using request_reversed(5) b'(2) b by (simp add: takes_back_def posting_def)
  moreover have "ar_status (f r) = ''cancelled''" using request_reversed(3) by (simp add: settles_def)
  ultimately show ?case
    using request_reversed absence_okD(2) [OF request_reversed.prems] settles_posting [OF request_reversed(3)] b' b
    by (intro absence_ok_moved [of st r "''cancelled''" f st' "[e]"]) (auto simp: requestStatus_def posting_own)
qed

lemma ab_tabs_ok: "ab_tab\<^sup>*\<^sup>* st st' \<Longrightarrow> absence_ok st \<Longrightarrow> absence_ok st'"
  by (induction rule: rtranclp_induct) (auto intro: ab_tab_ok)


section \<open>Runs\<close>

text \<open>Any in-scope call that returned; \<open>other\<close> is whatever else the scope does that leaves the two tables alone.\<close>

inductive ab_step :: "'a ab_store_scheme \<Rightarrow> 'a ab_store_scheme \<Rightarrow> bool" where
  configured: "configureLeaveType cx c st = Inr (ty, st') \<Longrightarrow> ab_step st st'"
| entered: "recordEntry cx i st = Inr (e, st') \<Longrightarrow> ab_step st st'"
| requested: "requestAbsence cx q st = Inr (v, st') \<Longrightarrow> ab_step st st'"
| decided: "decideAbsence cx d st = Inr (vw, st') \<Longrightarrow> ab_step st st'"
| cancelled: "cancelAbsence cx x st = Inr (vw, st') \<Longrightarrow> ab_step st st'"
| swept: "expireStaleRequests cx st = Inr (n, st') \<Longrightarrow> ab_step st st'"
| other: "ab_ledger st' = ab_ledger st \<Longrightarrow> ab_requests st' = ab_requests st \<Longrightarrow> ab_step st st'"

lemma ab_step_tab:
  assumes "ab_step st st'" and "absence_ok st"
  shows "ab_tab\<^sup>*\<^sup>* st st'"
  using assms
proof (induction rule: ab_step.induct)
  case (decided cx d st vw st')
  then show ?case by (cases vw) (auto dest: decideAbsence_tab)
next
  case (cancelled cx x st vw st')
  then show ?case by (cases vw) (auto dest: cancelAbsence_tab)
next
  case (swept cx st n st')
  then show ?case using expireStale_Inr(1) absence_okD(1) by blast
qed (auto dest: configureLeaveType_tab recordEntry_tab requestAbsence_tab intro: ab_tab.untouched)

lemma ab_run_tab: "ab_step\<^sup>*\<^sup>* st st' \<Longrightarrow> absence_ok st \<Longrightarrow> ab_tab\<^sup>*\<^sup>* st st' \<and> absence_ok st'"
proof (induction rule: rtranclp_induct)
  case (step y z)
  then have y: "ab_tab\<^sup>*\<^sup>* st y" "absence_ok y" by simp_all
  have z: "ab_tab\<^sup>*\<^sup>* y z" using ab_step_tab [OF step.hyps(2) y(2)] .
  with y show ?case by (meson ab_tabs_ok rtranclp_trans)
qed simp

section \<open>What a balance is\<close>

text \<open>In micro-days: what administrators recorded, and the days of the approved requests.\<close>

definition days_sum :: "(ledger_row \<Rightarrow> bool) \<Rightarrow> ledger_row list \<Rightarrow> int" where
  "days_sum p es = sum_list (map (\<lambda>e. micro (ae_delta e)) (filter p es))"

definition recorded_days :: "entity_ref \<Rightarrow> string \<Rightarrow> string option \<Rightarrow> ledger_row list \<Rightarrow> int" where
  "recorded_days subj key asOf es = days_sum (\<lambda>e. recorded e \<and> counted subj key asOf e) es"

definition booked_by :: "entity_ref \<Rightarrow> string \<Rightarrow> string option \<Rightarrow> request_row \<Rightarrow> bool" where
  "booked_by subj key asOf r \<longleftrightarrow>
     subjectRefOf r = subj \<and> ar_leave_type_key r = key \<and> if_given (\<lambda>d. ar_start_date r \<le> d) asOf"

definition approved_days :: "entity_ref \<Rightarrow> string \<Rightarrow> string option \<Rightarrow> request_row list \<Rightarrow> int" where
  "approved_days subj key asOf rs =
     sum_list (map (\<lambda>r. micro (ar_days r)) (filter (\<lambda>r. ar_status r = ''approved'' \<and> booked_by subj key asOf r) rs))"

lemma posting_counted: "posting r k n e \<Longrightarrow> counted subj key asOf e \<longleftrightarrow> booked_by subj key asOf r"
  by (auto simp: posting_def counted_def booked_by_def)

lemma sum_one_of:
  fixes a :: int
  assumes "distinct xs" and "i \<in> set xs"
  shows "sum_list (map (\<lambda>x. if x = i then a else 0) xs) = a"
proof -
  have none: "i \<notin> set ys \<Longrightarrow> sum_list (map (\<lambda>x. if x = i then a else 0) ys) = 0" for ys by (induction ys) auto
  show ?thesis using assms by (induction xs) (auto simp: none)
qed

lemma days_sum_Cons: "days_sum p (e # es) = (if p e then micro (ae_delta e) else 0) + days_sum p es"
  by (simp add: days_sum_def)

lemma days_sum_append: "days_sum p (xs @ ys) = days_sum p xs + days_sum p ys"
  by (simp add: days_sum_def)

lemma days_by_request:
  assumes "distinct (map ar_id rs)" and "list_all (entry_placed rs) es"
  shows "days_sum p es = days_sum (\<lambda>e. recorded e \<and> p e) es + sum_list (map (\<lambda>r. days_sum p (postings (ar_id r) es)) rs)"
  using assms(2)
proof (induction es)
  case Nil
  then show ?case by (simp add: days_sum_def postings_def sum_list_0)
next
  case (Cons e es)
  have cons: "days_sum p (postings i (e # es)) = (if ae_request_id e = Some i \<and> p e then micro (ae_delta e) else 0) + days_sum p (postings i es)" for i
    by (simp add: postings_def days_sum_Cons)
  have split: "sum_list (map (\<lambda>r. days_sum p (postings (ar_id r) (e # es))) rs) =
      sum_list (map (\<lambda>i. if ae_request_id e = Some i \<and> p e then micro (ae_delta e) else 0) (map ar_id rs)) +
      sum_list (map (\<lambda>r. days_sum p (postings (ar_id r) es)) rs)"
    by (simp add: cons sum_list_addf comp_def)
  have "sum_list (map (\<lambda>i. if ae_request_id e = Some i \<and> p e then micro (ae_delta e) else 0) (map ar_id rs)) =
      (if p e \<and> \<not> recorded e then micro (ae_delta e) else 0)"
  proof (cases "recorded e")
    case True
    then show ?thesis by (simp add: recorded_def comp_def sum_list_0)
  next
    case False
    with Cons.prems obtain i where i: "i \<in> set (map ar_id rs)" "ae_request_id e = Some i" by (auto simp: entry_placed_def)
    have "(\<lambda>x. if ae_request_id e = Some x \<and> p e then micro (ae_delta e) else 0) = (\<lambda>x. if x = i then if p e then micro (ae_delta e) else 0 else 0)"
      using i(2) by auto
    with False show ?thesis using sum_one_of [OF assms(1) i(1)] by (simp del: map_map)
  qed
  with split Cons show ?case by (simp add: days_sum_Cons)
qed

lemma request_days:
  assumes "postings_ok r es"
  shows "days_sum (counted subj key asOf) es = (if ar_status r = ''approved'' \<and> booked_by subj key asOf r then - micro (ar_days r) else 0)"
  using assms
proof (cases "(r, es)" rule: postings_ok.cases)
  case (2 r' b)
  with assms posting_counted [of r "''booking''" "-1" b] show ?thesis by (auto simp: days_sum_def posting_def)
next
  case (3 r' b c)
  with assms posting_counted [of r "''booking''" "-1" b] posting_counted [of r "''reversal''" 1 c]
  show ?thesis by (auto simp: days_sum_def posting_def)
qed (use assms in \<open>auto simp: days_sum_def\<close>)

lemma ledger_days:
  assumes "absence_ok st"
  shows "days_sum (counted subj key asOf) (ab_ledger st) =
    recorded_days subj key asOf (ab_ledger st) - approved_days subj key asOf (ab_requests st)"
proof -
  note ok = absence_okD [OF assms]
  let ?D = "\<lambda>r. days_sum (counted subj key asOf) (postings (ar_id r) (ab_ledger st))"
  have neg: "sum_list (map (\<lambda>r. if Q r then - f r else 0) rs) = - sum_list (map f (filter Q rs))"
    for f :: "request_row \<Rightarrow> int" and Q rs
    by (induction rs) auto
  have "map ?D (ab_requests st) =
      map (\<lambda>r. if ar_status r = ''approved'' \<and> booked_by subj key asOf r then - micro (ar_days r) else 0) (ab_requests st)"
    by (intro map_cong refl request_days ok(5))
  then have "sum_list (map ?D (ab_requests st)) = - approved_days subj key asOf (ab_requests st)"
    by (simp only: neg approved_days_def)
  moreover have "list_all (entry_placed (ab_requests st)) (ab_ledger st)" using ok(4) by (simp add: list_all_iff)
  note days_by_request [OF ok(1) this, of "counted subj key asOf"]
  ultimately show ?thesis by (simp only: recorded_days_def)
qed

lemma balance_days:
  assumes "absence_ok st" and "if_given calendarDate asOf"
  shows "\<exists>q. balanceAsOf subj key asOf st = Inr q \<and> signedDecimal q \<and> micro q = days_sum (counted subj key asOf) (ab_ledger st)"
proof -
  have "list_all signedDecimal (map ae_delta (filter (counted subj key asOf) (ab_ledger st)))"
    using absence_okD(4) [OF assms(1)] by (auto simp: list_all_iff entry_placed_def recorded_def)
  from fold_deltas_exact [OF zero_qty(1) this] obtain q where q: "fold_deltas ''0'' (map ae_delta (filter (counted subj key asOf) (ab_ledger st))) = Inr q"
    "signedDecimal q" "micro q = days_sum (counted subj key asOf) (ab_ledger st)" by (auto simp: zero_qty days_sum_def comp_def)
  have "optional_r isoDate asOf = Inr asOf" using assms(2) by (auto simp: optional_r_def if_given_def isoDate_def split: option.splits)
  with q show ?thesis by (simp add: balanceAsOf_def returns_def)
qed


section \<open>History\<close>

definition forward :: "string \<Rightarrow> string \<Rightarrow> bool" where
  "forward s s' \<longleftrightarrow> s' = s \<or> s = ''requested'' \<and> s' \<in> {''approved'', ''rejected'', ''cancelled''} \<or> s = ''approved'' \<and> s' = ''cancelled''"

definition history :: "'a ab_store_scheme \<Rightarrow> 'a ab_store_scheme \<Rightarrow> bool" where
  "history st st' \<longleftrightarrow> (\<exists>es. ab_ledger st' = ab_ledger st @ es) \<and>
     (\<forall>r \<in> set (ab_requests st). \<exists>r' \<in> set (ab_requests st'). request_cols r' = request_cols r \<and> forward (ar_status r) (ar_status r'))"

lemma history_refl: "history st st"
  by (auto simp: history_def forward_def)

lemma history_trans: "history st st1 \<Longrightarrow> history st1 st2 \<Longrightarrow> history st st2"
proof -
  assume 1: "history st st1" and 2: "history st1 st2"
  have "\<exists>r2 \<in> set (ab_requests st2). request_cols r2 = request_cols r \<and> forward (ar_status r) (ar_status r2)" if "r \<in> set (ab_requests st)" for r
  proof -
    from 1 that obtain r1 where r1: "r1 \<in> set (ab_requests st1)" "request_cols r1 = request_cols r" "forward (ar_status r) (ar_status r1)"
      unfolding history_def by blast
    with 2 obtain r2 where "r2 \<in> set (ab_requests st2)" "request_cols r2 = request_cols r1" "forward (ar_status r1) (ar_status r2)"
      unfolding history_def by blast
    with r1 show ?thesis by (intro bexI [of _ r2]) (auto simp: forward_def)
  qed
  with 1 2 show ?thesis by (auto simp: history_def)
qed

lemma history_moved:
  assumes "absence_ok st" and "r \<in> set (ab_requests st)" and "settles s f" and "forward (ar_status r) s"
    and "ab_requests st' = update_where (\<lambda>x. ar_id x = ar_id r) f (ab_requests st)" and "ab_ledger st' = ab_ledger st @ es"
  shows "history st st'"
proof -
  have "\<exists>x' \<in> set (ab_requests st'). request_cols x' = request_cols x \<and> forward (ar_status x) (ar_status x')" if x: "x \<in> set (ab_requests st)" for x
  proof (cases "ar_id x = ar_id r")
    case True
    with x have "x = r" by (rule unique_request [OF absence_okD(1) [OF assms(1)] assms(2)])
    with assms(3,4) x show ?thesis by (intro bexI [of _ "f r"]) (auto simp: settles_def assms(5) set_update_where)
  next
    case False
    with x show ?thesis by (intro bexI [of _ x]) (auto simp: forward_def assms(5) set_update_where image_iff)
  qed
  with assms(6) show ?thesis by (simp add: history_def)
qed

lemma ab_tab_history:
  assumes "ab_tab st st'" and "absence_ok st"
  shows "history st st'"
  using assms
proof (induction rule: ab_tab.induct)
  case (request_closed r st s f st')
  then show ?case by (intro history_moved [of st r s f st' "[]"]) (auto simp: forward_def)
next
  case (request_approved r st f b st')
  then show ?case by (intro history_moved [of st r "''approved''" f st' "[b]"]) (auto simp: forward_def)
next
  case (request_reversed r st f b e st')
  then show ?case by (intro history_moved [of st r "''cancelled''" f st' "[e]"]) (auto simp: forward_def)
qed (auto simp: history_def forward_def)

lemma ab_tabs_history: "ab_tab\<^sup>*\<^sup>* st st' \<Longrightarrow> absence_ok st \<Longrightarrow> history st st' \<and> absence_ok st'"
proof (induction rule: rtranclp_induct)
  case (step y z)
  then show ?case using ab_tab_history ab_tab_ok history_trans by blast
qed (simp add: history_refl)

lemma ab_run_history: "ab_step\<^sup>*\<^sup>* st st' \<Longrightarrow> absence_ok st \<Longrightarrow> history st st'"
  using ab_run_tab ab_tabs_history by blast

section \<open>A decision and the day\<close>

lemma alike_tables [simp]:
  "alike (st\<lparr>ab_ledger := es\<rparr>) (s\<lparr>ab_ledger := es'\<rparr>) \<longleftrightarrow> alike st s" "alike (set_request i f st) (set_request i g s) \<longleftrightarrow> alike st s"
  by (simp_all add: alike_def set_request_def)

lemma new_row_any_time:
  "ae_id (new_ledger_row (cx\<lparr>cx_at := now\<rparr>) i input) = i" "ae_id (new_ledger_row cx i input) = i"
  "ab_storedEntry (new_ledger_row cx i input) = Inr (new_ledger_row cx i input) \<Longrightarrow>
     ab_storedEntry (new_ledger_row (cx\<lparr>cx_at := now\<rparr>) i input) = Inr (new_ledger_row (cx\<lparr>cx_at := now\<rparr>) i input)"
  by (auto simp: new_ledger_row_def ab_storedEntry_def returns_def split: if_splits)

lemma insertEntry_any_time:
  assumes "insertEntry cx input st = Inr (v, st1)"
  shows "\<exists>v' s1. insertEntry (cx\<lparr>cx_at := now\<rparr>) input st = Inr (v', s1) \<and> en_id v' = en_id v \<and> alike st1 s1 \<and>
     ab_types s1 = ab_types st1 \<and> ab_requests s1 = ab_requests st1"
proof -
  obtain i st0 where u: "ulid cx st = (i, st0)" by (cases "ulid cx st")
  let ?cx = "cx\<lparr>cx_at := now\<rparr>" and ?r = "new_ledger_row cx i input" and ?r' = "new_ledger_row (cx\<lparr>cx_at := now\<rparr>) i input"
  from assms u obtain ev where fresh: "\<not> list_ex (\<lambda>b. ae_id ?r = ae_id b) (ab_ledger st0)"
    and row: "bind_r (getEntryRow i (st0\<lparr>ab_ledger := ab_ledger st0 @ [?r]\<rparr>)) ab_toEntry = Inr v"
    and em: "emit cx ev (st0\<lparr>ab_ledger := ab_ledger st0 @ [?r]\<rparr>) = Inr st1"
    and ev: "ev = subject_event ''absence.entry-recorded'' (li_subject input)
         (JObj [(''entryId'', JStr i), (''subject'', json_ref (sb_ref (li_subject input))),
                (''leaveTypeKey'', JStr (li_leaveTypeKey input)), (''entryKind'', JStr (li_entryKind input)),
                (''delta'', JStr (li_delta input)), (''effectiveDate'', JStr (li_effectiveDate input)),
                (''requestId'', json_nullable (li_requestId input))])"
    by (auto simp: insertEntry_def monad_simps Let_def)
  have none: "row_where (\<lambda>x. ae_id x = i) (ab_ledger st0) = None" using fresh by (auto simp: row_where_None list_ex_iff new_row_any_time)
  then have stored: "ab_storedEntry ?r = Inr ?r" and v: "ab_toEntry ?r = Inr v"
    using row by (auto simp: getEntryRow_def row_where_append new_row_any_time ab_toEntry_def monad_simps)
  note stored' = new_row_any_time(3) [OF stored, of now]
  have "en_id v = i" using v stored by (auto simp: ab_toEntry_def monad_simps new_row_any_time)
  moreover have "entry_subject ?r' = entry_subject ?r" by (simp add: entry_subject_def new_ledger_row_def)
  then obtain v' where v': "ab_toEntry ?r' = Inr v'" "en_id v' = i"
    using v stored stored' by (auto simp: ab_toEntry_def monad_simps new_row_any_time returns_def split: if_splits)
      (auto simp: new_ledger_row_def)
  have "alike (st0\<lparr>ab_ledger := ab_ledger st0 @ [?r]\<rparr>) (st0\<lparr>ab_ledger := ab_ledger st0 @ [?r']\<rparr>)" by simp
  from emit_any_time [OF em this, of now] obtain s1 where s1: "emit ?cx ev (st0\<lparr>ab_ledger := ab_ledger st0 @ [?r']\<rparr>) = Inr s1" "alike st1 s1" by blast
  have "insertEntry ?cx input st = Inr (v', s1)"
    using u fresh none stored' v' s1(1) by (simp add: insertEntry_def insert_row_def new_row_any_time getEntryRow_def row_where_append Let_def ev)
  moreover have "ab_types s1 = ab_types st1" "ab_requests s1 = ab_requests st1"
    using ab_emit_tables [OF s1(1)] ab_emit_tables [OF em] by simp_all
  ultimately show ?thesis using v'(2) s1(2) by metis
qed

text \<open>The read of a request that was settled in the meantime.\<close>

lemma settled_read:
  assumes "getRequestRow i st = Inr req" and "ab_requests s = update_where (\<lambda>r. ar_id r = ar_id req) f (ab_requests st)"
    and "settles status f" and "status \<in> set requestStatus"
  shows "getRequestRow (ar_id req) s = Inr (f req)"
proof -
  have i: "ar_id req = i" "storedRequest req = Inr req" using getRequestRow_Inr [OF assms(1)] by simp_all
  have "row_where (\<lambda>r. ar_id r = i) (ab_requests st) = Some req"
    using assms(1) by (auto simp: getRequestRow_def monad_simps split: option.splits)
  moreover have "row_where (\<lambda>r. ar_id r = i) (ab_requests s) = map_option (\<lambda>r. if ar_id r = i then f r else r) (row_where (\<lambda>r. ar_id r = i) (ab_requests st))"
    unfolding assms(2) i(1) by (rule row_where_update_where) (simp add: settles_id [OF assms(3)])
  moreover have "storedRequest (f req) = Inr (f req)"
    using i(2) assms(3,4) by (auto simp: storedRequest_def returns_def settles_def request_cols_def split: if_splits)
  ultimately show ?thesis using i(1) by (simp add: getRequestRow_def)
qed

lemma toRequest_settled:
  assumes "toRequest (f req) = Inr v" and "settles status f" and "settles status g" and "storedRequest (g req) = Inr (g req)"
  shows "\<exists>v'. toRequest (g req) = Inr v' \<and> rq_id v' = rq_id v \<and> rq_status v' = rq_status v \<and> rq_startDate v' = rq_startDate v \<and>
     rq_days v' = rq_days v \<and> rq_subject v' = rq_subject v"
proof -
  have same: "request_cols (g req) = request_cols (f req)" "ar_status (g req) = ar_status (f req)" using assms(2,3) by (simp_all add: settles_def)
  then have "subjectRefOf (g req) = subjectRefOf (f req)" by (simp add: request_cols_def subjectRefOf_def)
  with assms(1,4) same show ?thesis by (auto simp: toRequest_def monad_simps returns_def request_cols_def split: if_splits)
qed

text \<open>The two outcomes of a call made at different instants.\<close>

definition same_outcome :: "absence_request \<times> absence_entry option \<Rightarrow> absence_request \<times> absence_entry option \<Rightarrow> bool" where
  "same_outcome x y \<longleftrightarrow> rq_id (fst y) = rq_id (fst x) \<and> rq_status (fst y) = rq_status (fst x) \<and> rq_startDate (fst y) = rq_startDate (fst x) \<and>
     rq_days (fst y) = rq_days (fst x) \<and> rq_subject (fst y) = rq_subject (fst x) \<and> (snd y = None \<longleftrightarrow> snd x = None)"

lemma request_settled_any_time:
  assumes "getRequestRow i st = Inr req" and "settles status f" and "settles status g" and "status \<in> set requestStatus"
    and "emit cx ev (set_request (ar_id req) f st1) = Inr st2" and "bind_r (getRequestRow (ar_id req) st2) toRequest = Inr v"
    and "alike st1 s1" and "ab_requests st1 = ab_requests st" and "ab_requests s1 = ab_requests st"
  shows "\<exists>s2 v'. emit (cx\<lparr>cx_at := now\<rparr>) ev (set_request (ar_id req) g s1) = Inr s2 \<and> bind_r (getRequestRow (ar_id req) s2) toRequest = Inr v' \<and>
     same_outcome (v, w) (v', w)"
proof -
  have "alike (set_request (ar_id req) f st1) (set_request (ar_id req) g s1)" using assms(7) by simp
  from emit_any_time [OF assms(5) this, of now] obtain s2 where s2: "emit (cx\<lparr>cx_at := now\<rparr>) ev (set_request (ar_id req) g s1) = Inr s2" by blast
  have "ab_requests st2 = update_where (\<lambda>r. ar_id r = ar_id req) f (ab_requests st)" using ab_emit_tables [OF assms(5)] assms(8) by simp
  from settled_read [OF assms(1) this assms(2,4)] assms(6) have v: "toRequest (f req) = Inr v" by simp
  have "ab_requests s2 = update_where (\<lambda>r. ar_id r = ar_id req) g (ab_requests st)" using ab_emit_tables [OF s2] assms(9) by simp
  note read = settled_read [OF assms(1) this assms(3,4)]
  from toRequest_settled [OF v assms(2,3) getRequestRow_Inr(3) [OF read]] obtain v' where "toRequest (g req) = Inr v'" "same_outcome (v, w) (v', w)"
    by (auto simp: same_outcome_def)
  with s2 read show ?thesis by auto
qed

lemma approveRequest_any_time:
  assumes "approveRequest cx s input req st = Inr ((v, w), st')" and "getRequestRow i st = Inr req"
  shows "\<exists>v' w' s'. approveRequest (cx\<lparr>cx_at := now\<rparr>) s input req st = Inr ((v', w'), s') \<and> same_outcome (v, w) (v', w')"
proof -
  from assms(1) obtain ty balance taken left c booking st1 where
    pre: "getLeaveTypeRow (ar_leave_type_key req) st = Inr ty" "balanceAsOf (sb_ref s) (ar_leave_type_key req) None st = Inr balance"
      "negate_decimal (ar_days req) = Inr taken" "addDecimal balance taken = Inr left" "compareDecimal left (lt_floor ty) = Inr c" "0 \<le> c"
      "w = Some booking"
    and ins: "insertEntry cx (request_entry s req ''booking'' taken (ar_start_date req) (di_note input)) st = Inr (booking, st1)"
    and em: "emit cx (decided_event s req ''approved'' (JStr (en_id booking))
        [(''days'', JStr (ar_days req)), (''startDate'', JStr (ar_start_date req)), (''endDate'', JStr (ar_end_date req))])
        (set_request (ar_id req) (approved_row cx) st1) = Inr st'"
    and read: "bind_r (getRequestRow (ar_id req) st') toRequest = Inr v"
    by (auto simp: approveRequest_def monad_simps)
  from ins have rq: "ab_requests st1 = ab_requests st" by (rule insertEntry_Inr)
  from insertEntry_any_time [OF ins, of now] obtain b' s1 where b': "insertEntry (cx\<lparr>cx_at := now\<rparr>) (request_entry s req ''booking'' taken (ar_start_date req) (di_note input)) st = Inr (b', s1)"
    "en_id b' = en_id booking" "alike st1 s1" "ab_requests s1 = ab_requests st1" by blast
  have "''approved'' \<in> set requestStatus" by (simp add: requestStatus_def)
  from request_settled_any_time [OF assms(2) settles_rows(2) [of cx] settles_rows(2) [of "cx\<lparr>cx_at := now\<rparr>"] this em read b'(3) rq, of now w] b'(4) rq
  obtain s2 v' where "emit (cx\<lparr>cx_at := now\<rparr>) (decided_event s req ''approved'' (JStr (en_id booking))
        [(''days'', JStr (ar_days req)), (''startDate'', JStr (ar_start_date req)), (''endDate'', JStr (ar_end_date req))])
        (set_request (ar_id req) (approved_row (cx\<lparr>cx_at := now\<rparr>)) s1) = Inr s2" "bind_r (getRequestRow (ar_id req) s2) toRequest = Inr v'"
    "same_outcome (v, w) (v', w)" by auto
  then have "approveRequest (cx\<lparr>cx_at := now\<rparr>) s input req st = Inr ((v', Some b'), s2) \<and> same_outcome (v, w) (v', Some b')"
    using pre b'(1,2) by (simp add: approveRequest_def same_outcome_def)
  then show ?thesis by blast
qed

lemma rejectRequest_any_time:
  assumes "rejectRequest cx s input req st = Inr ((v, w), st')" and "getRequestRow i st = Inr req"
  shows "\<exists>v' w' s'. rejectRequest (cx\<lparr>cx_at := now\<rparr>) s input req st = Inr ((v', w'), s') \<and> same_outcome (v, w) (v', w')"
proof -
  have ev: "rejectRequest c' s input req s' =
      bind_r (emit c' (decided_event s req ''rejected'' JNull []) (set_request (ar_id req) (rejected_row c' (di_note input)) s')) (\<lambda>st2.
      bind_r (bind_r (getRequestRow (ar_id req) st2) toRequest) (\<lambda>v. Inr ((v, None), st2)))" for c' s'
    by (simp only: rejectRequest_def Let_def)
  from assms(1) have em: "emit cx (decided_event s req ''rejected'' JNull []) (set_request (ar_id req) (rejected_row cx (di_note input)) st) = Inr st'"
    and read: "bind_r (getRequestRow (ar_id req) st') toRequest = Inr v" and w: "w = None"
    by (auto simp: ev monad_simps)
  have "''rejected'' \<in> set requestStatus" by (simp add: requestStatus_def)
  from request_settled_any_time [OF assms(2) settles_rows(1) [of cx "di_note input"] settles_rows(1) [of "cx\<lparr>cx_at := now\<rparr>" "di_note input"]
      this em read alike_refl refl refl, of now w]
  show ?thesis by (auto simp: ev w)
qed

section \<open>A scope with one leave type\<close>

definition demo_employee :: absence_subject where
  "demo_employee = \<lparr>sb_ref = \<lparr>entityType = ''employee'', entityId = ''E1''\<rparr>, sb_dataSubjectId = demo_p2\<rparr>"

definition demo_leave :: ab_store where
  "demo_leave = \<lparr>tuples = [], outbox = [], passed = [], drawn = 0,
     ab_types = [\<lparr>lt_key = ''vacation'', lt_floor = ''0'', lt_active = 1, lt_created_at = ''2026-01-01T00:00:00.000Z''\<rparr>],
     ab_ledger = [], ab_requests = []\<rparr>"

definition demo_accrual :: ledger_input where
  "demo_accrual = \<lparr>li_subject = demo_employee, li_leaveTypeKey = ''vacation'', li_entryKind = ''accrual'', li_delta = ''5'',
     li_effectiveDate = ''2025-01-01'', li_requestId = None, li_note = None\<rparr>"

definition demo_asked :: "string \<Rightarrow> absence_input" where
  "demo_asked n = \<lparr>ai_subject = demo_employee, ai_leaveTypeKey = ''vacation'', ai_startDate = ''2025-07-07'', ai_endDate = ''2025-07-09'',
     ai_days = n, ai_note = None\<rparr>"

definition demo_decision :: "string \<Rightarrow> decide_input" where
  "demo_decision i = \<lparr>di_requestId = i, di_decision = ''approve'', di_note = None\<rparr>"

lemma demo_leave_ok: "absence_ok demo_leave"
  by (simp add: absence_ok_def demo_leave_def)

text \<open>Five days recorded, three asked for on days that have passed, approved.\<close>

lemma demo_approved:
  obtains e s1 rq s2 v w s3 where "recordEntry demo_ctx demo_accrual demo_leave = Inr (e, s1)"
    and "requestAbsence demo_ctx (demo_asked ''3'') s1 = Inr (rq, s2)"
    and "decideAbsence demo_ctx (demo_decision (rq_id rq)) s2 = Inr ((v, w), s3)"
    and "rq_startDate rq < take 10 (cx_at demo_ctx)" and "rq_status v = ''approved''"
    and "balanceAsOf (sb_ref demo_employee) ''vacation'' None s3 = Inr ''2''" and "rq_id v = rq_id rq"
proof -
  have "bind_r (recordEntry demo_ctx demo_accrual demo_leave) (\<lambda>(e, s1).
      bind_r (requestAbsence demo_ctx (demo_asked ''3'') s1) (\<lambda>(rq, s2).
      bind_r (decideAbsence demo_ctx (demo_decision (rq_id rq)) s2) (\<lambda>((v, w), s3).
      bind_r (guard_r (rq_startDate rq < take 10 (cx_at demo_ctx) \<and> rq_status v = ''approved'' \<and> rq_id v = rq_id rq) (PlainError []))
        (\<lambda>_. balanceAsOf (sb_ref demo_employee) ''vacation'' None s3)))) = Inr ''2''"
    by code_simp
  then show thesis by (auto simp: monad_simps intro: that)
qed


end
