(* ===== verification/Absence_Days.thy ===== *)
theory Absence_Days
  imports Absence
begin

text \<open>
  The days an availability answers.  Text order on calendar dates is the order of their day numbers, and
  \<open>Date.UTC\<close> and \<open>toISOString\<close> are inverse on the years 100 to 9999, so the walk of \<open>eachDate\<close> names every
  date of an interval once, in order.
\<close>

section \<open>Digit strings in order\<close>

lemma digits_value_Cons: "digits_value (c # s) = digit_value c * 10 ^ length s + digits_value s"
  using digits_value_append [of "[c]" s] by (simp add: digits_value_def)

lemma digit_value_range: "is_digit c \<Longrightarrow> 0 \<le> digit_value c \<and> digit_value c \<le> 9"
  by (simp add: is_digit_def in_range_def less_eq_char_def digit_value_def)

lemma digit_less: "c < e \<longleftrightarrow> digit_value c < digit_value e"
  by (simp add: less_char_def digit_value_def)

lemma digit_value_inj: "digit_value c = digit_value e \<longleftrightarrow> c = e"
  by (metis digit_less linorder_neq_iff)

lemma digits_value_range: "list_all is_digit s \<Longrightarrow> 0 \<le> digits_value s \<and> digits_value s < 10 ^ length s"
proof (induction s)
  case Nil
  then show ?case by (simp add: digits_value_def)
next
  case (Cons c s)
  then have c: "0 \<le> digit_value c" "digit_value c \<le> 9" and s: "0 \<le> digits_value s" "digits_value s < 10 ^ length s"
    using digit_value_range [of c] by simp_all
  have "digit_value c * 10 ^ length s \<le> 9 * 10 ^ length s" using c(2) by (intro mult_right_mono) simp_all
  with c(1) s have "0 \<le> digit_value c * 10 ^ length s + digits_value s" "digit_value c * 10 ^ length s + digits_value s < 10 * 10 ^ length s"
    by (simp, linarith)
  then show ?case by (simp add: digits_value_Cons)
qed

lemma digits_less:
  assumes "length s = length r" and "list_all is_digit s" and "list_all is_digit r"
  shows "s < r \<longleftrightarrow> digits_value s < digits_value r"
  using assms
proof (induction s r rule: list_induct2)
  case (Cons c s e r)
  then have IH: "s < r \<longleftrightarrow> digits_value s < digits_value r" by simp
  have s: "0 \<le> digits_value s" "digits_value s < 10 ^ length s" and r: "0 \<le> digits_value r" "digits_value r < 10 ^ length s"
    using digits_value_range [of s] digits_value_range [of r] Cons.prems Cons.hyps by simp_all
  consider "digit_value c < digit_value e" | "c = e" | "digit_value e < digit_value c" using digit_value_inj by fastforce
  then show ?case
  proof cases
    case 1
    have "(digit_value c + 1) * 10 ^ length s \<le> digit_value e * 10 ^ length s" using 1 by (intro mult_right_mono) simp_all
    with 1 s r show ?thesis using Cons.hyps by (simp add: digits_value_Cons digit_less distrib_right)
  next
    case 2
    then show ?thesis using IH Cons.hyps by (simp add: digits_value_Cons)
  next
    case 3
    have "(digit_value e + 1) * 10 ^ length s \<le> digit_value c * 10 ^ length s" using 3 by (intro mult_right_mono) simp_all
    with 3 s r show ?thesis using Cons.hyps by (auto simp add: digits_value_Cons digit_less distrib_right)
  qed
qed (simp add: digits_value_def)

lemma digits_inj:
  assumes "length s = length r" and "list_all is_digit s" and "list_all is_digit r" and "digits_value s = digits_value r"
  shows "s = r"
  using digits_less [OF assms(1-3)] digits_less [OF assms(1) [symmetric] assms(3,2)] assms(4) by (metis linorder_neq_iff)

lemma append_less: "length a = length c \<Longrightarrow> a @ b < c @ e \<longleftrightarrow> a < c \<or> a = c \<and> b < (e :: string)"
  by (induction a c rule: list_induct2) auto

text \<open>A number in a field of fixed width.\<close>

definition field :: "nat \<Rightarrow> int \<Rightarrow> string" where
  "field k n = padStart0 k (show_nat (nat n))"

lemma field_props:
  assumes "0 \<le> n" and "n < 10 ^ k" and "0 < k"
  shows "length (field k n) = k" and "list_all is_digit (field k n)" and "digits_value (field k n) = n"
proof -
  obtain j where j: "k = Suc j" using assms(3) by (cases k) simp_all
  have "nat n < 10 ^ k" using assms(1,2) by (simp add: nat_less_iff)
  then have "length (show_nat (nat n)) \<le> k" unfolding j by (rule show_nat_length)
  then show "length (field k n) = k" by (simp add: field_def padStart0_def)
  show "list_all is_digit (field k n)"
    using show_nat_digits [of "nat n"] by (auto simp: field_def padStart0_def list_all_iff is_digit_0)
  show "digits_value (field k n) = n"
    using assms(1) by (simp add: field_def padStart0_def digits_value_append digits_value_zeros show_nat_value)
qed

lemma field_digits:
  assumes "list_all is_digit s" and "length s = k" and "0 < k"
  shows "field k (digits_value s) = s"
proof -
  note v = digits_value_range [OF assms(1)]
  note f = field_props [of "digits_value s" k]
  show ?thesis using v assms f by (intro digits_inj) simp_all
qed

lemma field_less:
  assumes "0 \<le> n" and "n < 10 ^ k" and "0 \<le> n'" and "n' < 10 ^ k" and "0 < k"
  shows "field k n < field k n' \<longleftrightarrow> n < n'" and "field k n = field k n' \<longleftrightarrow> n = n'"
proof -
  note f = field_props [OF assms(1,2,5)] and f' = field_props [OF assms(3-5)]
  show "field k n < field k n' \<longleftrightarrow> n < n'" using f f' by (simp add: digits_less)
  show "field k n = field k n' \<longleftrightarrow> n = n'" using f(3) f'(3) by metis
qed

section \<open>Dates as text\<close>

definition valid_date :: "int \<Rightarrow> int \<Rightarrow> int \<Rightarrow> bool" where
  "valid_date y m d \<longleftrightarrow> 0 \<le> y \<and> y \<le> 9999 \<and> real_day y m d"

lemma valid_date_range: "valid_date y m d \<Longrightarrow> 0 \<le> y \<and> y < 10 ^ 4 \<and> 0 \<le> m \<and> m < 10 ^ 2 \<and> 0 \<le> d \<and> d < 10 ^ 2"
  by (auto simp: valid_date_def real_day_def days_in_month_def split: if_splits)

lemma date_text_fields: "date_text y m d = field 4 y @ CHR ''-'' # field 2 m @ CHR ''-'' # field 2 d"
  by (simp add: date_text_def field_def)

lemma date_text_slices:
  assumes "valid_date y m d"
  shows "slice_number 0 4 (date_text y m d) = y" and "slice_number 5 7 (date_text y m d) = m" and "slice_number 8 10 (date_text y m d) = d"
    and "calendarDate (date_text y m d)"
proof -
  note r = valid_date_range [OF assms]
  have y: "length (field 4 y) = 4" "list_all is_digit (field 4 y)" "digits_value (field 4 y) = y"
    and m: "length (field 2 m) = 2" "list_all is_digit (field 2 m)" "digits_value (field 2 m) = m"
    and d: "length (field 2 d) = 2" "list_all is_digit (field 2 d)" "digits_value (field 2 d) = d"
    using field_props [of y 4] field_props [of m 2] field_props [of d 2] r by simp_all
  show s: "slice_number 0 4 (date_text y m d) = y" "slice_number 5 7 (date_text y m d) = m" "slice_number 8 10 (date_text y m d) = d"
    using y m d by (simp_all add: slice_number_def date_text_fields drop_Cons')
  have "matches ''dddd-dd-dd'' (date_text y m d)"
  proof -
    have "list_all2 (\<lambda>c x. if c = CHR ''d'' then is_digit x else x = c) (replicate k CHR ''d'') xs" if "length xs = k" "list_all is_digit xs" for k xs
      using that by (simp add: list_all2_conv_all_nth list_all_length)
    from this [OF y(1,2)] this [OF m(1,2)] this [OF d(1,2)]
    have "list_all2 (\<lambda>c x. if c = CHR ''d'' then is_digit x else x = c)
        (replicate 4 CHR ''d'' @ CHR ''-'' # replicate 2 CHR ''d'' @ CHR ''-'' # replicate 2 CHR ''d'') (date_text y m d)"
      unfolding date_text_fields by (intro list_all2_appendI list_all2_Cons [THEN iffD2] conjI) simp_all
    then show ?thesis by (simp add: matches_def numeral_eq_Suc)
  qed
  with s assms show "calendarDate (date_text y m d)" by (simp add: calendarDate_def valid_date_def)
qed

lemma calendarDate_text:
  assumes "calendarDate s"
  obtains y m d where "s = date_text y m d" and "valid_date y m d"
proof -
  from assms have shape: "matches ''dddd-dd-dd'' s" and real: "real_day (slice_number 0 4 s) (slice_number 5 7 s) (slice_number 8 10 s)"
    by (simp_all add: calendarDate_def)
  then obtain a b c e f g h i where s: "s = [a, b, c, e] @ CHR ''-'' # [f, g] @ CHR ''-'' # [h, i]"
    and digits: "list_all is_digit [a, b, c, e]" "list_all is_digit [f, g]" "list_all is_digit [h, i]"
    by (auto simp: matches_def list_all2_Cons1)
  have slices: "slice_number 0 4 s = digits_value [a, b, c, e]" "slice_number 5 7 s = digits_value [f, g]" "slice_number 8 10 s = digits_value [h, i]"
    by (simp_all add: s slice_number_def)
  have "s = date_text (slice_number 0 4 s) (slice_number 5 7 s) (slice_number 8 10 s)"
    unfolding date_text_fields slices
    using field_digits [OF digits(1), of 4] field_digits [OF digits(2), of 2] field_digits [OF digits(3), of 2] by (simp add: s)
  moreover have "valid_date (slice_number 0 4 s) (slice_number 5 7 s) (slice_number 8 10 s)"
    using real digits_value_range [OF digits(1)] by (simp add: valid_date_def slices)
  ultimately show thesis by (rule that)
qed

lemma date_text_less:
  assumes "valid_date y m d" and "valid_date y' m' d'"
  shows "date_text y m d < date_text y' m' d' \<longleftrightarrow> y < y' \<or> y = y' \<and> (m < m' \<or> m = m' \<and> d < d')"
proof -
  note r = valid_date_range [OF assms(1)] valid_date_range [OF assms(2)]
  have len: "length (field 4 y) = length (field 4 y')" "length (field 2 m) = length (field 2 m')"
    using field_props(1) [of y 4] field_props(1) [of y' 4] field_props(1) [of m 2] field_props(1) [of m' 2] r by simp_all
  note y = field_less [of y 4 y'] and m = field_less [of m 2 m'] and d = field_less [of d 2 d']
  show ?thesis
    unfolding date_text_fields using r by (simp add: append_less [OF len(1)] append_less [OF len(2)] y m d)
qed

section \<open>Day numbers\<close>

definition day_number :: "int \<Rightarrow> int \<Rightarrow> int \<Rightarrow> int" where
  "day_number y m d = day_from_year y + days_before_month y m + d - 1"

lemma div_range: "0 < k \<Longrightarrow> k * (x div k) \<le> x \<and> x < k * (x div k) + (k :: int)"
  using mult_div_mod_eq [of k x] pos_mod_bound [of k x] pos_mod_sign [of k x] by linarith

lemma next_div:
  fixes x k :: int
  assumes "0 < k"
  shows "(x + 1) div k = x div k + (if (x + 1) mod k = 0 then 1 else 0)"
proof (cases "x mod k + 1 = k")
  case True
  then have "x + 1 = k * (x div k) + k" using mult_div_mod_eq [of k x] by linarith
  also have "\<dots> = (x div k + 1) * k" by (simp add: distrib_left mult.commute)
  finally show ?thesis using assms by simp
next
  case False
  then have r: "0 \<le> x mod k + 1" "x mod k + 1 < k" using pos_mod_bound [OF assms, of x] pos_mod_sign [OF assms, of x] by linarith+
  have x: "x + 1 = k * (x div k) + (x mod k + 1)" using mult_div_mod_eq [of k x] by linarith
  have "(x + 1) div k = x div k" using x r by (rule int_div_pos_eq)
  moreover have "(x + 1) mod k = x mod k + 1" using x r by (rule int_mod_pos_eq)
  ultimately show ?thesis using pos_mod_sign [OF assms, of x] by simp
qed

lemma leap_step:
  fixes y a a' b b' c c' :: int
  assumes "a = a' + (if y mod 4 = 0 then 1 else 0)" and "b = b' + (if y mod 100 = 0 then 1 else 0)"
    and "c = c' + (if y mod 400 = 0 then 1 else 0)" and "y mod 400 = 0 \<longrightarrow> y mod 100 = 0" and "y mod 100 = 0 \<longrightarrow> y mod 4 = 0"
  shows "365 * (y - 1969) + a - b + c = 365 * (y - 1970) + a' - b' + c' + (if leap_year y then 366 else 365)"
  using assms unfolding leap_year_def by (cases "y mod 4 = 0"; cases "y mod 100 = 0"; cases "y mod 400 = 0") simp_all

lemma next_year: "day_from_year (y + 1) = day_from_year y + (if leap_year y then 366 else 365)"
proof -
  have m: "(y - 1968) mod 4 = y mod 4" "(y - 1900) mod 100 = y mod 100" "(y - 1600) mod 400 = y mod 400"
    using mod_mult_self1 [of y "-492" 4] mod_mult_self1 [of y "-19" 100] mod_mult_self1 [of y "-4" 400] by simp_all
  have e: "y - 1969 + 1 = y - 1968" "y - 1901 + 1 = y - 1900" "y - 1601 + 1 = y - 1600" by simp_all
  have y: "(y - 1968) div 4 = (y - 1969) div 4 + (if y mod 4 = 0 then 1 else 0)"
    "(y - 1900) div 100 = (y - 1901) div 100 + (if y mod 100 = 0 then 1 else 0)"
    "(y - 1600) div 400 = (y - 1601) div 400 + (if y mod 400 = 0 then 1 else 0)"
    using next_div [of 4 "y - 1969", OF zero_less_numeral] next_div [of 100 "y - 1901", OF zero_less_numeral]
      next_div [of 400 "y - 1601", OF zero_less_numeral] by (simp_all only: e m)
  have d: "y mod 400 = 0 \<longrightarrow> y mod 100 = 0" "y mod 100 = 0 \<longrightarrow> y mod 4 = 0"
    using dvd_trans [of 100 400 y] dvd_trans [of 4 100 y] unfolding mod_eq_0_iff_dvd by simp_all
  have "day_from_year (y + 1) = 365 * (y - 1969) + (y - 1968) div 4 - (y - 1900) div 100 + (y - 1600) div 400"
    by (simp add: day_from_year_def)
  then show ?thesis unfolding leap_step [OF y d] by (simp only: day_from_year_def)
qed

lemma months_before:
  "days_before_month y 1 = 0" "days_before_month y 2 = 31" "days_before_month y 3 = (if leap_year y then 60 else 59)"
  "days_before_month y 4 = (if leap_year y then 91 else 90)" "days_before_month y 5 = (if leap_year y then 121 else 120)"
  "days_before_month y 6 = (if leap_year y then 152 else 151)" "days_before_month y 7 = (if leap_year y then 182 else 181)"
  "days_before_month y 8 = (if leap_year y then 213 else 212)" "days_before_month y 9 = (if leap_year y then 244 else 243)"
  "days_before_month y 10 = (if leap_year y then 274 else 273)" "days_before_month y 11 = (if leap_year y then 305 else 304)"
  "days_before_month y 12 = (if leap_year y then 335 else 334)" "days_before_month y 13 = (if leap_year y then 366 else 365)"
  by (simp_all add: days_before_month_def days_in_month_def upto.simps)

lemma month_cases: "1 \<le> m \<Longrightarrow> m \<le> 12 \<Longrightarrow> m \<in> {1, 2, 3, 4, 5, 6, 7, 8, 9, 10, 11, 12 :: int}"
  by simp presburger

lemma next_month: "1 \<le> m \<Longrightarrow> m \<le> 12 \<Longrightarrow> days_before_month y (m + 1) = days_before_month y m + days_in_month y m"
  using month_cases [of m] by (auto simp: months_before days_in_month_def)

lemma months_mono: "1 \<le> m \<Longrightarrow> m \<le> m' \<Longrightarrow> m' \<le> 13 \<Longrightarrow> days_before_month y m \<le> days_before_month y m'"
proof (induction "nat (m' - m)" arbitrary: m')
  case (Suc k)
  then have "days_before_month y m \<le> days_before_month y (m' - 1)" by simp
  moreover have "days_before_month y m' = days_before_month y (m' - 1) + days_in_month y (m' - 1)"
    using next_month [of "m' - 1" y] Suc.prems Suc.hyps(2) by simp
  moreover have "0 \<le> days_in_month y (m' - 1)" by (simp add: days_in_month_def)
  ultimately show ?case by simp
qed simp

lemma years_mono: "y \<le> y' \<Longrightarrow> day_from_year y \<le> day_from_year y'"
proof (induction "nat (y' - y)" arbitrary: y')
  case (Suc k)
  then have "day_from_year y \<le> day_from_year (y' - 1)" by simp
  moreover have "day_from_year (y' - 1) \<le> day_from_year y'" using next_year [of "y' - 1"] by (simp split: if_splits)
  ultimately show ?case by simp
qed simp

lemma day_in_year:
  assumes "real_day y m d"
  shows "day_from_year y \<le> day_number y m d" and "day_number y m d < day_from_year (y + 1)"
    and "day_number y m d < day_from_year y + days_before_month y (m + 1)"
proof -
  have m: "1 \<le> m" "m \<le> 12" "1 \<le> d" "d \<le> days_in_month y m" using assms by (simp_all add: real_day_def)
  show month: "day_number y m d < day_from_year y + days_before_month y (m + 1)" using m next_month [of m y] by (simp add: day_number_def)
  have "0 \<le> days_before_month y m" using months_mono [of 1 m y] m by (simp add: months_before)
  then show "day_from_year y \<le> day_number y m d" using m by (simp add: day_number_def)
  have "days_before_month y (m + 1) \<le> days_before_month y 13" using months_mono [of "m + 1" 13 y] m by simp
  with month show "day_number y m d < day_from_year (y + 1)" by (simp add: next_year months_before split: if_splits)
qed

lemma day_number_less:
  assumes "real_day y m d" and "real_day y' m' d'" and "y < y' \<or> y = y' \<and> (m < m' \<or> m = m' \<and> d < d')"
  shows "day_number y m d < day_number y' m' d'"
proof -
  consider "y < y'" | "y = y'" "m < m'" | "y = y'" "m = m'" "d < d'" using assms(3) by blast
  then show ?thesis
  proof cases
    case 1
    then have "day_from_year (y + 1) \<le> day_from_year y'" by (intro years_mono) simp
    with day_in_year(2) [OF assms(1)] day_in_year(1) [OF assms(2)] show ?thesis by simp
  next
    case 2
    then have "days_before_month y (m + 1) \<le> days_before_month y m'" using assms(1,2) by (intro months_mono) (simp_all add: real_day_def)
    with 2 day_in_year(3) [OF assms(1)] assms(2) show ?thesis by (simp add: day_number_def real_day_def)
  qed (simp add: day_number_def)
qed

lemma year_of_day_bounds: "day_from_year (year_of_day n) \<le> n" "n < day_from_year (year_of_day n + 1)"
proof -
  have D: "146097 * (y - 1970) - 506 \<le> 400 * day_from_year y \<and> 400 * day_from_year y \<le> 146097 * (y - 1970) + 589" for y
  proof -
    define a b c where "a = (y - 1969) div 4" and "b = (y - 1901) div 100" and "c = (y - 1601) div 400"
    have "4 * a \<le> y - 1969" "y - 1969 < 4 * a + 4" "100 * b \<le> y - 1901" "y - 1901 < 100 * b + 100"
      "400 * c \<le> y - 1601" "y - 1601 < 400 * c + 400"
      unfolding a_def b_def c_def using div_range [of 4 "y - 1969"] div_range [of 100 "y - 1901"] div_range [of 400 "y - 1601"] by simp_all
    moreover have "400 * day_from_year y = 146000 * (y - 1970) + 100 * (4 * a) - 4 * (100 * b) + 400 * c"
      by (simp add: day_from_year_def a_def b_def c_def algebra_simps)
    ultimately have "400 * day_from_year y = 146000 * (y - 1970) + 100 * (4 * a) - 4 * (100 * b) + 400 * c"
      "100 * (y - 1972) \<le> 100 * (4 * a)" "100 * (4 * a) \<le> 100 * (y - 1969)" "4 * (y - 2000) \<le> 4 * (100 * b)"
      "4 * (100 * b) \<le> 4 * (y - 1901)" "y - 2000 \<le> 400 * c" "400 * c \<le> y - 1601" by simp_all
    then show ?thesis by (simp add: algebra_simps)
  qed
  define y where "y = 1970 + 400 * n div 146097"
  have y: "146097 * (y - 1970) \<le> 400 * n" "400 * n < 146097 * (y - 1970) + 146097" 
    using div_range [of 146097 "400 * n"] by (simp_all add: y_def)
  have "400 * day_from_year (y - 1) \<le> 400 * n" using D [of "y - 1"] y by (simp add: algebra_simps)
  moreover have "400 * n < 400 * day_from_year (y + 2)" using D [of "y + 2"] y by (simp add: algebra_simps)
  moreover have "year_of_day n = (if n < day_from_year y then y - 1 else if day_from_year (y + 1) \<le> n then y + 1 else y)"
    by (simp add: year_of_day_def y_def Let_def)
  ultimately show "day_from_year (year_of_day n) \<le> n" "n < day_from_year (year_of_day n + 1)"
    by (auto simp: add.commute [of 2] split: if_splits)
qed

lemma month_of_day_bounds:
  assumes "0 \<le> k" and "k < (if leap_year y then 366 else 365)"
  shows "1 \<le> month_of_day y k" and "month_of_day y k \<le> 12" and "days_before_month y (month_of_day y k) \<le> k"
    and "k < days_before_month y (month_of_day y k + 1)"
proof -
  let ?p = "\<lambda>m. k < days_before_month y (m + 1)"
  define m where "m = month_of_day y k"
  have ne: "filter ?p [1..12] \<noteq> []" using assms(2) by (auto simp: filter_empty_conv months_before intro!: bexI [of _ 12])
  then have "hd (filter ?p [1..12]) \<in> set (filter ?p [1..12])" by (rule hd_in_set)
  then have m: "1 \<le> m" "m \<le> 12" "?p m" by (auto simp: m_def month_of_day_def)
  have low: "days_before_month y m \<le> k"
  proof (cases "m = 1")
    case False
    have "\<not> ?p (m - 1)"
    proof
      assume p: "?p (m - 1)"
      have "sorted (filter ?p [1..12])" by (simp add: sorted_wrt_filter)
      moreover have "m - 1 \<in> set (filter ?p [1..12])" using p m False by simp
      ultimately have "hd (filter ?p [1..12]) \<le> m - 1" by (cases "filter ?p [1..12]") auto
      then show False by (simp add: m_def month_of_day_def)
    qed
    then show ?thesis by simp
  qed (use assms(1) in \<open>simp add: months_before\<close>)
  with m show "1 \<le> month_of_day y k" "month_of_day y k \<le> 12" "days_before_month y (month_of_day y k) \<le> k"
    "k < days_before_month y (month_of_day y k + 1)" by (simp_all add: m_def)
qed

text \<open>Printing a day number and counting the days of what was printed are inverse.\<close>

lemma iso_date_of_day:
  obtains y m d where "iso_date_of (MS_PER_DAY * n) = date_text y m d" and "real_day y m d" and "day_number y m d = n" and "y = year_of_day n"
proof -
  define y k where "y = year_of_day n" and "k = n - day_from_year y"
  define m where "m = month_of_day y k"
  have k: "0 \<le> k" "k < (if leap_year y then 366 else 365)"
    using year_of_day_bounds [of n] next_year [of y] by (auto simp: y_def k_def split: if_splits)
  note m = month_of_day_bounds [OF k, folded m_def]
  have "real_day y m (k - days_before_month y m + 1)"
    using m next_month [OF m(1,2), of y] by (simp add: real_day_def)
  moreover have "day_number y m (k - days_before_month y m + 1) = n" by (simp add: day_number_def k_def)
  moreover have "iso_date_of (MS_PER_DAY * n) = date_text y m (k - days_before_month y m + 1)"
    by (simp add: iso_date_of_def MS_PER_DAY_def Let_def y_def k_def m_def)
  ultimately show thesis using y_def by (intro that)
qed


section \<open>The walk\<close>

definition day_of :: "string \<Rightarrow> int" where
  "day_of s = day_number (slice_number 0 4 s) (slice_number 5 7 s) (slice_number 8 10 s)"

lemma day_of_text: "valid_date y m d \<Longrightarrow> day_of (date_text y m d) = day_number y m d"
  by (simp add: day_of_def date_text_slices)

lemma day_of_less:
  assumes "calendarDate s" and "calendarDate r"
  shows "s < r \<longleftrightarrow> day_of s < day_of r"
proof -
  obtain y m d where s: "s = date_text y m d" "valid_date y m d" using assms(1) by (rule calendarDate_text)
  obtain y' m' d' where r: "r = date_text y' m' d'" "valid_date y' m' d'" using assms(2) by (rule calendarDate_text)
  have real: "real_day y m d" "real_day y' m' d'" using s r by (simp_all add: valid_date_def)
  consider "y < y' \<or> y = y' \<and> (m < m' \<or> m = m' \<and> d < d')" | "y = y'" "m = m'" "d = d'" | "y' < y \<or> y' = y \<and> (m' < m \<or> m' = m \<and> d' < d)"
    by fastforce
  then show ?thesis
  proof cases
    case 1
    then show ?thesis using day_number_less [OF real 1] s r date_text_less [OF s(2) r(2)] by (simp add: day_of_text)
  next
    case 2
    then show ?thesis using s r by simp
  next
    case 3
    then show ?thesis using day_number_less [OF real(2,1) 3] s r date_text_less [OF s(2) r(2)] by (auto simp: day_of_text)
  qed
qed

lemma day_of_le: "calendarDate s \<Longrightarrow> calendarDate r \<Longrightarrow> s \<le> r \<longleftrightarrow> day_of s \<le> day_of r"
  using day_of_less [of r s] by auto

lemma day_of_inj: "calendarDate s \<Longrightarrow> calendarDate r \<Longrightarrow> day_of s = day_of r \<Longrightarrow> s = r"
  by (simp add: day_of_le order_eq_iff)

lemma each_date_days:
  "each_date_from (MS_PER_DAY * a) (MS_PER_DAY * b) = map (\<lambda>n. iso_date_of (MS_PER_DAY * n)) [a..b]"
proof (induction "nat (b + 1 - a)" arbitrary: a)
  case 0
  then have "b < a" by simp
  then show ?case by (subst each_date_from.simps) (simp add: MS_PER_DAY_def)
next
  case (Suc k)
  then have "a \<le> b" and IH: "each_date_from (MS_PER_DAY * (a + 1)) (MS_PER_DAY * b) = map (\<lambda>n. iso_date_of (MS_PER_DAY * n)) [a + 1..b]"
    by simp_all
  moreover have "MS_PER_DAY * a + MS_PER_DAY = MS_PER_DAY * (a + 1)" by (simp add: distrib_left)
  ultimately show ?case by (subst each_date_from.simps) (simp add: MS_PER_DAY_def upto_rec1)
qed

text \<open>The first date \<open>Date.UTC\<close> reads as it is written.\<close>

definition FIRST_DATE :: string where
  "FIRST_DATE = ''0100-01-01''"

lemma first_date: "FIRST_DATE = date_text 100 1 1" "valid_date 100 1 1"
  by code_simp+

lemma utc_of_date:
  assumes "calendarDate s" and "FIRST_DATE \<le> s"
  shows "utc_of_text s = MS_PER_DAY * day_of s" and "\<exists>y m d. s = date_text y m d \<and> valid_date y m d \<and> 100 \<le> y"
proof -
  obtain y m d where s: "s = date_text y m d" "valid_date y m d" using assms(1) by (rule calendarDate_text)
  have y: "100 \<le> y" using assms(2) date_text_less [OF s(2) first_date(2)] by (auto simp: s(1) first_date(1) not_less [symmetric])
  then show "utc_of_text s = MS_PER_DAY * day_of s"
    by (simp add: utc_of_text_def date_utc_def day_of_def s date_text_slices [OF s(2)] day_number_def)
  from s y show "\<exists>y m d. s = date_text y m d \<and> valid_date y m d \<and> 100 \<le> y" by blast
qed

lemma iso_date_between:
  assumes "calendarDate a" and "calendarDate b" and "FIRST_DATE \<le> a" and "a \<le> b" and "day_of a \<le> n" and "n \<le> day_of b"
  shows "calendarDate (iso_date_of (MS_PER_DAY * n))" and "day_of (iso_date_of (MS_PER_DAY * n)) = n"
proof -
  obtain ya ma da where a: "a = date_text ya ma da" "valid_date ya ma da" "100 \<le> ya" using utc_of_date(2) [OF assms(1,3)] by blast
  obtain yb mb db where b: "b = date_text yb mb db" "valid_date yb mb db" "100 \<le> yb"
    using utc_of_date(2) [OF assms(2) order_trans [OF assms(3,4)]] by blast
  have la: "day_from_year ya \<le> n" using day_in_year(1) [of ya ma da] a assms(5) by (simp add: day_of_text valid_date_def)
  have lb: "n < day_from_year (yb + 1)" using day_in_year(2) [of yb mb db] b assms(6) by (simp add: day_of_text valid_date_def)
  obtain y m d where i: "iso_date_of (MS_PER_DAY * n) = date_text y m d" "real_day y m d" "day_number y m d = n" "y = year_of_day n"
    by (rule iso_date_of_day)
  have "ya \<le> y" using years_mono [of "y + 1" ya] la year_of_day_bounds(2) [of n] i(4) by (cases "ya \<le> y") auto
  moreover have "y \<le> yb" using years_mono [of "yb + 1" y] lb year_of_day_bounds(1) [of n] i(4) by (cases "y \<le> yb") auto
  ultimately have v: "valid_date y m d" using a(3) b(2) i(2) by (simp add: valid_date_def)
  show "calendarDate (iso_date_of (MS_PER_DAY * n))" "day_of (iso_date_of (MS_PER_DAY * n)) = n"
    using date_text_slices(4) [OF v] day_of_text [OF v] i by simp_all
qed

lemma eachDate_exact:
  assumes "calendarDate a" and "calendarDate b" and "FIRST_DATE \<le> a" and "a \<le> b"
  shows "sorted_wrt (<) (eachDate a b)" and "set (eachDate a b) = {x. calendarDate x \<and> a \<le> x \<and> x \<le> b}"
proof -
  let ?f = "\<lambda>n. iso_date_of (MS_PER_DAY * n)"
  note f = iso_date_between [OF assms]
  have walk: "eachDate a b = map ?f [day_of a..day_of b]"
    using utc_of_date(1) [OF assms(1,3)] utc_of_date(1) [OF assms(2) order_trans [OF assms(3,4)]] by (simp add: eachDate_def each_date_days)
  have less: "?f n < ?f k" if "n < k" "n \<in> set [day_of a..day_of b]" "k \<in> set [day_of a..day_of b]" for n k
    using that f by (simp add: day_of_less)
  have days: "sorted_wrt (<) [day_of a..day_of b]" by simp
  show "sorted_wrt (<) (eachDate a b)"
    unfolding walk sorted_wrt_map by (rule sorted_wrt_mono_rel [OF _ days]) (rule less)
  show "set (eachDate a b) = {x. calendarDate x \<and> a \<le> x \<and> x \<le> b}"
  proof (intro set_eqI iffI)
    fix x assume "x \<in> set (eachDate a b)"
    then obtain n where "x = ?f n" "day_of a \<le> n" "n \<le> day_of b" by (auto simp: walk)
    with f [of n] assms show "x \<in> {x. calendarDate x \<and> a \<le> x \<and> x \<le> b}" by (simp add: day_of_le)
  next
    fix x assume x: "x \<in> {x. calendarDate x \<and> a \<le> x \<and> x \<le> b}"
    then have "day_of a \<le> day_of x" "day_of x \<le> day_of b" using day_of_le [of a x] day_of_le [of x b] assms(1,2) by auto
    then have "x = ?f (day_of x)" "day_of x \<in> set [day_of a..day_of b]" using f [of "day_of x"] x day_of_inj [of x] by simp_all
    then show "x \<in> set (eachDate a b)" unfolding walk by (metis image_eqI list.set_map)
  qed
qed

text \<open>Before that year a walk answers the twentieth century.\<close>

lemma walk_before_first_date: "eachDate ''0050-12-31'' ''0051-01-01'' = [''1950-12-31'', ''1951-01-01'']"
  by code_simp


end
