(* ===== verification/Absence_Claims.thy ===== *)
theory Absence_Claims
  imports Absence_Ledger Absence_Days
begin

text \<open>
  What the absence engine promises: what a balance is, that an approval is decided by the floor, that a
  cancellation takes exactly the booking back, what a run may change, what a sweep clears, and who may
  cancel.
\<close>

section \<open>Balances\<close>

text \<open>
  C16. A balance is the days administrators recorded less the days of the requests that stand approved,
  as of any date, after any run: nothing else ever reaches the fold.
\<close>

theorem balance_is_recorded_less_approved:
  assumes "absence_ok st" and "ab_step\<^sup>*\<^sup>* st st'" and "if_given calendarDate asOf"
  shows "\<exists>q. balanceAsOf subj key asOf st' = Inr q \<and>
    micro q = recorded_days subj key asOf (ab_ledger st') - approved_days subj key asOf (ab_requests st')"
proof -
  have ok: "absence_ok st'" using ab_run_tab [OF assms(2,1)] by simp
  from balance_days [OF ok assms(3)] show ?thesis by (auto simp: ledger_days [OF ok])
qed

lemma demo_leave_run: obtains e s1 rq s2 v w s3 where "recordEntry demo_ctx demo_accrual demo_leave = Inr (e, s1)"
    and "requestAbsence demo_ctx (demo_asked ''3'') s1 = Inr (rq, s2)"
    and "decideAbsence demo_ctx (demo_decision (rq_id rq)) s2 = Inr ((v, w), s3)" and "ab_step\<^sup>*\<^sup>* demo_leave s2" and "ab_step\<^sup>*\<^sup>* demo_leave s3"
    and "balanceAsOf (sb_ref demo_employee) ''vacation'' None s3 = Inr ''2''"
proof -
  obtain e s1 rq s2 v w s3 where 1: "recordEntry demo_ctx demo_accrual demo_leave = Inr (e, s1)"
    "requestAbsence demo_ctx (demo_asked ''3'') s1 = Inr (rq, s2)" "decideAbsence demo_ctx (demo_decision (rq_id rq)) s2 = Inr ((v, w), s3)"
    "balanceAsOf (sb_ref demo_employee) ''vacation'' None s3 = Inr ''2''" by (rule demo_approved)
  have "ab_step demo_leave s1" "ab_step s1 s2" "ab_step s2 s3"
    using ab_step.entered [OF 1(1)] ab_step.requested [OF 1(2)] ab_step.decided [OF 1(3)] by simp_all
  with 1 show thesis by (intro that) auto
qed

theorem balance_is_recorded_less_approved_witness:
  "\<exists>s. ab_step\<^sup>*\<^sup>* demo_leave s \<and> balanceAsOf (sb_ref demo_employee) ''vacation'' None s = Inr ''2'' \<and>
    micro ''2'' = recorded_days (sb_ref demo_employee) ''vacation'' None (ab_ledger s) - approved_days (sb_ref demo_employee) ''vacation'' None (ab_requests s)"
proof -
  obtain s where s: "ab_step\<^sup>*\<^sup>* demo_leave s" "balanceAsOf (sb_ref demo_employee) ''vacation'' None s = Inr ''2''" by (rule demo_leave_run)
  have "if_given calendarDate None" by (simp add: if_given_def)
  from balance_is_recorded_less_approved [OF demo_leave_ok s(1) this, of "sb_ref demo_employee" "''vacation''"] s show ?thesis by auto
qed

lemma row_is: "absence_ok st \<Longrightarrow> r \<in> set (ab_requests st) \<Longrightarrow> getRequestRow (ar_id r) st = Inr r' \<Longrightarrow> r' = r"
  using getRequestRow_Inr unique_request absence_okD(1) by metis

lemma getRequestRow_of:
  assumes "absence_ok st" and "r \<in> set (ab_requests st)"
  shows "getRequestRow (ar_id r) st = Inr r"
proof -
  have "row_where (\<lambda>x. ar_id x = ar_id r) (ab_requests st) \<noteq> None" using assms(2) by (auto simp: row_where_None)
  then obtain x where x: "row_where (\<lambda>x. ar_id x = ar_id r) (ab_requests st) = Some x" by blast
  then have "x = r" using row_where_SomeD [OF x] unique_request [OF absence_okD(1) [OF assms(1)] assms(2)] by blast
  with x absence_okD(3) [OF assms] show ?thesis by (auto simp: getRequestRow_def request_good_def storedRequest_def returns_def)
qed

text \<open>
  C18. The floor decides.  An open request is refused as an insufficient balance when its days would
  take the balance below the floor of its type, and an approval that goes through lowers the balance by exactly those
  days and leaves it at or above the floor.
\<close>

theorem approval_decided_by_floor:
  assumes "absence_ok st" and "r \<in> set (ab_requests st)" and "ar_status r = ''requested''" and "ulid_pattern (ar_data_subject_id r)"
    and "getLeaveTypeRow (ar_leave_type_key r) st = Inr ty" and "signedDecimal (lt_floor ty)" and "ar_id r \<noteq> []"
    and "balanceAsOf (subjectRefOf r) (ar_leave_type_key r) None st = Inr q"
    and "call = decideAbsence cx \<lparr>di_requestId = ar_id r, di_decision = ''approve'', di_note = note\<rparr> st"
  shows "(micro q - micro (ar_days r) < micro (lt_floor ty) \<longrightarrow> (\<exists>msg. call = Inl (ab_conflict ''insufficient_balance'' msg))) \<and>
    (\<forall>v w st'. call = Inr ((v, w), st') \<longrightarrow> (\<exists>q'. balanceAsOf (subjectRefOf r) (ar_leave_type_key r) None st' = Inr q' \<and>
       micro q' = micro q - micro (ar_days r) \<and> micro (lt_floor ty) \<le> micro q'))"
proof -
  let ?s = "\<lparr>sb_ref = subjectRefOf r, sb_dataSubjectId = ar_data_subject_id r\<rparr>"
  let ?i = "\<lparr>di_requestId = ar_id r, di_decision = ''approve'', di_note = note\<rparr>"
  have call: "call = approveRequest cx ?s ?i r st"
    using assms(3,4,7) getRequestRow_of [OF assms(1,2)] by (simp add: assms(9) decideAbsence_def stored_subject_def)
  have days: "signedDecimal (ar_days r)" using absence_okD(3) [OF assms(1,2)] nonNeg_signed by (simp add: request_good_def)
  have q: "signedDecimal q" "micro q = days_sum (counted (subjectRefOf r) (ar_leave_type_key r) None) (ab_ledger st)"
    using balance_days [OF assms(1), of None "subjectRefOf r" "ar_leave_type_key r"] assms(8) by (auto simp: if_given_def)
  obtain taken where taken: "negate_decimal (ar_days r) = Inr taken" "signedDecimal taken" "micro taken = - micro (ar_days r)"
    using days by (rule negate_signed)
  have left: "addDecimal q taken = Inr (fromMicro (micro q - micro (ar_days r)))" using q(1) taken by (simp add: addDecimal_signed)
  have cmp: "compareDecimal (fromMicro (micro q - micro (ar_days r))) (lt_floor ty) =
      Inr (if micro q - micro (ar_days r) < micro (lt_floor ty) then -1 else if micro (lt_floor ty) < micro q - micro (ar_days r) then 1 else 0)"
    using assms(6) by (simp add: compareDecimal_signed)
  have "\<exists>msg. call = Inl (ab_conflict ''insufficient_balance'' msg)" if "micro q - micro (ar_days r) < micro (lt_floor ty)"
    unfolding call using that by (simp add: approveRequest_def assms(5,8) taken(1) left cmp guard_r_def) (rule exI, rule refl)
  moreover have "\<exists>q'. balanceAsOf (subjectRefOf r) (ar_leave_type_key r) None st' = Inr q' \<and>
       micro q' = micro q - micro (ar_days r) \<and> micro (lt_floor ty) \<le> micro q'" if run: "call = Inr ((v, w), st')" for v w st'
  proof -
    have "ab_tab st st'" using run unfolding assms(9) by (rule decideAbsence_tab)
    then have ok': "absence_ok st'" using assms(1) by (rule ab_tab_ok)
    from run have "approveRequest cx ?s ?i r st = Inr ((v, w), st')" by (simp add: call)
    then show ?thesis
    proof (rule approveRequest_Inr)
      fix ty' q0 tk b booking
      assume ap: "getLeaveTypeRow (ar_leave_type_key r) st = Inr ty'" "balanceAsOf (sb_ref ?s) (ar_leave_type_key r) None st = Inr q0"
          "negate_decimal (ar_days r) = Inr tk" "\<exists>left c. addDecimal q0 tk = Inr left \<and> compareDecimal left (lt_floor ty') = Inr c \<and> 0 \<le> c"
        and led: "ab_ledger st' = ab_ledger st @ [b]"
        and b: "b = new_ledger_row cx (en_id booking) (request_entry ?s r ''booking'' tk (ar_start_date r) (di_note ?i))"
      have floor: "micro (lt_floor ty) \<le> micro q - micro (ar_days r)"
        using ap assms(5,8) taken(1) left cmp by (auto split: if_splits)
      have "counted (subjectRefOf r) (ar_leave_type_key r) None b" "ae_delta b = taken"
        using ap(3) taken(1) by (simp_all add: b counted_def new_ledger_row_def request_entry_def entry_subject_def subjectRefOf_def if_given_def)
      then have "days_sum (counted (subjectRefOf r) (ar_leave_type_key r) None) (ab_ledger st') = micro q - micro (ar_days r)"
        using q(2) taken(3) by (simp add: led days_sum_append) (simp add: days_sum_def)
      with balance_days [OF ok', of None "subjectRefOf r" "ar_leave_type_key r"] floor show ?thesis by (auto simp: if_given_def)
    qed
  qed
  ultimately show ?thesis by blast
qed

text \<open>A request for the given days, after five were recorded; and one that has been approved.\<close>

definition demo_open :: "string \<Rightarrow> (request_row \<times> ab_store) result" where
  "demo_open n =
     bind_r (recordEntry demo_ctx demo_accrual demo_leave) (\<lambda>(e, s1).
     bind_r (requestAbsence demo_ctx (demo_asked n) s1) (\<lambda>(rq, s2). Inr (hd (ab_requests s2), s2)))"

lemma demo_open_ok:
  assumes "demo_open n = Inr (r, s)"
  shows "absence_ok s" and "r \<in> set (ab_requests s)"
proof -
  from assms obtain e s1 rq where 1: "recordEntry demo_ctx demo_accrual demo_leave = Inr (e, s1)" "requestAbsence demo_ctx (demo_asked n) s1 = Inr (rq, s)"
    and r: "r = hd (ab_requests s)" by (auto simp: demo_open_def monad_simps)
  show "absence_ok s" using ab_tab_ok [OF requestAbsence_tab [OF 1(2)] ab_tab_ok [OF recordEntry_tab [OF 1(1)] demo_leave_ok]] .
  have "ab_requests s \<noteq> []" using 1(2) by (rule requestAbsence_Inr) simp
  then show "r \<in> set (ab_requests s)" by (simp add: r)
qed

theorem approval_decided_by_floor_witness:
  "\<exists>r s msg. demo_open ''6'' = Inr (r, s) \<and>
    decideAbsence demo_ctx \<lparr>di_requestId = ar_id r, di_decision = ''approve'', di_note = None\<rparr> s = Inl (ab_conflict ''insufficient_balance'' msg)"
proof -
  have "bind_r (demo_open ''6'') (\<lambda>(r, s). bind_r (getLeaveTypeRow (ar_leave_type_key r) s) (\<lambda>ty.
      bind_r (balanceAsOf (subjectRefOf r) (ar_leave_type_key r) None s) (\<lambda>q.
      Inr (ar_status r = ''requested'' \<and> ulid_pattern (ar_data_subject_id r) \<and> signedDecimal (lt_floor ty) \<and> ar_id r \<noteq> [] \<and>
        micro q - micro (ar_days r) < micro (lt_floor ty))))) = Inr True"
    by code_simp
  then obtain r s ty q where 1: "demo_open ''6'' = Inr (r, s)" "getLeaveTypeRow (ar_leave_type_key r) s = Inr ty"
    "balanceAsOf (subjectRefOf r) (ar_leave_type_key r) None s = Inr q" "ar_status r = ''requested''" "ulid_pattern (ar_data_subject_id r)"
    "signedDecimal (lt_floor ty)" "ar_id r \<noteq> []" "micro q - micro (ar_days r) < micro (lt_floor ty)" by (auto simp: monad_simps)
  from approval_decided_by_floor [OF demo_open_ok [OF 1(1)] 1(4,5,2,6,7,3) refl, of demo_ctx None] 1(1,8) show ?thesis by blast
qed

text \<open>
  C19. Cancelling an approved request gives back what the approval took, on every date: the balance as of any
  day rises by the request's days from its first day on, and the ledger only grows.
\<close>

theorem cancel_gives_back:
  assumes "absence_ok st" and "r \<in> set (ab_requests st)" and "ar_status r = ''approved''"
    and "cancelAbsence cx \<lparr>xi_requestId = ar_id r, xi_reason = reason\<rparr> st = Inr ((v, w), st')" and "if_given calendarDate asOf"
  shows "w \<noteq> None \<and> (\<exists>e. ab_ledger st' = ab_ledger st @ [e]) \<and>
    (\<exists>q q'. balanceAsOf subj key asOf st = Inr q \<and> balanceAsOf subj key asOf st' = Inr q' \<and>
       micro q' = micro q + (if booked_by subj key asOf r then micro (ar_days r) else 0))"
proof -
  obtain b where b: "posting r ''booking'' (-1) b" "booking_of (ar_id r) st = Some b"
    using assms(1-3) by (rule booking_of_posting)
  have ok': "absence_ok st'" using cancelAbsence_tab [OF assms(4)] assms(1) by (rule ab_tab_ok)
  from assms(4) obtain req s st1 where req: "getRequestRow (ar_id r) st = Inr req" "stored_subject req = Inr s"
    "reverse_booking cx s \<lparr>xi_requestId = ar_id r, xi_reason = reason\<rparr> req st = Inr (w, st1)" "ab_ledger st' = ab_ledger st1"
    by (rule cancelAbsence_Inr) auto
  then have r: "req = r" using row_is [OF assms(1,2)] by blast
  from req(3,2) obtain e where e: "w \<noteq> None" "takes_back r b e" "ab_ledger st1 = ab_ledger st @ [e]"
    by (cases rule: reverse_booking_Inr) (use assms(3) r b(2) in auto)
  then have "posting r ''reversal'' 1 e" using b(1) by (simp add: takes_back_def posting_def)
  then have "days_sum (counted subj key asOf) (ab_ledger st') =
      days_sum (counted subj key asOf) (ab_ledger st) + (if booked_by subj key asOf r then micro (ar_days r) else 0)"
    using posting_counted [of r "''reversal''" 1 e subj key asOf]
    by (simp add: req(4) e(3) days_sum_append) (auto simp: days_sum_def posting_def)
  with balance_days [OF assms(1,5), of subj key] balance_days [OF ok' assms(5), of subj key] e req(4) show ?thesis by auto
qed

theorem cancel_gives_back_witness:
  "\<exists>r (s :: ab_store) q q'. balanceAsOf (subjectRefOf r) ''vacation'' None s = Inr q \<and> ar_status r = ''approved'' \<and>
    (\<exists>x s'. cancelAbsence demo_ctx \<lparr>xi_requestId = ar_id r, xi_reason = None\<rparr> s = Inr (x, s') \<and>
       balanceAsOf (subjectRefOf r) ''vacation'' None s' = Inr q') \<and> micro q' = micro q + 3000000"
proof -
  have "bind_r (demo_open ''3'') (\<lambda>(r0, s0). bind_r (decideAbsence demo_ctx (demo_decision (ar_id r0)) s0) (\<lambda>((v, w), s).
      bind_r (cancelAbsence demo_ctx \<lparr>xi_requestId = ar_id (hd (ab_requests s)), xi_reason = None\<rparr> s) (\<lambda>((v, w), s').
      Inr (ab_requests s \<noteq> [] \<and> ar_status (hd (ab_requests s)) = ''approved'' \<and> micro (ar_days (hd (ab_requests s))) = 3000000 \<and>
        booked_by (subjectRefOf (hd (ab_requests s))) ''vacation'' None (hd (ab_requests s)))))) = Inr True"
    by code_simp
  then obtain r0 s0 v w s v' w' s' where 1: "demo_open ''3'' = Inr (r0, s0)" "decideAbsence demo_ctx (demo_decision (ar_id r0)) s0 = Inr ((v, w), s)"
    "cancelAbsence demo_ctx \<lparr>xi_requestId = ar_id (hd (ab_requests s)), xi_reason = None\<rparr> s = Inr ((v', w'), s')" "ab_requests s \<noteq> []"
    "ar_status (hd (ab_requests s)) = ''approved''" "micro (ar_days (hd (ab_requests s))) = 3000000"
    "booked_by (subjectRefOf (hd (ab_requests s))) ''vacation'' None (hd (ab_requests s))" by (auto simp: monad_simps)
  have ok: "absence_ok s" using decideAbsence_tab [OF 1(2)] demo_open_ok(1) [OF 1(1)] by (rule ab_tab_ok)
  have "hd (ab_requests s) \<in> set (ab_requests s)" "if_given calendarDate None" using 1(4) by (simp_all add: if_given_def)
  from cancel_gives_back [OF ok this(1) 1(5,3) this(2), of "subjectRefOf (hd (ab_requests s))" "''vacation''"] 1(6,7)
  obtain q q' where "balanceAsOf (subjectRefOf (hd (ab_requests s))) ''vacation'' None s = Inr q"
    "balanceAsOf (subjectRefOf (hd (ab_requests s))) ''vacation'' None s' = Inr q'" "micro q' = micro q + 3000000" by auto
  with 1(3,5) show ?thesis by blast
qed

section \<open>Histories\<close>

text \<open>
  Whatever runs, the ledger is only appended to and a request only moves forward: from requested to
  approved, rejected or cancelled, from approved to cancelled and nowhere else, its subject, dates and days
  never rewritten.
\<close>

theorem absence_history_append_only:
  assumes "absence_ok st" and "ab_step\<^sup>*\<^sup>* st st'"
  shows "(\<exists>es. ab_ledger st' = ab_ledger st @ es) \<and>
    (\<forall>r \<in> set (ab_requests st). \<exists>r' \<in> set (ab_requests st'). request_cols r' = request_cols r \<and>
       (ar_status r' = ar_status r \<or> ar_status r = ''requested'' \<and> ar_status r' \<in> {''approved'', ''rejected'', ''cancelled''} \<or>
        ar_status r = ''approved'' \<and> ar_status r' = ''cancelled''))"
  using ab_run_history [OF assms(2,1)] by (simp add: history_def forward_def)

theorem absence_history_append_only_witness:
  "\<exists>e s. recordEntry demo_ctx demo_accrual demo_leave = Inr e \<and> ab_step\<^sup>*\<^sup>* (snd e) s \<and>
    (\<exists>es. ab_ledger s = ab_ledger (snd e) @ es \<and> length (ab_ledger (snd e)) = 1)"
proof -
  obtain e s1 rq s2 where 1: "recordEntry demo_ctx demo_accrual demo_leave = Inr (e, s1)"
    "requestAbsence demo_ctx (demo_asked ''3'') s1 = Inr (rq, s2)" by (rule demo_approved)
  have run: "ab_step\<^sup>*\<^sup>* s1 s2" using ab_step.requested [OF 1(2)] by blast
  have ok: "absence_ok s1" using recordEntry_tab [OF 1(1)] demo_leave_ok by (rule ab_tab_ok)
  have "length (ab_ledger s1) = 1"
    using 1(1) by (auto simp: recordEntry_def monad_simps demo_leave_def elim!: insertEntry_Inr)
  with absence_history_append_only [OF ok run] 1(1) run show ?thesis by (intro exI [of _ "(e, s1)"] exI [of _ s2]) auto
qed

section \<open>The sweep\<close>

definition stale_rows :: "op_ctx \<Rightarrow> 'a ab_store_scheme \<Rightarrow> request_row list" where
  "stale_rows cx st = filter (stale (take 10 (cx_at cx))) (ab_requests st)"

lemma stale_expired: "\<not> stale d (expired_row cx r)"
  by (simp add: stale_def expired_row_def)

lemma set_stale_batch: "set (stale_batch cx rows) \<subseteq> set (filter (stale (take 10 (cx_at cx))) rows)"
  unfolding stale_batch_def by (metis set_sort set_take_subset)

lemma length_stale_batch: "length (stale_batch cx rows) = min STALE_BATCH (length (filter (stale (take 10 (cx_at cx))) rows))"
  by (simp add: stale_batch_def)

lemma filter_replaced:
  assumes "\<And>r. \<not> P (f r)"
  shows "filter P (map (\<lambda>r. if Q r then f r else r) rs) = filter (\<lambda>r. P r \<and> \<not> Q r) rs"
  using assms by (induction rs) auto

lemma length_without:
  assumes "distinct xs" and "distinct ys" and "set ys \<subseteq> set xs"
  shows "length (filter (\<lambda>x. x \<notin> set ys) xs) = length xs - length ys"
proof -
  have "length (filter (\<lambda>x. x \<notin> set ys) xs) = card (set xs - set ys)"
    using assms(1) by (metis distinct_card distinct_filter set_diff_eq set_filter)
  with assms show ?thesis by (simp add: card_Diff_subset distinct_card)
qed

text \<open>
  C20. The sweep makes progress.  A pass that returns has cancelled the stale requests, one hundred of them at
  most and the earliest first days first, touched no other request and no ledger entry, and what is
  left over is exactly what the batch did not hold: repeating it clears any backlog.
\<close>

theorem sweep_clears_backlog:
  assumes "absence_ok st" and "expireStaleRequests cx st = Inr (n, st')"
  shows "n = min STALE_BATCH (length (stale_rows cx st)) \<and> length (stale_rows cx st') = length (stale_rows cx st) - STALE_BATCH \<and>
    ab_ledger st' = ab_ledger st \<and>
    (\<forall>r \<in> set (ab_requests st). r \<in> set (ab_requests st') \<or> stale (take 10 (cx_at cx)) r \<and> expired_row cx r \<in> set (ab_requests st') \<and>
       (\<forall>x \<in> set (stale_rows cx st'). ar_start_date r \<le> ar_start_date x))"
proof -
  note ok = absence_okD(1) [OF assms(1)] and ex = expireStale_Inr [OF assms(2) absence_okD(1) [OF assms(1)]]
  let ?d = "take 10 (cx_at cx)" and ?rows = "ab_requests st" and ?batch = "stale_batch cx (ab_requests st)"
  have sub: "set ?batch \<subseteq> set (stale_rows cx st)" unfolding stale_rows_def by (rule set_stale_batch)
  have key: "ar_id r \<in> ar_id ` set ?batch \<longleftrightarrow> r \<in> set ?batch" if "r \<in> set ?rows" for r
    using unique_request [OF ok that] sub by (fastforce simp: stale_rows_def)
  have rows: "ab_requests st' = map (\<lambda>r. if r \<in> set ?batch then expired_row cx r else r) ?rows"
    unfolding ex(5) expire_all_def using key by auto
  have left: "stale_rows cx st' = filter (\<lambda>r. stale ?d r \<and> r \<notin> set ?batch) ?rows"
    unfolding stale_rows_def rows by (rule filter_replaced) (rule stale_expired)
  have "distinct (stale_rows cx st)" using ok by (simp add: stale_rows_def distinct_map)
  moreover have "distinct ?batch" unfolding stale_batch_def using distinct_sort_take [OF ok] unfolding distinct_map by blast
  moreover have "stale_rows cx st' = filter (\<lambda>r. r \<notin> set ?batch) (stale_rows cx st)" unfolding left unfolding stale_rows_def by (simp add: conj_commute)
  ultimately have len: "length (stale_rows cx st') = length (stale_rows cx st) - length ?batch"
    using sub length_without by metis
  have order: "ar_start_date r \<le> ar_start_date x" if "r \<in> set ?batch" "x \<in> set (stale_rows cx st')" for r x
  proof -
    let ?s = "sort_key ar_start_date (stale_rows cx st)"
    have x: "x \<in> set (drop STALE_BATCH ?s)"
    proof -
      have "x \<in> set ?s" "x \<notin> set (take STALE_BATCH ?s)"
        using that(2) unfolding left by (simp_all add: stale_rows_def stale_batch_def)
      then show ?thesis by (metis Un_iff append_take_drop_id set_append)
    qed
    have "sorted (map ar_start_date (take STALE_BATCH ?s @ drop STALE_BATCH ?s))" by simp
    with x that(1) show ?thesis unfolding map_append sorted_append by (auto simp: stale_batch_def stale_rows_def)
  qed
  have "r \<in> set (ab_requests st') \<or> stale ?d r \<and> expired_row cx r \<in> set (ab_requests st') \<and>
       (\<forall>x \<in> set (stale_rows cx st'). ar_start_date r \<le> ar_start_date x)" if "r \<in> set ?rows" for r
  proof (cases "r \<in> set ?batch")
    case True
    then have "stale ?d r" using sub by (auto simp: stale_rows_def)
    with True that order show ?thesis by (force simp: rows)
  next
    case False
    with that show ?thesis by (force simp: rows)
  qed
  with ex(2,3) len show ?thesis by (auto simp: length_stale_batch stale_rows_def min_def)
qed

theorem sweep_clears_backlog_witness:
  "\<exists>e s1 rq s2 s3. recordEntry demo_ctx demo_accrual demo_leave = Inr (e, s1) \<and> requestAbsence demo_ctx (demo_asked ''3'') s1 = Inr (rq, s2) \<and>
    expireStaleRequests demo_ctx s2 = Inr (1, s3) \<and> stale_rows demo_ctx s3 = []"
proof -
  have "bind_r (recordEntry demo_ctx demo_accrual demo_leave) (\<lambda>(e, s1).
      bind_r (requestAbsence demo_ctx (demo_asked ''3'') s1) (\<lambda>(rq, s2).
      bind_r (expireStaleRequests demo_ctx s2) (\<lambda>(n, s3). Inr (n, length (stale_rows demo_ctx s2))))) = Inr (1, 1)"
    by code_simp
  then obtain e s1 rq s2 s3 where 1: "recordEntry demo_ctx demo_accrual demo_leave = Inr (e, s1)"
    "requestAbsence demo_ctx (demo_asked ''3'') s1 = Inr (rq, s2)" "expireStaleRequests demo_ctx s2 = Inr (1, s3)" "length (stale_rows demo_ctx s2) = 1"
    by (auto simp: monad_simps)
  have "absence_ok s2" using requestAbsence_tab [OF 1(2)] ab_tab_ok recordEntry_tab [OF 1(1)] demo_leave_ok by blast
  from sweep_clears_backlog [OF this 1(3)] 1 show ?thesis by (auto simp: STALE_BATCH_def)
qed

section \<open>Who may cancel\<close>

lemma assertAllowed_allowed: "assertAllowed d = Inr u \<longleftrightarrow> allowed d"
  by (cases d) auto

text \<open>
  Without the approver's key only an open request can be withdrawn, by a holder of the request key on its
  subject, and the ledger is not touched: nobody else undoes an approval.
\<close>

theorem cancel_needs_authority:
  assumes "cancelOp cx input st = Inr ((v, w), st')" and "decideCheck cx ''absence:approve'' None st = Inr (d, st1)" and "\<not> allowed d"
  shows "w = None \<and> ab_ledger st' = ab_ledger st \<and>
    (\<exists>r d' st2. getRequestRow (xi_requestId input) st1 = Inr r \<and> ar_status r = ''requested'' \<and>
       decideCheck cx ''absence:request'' (Some (subjectRefOf r)) st1 = Inr (d', st2) \<and> allowed d')"
proof -
  have refuse: "assertAllowed d \<noteq> Inr u" for u using assms(3) by (simp add: assertAllowed_allowed)
  have st1: "scope_store.more st1 = scope_store.more st" using assms(2) by (rule decideCheck_cases) simp_all
  from assms refuse obtain r st2 where r: "getRequestRow (xi_requestId input) st1 = Inr r" "ar_status r = ''requested''"
    and req: "require cx ''absence:request'' (Some (subjectRefOf r)) st1 = Inr st2" and can: "cancelAbsence cx input st2 = Inr ((v, w), st')"
    by (auto simp: cancelOp_def monad_simps split: if_splits)
  note same = ab_more_tables [OF st1] ab_require_tables [OF req]
  from can obtain req' s st3 where c: "getRequestRow (xi_requestId input) st2 = Inr req'" "stored_subject req' = Inr s"
    "reverse_booking cx s input req' st2 = Inr (w, st3)" "ab_ledger st' = ab_ledger st3" by (rule cancelAbsence_Inr) auto
  have "req' = r" using c(1) r(1) same(6) by (simp add: getRequestRow_def)
  with c(2,3) r(2) have "w = None" "st3 = st2" by (auto elim: reverse_booking_Inr)
  moreover from req obtain d' st4 where "decideCheck cx ''absence:request'' (Some (subjectRefOf r)) st1 = Inr (d', st4)" "allowed d'"
    by (cases "decideCheck cx ''absence:request'' (Some (subjectRefOf r)) st1") (auto simp: require_def monad_simps assertAllowed_allowed)
  ultimately show ?thesis using r same c(4) by auto
qed


text \<open>An employee who may ask for leave, and nothing else.\<close>

definition demo_own_leave :: ab_store where
  "demo_own_leave = demo_leave\<lparr>tuples := [demo_row (''principal:'' @ demo_p2) ''granted:absence:request'' ''employee:E1'']\<rparr>"

theorem cancel_needs_authority_witness:
  "\<exists>rq s v w s'. requestOp demo_ctx (demo_asked ''3'') demo_own_leave = Inr (rq, s) \<and>
    cancelOp demo_ctx \<lparr>xi_requestId = rq_id rq, xi_reason = None\<rparr> s = Inr ((v, w), s') \<and> w = None \<and> ab_ledger s' = ab_ledger s"
proof -
  have "bind_r (requestOp demo_ctx (demo_asked ''3'') demo_own_leave) (\<lambda>(rq, s).
      bind_r (cancelOp demo_ctx \<lparr>xi_requestId = rq_id rq, xi_reason = None\<rparr> s) (\<lambda>((v, w), s').
      bind_r (decideCheck demo_ctx ''absence:approve'' None s) (\<lambda>(d, s1). Inr (allowed d)))) = Inr False"
    by code_simp
  then obtain rq s v w s' d s1 where 1: "requestOp demo_ctx (demo_asked ''3'') demo_own_leave = Inr (rq, s)"
    "cancelOp demo_ctx \<lparr>xi_requestId = rq_id rq, xi_reason = None\<rparr> s = Inr ((v, w), s')"
    "decideCheck demo_ctx ''absence:approve'' None s = Inr (d, s1)" "\<not> allowed d" by (auto simp: monad_simps)
  from cancel_needs_authority [OF 1(2-4)] 1 show ?thesis by blast
qed

section \<open>A request whose first day has passed\<close>

text \<open>
  C24. The day of a decision is not looked at.  A decision that goes through at some instant goes through at
  every other instant on the same store, with the same outcome for the same request; so whatever could be
  approved before its first day can be approved after it, until the sweep reaches it.  The engine's
  manifest says that a request still open past its start date can no longer be approved.
\<close>

theorem stale_request_still_approvable:
  assumes "decideAbsence cx input st = Inr (x, st')"
  shows "\<exists>y st''. decideAbsence (cx\<lparr>cx_at := now\<rparr>) input st = Inr (y, st'') \<and> same_outcome x y"
proof -
  obtain v w where x: "x = (v, w)" by (cases x)
  from assms obtain req s where pre: "di_requestId input \<noteq> []" "di_decision input \<in> {''approve'', ''reject''}"
      "getRequestRow (di_requestId input) st = Inr req" "ar_status req = ''requested''" "stored_subject req = Inr s"
    and run: "(if di_decision input = ''reject'' then rejectRequest cx s input req st else approveRequest cx s input req st) = Inr ((v, w), st')"
    by (auto simp: decideAbsence_def monad_simps x)
  have "decideAbsence (cx\<lparr>cx_at := now\<rparr>) input st =
      (if di_decision input = ''reject'' then rejectRequest (cx\<lparr>cx_at := now\<rparr>) s input req st else approveRequest (cx\<lparr>cx_at := now\<rparr>) s input req st)"
    using pre by (simp add: decideAbsence_def)
  then show ?thesis
    using run rejectRequest_any_time [OF _ pre(3), of cx s input v w st' now] approveRequest_any_time [OF _ pre(3), of cx s input v w st' now]
    by (auto simp: x split: if_splits)
qed

theorem stale_request_still_approvable_witness:
  "\<exists>(rq :: absence_request) (s2 :: ab_store) v w s3. rq_startDate rq < take 10 ''2026-02-01T00:00:00.000Z'' \<and> rq_status v = ''approved'' \<and> rq_id v = rq_id rq \<and>
    decideAbsence (demo_ctx\<lparr>cx_at := ''2026-02-01T00:00:00.000Z''\<rparr>) (demo_decision (rq_id rq)) s2 = Inr ((v, w), s3)"
proof -
  obtain e s1 rq s2 v w s3 where "recordEntry demo_ctx demo_accrual demo_leave = Inr (e, s1)"
    "requestAbsence demo_ctx (demo_asked ''3'') s1 = Inr (rq, s2)"
    and d: "decideAbsence demo_ctx (demo_decision (rq_id rq)) s2 = Inr ((v, w), s3)"
    "rq_startDate rq < take 10 (cx_at demo_ctx)" "rq_status v = ''approved''"
    "balanceAsOf (sb_ref demo_employee) ''vacation'' None s3 = Inr ''2''" "rq_id v = rq_id rq" by (rule demo_approved)
  have "take 10 (cx_at demo_ctx) < take 10 ''2026-02-01T00:00:00.000Z''" by code_simp
  with d(2) have late: "rq_startDate rq < take 10 ''2026-02-01T00:00:00.000Z''" by (rule less_trans)
  from stale_request_still_approvable [OF d(1), of "''2026-02-01T00:00:00.000Z''"] obtain v' w' s' where
    run: "decideAbsence (demo_ctx\<lparr>cx_at := ''2026-02-01T00:00:00.000Z''\<rparr>) (demo_decision (rq_id rq)) s2 = Inr ((v', w'), s')"
    and out: "same_outcome (v, w) (v', w')" by auto
  have "rq_status v' = ''approved''" "rq_id v' = rq_id rq" using d(3,5) out by (simp_all add: same_outcome_def)
  with late run show ?thesis by blast
qed

section \<open>Days\<close>

lemma set_days_of:
  assumes "request_good r" and "calendarDate from" and "calendarDate to" and "FIRST_DATE \<le> from" and "from \<le> to"
    and "covering subj from to r"
  shows "x \<in> set (days_of from to r) \<longleftrightarrow> calendarDate (dy_date x) \<and> from \<le> dy_date x \<and> dy_date x \<le> to \<and> ar_start_date r \<le> dy_date x \<and>
      dy_date x \<le> ar_end_date r \<and> dy_leaveTypeKey x = ar_leave_type_key r \<and> dy_requestId x = ar_id r"
    and "distinct (days_of from to r)" and "\<And>x. x \<in> set (days_of from to r) \<Longrightarrow> dy_requestId x = ar_id r"
proof -
  let ?start = "if ar_start_date r < from then from else ar_start_date r" and ?stop = "if to < ar_end_date r then to else ar_end_date r"
  let ?day = "\<lambda>d. \<lparr>dy_date = d, dy_leaveTypeKey = ar_leave_type_key r, dy_requestId = ar_id r\<rparr>"
  have range: "calendarDate ?start" "calendarDate ?stop" "FIRST_DATE \<le> ?start" "?start \<le> ?stop"
    using assms by (auto simp: request_good_def covering_def)
  have days: "days_of from to r = map ?day (eachDate ?start ?stop)" by (simp add: days_of_def)
  have inj: "inj ?day" by (simp add: inj_on_def)
  have "set (eachDate ?start ?stop) = {x. calendarDate x \<and> ?start \<le> x \<and> x \<le> ?stop}" using range by (rule eachDate_exact(2))
  also have "\<dots> = {x. calendarDate x \<and> from \<le> x \<and> x \<le> to \<and> ar_start_date r \<le> x \<and> x \<le> ar_end_date r}" by auto
  finally have dates: "set (eachDate ?start ?stop) = {x. calendarDate x \<and> from \<le> x \<and> x \<le> to \<and> ar_start_date r \<le> x \<and> x \<le> ar_end_date r}" .
  have "x \<in> set (map ?day ds) \<longleftrightarrow> dy_date x \<in> set ds \<and> dy_leaveTypeKey x = ar_leave_type_key r \<and> dy_requestId x = ar_id r" for ds
    by (cases x) (auto simp: image_iff)
  then show "x \<in> set (days_of from to r) \<longleftrightarrow> calendarDate (dy_date x) \<and> from \<le> dy_date x \<and> dy_date x \<le> to \<and> ar_start_date r \<le> dy_date x \<and>
      dy_date x \<le> ar_end_date r \<and> dy_leaveTypeKey x = ar_leave_type_key r \<and> dy_requestId x = ar_id r"
    unfolding days by (simp only: dates mem_Collect_eq conj_assoc)
  have "sorted_wrt (<) (eachDate ?start ?stop)" using range by (rule eachDate_exact(1))
  then show "distinct (days_of from to r)" using inj by (simp add: days distinct_map inj_on_def strict_sorted_iff)
  show "\<And>x. x \<in> set (days_of from to r) \<Longrightarrow> dy_requestId x = ar_id r" by (auto simp: days)
qed

lemma distinct_concat_by:
  assumes "distinct (map k rs)" and "\<And>r. r \<in> set rs \<Longrightarrow> distinct (f r)" and "\<And>r x. r \<in> set rs \<Longrightarrow> x \<in> set (f r) \<Longrightarrow> g x = k r"
  shows "distinct (concat (map f rs))"
  using assms
proof (induction rs)
  case (Cons r rs)
  have "set (f r) \<inter> set (concat (map f rs)) = {}"
  proof (rule ccontr)
    assume "set (f r) \<inter> set (concat (map f rs)) \<noteq> {}"
    then obtain x r' where "x \<in> set (f r)" "r' \<in> set rs" "x \<in> set (f r')" by auto
    with Cons.prems(3) have "k r = k r'" by (metis list.set_intros)
    with Cons.prems(1) \<open>r' \<in> set rs\<close> show False by auto
  qed
  with Cons show ?case by auto
qed simp

text \<open>
  C17. The planner's read is exact from the year 100 on.  For a subject and a window that begins no earlier
  it answers, and the days it answers are exactly the real dates of the window that an approved request of
  that subject covers, each once per request, first and last day included.  Over earlier windows the walk
  answers days of the twentieth century, so the bound is needed.
\<close>

theorem absence_days_exact:
  assumes "absence_ok st" and "entityRef_ok subj" and "calendarDate from" and "calendarDate to" and "FIRST_DATE \<le> from" and "from \<le> to"
  shows "\<exists>days reqs. absence_availability subj from to st = Inr (days, reqs) \<and> distinct days \<and>
    (\<forall>x. x \<in> set days \<longleftrightarrow> calendarDate (dy_date x) \<and> from \<le> dy_date x \<and> dy_date x \<le> to \<and>
       (\<exists>r \<in> set (ab_requests st). subjectRefOf r = subj \<and> ar_status r = ''approved'' \<and> ar_start_date r \<le> dy_date x \<and> dy_date x \<le> ar_end_date r \<and>
          dy_leaveTypeKey x = ar_leave_type_key r \<and> dy_requestId x = ar_id r))"
proof -
  let ?rows = "sort_key ar_start_date (sort_key ar_id (filter (covering subj from to) (ab_requests st)))"
  let ?days = "concat (map (days_of from to) ?rows)"
  note ok = absence_okD [OF assms(1)]
  have good: "request_good r" "covering subj from to r" "r \<in> set (ab_requests st)" if "r \<in> set ?rows" for r
    using that ok(3) by auto
  note one = set_days_of [OF good(1) assms(3-6) good(2)]
  have "storedRequest r = Inr r" if "r \<in> set ?rows" for r
    using good [OF that] by (auto simp: storedRequest_def returns_def request_good_def)
  then have stored: "traverse storedRequest ?rows = Inr ?rows" using traverse_total [of ?rows storedRequest id] by simp
  have "\<exists>v. toRequest r = Inr v" if "r \<in> set ?rows" for r
    using good [OF that] assms(2) by (auto simp: toRequest_def storedRequest_def returns_def request_good_def covering_def)
  then have "\<forall>r \<in> set ?rows. toRequest r = Inr (sum.projr (toRequest r))" by fastforce
  then have reqs: "traverse toRequest ?rows = Inr (map (\<lambda>r. sum.projr (toRequest r)) ?rows)" by (intro traverse_total) blast
  have dates: "list_all (\<lambda>x. calendarDate (dy_date x)) ?days" using one(1) by (auto simp: list_all_iff)
  have "absence_availability subj from to st = Inr (?days, map (\<lambda>r. sum.projr (toRequest r)) ?rows)"
    using assms(3,4,6) by (simp add: absence_availability_def isoDate_def stored reqs dates returns_def Let_def)
  moreover have "distinct ?days"
  proof (rule distinct_concat_by [where k = ar_id and g = dy_requestId])
    have "mset (map ar_id ?rows) = mset (map ar_id (filter (covering subj from to) (ab_requests st)))" by simp
    then show "distinct (map ar_id ?rows)" using distinct_map_filter [OF ok(1)] mset_eq_imp_distinct_iff by blast
  qed (use one(2,3) in auto)
  moreover have "x \<in> set ?days \<longleftrightarrow> calendarDate (dy_date x) \<and> from \<le> dy_date x \<and> dy_date x \<le> to \<and>
       (\<exists>r \<in> set (ab_requests st). subjectRefOf r = subj \<and> ar_status r = ''approved'' \<and> ar_start_date r \<le> dy_date x \<and> dy_date x \<le> ar_end_date r \<and>
          dy_leaveTypeKey x = ar_leave_type_key r \<and> dy_requestId x = ar_id r)" (is "_ \<longleftrightarrow> ?R") for x
  proof
    assume "x \<in> set ?days"
    then obtain r where r: "r \<in> set ?rows" "x \<in> set (days_of from to r)" by auto
    with one(1) [OF r(1)] good [OF r(1)] show ?R by (auto simp: covering_def)
  next
    assume R: ?R
    then obtain r where r: "r \<in> set (ab_requests st)" "subjectRefOf r = subj" "ar_status r = ''approved''" "ar_start_date r \<le> dy_date x"
      "dy_date x \<le> ar_end_date r" "dy_leaveTypeKey x = ar_leave_type_key r" "dy_requestId x = ar_id r" by blast
    then have rows: "r \<in> set ?rows" using R by (auto simp: covering_def intro: order_trans)
    then have "x \<in> set (days_of from to r)" unfolding one(1) [OF rows rows] using R r by simp
    with rows show "x \<in> set ?days" by auto
  qed
  ultimately show ?thesis by blast
qed

theorem absence_days_exact_witness:
  "\<exists>r s days reqs. demo_open ''3'' = Inr r \<and> ab_step (snd r) s \<and>
    absence_availability (sb_ref demo_employee) ''2025-07-08'' ''2025-07-31'' s = Inr (days, reqs) \<and> distinct days \<and> map dy_date days = [''2025-07-08'', ''2025-07-09'']"
proof -
  have "bind_r (demo_open ''3'') (\<lambda>(r, s0). bind_r (decideAbsence demo_ctx (demo_decision (ar_id r)) s0) (\<lambda>(v, s).
      bind_r (absence_availability (sb_ref demo_employee) ''2025-07-08'' ''2025-07-31'' s) (\<lambda>(days, reqs). Inr (map dy_date days)))) =
      Inr [''2025-07-08'', ''2025-07-09'']"
    by code_simp
  then obtain r s0 v w s days reqs where 1: "demo_open ''3'' = Inr (r, s0)" "decideAbsence demo_ctx (demo_decision (ar_id r)) s0 = Inr ((v, w), s)"
    "absence_availability (sb_ref demo_employee) ''2025-07-08'' ''2025-07-31'' s = Inr (days, reqs)"
    "map dy_date days = [''2025-07-08'', ''2025-07-09'']" by (auto simp: monad_simps)
  have ok: "absence_ok s" using decideAbsence_tab [OF 1(2)] demo_open_ok(1) [OF 1(1)] by (rule ab_tab_ok)
  have "entityRef_ok (sb_ref demo_employee)" "calendarDate ''2025-07-08''" "calendarDate ''2025-07-31''" "FIRST_DATE \<le> ''2025-07-08''"
    "''2025-07-08'' \<le> ''2025-07-31''" by code_simp+
  from absence_days_exact [OF ok this] 1(3) have "distinct days" by auto
  with 1 ab_step.decided [OF 1(2)] show ?thesis by (intro exI [of _ "(r, s0)"]) auto
qed


end
