(* ===== verification/Invites.thy ===== *)
theory Invites
  imports Capability_Directory Pagination
begin

text \<open>
  The invites engine, \<open>engines/invites/src\<close>: an invitation is a row keyed by a hash of the address it was
  sent to, and whoever presents that address before the deadline is asked to be added to the organisation.

  The hash is SHA-256, the field \<open>cl_sha256\<close>; identifiers are ASCII text.  The columns that are read for
  publication are those of \<open>invitation\<close>, which has no hash.  A state after an error is not part of a
  result, as a transaction that throws is rolled back.
\<close>

section \<open>Rows and published shapes\<close>

record invitation_row =
  iv_id :: string
  iv_org_id :: string
  iv_identifier_hash :: string
  iv_role_key :: string
  iv_state :: string
  iv_invited_by :: string
  iv_accepted_by :: "string option"
  iv_created_at :: string
  iv_expires_at :: string
  iv_settled_at :: "string option"

record iv_store = scope_store +
  iv_rows :: "invitation_row list"

record invitation =
  vt_id :: string
  vt_org_id :: string
  vt_role_key :: string
  vt_state :: string
  vt_invited_by :: string
  vt_accepted_by :: "string option"
  vt_created_at :: string
  vt_expires_at :: string
  vt_settled_at :: "string option"

definition inviteState :: "string list" where
  "inviteState = [''invited'', ''accepted'', ''revoked'', ''expired'']"

definition iv_conflict :: "string \<Rightarrow> string \<Rightarrow> err" where
  "iv_conflict reason msg = SubstratError Conflict (Some reason) msg"

abbreviation iv_returns :: "string \<Rightarrow> bool \<Rightarrow> 'v \<Rightarrow> 'v result" where
  "iv_returns \<equiv> returns ''engine-invites''"

text \<open>\<open>PUBLIC_COLUMNS\<close>: a row less its hash.\<close>

definition public_columns :: "invitation_row \<Rightarrow> invitation" where
  "public_columns r =
     \<lparr>vt_id = iv_id r, vt_org_id = iv_org_id r, vt_role_key = iv_role_key r, vt_state = iv_state r, vt_invited_by = iv_invited_by r,
      vt_accepted_by = iv_accepted_by r, vt_created_at = iv_created_at r, vt_expires_at = iv_expires_at r, vt_settled_at = iv_settled_at r\<rparr>"

definition storedInvitation :: "invitation_row \<Rightarrow> invitation_row result" where
  "storedInvitation r = iv_returns (''invitation row '' @ iv_id r) (iv_state r \<in> set inviteState) r"

definition publishedInvitation :: "invitation \<Rightarrow> invitation result" where
  "publishedInvitation r = iv_returns (''invitation '' @ vt_id r) (vt_state r \<in> set inviteState) r"

definition DEFAULT_TTL_MS :: int where
  "DEFAULT_TTL_MS = 14 * 24 * 60 * 60 * 1000"

definition MAX_OPEN_PER_SENDER :: nat where
  "MAX_OPEN_PER_SENDER = 25"

section \<open>Identifiers\<close>

definition lower_char :: "char \<Rightarrow> char" where
  "lower_char c = (if is_upper c then char_of ((of_char c :: nat) + 32) else c)"

definition normalised :: "string \<Rightarrow> string" where
  "normalised identifier = map lower_char (js_trim identifier)"

definition hashIdentifier :: "cap_lib \<Rightarrow> string \<Rightarrow> string \<Rightarrow> string" where
  "hashIdentifier L scopeSalt identifier =
     concat (map (\<lambda>b. [hex_digit (unat b div 16), hex_digit (unat b mod 16)])
       (cl_sha256 L (scopeSalt @ '':'' @ normalised identifier)))"

text \<open>\<open>ctx.scopeId\<close>, as a template renders it.\<close>

definition cx_scope :: "op_ctx \<Rightarrow> string" where
  "cx_scope cx = or_else (scopeId (cx_node cx)) ''undefined''"

section \<open>In-scope functions\<close>

definition iv_effectiveStateOf :: "string \<Rightarrow> string \<Rightarrow> string \<Rightarrow> string" where
  "iv_effectiveStateOf state expiresAt now = (if state = ''invited'' \<and> expiresAt \<le> now then ''expired'' else state)"

definition overdue :: "op_ctx \<Rightarrow> string \<Rightarrow> invitation_row \<Rightarrow> bool" where
  "overdue cx org r \<longleftrightarrow> iv_org_id r = org \<and> iv_state r = ''invited'' \<and> iv_expires_at r \<le> cx_at cx"

definition settled_row :: "op_ctx \<Rightarrow> string \<Rightarrow> invitation_row \<Rightarrow> invitation_row" where
  "settled_row cx state r = r\<lparr>iv_state := state, iv_settled_at := Some (cx_at cx)\<rparr>"

definition expireOverdue :: "op_ctx \<Rightarrow> string \<Rightarrow> 'a iv_store_scheme \<Rightarrow> 'a iv_store_scheme" where
  "expireOverdue cx org st = st\<lparr>iv_rows := update_where (overdue cx org) (settled_row cx ''expired'') (iv_rows st)\<rparr>"

text \<open>\<open>emitInvitesEvent\<close>; the schema version of all four types is 1.\<close>

definition emitInvitesEvent ::
  "op_ctx \<Rightarrow> string \<Rightarrow> entity_ref \<Rightarrow> json \<Rightarrow> 'a iv_store_scheme \<Rightarrow> 'a iv_store_scheme result" where
  "emitInvitesEvent cx ty entity payload st =
     bind_r (guard_r (entityRef_ok entity) (ZodError ''entityRef'')) (\<lambda>_.
       emit cx \<lparr>ev_type = ty, ev_schemaVersion = 1, ev_entity = entity, ev_piiClass = PiiNone, ev_subjectId = None, ev_payload = payload\<rparr> st)"

definition invitation_ref :: "string \<Rightarrow> entity_ref" where
  "invitation_ref i = \<lparr>entityType = ''invitation'', entityId = i\<rparr>"

record send_input =
  si_orgId :: string
  si_identifier :: string
  si_roleKey :: string
  si_ttlMs :: "int option"

definition open_by :: "string \<Rightarrow> string \<Rightarrow> invitation_row \<Rightarrow> bool" where
  "open_by org sender r \<longleftrightarrow> iv_org_id r = org \<and> iv_invited_by r = sender \<and> iv_state r = ''invited''"

definition open_for :: "string \<Rightarrow> string \<Rightarrow> invitation_row \<Rightarrow> bool" where
  "open_for org hash r \<longleftrightarrow> iv_org_id r = org \<and> iv_identifier_hash r = hash \<and> iv_state r = ''invited''"

definition new_invitation :: "op_ctx \<Rightarrow> string \<Rightarrow> string \<Rightarrow> string \<Rightarrow> send_input \<Rightarrow> invitation_row" where
  "new_invitation cx i hash expiresAt input =
     \<lparr>iv_id = i, iv_org_id = si_orgId input, iv_identifier_hash = hash, iv_role_key = si_roleKey input, iv_state = ''invited'',
      iv_invited_by = cx_principal cx, iv_accepted_by = None, iv_created_at = cx_at cx, iv_expires_at = expiresAt, iv_settled_at = None\<rparr>"

text \<open>A row that is not there yet: a fresh id, a deadline, the insert and the event.\<close>

definition insert_invitation ::
  "op_ctx \<Rightarrow> cap_lib \<Rightarrow> string \<Rightarrow> send_input \<Rightarrow> 'a iv_store_scheme \<Rightarrow> (string \<times> 'a iv_store_scheme) result" where
  "insert_invitation cx L hash input st =
     (case ulid cx st of (i, st1) \<Rightarrow>
      bind_r (toISOString L (map_option (\<lambda>ms. ms + or_else (si_ttlMs input) DEFAULT_TTL_MS) (d_parse L (cx_at cx)))) (\<lambda>expiresAt.
      bind_r (insert_row (\<lambda>a b. iv_id a = iv_id b) (new_invitation cx i hash expiresAt input) (iv_rows st1)) (\<lambda>rows.
      bind_r (emitInvitesEvent cx ''invites.sent'' (invitation_ref i)
        (JObj [(''invitationId'', JStr i), (''orgId'', JStr (si_orgId input)), (''roleKey'', JStr (si_roleKey input)),
               (''expiresAt'', JStr expiresAt)]) (st1\<lparr>iv_rows := rows\<rparr>)) (\<lambda>st2.
        Inr (i, st2)))))"

definition sendInvite ::
  "op_ctx \<Rightarrow> cap_lib \<Rightarrow> send_input \<Rightarrow> 'a iv_store_scheme \<Rightarrow> (string \<times> 'a iv_store_scheme) result" where
  "sendInvite cx L input st =
     (let st0 = expireOverdue cx (si_orgId input) st;
          hash = hashIdentifier L (cx_scope cx) (si_identifier input) in
      bind_r (guard_r (length (filter (open_by (si_orgId input) (cx_principal cx)) (iv_rows st0)) < MAX_OPEN_PER_SENDER)
        (iv_conflict ''open_invite_limit'' ''invite rate limit: 25 open invitations per sender per organization'')) (\<lambda>_.
      case row_where (open_for (si_orgId input) hash) (iv_rows st0) of
        Some existing \<Rightarrow> Inr (iv_id existing, st0)
      | None \<Rightarrow> insert_invitation cx L hash input st0))"

record accept_input =
  ac_invitationId :: string
  ac_identifier :: string

definition accept_refusal :: err where
  "accept_refusal = PlainError ''invitation is not acceptable''"

definition accepted_row :: "op_ctx \<Rightarrow> invitation_row \<Rightarrow> invitation_row" where
  "accepted_row cx r = r\<lparr>iv_state := ''accepted'', iv_accepted_by := Some (cx_principal cx), iv_settled_at := Some (cx_at cx)\<rparr>"

definition accepted_payload :: "op_ctx \<Rightarrow> invitation_row \<Rightarrow> json" where
  "accepted_payload cx r =
     JObj [(''invitationId'', JStr (iv_id r)), (''orgId'', JStr (iv_org_id r)), (''roleKey'', JStr (iv_role_key r)),
           (''principal'', JStr (cx_principal cx))]"

definition add_request :: "string \<Rightarrow> string \<Rightarrow> invitation_row \<Rightarrow> json" where
  "add_request who tenant r =
     JObj [(''principal'', JStr who), (''orgId'', JStr (iv_org_id r)), (''tenantId'', JStr tenant),
           (''roleKey'', JStr (iv_role_key r)), (''invitationId'', JStr (iv_id r))]"

text \<open>An overdue row is also marked expired before the refusal, in the transaction the refusal rolls back.\<close>

definition acceptInvite ::
  "op_ctx \<Rightarrow> cap_lib \<Rightarrow> accept_input \<Rightarrow> 'a iv_store_scheme \<Rightarrow> (invitation \<times> 'a iv_store_scheme) result" where
  "acceptInvite cx L input st =
     (case row_where (\<lambda>r. iv_id r = ac_invitationId input) (iv_rows st) of
        None \<Rightarrow> Inl accept_refusal
      | Some raw \<Rightarrow>
          bind_r (storedInvitation raw) (\<lambda>row.
          bind_r (guard_r (iv_state row = ''invited'') accept_refusal) (\<lambda>_.
          bind_r (guard_r (\<not> iv_expires_at row \<le> cx_at cx) accept_refusal) (\<lambda>_.
          bind_r (guard_r (hashIdentifier L (cx_scope cx) (ac_identifier input) = iv_identifier_hash row) accept_refusal) (\<lambda>_.
          bind_r (emitInvitesEvent cx ''invites.accepted'' (invitation_ref (iv_id row)) (accepted_payload cx row)
            (st\<lparr>iv_rows := update_where (\<lambda>r. iv_id r = iv_id row) (accepted_row cx) (iv_rows st)\<rparr>)) (\<lambda>st1.
          bind_r (emitInvitesEvent cx ''member.add-requested'' \<lparr>entityType = ''membership'', entityId = cx_principal cx\<rparr>
            (add_request (cx_principal cx) (tenantId (cx_node cx)) row) st1) (\<lambda>st2.
          case row_where (\<lambda>r. iv_id r = iv_id row) (iv_rows st2) of
            None \<Rightarrow> Inl (PlainError ''TypeError'')
          | Some r \<Rightarrow> bind_r (publishedInvitation (public_columns r)) (\<lambda>v. Inr (v, st2)))))))))"

definition revokeInvite :: "op_ctx \<Rightarrow> string \<Rightarrow> 'a iv_store_scheme \<Rightarrow> 'a iv_store_scheme result" where
  "revokeInvite cx i st =
     (let p = (\<lambda>r. iv_id r = i \<and> iv_state r = ''invited'') in
      if list_ex p (iv_rows st)
      then emitInvitesEvent cx ''invites.revoked'' (invitation_ref i) (JObj [(''invitationId'', JStr i)])
        (st\<lparr>iv_rows := update_where p (settled_row cx ''revoked'') (iv_rows st)\<rparr>)
      else Inr st)"

section \<open>Reads\<close>

definition rendered :: "op_ctx \<Rightarrow> invitation_row \<Rightarrow> invitation" where
  "rendered cx r = (public_columns r)\<lparr>vt_state := iv_effectiveStateOf (iv_state r) (iv_expires_at r) (cx_at cx)\<rparr>"

definition listInvites :: "op_ctx \<Rightarrow> string \<Rightarrow> 'a iv_store_scheme \<Rightarrow> invitation list result" where
  "listInvites cx org st =
     traverse (\<lambda>r. publishedInvitation (rendered cx r)) (rev (sort_key iv_id (filter (\<lambda>r. iv_org_id r = org) (iv_rows st))))"

definition readInvitation :: "op_ctx \<Rightarrow> string \<Rightarrow> 'a iv_store_scheme \<Rightarrow> invitation option result" where
  "readInvitation cx i st =
     (case row_where (\<lambda>r. iv_id r = i) (iv_rows st) of
        None \<Rightarrow> Inr None
      | Some r \<Rightarrow> bind_r (publishedInvitation (rendered cx r)) (\<lambda>v. Inr (Some v)))"

section \<open>Operations\<close>

text \<open>The input of an invocation is parsed against its declaration (\<open>operations.ts\<close>) before the handler runs.\<close>

definition send_declared :: "send_input \<Rightarrow> bool" where
  "send_declared input \<longleftrightarrow> si_orgId input \<noteq> [] \<and> si_identifier input \<noteq> [] \<and> si_roleKey input \<noteq> [] \<and>
     if_given (\<lambda>n. \<bar>n\<bar> \<le> MAX_SAFE_INTEGER) (si_ttlMs input)"

definition accept_declared :: "accept_input \<Rightarrow> bool" where
  "accept_declared input \<longleftrightarrow> ac_invitationId input \<noteq> [] \<and> ac_identifier input \<noteq> []"

definition sendOp :: "op_ctx \<Rightarrow> cap_lib \<Rightarrow> send_input \<Rightarrow> 'a iv_store_scheme \<Rightarrow> (string \<times> 'a iv_store_scheme) result" where
  "sendOp cx L input st =
     bind_r (guard_r (send_declared input) (ZodError ''invites/send'')) (\<lambda>_.
     bind_r (require cx ''invites:send'' None st) (sendInvite cx L input))"

text \<open>No check: the invitation is the authority.\<close>

definition acceptOp :: "op_ctx \<Rightarrow> cap_lib \<Rightarrow> accept_input \<Rightarrow> 'a iv_store_scheme \<Rightarrow> (invitation \<times> 'a iv_store_scheme) result" where
  "acceptOp cx L input st =
     bind_r (guard_r (accept_declared input) (ZodError ''invites/accept'')) (\<lambda>_. acceptInvite cx L input st)"

definition iv_listOp ::
  "op_ctx \<Rightarrow> string \<Rightarrow> js_number option \<Rightarrow> string option \<Rightarrow> 'a iv_store_scheme \<Rightarrow> (invitation page \<times> 'a iv_store_scheme) result" where
  "iv_listOp cx org asked cursor st =
     bind_r (guard_r (org \<noteq> []) (ZodError ''invites/list'')) (\<lambda>_.
     bind_r (require cx ''invites:read'' None st) (\<lambda>st1.
     bind_r (listInvites cx org st1) (\<lambda>vs. Inr (pageOverFold vs asked cursor vt_id False, st1))))"

definition revokeOp :: "op_ctx \<Rightarrow> string \<Rightarrow> 'a iv_store_scheme \<Rightarrow> 'a iv_store_scheme result" where
  "revokeOp cx i st =
     bind_r (guard_r (i \<noteq> []) (ZodError ''invites/revoke'')) (\<lambda>_.
     bind_r (require cx ''invites:revoke'' None st) (revokeInvite cx i))"

end
