(* ===== verification/Invites_Claims.thy ===== *)
theory Invites_Claims
  imports Invites Capability_Safety
begin

text \<open>
  What the invites engine promises.  Every call is a sequence of steps of the table and of the requests for
  membership in the outbox (\<open>iv_tab\<close>); the invariant \<open>iv_ok\<close> ties the two together and bounds the open
  invitations.  Other modules of the scope may run in between.
\<close>

section \<open>The table and the requests\<close>

lemma iv_more_rows: "scope_store.more st' = scope_store.more st \<Longrightarrow> iv_rows st' = iv_rows (st :: 'a iv_store_scheme)"
  by (cases st, cases st', simp)

definition requests :: "'a scope_store_scheme \<Rightarrow> json list" where
  "requests st = map ob_payload (filter (\<lambda>e. ob_type e = ''member.add-requested'') (outbox st))"

lemma emitInvites_Inr:
  fixes st :: "'a iv_store_scheme"
  assumes "emitInvitesEvent cx ty e payload st = Inr st'"
  shows "iv_rows st' = iv_rows st"
    and "requests st' = requests st @ (if ty = ''member.add-requested'' then [payload] else [])"
proof -
  from assms have em: "emit cx \<lparr>ev_type = ty, ev_schemaVersion = 1, ev_entity = e, ev_piiClass = PiiNone, ev_subjectId = None, ev_payload = payload\<rparr> st = Inr st'"
    by (simp add: emitInvitesEvent_def monad_simps)
  from emit_Inr(3) [OF em] show "iv_rows st' = iv_rows st" by (rule iv_more_rows)
  from emit_Inr(2) [OF em] show "requests st' = requests st @ (if ty = ''member.add-requested'' then [payload] else [])"
    by (auto simp: requests_def)
qed

lemma requests_rows [simp]: "requests (st\<lparr>iv_rows := rows\<rparr>) = requests st" for st :: "'a iv_store_scheme"
  by (simp add: requests_def)

lemma storedInvitation_Inr [monad_simps]: "storedInvitation r = Inr r' \<longleftrightarrow> r' = r \<and> iv_state r \<in> set inviteState"
  by (auto simp: storedInvitation_def monad_simps)

section \<open>Steps\<close>

text \<open>What is written once, when an invitation is sent.\<close>

definition sent_cols :: "invitation_row \<Rightarrow> string list" where
  "sent_cols r = [iv_id r, iv_org_id r, iv_identifier_hash r, iv_role_key r, iv_invited_by r, iv_created_at r, iv_expires_at r]"

definition withdraws :: "(invitation_row \<Rightarrow> invitation_row) \<Rightarrow> bool" where
  "withdraws f \<longleftrightarrow> (\<forall>r. iv_state (f r) \<in> {''revoked'', ''expired''} \<and> sent_cols (f r) = sent_cols r \<and> iv_accepted_by (f r) = iv_accepted_by r)"

inductive iv_tab :: "'a iv_store_scheme \<Rightarrow> 'a iv_store_scheme \<Rightarrow> bool" where
  untouched: "iv_rows st' = iv_rows st \<Longrightarrow> requests st' = requests st \<Longrightarrow> iv_tab st st'"
| sent: "iv_state r = ''invited'' \<Longrightarrow> iv_accepted_by r = None \<Longrightarrow> iv_id r \<notin> iv_id ` set (iv_rows st) \<Longrightarrow>
    length (filter (open_by (iv_org_id r) (iv_invited_by r)) (iv_rows st)) < MAX_OPEN_PER_SENDER \<Longrightarrow>
    \<forall>x \<in> set (iv_rows st). \<not> open_for (iv_org_id r) (iv_identifier_hash r) x \<Longrightarrow>
    iv_rows st' = iv_rows st @ [r] \<Longrightarrow> requests st' = requests st \<Longrightarrow> iv_tab st st'"
| withdrawn: "(\<And>r. P r \<Longrightarrow> iv_state r = ''invited'') \<Longrightarrow> withdraws f \<Longrightarrow>
    iv_rows st' = update_where P f (iv_rows st) \<Longrightarrow> requests st' = requests st \<Longrightarrow> iv_tab st st'"
| taken: "r \<in> set (iv_rows st) \<Longrightarrow> iv_state r = ''invited'' \<Longrightarrow> iv_rows st' = update_where (\<lambda>x. iv_id x = iv_id r) (accepted_row cx) (iv_rows st) \<Longrightarrow>
    requests st' = requests st @ [add_request (cx_principal cx) tenant r] \<Longrightarrow> iv_tab st st'"

lemma withdraws_settled: "state \<in> {''revoked'', ''expired''} \<Longrightarrow> withdraws (settled_row cx state)"
  by (simp add: withdraws_def settled_row_def sent_cols_def)

lemma expireOverdue_tab: "iv_tab st (expireOverdue cx org st)"
  by (rule iv_tab.withdrawn [of "overdue cx org" "settled_row cx ''expired''"]) (simp_all add: overdue_def withdraws_settled expireOverdue_def)

lemma ulid_rows: "ulid cx st = (i, st1) \<Longrightarrow> iv_rows st1 = iv_rows st \<and> requests st1 = requests st" for st :: "'a iv_store_scheme"
  by (auto simp: ulid_def requests_def)

lemma insert_invitation_Inr:
  fixes st :: "'a iv_store_scheme"
  assumes "insert_invitation cx L hash input st = Inr (i, st')"
  obtains e where "iv_rows st' = iv_rows st @ [new_invitation cx i hash e input]" and "i \<notin> iv_id ` set (iv_rows st)" and "requests st' = requests st"
proof -
  obtain j st1 where u: "ulid cx st = (j, st1)" by (cases "ulid cx st")
  note same = ulid_rows [OF u]
  from assms u obtain e payload where i: "i = j"
    and fresh: "\<not> list_ex (\<lambda>b. iv_id (new_invitation cx j hash e input) = iv_id b) (iv_rows st1)"
    and em: "emitInvitesEvent cx ''invites.sent'' (invitation_ref j) payload
      (st1\<lparr>iv_rows := iv_rows st1 @ [new_invitation cx j hash e input]\<rparr>) = Inr st'"
    by (auto simp: insert_invitation_def monad_simps)
  from fresh same have "j \<notin> iv_id ` set (iv_rows st)" by (auto simp: list_ex_iff new_invitation_def)
  with emitInvites_Inr [OF em] same i show thesis by (intro that [of e]) simp_all
qed

text \<open>A send finds the open invitation to the same person, or makes one.\<close>

lemma sendInvite_cases:
  fixes st :: "'a iv_store_scheme"
  assumes "sendInvite cx L input st = Inr (i, st')"
  obtains (found) r where "r \<in> set (iv_rows st')" "iv_id r = i" "open_for (si_orgId input) (hashIdentifier L (cx_scope cx) (si_identifier input)) r"
      "st' = expireOverdue cx (si_orgId input) st"
  | (made) e where "iv_rows st' = iv_rows (expireOverdue cx (si_orgId input) st) @
        [new_invitation cx i (hashIdentifier L (cx_scope cx) (si_identifier input)) e input]"
      "i \<notin> iv_id ` set (iv_rows (expireOverdue cx (si_orgId input) st))" "requests st' = requests (expireOverdue cx (si_orgId input) st)"
      "\<forall>x \<in> set (iv_rows (expireOverdue cx (si_orgId input) st)). \<not> open_for (si_orgId input) (hashIdentifier L (cx_scope cx) (si_identifier input)) x"
      "length (filter (open_by (si_orgId input) (cx_principal cx)) (iv_rows (expireOverdue cx (si_orgId input) st))) < MAX_OPEN_PER_SENDER"
proof -
  let ?st = "expireOverdue cx (si_orgId input) st"
  let ?h = "hashIdentifier L (cx_scope cx) (si_identifier input)"
  have count: "length (filter (open_by (si_orgId input) (cx_principal cx)) (iv_rows ?st)) < MAX_OPEN_PER_SENDER"
    using assms by (auto simp: sendInvite_def Let_def monad_simps)
  show thesis
  proof (cases "row_where (open_for (si_orgId input) ?h) (iv_rows ?st)")
    case None
    with assms have "insert_invitation cx L ?h input ?st = Inr (i, st')" by (auto simp: sendInvite_def Let_def monad_simps)
    then obtain e where "iv_rows st' = iv_rows ?st @ [new_invitation cx i ?h e input]" "i \<notin> iv_id ` set (iv_rows ?st)" "requests st' = requests ?st"
      by (rule insert_invitation_Inr)
    with None count show thesis by (intro made) (auto simp: row_where_None)
  next
    case (Some r)
    with assms have "i = iv_id r" "st' = ?st" by (auto simp: sendInvite_def Let_def monad_simps)
    with row_where_SomeD [OF Some] show thesis by (intro found [of r]) simp_all
  qed
qed

lemma sendInvite_tab:
  assumes "sendInvite cx L input st = Inr (i, st')"
  shows "iv_tab\<^sup>*\<^sup>* st st'"
  using assms
proof (cases rule: sendInvite_cases)
  case (found r)
  then show ?thesis using expireOverdue_tab by auto
next
  case (made e)
  then have "iv_tab (expireOverdue cx (si_orgId input) st) st'"
    by (intro iv_tab.sent [of "new_invitation cx i (hashIdentifier L (cx_scope cx) (si_identifier input)) e input"]) (simp_all add: new_invitation_def)
  with expireOverdue_tab [of st cx "si_orgId input"] show ?thesis by (meson converse_rtranclp_into_rtranclp r_into_rtranclp)
qed

text \<open>What makes an invitation acceptable to a caller.\<close>

definition acceptable :: "op_ctx \<Rightarrow> cap_lib \<Rightarrow> accept_input \<Rightarrow> invitation_row \<Rightarrow> bool" where
  "acceptable cx L input r \<longleftrightarrow> iv_id r = ac_invitationId input \<and> iv_state r = ''invited'' \<and> cx_at cx < iv_expires_at r \<and>
     iv_identifier_hash r = hashIdentifier L (cx_scope cx) (ac_identifier input)"

lemma acceptInvite_Inr:
  fixes st :: "'a iv_store_scheme"
  assumes "acceptInvite cx L input st = Inr (v, st')"
  obtains r where "r \<in> set (iv_rows st)" and "acceptable cx L input r"
    and "iv_rows st' = update_where (\<lambda>x. iv_id x = iv_id r) (accepted_row cx) (iv_rows st)"
    and "requests st' = requests st @ [add_request (cx_principal cx) (tenantId (cx_node cx)) r]"
    and "v = public_columns (accepted_row cx r)"
proof -
  let ?p = "\<lambda>r. iv_id r = ac_invitationId input"
  from assms obtain r where r: "row_where ?p (iv_rows st) = Some r"
    by (auto simp: acceptInvite_def split: option.splits)
  note row = row_where_SomeD [OF r]
  let ?st = "st\<lparr>iv_rows := update_where (\<lambda>x. iv_id x = iv_id r) (accepted_row cx) (iv_rows st)\<rparr>"
  from assms r obtain st1 where g: "iv_state r = ''invited''" "\<not> iv_expires_at r \<le> cx_at cx"
      "hashIdentifier L (cx_scope cx) (ac_identifier input) = iv_identifier_hash r"
    and e1: "emitInvitesEvent cx ''invites.accepted'' (invitation_ref (iv_id r)) (accepted_payload cx r) ?st = Inr st1"
    and e2: "emitInvitesEvent cx ''member.add-requested'' \<lparr>entityType = ''membership'', entityId = cx_principal cx\<rparr>
      (add_request (cx_principal cx) (tenantId (cx_node cx)) r) st1 = Inr st'"
    and out: "row_where (\<lambda>x. iv_id x = iv_id r) (iv_rows st') = Some r2 \<Longrightarrow> v = public_columns r2"
    and some: "row_where (\<lambda>x. iv_id x = iv_id r) (iv_rows st') \<noteq> None" for r2
    by (auto simp: acceptInvite_def publishedInvitation_def monad_simps split: option.splits)
  note 1 = emitInvites_Inr [OF e1] and 2 = emitInvites_Inr [OF e2]
  have rows: "iv_rows st' = update_where (\<lambda>x. iv_id x = iv_id r) (accepted_row cx) (iv_rows st)" using 1 2 by simp
  have "row_where (\<lambda>x. iv_id x = iv_id r) (iv_rows st') = map_option (\<lambda>x. if iv_id x = iv_id r then accepted_row cx x else x)
      (row_where (\<lambda>x. iv_id x = iv_id r) (iv_rows st))"
    unfolding rows by (rule row_where_update_where) (simp add: accepted_row_def)
  then have "row_where (\<lambda>x. iv_id x = iv_id r) (iv_rows st') = Some (accepted_row cx r)" using r row by simp
  with g row 1 2 out show thesis by (intro that [of r]) (auto simp: acceptable_def)
qed

lemma acceptInvite_tab: "acceptInvite cx L input st = Inr (v, st') \<Longrightarrow> iv_tab st st'"
  by (erule acceptInvite_Inr, rule iv_tab.taken) (auto simp: acceptable_def)

lemma revokeInvite_tab:
  assumes "revokeInvite cx i st = Inr st'"
  shows "iv_tab st st'"
proof (cases "list_ex (\<lambda>r. iv_id r = i \<and> iv_state r = ''invited'') (iv_rows st)")
  case True
  with assms obtain payload where "emitInvitesEvent cx ''invites.revoked'' (invitation_ref i) payload
      (st\<lparr>iv_rows := update_where (\<lambda>r. iv_id r = i \<and> iv_state r = ''invited'') (settled_row cx ''revoked'') (iv_rows st)\<rparr>) = Inr st'"
    by (auto simp: revokeInvite_def)
  note em = emitInvites_Inr [OF this]
  show ?thesis
    by (rule iv_tab.withdrawn [of "\<lambda>r. iv_id r = i \<and> iv_state r = ''invited''" "settled_row cx ''revoked''"])
      (simp_all add: em withdraws_settled)
qed (use assms in \<open>auto simp: revokeInvite_def intro: iv_tab.untouched\<close>)

section \<open>Runs\<close>

text \<open>The calls of the engine, by an operation or inside one, between what other modules do.\<close>

inductive iv_step :: "cap_lib \<Rightarrow> 'a iv_store_scheme \<Rightarrow> 'a iv_store_scheme \<Rightarrow> bool" for L where
  send: "sendInvite cx L input st = Inr (i, st') \<Longrightarrow> iv_step L st st'"
| accept: "acceptInvite cx L acc st = Inr (v, st') \<Longrightarrow> iv_step L st st'"
| revoke: "revokeInvite cx i st = Inr st' \<Longrightarrow> iv_step L st st'"
| expire: "iv_step L st (expireOverdue cx org st)"
| elsewhere: "iv_rows st' = iv_rows st \<Longrightarrow> requests st' = requests st \<Longrightarrow> iv_step L st st'"

abbreviation iv_run :: "cap_lib \<Rightarrow> 'a iv_store_scheme \<Rightarrow> 'a iv_store_scheme \<Rightarrow> bool" where
  "iv_run L \<equiv> (iv_step L)\<^sup>*\<^sup>*"

lemma require_elsewhere:
  fixes st :: "'a iv_store_scheme"
  assumes "require cx p e st = Inr st'"
  shows "iv_step L st st'"
  using iv_more_rows [OF require_Inr(4) [OF assms]] require_Inr(2) [OF assms]
  by (intro iv_step.elsewhere) (simp_all add: requests_def)

lemma iv_run_two: "iv_step L a b \<Longrightarrow> iv_step L b c \<Longrightarrow> iv_run L a c"
  by (meson converse_rtranclp_into_rtranclp r_into_rtranclp)

lemma sendOp_run:
  assumes "sendOp cx L input st = Inr (i, st')"
  shows "iv_run L st st'"
  using assms by (auto simp: sendOp_def monad_simps intro: iv_run_two [OF require_elsewhere iv_step.send])

lemma acceptOp_run: "acceptOp cx L input st = Inr (v, st') \<Longrightarrow> iv_run L st st'"
  by (auto simp: acceptOp_def monad_simps intro: r_into_rtranclp iv_step.accept)

lemma revokeOp_run:
  assumes "revokeOp cx i st = Inr st'"
  shows "iv_run L st st'"
  using assms by (auto simp: revokeOp_def monad_simps intro: iv_run_two [OF require_elsewhere iv_step.revoke])

lemma iv_listOp_run:
  assumes "iv_listOp cx org asked cursor st = Inr (v, st')"
  shows "iv_run L st st'"
  using assms by (auto simp: iv_listOp_def monad_simps intro!: r_into_rtranclp require_elsewhere)

lemma iv_step_tab: "iv_step L st st' \<Longrightarrow> iv_tab\<^sup>*\<^sup>* st st'"
  by (induction rule: iv_step.induct)
    (auto intro: sendInvite_tab r_into_rtranclp acceptInvite_tab revokeInvite_tab expireOverdue_tab iv_tab.untouched)

lemma iv_run_tab: "iv_run L st st' \<Longrightarrow> iv_tab\<^sup>*\<^sup>* st st'"
  by (induction rule: rtranclp_induct) (auto dest: iv_step_tab)

section \<open>The invariant\<close>

text \<open>The requests an invitation led to, each as who joins which organisation in which role.\<close>

definition requested_by :: "string \<Rightarrow> json list \<Rightarrow> json list" where
  "requested_by i js = filter (\<lambda>j. jprop ''invitationId'' j = Some (JStr i)) js"

definition membership :: "json \<Rightarrow> json option list" where
  "membership j = [jprop ''principal'' j, jprop ''orgId'' j, jprop ''roleKey'' j]"

definition due_to :: "invitation_row \<Rightarrow> json option list list" where
  "due_to r = (case iv_accepted_by r of None \<Rightarrow> [] | Some p \<Rightarrow> [[Some (JStr p), Some (JStr (iv_org_id r)), Some (JStr (iv_role_key r))]])"

definition iv_ok :: "'a iv_store_scheme \<Rightarrow> bool" where
  "iv_ok st \<longleftrightarrow> distinct (map iv_id (iv_rows st)) \<and>
     (\<forall>r \<in> set (iv_rows st). iv_state r \<in> set inviteState \<and> (iv_accepted_by r = None \<longleftrightarrow> iv_state r \<noteq> ''accepted'')) \<and>
     (\<forall>r \<in> set (iv_rows st). map membership (requested_by (iv_id r) (requests st)) = due_to r) \<and>
     (\<forall>j \<in> set (requests st). \<exists>r \<in> set (iv_rows st). jprop ''invitationId'' j = Some (JStr (iv_id r))) \<and>
     (\<forall>org sender. length (filter (open_by org sender) (iv_rows st)) \<le> MAX_OPEN_PER_SENDER) \<and>
     (\<forall>org h. length (filter (open_for org h) (iv_rows st)) \<le> 1)"

lemma iv_okD:
  assumes "iv_ok st"
  shows "distinct (map iv_id (iv_rows st))" and "r \<in> set (iv_rows st) \<Longrightarrow> iv_state r \<in> set inviteState"
    and "r \<in> set (iv_rows st) \<Longrightarrow> iv_accepted_by r = None \<longleftrightarrow> iv_state r \<noteq> ''accepted''"
    and "r \<in> set (iv_rows st) \<Longrightarrow> map membership (requested_by (iv_id r) (requests st)) = due_to r"
    and "j \<in> set (requests st) \<Longrightarrow> \<exists>r \<in> set (iv_rows st). jprop ''invitationId'' j = Some (JStr (iv_id r))"
    and "length (filter (open_by org sender) (iv_rows st)) \<le> MAX_OPEN_PER_SENDER"
    and "length (filter (open_for org h) (iv_rows st)) \<le> 1"
  using assms by (auto simp: iv_ok_def)

lemma unique_invitation: "distinct (map iv_id rows) \<Longrightarrow> r \<in> set rows \<Longrightarrow> x \<in> set rows \<Longrightarrow> iv_id x = iv_id r \<Longrightarrow> x = r"
  by (metis distinct_map inj_onD)

text \<open>A step that closes open invitations leaves fewer of them.\<close>

lemma filter_update_le:
  assumes "\<And>r. r \<in> set rows \<Longrightarrow> P r \<Longrightarrow> \<not> Q (f r)"
  shows "length (filter Q (update_where P f rows)) \<le> length (filter Q rows)"
  using assms by (induction rows) (auto simp: update_where_def)

lemma closed_not_open:
  "iv_state r \<noteq> ''invited'' \<Longrightarrow> \<not> open_by org sender r" "iv_state r \<noteq> ''invited'' \<Longrightarrow> \<not> open_for org h r"
  by (simp_all add: open_by_def open_for_def)

lemma withdrawsD:
  assumes "withdraws f"
  shows "iv_id (f r) = iv_id r" and "iv_org_id (f r) = iv_org_id r" and "iv_role_key (f r) = iv_role_key r"
    and "iv_state (f r) \<noteq> ''invited''" and "iv_state (f r) \<noteq> ''accepted''" and "iv_state (f r) \<in> set inviteState"
    and "iv_accepted_by (f r) = iv_accepted_by r"
  using assms by (auto simp: withdraws_def sent_cols_def inviteState_def dest: spec [of _ r])

lemma requested_by_add: "requested_by i (js @ [add_request p tn r]) = requested_by i js @ (if i = iv_id r then [add_request p tn r] else [])"
  by (simp add: requested_by_def add_request_def)

lemma membership_add: "membership (add_request p tn r) = [Some (JStr p), Some (JStr (iv_org_id r)), Some (JStr (iv_role_key r))]"
  by (simp add: membership_def add_request_def)

lemma no_request_yet:
  assumes "iv_ok st" and "i \<notin> iv_id ` set (iv_rows st)"
  shows "requested_by i (requests st) = []"
  using iv_okD(5) [OF assms(1)] assms(2) by (fastforce simp: requested_by_def filter_empty_conv)

lemma iv_ok_untouched: "iv_ok st \<Longrightarrow> iv_rows st' = iv_rows st \<Longrightarrow> requests st' = requests st \<Longrightarrow> iv_ok st'"
  by (simp add: iv_ok_def)

lemma iv_ok_sent:
  assumes ok: "iv_ok st" and r: "iv_state r = ''invited''" "iv_accepted_by r = None" "iv_id r \<notin> iv_id ` set (iv_rows st)"
    and bound: "length (filter (open_by (iv_org_id r) (iv_invited_by r)) (iv_rows st)) < MAX_OPEN_PER_SENDER"
    and once: "\<forall>x \<in> set (iv_rows st). \<not> open_for (iv_org_id r) (iv_identifier_hash r) x"
    and st': "iv_rows st' = iv_rows st @ [r]" "requests st' = requests st"
  shows "iv_ok st'"
proof -
  note o = iv_okD [OF ok]
  have "map membership (requested_by (iv_id r) (requests st)) = due_to r"
    using no_request_yet [OF ok r(3)] r(2) by (simp add: due_to_def)
  moreover have "length (filter (open_by org sender) (iv_rows st')) \<le> MAX_OPEN_PER_SENDER" for org sender
    using o(6) [of org sender] bound by (auto simp: st' open_by_def [of org sender r])
  moreover have "length (filter (open_for org h) (iv_rows st')) \<le> 1" for org h
    using o(7) [of org h] once by (auto simp: st' open_for_def [of org h r] filter_empty_conv)
  ultimately show ?thesis
    using o(1-5) r by (auto simp: iv_ok_def st' inviteState_def)
qed

lemma iv_ok_withdrawn:
  assumes ok: "iv_ok st" and P: "\<And>r. P r \<Longrightarrow> iv_state r = ''invited''" and f: "withdraws f"
    and st': "iv_rows st' = update_where P f (iv_rows st)" "requests st' = requests st"
  shows "iv_ok st'"
proof -
  note o = iv_okD [OF ok] and w = withdrawsD [OF f]
  have "distinct (map iv_id (iv_rows st'))" using o(1) by (simp add: st' map_update_where w(1))
  moreover have "iv_state x \<in> set inviteState \<and> (iv_accepted_by x = None \<longleftrightarrow> iv_state x \<noteq> ''accepted'') \<and>
      map membership (requested_by (iv_id x) (requests st)) = due_to x" if x: "x \<in> set (iv_rows st')" for x
  proof -
    from x obtain r where r: "r \<in> set (iv_rows st)" "x = (if P r then f r else r)" by (auto simp: st' set_update_where)
    then show ?thesis using o(2-4) [OF r(1)] P [of r] w [of r] by (auto simp: due_to_def split: if_splits)
  qed
  moreover have "\<exists>x \<in> set (iv_rows st'). jprop ''invitationId'' j = Some (JStr (iv_id x))" if j: "j \<in> set (requests st)" for j
  proof -
    from o(5) [OF j] obtain r where r: "r \<in> set (iv_rows st)" "jprop ''invitationId'' j = Some (JStr (iv_id r))" by blast
    then show ?thesis by (intro bexI [of _ "if P r then f r else r"]) (auto simp: st' set_update_where w(1))
  qed
  moreover have "length (filter (open_by org sender) (iv_rows st')) \<le> MAX_OPEN_PER_SENDER" for org sender
    using filter_update_le [of "iv_rows st" P "open_by org sender" f] o(6) [of org sender] w(4) by (simp add: st' closed_not_open)
  moreover have "length (filter (open_for org h) (iv_rows st')) \<le> 1" for org h
    using filter_update_le [of "iv_rows st" P "open_for org h" f] o(7) [of org h] w(4) by (simp add: st' closed_not_open)
  ultimately show ?thesis by (simp add: iv_ok_def st'(2))
qed

lemma accepted_row_cols [simp]:
  "iv_id (accepted_row cx r) = iv_id r" "iv_org_id (accepted_row cx r) = iv_org_id r" "iv_role_key (accepted_row cx r) = iv_role_key r"
  "iv_state (accepted_row cx r) = ''accepted''" "iv_accepted_by (accepted_row cx r) = Some (cx_principal cx)"
  "sent_cols (accepted_row cx r) = sent_cols r"
  by (simp_all add: accepted_row_def sent_cols_def)

lemma iv_ok_taken:
  assumes ok: "iv_ok st" and r: "r \<in> set (iv_rows st)" "iv_state r = ''invited''"
    and st': "iv_rows st' = update_where (\<lambda>x. iv_id x = iv_id r) (accepted_row cx) (iv_rows st)"
      "requests st' = requests st @ [add_request (cx_principal cx) tenant r]"
  shows "iv_ok st'"
proof -
  note o = iv_okD [OF ok]
  have "iv_state x \<in> set inviteState \<and> (iv_accepted_by x = None \<longleftrightarrow> iv_state x \<noteq> ''accepted'') \<and>
      map membership (requested_by (iv_id x) (requests st')) = due_to x" if x: "x \<in> set (iv_rows st')" for x
  proof -
    from x obtain y where y: "y \<in> set (iv_rows st)" "x = (if iv_id y = iv_id r then accepted_row cx y else y)" by (auto simp: st' set_update_where)
    show ?thesis
    proof (cases "iv_id y = iv_id r")
      case True
      with y have x: "x = accepted_row cx r" using unique_invitation [OF o(1) r(1) y(1)] by simp
      have "due_to r = []" using o(3) [OF r(1)] r(2) by (simp add: due_to_def)
      then have "requested_by (iv_id r) (requests st) = []" using o(4) [OF r(1)] by simp
      then show ?thesis by (simp add: x st'(2) requested_by_add membership_add due_to_def inviteState_def)
    next
      case False
      with y o(2-4) [OF y(1)] show ?thesis by (simp add: st'(2) requested_by_add)
    qed
  qed
  moreover have "\<exists>x \<in> set (iv_rows st'). jprop ''invitationId'' j = Some (JStr (iv_id x))" if j: "j \<in> set (requests st')" for j
  proof -
    have "\<exists>y \<in> set (iv_rows st). jprop ''invitationId'' j = Some (JStr (iv_id y))"
      using j o(5) [of j] r(1) by (auto simp: st'(2) add_request_def)
    then obtain y where y: "y \<in> set (iv_rows st)" "jprop ''invitationId'' j = Some (JStr (iv_id y))" by blast
    then show ?thesis
      by (intro bexI [of _ "if iv_id y = iv_id r then accepted_row cx y else y"]) (auto simp: st'(1) set_update_where)
  qed
  moreover have "distinct (map iv_id (iv_rows st'))" using o(1) by (simp add: st'(1) map_update_where)
  moreover have "length (filter (open_by org sender) (iv_rows st')) \<le> MAX_OPEN_PER_SENDER" for org sender
    using filter_update_le [of "iv_rows st" "\<lambda>x. iv_id x = iv_id r" "open_by org sender" "accepted_row cx"] o(6) [of org sender]
    by (simp add: st'(1) closed_not_open)
  moreover have "length (filter (open_for org h) (iv_rows st')) \<le> 1" for org h
    using filter_update_le [of "iv_rows st" "\<lambda>x. iv_id x = iv_id r" "open_for org h" "accepted_row cx"] o(7) [of org h]
    by (simp add: st'(1) closed_not_open)
  ultimately show ?thesis by (simp add: iv_ok_def)
qed

lemma iv_tab_ok:
  assumes "iv_tab st st'" and "iv_ok st"
  shows "iv_ok st'"
  using assms(1)
proof cases
  case untouched
  with assms(2) show ?thesis by (rule iv_ok_untouched)
next
  case (sent r)
  with assms(2) show ?thesis by (rule iv_ok_sent)
next
  case (withdrawn P f)
  from assms(2) withdrawn show ?thesis by (rule iv_ok_withdrawn)
next
  case (taken r cx tenant)
  with assms(2) show ?thesis by (rule iv_ok_taken)
qed

lemma iv_tabs_ok: "iv_tab\<^sup>*\<^sup>* st st' \<Longrightarrow> iv_ok st \<Longrightarrow> iv_ok st'"
  by (induction rule: rtranclp_induct) (auto intro: iv_tab_ok)

lemma iv_run_ok: "iv_run L st st' \<Longrightarrow> iv_ok st \<Longrightarrow> iv_ok st'"
  using iv_run_tab iv_tabs_ok by blast

lemma iv_ok_start: "iv_rows st = [] \<Longrightarrow> requests st = [] \<Longrightarrow> iv_ok st"
  by (simp add: iv_ok_def)

section \<open>What stays of an invitation\<close>

text \<open>What was sent stays; a settled row stays whole.\<close>

definition row_stays :: "invitation_row \<Rightarrow> invitation_row \<Rightarrow> bool" where
  "row_stays r r' \<longleftrightarrow> sent_cols r' = sent_cols r \<and> (iv_state r = ''invited'' \<or> r' = r)"

definition iv_keeps :: "'a iv_store_scheme \<Rightarrow> 'a iv_store_scheme \<Rightarrow> bool" where
  "iv_keeps st st' \<longleftrightarrow> (\<forall>r \<in> set (iv_rows st). \<exists>r' \<in> set (iv_rows st'). row_stays r r')"

lemma iv_tab_keeps:
  assumes "iv_tab st st'" and "iv_ok st"
  shows "iv_keeps st st'"
  using assms
proof (induction rule: iv_tab.induct)
  case (withdrawn P f st' st)
  have "\<exists>x \<in> set (iv_rows st'). row_stays r x" if "r \<in> set (iv_rows st)" for r
    using that withdrawn(1) [of r] withdrawn(2)
    by (intro bexI [of _ "if P r then f r else r"]) (auto simp: withdrawn(3) set_update_where row_stays_def withdraws_def)
  then show ?case by (simp add: iv_keeps_def)
next
  case (taken r st st' cx tenant)
  have "\<exists>x \<in> set (iv_rows st'). row_stays y x" if y: "y \<in> set (iv_rows st)" for y
    using y taken(2) unique_invitation [OF iv_okD(1) [OF taken(5)] taken(1) y]
    by (intro bexI [of _ "if iv_id y = iv_id r then accepted_row cx y else y"]) (auto simp: taken(3) set_update_where row_stays_def)
  then show ?case by (simp add: iv_keeps_def)
qed (auto simp: iv_keeps_def row_stays_def)

lemma iv_keeps_trans: "iv_keeps st st1 \<Longrightarrow> iv_keeps st1 st2 \<Longrightarrow> iv_keeps st st2"
  unfolding iv_keeps_def row_stays_def by (metis (no_types, lifting))

lemma iv_run_keeps:
  assumes "iv_run L st st'" and "iv_ok st"
  shows "iv_keeps st st'"
proof -
  from assms(1) have "iv_tab\<^sup>*\<^sup>* st st'" by (rule iv_run_tab)
  then show ?thesis
  proof (induction rule: rtranclp_induct)
    case base
    show ?case by (auto simp: iv_keeps_def row_stays_def)
  next
    case (step y z)
    with assms(2) have "iv_keeps y z" by (intro iv_tab_keeps iv_tabs_ok [of st y])
    with step.IH show ?case by (rule iv_keeps_trans)
  qed
qed

text \<open>The invitation a send answers: to that organisation, for that person.\<close>

lemma sent_row:
  assumes "sendInvite cx L input st = Inr (i, st')"
  shows "\<exists>r \<in> set (iv_rows st'). iv_id r = i \<and> iv_org_id r = si_orgId input \<and>
     iv_identifier_hash r = hashIdentifier L (cx_scope cx) (si_identifier input)"
  using assms by (cases rule: sendInvite_cases) (auto simp: open_for_def new_invitation_def)

lemma hash_decides:
  assumes "hashIdentifier L s a = hashIdentifier L s b" and "inj_on (cl_sha256 L) ((\<lambda>w. s @ '':'' @ normalised w) ` {a, b})"
  shows "normalised a = normalised b"
proof -
  from assms(1) have "cl_sha256 L (s @ '':'' @ normalised a) = cl_sha256 L (s @ '':'' @ normalised b)"
    unfolding hashIdentifier_def by (rule hex_inj)
  with assms(2) show ?thesis by (auto dest: inj_onD)
qed

section \<open>Refusals\<close>

lemma emit_not_refusal: "emitInvitesEvent cx ty e payload st \<noteq> Inl accept_refusal"
proof
  assume "emitInvitesEvent cx ty e payload st = Inl accept_refusal"
  then show False
    by (auto simp: emitInvitesEvent_def emit_def writeEvent_def assertImpersonationWrites_def assertModuleEmittableType_def accept_refusal_def
      monad_simps split: option.splits prod.splits)
qed

lemma accept_chosen:
  assumes "iv_ok st" and "r \<in> set (iv_rows st)" and "acceptable cx L acc r"
  shows "acceptInvite cx L acc st \<noteq> Inl accept_refusal"
proof -
  have id: "iv_id r = ac_invitationId acc" using assms(3) by (simp add: acceptable_def)
  have "row_where (\<lambda>r. iv_id r = ac_invitationId acc) (iv_rows st) = Some r"
  proof (cases "row_where (\<lambda>r. iv_id r = ac_invitationId acc) (iv_rows st)")
    case None
    with assms(2) id show ?thesis by (auto simp: row_where_None)
  next
    case (Some x)
    with row_where_SomeD [OF Some] unique_invitation [OF iv_okD(1) [OF assms(1)] assms(2), of x] id show ?thesis by simp
  qed
  with assms(3) iv_okD(2) [OF assms(1,2)] show ?thesis
    by (auto simp: acceptInvite_def acceptable_def storedInvitation_def returns_def publishedInvitation_def accept_refusal_def
      bind_r_Inl_iff not_le emit_not_refusal [unfolded accept_refusal_def] split: option.splits)
qed

lemma accept_none:
  assumes "iv_ok st" and "\<forall>r \<in> set (iv_rows st). \<not> acceptable cx L acc r"
  shows "acceptInvite cx L acc st = Inl accept_refusal"
proof (cases "row_where (\<lambda>r. iv_id r = ac_invitationId acc) (iv_rows st)")
  case (Some r)
  with row_where_SomeD [OF Some] have r: "r \<in> set (iv_rows st)" "iv_id r = ac_invitationId acc" by simp_all
  with assms(2) have "\<not> acceptable cx L acc r" by blast
  with Some r iv_okD(2) [OF assms(1) r(1)] show ?thesis
    by (auto simp: acceptInvite_def acceptable_def storedInvitation_def returns_def guard_r_def)
qed (simp add: acceptInvite_def)

section \<open>Reading and settling\<close>

definition unstamped :: "invitation \<Rightarrow> invitation" where
  "unstamped v = v\<lparr>vt_settled_at := None\<rparr>"

lemma published_settled:
  "bind_r (publishedInvitation (rendered cx (if overdue cx org r then settled_row cx ''expired'' r else r))) (\<lambda>v. Inr (unstamped v)) =
   bind_r (publishedInvitation (rendered cx r)) (\<lambda>v. Inr (unstamped v))"
  by (auto simp: publishedInvitation_def returns_def rendered_def public_columns_def settled_row_def overdue_def iv_effectiveStateOf_def
    unstamped_def inviteState_def)

lemma traverse_map_bind:
  assumes "\<And>x. bind_r (f (g x)) (\<lambda>v. Inr (h v)) = bind_r (f x) (\<lambda>v. Inr (h v))"
  shows "bind_r (traverse f (map g xs)) (\<lambda>vs. Inr (map h vs)) = bind_r (traverse f xs) (\<lambda>vs. Inr (map h vs))"
proof (induction xs)
  case (Cons x xs)
  have split: "bind_r (traverse f (y # ys)) (\<lambda>vs. Inr (map h vs)) =
      bind_r (bind_r (f y) (\<lambda>v. Inr (h v))) (\<lambda>w. bind_r (bind_r (traverse f ys) (\<lambda>vs. Inr (map h vs))) (\<lambda>ws. Inr (w # ws)))" for y ys
    by (cases "f y"; cases "traverse f ys") simp_all
  show ?case using Cons.IH assms [of x] by (simp only: split list.map)
qed simp

section \<open>A small scope\<close>

definition demo_invites :: iv_store where
  "demo_invites = \<lparr>tuples = [], outbox = [], passed = [], drawn = 0, iv_rows = []\<rparr>"

definition demo_send :: send_input where
  "demo_send = \<lparr>si_orgId = ''O1'', si_identifier = ''Ada@Example.org '', si_roleKey = ''member'', si_ttlMs = None\<rparr>"

definition demo_accept :: "string \<Rightarrow> accept_input" where
  "demo_accept i = \<lparr>ac_invitationId = i, ac_identifier = ''ada@example.ORG''\<rparr>"

lemma demo_invites_ok: "iv_ok demo_invites"
  by (rule iv_ok_start) (simp_all add: demo_invites_def requests_def)

lemma demo_taken:
  obtains i s1 v s2 where "sendInvite demo_ctx demo_lib demo_send demo_invites = Inr (i, s1)"
    and "acceptInvite demo_ctx demo_lib (demo_accept i) s1 = Inr (v, s2)" and "requested_by i (requests s2) \<noteq> []"
    and "iv_id ` set (iv_rows s1) = {i}" and "acceptInvite demo_ctx demo_lib (demo_accept i) s2 = Inl accept_refusal"
proof -
  have "is_ok (bind_r (sendInvite demo_ctx demo_lib demo_send demo_invites) (\<lambda>(i, s1).
      bind_r (acceptInvite demo_ctx demo_lib (demo_accept i) s1) (\<lambda>(v, s2).
        guard_r (requested_by i (requests s2) \<noteq> [] \<and> map iv_id (iv_rows s1) = [i] \<and>
          acceptInvite demo_ctx demo_lib (demo_accept i) s2 = Inl accept_refusal) (PlainError []))))"
    by code_simp
  then show thesis by (fastforce simp: is_ok_bind is_ok_iff monad_simps intro: that)
qed

text \<open>
  A month later the invitation is read as expired, and revoking it still records and announces a withdrawal:
  \<open>revokeInvite\<close> looks at the stored state alone.
\<close>

definition demo_later :: op_ctx where
  "demo_later = demo_ctx\<lparr>cx_at := ''2026-02-01T00:00:00.000Z''\<rparr>"

lemma overdue_still_revoked:
  "bind_r (sendInvite demo_ctx demo_lib demo_send demo_invites) (\<lambda>(i, s1).
     bind_r (listInvites demo_later ''O1'' s1) (\<lambda>before.
     bind_r (revokeInvite demo_later i s1) (\<lambda>s2.
     bind_r (listInvites demo_later ''O1'' s2) (\<lambda>vs. Inr (map vt_state before, map vt_state vs, map ob_type (outbox s2)))))) =
   Inr ([''expired''], [''revoked''], [''invites.sent'', ''invites.revoked''])"
  by code_simp

section \<open>Promises\<close>

theorem list_renders_settling:
  "bind_r (listInvites cx org (expireOverdue cx org st)) (\<lambda>vs. Inr (map unstamped vs)) =
   bind_r (listInvites cx org st) (\<lambda>vs. Inr (map unstamped vs))"
proof -
  let ?g = "\<lambda>r. if overdue cx org r then settled_row cx ''expired'' r else r"
  let ?f = "\<lambda>r. publishedInvitation (rendered cx r)"
  let ?xs = "rev (sort_key iv_id (filter (\<lambda>r. iv_org_id r = org) (iv_rows st)))"
  have cols: "iv_id (?g r) = iv_id r" "iv_org_id (?g r) = iv_org_id r" for r by (simp_all add: settled_row_def)
  have rows: "iv_rows (expireOverdue cx org st) = map ?g (iv_rows st)" by (simp add: expireOverdue_def update_where_def)
  have "filter (\<lambda>r. iv_org_id r = org) (map ?g (iv_rows st)) = map ?g (filter (\<lambda>r. iv_org_id r = org) (iv_rows st))"
    by (simp only: filter_map comp_def cols)
  then have "rev (sort_key iv_id (filter (\<lambda>r. iv_org_id r = org) (iv_rows (expireOverdue cx org st)))) = map ?g ?xs"
    unfolding rows by (simp only: sort_map_key cols rev_map)
  then have "listInvites cx org (expireOverdue cx org st) = traverse ?f (map ?g ?xs)" by (simp only: listInvites_def)
  with traverse_map_bind [of ?f ?g unstamped ?xs, OF published_settled] show ?thesis by (simp only: listInvites_def)
qed

text \<open>
  C21. A membership is asked for once per accepted invitation and never otherwise.  Whatever calls of the engine
  are made in a scope that starts without invitations, an accepted invitation has led to exactly one request,
  for the principal who accepted it, with the organisation and the role it was sent with; an invitation that
  is open, revoked or expired has led to none, and every request in the outbox comes from an accepted one.
\<close>

theorem membership_requested_once:
  assumes "iv_rows st0 = []" and "requests st0 = []" and "iv_run L st0 st"
  shows "(\<forall>r \<in> set (iv_rows st). map membership (requested_by (iv_id r) (requests st)) =
       (if iv_state r = ''accepted''
        then [[Some (JStr (the (iv_accepted_by r))), Some (JStr (iv_org_id r)), Some (JStr (iv_role_key r))]] else [])) \<and>
     (\<forall>j \<in> set (requests st). \<exists>r \<in> set (iv_rows st). iv_state r = ''accepted'' \<and> jprop ''invitationId'' j = Some (JStr (iv_id r)))"
proof -
  have ok: "iv_ok st" using iv_run_ok [OF assms(3) iv_ok_start [OF assms(1,2)]] .
  have "iv_state r = ''accepted''" if "j \<in> set (requests st)" "r \<in> set (iv_rows st)" "jprop ''invitationId'' j = Some (JStr (iv_id r))" for j r
  proof -
    from that have "j \<in> set (requested_by (iv_id r) (requests st))" by (simp add: requested_by_def)
    then have "map membership (requested_by (iv_id r) (requests st)) \<noteq> []" by auto
    then have "iv_accepted_by r \<noteq> None" using iv_okD(4) [OF ok that(2)] by (auto simp: due_to_def split: option.splits)
    then show ?thesis using iv_okD(3) [OF ok that(2)] by simp
  qed
  then show ?thesis using iv_okD(3,4,5) [OF ok] by (fastforce simp: due_to_def split: option.splits)
qed

theorem membership_requested_once_witness:
  "\<exists>st. iv_run demo_lib demo_invites st \<and> requests st \<noteq> [] \<and>
     (\<forall>r \<in> set (iv_rows st). length (requested_by (iv_id r) (requests st)) \<le> 1)"
proof -
  obtain i s1 v s2 where run: "sendInvite demo_ctx demo_lib demo_send demo_invites = Inr (i, s1)"
    "acceptInvite demo_ctx demo_lib (demo_accept i) s1 = Inr (v, s2)" and ne: "requested_by i (requests s2) \<noteq> []"
    by (rule demo_taken)
  then have "iv_run demo_lib demo_invites s2" by (intro iv_run_two [OF iv_step.send iv_step.accept])
  moreover from membership_requested_once [OF _ _ this]
  have one: "\<forall>r \<in> set (iv_rows s2). map membership (requested_by (iv_id r) (requests s2)) =
      (if iv_state r = ''accepted''
       then [[Some (JStr (the (iv_accepted_by r))), Some (JStr (iv_org_id r)), Some (JStr (iv_role_key r))]] else [])"
    by (simp add: demo_invites_def requests_def)
  have "length (requested_by (iv_id r) (requests s2)) \<le> 1" if "r \<in> set (iv_rows s2)" for r
    using arg_cong [OF bspec [OF one that], of length] by (simp split: if_splits)
  moreover have "requests s2 \<noteq> []" using ne by (auto simp: requested_by_def)
  ultimately show ?thesis by blast
qed

text \<open>
  C22. An invitation is not a bearer token.  Take the id a send answered, whether for a new invitation or the open
  one to the same person, and any calls after it: whoever accepts that id presents, up to case and
  surrounding blanks, the identifier given to the send, does so before the deadline, and what is asked for
  is a membership of theirs in the organisation of the send.  The two texts must not collide under SHA-256.
\<close>

theorem invitation_proves_identity:
  assumes "iv_ok st" and "sendInvite cx L input st = Inr (i, st1)" and "iv_run L st1 st2"
    and "acceptInvite cx' L acc st2 = Inr (v, st3)" and "ac_invitationId acc = i" and "cx_scope cx' = cx_scope cx"
    and "inj_on (cl_sha256 L) ((\<lambda>w. cx_scope cx @ '':'' @ normalised w) ` {ac_identifier acc, si_identifier input})"
  shows "normalised (ac_identifier acc) = normalised (si_identifier input) \<and> vt_org_id v = si_orgId input \<and>
     cx_at cx' < vt_expires_at v \<and> vt_accepted_by v = Some (cx_principal cx') \<and>
     (\<exists>j. requests st3 = requests st2 @ [j] \<and>
       membership j = [Some (JStr (cx_principal cx')), Some (JStr (si_orgId input)), Some (JStr (vt_role_key v))])"
proof -
  have ok1: "iv_ok st1" using iv_tabs_ok [OF sendInvite_tab [OF assms(2)] assms(1)] .
  from sent_row [OF assms(2)] obtain r where r: "r \<in> set (iv_rows st1)" "iv_id r = i" "iv_org_id r = si_orgId input"
    "iv_identifier_hash r = hashIdentifier L (cx_scope cx) (si_identifier input)" by blast
  with iv_run_keeps [OF assms(3) ok1] obtain r2 where r2: "r2 \<in> set (iv_rows st2)" "sent_cols r2 = sent_cols r"
    unfolding iv_keeps_def row_stays_def by blast
  from assms(4) obtain x where x: "x \<in> set (iv_rows st2)" "acceptable cx' L acc x"
    "requests st3 = requests st2 @ [add_request (cx_principal cx') (tenantId (cx_node cx')) x]" "v = public_columns (accepted_row cx' x)"
    by (rule acceptInvite_Inr)
  have "iv_id x = iv_id r2" using x(2) r(2) r2(2) assms(5) by (simp add: acceptable_def sent_cols_def)
  then have eq: "x = r2" by (rule unique_invitation [OF iv_okD(1) [OF iv_run_ok [OF assms(3) ok1]] r2(1) x(1)])
  with x(2) r r2(2) assms(6) have "hashIdentifier L (cx_scope cx) (ac_identifier acc) = hashIdentifier L (cx_scope cx) (si_identifier input)"
    by (simp add: acceptable_def sent_cols_def)
  from hash_decides [OF this assms(7)] show ?thesis
    using x(2-4) eq r r2(2) by (simp add: acceptable_def sent_cols_def public_columns_def membership_add accepted_row_def)
qed

theorem invitation_proves_identity_witness:
  "\<exists>i s1 v s2. sendInvite demo_ctx demo_lib demo_send demo_invites = Inr (i, s1) \<and>
     acceptInvite demo_ctx demo_lib (demo_accept i) s1 = Inr (v, s2) \<and>
     normalised (ac_identifier (demo_accept i)) = normalised (si_identifier demo_send) \<and> vt_accepted_by v = Some demo_p2"
proof -
  obtain i s1 v s2 where run: "sendInvite demo_ctx demo_lib demo_send demo_invites = Inr (i, s1)"
    "acceptInvite demo_ctx demo_lib (demo_accept i) s1 = Inr (v, s2)" by (rule demo_taken)
  have "ac_invitationId (demo_accept i) = i" by (simp add: demo_accept_def)
  from invitation_proves_identity [OF demo_invites_ok run(1) rtranclp.rtrancl_refl run(2) this refl demo_hash_inj] run
  show ?thesis by (auto simp: demo_ctx_def cx_principal_def)
qed

text \<open>
  Standing offers are bounded.  Whatever calls are made in a scope that starts without invitations, one
  principal has at most twenty-five open invitations in an organisation, and a person has at most one open
  invitation to it, however often and by whomever they are invited.
\<close>

theorem open_invitations_bounded:
  assumes "iv_rows st0 = []" and "requests st0 = []" and "iv_run L st0 st"
  shows "length (filter (open_by org sender) (iv_rows st)) \<le> 25 \<and> length (filter (open_for org h) (iv_rows st)) \<le> 1"
  using iv_okD(6,7) [OF iv_run_ok [OF assms(3) iv_ok_start [OF assms(1,2)]]] by (simp add: MAX_OPEN_PER_SENDER_def)

theorem open_invitations_bounded_witness:
  "\<exists>i st. sendInvite demo_ctx demo_lib demo_send demo_invites = Inr (i, st) \<and> iv_rows st \<noteq> [] \<and>
     length (filter (open_for ''O1'' h) (iv_rows st)) \<le> 1"
proof -
  obtain i s1 where run: "sendInvite demo_ctx demo_lib demo_send demo_invites = Inr (i, s1)" "iv_id ` set (iv_rows s1) = {i}"
    by (rule demo_taken)
  have "iv_run demo_lib demo_invites s1" using run(1) by (intro r_into_rtranclp iv_step.send)
  from open_invitations_bounded [OF _ _ this, of "''O1''" demo_p2 h] run show ?thesis by (auto simp: demo_invites_def requests_def)
qed

text \<open>
  C23. A refused acceptance tells nothing.  It goes through for an open invitation with that id, not yet at its
  deadline, whose hash is that of the identifier presented; when there is none the answer is one and the
  same error, and that error is given in no other case: a wrong id, another person, a settled and an overdue
  invitation cannot be told apart.
\<close>

theorem accept_refusals_alike:
  assumes "iv_ok st"
  shows "acceptInvite cx L acc st = Inl (PlainError ''invitation is not acceptable'') \<longleftrightarrow> \<not> (\<exists>r \<in> set (iv_rows st). acceptable cx L acc r)"
  using accept_chosen [OF assms, of _ cx L acc] accept_none [OF assms, of cx L acc] unfolding accept_refusal_def by blast

theorem accept_refusals_alike_witness:
  "\<exists>i s1 v s2. sendInvite demo_ctx demo_lib demo_send demo_invites = Inr (i, s1) \<and>
     acceptInvite demo_ctx demo_lib (demo_accept i) s1 = Inr (v, s2) \<and>
     acceptInvite demo_ctx demo_lib (demo_accept i) s2 = acceptInvite demo_ctx demo_lib (demo_accept ''nobody'') demo_invites"
proof -
  obtain i s1 v s2 where run: "sendInvite demo_ctx demo_lib demo_send demo_invites = Inr (i, s1)"
    "acceptInvite demo_ctx demo_lib (demo_accept i) s1 = Inr (v, s2)"
    and again: "acceptInvite demo_ctx demo_lib (demo_accept i) s2 = Inl accept_refusal" by (rule demo_taken)
  have "acceptInvite demo_ctx demo_lib (demo_accept ''nobody'') demo_invites = Inl accept_refusal"
    unfolding accept_refusal_def by (subst accept_refusals_alike [OF demo_invites_ok]) (simp add: demo_invites_def)
  with run again show ?thesis by auto
qed

end
