(* ===== verification/Spec2Isabelle.thy ===== *)
theory Spec2Isabelle
  imports Sqlite_Checker Billing Executors Booking_Calendar Metering Entity_Claims Absence_Claims Invites_Claims
begin

text \<open>
  A verification library for Substrat, a multi-tenant platform kernel written in TypeScript.

  \<^bold>\<open>The program.\<close>  A tenant has scopes; a scope is one SQLite database that holds the tables of the
  modules installed in it beside the kernel's own: permission tuples, an outbox of domain events and a
  journal of deliveries.  Module code runs in an operation context, which lets it ask for permissions,
  delegate them, declare parent edges between entities and emit events, all in one transaction.  After
  the commit the host drains the outbox, first to the consumers of other modules, each in a
  transaction of its own, then to executors, host code that acts outside the scope.  Engines are
  modules shared between verticals; work orders and invoicing meet only through an event, booking,
  metering, absence and invites stand alone.

  \<^bold>\<open>The theories\<close>, from the bottom up, with the sources they model (under \<open>packages/\<close> where no other
  directory is named):

  \<^item> \<open>Substrat_Prelude\<close>: the result type, list and table lemmas, strings.
  \<^item> \<open>Permission_Model\<close>: references, keys, subjects, nodes, decisions
    (\<open>contracts/src/object-ref.ts\<close>, \<open>ids.ts\<close>, \<open>permission.ts\<close>, \<open>kernel/src/permission-checker.ts\<close>).
  \<^item> \<open>Permission_Eval\<close>: \<open>kernel/src/permission-eval.ts\<close>, function by function: \<open>check\<close> with its role,
    grant and org rules, the breadth-first walk over parent edges, capabilities, \<open>covers\<close>,
    \<open>holdingsOf\<close>, the tenant bound and the org bounds.  A reader of tuples is a record of functions.
    \<open>Permission_Facts\<close> and \<open>Permission_Bounds\<close> prove what the evaluator decides, over any reader.
  \<^item> \<open>Sqlite_Checker\<close>: the reader the SQLite adapter builds from its tables
    (\<open>adapter-sqlite/src/checker.ts\<close>), which interprets the locales of the evaluator.
  \<^item> \<open>Scope_Host\<close>: the store of a scope and \<open>ctx.check\<close>, \<open>ctx.emit\<close>, \<open>ctx.grant\<close>, \<open>ctx.revoke\<close>
    (\<open>adapter-sqlite/src/index.ts\<close>, \<open>operationContext\<close>; \<open>kernel/src/entity-grant.ts\<close>).
  \<^item> \<open>Entity_Edges\<close>: \<open>link\<close> and \<open>relink\<close> with the cycle check (\<open>kernel/src/entity-edges.ts\<close>).
  \<^item> \<open>Lifecycle\<close>: declared state machines, their load-time check, transitions and emission
    (\<open>contracts/src/lifecycle.ts\<close>).
  \<^item> \<open>Money\<close>: decimal amounts as strings over integer micro-units (\<open>contracts/src/money.ts\<close>).
  \<^item> \<open>Engine_Base\<close>: what the engines share: \<open>returns\<close>, the views of JSON payloads, the locale
    \<open>governed_store\<close> of a table whose status column follows a declared lifecycle.
  \<^item> \<open>Instants\<close>: optional inputs and the two functions of \<open>Date\<close> the booking and
    metering engines call, as a library with named laws; decimals and text shapes.
  \<^item> \<open>Workorder\<close>: the work order engine (\<open>engines/workorder/src\<close>), every operation that writes.
  \<^item> \<open>Invoicing\<close>: the invoicing engine (\<open>engines/invoicing/src\<close>): its three consumers, \<open>invoicing/get\<close>
    and \<open>invoicing/export\<close>.
  \<^item> \<open>Booking\<close>: the reservation engine (\<open>engines/booking/src\<close>): resources, reservations, participants and
    the operations that change them.  \<open>Booking_Calendar\<close> holds its reads: the lists and the sweep that
    computes free capacity.
  \<^item> \<open>Metering\<close>: the usage ledger (\<open>engines/metering/src\<close>): meters, entries, window totals and closed
    periods.
  \<^item> \<open>Absence\<close>: the absence engine (\<open>engines/absence/src\<close>): leave types, the ledger of days, requests and their
    decisions, the sweep of stale ones and the read of covered days.  \<open>Absence_Days\<close> proves the calendar
    walk of that read, \<open>Absence_Ledger\<close> the invariant between ledger and requests, and
    \<open>Absence_Claims\<close> what the engine promises.
  \<^item> \<open>Invites\<close>: the invites engine (\<open>engines/invites/src\<close>): invitations keyed by a hash of the address they
    were sent to, their acceptance, withdrawal and expiry.  \<open>Invites_Claims\<close> ties them to the requests for
    membership in the outbox.
  \<^item> \<open>Capability_Directory\<close>: capabilities, authority carried by a secret (\<open>kernel/src/capability.ts\<close>,
    \<open>contracts/src/capability.ts\<close>): the two tables, \<open>ctx.capabilities\<close>, the decoding of rows, the session
    door.  \<open>Entity_Binding\<close>: records that name their own person (\<open>kernel/src/entity-binding.ts\<close>): the
    judgement, the claim, the unbind, an erasure.  \<open>Capability_Exchange\<close>: the exchange of a secret, the
    mints of links by the platform and by principals, their revokes and states, with the host verbs of
    \<open>adapter-sqlite/src/index.ts\<close>.  \<open>Capability_Runs\<close> reduces every verb to what it may do to the tables
    and composes them to runs; \<open>Capability_Safety\<close> and \<open>Entity_Claims\<close> hold what follows.
  \<^item> \<open>Pagination\<close>: the pages every list read is cut into, and the walk over rows the caller may see
    only in part (\<open>contracts/src/pagination.ts\<close>).  The locale \<open>keyset_pages\<close> says what a producer of
    pages promises; it is interpreted on the folded page here, which the metering lists use, and on the
    two paged reads of the booking engine.
  \<^item> \<open>Delivery\<close>: the drain to consumers (\<open>adapter-sqlite/src/index.ts\<close>, \<open>dispatch\<close>,
    \<open>dispatchRounds\<close>), for any consumers: the locale \<open>event_consumers\<close> says what the operation context
    lets a handler do to the outbox, \<open>ranked_consumers\<close> that cascades of events end.
  \<^item> \<open>Billing\<close>: the two engines composed by the drain; it interprets \<open>ranked_consumers\<close> on the
    invoicing consumers.
  \<^item> \<open>Executors\<close>: the drain to executors with retry, backoff and the rule that a copy of a scope acts on
    nothing (\<open>dispatchExecutorsPass\<close>, \<open>recordExecutorDelivery\<close>, \<open>kernel/src/connector-transport.ts\<close>,
    \<open>scope-identity.ts\<close>).

  \<^bold>\<open>How the code is rendered.\<close>  An operation is a function from a context and a store to
  \<open>err + result\<close>; a throw is \<open>Inl\<close>, and since an operation runs in a transaction a throw leaves the
  store it began with.  A table is a list of records in insertion order; a primary key or a unique
  column is a clash predicate that makes an insert throw.  An engine's store extends the scope's
  record.  Timestamps and ids are strings compared as SQLite compares them.  JSON payloads are a
  datatype, so that a producer's payload is parsed by the consumer's own schema.  Ids, the clock, the
  random source, SHA-256, the decoding of a stored event and the trash predicate are fields of the contexts.

  \<^bold>\<open>What is shown.\<close>
  Authority: the checker decides a declarative notion of authority and never throws over well-formed
  tables; every allow of a subject that is not a capability carries a proof made of live rows; a capability never exceeds its minter; the
  bulk bounds agree with single checks; delegation by anyone but a system actor never
  elevates; it takes effect unless an expired grant stands there, and ends when revoked.
  Capabilities: a mint delegates what its minter holds and nothing more; a limit on uses is kept and a
  revocation is final along every run; a session acts until it ends; becoming someone needs everything
  they hold, and a link yields only what was judged, as long as SHA-256 does not collide on the two texts
  compared; a claim binds a free record and an unbind frees it;
  the reported state of a link is what its exchange answers.
  Structure: the parent graph stays acyclic under any interleaving of the verbs; a relink moves one
  edge.
  Lifecycles: the load-time check accepts exactly the coherent declarations, an accepted machine is
  closed, refusals carry only declared vocabulary, the emitted form has the same transitions.
  Money: rendering and reading are inverse, multiplication is within half a micro-unit, sums are exact.
  Engines: orders move only along their lifecycle, reports are append-only, totals are exact; a
  customer has one open basis in one currency, a redelivered document is billed once, an exported
  basis is frozen; a resource is never allocated beyond its capacity at any instant, free capacity is
  answered exactly, a roster keeps to its places, and a settled reservation frees its slot for good;
  an observation is metered once, a window total is exact, and the lines of a closed period stay what
  the ledger gives for its window; a balance of leave is what was recorded less the days of the approved
  requests, the floor decides an approval, a cancellation gives back exactly what was taken, a sweep
  clears the stale requests, and the days answered are exactly those covered, from the year 100 on; an accepted invitation asks for
  one membership, whoever accepts it presents the address it was sent to, a refusal does not say why, and
  open invitations are bounded.
  Pages: following the cursors yields every row once; a filtered page ends, and its cursor is that of its
  own last row or what the codec of the scope seals as hidden.
  Dispatch: an event reaches a module at most once; the invoicing consumers leave nothing pending; the
  lines of a completed order, where the delivery is taken, arrive on a basis of its customer and add up to
  the total; executors attempt what is
  due, never more often than their policy allows, and not at all in a copy.
  Fourteen statements record behaviour that is not what the code or its comments say: an expired grant is not
  renewed by a re-grant, a negative tie is rounded away from zero, a quantity that is no decimal locks
  a basis, a unit price in a foreign currency leaves a completed order unbilled, a hold is refused
  where the sweep reports the capacity free, a period closed into the future shuts the
  ledger, a claimed seat can be given a second key by an older link, a role redefined leaves an open
  link alive, a request of leave whose first day has passed is still approved, an accrual may take days
  away, a sweep reads the day of an instant as a calendar date, an availability over the first
  century answers days of the twentieth, the mark an overdue acceptance leaves is rolled back, and an overdue
  invitation is still revoked.

  \<^bold>\<open>Bounds.\<close>  The entity walk is bounded by the code at four edges, so \<open>walk_levels\<close> recurses on that
  bound; the cycle check has no bound in the code, and \<open>up_walk\<close> terminates because every round adds
  a reference of a finite table.  A drain runs at most fifty rounds in the code; fifty are shown to be
  enough for the invoicing consumers, whose events nobody there consumes.  The walk over visible rows is a
  \<open>partial_function\<close>, shown to return; the walk over dates terminates on the distance to its end.  No definition uses fuel that the code has not.

  \<^bold>\<open>Not modelled.\<close>  Pages the kernel composes itself (\<open>ctx.page\<close>) and grant-scoped enumeration; the scan for minted
  secrets in what a module writes; pulling the kill switch; the reconciliation of grant shapes; provisioning, routing, migrations, schedules, attachments,
  peers and the rest of the SQLite adapter; the Cloudflare adapter, which implements the same contract
  on another runtime; the control plane, the command line, the user interface, the connectors, the
  demos and the applications, which are I/O and composition around this core.  Log lines and
  invocation ids carry no decision and are left out.
\<close>

end
